(* ===== verification/Hotsheet_Prelude.thy ===== *)
theory Hotsheet_Prelude
  imports Main "HOL-Library.Word" "HOL-Library.List_Lexorder" "HOL-Library.Char_ord"
    "HOL-Library.Multiset"
begin

text \<open>
  Shared vocabulary of the development: Rust's \<open>Ordering\<close> and the comparator
  combinators (\<open>then\<close>, \<open>reverse\<close>, \<open>cmp\<close>), the stable \<open>sort_by\<close>, \<open>min_by\<close> and
  \<open>max_by\<close> of the standard library, the \<open>Option\<close> predicates the source uses
  (\<open>is_none_or\<close>, \<open>is_some_and\<close>), order-preserving deduplication, and the lemma
  collections the component theories extend.  The locale \<open>total_cmp\<close> is the contract of
  a comparator that is a total preorder; the lemmas on sorting and selection are proved
  once inside it and reach the components through interpretations.
\<close>

named_theorems op_simps \<open>definitions of the pure ticket transformations\<close>
named_theorems store_simps \<open>unfolding and frame facts of the file store\<close>
named_theorems str_simps \<open>evaluation of the byte-string operations\<close>

subsection \<open>Results\<close>

text \<open>Rust's \<open>Result<T, E>\<close> is the sum type with the error on the left.\<close>

definition result_bind :: "'e + 'a \<Rightarrow> ('a \<Rightarrow> 'e + 'b) \<Rightarrow> 'e + 'b" where
  "result_bind r f = (case r of Inl e \<Rightarrow> Inl e | Inr x \<Rightarrow> f x)"

lemma result_bind_simps [simp]:
  "result_bind (Inl e) f = Inl e" "result_bind (Inr x) f = f x"
  by (simp_all add: result_bind_def)

lemma result_bind_eq_Inr: "result_bind r f = Inr y \<longleftrightarrow> (\<exists>x. r = Inr x \<and> f x = Inr y)"
  by (cases r) simp_all

fun result_map :: "('a \<Rightarrow> 'e + 'b) \<Rightarrow> 'a list \<Rightarrow> 'e + 'b list" where
  "result_map f [] = Inr []"
| "result_map f (x # xs) =
     result_bind (f x) (\<lambda>y. result_bind (result_map f xs) (\<lambda>ys. Inr (y # ys)))"

lemma result_map_Inr:
  "(\<And>x. x \<in> set xs \<Longrightarrow> f x = Inr (g x)) \<Longrightarrow> result_map f xs = Inr (map g xs)"
  by (induction xs) auto

lemma result_map_Inr_iff:
  "result_map f xs = Inr ys \<longleftrightarrow> list_all2 (\<lambda>x y. f x = Inr y) xs ys"
  by (induction xs arbitrary: ys) (auto simp: result_bind_eq_Inr list_all2_Cons1)

subsection \<open>Option predicates\<close>

definition is_none_or :: "'a option \<Rightarrow> ('a \<Rightarrow> bool) \<Rightarrow> bool" where
  "is_none_or x p = (case x of None \<Rightarrow> True | Some v \<Rightarrow> p v)"

definition is_some_and :: "'a option \<Rightarrow> ('a \<Rightarrow> bool) \<Rightarrow> bool" where
  "is_some_and x p = (case x of None \<Rightarrow> False | Some v \<Rightarrow> p v)"

definition is_some :: "'a option \<Rightarrow> bool" where
  "is_some x = (case x of None \<Rightarrow> False | Some _ \<Rightarrow> True)"

definition opt_filter :: "('a \<Rightarrow> bool) \<Rightarrow> 'a option \<Rightarrow> 'a option" where
  "opt_filter p x = (case x of None \<Rightarrow> None | Some v \<Rightarrow> if p v then Some v else None)"

definition opt_or :: "'a option \<Rightarrow> 'a option \<Rightarrow> 'a option" where
  "opt_or x y = (case x of None \<Rightarrow> y | Some v \<Rightarrow> Some v)"

definition unwrap_or :: "'a option \<Rightarrow> 'a \<Rightarrow> 'a" where
  "unwrap_or x d = (case x of None \<Rightarrow> d | Some v \<Rightarrow> v)"

lemma option_pred_simps [simp]:
  "is_none_or None p" "is_none_or (Some v) p = p v"
  "\<not> is_some_and None p" "is_some_and (Some v) p = p v"
  "\<not> is_some None" "is_some (Some v)"
  "opt_filter q None = None" "opt_filter q (Some v) = (if q v then Some v else None)"
  "opt_or None y = y" "opt_or (Some v) y = Some v"
  "unwrap_or None d = d" "unwrap_or (Some v) d = v"
  by (simp_all add: is_none_or_def is_some_and_def is_some_def opt_filter_def opt_or_def
      unwrap_or_def)

lemma is_some_iff: "is_some x \<longleftrightarrow> x \<noteq> None"
  by (cases x) simp_all

lemma is_some_and_iff: "is_some_and x p \<longleftrightarrow> (\<exists>v. x = Some v \<and> p v)"
  by (cases x) simp_all

lemma is_none_or_iff: "is_none_or x p \<longleftrightarrow> (\<forall>v. x = Some v \<longrightarrow> p v)"
  by (cases x) simp_all

subsection \<open>Orderings and comparators\<close>

datatype ordering = Less | Equal | Greater

fun ord_reverse :: "ordering \<Rightarrow> ordering" where
  "ord_reverse Less = Greater"
| "ord_reverse Equal = Equal"
| "ord_reverse Greater = Less"

fun ord_then :: "ordering \<Rightarrow> ordering \<Rightarrow> ordering" where
  "ord_then Less _ = Less"
| "ord_then Equal b = b"
| "ord_then Greater _ = Greater"

definition ord_cmp :: "'a::linorder \<Rightarrow> 'a \<Rightarrow> ordering" where
  "ord_cmp x y = (if x < y then Less else if x = y then Equal else Greater)"

definition directed :: "bool \<Rightarrow> ordering \<Rightarrow> ordering" where
  "directed descending r = (if descending then ord_reverse r else r)"

lemma ord_cmp_iff [simp]:
  "ord_cmp x y = Less \<longleftrightarrow> x < y"
  "ord_cmp x y = Equal \<longleftrightarrow> x = y"
  "ord_cmp x y = Greater \<longleftrightarrow> y < x"
  by (auto simp: ord_cmp_def)

lemma ord_cmp_reverse: "ord_reverse (ord_cmp x y) = ord_cmp y x"
  by (auto simp: ord_cmp_def)

lemma ord_reverse_iff [simp]:
  "ord_reverse r = Less \<longleftrightarrow> r = Greater"
  "ord_reverse r = Equal \<longleftrightarrow> r = Equal"
  "ord_reverse r = Greater \<longleftrightarrow> r = Less"
  "ord_reverse (ord_reverse r) = r"
  by (cases r; simp)+

lemma ord_then_iff:
  "ord_then a b = Less \<longleftrightarrow> a = Less \<or> a = Equal \<and> b = Less"
  "ord_then a b = Equal \<longleftrightarrow> a = Equal \<and> b = Equal"
  "ord_then a b = Greater \<longleftrightarrow> a = Greater \<or> a = Equal \<and> b = Greater"
  by (cases a; simp)+

lemma ord_reverse_then: "ord_reverse (ord_then a b) = ord_then (ord_reverse a) (ord_reverse b)"
  by (cases a; simp)

lemma directed_iff [simp]:
  "directed d r = Equal \<longleftrightarrow> r = Equal"
  "directed False r = r" "directed True r = ord_reverse r"
  by (auto simp: directed_def)

subsection \<open>Stable sorting and selection\<close>

text \<open>
  \<open>slice::sort_by\<close> is a stable sort.  For a comparator that is a total preorder every
  stable sort has the same result, so insertion after the equal elements models it; for
  a comparator that is not, Rust leaves the result unspecified (and may panic), and the
  theorems on sorted results below assume the contract \<open>total_cmp\<close>.
\<close>

fun insert_by :: "('a \<Rightarrow> 'a \<Rightarrow> ordering) \<Rightarrow> 'a \<Rightarrow> 'a list \<Rightarrow> 'a list" where
  "insert_by cmp x [] = [x]"
| "insert_by cmp x (y # ys) =
     (if cmp x y = Greater then y # insert_by cmp x ys else x # y # ys)"

fun sort_by :: "('a \<Rightarrow> 'a \<Rightarrow> ordering) \<Rightarrow> 'a list \<Rightarrow> 'a list" where
  "sort_by cmp [] = []"
| "sort_by cmp (x # xs) = insert_by cmp x (sort_by cmp xs)"

text \<open>\<open>Iterator::min_by\<close> returns the first of several minima, \<open>max_by\<close> the last maximum.\<close>

fun min_by_from :: "('a \<Rightarrow> 'a \<Rightarrow> ordering) \<Rightarrow> 'a \<Rightarrow> 'a list \<Rightarrow> 'a" where
  "min_by_from cmp best [] = best"
| "min_by_from cmp best (x # xs) =
     min_by_from cmp (if cmp best x = Greater then x else best) xs"

fun min_by :: "('a \<Rightarrow> 'a \<Rightarrow> ordering) \<Rightarrow> 'a list \<Rightarrow> 'a option" where
  "min_by cmp [] = None"
| "min_by cmp (x # xs) = Some (min_by_from cmp x xs)"

fun max_by_from :: "('a \<Rightarrow> 'a \<Rightarrow> ordering) \<Rightarrow> 'a \<Rightarrow> 'a list \<Rightarrow> 'a" where
  "max_by_from cmp best [] = best"
| "max_by_from cmp best (x # xs) =
     max_by_from cmp (if cmp best x = Greater then best else x) xs"

fun max_by :: "('a \<Rightarrow> 'a \<Rightarrow> ordering) \<Rightarrow> 'a list \<Rightarrow> 'a option" where
  "max_by cmp [] = None"
| "max_by cmp (x # xs) = Some (max_by_from cmp x xs)"

lemma mset_insert_by [simp]: "mset (insert_by cmp x xs) = {#x#} + mset xs"
  by (induction xs) auto

lemma mset_sort_by [simp]: "mset (sort_by cmp xs) = mset xs"
  by (induction xs) auto

lemma set_insert_by [simp]: "set (insert_by cmp x xs) = insert x (set xs)"
  by (induction xs) auto

lemma set_sort_by [simp]: "set (sort_by cmp xs) = set xs"
  by (induction xs) auto

lemma length_sort_by [simp]: "length (sort_by cmp xs) = length xs"
  by (metis mset_sort_by size_mset)

lemma distinct_sort_by [simp]: "distinct (sort_by cmp xs) = distinct xs"
  by (metis mset_sort_by mset_eq_imp_distinct_iff)

lemma sort_by_eq_Nil [simp]: "sort_by cmp xs = [] \<longleftrightarrow> xs = []"
  by (metis length_0_conv length_sort_by)

lemma distinct_map_sort_by [simp]: "distinct (map f (sort_by cmp xs)) = distinct (map f xs)"
  by (metis mset_eq_imp_distinct_iff mset_map mset_sort_by)

lemma min_by_from_in: "min_by_from cmp x xs \<in> insert x (set xs)"
  by (induction xs arbitrary: x) (auto split: if_splits)

lemma min_by_in_set: "min_by cmp xs = Some x \<Longrightarrow> x \<in> set xs"
  using min_by_from_in[of cmp] by (cases xs) force+

lemma min_by_None [simp]: "min_by cmp xs = None \<longleftrightarrow> xs = []"
  by (cases xs) auto

lemma max_by_from_in: "max_by_from cmp x xs \<in> insert x (set xs)"
  by (induction xs arbitrary: x) (auto split: if_splits)

lemma max_by_in_set: "max_by cmp xs = Some x \<Longrightarrow> x \<in> set xs"
  using max_by_from_in[of cmp] by (cases xs) force+

lemma max_by_None [simp]: "max_by cmp xs = None \<longleftrightarrow> xs = []"
  by (cases xs) auto

definition sorted_by :: "('a \<Rightarrow> 'a \<Rightarrow> ordering) \<Rightarrow> 'a list \<Rightarrow> bool" where
  "sorted_by cmp = sorted_wrt (\<lambda>x y. cmp x y \<noteq> Greater)"

text \<open>
  The contract of a comparator that is a total preorder on the values in \<open>dom\<close>; the
  domain matters where the source's comparator is only one on well-formed values.
\<close>

locale total_cmp =
  fixes cmp :: "'a \<Rightarrow> 'a \<Rightarrow> ordering"
    and ok :: "'a \<Rightarrow> bool"
  assumes cmp_refl: "ok x \<Longrightarrow> cmp x x = Equal"
    and cmp_sym: "ok x \<Longrightarrow> ok y \<Longrightarrow> cmp y x = ord_reverse (cmp x y)"
    and cmp_trans: "ok x \<Longrightarrow> ok y \<Longrightarrow> ok z \<Longrightarrow>
      cmp x y \<noteq> Greater \<Longrightarrow> cmp y z \<noteq> Greater \<Longrightarrow> cmp x z \<noteq> Greater"
begin

lemma sorted_insert_by:
  assumes "\<forall>y \<in> set xs. ok y" "ok x" "sorted_by cmp xs"
  shows "sorted_by cmp (insert_by cmp x xs)"
  using assms
proof (induction xs)
  case Nil
  then show ?case by (simp add: sorted_by_def)
next
  case (Cons y ys)
  show ?case
  proof (cases "cmp x y = Greater")
    case True
    with Cons have "cmp y x \<noteq> Greater" using cmp_sym[of x y] by simp
    with Cons True show ?thesis by (auto simp: sorted_by_def)
  next
    case False
    have "cmp x z \<noteq> Greater" if "z \<in> set ys" for z
      using Cons.prems that False cmp_trans[of x y z] by (auto simp: sorted_by_def)
    with Cons False show ?thesis by (auto simp: sorted_by_def)
  qed
qed

lemma sorted_sort_by: "\<forall>x \<in> set xs. ok x \<Longrightarrow> sorted_by cmp (sort_by cmp xs)"
  by (induction xs) (auto simp: sorted_by_def intro: sorted_insert_by[unfolded sorted_by_def])

lemma insert_by_sorted_id:
  "sorted_by cmp (x # xs) \<Longrightarrow> insert_by cmp x xs = x # xs"
  by (cases xs) (auto simp: sorted_by_def)

lemma sort_by_sorted_id: "sorted_by cmp xs \<Longrightarrow> sort_by cmp xs = xs"
  by (induction xs) (auto simp: sorted_by_def intro!: insert_by_sorted_id[unfolded sorted_by_def])

lemma sort_by_idem: "\<forall>x \<in> set xs. ok x \<Longrightarrow> sort_by cmp (sort_by cmp xs) = sort_by cmp xs"
  by (simp add: sort_by_sorted_id sorted_sort_by)

lemma min_by_from_least:
  assumes "ok b" "\<forall>y \<in> set xs. ok y" "y \<in> insert b (set xs)"
  shows "cmp (min_by_from cmp b xs) y \<noteq> Greater"
  using assms
proof (induction xs arbitrary: b y)
  case Nil
  then show ?case using cmp_refl[of b] by simp
next
  case (Cons x xs)
  let ?b = "if cmp b x = Greater then x else b"
  have ok: "ok ?b" using Cons.prems by simp
  have le: "cmp ?b y \<noteq> Greater" if "y = b \<or> y = x"
    using that Cons.prems cmp_refl[of b] cmp_refl[of x] cmp_sym[of b x] by (auto split: if_splits)
  have low: "cmp (min_by_from cmp ?b xs) ?b \<noteq> Greater"
    by (rule Cons.IH) (use ok Cons.prems in auto)
  have okm: "ok (min_by_from cmp ?b xs)"
    using min_by_from_in[of cmp ?b xs] ok Cons.prems by auto
  show ?case
  proof (cases "y \<in> set xs")
    case True
    then show ?thesis using Cons.IH[of ?b y] ok Cons.prems by simp
  next
    case False
    with Cons.prems have "y = b \<or> y = x" by auto
    with le low okm ok Cons.prems show ?thesis
      using cmp_trans[of "min_by_from cmp ?b xs" ?b y] by auto
  qed
qed

lemma min_by_least:
  assumes "\<forall>y \<in> set xs. ok y" "min_by cmp xs = Some m" "y \<in> set xs"
  shows "cmp m y \<noteq> Greater"
  using assms min_by_from_least[of "hd xs" "tl xs" y] by (cases xs) auto

lemma max_by_from_greatest:
  assumes "ok b" "\<forall>y \<in> set xs. ok y" "y \<in> insert b (set xs)"
  shows "cmp y (max_by_from cmp b xs) \<noteq> Greater"
  using assms
proof (induction xs arbitrary: b y)
  case Nil
  then show ?case using cmp_refl[of b] by simp
next
  case (Cons x xs)
  let ?b = "if cmp b x = Greater then b else x"
  have ok: "ok ?b" using Cons.prems by simp
  have le: "cmp y ?b \<noteq> Greater" if "y = b \<or> y = x"
    using that Cons.prems cmp_refl[of b] cmp_refl[of x] cmp_sym[of b x] by (auto split: if_splits)
  have up: "cmp ?b (max_by_from cmp ?b xs) \<noteq> Greater"
    by (rule Cons.IH) (use ok Cons.prems in auto)
  have okm: "ok (max_by_from cmp ?b xs)"
    using max_by_from_in[of cmp ?b xs] ok Cons.prems by auto
  show ?case
  proof (cases "y \<in> set xs")
    case True
    then show ?thesis using Cons.IH[of ?b y] ok Cons.prems by simp
  next
    case False
    with Cons.prems have "y = b \<or> y = x" by auto
    with le up okm ok Cons.prems show ?thesis
      using cmp_trans[of y ?b "max_by_from cmp ?b xs"] by auto
  qed
qed

lemma max_by_greatest:
  assumes "\<forall>y \<in> set xs. ok y" "max_by cmp xs = Some m" "y \<in> set xs"
  shows "cmp y m \<noteq> Greater"
  using assms max_by_from_greatest[of "hd xs" "tl xs" y] by (cases xs) auto

end

text \<open>A comparator that is a total order: equal only on equal keys.\<close>

locale strict_total_cmp = total_cmp +
  fixes key :: "'a \<Rightarrow> 'k"
  assumes cmp_key: "ok x \<Longrightarrow> ok y \<Longrightarrow> cmp x y = Equal \<Longrightarrow> key x = key y"
begin

lemma sorted_strict:
  assumes "sorted_by cmp xs" "distinct (map key xs)" "\<forall>x \<in> set xs. ok x"
  shows "sorted_wrt (\<lambda>x y. cmp x y = Less) xs"
  using assms
proof (induction xs)
  case Nil
  then show ?case by simp
next
  case (Cons x xs)
  have "cmp x y = Less" if "y \<in> set xs" for y
  proof -
    from Cons.prems that have "cmp x y \<noteq> Greater" by (auto simp: sorted_by_def)
    moreover from Cons.prems that have "cmp x y \<noteq> Equal" using cmp_key[of x y] by force
    ultimately show ?thesis by (cases "cmp x y") auto
  qed
  with Cons show ?case by (auto simp: sorted_by_def)
qed

text \<open>Two sorted lists of the same elements are equal when no key occurs twice.\<close>

lemma sorted_unique:
  assumes "sorted_by cmp xs" "sorted_by cmp ys" "mset xs = mset ys"
    "distinct (map key xs)" "\<forall>x \<in> set xs. ok x"
  shows "xs = ys"
  using assms
proof (induction xs arbitrary: ys)
  case Nil
  then show ?case by simp
next
  case (Cons x xs)
  then obtain y ys' where ys: "ys = y # ys'" by (cases ys) auto
  have sets: "insert x (set xs) = insert y (set ys')"
    using Cons.prems(3) ys mset_eq_setD[of "x # xs" ys] by simp
  have "x = y"
  proof (rule ccontr)
    assume "x \<noteq> y"
    then have "x \<in> set ys'" "y \<in> set xs" using sets by auto
    then have "cmp x y \<noteq> Greater" "cmp y x \<noteq> Greater" "ok x" "ok y"
      using Cons.prems ys by (auto simp: sorted_by_def)
    then have "cmp x y = Equal" using cmp_sym[of x y] by (cases "cmp x y") auto
    then have "key x = key y" using cmp_key[of x y] \<open>ok x\<close> \<open>ok y\<close> by simp
    with \<open>y \<in> set xs\<close> Cons.prems(4) show False by (auto simp: image_iff)
  qed
  moreover have "xs = ys'"
    by (rule Cons.IH) (use Cons.prems ys \<open>x = y\<close> in \<open>auto simp: sorted_by_def\<close>)
  ultimately show ?case using ys by simp
qed

lemma sort_by_unique:
  assumes "sorted_by cmp xs" "mset xs = mset ys" "distinct (map key xs)" "\<forall>x \<in> set xs. ok x"
  shows "sort_by cmp ys = xs"
proof -
  have "\<forall>x \<in> set ys. ok x" using assms(2,4) mset_eq_setD by blast
  then have "sorted_by cmp (sort_by cmp ys)" by (rule sorted_sort_by)
  then show ?thesis using sorted_unique[OF assms(1), of "sort_by cmp ys"] assms by simp
qed

end

text \<open>
  Comparators are built from keys: the contract is stable under comparing by a key, under
  reversal and under \<open>then\<close>.
\<close>

lemma total_cmp_key: "total_cmp (\<lambda>a b. ord_cmp (f a) (f b)) ok"
  by unfold_locales (auto simp: ord_cmp_reverse)

lemma total_cmp_flip:
  assumes "total_cmp c ok"
  shows "total_cmp (\<lambda>a b. c b a) ok"
proof unfold_locales
  fix x y z
  show "ok x \<Longrightarrow> c x x = Equal" using assms by (rule total_cmp.cmp_refl)
  show "ok x \<Longrightarrow> ok y \<Longrightarrow> c x y = ord_reverse (c y x)"
    using assms by (rule total_cmp.cmp_sym)
  show "ok x \<Longrightarrow> ok y \<Longrightarrow> ok z \<Longrightarrow> c y x \<noteq> Greater \<Longrightarrow> c z y \<noteq> Greater \<Longrightarrow> c z x \<noteq> Greater"
    using total_cmp.cmp_trans[OF assms] by blast
qed

lemma total_cmp_reverse:
  assumes "total_cmp c ok"
  shows "total_cmp (\<lambda>a b. ord_reverse (c a b)) ok"
proof unfold_locales
  fix x y z
  note sym = total_cmp.cmp_sym[OF assms]
  show "ok x \<Longrightarrow> ord_reverse (c x x) = Equal" using total_cmp.cmp_refl[OF assms] by simp
  show "ok x \<Longrightarrow> ok y \<Longrightarrow> ord_reverse (c y x) = ord_reverse (ord_reverse (c x y))"
    using sym[of x y] by simp
  show "ok x \<Longrightarrow> ok y \<Longrightarrow> ok z \<Longrightarrow> ord_reverse (c x y) \<noteq> Greater \<Longrightarrow>
      ord_reverse (c y z) \<noteq> Greater \<Longrightarrow> ord_reverse (c x z) \<noteq> Greater"
    using total_cmp.cmp_trans[OF assms, of z y x] sym[of x y] sym[of y z] sym[of x z] by simp
qed

lemma total_cmp_directed: "total_cmp c ok \<Longrightarrow> total_cmp (\<lambda>a b. directed d (c a b)) ok"
  by (cases d) (simp_all add: total_cmp_reverse)

lemma total_cmp_then:
  assumes "total_cmp c ok" "total_cmp e ok"
  shows "total_cmp (\<lambda>a b. ord_then (c a b) (e a b)) ok"
proof unfold_locales
  fix x y z
  note sym = total_cmp.cmp_sym[OF assms(1)] and sym' = total_cmp.cmp_sym[OF assms(2)]
  show "ok x \<Longrightarrow> ord_then (c x x) (e x x) = Equal"
    using assms[THEN total_cmp.cmp_refl] by simp
  show "ok x \<Longrightarrow> ok y \<Longrightarrow> ord_then (c y x) (e y x) = ord_reverse (ord_then (c x y) (e x y))"
    using sym[of x y] sym'[of x y] by (simp add: ord_reverse_then)
  assume ok: "ok x" "ok y" "ok z"
    and le: "ord_then (c x y) (e x y) \<noteq> Greater" "ord_then (c y z) (e y z) \<noteq> Greater"
  have xz: "c x z \<noteq> Greater"
    using total_cmp.cmp_trans[OF assms(1) ok] le by (auto simp: ord_then_iff)
  show "ord_then (c x z) (e x z) \<noteq> Greater"
  proof (cases "c x z = Equal")
    case True
    then have zx: "c z x = Equal" using sym[OF ok(1,3)] by simp
    have "c z y \<noteq> Greater" "c y x \<noteq> Greater"
      using total_cmp.cmp_trans[OF assms(1) ok(3,1,2)] total_cmp.cmp_trans[OF assms(1) ok(2,3,1)]
        zx le by (auto simp: ord_then_iff)
    then have "c x y = Equal" "c y z = Equal"
      using le sym[OF ok(1,2)] sym[OF ok(2,3)]
      by (cases "c x y"; cases "c y z"; simp add: ord_then_iff)+
    then have "e x z \<noteq> Greater"
      using le total_cmp.cmp_trans[OF assms(2) ok] by (simp add: ord_then_iff)
    with xz show ?thesis by (simp add: ord_then_iff)
  next
    case False
    with xz show ?thesis by (simp add: ord_then_iff)
  qed
qed

lemma total_cmp_cong:
  assumes "\<And>x y. ok x \<Longrightarrow> ok y \<Longrightarrow> c x y = e x y" "total_cmp e ok"
  shows "total_cmp c ok"
proof unfold_locales
  fix x y z
  show "ok x \<Longrightarrow> c x x = Equal" using assms(1)[of x x] total_cmp.cmp_refl[OF assms(2), of x] by simp
  show "ok x \<Longrightarrow> ok y \<Longrightarrow> c y x = ord_reverse (c x y)"
    using assms(1)[of x y] assms(1)[of y x] total_cmp.cmp_sym[OF assms(2), of x y] by simp
  show "ok x \<Longrightarrow> ok y \<Longrightarrow> ok z \<Longrightarrow> c x y \<noteq> Greater \<Longrightarrow> c y z \<noteq> Greater \<Longrightarrow> c x z \<noteq> Greater"
    using assms(1)[of x y] assms(1)[of y z] assms(1)[of x z] total_cmp.cmp_trans[OF assms(2), of x y z]
    by simp
qed

lemmas total_cmp_intros = total_cmp_key total_cmp_flip total_cmp_directed total_cmp_then

subsection \<open>Ticket lists\<close>

text \<open>Order-preserving deduplication: the first occurrence of each element stays.\<close>

fun dedup_from :: "'a list \<Rightarrow> 'a list \<Rightarrow> 'a list" where
  "dedup_from acc [] = acc"
| "dedup_from acc (x # xs) = dedup_from (if x \<in> set acc then acc else acc @ [x]) xs"

lemma set_dedup_from [simp]: "set (dedup_from acc xs) = set acc \<union> set xs"
  by (induction xs arbitrary: acc) auto

lemma distinct_dedup_from: "distinct acc \<Longrightarrow> distinct (dedup_from acc xs)"
  by (induction xs arbitrary: acc) auto

lemma dedup_from_distinct: "distinct (acc @ xs) \<Longrightarrow> dedup_from acc xs = acc @ xs"
  by (induction xs arbitrary: acc) auto

text \<open>\<open>Iterator::find\<close>, and the search from the back (\<open>rev().find\<close>).\<close>

definition find_last :: "('a \<Rightarrow> bool) \<Rightarrow> 'a list \<Rightarrow> 'a option" where
  "find_last p xs = List.find p (rev xs)"

lemma find_last_simps [simp]:
  "find_last p [] = None"
  "find_last p (xs @ [x]) = (if p x then Some x else find_last p xs)"
  by (simp_all add: find_last_def)

lemma find_last_Some: "find_last p xs = Some x \<Longrightarrow> x \<in> set xs \<and> p x"
  by (auto simp: find_last_def find_Some_iff) (metis nth_mem set_rev length_rev)

text \<open>\<open>Iterator::find_map\<close>.\<close>

fun find_map :: "('a \<Rightarrow> 'b option) \<Rightarrow> 'a list \<Rightarrow> 'b option" where
  "find_map f [] = None"
| "find_map f (x # xs) = (case f x of None \<Rightarrow> find_map f xs | Some y \<Rightarrow> Some y)"

lemma find_map_None: "find_map f xs = None \<longleftrightarrow> (\<forall>x\<in>set xs. f x = None)"
  by (induction xs) (auto split: option.splits)

text \<open>In-place update of the first element that satisfies a predicate (\<open>iter_mut().find\<close>).\<close>

fun update_first :: "('a \<Rightarrow> bool) \<Rightarrow> ('a \<Rightarrow> 'a) \<Rightarrow> 'a list \<Rightarrow> 'a list" where
  "update_first p f [] = []"
| "update_first p f (x # xs) = (if p x then f x # xs else x # update_first p f xs)"

definition update_last :: "('a \<Rightarrow> bool) \<Rightarrow> ('a \<Rightarrow> 'a) \<Rightarrow> 'a list \<Rightarrow> 'a list" where
  "update_last p f xs = rev (update_first p f (rev xs))"

lemma length_update_first [simp]: "length (update_first p f xs) = length xs"
  by (induction xs) auto

lemma length_update_last [simp]: "length (update_last p f xs) = length xs"
  by (simp add: update_last_def)

lemma map_update_first: "(\<And>x. g (f x) = g x) \<Longrightarrow> map g (update_first p f xs) = map g xs"
  by (induction xs) auto

lemma map_update_last: "(\<And>x. g (f x) = g x) \<Longrightarrow> map g (update_last p f xs) = map g xs"
  by (simp add: update_last_def rev_map map_update_first flip: rev_map)

lemma set_update_first_subset: "set (update_first p f xs) \<subseteq> set xs \<union> f ` {x \<in> set xs. p x}"
  by (induction xs) auto

subsection \<open>Ordered maps\<close>

text \<open>
  \<open>BTreeMap\<close> as the association list of its entries in key order.  \<open>btree_entry k f m\<close> is
  the entry interface: \<open>f\<close> receives the present value, if any, and gives the new one, so
  \<open>insert\<close> and \<open>entry().and_modify().or_insert_with()\<close> are instances.
\<close>

fun btree_entry :: "'k::linorder \<Rightarrow> ('v option \<Rightarrow> 'v) \<Rightarrow> ('k \<times> 'v) list \<Rightarrow> ('k \<times> 'v) list" where
  "btree_entry k f [] = [(k, f None)]"
| "btree_entry k f ((j, v) # m) =
     (if j < k then (j, v) # btree_entry k f m
      else if j = k then (j, f (Some v)) # m
      else (k, f None) # (j, v) # m)"

definition btree_values :: "('k \<times> 'v) list \<Rightarrow> 'v list" where
  "btree_values m = map snd m"

abbreviation key_sorted :: "('k::linorder \<times> 'v) list \<Rightarrow> bool" where
  "key_sorted m \<equiv> sorted_wrt (<) (map fst m)"

lemma keys_btree_entry: "fst ` set (btree_entry k f m) = insert k (fst ` set m)"
  by (induction k f m rule: btree_entry.induct) (simp_all add: insert_commute)

lemma key_sorted_btree_entry: "key_sorted m \<Longrightarrow> key_sorted (btree_entry k f m)"
proof (induction m)
  case Nil
  then show ?case by simp
next
  case (Cons e m)
  obtain j v where e: "e = (j, v)" by force
  have "\<forall>x \<in> set (map fst (btree_entry k f m)). x = k \<or> x \<in> fst ` set m"
    using keys_btree_entry[of k f m] by auto
  with Cons e show ?case by (fastforce simp: sorted_wrt_append)
qed

lemma key_sorted_not_in: "key_sorted ((j, v) # m) \<Longrightarrow> k \<le> j \<Longrightarrow> map_of m k = None"
  by (rule ccontr) (force dest: map_of_SomeD)

lemma map_of_btree_entry:
  "key_sorted m \<Longrightarrow> map_of (btree_entry k f m) = (map_of m)(k \<mapsto> f (map_of m k))"
proof (induction m)
  case Nil
  then show ?case by auto
next
  case (Cons e m)
  obtain j v where e: "e = (j, v)" by force
  show ?case
  proof (cases "j < k")
    case True
    with Cons e show ?thesis by (auto simp: fun_eq_iff)
  next
    case False
    with Cons.prems e have "map_of m k = None" using key_sorted_not_in[of j v m k] by simp
    with False e show ?thesis by (auto simp: fun_eq_iff)
  qed
qed

text \<open>The contract of an ordered map as its clients use it.\<close>

locale ordered_map =
  fixes entry :: "'k::linorder \<Rightarrow> ('v option \<Rightarrow> 'v) \<Rightarrow> 'm \<Rightarrow> 'm"
    and lookup :: "'m \<Rightarrow> 'k \<Rightarrow> 'v option"
    and empty :: 'm
    and invar :: "'m \<Rightarrow> bool"
  assumes invar_empty: "invar empty"
    and invar_entry: "invar m \<Longrightarrow> invar (entry k f m)"
    and lookup_empty: "lookup empty = Map.empty"
    and lookup_entry: "invar m \<Longrightarrow> lookup (entry k f m) = (lookup m)(k \<mapsto> f (lookup m k))"
begin

text \<open>A fold of entries: what each key ends up with depends on its own elements only.\<close>

definition upserts :: "('a \<Rightarrow> 'k) \<Rightarrow> ('a \<Rightarrow> 'v option \<Rightarrow> 'v) \<Rightarrow> 'a list \<Rightarrow> 'm \<Rightarrow> 'm" where
  "upserts key f xs m = fold (\<lambda>x. entry (key x) (f x)) xs m"

lemma invar_upserts: "invar m \<Longrightarrow> invar (upserts key f xs m)"
  by (induction xs arbitrary: m) (simp_all add: upserts_def invar_entry)

lemma lookup_upserts:
  "invar m \<Longrightarrow> lookup (upserts key f xs m) k =
     fold (\<lambda>x v. Some (f x v)) (filter (\<lambda>x. key x = k) xs) (lookup m k)"
proof (induction xs arbitrary: m)
  case Nil
  then show ?case by (simp add: upserts_def)
next
  case (Cons x xs)
  have "upserts key f (x # xs) m = upserts key f xs (entry (key x) (f x) m)"
    by (simp add: upserts_def)
  with Cons show ?case by (simp add: invar_entry lookup_entry)
qed

lemma dom_upserts: "invar m \<Longrightarrow> dom (lookup (upserts key f xs m)) = dom (lookup m) \<union> key ` set xs"
proof (induction xs arbitrary: m)
  case Nil
  then show ?case by (simp add: upserts_def)
next
  case (Cons x xs)
  have "upserts key f (x # xs) m = upserts key f xs (entry (key x) (f x) m)"
    by (simp add: upserts_def)
  with Cons show ?case by (simp add: invar_entry lookup_entry dom_fun_upd del: fun_upd_apply)
qed

end

interpretation bt: ordered_map btree_entry map_of "[]" key_sorted
  by unfold_locales (auto simp: key_sorted_btree_entry map_of_btree_entry)

lemma key_sorted_distinct: "key_sorted m \<Longrightarrow> distinct (map fst m)"
  by (induction m) auto

lemma key_sorted_map_of_eq:
  assumes "key_sorted m" "key_sorted m'" "map_of m = map_of m'"
  shows "m = m'"
proof -
  have d: "distinct (map fst m)" "distinct (map fst m')"
    using assms by (simp_all add: key_sorted_distinct)
  have set: "set m = set m'"
    using d assms(3) by (metis map_of_eqI map_of_inject_set)
  have "inj_on fst (set m \<union> set m')" using d set by (simp add: distinct_map)
  moreover have "sorted (map fst m)" "sorted (map fst m')"
    using assms by (auto intro: strict_sorted_imp_sorted)
  ultimately show ?thesis using d set by (intro map_sorted_distinct_set_unique)
qed

lemma btree_values_keyed:
  assumes "key_sorted m" "\<And>k v. map_of m k = Some v \<Longrightarrow> key v = k"
  shows "map key (btree_values m) = map fst m"
  using assms key_sorted_distinct[OF assms(1)] unfolding btree_values_def
  by (auto intro!: map_cong)

end
