(* ===== verification/Rust_Str.thy ===== *)
theory Rust_Str
  imports Hotsheet_Prelude
begin

text \<open>
  Rust's \<open>str\<close> as the list of its UTF-8 bytes (\<open>string\<close>, a list of 8-bit \<open>char\<close>s), and
  the operations of the standard library that the ticket code uses.  \<open>len\<close>, \<open>find\<close>,
  \<open>contains\<close>, \<open>strip_prefix\<close>, \<open>split_once\<close>, slicing and the ordering of \<open>str\<close> are
  byte operations in Rust as here.  \<open>trim\<close> and \<open>split_whitespace\<close> work on Unicode white
  space; \<open>ws_len\<close> recognises exactly the UTF-8 encodings of the white-space code points
  (U+0009..U+000D, U+0020, U+0085, U+00A0, U+1680, U+2000..U+200A, U+2028, U+2029, U+202F,
  U+205F, U+3000).
\<close>

subsection \<open>White space\<close>

definition ascii_ws :: "char \<Rightarrow> bool" where
  "ascii_ws c = (let n = (of_char c :: nat) in n = 32 \<or> 9 \<le> n \<and> n \<le> 13)"

definition wide_ws2 :: "char \<Rightarrow> char \<Rightarrow> bool" where
  "wide_ws2 c d = (c = CHR 0xC2 \<and> (d = CHR 0x85 \<or> d = CHR 0xA0))"

definition wide_ws3 :: "char \<Rightarrow> char \<Rightarrow> char \<Rightarrow> bool" where
  "wide_ws3 c d e =
     (c = CHR 0xE1 \<and> d = CHR 0x9A \<and> e = CHR 0x80 \<or>
      c = CHR 0xE2 \<and> d = CHR 0x80 \<and>
        (let n = (of_char e :: nat) in 0x80 \<le> n \<and> n \<le> 0x8A \<or> n = 0xA8 \<or> n = 0xA9 \<or> n = 0xAF) \<or>
      c = CHR 0xE2 \<and> d = CHR 0x81 \<and> e = CHR 0x9F \<or>
      c = CHR 0xE3 \<and> d = CHR 0x80 \<and> e = CHR 0x80)"

text \<open>The byte length of the white-space character a string starts with, 0 if none.\<close>

fun ws_len :: "string \<Rightarrow> nat" where
  "ws_len [] = 0"
| "ws_len [c] = (if ascii_ws c then 1 else 0)"
| "ws_len [c, d] = (if ascii_ws c then 1 else if wide_ws2 c d then 2 else 0)"
| "ws_len (c # d # e # cs) =
     (if ascii_ws c then 1 else if wide_ws2 c d then 2 else if wide_ws3 c d e then 3 else 0)"

text \<open>The same at the end of a string, given with its bytes reversed.\<close>

fun ws_len_rev :: "string \<Rightarrow> nat" where
  "ws_len_rev [] = 0"
| "ws_len_rev [c] = (if ascii_ws c then 1 else 0)"
| "ws_len_rev [d, c] = (if ascii_ws d then 1 else if wide_ws2 c d then 2 else 0)"
| "ws_len_rev (e # d # c # cs) =
     (if ascii_ws e then 1 else if wide_ws2 d e then 2 else if wide_ws3 c d e then 3 else 0)"

lemma ws_len_le: "ws_len s \<le> length s"
  by (cases s rule: ws_len.cases) auto

lemma ws_len_rev_le: "ws_len_rev s \<le> length s"
  by (cases s rule: ws_len_rev.cases) auto

lemma ws_len_decreases: "0 < ws_len s \<Longrightarrow> length s - ws_len s < length s"
  using ws_len_le[of s] by arith

lemma ws_len_rev_decreases: "0 < ws_len_rev s \<Longrightarrow> length s - ws_len_rev s < length s"
  using ws_len_rev_le[of s] by arith

function trim_start :: "string \<Rightarrow> string" where
  "trim_start s = (if ws_len s = 0 then s else trim_start (drop (ws_len s) s))"
  by pat_completeness auto
termination
  by (relation "measure length") (auto simp: ws_len_decreases)

function trim_end_rev :: "string \<Rightarrow> string" where
  "trim_end_rev s = (if ws_len_rev s = 0 then s else trim_end_rev (drop (ws_len_rev s) s))"
  by pat_completeness auto
termination
  by (relation "measure length") (auto simp: ws_len_rev_decreases)

declare trim_start.simps [simp del] trim_end_rev.simps [simp del]

definition trim_end :: "string \<Rightarrow> string" where
  "trim_end s = rev (trim_end_rev (rev s))"

definition trim :: "string \<Rightarrow> string" where
  "trim s = trim_end (trim_start s)"

text \<open>\<open>str::split_whitespace\<close>: the maximal runs without white space.\<close>

function split_ws_aux :: "string \<Rightarrow> string \<Rightarrow> string list" where
  "split_ws_aux acc s =
     (if s = [] then (if acc = [] then [] else [acc])
      else if ws_len s = 0 then split_ws_aux (acc @ [hd s]) (tl s)
      else (if acc = [] then [] else [acc]) @ split_ws_aux [] (drop (ws_len s) s))"
  by pat_completeness auto
termination
  by (relation "measure (\<lambda>(acc, s). length s)") (auto simp: ws_len_decreases)

declare split_ws_aux.simps [simp del]

definition split_whitespace :: "string \<Rightarrow> string list" where
  "split_whitespace s = split_ws_aux [] s"

subsection \<open>Prefixes, suffixes and searching\<close>

definition starts_with :: "string \<Rightarrow> string \<Rightarrow> bool" where
  "starts_with p s = (take (length p) s = p)"

definition ends_with :: "string \<Rightarrow> string \<Rightarrow> bool" where
  "ends_with p s = (length p \<le> length s \<and> drop (length s - length p) s = p)"

definition strip_prefix :: "string \<Rightarrow> string \<Rightarrow> string option" where
  "strip_prefix p s = (if starts_with p s then Some (drop (length p) s) else None)"

definition strip_suffix :: "string \<Rightarrow> string \<Rightarrow> string option" where
  "strip_suffix p s = (if ends_with p s then Some (take (length s - length p) s) else None)"

text \<open>\<open>str::find\<close>: the byte index of the first occurrence.\<close>

fun find_sub :: "string \<Rightarrow> string \<Rightarrow> nat option" where
  "find_sub p [] = (if p = [] then Some 0 else None)"
| "find_sub p (c # cs) =
     (if starts_with p (c # cs) then Some 0 else map_option Suc (find_sub p cs))"

definition contains_sub :: "string \<Rightarrow> string \<Rightarrow> bool" where
  "contains_sub p s = is_some (find_sub p s)"

definition split_once :: "string \<Rightarrow> string \<Rightarrow> (string \<times> string) option" where
  "split_once p s =
     map_option (\<lambda>i. (take i s, drop (i + length p) s)) (find_sub p s)"

text \<open>\<open>str::rsplit_once\<close>: at the last occurrence.\<close>

fun rfind_sub :: "string \<Rightarrow> string \<Rightarrow> nat option" where
  "rfind_sub p [] = (if p = [] then Some 0 else None)"
| "rfind_sub p (c # cs) =
     (case rfind_sub p cs of Some i \<Rightarrow> Some (Suc i)
      | None \<Rightarrow> if starts_with p (c # cs) then Some 0 else None)"

definition rsplit_once :: "string \<Rightarrow> string \<Rightarrow> (string \<times> string) option" where
  "rsplit_once p s =
     map_option (\<lambda>i. (take i s, drop (i + length p) s)) (rfind_sub p s)"

text \<open>\<open>str::split\<close> at one character: always at least one piece.\<close>

fun split_char :: "char \<Rightarrow> string \<Rightarrow> string list" where
  "split_char c [] = [[]]"
| "split_char c (x # xs) =
     (if x = c then [] # split_char c xs
      else case split_char c xs of [] \<Rightarrow> [[x]] | p # ps \<Rightarrow> (x # p) # ps)"

fun join :: "string \<Rightarrow> string list \<Rightarrow> string" where
  "join sep [] = []"
| "join sep [x] = x"
| "join sep (x # y # ys) = x @ sep @ join sep (y # ys)"

definition nl :: string where "nl = [CHR 10]"

text \<open>\<open>split_inclusive('\n')\<close> and \<open>str::lines\<close> built on it.\<close>

fun split_inclusive_nl :: "string \<Rightarrow> string list" where
  "split_inclusive_nl [] = []"
| "split_inclusive_nl (c # cs) =
     (if c = CHR 10 then [c] # split_inclusive_nl cs
      else case split_inclusive_nl cs of [] \<Rightarrow> [[c]] | l # ls \<Rightarrow> (c # l) # ls)"

definition bare_line :: "string \<Rightarrow> string" where
  "bare_line l = unwrap_or (strip_suffix nl l) l"

definition line_of :: "string \<Rightarrow> string" where
  "line_of l = (case strip_suffix nl l of None \<Rightarrow> l
     | Some l' \<Rightarrow> unwrap_or (strip_suffix [CHR 13] l') l')"

definition lines :: "string \<Rightarrow> string list" where
  "lines s = map line_of (split_inclusive_nl s)"

text \<open>\<open>str::replace("\r\n", "\n")\<close>.\<close>

fun crlf_to_lf :: "string \<Rightarrow> string" where
  "crlf_to_lf [] = []"
| "crlf_to_lf [c] = [c]"
| "crlf_to_lf (c # d # cs) =
     (if c = CHR 13 \<and> d = CHR 10 then CHR 10 # crlf_to_lf cs else c # crlf_to_lf (d # cs))"

definition trim_start_char :: "char \<Rightarrow> string \<Rightarrow> string" where
  "trim_start_char c s = dropWhile (\<lambda>x. x = c) s"

definition run_length :: "(char \<Rightarrow> bool) \<Rightarrow> string \<Rightarrow> nat" where
  "run_length p s = length (takeWhile p s)"

subsection \<open>ASCII\<close>

definition is_ascii_digit :: "char \<Rightarrow> bool" where
  "is_ascii_digit c = (let n = (of_char c :: nat) in 48 \<le> n \<and> n \<le> 57)"

definition is_ascii_upper :: "char \<Rightarrow> bool" where
  "is_ascii_upper c = (let n = (of_char c :: nat) in 65 \<le> n \<and> n \<le> 90)"

definition is_ascii_lower :: "char \<Rightarrow> bool" where
  "is_ascii_lower c = (let n = (of_char c :: nat) in 97 \<le> n \<and> n \<le> 122)"

definition is_ascii_alnum :: "char \<Rightarrow> bool" where
  "is_ascii_alnum c = (is_ascii_digit c \<or> is_ascii_upper c \<or> is_ascii_lower c)"

definition ascii_lower :: "char \<Rightarrow> char" where
  "ascii_lower c = (if is_ascii_upper c then char_of (of_char c + 32 :: nat) else c)"

definition ascii_upper :: "char \<Rightarrow> char" where
  "ascii_upper c = (if is_ascii_lower c then char_of (of_char c - 32 :: nat) else c)"

definition to_ascii_lower :: "string \<Rightarrow> string" where
  "to_ascii_lower s = map ascii_lower s"

definition to_ascii_upper :: "string \<Rightarrow> string" where
  "to_ascii_upper s = map ascii_upper s"

definition eq_ignore_ascii_case :: "string \<Rightarrow> string \<Rightarrow> bool" where
  "eq_ignore_ascii_case a b = (to_ascii_lower a = to_ascii_lower b)"

text \<open>The decimal value of a string of ASCII digits, unbounded; callers check the width.\<close>

definition digit_value :: "char \<Rightarrow> nat" where
  "digit_value c = of_char c - 48"

definition parse_digits :: "string \<Rightarrow> nat option" where
  "parse_digits s =
     (if s = [] \<or> \<not> list_all is_ascii_digit s then None
      else Some (foldl (\<lambda>n c. 10 * n + digit_value c) 0 s))"

fun show_nat :: "nat \<Rightarrow> string" where
  "show_nat n = (if n < 10 then [char_of (48 + n)]
     else show_nat (n div 10) @ [char_of (48 + n mod 10)])"

declare show_nat.simps [simp del]

subsection \<open>Characters\<close>

definition is_continuation :: "char \<Rightarrow> bool" where
  "is_continuation c = (let n = of_char c :: nat in 0x80 \<le> n \<and> n \<le> 0xBF)"

text \<open>\<open>str::chars\<close>: the byte groups of the characters of a well-formed string.\<close>

function chars :: "string \<Rightarrow> string list" where
  "chars s =
     (case s of [] \<Rightarrow> []
      | c # cs \<Rightarrow> (c # takeWhile is_continuation cs) # chars (dropWhile is_continuation cs))"
  by pat_completeness auto
termination
  by (relation "measure length") (auto simp: le_imp_less_Suc length_dropWhile_le)

declare chars.simps [simp del]

text \<open>\<open>Path::file_name\<close>, \<open>file_stem\<close> and \<open>extension\<close> of a path written with slashes.\<close>

definition path_file_name :: "string \<Rightarrow> string" where
  "path_file_name p = last (split_char (CHR ''/'') p)"

definition path_extension :: "string \<Rightarrow> string option" where
  "path_extension p =
     (case rsplit_once ''.'' (path_file_name p) of
        None \<Rightarrow> None
      | Some (stem, ext) \<Rightarrow> if stem = [] then None else Some ext)"

definition path_file_stem :: "string \<Rightarrow> string" where
  "path_file_stem p =
     (case rsplit_once ''.'' (path_file_name p) of
        None \<Rightarrow> path_file_name p
      | Some (stem, ext) \<Rightarrow> if stem = [] then path_file_name p else stem)"

subsection \<open>Constant non-ASCII text\<close>

definition em_dash :: string where "em_dash = [CHR 0xE2, CHR 0x80, CHR 0x94]"
definition ellipsis :: string where "ellipsis = [CHR 0xE2, CHR 0x80, CHR 0xA6]"
definition middle_dot :: string where "middle_dot = [CHR 0xC2, CHR 0xB7]"
definition times_sign :: string where "times_sign = [CHR 0xC3, CHR 0x97]"

subsection \<open>Facts\<close>

lemma strip_prefix_Some: "strip_prefix p s = Some r \<longleftrightarrow> s = p @ r"
  unfolding strip_prefix_def starts_with_def
  by (auto simp: append_eq_conv_conj) (metis append_take_drop_id)

lemma strip_prefix_append [simp]: "strip_prefix p (p @ r) = Some r"
  by (simp add: strip_prefix_Some)

lemma strip_suffix_Some: "strip_suffix p s = Some r \<longleftrightarrow> s = r @ p"
proof
  assume "strip_suffix p s = Some r"
  then have "length p \<le> length s" "drop (length s - length p) s = p"
    "take (length s - length p) s = r"
    by (auto simp: strip_suffix_def ends_with_def split: if_splits)
  then show "s = r @ p" by (metis append_take_drop_id)
qed (simp add: strip_suffix_def ends_with_def)

lemma strip_suffix_append [simp]: "strip_suffix p (r @ p) = Some r"
  by (simp add: strip_suffix_Some)

lemma starts_with_iff: "starts_with p s \<longleftrightarrow> (\<exists>r. s = p @ r)"
  by (metis starts_with_def append_take_drop_id append_eq_conv_conj)

lemma starts_with_Nil [simp]: "starts_with [] s"
  by (simp add: starts_with_def)

lemma starts_with_append [simp]: "starts_with p (p @ r)"
  by (simp add: starts_with_def)

lemma starts_with_Cons [simp]:
  "starts_with (c # p) (d # s) = (c = d \<and> starts_with p s)"
  "starts_with (c # p) [] = False"
  by (auto simp: starts_with_def)

lemma find_sub_Some: "find_sub p s = Some i \<Longrightarrow> \<exists>t. s = take i s @ p @ t \<and> length (take i s) = i"
proof (induction p s arbitrary: i rule: find_sub.induct)
  case (1 p)
  then show ?case by (auto split: if_splits)
next
  case (2 p c cs)
  show ?case
  proof (cases "starts_with p (c # cs)")
    case True
    with 2 show ?thesis by (auto simp: starts_with_iff)
  next
    case False
    with 2 obtain j where "find_sub p cs = Some j" "i = Suc j" by auto
    with 2 False show ?thesis by fastforce
  qed
qed

lemma find_sub_append: "\<exists>i \<le> length a. find_sub p (a @ p @ b) = Some i"
proof (induction a)
  case Nil
  have "starts_with p (p @ b)" by simp
  then show ?case by (cases "p @ b") auto
next
  case (Cons c a)
  then show ?case
    by (cases "starts_with p (c # a @ p @ b)") auto
qed

lemma contains_sub_iff: "contains_sub p s \<longleftrightarrow> (\<exists>a b. s = a @ p @ b)"
  using find_sub_append[of _ p] find_sub_Some[of p s]
  by (auto simp: contains_sub_def is_some_iff) metis+

lemma concat_split_inclusive_nl [simp]: "concat (split_inclusive_nl s) = s"
  by (induction s) (auto split: list.splits)

lemma split_inclusive_nl_append_line:
  "CHR 10 \<notin> set l \<Longrightarrow>
     split_inclusive_nl (l @ CHR 10 # s) = (l @ [CHR 10]) # split_inclusive_nl s"
  by (induction l) auto

lemma split_inclusive_nl_single:
  "CHR 10 \<notin> set l \<Longrightarrow> split_inclusive_nl l = (if l = [] then [] else [l])"
  by (induction l) (auto split: list.splits)

lemma bare_line_nl [simp]: "bare_line (l @ [CHR 10]) = l"
  using strip_suffix_append[of nl l] by (simp add: bare_line_def nl_def)

lemma bare_line_id: "CHR 10 \<notin> set l \<Longrightarrow> bare_line l = l"
proof -
  assume "CHR 10 \<notin> set l"
  then have "strip_suffix nl l = None"
    by (cases "strip_suffix nl l") (auto simp: strip_suffix_Some nl_def)
  then show ?thesis by (simp add: bare_line_def)
qed

lemma trim_start_id: "ws_len s = 0 \<Longrightarrow> trim_start s = s"
  by (subst trim_start.simps) simp

lemma trim_end_id: "ws_len_rev (rev s) = 0 \<Longrightarrow> trim_end s = s"
  by (simp add: trim_end_def trim_end_rev.simps[of "rev s"])

lemma trim_id: "ws_len s = 0 \<Longrightarrow> ws_len_rev (rev s) = 0 \<Longrightarrow> trim s = s"
  by (simp add: trim_def trim_start_id trim_end_id)

lemma trim_Nil [simp]: "trim [] = []"
  by (rule trim_id) simp_all

lemma ws_len_trim_start [simp]: "ws_len (trim_start s) = 0"
  by (induction s rule: trim_start.induct) (metis trim_start.simps)

lemma ws_len_rev_trim_end_rev [simp]: "ws_len_rev (trim_end_rev s) = 0"
  by (induction s rule: trim_end_rev.induct) (metis trim_end_rev.simps)

lemma trim_end_rev_suffix: "\<exists>p. s = p @ trim_end_rev s"
proof (induction s rule: trim_end_rev.induct)
  case (1 s)
  then show ?case
    by (metis append.assoc append_Nil append_take_drop_id trim_end_rev.simps)
qed

lemma trim_start_suffix: "\<exists>p. s = p @ trim_start s"
proof (induction s rule: trim_start.induct)
  case (1 s)
  then show ?case
    by (metis append.assoc append_Nil append_take_drop_id trim_start.simps)
qed

lemma trim_end_prefix: "\<exists>q. s = trim_end s @ q"
proof -
  obtain p where "rev s = p @ trim_end_rev (rev s)" using trim_end_rev_suffix by blast
  then have "s = rev (p @ trim_end_rev (rev s))" by (metis rev_rev_ident)
  then show ?thesis by (auto simp: trim_end_def)
qed

lemma trim_infix: "\<exists>p q. s = p @ trim s @ q"
  unfolding trim_def using trim_start_suffix[of s] trim_end_prefix[of "trim_start s"] by metis

lemma ws_len_prefix: "ws_len (s @ t) = 0 \<Longrightarrow> ws_len s = 0"
  by (cases s rule: ws_len.cases; cases t rule: ws_len.cases) (auto split: if_splits)

lemma ws_len_trim [simp]: "ws_len (trim s) = 0"
proof -
  obtain q where "trim_start s = trim s @ q"
    using trim_end_prefix[of "trim_start s"] by (auto simp: trim_def)
  then show ?thesis using ws_len_trim_start[of s] ws_len_prefix[of "trim s" q] by simp
qed

lemma ws_len_rev_trim [simp]: "ws_len_rev (rev (trim s)) = 0"
  by (simp add: trim_def trim_end_def)

lemma trim_idem [simp]: "trim (trim s) = trim s"
  by (rule trim_id) simp_all

lemma length_trim_le: "length (trim s) \<le> length s"
  using trim_infix[of s] by (metis le_add1 le_add2 le_trans length_append)

subsection \<open>Lower-case hexadecimal (\<open>{:x}\<close>)\<close>

definition hex_digit :: "nat \<Rightarrow> char" where
  "hex_digit n = (if n < 10 then char_of (48 + n) else char_of (87 + n))"

text \<open>The digit of four bits, highest first: what \<open>hex_digit\<close> gives, without arithmetic.\<close>

definition nibble_digit :: "bool \<Rightarrow> bool \<Rightarrow> bool \<Rightarrow> bool \<Rightarrow> char" where
  "nibble_digit a b c d =
     (if a then
        (if b then (if c then (if d then CHR ''f'' else CHR ''e'') else if d then CHR ''d'' else CHR ''c'')
         else if c then (if d then CHR ''b'' else CHR ''a'') else if d then CHR ''9'' else CHR ''8'')
      else if b then (if c then (if d then CHR ''7'' else CHR ''6'') else if d then CHR ''5'' else CHR ''4'')
      else if c then (if d then CHR ''3'' else CHR ''2'') else if d then CHR ''1'' else CHR ''0'')"

definition hex_byte :: "char \<Rightarrow> string" where
  "hex_byte b = [hex_digit (of_char b div 16), hex_digit (of_char b mod 16)]"

lemma hex_byte_code [code]:
  "hex_byte (Char b0 b1 b2 b3 b4 b5 b6 b7) = [nibble_digit b7 b6 b5 b4, nibble_digit b3 b2 b1 b0]"
proof -
  define nib :: "bool \<Rightarrow> bool \<Rightarrow> bool \<Rightarrow> bool \<Rightarrow> nat" where
    "nib a b c d = of_bool a + 2 * (of_bool b + 2 * (of_bool c + 2 * of_bool d))" for a b c d
  have digit: "hex_digit (nib a b c d) = nibble_digit d c b a" for a b c d
    by (cases a; cases b; cases c; cases d) (simp_all add: nib_def hex_digit_def nibble_digit_def char_of_def bit_0)
  have "of_char (Char b0 b1 b2 b3 b4 b5 b6 b7) = nib b0 b1 b2 b3 + 16 * nib b4 b5 b6 b7"
    by (simp add: of_char_def nib_def)
  moreover have "nib b0 b1 b2 b3 < 16" by (simp add: nib_def)
  ultimately show ?thesis by (simp add: hex_byte_def digit)
qed

definition hex_lower :: "string \<Rightarrow> string" where
  "hex_lower bytes = concat (map hex_byte bytes)"

end
