(* ===== verification/Ticket_Model.thy ===== *)
theory Ticket_Model
  imports Rust_Str
begin

text \<open>
  The domain model of the crate \<open>hotsheet-model\<close> (\<open>enums.rs\<close>, \<open>ids.rs\<close>,
  \<open>timestamp.rs\<close>, \<open>ticket_ref.rs\<close> and the data declarations of \<open>ticket.rs\<close>).  Structs
  are records with the source's fields in the source's order (each with a short prefix),
  enums are datatypes.  What the code takes from crates outside the repository (the
  \<open>ulid\<close>, \<open>time\<close>, \<open>sha2\<close> and \<open>serde\<close> crates) and from the parts of the standard library whose
  result is a table or left unspecified (Unicode case mapping, \<open>DefaultHasher\<close>) is the
  record \<open>platform\<close>, an argument of every definition that uses it.
\<close>

subsection \<open>Enumerations (enums.rs)\<close>

datatype priority = Highest | High | PDefault | Low | Lowest

datatype status = NotStarted | Started | Completed | Verified | Backlog | Archive | Deleted | Moved

datatype started_phase = Analyzing | Planning | Working | InitialTesting | Integrating | FinalTesting

fun is_active :: "status \<Rightarrow> bool" where
  "is_active NotStarted = True"
| "is_active Started = True"
| "is_active _ = False"

datatype close_reason = ReasonCompleted | NotPlanned | Duplicate | Obsolete | WorksAsDesigned

datatype note_kind = Regular | FeedbackNeeded | FeedbackDraft | StatusNote | Activity

datatype review_kind = RvWork | RvFeedback | RvReview | RvFyi

lemma is_active_iff: "is_active s \<longleftrightarrow> s = NotStarted \<or> s = Started"
  by (cases s) simp_all

text \<open>The wire names serde derives (\<open>rename_all\<close>), in declaration order.\<close>

fun status_wire :: "status \<Rightarrow> string" where
  "status_wire NotStarted = ''not_started''"
| "status_wire Started = ''started''"
| "status_wire Completed = ''completed''"
| "status_wire Verified = ''verified''"
| "status_wire Backlog = ''backlog''"
| "status_wire Archive = ''archive''"
| "status_wire Deleted = ''deleted''"
| "status_wire Moved = ''moved''"

fun priority_wire :: "priority \<Rightarrow> string" where
  "priority_wire Highest = ''highest''"
| "priority_wire High = ''high''"
| "priority_wire PDefault = ''default''"
| "priority_wire Low = ''low''"
| "priority_wire Lowest = ''lowest''"

text \<open>\<open>status as u8\<close> and \<open>priority as u8\<close>: the declaration index.\<close>

fun status_code :: "status \<Rightarrow> nat" where
  "status_code NotStarted = 0"
| "status_code Started = 1"
| "status_code Completed = 2"
| "status_code Verified = 3"
| "status_code Backlog = 4"
| "status_code Archive = 5"
| "status_code Deleted = 6"
| "status_code Moved = 7"

lemma status_code_inj [simp]: "status_code a = status_code b \<longleftrightarrow> a = b"
  by (cases a; cases b) simp_all

instantiation status :: linorder
begin

definition less_eq_status :: "status \<Rightarrow> status \<Rightarrow> bool" where
  "less_eq_status a b = (status_code a \<le> status_code b)"

definition less_status :: "status \<Rightarrow> status \<Rightarrow> bool" where
  "less_status a b = (status_code a < status_code b)"

instance
  by standard (auto simp: less_eq_status_def less_status_def)

end

subsection \<open>Identifiers and instants\<close>

text \<open>
  A ULID is a 128-bit number ordered as an unsigned integer.  An \<open>OffsetDateTime\<close> is an
  instant (nanoseconds since the Unix epoch) with the UTC offset it is printed in;
  comparisons in the \<open>time\<close> crate use the instant only.
\<close>

type_synonym ulid = "128 word"

record offset_date_time =
  unix_nanos :: int
  utc_offset :: int

record timestamp =
  ts_raw :: string
  ts_parsed :: "offset_date_time option"

record project_ticket_ref =
  project_id :: string
  connection_id :: string
  native_id :: string

subsection \<open>Notes and attachments (ticket.rs)\<close>

datatype actor_role = Human | Ai | System | UnknownRole

record note_actor =
  na_role :: actor_role
  na_id :: "string option"

datatype ai_rating = Helpful | NotHelpful

record ai_feedback =
  af_target :: string
  af_rating :: "ai_rating option"
  af_explanation :: "string option"

text \<open>\<open>Confidence(u8)\<close>: only \<open>confidence_new\<close> builds one.\<close>

datatype confidence = Confidence (confidence_get: nat)

record ticket_note =
  n_id :: ulid
  n_kind :: note_kind
  n_kind_explicit :: bool
  n_created_at :: timestamp
  n_edited_at :: timestamp
  n_summary :: "string option"
  n_confidence :: "confidence option"
  n_feedback_for :: "ulid option"
  n_feedback_request :: bool
  n_response_to :: "ulid option"
  n_ai_feedback :: "ai_feedback option"
  n_human_edited :: bool
  n_actor :: "note_actor option"
  n_text :: string

record annotation_point =
  pt_x :: "32 word"
  pt_y :: "32 word"

datatype arrow_head = HeadNone | HeadOpen | HeadClosed | HeadFlat | OpenCircle | ClosedCircle

datatype annotation_shape =
    ShapeRect
  | ShapeStrike
  | ShapeFreehand "annotation_point list" bool
  | ShapeArrow "annotation_point list" arrow_head arrow_head
  | ShapeInsertion annotation_point

record media_annotation =
  ma_id :: string
  ma_x :: "32 word"
  ma_y :: "32 word"
  ma_width :: "32 word"
  ma_height :: "32 word"
  ma_start_ms :: "64 word option"
  ma_end_ms :: "64 word option"
  ma_text :: string
  ma_shape :: "annotation_shape option"
  ma_intents :: "string list"

record image_crop =
  crop_x :: "32 word"
  crop_y :: "32 word"
  crop_width :: "32 word"
  crop_height :: "32 word"

record attachment_actor =
  aa_identity :: "string option"
  aa_display_name :: "string option"
  aa_role :: actor_role

datatype attachment_purpose = ProblemEvidence | CorrectnessEvidence | Reference | OtherPurpose

record attachment =
  at_id :: ulid
  at_filename :: string
  at_created_at :: timestamp
  at_batch_id :: "string option"
  at_batch_label :: "string option"
  at_actor :: "attachment_actor option"
  at_purpose :: "attachment_purpose option"
  at_annotations :: "media_annotation list"
  at_crop :: "image_crop option"

record attachment_metadata =
  am_batch_id :: "string option"
  am_batch_label :: "string option"
  am_actor :: "attachment_actor option"
  am_purpose :: "attachment_purpose option"

record review_request =
  rr_who :: string
  rr_kind :: review_kind
  rr_by :: ulid
  rr_at :: timestamp
  rr_requested_by :: "string option"

record external_link =
  el_system :: string
  el_repo :: string
  el_id :: string
  el_url :: string
  el_synced_at :: timestamp
  el_remote_hash :: string

datatype claim_event_kind = ClaimEv | RenewEv | ReleaseEv

fun claim_event_code :: "claim_event_kind \<Rightarrow> nat" where
  "claim_event_code ClaimEv = 0"
| "claim_event_code RenewEv = 1"
| "claim_event_code ReleaseEv = 2"

record claim_event =
  ce_id :: ulid
  ce_kind :: claim_event_kind
  ce_worker :: string
  ce_at :: timestamp
  ce_lease_expires_at :: "timestamp option"
  ce_eta_at :: "timestamp option"
  ce_worker_label :: "string option"

text \<open>A \<open>serde_yaml::Value\<close>, carried verbatim for unknown frontmatter keys.\<close>

datatype yaml =
    YNull
  | YBool bool
  | YNumber string
  | YString string
  | YSequence "yaml list"
  | YMapping "(yaml \<times> yaml) list"
  | YTagged string yaml

subsection \<open>Tickets (ticket.rs)\<close>

record ticket =
  t_id :: ulid
  t_slug :: string
  t_title :: string
  t_category :: string
  t_priority :: priority
  t_status :: status
  t_started_phase :: "started_phase option"
  t_up_next :: bool
  t_tags :: "string list"
  t_blocked_by :: "ulid list"
  t_follow_ups :: "project_ticket_ref list"
  t_blocked_reason :: "string option"
  t_created_at :: timestamp
  t_created_by :: "note_actor option"
  t_updated_at :: timestamp
  t_completed_at :: "timestamp option"
  t_verified_at :: "timestamp option"
  t_closed_at :: "timestamp option"
  t_close_reason :: "close_reason option"
  t_duplicate_of :: "string option"
  t_claimed_by :: "string option"
  t_claim_lease_expires_at :: "timestamp option"
  t_claim_eta_at :: "timestamp option"
  t_worker_label :: "string option"
  t_claim_count :: "32 word"
  t_claim_history :: "claim_event list"
  t_assignees :: "string list"
  t_review_requests :: "review_request list"
  t_external :: "external_link list"
  t_attachments :: "attachment list"
  t_moved_to_store :: "string option"
  t_moved_at :: "timestamp option"
  t_copied_from :: "ulid option"
  t_transfer_operation_id :: "string option"
  t_transferred_from :: "string option"
  t_legacy_number :: "string option"
  t_schema :: nat
  t_details :: string
  t_notes :: "ticket_note list"
  t_extra :: "(string \<times> yaml) list"

subsection \<open>The surroundings\<close>

text \<open>The values fed to a \<open>Hasher\<close>, in order.\<close>

datatype hash_item = HUlid ulid | HUsize nat | HByte nat | HStr string

record platform =
  pf_hash :: "hash_item list \<Rightarrow> 64 word"
  pf_ulid_from_parts :: "64 word \<Rightarrow> 128 word \<Rightarrow> ulid"
  pf_ulid_bytes :: "ulid \<Rightarrow> 8 word list"
  pf_ulid_from_string :: "string \<Rightarrow> ulid option"
  pf_ulid_to_string :: "ulid \<Rightarrow> string"
  pf_ulid_timestamp_ms :: "ulid \<Rightarrow> nat"
  pf_rfc3339_parse :: "string \<Rightarrow> offset_date_time option"
  pf_rfc3339_format :: "offset_date_time \<Rightarrow> string option"
  pf_datetime_add :: "offset_date_time \<Rightarrow> int \<Rightarrow> offset_date_time option"
  pf_to_lowercase :: "string \<Rightarrow> string"
  pf_to_uppercase :: "string \<Rightarrow> string"
  pf_starts_alphanumeric :: "string \<Rightarrow> bool"
  pf_json_feedback_print :: "ai_feedback \<Rightarrow> string"
  pf_json_feedback_parse :: "string \<Rightarrow> ai_feedback option"
  pf_yaml_to_value :: "ticket \<Rightarrow> (yaml \<times> yaml) list"
  pf_yaml_print :: "(yaml \<times> yaml) list \<Rightarrow> string"
  pf_yaml_parse :: "string \<Rightarrow> string + yaml"
  pf_yaml_from_value :: "(yaml \<times> yaml) list \<Rightarrow> string + ticket"
  pf_sha256_16 :: "string \<Rightarrow> ulid"

subsection \<open>Slugs (ids.rs)\<close>

definition crockford :: string where
  "crockford = ''0123456789ABCDEFGHJKMNPQRSTVWXYZ''"

text \<open>The 64-bit FNV-1a hash over the bytes of the ULID.\<close>

definition fnv_step :: "64 word \<Rightarrow> 8 word \<Rightarrow> 64 word" where
  "fnv_step h b = (xor h (ucast b)) * 0x00000100000001b3"

definition fnv1a :: "8 word list \<Rightarrow> 64 word" where
  "fnv1a bs = foldl fnv_step 0xcbf29ce484222325 bs"

definition slug_code :: "64 word \<Rightarrow> string" where
  "slug_code h =
     map (\<lambda>i. crockford ! unat (and (drop_bit (25 - 5 * i) h) 0x1f)) [0, 1, 2, 3, 4, 5]"

definition derive_slug :: "platform \<Rightarrow> ulid \<Rightarrow> string \<Rightarrow> string" where
  "derive_slug P i prefix =
     pf_to_uppercase P prefix @ ''-'' @ slug_code (fnv1a (pf_ulid_bytes P i))"

subsection \<open>Timestamps (timestamp.rs)\<close>

definition ts_new :: "platform \<Rightarrow> string \<Rightarrow> timestamp" where
  "ts_new P raw = \<lparr>ts_raw = raw, ts_parsed = pf_rfc3339_parse P raw\<rparr>"

definition ts_from_datetime :: "platform \<Rightarrow> offset_date_time \<Rightarrow> timestamp" where
  "ts_from_datetime P dt =
     \<lparr>ts_raw = unwrap_or (pf_rfc3339_format P dt) [], ts_parsed = Some dt\<rparr>"

text \<open>
  \<open>plus_minutes\<close> adds a \<open>time::Duration\<close>; the addition panics when the result is outside
  the representable years, which is the outcome \<open>None\<close>.
\<close>

definition minute_nanos :: int where "minute_nanos = 60000000000"

definition plus_minutes :: "platform \<Rightarrow> timestamp \<Rightarrow> int \<Rightarrow> timestamp option" where
  "plus_minutes P t minutes =
     (case ts_parsed t of
        Some dt \<Rightarrow> map_option (ts_from_datetime P) (pf_datetime_add P dt (minutes * minute_nanos))
      | None \<Rightarrow> Some t)"

definition chronological_cmp :: "timestamp \<Rightarrow> timestamp \<Rightarrow> ordering option" where
  "chronological_cmp a b =
     (case (ts_parsed a, ts_parsed b) of
        (Some x, Some y) \<Rightarrow> Some (ord_cmp (unix_nanos x) (unix_nanos y))
      | _ \<Rightarrow> None)"

definition is_after :: "timestamp \<Rightarrow> timestamp \<Rightarrow> bool" where
  "is_after a b = (chronological_cmp a b = Some Greater)"

definition ts_is_valid :: "timestamp \<Rightarrow> bool" where
  "ts_is_valid t = is_some (ts_parsed t)"

text \<open>
  The comparator of the note, attachment and claim-history orders: chronological when
  both sides parse, else textual, then by id.
\<close>

definition time_then_id_cmp :: "timestamp \<Rightarrow> ulid \<Rightarrow> timestamp \<Rightarrow> ulid \<Rightarrow> ordering" where
  "time_then_id_cmp ta ia tb ib =
     ord_then (unwrap_or (chronological_cmp ta tb) (ord_cmp (ts_raw ta) (ts_raw tb)))
       (ord_cmp ia ib)"

subsection \<open>Ticket references (ticket\_ref.rs)\<close>

definition qualified_ref :: "project_ticket_ref \<Rightarrow> string" where
  "qualified_ref r = ''@'' @ project_id r @ ''/'' @ connection_id r @ '':'' @ native_id r"

definition from_qualified :: "string \<Rightarrow> project_ticket_ref option" where
  "from_qualified v =
     Option.bind (strip_prefix ''@'' v) (\<lambda>r.
     Option.bind (split_once ''/'' r) (\<lambda>(p, ticket).
     Option.bind (split_once '':'' ticket) (\<lambda>(c, n).
       if p = [] \<or> c = [] \<or> n = [] then None
       else Some \<lparr>project_id = p, connection_id = c, native_id = n\<rparr>)))"

subsection \<open>New tickets\<close>

definition SCHEMA_VERSION :: nat where "SCHEMA_VERSION = 2"
definition SHAPE_SCHEMA_VERSION :: nat where "SHAPE_SCHEMA_VERSION = 3"
definition INTENT_SCHEMA_VERSION :: nat where "INTENT_SCHEMA_VERSION = 4"
definition CROP_SCHEMA_VERSION :: nat where "CROP_SCHEMA_VERSION = 5"
definition ARROW_HEAD_SCHEMA_VERSION :: nat where "ARROW_HEAD_SCHEMA_VERSION = 6"

lemmas schema_versions = SCHEMA_VERSION_def SHAPE_SCHEMA_VERSION_def INTENT_SCHEMA_VERSION_def
  CROP_SCHEMA_VERSION_def ARROW_HEAD_SCHEMA_VERSION_def

text \<open>\<open>Ticket::new\<close>: the required fields, everything else at its default.\<close>

definition ticket_new ::
  "ulid \<Rightarrow> string \<Rightarrow> string \<Rightarrow> string \<Rightarrow> timestamp \<Rightarrow> timestamp \<Rightarrow> ticket" where
  "ticket_new i slug title category created updated =
     \<lparr>t_id = i, t_slug = slug, t_title = title, t_category = category,
      t_priority = PDefault, t_status = NotStarted, t_started_phase = None, t_up_next = False,
      t_tags = [], t_blocked_by = [], t_follow_ups = [], t_blocked_reason = None,
      t_created_at = created, t_created_by = None, t_updated_at = updated,
      t_completed_at = None, t_verified_at = None, t_closed_at = None, t_close_reason = None,
      t_duplicate_of = None, t_claimed_by = None, t_claim_lease_expires_at = None,
      t_claim_eta_at = None, t_worker_label = None, t_claim_count = 0, t_claim_history = [],
      t_assignees = [], t_review_requests = [], t_external = [], t_attachments = [],
      t_moved_to_store = None, t_moved_at = None, t_copied_from = None,
      t_transfer_operation_id = None, t_transferred_from = None, t_legacy_number = None,
      t_schema = SCHEMA_VERSION, t_details = [], t_notes = [], t_extra = []\<rparr>"

subsection \<open>Documented behaviour of the ULID crate\<close>

text \<open>
  A ULID prints as 26 Crockford base-32 digits, most significant first, so the texts are
  pairwise different, contain no separator and compare as the numbers do.
\<close>

definition ulid_text_order :: "platform \<Rightarrow> bool" where
  "ulid_text_order P =
     (\<forall>i j. ord_cmp (pf_ulid_to_string P i) (pf_ulid_to_string P j) = ord_cmp i j)"

definition ulid_text_width :: "platform \<Rightarrow> bool" where
  "ulid_text_width P = (\<forall>i. length (pf_ulid_to_string P i) = 26)"

definition ulid_text_parses :: "platform \<Rightarrow> bool" where
  "ulid_text_parses P = (\<forall>i. pf_ulid_from_string P (pf_ulid_to_string P i) = Some i)"

lemma append_less_append [simp]: "xs @ ys < xs @ zs \<longleftrightarrow> ys < (zs :: 'a::linorder list)"
  by (induction xs) simp_all

lemma ord_cmp_append_same [simp]:
  "ord_cmp (xs @ ys) (xs @ zs) = ord_cmp ys (zs :: 'a::linorder list)"
  "ord_cmp (x # ys) (x # zs) = ord_cmp ys (zs :: 'a::linorder list)"
  by (simp_all add: ord_cmp_def)

lemma ulid_text_inj: "ulid_text_order P \<Longrightarrow> pf_ulid_to_string P i = pf_ulid_to_string P j \<longleftrightarrow> i = j"
  by (metis ord_cmp_iff(2) ulid_text_order_def)

subsection \<open>Facts on slugs, timestamps and references\<close>

lemma length_crockford: "length crockford = 32"
  by (simp add: crockford_def)

lemma and_1f_less: "unat (and x (0x1f :: 64 word)) < 32"
proof -
  have "unat (and x 0x1f) \<le> unat (0x1f :: 64 word)"
    by (rule word_and_le1 [THEN word_le_nat_alt [THEN iffD1]])
  then show ?thesis by simp
qed

lemma length_slug_code: "length (slug_code h) = 6"
  by (simp add: slug_code_def)

lemma set_slug_code: "set (slug_code h) \<subseteq> set crockford"
  using and_1f_less length_crockford by (auto simp: slug_code_def intro!: nth_mem)

lemma chronological_cmp_refl: "ts_is_valid a \<Longrightarrow> chronological_cmp a a = Some Equal"
  by (auto simp: chronological_cmp_def ts_is_valid_def is_some_iff)

lemma chronological_cmp_swap:
  "chronological_cmp b a = map_option ord_reverse (chronological_cmp a b)"
  by (auto simp: chronological_cmp_def ord_cmp_reverse split: option.splits)

lemma chronological_cmp_valid:
  "ts_is_valid a \<Longrightarrow> ts_is_valid b \<Longrightarrow>
     chronological_cmp a b = Some (ord_cmp (unix_nanos (the (ts_parsed a))) (unix_nanos (the (ts_parsed b))))"
  by (auto simp: chronological_cmp_def ts_is_valid_def is_some_iff)

text \<open>
  On well-formed timestamps the note, attachment and claim-history comparator is a total
  order that separates ids.
\<close>

lemma time_then_id_valid:
  "ts_is_valid ta \<Longrightarrow> ts_is_valid tb \<Longrightarrow> time_then_id_cmp ta ia tb ib =
     ord_then (ord_cmp (unix_nanos (the (ts_parsed ta))) (unix_nanos (the (ts_parsed tb))))
       (ord_cmp ia ib)"
  by (simp add: time_then_id_cmp_def chronological_cmp_valid)

lemma total_time_then_id:
  "total_cmp (\<lambda>a b. time_then_id_cmp (f a) (i a) (f b) (i b)) (\<lambda>x. ts_is_valid (f x))"
  by (rule total_cmp_cong[OF time_then_id_valid]) (auto intro: total_cmp_then total_cmp_key)

lemma strict_time_then_id:
  "strict_total_cmp (\<lambda>a b. time_then_id_cmp (f a) (i a) (f b) (i b)) (\<lambda>x. ts_is_valid (f x)) i"
  using total_time_then_id
  by (auto simp: strict_total_cmp_def strict_total_cmp_axioms_def time_then_id_valid ord_then_iff)

lemma find_sub_Cons_single:
  "c \<notin> set a \<Longrightarrow> find_sub [c] (a @ c # b) = Some (length a)"
  by (induction a) auto

lemma split_once_single:
  "c \<notin> set a \<Longrightarrow> split_once [c] (a @ c # b) = Some (a, b)"
  by (simp add: split_once_def find_sub_Cons_single)

end
