(* ===== verification/Ticket_Feedback.thy ===== *)
theory Ticket_Feedback
  imports Ticket_Model
begin

text \<open>
  The behaviour attached to the data of \<open>ticket.rs\<close>: confidence scores, AI thumbs
  feedback, the lexical feedback markers of notes and details, the open-feedback state of
  a ticket (\<open>Ticket::feedback_needed\<close>), and the validation of media annotations and
  attachment metadata.
\<close>

subsection \<open>Confidence scores\<close>

definition CONFIDENCE_MAX :: nat where "CONFIDENCE_MAX = 100"

text \<open>The error value is the text shown in the message.\<close>

definition confidence_new :: "64 word \<Rightarrow> string + confidence" where
  "confidence_new v =
     (if unat v < 256 \<and> unat v \<le> CONFIDENCE_MAX then Inr (Confidence (unat v))
      else Inl (show_nat (unat v)))"

definition confidence_from_str :: "string \<Rightarrow> string + confidence" where
  "confidence_from_str value =
     (let trimmed = trim value in
      if trimmed = [] \<or> \<not> list_all is_ascii_digit trimmed then Inl value
      else case parse_digits trimmed of
          None \<Rightarrow> Inl value
        | Some n \<Rightarrow> if n < 2 ^ 64 then confidence_new (of_nat n) else Inl value)"

subsection \<open>AI thumbs feedback\<close>

definition helpful_label :: string where
  "helpful_label = ''Helpful '' @ em_dash @ '' keep suggestions like this.''"

definition not_helpful_label :: string where
  "not_helpful_label = ''Not helpful '' @ em_dash @ '' stop suggestions like this.''"

definition first_line :: "string \<Rightarrow> string option" where
  "first_line text = (case lines text of [] \<Rightarrow> None | l # _ \<Rightarrow> Some l)"

definition ai_feedback_target :: "string \<Rightarrow> string option" where
  "ai_feedback_target text =
     Option.bind (first_line text) (\<lambda>first.
     Option.bind (strip_prefix ''AI feedback for '' first) (\<lambda>target.
     Option.bind (rsplit_once '': '' target) (\<lambda>(i, rating).
       if rating = helpful_label \<or> rating = not_helpful_label then Some i else None)))"

definition from_legacy_text :: "string \<Rightarrow> ai_feedback option" where
  "from_legacy_text text =
     Option.bind (first_line text) (\<lambda>first.
     Option.bind (ai_feedback_target text) (\<lambda>target.
       let rating = (if ends_with helpful_label first then Helpful else NotHelpful);
           explanation = trim (drop (length first) text)
       in Some \<lparr>af_target = target, af_rating = Some rating,
                af_explanation = (if explanation \<noteq> [] then Some explanation else None)\<rparr>))"

definition ai_feedback_value :: "ticket_note \<Rightarrow> ai_feedback option" where
  "ai_feedback_value n =
     (case n_ai_feedback n of Some f \<Rightarrow> Some f | None \<Rightarrow> from_legacy_text (n_text n))"

definition note_target_ulid :: "platform \<Rightarrow> string \<Rightarrow> ulid option" where
  "note_target_ulid P target =
     Option.bind (strip_prefix ''note:'' target) (pf_ulid_from_string P)"

definition feedback_parent_from_text :: "platform \<Rightarrow> string \<Rightarrow> ulid option" where
  "feedback_parent_from_text P text =
     Option.bind (ai_feedback_target text) (note_target_ulid P)"

definition ai_feedback_for_note :: "platform \<Rightarrow> ticket_note \<Rightarrow> ulid option" where
  "ai_feedback_for_note P n =
     opt_or (Option.bind (n_ai_feedback n) (\<lambda>f. note_target_ulid P (af_target f)))
       (opt_or (n_feedback_for n) (feedback_parent_from_text P (n_text n)))"

definition text_is_ai_thumbs_feedback :: "string \<Rightarrow> bool" where
  "text_is_ai_thumbs_feedback text = is_some (ai_feedback_target text)"

definition is_ai_thumbs_feedback :: "ticket_note \<Rightarrow> bool" where
  "is_ai_thumbs_feedback n =
     (is_some (n_ai_feedback n) \<or> is_some (n_feedback_for n) \<or>
      text_is_ai_thumbs_feedback (n_text n))"

subsection \<open>Feedback markers\<close>

definition feedback_marker :: string where "feedback_marker = ''FEEDBACK NEEDED''"

definition text_requests_feedback :: "string \<Rightarrow> bool" where
  "text_requests_feedback text =
     list_ex (contains_sub feedback_marker)
       (filter (\<lambda>line. \<not> starts_with ''>'' (trim_start line)) (lines text))"

text \<open>The optional heading, list and emphasis prefixes of a details line.\<close>

definition strip_heading :: "string \<Rightarrow> string" where
  "strip_heading rest =
     (let hashes = run_length (\<lambda>c. c = CHR ''#'') rest in
      if 1 \<le> hashes \<and> hashes \<le> 6 \<and> starts_with '' '' (drop hashes rest)
      then trim_start_char (CHR '' '') (drop hashes rest) else rest)"

definition strip_list_marker :: "string \<Rightarrow> string" where
  "strip_list_marker rest =
     (case opt_or (strip_prefix ''- '' rest)
             (opt_or (strip_prefix ''* '' rest) (strip_prefix ''+ '' rest)) of
        Some after \<Rightarrow> trim_start_char (CHR '' '') after
      | None \<Rightarrow>
          let digits = run_length is_ascii_digit rest in
          if 1 \<le> digits \<and> digits \<le> 9 \<and>
             (starts_with ''. '' (drop digits rest) \<or> starts_with '') '' (drop digits rest))
          then trim_start_char (CHR '' '') (drop (digits + 2) rest) else rest)"

fun strip_emphasis :: "string list \<Rightarrow> string \<Rightarrow> string \<times> string" where
  "strip_emphasis [] rest = (rest, [])"
| "strip_emphasis (opener # openers) rest =
     (case strip_prefix opener rest of
        Some after \<Rightarrow> (after, opener)
      | None \<Rightarrow> strip_emphasis openers rest)"

text \<open>
  The first character after the marker: alphanumeric beyond ASCII is the Unicode table of
  the standard library.
\<close>

definition starts_with_word_char :: "platform \<Rightarrow> string \<Rightarrow> bool" where
  "starts_with_word_char P s =
     (case s of [] \<Rightarrow> False
      | c # _ \<Rightarrow> if (of_char c :: nat) < 128 then is_ascii_alnum c \<or> c = CHR ''_''
                else pf_starts_alphanumeric P s)"

definition line_has_marker :: "platform \<Rightarrow> string \<Rightarrow> bool" where
  "line_has_marker P body =
     (let (rest, emphasis) =
        strip_emphasis [''**'', ''__'', ''*'', ''_''] (strip_list_marker (strip_heading body))
      in case strip_prefix feedback_marker rest of
           None \<Rightarrow> False
         | Some after \<Rightarrow>
             let after = unwrap_or (opt_filter (\<lambda>_. emphasis \<noteq> []) (strip_prefix emphasis after)) after
             in \<not> starts_with_word_char P after)"

definition fence_open :: "string \<Rightarrow> char option" where
  "fence_open body =
     List.find (\<lambda>c. run_length (\<lambda>x. x = c) body \<ge> 3) [CHR ''`'', CHR ''~'']"

text \<open>The scan over the lines, with the open code fence as its state.\<close>

fun details_scan :: "platform \<Rightarrow> (char \<times> nat) option \<Rightarrow> string list \<Rightarrow> bool" where
  "details_scan P fence [] = False"
| "details_scan P fence (line # rest) =
     (let body = trim_start_char (CHR '' '') line;
          indent = length line - length body
      in case fence of
           Some (c, n) \<Rightarrow>
             (let run = run_length (\<lambda>x. x = c) body in
              if indent < 4 \<and> run \<ge> n \<and> trim (drop run body) = []
              then details_scan P None rest else details_scan P fence rest)
         | None \<Rightarrow>
             (case (if indent < 4 then fence_open body else None) of
                Some c \<Rightarrow> details_scan P (Some (c, run_length (\<lambda>x. x = c) body)) rest
              | None \<Rightarrow>
                  if indent \<ge> 4 \<or> starts_with [CHR 9] body \<or> starts_with ''>'' body
                  then details_scan P None rest
                  else if line_has_marker P body then True
                  else details_scan P None rest))"

definition details_request_feedback :: "platform \<Rightarrow> string \<Rightarrow> bool" where
  "details_request_feedback P text = details_scan P None (lines text)"

definition infer_kind :: "note_kind \<Rightarrow> bool \<Rightarrow> string \<Rightarrow> note_kind" where
  "infer_kind kind explicit text =
     (if kind = Regular \<and> \<not> explicit \<and> \<not> text_is_ai_thumbs_feedback text
         \<and> text_requests_feedback text
      then FeedbackNeeded else kind)"

definition is_feedback_needed_request :: "ticket_note \<Rightarrow> bool" where
  "is_feedback_needed_request n =
     (\<not> is_ai_thumbs_feedback n \<and>
      infer_kind (n_kind n) (n_kind_explicit n) (n_text n) = FeedbackNeeded)"

definition participates_in_feedback_exchange :: "ticket_note \<Rightarrow> bool" where
  "participates_in_feedback_exchange n =
     ((n_kind n = Regular \<or> n_kind n = FeedbackNeeded) \<and> \<not> is_ai_thumbs_feedback n)"

definition explicit_kind_suppresses_feedback_marker ::
  "note_kind \<Rightarrow> bool \<Rightarrow> bool \<Rightarrow> string \<Rightarrow> bool" where
  "explicit_kind_suppresses_feedback_marker kind explicit responds text =
     (kind = Regular \<and> explicit \<and> \<not> responds \<and> \<not> text_is_ai_thumbs_feedback text
      \<and> text_requests_feedback text)"

subsection \<open>Open feedback of a ticket\<close>

definition chronological_note_cmp :: "ticket_note \<Rightarrow> ticket_note \<Rightarrow> ordering" where
  "chronological_note_cmp a b =
     time_then_id_cmp (n_created_at a) (n_id a) (n_created_at b) (n_id b)"

definition answered :: "ticket_note list \<Rightarrow> ticket_note \<Rightarrow> bool" where
  "answered notes request = list_ex (\<lambda>reply. n_response_to reply = Some (n_id request)) notes"

definition tracked_request :: "ticket_note \<Rightarrow> bool" where
  "tracked_request n = (n_kind n = FeedbackNeeded \<and> n_feedback_request n)"

definition sequential_note :: "ticket_note \<Rightarrow> bool" where
  "sequential_note n =
     ((n_kind n = Regular \<or> n_kind n = FeedbackNeeded) \<and> \<not> is_ai_thumbs_feedback n
      \<and> \<not> n_feedback_request n \<and> n_response_to n = None)"

definition feedback_needed :: "platform \<Rightarrow> ticket \<Rightarrow> bool" where
  "feedback_needed P t =
     (if list_ex (\<lambda>request. tracked_request request \<and> \<not> answered (t_notes t) request) (t_notes t)
      then True
      else case max_by chronological_note_cmp (filter sequential_note (t_notes t)) of
          None \<Rightarrow> \<not> list_ex participates_in_feedback_exchange (t_notes t)
                  \<and> details_request_feedback P (t_details t)
        | Some n \<Rightarrow> is_feedback_needed_request n \<and> \<not> answered (t_notes t) n)"

subsection \<open>Media annotations\<close>

fun shape_type :: "annotation_shape option \<Rightarrow> string" where
  "shape_type None = ''rect''"
| "shape_type (Some ShapeRect) = ''rect''"
| "shape_type (Some ShapeStrike) = ''strike''"
| "shape_type (Some (ShapeFreehand _ _)) = ''freehand''"
| "shape_type (Some (ShapeArrow _ _ _)) = ''arrow''"
| "shape_type (Some (ShapeInsertion _)) = ''insertion''"

definition head_points :: "arrow_head \<Rightarrow> bool" where
  "head_points h = (h = HeadOpen \<or> h = HeadClosed)"

definition default_intent :: "media_annotation \<Rightarrow> string" where
  "default_intent a =
     (case ma_shape a of
        Some ShapeStrike \<Rightarrow> ''remove''
      | Some (ShapeInsertion _) \<Rightarrow> ''insert''
      | Some (ShapeArrow _ sh eh) \<Rightarrow>
          if head_points sh \<and> eh = HeadNone \<or> sh = HeadNone \<and> head_points eh
          then ''move'' else ''comment''
      | _ \<Rightarrow> ''comment'')"

definition primary_intent :: "media_annotation \<Rightarrow> string" where
  "primary_intent a =
     (let d = default_intent a in unwrap_or (List.find (\<lambda>i. i \<noteq> d) (ma_intents a)) d)"

definition primary_intent_color :: "media_annotation \<Rightarrow> string option" where
  "primary_intent_color a =
     map_of [(''comment'', ''blue''), (''bug'', ''red''), (''change'', ''orange''),
             (''insert'', ''green''), (''remove'', ''purple''), (''move'', ''teal''),
             (''question'', ''yellow'')] (primary_intent a)"

type_synonym bounds = "32 word \<times> 32 word \<times> 32 word \<times> 32 word"

definition point_box :: "annotation_point list \<Rightarrow> bounds option" where
  "point_box points =
     (case points of [] \<Rightarrow> None
      | p # ps \<Rightarrow>
          let min_x = Min (set (map pt_x points)); min_y = Min (set (map pt_y points));
              max_x = Max (set (map pt_x points)); max_y = Max (set (map pt_y points))
          in if max_x > 10000 \<or> max_y > 10000 then None
             else let x = min min_x 9999; y = min min_y 9999
                  in Some (x, y, max max_x (x + 1) - x, max max_y (y + 1) - y))"

definition saturating_add :: "32 word \<Rightarrow> 32 word \<Rightarrow> 32 word" where
  "saturating_add a b = (if unat a + unat b < 2 ^ 32 then a + b else - 1)"

definition annotation_bounds :: "media_annotation \<Rightarrow> bounds" where
  "annotation_bounds a = (ma_x a, ma_y a, ma_width a, ma_height a)"

definition valid_rectangle :: "media_annotation \<Rightarrow> bool" where
  "valid_rectangle a =
     (ma_width a > 0 \<and> ma_height a > 0 \<and>
      saturating_add (ma_x a) (ma_width a) \<le> 10000 \<and>
      saturating_add (ma_y a) (ma_height a) \<le> 10000)"

definition valid_time :: "media_annotation \<Rightarrow> bool" where
  "valid_time a =
     (case (ma_start_ms a, ma_end_ms a) of
        (Some s, Some e) \<Rightarrow> s \<le> e
      | (None, None) \<Rightarrow> True
      | _ \<Rightarrow> False)"

definition valid_shape :: "media_annotation \<Rightarrow> bool" where
  "valid_shape a =
     (case ma_shape a of
        None \<Rightarrow> True
      | Some ShapeRect \<Rightarrow> True
      | Some ShapeStrike \<Rightarrow> True
      | Some (ShapeFreehand points _) \<Rightarrow>
          length points \<ge> 3 \<and> point_box points = Some (annotation_bounds a)
      | Some (ShapeArrow points _ _) \<Rightarrow>
          length points \<ge> 2 \<and> point_box points = Some (annotation_bounds a)
      | Some (ShapeInsertion point) \<Rightarrow> point_box [point] = Some (annotation_bounds a))"

fun valid_intents_from :: "string list \<Rightarrow> string list \<Rightarrow> bool" where
  "valid_intents_from seen [] = True"
| "valid_intents_from seen (i # is) =
     (trim i \<noteq> [] \<and> i \<notin> set seen \<and> valid_intents_from (i # seen) is)"

definition annotation_error :: string where
  "annotation_error = ''annotations require unique ids, valid shape geometry and bounding boxes, nonempty unique intents, and complete ordered time ranges''"

fun validate_annotations_from :: "string list \<Rightarrow> media_annotation list \<Rightarrow> string + unit" where
  "validate_annotations_from seen [] = Inr ()"
| "validate_annotations_from seen (a # as) =
     (if ma_id a \<in> set seen \<or> \<not> valid_rectangle a \<or> \<not> valid_time a \<or> \<not> valid_shape a
         \<or> \<not> valid_intents_from [] (ma_intents a)
      then Inl annotation_error
      else validate_annotations_from (ma_id a # seen) as)"

definition validate_media_annotations :: "media_annotation list \<Rightarrow> string + unit" where
  "validate_media_annotations as = validate_annotations_from [] as"

fun validate_metadata_fields :: "(string \<times> string option) list \<Rightarrow> string + unit" where
  "validate_metadata_fields [] = Inr ()"
| "validate_metadata_fields ((label, value) # fs) =
     (if is_some_and value (\<lambda>v. trim v = [] \<or> length v > 200)
      then Inl (''attachment '' @ label @ '' must contain 1'' @ [CHR 0xE2, CHR 0x80, CHR 0x93]
                @ ''200 bytes'')
      else validate_metadata_fields fs)"

definition attachment_metadata_validate :: "attachment_metadata \<Rightarrow> string + unit" where
  "attachment_metadata_validate m =
     (if is_some (am_batch_label m) \<and> am_batch_id m = None
      then Inl ''attachment batch_label requires batch_id''
      else validate_metadata_fields
        [(''batch_id'', am_batch_id m), (''batch_label'', am_batch_label m),
         (''actor.identity'', Option.bind (am_actor m) aa_identity),
         (''actor.display_name'', Option.bind (am_actor m) aa_display_name)])"

end
