(* ===== verification/Ticket_File.thy ===== *)
theory Ticket_File
  imports Ticket_Feedback
begin

text \<open>
  The on-disk ticket file of \<open>format.rs\<close>: YAML frontmatter, a bounded Markdown body and
  the bounded notes section, with the legacy \<open>## Notes\<close> reader.  The YAML and JSON codecs
  are those of \<open>serde_yaml\<close> and \<open>serde_json\<close> (fields of \<open>platform\<close>); everything the
  source does around them (schema guards, unknown keys, markers, escaping, note metadata
  tokens) is defined here.  A panic of the source is the error \<open>FilePanic\<close>.
\<close>

subsection \<open>Errors and markers\<close>

datatype parse_error =
    MissingFrontmatter
  | UnterminatedFrontmatter
  | FrontmatterNotMapping
  | YamlError string
  | TrailingContent
  | UnsupportedSchema string
  | FilePanic

fun parse_error_code :: "parse_error \<Rightarrow> string" where
  "parse_error_code (UnsupportedSchema _) = ''upgrade_required''"
| "parse_error_code _ = ''invalid_ticket''"

definition BODY_BEGIN :: string where "BODY_BEGIN = ''<!-- hotsheet:body:begin -->''"
definition BODY_END :: string where "BODY_END = ''<!-- hotsheet:body:end -->''"
definition NOTES_BEGIN :: string where "NOTES_BEGIN = ''<!-- hotsheet:notes:begin -->''"
definition NOTES_END :: string where "NOTES_END = ''<!-- hotsheet:notes:end -->''"
definition NOTE_BEGIN_PREFIX :: string where "NOTE_BEGIN_PREFIX = ''<!-- hotsheet:note:begin ''"
definition NOTE_END :: string where "NOTE_END = ''<!-- hotsheet:note:end -->''"

definition marker_stem :: string where "marker_stem = ''<!-- hotsheet:''"

definition GUARDED_SCHEMA_V2 :: string where "GUARDED_SCHEMA_V2 = ''hotsheet/v2-bounded-notes''"
definition GUARDED_SCHEMA_V3 :: string where "GUARDED_SCHEMA_V3 = ''hotsheet/v3-annotation-shapes''"
definition GUARDED_SCHEMA_V4 :: string where "GUARDED_SCHEMA_V4 = ''hotsheet/v4-annotation-intents''"
definition GUARDED_SCHEMA_V5 :: string where "GUARDED_SCHEMA_V5 = ''hotsheet/v5-attachment-crop''"
definition GUARDED_SCHEMA_V6 :: string where "GUARDED_SCHEMA_V6 = ''hotsheet/v6-annotation-arrow-heads''"

lemmas guarded_schemas = GUARDED_SCHEMA_V2_def GUARDED_SCHEMA_V3_def GUARDED_SCHEMA_V4_def
  GUARDED_SCHEMA_V5_def GUARDED_SCHEMA_V6_def

lemmas marker_defs = BODY_BEGIN_def BODY_END_def NOTES_BEGIN_def NOTES_END_def
  NOTE_BEGIN_PREFIX_def NOTE_END_def marker_stem_def

definition KNOWN_KEYS :: "string list" where
  "KNOWN_KEYS = [''id'', ''slug'', ''title'', ''category'', ''priority'', ''status'',
     ''started_phase'', ''up_next'', ''tags'', ''blocked_by'', ''follow_ups'',
     ''blocked_reason'', ''created_at'', ''created_by'', ''updated_at'', ''completed_at'',
     ''verified_at'', ''closed_at'', ''close_reason'', ''duplicate_of'', ''claimed_by'',
     ''claim_lease_expires_at'', ''claim_eta_at'', ''worker_label'', ''claim_count'',
     ''claim_history'', ''assignees'', ''review_requests'', ''external'', ''attachments'',
     ''moved_to_store'', ''moved_at'', ''copied_from'', ''transfer_operation_id'',
     ''transferred_from'', ''legacy_number'', ''schema'']"

subsection \<open>Escaping of user content\<close>

definition escape_line :: "string \<Rightarrow> string" where
  "escape_line line =
     (if starts_with marker_stem (trim_start_char (CHR 92) line) then CHR 92 # line else line)"

definition escape_content :: "string \<Rightarrow> string" where
  "escape_content content = join nl (map escape_line (lines content))"

definition unescape_line :: "string \<Rightarrow> string" where
  "unescape_line line =
     (let without_one = unwrap_or (strip_prefix [CHR 92] line) line in
      if starts_with marker_stem (trim_start_char (CHR 92) without_one) then without_one else line)"

definition unescape_content :: "string \<Rightarrow> string" where
  "unescape_content content = join nl (map unescape_line (lines content))"

subsection \<open>Hexadecimal note values\<close>

definition encode_byte :: "char \<Rightarrow> string" where
  "encode_byte c = [hex_digit (of_char c div 16), hex_digit (of_char c mod 16)]"

definition encode_note_summary :: "string \<Rightarrow> string" where
  "encode_note_summary summary = concat (map encode_byte summary)"

definition hex_value :: "char \<Rightarrow> nat option" where
  "hex_value c =
     (let n = of_char c :: nat in
      if 48 \<le> n \<and> n \<le> 57 then Some (n - 48)
      else if 97 \<le> n \<and> n \<le> 102 then Some (n - 87)
      else if 65 \<le> n \<and> n \<le> 70 then Some (n - 55)
      else None)"

text \<open>\<open>u8::from_str_radix(_, 16)\<close> on two bytes: a leading plus sign is accepted.\<close>

definition from_hex_pair :: "char \<Rightarrow> char \<Rightarrow> nat option" where
  "from_hex_pair a b =
     (if a = CHR ''+'' then hex_value b
      else Option.bind (hex_value a) (\<lambda>x. map_option (\<lambda>y. 16 * x + y) (hex_value b)))"

text \<open>
  The loop over byte offsets in steps of two.  Slicing \<open>&encoded[o..o + 2]\<close> panics when
  either end is inside a multi-byte character; the first pair that is not hexadecimal
  stops the loop with \<open>None\<close>.
\<close>

fun decode_pairs :: "string \<Rightarrow> parse_error + string option" where
  "decode_pairs [] = Inr (Some [])"
| "decode_pairs [c] = Inr None"
| "decode_pairs (a # b # rest) =
     (if is_continuation a \<or> rest \<noteq> [] \<and> is_continuation (hd rest) then Inl FilePanic
      else case from_hex_pair a b of
          None \<Rightarrow> Inr None
        | Some v \<Rightarrow> result_bind (decode_pairs rest) (\<lambda>r. Inr (map_option (\<lambda>bs. char_of v # bs) r)))"

text \<open>\<open>String::from_utf8\<close>: the well-formed byte sequences.\<close>

definition byte_in :: "nat \<Rightarrow> nat \<Rightarrow> char \<Rightarrow> bool" where
  "byte_in lo hi c = (let n = of_char c :: nat in lo \<le> n \<and> n \<le> hi)"

function valid_utf8 :: "string \<Rightarrow> bool" where
  "valid_utf8 s =
     (case s of
        [] \<Rightarrow> True
      | a # r1 \<Rightarrow>
          if byte_in 0 0x7F a then valid_utf8 r1
          else case r1 of [] \<Rightarrow> False
          | b # r2 \<Rightarrow>
            if byte_in 0xC2 0xDF a then is_continuation b \<and> valid_utf8 r2
            else case r2 of [] \<Rightarrow> False
            | c # r3 \<Rightarrow>
              if byte_in 0xE0 0xEF a
              then (if byte_in 0xE0 0xE0 a then byte_in 0xA0 0xBF b
                    else if byte_in 0xED 0xED a then byte_in 0x80 0x9F b
                    else is_continuation b) \<and> is_continuation c \<and> valid_utf8 r3
              else case r3 of [] \<Rightarrow> False
              | d # r4 \<Rightarrow>
                byte_in 0xF0 0xF4 a \<and>
                (if byte_in 0xF0 0xF0 a then byte_in 0x90 0xBF b
                 else if byte_in 0xF4 0xF4 a then byte_in 0x80 0x8F b
                 else is_continuation b) \<and> is_continuation c \<and> is_continuation d \<and> valid_utf8 r4)"
  by pat_completeness auto
termination
  by (relation "measure length") auto

declare valid_utf8.simps [simp del]

definition decode_note_summary :: "string \<Rightarrow> parse_error + string option" where
  "decode_note_summary encoded =
     (if length encoded mod 2 \<noteq> 0 then Inr None
      else result_bind (decode_pairs encoded) (\<lambda>r. Inr (opt_filter valid_utf8 r)))"

subsection \<open>Note metadata tokens\<close>

fun note_kind_str :: "note_kind \<Rightarrow> string" where
  "note_kind_str Regular = ''regular''"
| "note_kind_str FeedbackNeeded = ''feedback_needed''"
| "note_kind_str FeedbackDraft = ''feedback_draft''"
| "note_kind_str StatusNote = ''status''"
| "note_kind_str Activity = ''activity''"

definition parse_note_kind :: "string \<Rightarrow> note_kind" where
  "parse_note_kind s =
     (if s = ''feedback_needed'' then FeedbackNeeded
      else if s = ''feedback_draft'' then FeedbackDraft
      else if s = ''status'' then StatusNote
      else if s = ''activity'' then Activity
      else Regular)"

definition parse_actor_role :: "string \<Rightarrow> actor_role option" where
  "parse_actor_role s =
     (if s = ''human'' then Some Human else if s = ''ai'' then Some Ai
      else if s = ''system'' then Some System else None)"

fun actor_role_str :: "actor_role \<Rightarrow> string" where
  "actor_role_str Human = ''human''"
| "actor_role_str Ai = ''ai''"
| "actor_role_str System = ''system''"
| "actor_role_str UnknownRole = ''unknown''"

record note_metadata =
  md_id :: ulid
  md_kind :: note_kind
  md_kind_explicit :: bool
  md_created_at :: "timestamp option"
  md_edited_at :: "timestamp option"
  md_summary :: "string option"
  md_confidence :: "confidence option"
  md_feedback_for :: "ulid option"
  md_feedback_request :: bool
  md_response_to :: "ulid option"
  md_ai_feedback :: "ai_feedback option"
  md_human_edited :: bool
  md_actor :: "note_actor option"

text \<open>The token after the first occurrence of a key.\<close>

fun value_after :: "string \<Rightarrow> string list \<Rightarrow> string option" where
  "value_after key [] = None"
| "value_after key (tok # toks) =
     (if tok = key then (case toks of [] \<Rightarrow> None | v # _ \<Rightarrow> Some v) else value_after key toks)"

text \<open>\<open>and_then(decode_note_summary)\<close> on an optional token.\<close>

definition decode_opt :: "string option \<Rightarrow> parse_error + string option" where
  "decode_opt v = (case v of None \<Rightarrow> Inr None | Some s \<Rightarrow> decode_note_summary s)"

definition result_ok :: "'e + 'a \<Rightarrow> 'a option" where
  "result_ok r = (case r of Inl _ \<Rightarrow> None | Inr x \<Rightarrow> Some x)"

definition parse_note_actor :: "string list \<Rightarrow> parse_error + note_actor option" where
  "parse_note_actor tokens =
     (case Option.bind (value_after ''actor:'' tokens) parse_actor_role of
        None \<Rightarrow> Inr None
      | Some role \<Rightarrow>
          result_bind (decode_opt (value_after ''actor_id_hex:'' tokens))
            (\<lambda>i. Inr (Some \<lparr>na_role = role, na_id = i\<rparr>)))"

definition parse_note_metadata ::
  "platform \<Rightarrow> ulid \<Rightarrow> string list \<Rightarrow> parse_error + note_metadata" where
  "parse_note_metadata P i tokens =
     result_bind (decode_opt (value_after ''summary_hex:'' tokens)) (\<lambda>summary.
     result_bind (decode_opt (value_after ''ai_feedback_hex:'' tokens)) (\<lambda>feedback.
     result_bind (parse_note_actor tokens) (\<lambda>actor.
       Inr \<lparr>md_id = i,
            md_kind = (case value_after ''kind:'' tokens of None \<Rightarrow> Regular
                       | Some k \<Rightarrow> parse_note_kind k),
            md_kind_explicit = (value_after ''kind_explicit:'' tokens = Some ''true''),
            md_created_at = map_option (ts_new P) (value_after ''created_at:'' tokens),
            md_edited_at = map_option (ts_new P) (value_after ''edited_at:'' tokens),
            md_summary = summary,
            md_confidence = Option.bind (value_after ''confidence:'' tokens)
                              (\<lambda>v. result_ok (confidence_from_str v)),
            md_feedback_for = Option.bind (value_after ''feedback_for:'' tokens)
                                (pf_ulid_from_string P),
            md_feedback_request = (value_after ''feedback_request:'' tokens = Some ''true''),
            md_response_to = Option.bind (value_after ''response_to:'' tokens)
                               (pf_ulid_from_string P),
            md_ai_feedback = Option.bind feedback (pf_json_feedback_parse P),
            md_human_edited = (value_after ''human_edited:'' tokens = Some ''true''),
            md_actor = actor\<rparr>)))"

text \<open>\<open>note_id_timestamp\<close>: the time component of the note's ULID.\<close>

definition note_id_timestamp :: "platform \<Rightarrow> ulid \<Rightarrow> timestamp" where
  "note_id_timestamp P i =
     (case pf_datetime_add P \<lparr>unix_nanos = 0, utc_offset = 0\<rparr>
             (int (pf_ulid_timestamp_ms P i) * 1000000) of
        Some dt \<Rightarrow> ts_from_datetime P dt
      | None \<Rightarrow> \<lparr>ts_raw = [], ts_parsed = None\<rparr>)"

definition dash_separator :: string where "dash_separator = '' '' @ em_dash @ '' ''"

definition build_note :: "platform \<Rightarrow> note_metadata \<Rightarrow> string \<Rightarrow> ticket_note option" where
  "build_note P md block =
     (if block = [] then None
      else
        let (legacy_at, text) =
              (if md_created_at md = None then
                 (case split_once dash_separator block of
                    Some (at, text) \<Rightarrow> (Some (ts_new P (trim at)), trim text)
                  | None \<Rightarrow> (None, block))
               else (None, block));
            created_at = unwrap_or (opt_or (md_created_at md) legacy_at)
                           (note_id_timestamp P (md_id md));
            edited_at = unwrap_or (md_edited_at md) created_at
        in Some \<lparr>n_id = md_id md, n_kind = md_kind md, n_kind_explicit = md_kind_explicit md,
                 n_created_at = created_at, n_edited_at = edited_at, n_summary = md_summary md,
                 n_confidence = md_confidence md, n_feedback_for = md_feedback_for md,
                 n_feedback_request = md_feedback_request md, n_response_to = md_response_to md,
                 n_ai_feedback = md_ai_feedback md, n_human_edited = md_human_edited md,
                 n_actor = md_actor md, n_text = text\<rparr>)"

subsection \<open>Writing notes\<close>

definition opt_token :: "string \<Rightarrow> string option \<Rightarrow> string list" where
  "opt_token key v = (case v of None \<Rightarrow> [] | Some x \<Rightarrow> [key, x])"

definition flag_token :: "string \<Rightarrow> bool \<Rightarrow> string list" where
  "flag_token key b = (if b then [key, ''true''] else [])"

definition written_actor :: "ticket_note \<Rightarrow> note_actor option" where
  "written_actor n = opt_filter (\<lambda>a. na_role a \<noteq> UnknownRole) (n_actor n)"

text \<open>
  The metadata tokens of a note marker in the order the writer pushes them; the writer
  separates them by one blank.
\<close>

definition note_tokens :: "platform \<Rightarrow> ticket_note \<Rightarrow> string list" where
  "note_tokens P n =
     pf_ulid_to_string P (n_id n)
     # (if n_kind n \<noteq> Regular then [''kind:'', note_kind_str (n_kind n)] else [])
     @ [''created_at:'', ts_raw (n_created_at n), ''edited_at:'', ts_raw (n_edited_at n)]
     @ opt_token ''summary_hex:'' (map_option encode_note_summary (n_summary n))
     @ opt_token ''confidence:'' (map_option (\<lambda>c. show_nat (confidence_get c)) (n_confidence n))
     @ opt_token ''feedback_for:'' (map_option (pf_ulid_to_string P) (n_feedback_for n))
     @ flag_token ''kind_explicit:'' (n_kind_explicit n)
     @ flag_token ''feedback_request:'' (n_feedback_request n)
     @ opt_token ''response_to:'' (map_option (pf_ulid_to_string P) (n_response_to n))
     @ opt_token ''ai_feedback_hex:''
         (map_option (\<lambda>f. encode_note_summary (pf_json_feedback_print P f)) (n_ai_feedback n))
     @ flag_token ''human_edited:'' (n_human_edited n)
     @ opt_token ''actor:'' (map_option (\<lambda>a. actor_role_str (na_role a)) (written_actor n))
     @ opt_token ''actor_id_hex:''
         (map_option encode_note_summary
            (opt_filter (\<lambda>i. i \<noteq> []) (Option.bind (written_actor n) na_id)))"

definition note_to_string :: "platform \<Rightarrow> ticket_note \<Rightarrow> string" where
  "note_to_string P n =
     nl @ NOTE_BEGIN_PREFIX @ join '' '' (note_tokens P n) @ '' -->'' @ nl
     @ escape_content (n_text n) @ nl @ NOTE_END @ nl"

definition notes_to_string :: "platform \<Rightarrow> ticket_note list \<Rightarrow> string" where
  "notes_to_string P notes =
     NOTES_BEGIN @ nl @ ''## Notes'' @ nl @ concat (map (note_to_string P) notes) @ NOTES_END @ nl"

subsection \<open>Reading notes\<close>

text \<open>
  \<open>split_once_marker_line\<close> on the list of lines (each with its newline): the text before
  the first line that is the marker, and the text after it.
\<close>

fun split_marker_lines :: "(string \<Rightarrow> bool) \<Rightarrow> string list \<Rightarrow> (string \<times> string \<times> string) option" where
  "split_marker_lines p [] = None"
| "split_marker_lines p (line # rest) =
     (if p (bare_line line) then Some ([], bare_line line, concat rest)
      else map_option (\<lambda>(before, m, after). (line @ before, m, after)) (split_marker_lines p rest))"

definition split_once_prefixed_marker_line ::
  "string \<Rightarrow> string \<Rightarrow> (string \<times> string \<times> string) option" where
  "split_once_prefixed_marker_line text prefix =
     split_marker_lines (starts_with prefix) (split_inclusive_nl text)"

definition split_once_marker_line :: "string \<Rightarrow> string \<Rightarrow> (string \<times> string) option" where
  "split_once_marker_line text marker =
     map_option (\<lambda>(before, m, after). (before, after))
       (split_marker_lines (\<lambda>l. l = marker) (split_inclusive_nl text))"

definition parse_bounded_note_metadata ::
  "platform \<Rightarrow> string \<Rightarrow> parse_error + note_metadata option" where
  "parse_bounded_note_metadata P metadata =
     (case split_whitespace metadata of
        [] \<Rightarrow> Inr None
      | tok # tokens \<Rightarrow>
          (case pf_ulid_from_string P tok of
             None \<Rightarrow> Inr None
           | Some i \<Rightarrow> result_bind (parse_note_metadata P i tokens) (\<lambda>md. Inr (Some md))))"

lemma split_marker_lines_shorter:
  "split_marker_lines p ls = Some (b, m, a) \<Longrightarrow>
     length a + length m \<le> length (concat ls) \<and> (p [] \<or> length a < length (concat ls))"
proof (induction ls arbitrary: b m a)
  case Nil
  then show ?case by simp
next
  case (Cons l ls)
  show ?case
  proof (cases "p (bare_line l)")
    case True
    with Cons.prems have "m = bare_line l" "a = concat ls" by auto
    moreover have "length (bare_line l) \<le> length l"
      by (simp add: bare_line_def strip_suffix_def)
    moreover have "bare_line l \<noteq> [] \<or> p []" using True by (cases "bare_line l") auto
    ultimately show ?thesis by (cases l) auto
  next
    case False
    with Cons.prems obtain b' where "split_marker_lines p ls = Some (b', m, a)" by auto
    from Cons.IH[OF this] show ?thesis by auto
  qed
qed

lemma split_once_marker_line_shorter:
  "split_once_marker_line text marker = Some (b, a) \<Longrightarrow> length a \<le> length text"
  using split_marker_lines_shorter[of "\<lambda>l. l = marker" "split_inclusive_nl text"]
  by (auto simp: split_once_marker_line_def)

lemma split_once_prefixed_marker_line_shorter:
  "split_once_prefixed_marker_line text NOTE_BEGIN_PREFIX = Some (b, m, a) \<Longrightarrow>
     length a < length text"
  using split_marker_lines_shorter[of "starts_with NOTE_BEGIN_PREFIX" "split_inclusive_nl text"]
  by (auto simp: split_once_prefixed_marker_line_def NOTE_BEGIN_PREFIX_def)

function parse_bounded_notes_loop :: "platform \<Rightarrow> string \<Rightarrow> parse_error + ticket_note list" where
  "parse_bounded_notes_loop P rest =
     (case split_once_prefixed_marker_line rest NOTE_BEGIN_PREFIX of
        None \<Rightarrow> Inr []
      | Some (_, marker, content) \<Rightarrow>
          (case Option.bind (strip_prefix NOTE_BEGIN_PREFIX marker) (strip_suffix ''-->'') of
             None \<Rightarrow> Inr []
           | Some metadata \<Rightarrow>
               (case split_once_marker_line content NOTE_END of
                  None \<Rightarrow> Inr []
                | Some (block, after_end) \<Rightarrow>
                    result_bind (parse_bounded_note_metadata P (trim metadata)) (\<lambda>md.
                    result_bind (parse_bounded_notes_loop P after_end) (\<lambda>notes.
                      Inr (case Option.bind md (\<lambda>md. build_note P md (trim block)) of
                             None \<Rightarrow> notes
                           | Some n \<Rightarrow> n\<lparr>n_text := unescape_content (n_text n)\<rparr> # notes))))))"
  by pat_completeness auto
termination
  by (relation "measure (\<lambda>(P, rest). length rest)")
    (auto dest!: split_once_prefixed_marker_line_shorter split_once_marker_line_shorter)

declare parse_bounded_notes_loop.simps [simp del]

definition parse_bounded_notes :: "platform \<Rightarrow> string \<Rightarrow> parse_error + ticket_note list" where
  "parse_bounded_notes P section =
     parse_bounded_notes_loop P (unwrap_or (strip_prefix ''## Notes'' (trim section)) section)"

text \<open>
  The legacy reader: \<open>parse_note_marker\<close>, and the loop that collects the lines up to the
  next marker.
\<close>

definition parse_note_marker :: "platform \<Rightarrow> string \<Rightarrow> parse_error + note_metadata option" where
  "parse_note_marker P line =
     (case Option.bind (strip_prefix ''<!--'' line) (\<lambda>a.
           Option.bind (strip_suffix ''-->'' a) (\<lambda>b.
           map_option trim (strip_prefix ''note:'' (trim b)))) of
        None \<Rightarrow> Inr None
      | Some inner \<Rightarrow> parse_bounded_note_metadata P inner)"

text \<open>One pass with the open note (metadata and its lines so far), closed at the next marker.\<close>

definition close_legacy ::
  "platform \<Rightarrow> (note_metadata \<times> string list) option \<Rightarrow> ticket_note list" where
  "close_legacy P cur =
     (case cur of None \<Rightarrow> []
      | Some (md, ls) \<Rightarrow>
          (case build_note P md (trim (join nl ls)) of None \<Rightarrow> [] | Some n \<Rightarrow> [n]))"

fun parse_legacy_lines ::
  "platform \<Rightarrow> (note_metadata \<times> string list) option \<Rightarrow> string list
     \<Rightarrow> parse_error + ticket_note list" where
  "parse_legacy_lines P cur [] = Inr (close_legacy P cur)"
| "parse_legacy_lines P cur (line # rest) =
     result_bind (parse_note_marker P (trim line)) (\<lambda>m.
       case m of
         Some md \<Rightarrow> result_bind (parse_legacy_lines P (Some (md, [])) rest)
                      (\<lambda>ns. Inr (close_legacy P cur @ ns))
       | None \<Rightarrow> parse_legacy_lines P (map_option (\<lambda>(md, ls). (md, ls @ [line])) cur) rest)"

definition parse_legacy_notes :: "platform \<Rightarrow> string \<Rightarrow> parse_error + ticket_note list" where
  "parse_legacy_notes P section =
     parse_legacy_lines P None (lines (unwrap_or (strip_prefix ''## Notes'' section) section))"

definition split_legacy_body_and_notes :: "string \<Rightarrow> string \<times> string option" where
  "split_legacy_body_and_notes after =
     (case split_marker_lines (\<lambda>l. l = ''## Notes'') (split_inclusive_nl after) of
        Some (before, _, _) \<Rightarrow> (trim before, Some (drop (length before) after))
      | None \<Rightarrow> (trim after, None))"

subsection \<open>The whole file\<close>

definition arrow_heads_used :: "ticket \<Rightarrow> bool" where
  "arrow_heads_used t =
     list_ex (\<lambda>at. list_ex (\<lambda>an. case ma_shape an of
         Some (ShapeArrow _ sh eh) \<Rightarrow> sh \<noteq> HeadNone \<or> eh \<noteq> HeadClosed | _ \<Rightarrow> False)
       (at_annotations at)) (t_attachments t)"

definition crops_used :: "ticket \<Rightarrow> bool" where
  "crops_used t = list_ex (\<lambda>at. is_some (at_crop at)) (t_attachments t)"

definition intents_used :: "ticket \<Rightarrow> bool" where
  "intents_used t =
     list_ex (\<lambda>at. list_ex (\<lambda>an. ma_intents an \<noteq> []) (at_annotations at)) (t_attachments t)"

definition shapes_used :: "ticket \<Rightarrow> bool" where
  "shapes_used t =
     list_ex (\<lambda>at. list_ex (\<lambda>an. is_some (ma_shape an)) (at_annotations at)) (t_attachments t)"

fun mapping_insert :: "yaml \<Rightarrow> yaml \<Rightarrow> (yaml \<times> yaml) list \<Rightarrow> (yaml \<times> yaml) list" where
  "mapping_insert k v [] = [(k, v)]"
| "mapping_insert k v ((j, w) # m) = (if j = k then (j, v) # m else (j, w) # mapping_insert k v m)"

definition frontmatter_schema :: "ticket \<Rightarrow> nat" where
  "frontmatter_schema t =
     (if arrow_heads_used t then max (t_schema t) ARROW_HEAD_SCHEMA_VERSION
      else if crops_used t then max (t_schema t) CROP_SCHEMA_VERSION
      else if intents_used t then max (t_schema t) INTENT_SCHEMA_VERSION
      else if shapes_used t then max (t_schema t) SHAPE_SCHEMA_VERSION
      else t_schema t)"

definition schema_guard :: "nat \<Rightarrow> string option" where
  "schema_guard schema =
     (if schema = SCHEMA_VERSION then Some GUARDED_SCHEMA_V2
      else if schema = SHAPE_SCHEMA_VERSION then Some GUARDED_SCHEMA_V3
      else if schema = INTENT_SCHEMA_VERSION then Some GUARDED_SCHEMA_V4
      else if schema = CROP_SCHEMA_VERSION then Some GUARDED_SCHEMA_V5
      else if schema = ARROW_HEAD_SCHEMA_VERSION then Some GUARDED_SCHEMA_V6
      else None)"

definition frontmatter_mapping :: "platform \<Rightarrow> ticket \<Rightarrow> (yaml \<times> yaml) list" where
  "frontmatter_mapping P t =
     (let m = fold (\<lambda>(k, v). mapping_insert (YString k) v) (t_extra t) (pf_yaml_to_value P t)
      in case schema_guard (frontmatter_schema t) of
           None \<Rightarrow> m
         | Some guard \<Rightarrow> mapping_insert (YString ''schema'') (YString guard) m)"

definition frontmatter_to_string :: "platform \<Rightarrow> ticket \<Rightarrow> string" where
  "frontmatter_to_string P t = pf_yaml_print P (frontmatter_mapping P t)"

definition schema_of_guard :: "string \<Rightarrow> nat option" where
  "schema_of_guard marker =
     (if marker = GUARDED_SCHEMA_V2 then Some SCHEMA_VERSION
      else if marker = GUARDED_SCHEMA_V3 then Some SHAPE_SCHEMA_VERSION
      else if marker = GUARDED_SCHEMA_V4 then Some INTENT_SCHEMA_VERSION
      else if marker = GUARDED_SCHEMA_V5 then Some CROP_SCHEMA_VERSION
      else if marker = GUARDED_SCHEMA_V6 then Some ARROW_HEAD_SCHEMA_VERSION
      else None)"

definition normalize_schema_marker ::
  "(yaml \<times> yaml) list \<Rightarrow> parse_error + (yaml \<times> yaml) list" where
  "normalize_schema_marker m =
     (case map_of m (YString ''schema'') of
        Some (YString marker) \<Rightarrow>
          (case schema_of_guard marker of
             Some schema \<Rightarrow> Inr (mapping_insert (YString ''schema'') (YNumber (show_nat schema)) m)
           | None \<Rightarrow> Inl (UnsupportedSchema marker))
      | _ \<Rightarrow> Inr m)"

fun untag :: "yaml \<Rightarrow> yaml" where
  "untag (YTagged _ v) = untag v"
| "untag v = v"

definition as_mapping :: "yaml \<Rightarrow> (yaml \<times> yaml) list option" where
  "as_mapping v = (case untag v of YMapping m \<Rightarrow> Some m | _ \<Rightarrow> None)"

text \<open>Notes that reach the file: not the local drafts, and not those without text.\<close>

definition written_notes :: "ticket \<Rightarrow> ticket_note list" where
  "written_notes t =
     filter (\<lambda>n. n_kind n \<noteq> FeedbackDraft \<and> trim (n_text n) \<noteq> []) (t_notes t)"

definition content_to_string :: "platform \<Rightarrow> ticket \<Rightarrow> string" where
  "content_to_string P t =
     nl @ BODY_BEGIN @ nl
     @ (let details = trim (t_details t) in
        if details \<noteq> [] then escape_content details @ nl else [])
     @ BODY_END @ nl
     @ (let notes = written_notes t in
        if notes \<noteq> [] then nl @ notes_to_string P notes else [])"

definition to_file_string :: "platform \<Rightarrow> ticket \<Rightarrow> string" where
  "to_file_string P t =
     ''---'' @ nl @ frontmatter_to_string P t @ ''---'' @ nl @ content_to_string P t"

definition parse_bounded_content ::
  "platform \<Rightarrow> string \<Rightarrow> parse_error + (string \<times> ticket_note list)" where
  "parse_bounded_content P after =
     (case split_once_marker_line after BODY_BEGIN of
        None \<Rightarrow> Inl FilePanic
      | Some (_, body_and_rest) \<Rightarrow>
     (case split_once_marker_line body_and_rest BODY_END of
        None \<Rightarrow> Inl TrailingContent
      | Some (body, rest) \<Rightarrow>
          let details = unescape_content (trim body); rest = trim rest in
          if rest = [] then Inr (details, [])
          else
     (case split_once_marker_line rest NOTES_BEGIN of
        None \<Rightarrow> Inl TrailingContent
      | Some (before_notes, notes_and_rest) \<Rightarrow>
          if trim before_notes \<noteq> [] then Inl TrailingContent
          else
     (case split_once_marker_line notes_and_rest NOTES_END of
        None \<Rightarrow> Inl TrailingContent
      | Some (notes, trailing) \<Rightarrow>
          if trim trailing \<noteq> [] then Inl TrailingContent
          else result_bind (parse_bounded_notes P notes) (\<lambda>ns. Inr (details, ns))))))"

definition unknown_keys :: "(yaml \<times> yaml) list \<Rightarrow> (string \<times> yaml) list" where
  "unknown_keys m =
     List.map_filter (\<lambda>(k, v). case k of
         YString key \<Rightarrow> if key \<in> set KNOWN_KEYS then None else Some (key, v)
       | _ \<Rightarrow> None) m"

definition retain_unknown :: "(yaml \<times> yaml) list \<Rightarrow> ticket \<Rightarrow> ticket" where
  "retain_unknown m t =
     t\<lparr>t_extra := fold (\<lambda>(k, v). btree_entry k (\<lambda>_. v)) (unknown_keys m) (t_extra t)\<rparr>"

definition bom :: string where "bom = [CHR 0xEF, CHR 0xBB, CHR 0xBF]"

definition split_frontmatter :: "string \<Rightarrow> parse_error + (string \<times> string)" where
  "split_frontmatter text =
     (let normalized = crlf_to_lf (unwrap_or (strip_prefix bom text) text) in
      case strip_prefix (''---'' @ nl) normalized of
        None \<Rightarrow> Inl MissingFrontmatter
      | Some rest \<Rightarrow>
          (case split_once (nl @ ''---'' @ nl) rest of
             Some (fm, after) \<Rightarrow> Inr (fm, after)
           | None \<Rightarrow>
               (case strip_suffix (nl @ ''---'') rest of
                  Some fm \<Rightarrow> Inr (fm, [])
                | None \<Rightarrow> Inl UnterminatedFrontmatter)))"

definition yaml_result :: "string + 'a \<Rightarrow> parse_error + 'a" where
  "yaml_result r = (case r of Inl e \<Rightarrow> Inl (YamlError e) | Inr x \<Rightarrow> Inr x)"

definition parse_frontmatter :: "platform \<Rightarrow> string \<Rightarrow> parse_error + ticket" where
  "parse_frontmatter P fm =
     result_bind (yaml_result (pf_yaml_parse P fm)) (\<lambda>v.
     case as_mapping v of
       None \<Rightarrow> Inl FrontmatterNotMapping
     | Some m0 \<Rightarrow>
         result_bind (normalize_schema_marker m0) (\<lambda>m.
         result_bind (yaml_result (pf_yaml_from_value P m)) (\<lambda>t.
           Inr (retain_unknown m t))))"

definition parse_content :: "platform \<Rightarrow> string \<Rightarrow> parse_error + (string \<times> ticket_note list)" where
  "parse_content P after =
     (if starts_with BODY_BEGIN (trim_start after) then parse_bounded_content P after
      else
        let (body, notes_section) = split_legacy_body_and_notes after in
        (case notes_section of
           None \<Rightarrow> Inr (body, [])
         | Some section \<Rightarrow> result_bind (parse_legacy_notes P section) (\<lambda>ns. Inr (body, ns))))"

definition parse_file :: "platform \<Rightarrow> string \<Rightarrow> parse_error + ticket" where
  "parse_file P text =
     result_bind (split_frontmatter text) (\<lambda>(fm, after).
     result_bind (parse_frontmatter P fm) (\<lambda>t.
     result_bind (parse_content P after) (\<lambda>(body, notes).
       Inr (t\<lparr>t_details := body, t_notes := notes\<rparr>))))"

end
