(* ===== verification/Ticket_Store.thy ===== *)
theory Ticket_Store
  imports Ticket_File "HOL-Library.AList"
begin

text \<open>
  The file store of \<open>store.rs\<close>.  The state \<open>fs_store\<close> is the part of the directory tree the
  code reads and writes: the metadata file, the files below \<open>tickets/\<close> (in the order the
  directory walk yields them), the attachment directories, whether compaction recovery is
  pending, which paths cannot be written, and the commits made.  A mutating operation takes
  the state and gives a result with the state it leaves, so a failure after a partial effect
  keeps that effect.  Ticket transactions are serialised by the store's lock file; an
  operation below is one transaction.
\<close>

subsection \<open>State and errors\<close>

datatype io_kind = NotFound | InvalidInput | OtherIo

datatype store_error =
    InvalidAnnotations string
  | InvalidFeedbackResponse string
  | Io io_kind string
  | IoAt string string io_kind
  | NotAStore string
  | MetadataError string
  | InvalidStoreIdentity string
  | InvalidTicketPrefix string
  | UpgradeRequired string string string
  | FormatActivationRequired nat nat
  | CompactionRecoveryRequired
  | ParseFailed string parse_error
  | UnsupportedStoreSchema nat nat
  | GitError string
  | FeedbackNoteEdit string
  | InvalidNoteKindEdit

definition is_io_kind :: "store_error \<Rightarrow> io_kind \<Rightarrow> bool" where
  "is_io_kind e kind =
     (case e of Io k _ \<Rightarrow> k = kind | IoAt _ _ k \<Rightarrow> k = kind | _ \<Rightarrow> False)"

text \<open>A panic of the parser is no error value in the source: nothing catches it.\<close>

definition is_panic :: "store_error \<Rightarrow> bool" where
  "is_panic e = (case e of ParseFailed _ FilePanic \<Rightarrow> True | _ \<Rightarrow> False)"

record store_metadata =
  sm_schema_version :: nat
  sm_ticket_prefix :: string
  sm_id_strategy :: string
  sm_shard :: string
  sm_instance_id :: "string option"

text \<open>The JSON of \<open>hotsheet-store.json\<close>, as far as the code looks at it.\<close>

datatype schema_json = SchemaNumber nat | SchemaText string | SchemaOther string

record meta_json =
  mj_schema :: "schema_json option"
  mj_ticket_prefix :: "string option"
  mj_id_strategy :: "string option"
  mj_shard :: "string option"
  mj_instance_id :: "string option"

datatype git_state = NoRepository | GitFails string | GitWorks

text \<open>An attachment directory: the names in it, with whether each is a regular file.\<close>

type_synonym dir_entries = "(string \<times> bool) list"

record fs_store =
  st_root :: string
  st_meta :: "(string + meta_json) option"
  st_recovery_required :: bool
  st_lock_error :: "store_error option"
  st_files :: "(string \<times> string) list"
  st_unwritable :: "string list"
  st_attachment_dirs :: "(ulid \<times> dir_entries) list"
  st_defer_autocommit :: bool
  st_git :: git_state
  st_commits :: "(string \<times> string list) list"

subsection \<open>Metadata\<close>

definition STORE_SCHEMA_VERSION :: nat where "STORE_SCHEMA_VERSION = 3"
definition GUARDED_STORE_SCHEMA_V2 :: string where
  "GUARDED_STORE_SCHEMA_V2 = ''hotsheet/v2-guarded-tickets''"
definition GUARDED_STORE_SCHEMA_V3 :: string where
  "GUARDED_STORE_SCHEMA_V3 = ''hotsheet/v3-random-suffix-shards''"
definition SHARD_ID_PREFIX_2 :: string where "SHARD_ID_PREFIX_2 = ''id-prefix-2''"
definition SHARD_ID_SUFFIX_2 :: string where "SHARD_ID_SUFFIX_2 = ''id-suffix-2''"
definition FINDER_METADATA_FILE :: string where "FINDER_METADATA_FILE = ''.DS_Store''"
definition STORE_METADATA_FILE :: string where "STORE_METADATA_FILE = ''hotsheet-store.json''"

definition serialize_store_schema :: "nat \<Rightarrow> schema_json" where
  "serialize_store_schema version =
     (if version = 2 then SchemaText GUARDED_STORE_SCHEMA_V2
      else if version = STORE_SCHEMA_VERSION then SchemaText GUARDED_STORE_SCHEMA_V3
      else SchemaNumber version)"

definition deserialize_store_schema :: "schema_json \<Rightarrow> store_error + nat" where
  "deserialize_store_schema j =
     (case j of
        SchemaNumber n \<Rightarrow> if n < 2 ^ 32 then Inr n
          else Inl (MetadataError ''data did not match any variant of untagged enum DiskSchema'')
      | SchemaText guard \<Rightarrow>
          if guard = GUARDED_STORE_SCHEMA_V2 then Inr 2
          else if guard = GUARDED_STORE_SCHEMA_V3 then Inr STORE_SCHEMA_VERSION
          else Inl (MetadataError (''unsupported store schema marker '' @ guard))
      | SchemaOther _ \<Rightarrow>
          Inl (MetadataError ''data did not match any variant of untagged enum DiskSchema''))"

definition normalize_ticket_prefix :: "string \<Rightarrow> store_error + string" where
  "normalize_ticket_prefix prefix =
     (let upper = to_ascii_upper (trim prefix) in
      if 2 \<le> length upper \<and> length upper \<le> 16 \<and> is_ascii_upper (hd upper)
         \<and> list_all (\<lambda>c. is_ascii_upper c \<or> is_ascii_digit c) upper
      then Inr upper
      else Inl (InvalidTicketPrefix (trim prefix)))"

definition validate_instance_id :: "platform \<Rightarrow> string option \<Rightarrow> store_error + unit" where
  "validate_instance_id P i =
     (case i of None \<Rightarrow> Inr ()
      | Some v \<Rightarrow> if pf_ulid_from_string P v = None then Inl (InvalidStoreIdentity v) else Inr ())"

definition schema_json_text :: "schema_json \<Rightarrow> string" where
  "schema_json_text j =
     (case j of SchemaNumber n \<Rightarrow> show_nat n
      | SchemaText s \<Rightarrow> [CHR 34] @ s @ [CHR 34] | SchemaOther s \<Rightarrow> s)"

definition known_schema :: "schema_json \<Rightarrow> bool" where
  "known_schema j =
     (case j of SchemaNumber n \<Rightarrow> 1 \<le> n \<and> n \<le> STORE_SCHEMA_VERSION
      | SchemaText s \<Rightarrow> s = GUARDED_STORE_SCHEMA_V2 \<or> s = GUARDED_STORE_SCHEMA_V3
      | SchemaOther _ \<Rightarrow> False)"

definition required_field :: "string \<Rightarrow> 'a option \<Rightarrow> store_error + 'a" where
  "required_field name v =
     (case v of None \<Rightarrow> Inl (MetadataError (''missing field '' @ name)) | Some x \<Rightarrow> Inr x)"

definition metadata_from_json :: "meta_json \<Rightarrow> store_error + store_metadata" where
  "metadata_from_json j =
     result_bind (required_field ''schemaVersion'' (mj_schema j)) (\<lambda>sj.
     result_bind (deserialize_store_schema sj) (\<lambda>v.
     result_bind (required_field ''ticketPrefix'' (mj_ticket_prefix j)) (\<lambda>p.
     result_bind (required_field ''idStrategy'' (mj_id_strategy j)) (\<lambda>st.
     result_bind (required_field ''shard'' (mj_shard j)) (\<lambda>sh.
       Inr \<lparr>sm_schema_version = v, sm_ticket_prefix = p, sm_id_strategy = st, sm_shard = sh,
            sm_instance_id = mj_instance_id j\<rparr>)))))"

definition metadata_to_json :: "store_metadata \<Rightarrow> meta_json" where
  "metadata_to_json m =
     \<lparr>mj_schema = Some (serialize_store_schema (sm_schema_version m)),
      mj_ticket_prefix = Some (sm_ticket_prefix m), mj_id_strategy = Some (sm_id_strategy m),
      mj_shard = Some (sm_shard m), mj_instance_id = sm_instance_id m\<rparr>"

definition metadata :: "platform \<Rightarrow> fs_store \<Rightarrow> store_error + store_metadata" where
  "metadata P s =
     (case st_meta s of
        None \<Rightarrow> Inl (IoAt ''reading store metadata'' STORE_METADATA_FILE NotFound)
      | Some (Inl e) \<Rightarrow> Inl (MetadataError e)
      | Some (Inr j) \<Rightarrow>
          if is_some_and (mj_schema j) (\<lambda>v. \<not> known_schema v)
          then Inl (UpgradeRequired ''ticket store'' (schema_json_text (the (mj_schema j)))
                 GUARDED_STORE_SCHEMA_V3)
          else result_bind (metadata_from_json j) (\<lambda>m.
               result_bind (validate_instance_id P (sm_instance_id m)) (\<lambda>_. Inr m)))"

subsection \<open>Transactions and commits\<close>

text \<open>
  \<open>st_lock_error\<close> is the failure, if any, of maintaining \<open>.gitignore\<close> or of opening and
  acquiring the lock file.
\<close>

definition with_ticket_transaction ::
  "fs_store \<Rightarrow> (store_error \<Rightarrow> 'e) \<Rightarrow> (fs_store \<Rightarrow> ('e + 'a) \<times> fs_store) \<Rightarrow> ('e + 'a) \<times> fs_store"
  where
  "with_ticket_transaction s from op =
     (if st_recovery_required s then (Inl (from CompactionRecoveryRequired), s)
      else case st_lock_error s of
        Some e \<Rightarrow> (Inl (from e), s)
      | None \<Rightarrow> op s)"

definition autocommit_paths :: "fs_store \<Rightarrow> string \<Rightarrow> string list \<Rightarrow> (store_error + bool) \<times> fs_store" where
  "autocommit_paths s message paths =
     (case st_git s of
        NoRepository \<Rightarrow> (Inr False, s)
      | GitFails e \<Rightarrow> (Inl (GitError e), s)
      | GitWorks \<Rightarrow> (Inr True, s\<lparr>st_commits := st_commits s @ [(message, paths)]\<rparr>))"

text \<open>\<open>CommitJob::run\<close>: best effort, an error is only reported.\<close>

definition run_commit_job :: "fs_store \<Rightarrow> string \<Rightarrow> string list \<Rightarrow> fs_store" where
  "run_commit_job s message paths = snd (autocommit_paths s message paths)"

subsection \<open>Paths\<close>

definition ticket_path_for_shard :: "platform \<Rightarrow> ulid \<Rightarrow> string \<Rightarrow> string" where
  "ticket_path_for_shard P i shard =
     (let name = pf_ulid_to_string P i;
          shard_name = (if shard = SHARD_ID_PREFIX_2 then take 2 name
                        else drop (length name - 2) name)
      in ''tickets/'' @ shard_name @ ''/'' @ name @ ''.md'')"

definition file_exists :: "fs_store \<Rightarrow> string \<Rightarrow> bool" where
  "file_exists s path = is_some (map_of (st_files s) path)"

definition ticket_path :: "platform \<Rightarrow> fs_store \<Rightarrow> ulid \<Rightarrow> string" where
  "ticket_path P s i =
     (let suffix = ticket_path_for_shard P i SHARD_ID_SUFFIX_2;
          prefix = ticket_path_for_shard P i SHARD_ID_PREFIX_2
      in if file_exists s suffix then suffix
         else if file_exists s prefix then prefix
         else case metadata P s of
             Inr m \<Rightarrow> if sm_shard m = SHARD_ID_PREFIX_2 then prefix else suffix
           | Inl _ \<Rightarrow> suffix)"

text \<open>The walk: files two levels below \<open>tickets/\<close> with the extension \<open>md\<close>.\<close>

definition is_ticket_file :: "string \<Rightarrow> bool" where
  "is_ticket_file path =
     (case split_char (CHR ''/'') path of
        [dir, shard, name] \<Rightarrow> dir = ''tickets'' \<and> path_extension name = Some ''md''
      | _ \<Rightarrow> False)"

definition ticket_file_paths :: "fs_store \<Rightarrow> string list" where
  "ticket_file_paths s = filter is_ticket_file (map fst (st_files s))"

subsection \<open>Writing\<close>

definition ticket_write_schema :: "ticket \<Rightarrow> nat" where
  "ticket_write_schema t =
     (if t_schema t \<ge> ARROW_HEAD_SCHEMA_VERSION \<or> arrow_heads_used t then ARROW_HEAD_SCHEMA_VERSION
      else if t_schema t \<ge> CROP_SCHEMA_VERSION \<or> crops_used t then CROP_SCHEMA_VERSION
      else if t_schema t \<ge> INTENT_SCHEMA_VERSION \<or> intents_used t then INTENT_SCHEMA_VERSION
      else if t_schema t \<ge> SHAPE_SCHEMA_VERSION \<or> shapes_used t then SHAPE_SCHEMA_VERSION
      else SCHEMA_VERSION)"

text \<open>What reaches the file: the write schema, and no Up Next on an inactive ticket.\<close>

definition normalize_for_write :: "ticket \<Rightarrow> ticket" where
  "normalize_for_write t =
     t\<lparr>t_schema := ticket_write_schema t, t_up_next := t_up_next t \<and> is_active (t_status t)\<rparr>"

definition write_ticket_unchecked_at ::
  "platform \<Rightarrow> fs_store \<Rightarrow> ticket \<Rightarrow> string \<Rightarrow> (store_error + string) \<times> fs_store" where
  "write_ticket_unchecked_at P s t path =
     (if path \<in> set (st_unwritable s) then (Inl (IoAt ''writing ticket'' path OtherIo), s)
      else (Inr path,
            s\<lparr>st_files := AList.update path (to_file_string P (normalize_for_write t)) (st_files s)\<rparr>))"

definition write_ticket_unchecked ::
  "platform \<Rightarrow> fs_store \<Rightarrow> ticket \<Rightarrow> (store_error + string) \<times> fs_store" where
  "write_ticket_unchecked P s t = write_ticket_unchecked_at P s t (ticket_path P s (t_id t))"

definition ensure_compaction_recovered :: "fs_store \<Rightarrow> store_error + unit" where
  "ensure_compaction_recovered s =
     (if st_recovery_required s then Inl CompactionRecoveryRequired else Inr ())"

definition ensure_current_writer_format :: "platform \<Rightarrow> fs_store \<Rightarrow> store_error + unit" where
  "ensure_current_writer_format P s =
     result_bind (ensure_compaction_recovered s) (\<lambda>_.
     result_bind (metadata P s) (\<lambda>m.
       if sm_schema_version m > STORE_SCHEMA_VERSION
       then Inl (UnsupportedStoreSchema (sm_schema_version m) STORE_SCHEMA_VERSION)
       else if sm_schema_version m = STORE_SCHEMA_VERSION \<and> sm_shard m = SHARD_ID_SUFFIX_2
       then Inr ()
       else if sm_schema_version m = 2 \<and> sm_shard m = SHARD_ID_PREFIX_2 then Inr ()
       else Inl (FormatActivationRequired (sm_schema_version m) STORE_SCHEMA_VERSION)))"

definition write_ticket ::
  "platform \<Rightarrow> fs_store \<Rightarrow> ticket \<Rightarrow> (store_error + string) \<times> fs_store" where
  "write_ticket P s t =
     (case ensure_current_writer_format P s of
        Inl e \<Rightarrow> (Inl e, s)
      | Inr _ \<Rightarrow> write_ticket_unchecked P s t)"

definition commit_message :: "ticket \<Rightarrow> string" where
  "commit_message t =
     t_slug t @ '': '' @ status_wire (t_status t) @ dash_separator @ t_title t"

definition write_ticket_with_paths_committing ::
  "platform \<Rightarrow> fs_store \<Rightarrow> ticket \<Rightarrow> string list \<Rightarrow> (store_error + string) \<times> fs_store" where
  "write_ticket_with_paths_committing P s t extra =
     (case write_ticket P s t of
        (Inl e, s') \<Rightarrow> (Inl e, s')
      | (Inr path, s') \<Rightarrow>
          if st_defer_autocommit s' then (Inr path, s')
          else (Inr path, run_commit_job s' (commit_message t) (path # ''.gitignore'' # extra)))"

definition write_ticket_committing ::
  "platform \<Rightarrow> fs_store \<Rightarrow> ticket \<Rightarrow> (store_error + string) \<times> fs_store" where
  "write_ticket_committing P s t = write_ticket_with_paths_committing P s t []"

subsection \<open>Reading\<close>

definition attachment_dir :: "platform \<Rightarrow> ulid \<Rightarrow> string" where
  "attachment_dir P i = ''attachments/'' @ pf_ulid_to_string P i"

definition legacy_attachment_id :: "platform \<Rightarrow> ulid \<Rightarrow> string \<Rightarrow> ulid" where
  "legacy_attachment_id P ticket_id filename =
     pf_sha256_16 P (pf_ulid_to_string P ticket_id @ [CHR 0x00] @ filename)"

definition legacy_attachment :: "platform \<Rightarrow> ticket \<Rightarrow> string \<Rightarrow> attachment" where
  "legacy_attachment P t filename =
     \<lparr>at_id = legacy_attachment_id P (t_id t) filename, at_filename = filename,
      at_created_at = t_created_at t, at_batch_id = None, at_batch_label = None,
      at_actor = None, at_purpose = None, at_annotations = [], at_crop = None\<rparr>"

definition add_legacy_entry :: "platform \<Rightarrow> (string \<times> bool) \<Rightarrow> ticket \<Rightarrow> ticket" where
  "add_legacy_entry P e t =
     (let (filename, is_file) = e; a = legacy_attachment P t filename in
      if \<not> is_file \<or> filename = FINDER_METADATA_FILE \<or> at_id a \<in> at_id ` set (t_attachments t)
      then t else t\<lparr>t_attachments := t_attachments t @ [a]\<rparr>)"

definition at_id_cmp :: "attachment \<Rightarrow> attachment \<Rightarrow> ordering" where
  "at_id_cmp a b = ord_cmp (at_id a) (at_id b)"

definition add_legacy_attachment_metadata :: "platform \<Rightarrow> fs_store \<Rightarrow> ticket \<Rightarrow> ticket" where
  "add_legacy_attachment_metadata P s t =
     (case map_of (st_attachment_dirs s) (t_id t) of
        None \<Rightarrow> t
      | Some entries \<Rightarrow>
          let t' = fold (add_legacy_entry P) entries t
          in t'\<lparr>t_attachments := sort_by at_id_cmp (t_attachments t')\<rparr>)"

definition parse_ticket_text ::
  "platform \<Rightarrow> fs_store \<Rightarrow> string \<Rightarrow> string \<Rightarrow> store_error + ticket" where
  "parse_ticket_text P s path text =
     (case parse_file P text of
        Inl e \<Rightarrow> Inl (ParseFailed path e)
      | Inr t \<Rightarrow> Inr (add_legacy_attachment_metadata P s
          (t\<lparr>t_attachments := filter (\<lambda>a. at_filename a \<noteq> FINDER_METADATA_FILE) (t_attachments t)\<rparr>)))"

definition read_ticket_at :: "platform \<Rightarrow> fs_store \<Rightarrow> string \<Rightarrow> store_error + ticket" where
  "read_ticket_at P s path =
     (case map_of (st_files s) path of
        None \<Rightarrow> Inl (IoAt ''reading ticket'' path NotFound)
      | Some text \<Rightarrow> parse_ticket_text P s path text)"

definition read_ticket :: "platform \<Rightarrow> fs_store \<Rightarrow> ulid \<Rightarrow> store_error + ticket" where
  "read_ticket P s i = read_ticket_at P s (ticket_path P s i)"

definition t_id_cmp :: "ticket \<Rightarrow> ticket \<Rightarrow> ordering" where
  "t_id_cmp a b = ord_cmp (t_id a) (t_id b)"

definition list_tickets :: "platform \<Rightarrow> fs_store \<Rightarrow> store_error + ticket list" where
  "list_tickets P s =
     result_bind (result_map (read_ticket_at P s) (ticket_file_paths s))
       (\<lambda>ts. Inr (sort_by t_id_cmp ts))"

subsection \<open>Resilient listing and slug lookup\<close>

definition trim_quotes :: "string \<Rightarrow> string" where
  "trim_quotes s =
     (let q = (\<lambda>c. c = CHR 34 \<or> c = CHR 39) in rev (dropWhile q (rev (dropWhile q s))))"

fun frontmatter_value_lines :: "string \<Rightarrow> string list \<Rightarrow> string option" where
  "frontmatter_value_lines key [] = None"
| "frontmatter_value_lines key (line # rest) =
     (if starts_with ''---'' line then None
      else case Option.bind (strip_prefix key line) (strip_prefix '':'') of
          None \<Rightarrow> frontmatter_value_lines key rest
        | Some after \<Rightarrow>
            let value = trim (trim_quotes (trim after)) in
            if value \<noteq> [] then Some value else frontmatter_value_lines key rest)"

definition frontmatter_value :: "string \<Rightarrow> string \<Rightarrow> string option" where
  "frontmatter_value text key =
     (let text = unwrap_or (strip_prefix bom text) text in
      Option.bind (opt_or (strip_prefix (''---'' @ nl) text)
                     (strip_prefix (''---'' @ [CHR 13] @ nl) text))
        (\<lambda>rest. frontmatter_value_lines key (lines rest)))"

definition is_plain_slug :: "string \<Rightarrow> bool" where
  "is_plain_slug value =
     (value \<noteq> [] \<and>
      list_all (\<lambda>c. is_ascii_alnum c \<or> c = CHR ''-'' \<or> c = CHR ''_'' \<or> c = CHR ''.'') value)"

record corrupt_ticket =
  cr_path :: string
  cr_id :: "ulid option"
  cr_slug :: "string option"
  cr_error_code :: string

definition recover_ticket_identity ::
  "platform \<Rightarrow> fs_store \<Rightarrow> string \<Rightarrow> ulid option \<times> string option" where
  "recover_ticket_identity P s path =
     (let stem_id = pf_ulid_from_string P (path_file_stem path);
          text = map_of (st_files s) path
      in (opt_or stem_id (Option.bind text (\<lambda>t. Option.bind (frontmatter_value t ''id'')
             (pf_ulid_from_string P))),
          Option.bind text (\<lambda>t. frontmatter_value t ''slug'')))"

definition corrupt_from_error :: "platform \<Rightarrow> fs_store \<Rightarrow> string \<Rightarrow> store_error \<Rightarrow> corrupt_ticket" where
  "corrupt_from_error P s path e =
     (let (i, slug) = recover_ticket_identity P s path in
      \<lparr>cr_path = path, cr_id = i, cr_slug = slug,
       cr_error_code = (case e of ParseFailed _ source \<Rightarrow> parse_error_code source
                        | _ \<Rightarrow> ''invalid_ticket'')\<rparr>)"

fun scan_resilient ::
  "platform \<Rightarrow> fs_store \<Rightarrow> string list \<Rightarrow> store_error + (ticket list \<times> corrupt_ticket list)" where
  "scan_resilient P s [] = Inr ([], [])"
| "scan_resilient P s (path # paths) =
     (case read_ticket_at P s path of
        Inr t \<Rightarrow> result_bind (scan_resilient P s paths) (\<lambda>(ts, cs). Inr (t # ts, cs))
      | Inl e \<Rightarrow>
          if is_panic e then Inl e
          else result_bind (scan_resilient P s paths)
                 (\<lambda>(ts, cs). Inr (ts, corrupt_from_error P s path e # cs)))"

definition cr_path_cmp :: "corrupt_ticket \<Rightarrow> corrupt_ticket \<Rightarrow> ordering" where
  "cr_path_cmp a b = ord_cmp (cr_path a) (cr_path b)"

definition list_tickets_resilient ::
  "platform \<Rightarrow> fs_store \<Rightarrow> store_error + (ticket list \<times> corrupt_ticket list)" where
  "list_tickets_resilient P s =
     result_bind (scan_resilient P s (ticket_file_paths s))
       (\<lambda>(ts, cs). Inr (sort_by t_id_cmp ts, sort_by cr_path_cmp cs))"

fun find_slug_in ::
  "platform \<Rightarrow> fs_store \<Rightarrow> string \<Rightarrow> ticket option \<Rightarrow> string list \<Rightarrow> store_error + ticket option" where
  "find_slug_in P s slug found [] = Inr found"
| "find_slug_in P s slug found (path # paths) =
     (case map_of (st_files s) path of
        None \<Rightarrow> find_slug_in P s slug found paths
      | Some text \<Rightarrow>
          let declared = frontmatter_value text ''slug'' in
          if is_some_and declared (\<lambda>v. is_plain_slug v \<and> \<not> eq_ignore_ascii_case v slug)
          then find_slug_in P s slug found paths
          else case parse_ticket_text P s path text of
              Inl e \<Rightarrow>
                if is_panic e \<or> is_some_and declared (\<lambda>v. eq_ignore_ascii_case v slug) then Inl e
                else find_slug_in P s slug found paths
            | Inr t \<Rightarrow>
                if eq_ignore_ascii_case (t_slug t) slug \<and> is_none_or found (\<lambda>best. t_id t < t_id best)
                then find_slug_in P s slug (Some t) paths
                else find_slug_in P s slug found paths)"

definition find_ticket_by_slug ::
  "platform \<Rightarrow> fs_store \<Rightarrow> string \<Rightarrow> store_error + ticket option" where
  "find_ticket_by_slug P s slug = find_slug_in P s slug None (ticket_file_paths s)"

subsection \<open>Store maintenance\<close>

definition write_metadata :: "fs_store \<Rightarrow> store_metadata \<Rightarrow> (store_error + unit) \<times> fs_store" where
  "write_metadata s m =
     (if STORE_METADATA_FILE \<in> set (st_unwritable s)
      then (Inl (Io OtherIo STORE_METADATA_FILE), s)
      else (Inr (), s\<lparr>st_meta := Some (Inr (metadata_to_json m))\<rparr>))"

definition set_ticket_prefix ::
  "platform \<Rightarrow> fs_store \<Rightarrow> string \<Rightarrow> (store_error + store_metadata) \<times> fs_store" where
  "set_ticket_prefix P s prefix =
     (case normalize_ticket_prefix prefix of
        Inl e \<Rightarrow> (Inl e, s)
      | Inr prefix \<Rightarrow> with_ticket_transaction s id (\<lambda>s.
          (case metadata P s of
             Inl e \<Rightarrow> (Inl e, s)
           | Inr m \<Rightarrow>
               if sm_ticket_prefix m = prefix then (Inr m, s)
               else let m' = m\<lparr>sm_ticket_prefix := prefix\<rparr> in
                 (case write_metadata s m' of
                    (Inl e, s') \<Rightarrow> (Inl e, s')
                  | (Inr _, s') \<Rightarrow>
                      (case autocommit_paths s' (''Set ticket prefix to '' @ prefix) [STORE_METADATA_FILE] of
                         (Inl e, s'') \<Rightarrow> (Inl e, s'')
                       | (Inr _, s'') \<Rightarrow> (Inr m', s''))))))"

definition ensure_instance_id ::
  "platform \<Rightarrow> fs_store \<Rightarrow> ulid \<Rightarrow> (store_error + string) \<times> fs_store" where
  "ensure_instance_id P s fresh = with_ticket_transaction s id (\<lambda>s.
     (case metadata P s of
        Inl e \<Rightarrow> (Inl e, s)
      | Inr m \<Rightarrow>
          let message = ''Initialize Hot Sheet store identity'';
              commit = (\<lambda>s i. case autocommit_paths s message [STORE_METADATA_FILE] of
                          (Inl e, s') \<Rightarrow> (Inl e, s') | (Inr _, s') \<Rightarrow> (Inr i, s'))
          in (case sm_instance_id m of
                Some i \<Rightarrow> commit s i
              | None \<Rightarrow>
                  let i = pf_ulid_to_string P fresh in
                  (case write_metadata s (m\<lparr>sm_instance_id := Some i\<rparr>) of
                     (Inl e, s') \<Rightarrow> (Inl e, s')
                   | (Inr _, s') \<Rightarrow> commit s' i))))"

text \<open>The migration loop of \<open>activate_current_format\<close>, one source path per step.\<close>

fun migrate_paths :: "platform \<Rightarrow> fs_store \<Rightarrow> string list \<Rightarrow> (store_error + unit) \<times> fs_store" where
  "migrate_paths P s [] = (Inr (), s)"
| "migrate_paths P s (source # sources) =
     (case read_ticket_at P s source of
        Inl e \<Rightarrow> if is_panic e then (Inl e, s) else migrate_paths P s sources
      | Inr t \<Rightarrow>
          let destination = ticket_path_for_shard P (t_id t) SHARD_ID_SUFFIX_2 in
          (case write_ticket_unchecked_at P s t destination of
             (Inl e, s') \<Rightarrow> (Inl e, s')
           | (Inr _, s') \<Rightarrow>
               if source = destination then migrate_paths P s' sources
               else if source \<in> set (st_unwritable s')
               then (Inl (IoAt ''removing migrated ticket path'' source OtherIo), s')
               else migrate_paths P (s'\<lparr>st_files := AList.delete source (st_files s')\<rparr>) sources))"

definition activate_current_format :: "platform \<Rightarrow> fs_store \<Rightarrow> (store_error + unit) \<times> fs_store" where
  "activate_current_format P s =
     (case result_bind (ensure_compaction_recovered s) (\<lambda>_. metadata P s) of
        Inl e \<Rightarrow> (Inl e, s)
      | Inr m \<Rightarrow>
          if sm_schema_version m > STORE_SCHEMA_VERSION
          then (Inl (UnsupportedStoreSchema (sm_schema_version m) STORE_SCHEMA_VERSION), s)
          else if sm_schema_version m = STORE_SCHEMA_VERSION \<and> sm_shard m = SHARD_ID_SUFFIX_2
          then (Inr (), s)
          else (case migrate_paths P s (ticket_file_paths s) of
                  (Inl e, s') \<Rightarrow> (Inl e, s')
                | (Inr _, s') \<Rightarrow>
                    write_metadata s' (m\<lparr>sm_schema_version := STORE_SCHEMA_VERSION,
                                         sm_shard := SHARD_ID_SUFFIX_2\<rparr>)))"

end
