(* ===== verification/Ticket_Lifecycle.thy ===== *)
theory Ticket_Lifecycle
  imports Ticket_Store
begin

text \<open>
  The ticket transformations of \<open>ops.rs\<close> that do not touch the store: status and phase
  transitions with their activity notes, claim history, the Not Working report, the patch
  an update applies, the close outcome, and the values derived from notes (latest deletion,
  latest confidence).  Ids minted from \<open>DefaultHasher\<close> use \<open>pf_hash\<close> on the hashed values in
  the source's order.
\<close>

subsection \<open>Labels\<close>

fun status_label :: "status \<Rightarrow> string" where
  "status_label NotStarted = ''Not Started''"
| "status_label Started = ''Started''"
| "status_label Completed = ''Completed''"
| "status_label Verified = ''Verified''"
| "status_label Backlog = ''Backlog''"
| "status_label Archive = ''Archive''"
| "status_label Deleted = ''Deleted''"
| "status_label Moved = ''Moved''"

definition all_statuses :: "status list" where
  "all_statuses = [NotStarted, Started, Completed, Verified, Backlog, Archive, Deleted, Moved]"

definition status_from_label :: "string \<Rightarrow> status option" where
  "status_from_label label = List.find (\<lambda>s. status_label s = label) all_statuses"

fun started_phase_label :: "started_phase option \<Rightarrow> string" where
  "started_phase_label (Some Analyzing) = ''Analyzing''"
| "started_phase_label (Some Planning) = ''Planning''"
| "started_phase_label (Some Working) = ''Working''"
| "started_phase_label (Some InitialTesting) = ''Initial testing''"
| "started_phase_label (Some Integrating) = ''Integrating''"
| "started_phase_label (Some FinalTesting) = ''Final testing''"
| "started_phase_label None = ''Unspecified''"

definition is_open :: "ticket \<Rightarrow> bool" where
  "is_open t = (t_status t \<notin> {Completed, Verified, Deleted, Archive, Moved})"

definition is_done :: "ticket \<Rightarrow> bool" where
  "is_done t = (t_status t = Completed \<or> t_status t = Verified)"

fun priority_rank :: "priority \<Rightarrow> nat" where
  "priority_rank Highest = 0"
| "priority_rank High = 1"
| "priority_rank PDefault = 2"
| "priority_rank Low = 3"
| "priority_rank Lowest = 4"

subsection \<open>Minted ids\<close>

text \<open>
  \<open>unix_timestamp_nanos().max(0) as u64 / 1_000_000\<close>: the cast to 64 bits comes before the
  division; 0 when the text is no timestamp.
\<close>

definition timestamp_ms :: "timestamp \<Rightarrow> 64 word" where
  "timestamp_ms at =
     (case ts_parsed at of None \<Rightarrow> 0
      | Some dt \<Rightarrow> word_of_int (max 0 (unix_nanos dt)) div 1000000)"

definition minted_id :: "platform \<Rightarrow> timestamp \<Rightarrow> hash_item list \<Rightarrow> ulid" where
  "minted_id P at items = pf_ulid_from_parts P (timestamp_ms at) (ucast (pf_hash P items))"

subsection \<open>Claim history\<close>

definition clear_claim_fields :: "ticket \<Rightarrow> ticket" where
  "clear_claim_fields t =
     t\<lparr>t_claimed_by := None, t_claim_lease_expires_at := None, t_claim_eta_at := None,
       t_worker_label := None\<rparr>"

definition append_claim_event ::
  "platform \<Rightarrow> ticket \<Rightarrow> claim_event_kind \<Rightarrow> string \<Rightarrow> timestamp \<Rightarrow> timestamp option
     \<Rightarrow> string option \<Rightarrow> ticket" where
  "append_claim_event P t kind worker at lease label =
     t\<lparr>t_claim_history := t_claim_history t @
        [\<lparr>ce_id = minted_id P at [HUlid (t_id t), HUsize (length (t_claim_history t)), HStr worker,
                    HByte (claim_event_code kind), HStr (ts_raw at)],
          ce_kind = kind, ce_worker = worker, ce_at = at, ce_lease_expires_at = lease,
          ce_eta_at = (case kind of ReleaseEv \<Rightarrow> None | _ \<Rightarrow> t_claim_eta_at t),
          ce_worker_label = label\<rparr>]\<rparr>"

definition end_claim :: "platform \<Rightarrow> timestamp \<Rightarrow> ticket \<Rightarrow> ticket" where
  "end_claim P now t =
     clear_claim_fields
       (case t_claimed_by t of None \<Rightarrow> t
        | Some worker \<Rightarrow> append_claim_event P t ReleaseEv worker now None None)"

subsection \<open>Activity notes\<close>

definition plain_note :: "ulid \<Rightarrow> note_kind \<Rightarrow> timestamp \<Rightarrow> string option \<Rightarrow> string \<Rightarrow> ticket_note" where
  "plain_note i kind now summary text =
     \<lparr>n_id = i, n_kind = kind, n_kind_explicit = False, n_created_at = now, n_edited_at = now,
      n_summary = summary, n_confidence = None, n_feedback_for = None, n_feedback_request = False,
      n_response_to = None, n_ai_feedback = None, n_human_edited = False, n_actor = None,
      n_text = text\<rparr>"

definition push_note :: "ticket_note \<Rightarrow> ticket \<Rightarrow> ticket" where
  "push_note n t = t\<lparr>t_notes := t_notes t @ [n]\<rparr>"

definition append_status_transition ::
  "platform \<Rightarrow> status \<Rightarrow> status \<Rightarrow> timestamp \<Rightarrow> ticket \<Rightarrow> ticket" where
  "append_status_transition P from to now t =
     push_note (plain_note
       (minted_id P now [HUlid (t_id t), HUsize (length (t_notes t)), HByte (status_code from),
          HByte (status_code to), HStr (ts_raw now)])
       Activity now (Some (status_label to))
       (''Status changed from '' @ status_label from @ '' to '' @ status_label to)) t"

definition append_started_phase_transition ::
  "platform \<Rightarrow> started_phase option \<Rightarrow> timestamp \<Rightarrow> ticket \<Rightarrow> ticket" where
  "append_started_phase_transition P from now t =
     (let to = t_started_phase t in
      push_note (plain_note
        (minted_id P now [HUlid (t_id t), HUsize (length (t_notes t)), HStr ''started_phase'',
           HStr (started_phase_label from), HStr (started_phase_label to), HStr (ts_raw now)])
        Activity now (Some (started_phase_label to))
        (''Started phase changed from '' @ started_phase_label from @ '' to ''
          @ started_phase_label to)) t)"

definition stamp_last_note_actor :: "note_actor option \<Rightarrow> ticket \<Rightarrow> ticket" where
  "stamp_last_note_actor actor t =
     (case actor of None \<Rightarrow> t
      | Some a \<Rightarrow> if t_notes t = [] then t
                  else t\<lparr>t_notes := butlast (t_notes t) @ [(last (t_notes t))\<lparr>n_actor := Some a\<rparr>]\<rparr>)"

subsection \<open>Updates\<close>

record ticket_patch =
  p_title :: "string option"
  p_details :: "string option"
  p_category :: "string option"
  p_priority :: "priority option"
  p_status :: "status option"
  p_started_phase :: "started_phase option option"
  p_tags :: "string list option"
  p_up_next :: "bool option"
  p_blocked_by :: "ulid list option"
  p_follow_ups :: "project_ticket_ref list option"
  p_blocked_reason :: "string option option"
  p_actor :: "note_actor option"

definition empty_patch :: ticket_patch where
  "empty_patch = \<lparr>p_title = None, p_details = None, p_category = None, p_priority = None,
     p_status = None, p_started_phase = None, p_tags = None, p_up_next = None,
     p_blocked_by = None, p_follow_ups = None, p_blocked_reason = None, p_actor = None\<rparr>"

definition normalize_reason :: "string option \<Rightarrow> string option" where
  "normalize_reason r =
     Option.bind r (\<lambda>reason. let n = trim reason in if n \<noteq> [] then Some n else None)"

definition patch_fields :: "ticket_patch \<Rightarrow> ticket \<Rightarrow> ticket" where
  "patch_fields p t =
     t\<lparr>t_title := unwrap_or (p_title p) (t_title t),
       t_details := unwrap_or (p_details p) (t_details t),
       t_category := unwrap_or (p_category p) (t_category t),
       t_priority := unwrap_or (p_priority p) (t_priority t),
       t_tags := unwrap_or (p_tags p) (t_tags t),
       t_up_next := unwrap_or (p_up_next p) (t_up_next t),
       t_blocked_by := unwrap_or (p_blocked_by p) (t_blocked_by t),
       t_follow_ups := unwrap_or (p_follow_ups p) (t_follow_ups t),
       t_blocked_reason := (case p_blocked_reason p of None \<Rightarrow> t_blocked_reason t
                            | Some r \<Rightarrow> normalize_reason r)\<rparr>"

definition clear_close_annotation :: "ticket \<Rightarrow> ticket" where
  "clear_close_annotation t = t\<lparr>t_close_reason := None, t_closed_at := None, t_duplicate_of := None\<rparr>"

text \<open>The status part of the patch: phase, terminal timestamps, note, claim and close state.\<close>

definition patch_status_fields ::
  "status \<Rightarrow> bool \<Rightarrow> timestamp \<Rightarrow> status \<Rightarrow> ticket \<Rightarrow> ticket" where
  "patch_status_fields previous phase_given now s t =
     (let t1 = t\<lparr>t_status := s\<rparr>;
          t2 = (if s \<noteq> Started then t1\<lparr>t_started_phase := None\<rparr>
                else if previous \<noteq> Started \<and> \<not> phase_given
                then t1\<lparr>t_started_phase := Some Analyzing\<rparr> else t1);
          t3 = (if is_active s then t2\<lparr>t_completed_at := None, t_verified_at := None\<rparr> else t2)
      in if s = Completed \<and> t_completed_at t3 = None then t3\<lparr>t_completed_at := Some now\<rparr>
         else if s = Verified \<and> t_verified_at t3 = None then t3\<lparr>t_verified_at := Some now\<rparr>
         else t3)"

definition patch_status ::
  "platform \<Rightarrow> status \<Rightarrow> ticket_patch \<Rightarrow> timestamp \<Rightarrow> status \<Rightarrow> ticket \<Rightarrow> ticket" where
  "patch_status P previous p now s t =
     (let t1 = patch_status_fields previous (is_some (p_started_phase p)) now s t;
          t2 = (if s \<noteq> previous
                then stamp_last_note_actor (p_actor p) (append_status_transition P previous s now t1)
                else t1);
          t3 = (if \<not> is_active s then end_claim P now (t2\<lparr>t_up_next := False\<rparr>)
                else if is_some (t_close_reason t2) then clear_close_annotation t2 else t2)
      in if is_active s \<and> \<not> is_active previous then end_claim P now t3 else t3)"

definition patch_phase :: "ticket_patch \<Rightarrow> ticket \<Rightarrow> ticket" where
  "patch_phase p t =
     (case p_started_phase p of
        Some phase \<Rightarrow> if t_status t = Started then t\<lparr>t_started_phase := phase\<rparr> else t
      | None \<Rightarrow> t)"

definition note_phase ::
  "platform \<Rightarrow> started_phase option \<Rightarrow> ticket_patch \<Rightarrow> timestamp \<Rightarrow> ticket \<Rightarrow> ticket" where
  "note_phase P previous p now t =
     (if t_status t = Started \<and> t_started_phase t \<noteq> previous
      then stamp_last_note_actor (p_actor p) (append_started_phase_transition P previous now t)
      else t)"

definition settle_inactive :: "platform \<Rightarrow> timestamp \<Rightarrow> ticket \<Rightarrow> ticket" where
  "settle_inactive P now t =
     (if \<not> is_active (t_status t) then end_claim P now (t\<lparr>t_up_next := False\<rparr>) else t)"

definition apply_patch :: "platform \<Rightarrow> ticket_patch \<Rightarrow> timestamp \<Rightarrow> ticket \<Rightarrow> ticket" where
  "apply_patch P p now before =
     (let t1 = patch_fields p before;
          t2 = (case p_status p of None \<Rightarrow> t1
                | Some s \<Rightarrow> patch_status P (t_status before) p now s t1)
      in settle_inactive P now (note_phase P (t_started_phase before) p now (patch_phase p t2)))"

definition has_substantive_change :: "ticket \<Rightarrow> ticket \<Rightarrow> bool" where
  "has_substantive_change before after =
     (before\<lparr>t_up_next := t_up_next after, t_priority := t_priority after,
             t_updated_at := t_updated_at after\<rparr> \<noteq> after)"

subsection \<open>Closing\<close>

definition apply_close ::
  "platform \<Rightarrow> timestamp \<Rightarrow> close_reason \<Rightarrow> string option \<Rightarrow> note_actor option \<Rightarrow> ticket \<Rightarrow> ticket" where
  "apply_close P now reason duplicate_of actor t =
     (let t1 = t\<lparr>t_close_reason := Some reason, t_closed_at := Some now,
                 t_duplicate_of := duplicate_of\<rparr>;
          t2 = (if is_active (t_status t1)
                then stamp_last_note_actor actor
                       (append_status_transition P (t_status t1) Completed now
                         (t1\<lparr>t_status := Completed, t_started_phase := None,
                             t_completed_at := Some (unwrap_or (t_completed_at t1) now)\<rparr>))
                else t1)
      in (end_claim P now (t2\<lparr>t_up_next := False\<rparr>))\<lparr>t_updated_at := now\<rparr>)"

subsection \<open>Not Working reports\<close>

datatype lifecycle_error = NotWorkingRequiresCompleted status | EmptyNotWorkingReport

definition NOT_WORKING_SUMMARY :: string where "NOT_WORKING_SUMMARY = ''Reported as not working''"

definition summarize_not_working :: "string \<Rightarrow> string" where
  "summarize_not_working text =
     (let cs = chars (join '' '' (split_whitespace text)); summary = concat (take 140 cs) in
      if 140 < length cs then trim_end summary @ ellipsis else summary)"

definition not_working_text :: "string option \<Rightarrow> string \<Rightarrow> string" where
  "not_working_text reporter summary =
     (case opt_filter (\<lambda>v. trim v \<noteq> []) reporter of
        Some v \<Rightarrow> trim v @ '' reported as not working'' @ nl @ summary
      | None \<Rightarrow> ''Reported as not working'' @ nl @ summary)"

definition reopen_not_working :: "platform \<Rightarrow> timestamp \<Rightarrow> ticket \<Rightarrow> ticket" where
  "reopen_not_working P now t =
     (clear_close_annotation (end_claim P now
        (t\<lparr>t_status := NotStarted, t_started_phase := None, t_up_next := True,
           t_completed_at := None, t_verified_at := None\<rparr>)))\<lparr>t_updated_at := now\<rparr>"

definition prepare_not_working ::
  "platform \<Rightarrow> ticket \<Rightarrow> timestamp \<Rightarrow> (ulid \<times> string) option \<Rightarrow> bool \<Rightarrow> string option
     \<Rightarrow> lifecycle_error + ticket" where
  "prepare_not_working P t now report has_evidence reporter =
     (if t_status t \<notin> {Completed, Verified, Archive}
      then Inl (NotWorkingRequiresCompleted (t_status t))
      else
        let trimmed = Option.bind report (\<lambda>(i, text).
              let text = trim text in if text \<noteq> [] then Some (i, text) else None)
        in if trimmed = None \<and> \<not> has_evidence then Inl EmptyNotWorkingReport
           else
             let summary = (case trimmed of None \<Rightarrow> ''Evidence attached for review.''
                            | Some (_, text) \<Rightarrow> summarize_not_working text);
                 t1 = push_note (plain_note
                   (minted_id P now [HUlid (t_id t), HUsize (length (t_notes t)),
                      HStr ''not-working-report'', HStr (ts_raw now)])
                   Activity now (Some NOT_WORKING_SUMMARY) (not_working_text reporter summary)) t;
                 t2 = (case trimmed of None \<Rightarrow> t1
                       | Some (i, text) \<Rightarrow>
                           push_note (plain_note i Regular now None (''Not working: '' @ text)) t1)
             in Inr (reopen_not_working P now t2))"

subsection \<open>Values derived from notes\<close>

definition deletion_note :: "ticket_note \<Rightarrow> (timestamp \<times> status option) option" where
  "deletion_note n =
     (if n_kind n \<noteq> Activity then None
      else Option.bind (strip_prefix ''Status changed from '' (n_text n)) (\<lambda>rest.
           map_option (\<lambda>from. (n_created_at n, status_from_label from))
             (strip_suffix '' to Deleted'' rest)))"

definition latest_deletion :: "ticket \<Rightarrow> (timestamp \<times> status option) option" where
  "latest_deletion t = find_map deletion_note (rev (t_notes t))"

definition deleted_since :: "ticket \<Rightarrow> timestamp" where
  "deleted_since t = (case latest_deletion t of None \<Rightarrow> t_updated_at t | Some (at, _) \<Rightarrow> at)"

text \<open>The status a restore returns to.\<close>

definition restore_target :: "ticket \<Rightarrow> status" where
  "restore_target t =
     unwrap_or (opt_filter (\<lambda>s. s \<noteq> Deleted \<and> s \<noteq> Moved) (Option.bind (latest_deletion t) snd))
       NotStarted"

definition transition_rest :: "ticket_note \<Rightarrow> string option" where
  "transition_rest n =
     Option.bind (first_line (n_text n)) (\<lambda>line.
     Option.bind (strip_prefix ''Status changed from '' line) (\<lambda>rest.
     map_option snd (rsplit_once '' to '' rest)))"

definition transition_target :: "ticket_note \<Rightarrow> status option" where
  "transition_target n =
     (if n_kind n \<noteq> Activity then None else Option.bind (transition_rest n) status_from_label)"

definition note_reopens_ticket :: "ticket_note \<Rightarrow> bool" where
  "note_reopens_ticket n =
     (n_kind n = Activity \<and>
      (n_summary n = Some NOT_WORKING_SUMMARY \<or>
       is_some_and (transition_rest n)
         (\<lambda>to. to = status_label NotStarted \<or> to = status_label Started)))"

definition latest_confidence_of_notes :: "status \<Rightarrow> ticket_note list \<Rightarrow> confidence option" where
  "latest_confidence_of_notes s notes =
     (if s \<noteq> Completed \<and> s \<noteq> Verified then None
      else
        let reopened = max_by chronological_note_cmp (filter note_reopens_ticket notes) in
        Option.bind (max_by chronological_note_cmp
          (filter (\<lambda>n. is_none_or reopened (\<lambda>r. chronological_note_cmp n r = Greater))
            (filter (\<lambda>n. is_some (n_confidence n)) notes)))
          n_confidence)"

definition latest_confidence :: "ticket \<Rightarrow> confidence option" where
  "latest_confidence t = latest_confidence_of_notes (t_status t) (t_notes t)"

definition confidence_in_range ::
  "confidence option \<Rightarrow> nat option \<Rightarrow> nat option \<Rightarrow> bool" where
  "confidence_in_range value lo hi =
     (if lo = None \<and> hi = None then True
      else is_some_and value (\<lambda>c. is_none_or lo (\<lambda>m. confidence_get c \<ge> m)
                                 \<and> is_none_or hi (\<lambda>m. confidence_get c \<le> m)))"

subsection \<open>The lifecycle invariant\<close>

text \<open>
  What the operations keep of a ticket: Up Next and a phase only on active work, no close
  reason and no completion time on active work, no claim on a terminal ticket.
\<close>

definition unclaimed :: "ticket \<Rightarrow> bool" where
  "unclaimed t = (t_claimed_by t = None \<and> t_claim_lease_expires_at t = None)"

definition lifecycle_ok :: "ticket \<Rightarrow> bool" where
  "lifecycle_ok t =
     ((t_up_next t \<longrightarrow> is_active (t_status t))
      \<and> (t_close_reason t \<noteq> None \<longrightarrow> \<not> is_active (t_status t))
      \<and> (t_started_phase t \<noteq> None \<longrightarrow> t_status t = Started)
      \<and> (is_active (t_status t) \<longrightarrow> t_completed_at t = None \<and> t_verified_at t = None)
      \<and> (\<not> is_open t \<longrightarrow> unclaimed t))"

text \<open>The estimate, label and lease belong to a holder.\<close>

definition claim_coherent :: "ticket \<Rightarrow> bool" where
  "claim_coherent t =
     (t_claimed_by t = None \<longrightarrow>
        t_claim_lease_expires_at t = None \<and> t_claim_eta_at t = None \<and> t_worker_label t = None)"

text \<open>
  How the building blocks act on the fields the invariant reads.
\<close>

lemma push_note_fields [op_simps]:
  "t_status (push_note n t) = t_status t" "t_up_next (push_note n t) = t_up_next t"
  "t_close_reason (push_note n t) = t_close_reason t"
  "t_started_phase (push_note n t) = t_started_phase t"
  "t_completed_at (push_note n t) = t_completed_at t" "t_verified_at (push_note n t) = t_verified_at t"
  "t_claimed_by (push_note n t) = t_claimed_by t"
  "t_claim_lease_expires_at (push_note n t) = t_claim_lease_expires_at t"
  "t_claim_eta_at (push_note n t) = t_claim_eta_at t"
  "t_worker_label (push_note n t) = t_worker_label t"
  "t_claim_count (push_note n t) = t_claim_count t" "t_claim_history (push_note n t) = t_claim_history t"
  "t_id (push_note n t) = t_id t" "t_notes (push_note n t) = t_notes t @ [n]"
  by (simp_all add: push_note_def)

lemma stamp_fields [op_simps]:
  "t_status (stamp_last_note_actor a t) = t_status t"
  "t_up_next (stamp_last_note_actor a t) = t_up_next t"
  "t_close_reason (stamp_last_note_actor a t) = t_close_reason t"
  "t_started_phase (stamp_last_note_actor a t) = t_started_phase t"
  "t_completed_at (stamp_last_note_actor a t) = t_completed_at t"
  "t_verified_at (stamp_last_note_actor a t) = t_verified_at t"
  "t_claimed_by (stamp_last_note_actor a t) = t_claimed_by t"
  "t_claim_lease_expires_at (stamp_last_note_actor a t) = t_claim_lease_expires_at t"
  "t_claim_eta_at (stamp_last_note_actor a t) = t_claim_eta_at t"
  "t_worker_label (stamp_last_note_actor a t) = t_worker_label t"
  "t_claim_count (stamp_last_note_actor a t) = t_claim_count t"
  "t_claim_history (stamp_last_note_actor a t) = t_claim_history t"
  "t_id (stamp_last_note_actor a t) = t_id t"
  by (simp_all add: stamp_last_note_actor_def split: option.splits)

lemma end_claim_fields [op_simps]:
  "t_status (end_claim P now t) = t_status t" "t_up_next (end_claim P now t) = t_up_next t"
  "t_close_reason (end_claim P now t) = t_close_reason t"
  "t_started_phase (end_claim P now t) = t_started_phase t"
  "t_completed_at (end_claim P now t) = t_completed_at t"
  "t_verified_at (end_claim P now t) = t_verified_at t"
  "t_claimed_by (end_claim P now t) = None" "t_claim_lease_expires_at (end_claim P now t) = None"
  "t_claim_eta_at (end_claim P now t) = None" "t_worker_label (end_claim P now t) = None"
  "t_claim_count (end_claim P now t) = t_claim_count t" "t_id (end_claim P now t) = t_id t"
  "t_notes (end_claim P now t) = t_notes t"
  by (simp_all add: end_claim_def clear_claim_fields_def append_claim_event_def split: option.splits)

declare append_status_transition_def [op_simps] append_started_phase_transition_def [op_simps]
  clear_close_annotation_def [op_simps] Let_def [op_simps]

lemma is_open_iff: "is_open t \<longleftrightarrow> t_status t \<in> {NotStarted, Started, Backlog}"
  by (cases "t_status t") (simp_all add: is_open_def)

lemma active_open: "is_active (t_status t) \<Longrightarrow> is_open t"
  by (auto simp: is_open_iff is_active_iff)

lemma patch_fields_frame [op_simps]:
  "t_status (patch_fields p t) = t_status t" "t_close_reason (patch_fields p t) = t_close_reason t"
  "t_started_phase (patch_fields p t) = t_started_phase t"
  "t_completed_at (patch_fields p t) = t_completed_at t"
  "t_verified_at (patch_fields p t) = t_verified_at t"
  "t_claimed_by (patch_fields p t) = t_claimed_by t"
  "t_claim_lease_expires_at (patch_fields p t) = t_claim_lease_expires_at t"
  "t_claim_eta_at (patch_fields p t) = t_claim_eta_at t"
  "t_worker_label (patch_fields p t) = t_worker_label t"
  "t_claim_count (patch_fields p t) = t_claim_count t"
  "t_claim_history (patch_fields p t) = t_claim_history t" "t_notes (patch_fields p t) = t_notes t"
  "t_id (patch_fields p t) = t_id t"
  by (simp_all add: patch_fields_def)

text \<open>The fields the status part of a patch decides.\<close>

lemma patch_status_facts:
  "t_status (patch_status P q p now s t) = s"
  "is_active s \<Longrightarrow> t_close_reason (patch_status P q p now s t) = None"
  "is_active s \<Longrightarrow> t_completed_at (patch_status P q p now s t) = None"
  "is_active s \<Longrightarrow> t_verified_at (patch_status P q p now s t) = None"
  "s \<noteq> Started \<Longrightarrow> t_started_phase (patch_status P q p now s t) = None"
  by (auto simp: patch_status_def patch_status_fields_def op_simps is_some_iff)

lemma lifecycle_ok_cong:
  "t_status a = t_status b \<Longrightarrow> t_up_next a = t_up_next b \<Longrightarrow> t_close_reason a = t_close_reason b \<Longrightarrow>
   t_started_phase a = t_started_phase b \<Longrightarrow> t_completed_at a = t_completed_at b \<Longrightarrow>
   t_verified_at a = t_verified_at b \<Longrightarrow> t_claimed_by a = t_claimed_by b \<Longrightarrow>
   t_claim_lease_expires_at a = t_claim_lease_expires_at b \<Longrightarrow> lifecycle_ok a = lifecycle_ok b"
  by (simp add: lifecycle_ok_def is_open_def unclaimed_def)

lemma note_phase_frame [op_simps]:
  "t_status (note_phase P q p now t) = t_status t" "t_up_next (note_phase P q p now t) = t_up_next t"
  "t_close_reason (note_phase P q p now t) = t_close_reason t"
  "t_started_phase (note_phase P q p now t) = t_started_phase t"
  "t_completed_at (note_phase P q p now t) = t_completed_at t"
  "t_verified_at (note_phase P q p now t) = t_verified_at t"
  "t_claimed_by (note_phase P q p now t) = t_claimed_by t"
  "t_claim_lease_expires_at (note_phase P q p now t) = t_claim_lease_expires_at t"
  "t_claim_eta_at (note_phase P q p now t) = t_claim_eta_at t"
  "t_worker_label (note_phase P q p now t) = t_worker_label t"
  "t_id (note_phase P q p now t) = t_id t"
  by (simp_all add: note_phase_def op_simps)

lemma patch_phase_frame [op_simps]:
  "t_status (patch_phase p t) = t_status t" "t_up_next (patch_phase p t) = t_up_next t"
  "t_close_reason (patch_phase p t) = t_close_reason t"
  "t_completed_at (patch_phase p t) = t_completed_at t"
  "t_verified_at (patch_phase p t) = t_verified_at t" "t_claimed_by (patch_phase p t) = t_claimed_by t"
  "t_claim_lease_expires_at (patch_phase p t) = t_claim_lease_expires_at t"
  "t_claim_eta_at (patch_phase p t) = t_claim_eta_at t"
  "t_worker_label (patch_phase p t) = t_worker_label t" "t_id (patch_phase p t) = t_id t"
  "t_status t \<noteq> Started \<Longrightarrow> t_started_phase (patch_phase p t) = t_started_phase t"
  by (simp_all add: patch_phase_def split: option.splits)

text \<open>The state before the final settling: everything but Up Next on an inactive ticket.\<close>

definition pre_settled :: "ticket \<Rightarrow> bool" where
  "pre_settled t =
     ((t_close_reason t \<noteq> None \<longrightarrow> \<not> is_active (t_status t))
      \<and> (t_started_phase t \<noteq> None \<longrightarrow> t_status t = Started)
      \<and> (is_active (t_status t) \<longrightarrow> t_completed_at t = None \<and> t_verified_at t = None))"

lemma settle_inactive_ok: "pre_settled t \<Longrightarrow> lifecycle_ok (settle_inactive P now t)"
  using active_open[of t]
  by (auto simp: lifecycle_ok_def pre_settled_def settle_inactive_def op_simps unclaimed_def is_open_iff)

lemma pre_settled_phase: "pre_settled t \<Longrightarrow> pre_settled (note_phase P q p now (patch_phase p t))"
  by (cases "t_status t = Started") (simp_all add: pre_settled_def op_simps)

lemma lifecycle_ok_apply_patch:
  assumes "lifecycle_ok t"
  shows "lifecycle_ok (apply_patch P p now t)"
proof -
  let ?f = "patch_fields p t"
  have "pre_settled (case p_status p of None \<Rightarrow> ?f | Some s \<Rightarrow> patch_status P (t_status t) p now s ?f)"
  proof (cases "p_status p")
    case None
    with assms show ?thesis by (simp add: pre_settled_def lifecycle_ok_def op_simps)
  next
    case (Some s)
    then show ?thesis
      by (cases "s = Started"; cases "is_active s") (simp_all add: pre_settled_def patch_status_facts)
  qed
  then show ?thesis
    unfolding apply_patch_def Let_def by (intro settle_inactive_ok pre_settled_phase)
qed

lemma lifecycle_ok_apply_close: "lifecycle_ok t \<Longrightarrow> lifecycle_ok (apply_close P now r d a t)"
  by (auto simp: apply_close_def lifecycle_ok_def op_simps unclaimed_def is_open_iff)

lemma lifecycle_ok_not_working:
  "prepare_not_working P t now report ev who = Inr t' \<Longrightarrow> lifecycle_ok t'"
  by (auto simp: prepare_not_working_def reopen_not_working_def lifecycle_ok_def op_simps
      is_open_iff split: if_splits option.splits prod.splits)

end
