(* ===== verification/Checkout_Order.thy ===== *)
theory Checkout_Order
  imports Ticket_Lifecycle
begin

text \<open>
  The total order of \<open>checkout_order.rs\<close> over rows gathered from several sources, the merge
  that sorts and caps them, and the key of a local ticket row (\<open>MergeKey::from_row\<close> after
  \<open>TicketRow::set_connection\<close>).
\<close>

datatype sort_key =
  SortId | SortCreated | SortUpdated | SortPriority | SortStatus | SortTitle | SortConfidence

definition sort_key_from_str :: "string \<Rightarrow> string + sort_key" where
  "sort_key_from_str s =
     (case map_of [(''id'', SortId), (''created'', SortCreated), (''updated'', SortUpdated),
             (''priority'', SortPriority), (''status'', SortStatus), (''title'', SortTitle),
             (''confidence'', SortConfidence)] s of
        Some k \<Rightarrow> Inr k
      | None \<Rightarrow> Inl (''invalid sort '' @ [CHR 39] @ s @ [CHR 39]))"

record merge_key =
  mk_native_id :: string
  mk_qualified_id :: string
  mk_title :: string
  mk_created_at :: string
  mk_updated_at :: string
  mk_priority_rank :: nat
  mk_status_rank :: nat
  mk_confidence_rank :: nat

definition CHECKOUT_READ_MAX_ROWS :: nat where "CHECKOUT_READ_MAX_ROWS = 500"

definition u8_max :: nat where "u8_max = 255"

definition title_fold :: "string \<Rightarrow> string" where
  "title_fold title = to_ascii_lower title"

definition wire_priority_rank :: "string option \<Rightarrow> nat" where
  "wire_priority_rank v =
     unwrap_or (Option.bind v (map_of [(''highest'', 0), (''high'', 1), (''default'', 2),
       (''low'', 3), (''lowest'', 4)])) u8_max"

definition wire_status_rank :: "string option \<Rightarrow> nat" where
  "wire_status_rank v =
     unwrap_or (Option.bind v (map_of [(''not_started'', 0), (''started'', 1), (''completed'', 2),
       (''verified'', 3), (''backlog'', 4), (''archive'', 5), (''deleted'', 6), (''moved'', 7)]))
       u8_max"

definition confidence_rank :: "nat option \<Rightarrow> nat" where
  "confidence_rank v = unwrap_or v u8_max"

text \<open>The key of a store ticket as a row of the given connection.\<close>

definition merge_key_of :: "platform \<Rightarrow> string \<Rightarrow> ticket \<Rightarrow> merge_key" where
  "merge_key_of P connection t =
     (let native = pf_ulid_to_string P (t_id t) in
      \<lparr>mk_native_id = native, mk_qualified_id = connection @ '':'' @ native,
       mk_title = t_title t, mk_created_at = ts_raw (t_created_at t),
       mk_updated_at = ts_raw (t_updated_at t),
       mk_priority_rank = wire_priority_rank (Some (priority_wire (t_priority t))),
       mk_status_rank = wire_status_rank (Some (status_wire (t_status t))),
       mk_confidence_rank =
         confidence_rank (map_option confidence_get (latest_confidence t))\<rparr>)"

definition recent_first :: "merge_key \<Rightarrow> merge_key \<Rightarrow> ordering" where
  "recent_first left right =
     ord_then (ord_cmp (mk_updated_at right) (mk_updated_at left))
       (ord_cmp (mk_qualified_id left) (mk_qualified_id right))"

definition by_identity :: "bool \<Rightarrow> merge_key \<Rightarrow> merge_key \<Rightarrow> ordering" where
  "by_identity descending left right =
     ord_then (directed descending (ord_cmp (mk_native_id left) (mk_native_id right)))
       (directed descending (ord_cmp (mk_qualified_id left) (mk_qualified_id right)))"

fun compare_keys :: "sort_key \<Rightarrow> bool \<Rightarrow> merge_key \<Rightarrow> merge_key \<Rightarrow> ordering" where
  "compare_keys SortId d l r = by_identity d l r"
| "compare_keys SortCreated d l r =
     ord_then (directed d (ord_cmp (mk_created_at l) (mk_created_at r))) (by_identity d l r)"
| "compare_keys SortUpdated d l r =
     ord_then (directed d (ord_cmp (mk_updated_at l) (mk_updated_at r))) (by_identity d l r)"
| "compare_keys SortPriority d l r =
     ord_then (directed d (ord_cmp (mk_priority_rank l) (mk_priority_rank r))) (recent_first l r)"
| "compare_keys SortStatus d l r =
     ord_then (directed d (ord_cmp (mk_status_rank l) (mk_status_rank r))) (recent_first l r)"
| "compare_keys SortTitle d l r =
     ord_then (directed d (ord_cmp (title_fold (mk_title l)) (title_fold (mk_title r))))
       (recent_first l r)"
| "compare_keys SortConfidence d l r =
     ord_then (directed d (ord_cmp (mk_confidence_rank l) (mk_confidence_rank r))) (recent_first l r)"

text \<open>\<open>merge_rows\<close> on rows paired with the keys read from them.\<close>

definition merge_rows ::
  "(merge_key \<times> 'r) list \<Rightarrow> sort_key \<Rightarrow> bool \<Rightarrow> nat option \<Rightarrow> 'r list" where
  "merge_rows keyed key descending limit =
     (let rows = sort_by (\<lambda>a b. compare_keys key descending (fst a) (fst b)) keyed
      in map snd (case limit of None \<Rightarrow> rows | Some n \<Rightarrow> take n rows))"

subsection \<open>The order is total\<close>

lemma total_recent_first: "total_cmp recent_first ok"
  unfolding recent_first_def by (rule total_cmp_then total_cmp_flip[OF total_cmp_key] total_cmp_key)+

lemma total_by_identity: "total_cmp (by_identity d) ok"
  unfolding by_identity_def by (intro total_cmp_then total_cmp_directed total_cmp_key)

lemma total_compare_keys: "total_cmp (compare_keys k d) ok"
proof -
  have "total_cmp (\<lambda>l r. compare_keys k d l r) ok"
    by (cases k) (simp_all only: compare_keys.simps total_cmp_then total_cmp_directed total_cmp_key
        total_by_identity total_recent_first)
  then show ?thesis .
qed

interpretation co: total_cmp "compare_keys k d" "\<lambda>_. True" for k d
  by (rule total_compare_keys)

lemma compare_keys_identity:
  "compare_keys k d l r = Equal \<Longrightarrow> mk_qualified_id l = mk_qualified_id r"
  by (cases k) (simp_all add: ord_then_iff by_identity_def recent_first_def)

end
