(* ===== verification/Ticket_Query.thy ===== *)
theory Ticket_Query
  imports Checkout_Order
begin

text \<open>
  Queries of \<open>ops.rs\<close>: the filter predicate, the seven sort orders, the keyset and cursor
  continuations, the row cap, the bounded store read, and the resolution of a ULID or slug.
\<close>

subsection \<open>Queries\<close>

datatype ticket_collection = CollQueue | CollArchive | CollTrash | CollAll

definition collection_from_str :: "string \<Rightarrow> string + ticket_collection" where
  "collection_from_str s =
     (case map_of [(''queue'', CollQueue), (''archive'', CollArchive), (''trash'', CollTrash),
             (''all'', CollAll)] s of
        Some c \<Rightarrow> Inr c
      | None \<Rightarrow> Inl (''invalid collection '' @ [CHR 39] @ s @ [CHR 39]))"

record after_key =
  ak_key :: merge_key
  ak_connection_id :: string

record ticket_query =
  q_status :: "status option"
  q_collection :: "ticket_collection option"
  q_priority :: "priority option"
  q_category :: "string option"
  q_tags :: "string list"
  q_text :: "string option"
  q_up_next_only :: bool
  q_open_only :: bool
  q_close_reason :: "close_reason option"
  q_closed :: "bool option"
  q_assignee :: "string option"
  q_review_requested :: "string option"
  q_review_by :: "string option"
  q_needs_review :: "bool option"
  q_claimed :: "bool option"
  q_blocked :: "bool option"
  q_created_after :: "string option"
  q_created_before :: "string option"
  q_updated_after :: "string option"
  q_updated_before :: "string option"
  q_completed_after :: "string option"
  q_completed_before :: "string option"
  q_verified_after :: "string option"
  q_verified_before :: "string option"
  q_has_attachment :: "bool option"
  q_has_media_annotation :: "bool option"
  q_attachment_patterns :: "string list"
  q_min_confidence :: "nat option"
  q_max_confidence :: "nat option"
  q_sort :: sort_key
  q_descending :: bool
  q_limit :: "nat option"
  q_page_after :: "ulid option"
  q_after_key :: "after_key option"

definition default_query :: ticket_query where
  "default_query = \<lparr>q_status = None, q_collection = None, q_priority = None, q_category = None,
     q_tags = [], q_text = None, q_up_next_only = False, q_open_only = False,
     q_close_reason = None, q_closed = None, q_assignee = None, q_review_requested = None,
     q_review_by = None, q_needs_review = None, q_claimed = None, q_blocked = None,
     q_created_after = None, q_created_before = None, q_updated_after = None,
     q_updated_before = None, q_completed_after = None, q_completed_before = None,
     q_verified_after = None, q_verified_before = None, q_has_attachment = None,
     q_has_media_annotation = None, q_attachment_patterns = [], q_min_confidence = None,
     q_max_confidence = None, q_sort = SortId, q_descending = False, q_limit = None,
     q_page_after = None, q_after_key = None\<rparr>"

definition is_blocked :: "ticket \<Rightarrow> bool" where
  "is_blocked t = is_some_and (t_blocked_reason t) (\<lambda>reason. trim reason \<noteq> [])"

fun in_collection :: "ticket_collection \<Rightarrow> status \<Rightarrow> bool" where
  "in_collection CollQueue s = (s \<noteq> Backlog \<and> s \<notin> {Archive, Deleted, Moved})"
| "in_collection CollArchive s = (s \<in> {Archive, Moved})"
| "in_collection CollTrash s = (s = Deleted)"
| "in_collection CollAll s = (s \<noteq> Deleted)"

text \<open>
  The glob: each literal part is searched from the left in what remains of the name; the
  first part is anchored when the pattern does not start with a star, and the name must be
  used up when it does not end with one.
\<close>

fun glob_parts :: "bool \<Rightarrow> bool \<Rightarrow> string list \<Rightarrow> string \<Rightarrow> string option" where
  "glob_parts anchored first [] remainder = Some remainder"
| "glob_parts anchored first (part # parts) remainder =
     (case find_sub part remainder of
        None \<Rightarrow> None
      | Some index \<Rightarrow>
          if first \<and> anchored \<and> index \<noteq> 0 then None
          else glob_parts anchored False parts (drop (index + length part) remainder))"

definition filename_glob_matches :: "platform \<Rightarrow> string \<Rightarrow> string \<Rightarrow> bool" where
  "filename_glob_matches P pattern filename =
     (let pattern = pf_to_lowercase P pattern; filename = pf_to_lowercase P filename in
      if \<not> contains_sub ''*'' pattern then contains_sub pattern filename
      else case glob_parts (\<not> starts_with ''*'' pattern) True
               (filter (\<lambda>p. p \<noteq> []) (split_char (CHR ''*'') pattern)) filename of
          None \<Rightarrow> False
        | Some remainder \<Rightarrow> ends_with ''*'' pattern \<or> remainder = [])"

definition matches_text :: "platform \<Rightarrow> ticket \<Rightarrow> string \<Rightarrow> bool" where
  "matches_text P t needle =
     (let has = (\<lambda>s. contains_sub needle (pf_to_lowercase P s)) in
      has (t_slug t) \<or> has (t_title t) \<or> list_ex has (t_tags t) \<or> has (t_details t)
      \<or> list_ex (\<lambda>n. has (n_text n)) (t_notes t)
      \<or> list_ex (\<lambda>a. has (at_filename a)) (t_attachments t))"

text \<open>The filter, conjunct by conjunct in the source's order.\<close>

definition query_lifecycle :: "ticket_query \<Rightarrow> ticket \<Rightarrow> bool" where
  "query_lifecycle q t =
     (is_none_or (q_status q) (\<lambda>s. t_status t = s)
      \<and> is_none_or (q_collection q) (\<lambda>c. in_collection c (t_status t))
      \<and> is_none_or (q_priority q) (\<lambda>p. t_priority t = p)
      \<and> is_none_or (q_category q) (\<lambda>c. t_category t = c)
      \<and> (\<not> q_up_next_only q \<or> t_up_next t \<and> is_active (t_status t))
      \<and> (\<not> q_open_only q \<or> is_open t)
      \<and> (q_status q = Some Moved \<or> q_collection q \<in> {Some CollArchive, Some CollAll}
         \<or> t_status t \<noteq> Moved)
      \<and> is_none_or (q_close_reason q) (\<lambda>r. t_close_reason t = Some r)
      \<and> is_none_or (q_closed q) (\<lambda>want. is_some (t_close_reason t) = want))"

definition query_people :: "platform \<Rightarrow> ticket_query \<Rightarrow> ticket \<Rightarrow> bool" where
  "query_people P q t =
     (is_none_or (q_assignee q) (\<lambda>a. a \<in> set (t_assignees t))
      \<and> is_none_or (q_review_requested q) (\<lambda>who. list_ex (\<lambda>r. rr_who r = who) (t_review_requests t))
      \<and> is_none_or (q_review_by q)
          (\<lambda>who. list_ex (\<lambda>r. rr_requested_by r = Some who) (t_review_requests t))
      \<and> is_none_or (q_needs_review q)
          (\<lambda>want. (feedback_needed P t \<or> t_review_requests t \<noteq> []) = want)
      \<and> is_none_or (q_claimed q) (\<lambda>want. is_some (t_claimed_by t) = want)
      \<and> is_none_or (q_blocked q) (\<lambda>want. is_blocked t = want))"

definition query_times :: "ticket_query \<Rightarrow> ticket \<Rightarrow> bool" where
  "query_times q t =
     (is_none_or (q_created_after q) (\<lambda>a. ts_raw (t_created_at t) \<ge> a)
      \<and> is_none_or (q_created_before q) (\<lambda>b. ts_raw (t_created_at t) \<le> b)
      \<and> is_none_or (q_updated_after q) (\<lambda>a. ts_raw (t_updated_at t) \<ge> a)
      \<and> is_none_or (q_updated_before q) (\<lambda>b. ts_raw (t_updated_at t) \<le> b)
      \<and> is_none_or (q_completed_after q) (\<lambda>a. is_some_and (t_completed_at t) (\<lambda>v. ts_raw v \<ge> a))
      \<and> is_none_or (q_completed_before q) (\<lambda>b. is_some_and (t_completed_at t) (\<lambda>v. ts_raw v \<le> b))
      \<and> is_none_or (q_verified_after q) (\<lambda>a. is_some_and (t_verified_at t) (\<lambda>v. ts_raw v \<ge> a))
      \<and> is_none_or (q_verified_before q) (\<lambda>b. is_some_and (t_verified_at t) (\<lambda>v. ts_raw v \<le> b)))"

definition query_content :: "platform \<Rightarrow> ticket_query \<Rightarrow> ticket \<Rightarrow> bool" where
  "query_content P q t =
     (confidence_in_range (latest_confidence t) (q_min_confidence q) (q_max_confidence q)
      \<and> is_none_or (q_has_attachment q) (\<lambda>want. (t_attachments t = []) \<noteq> want)
      \<and> is_none_or (q_has_media_annotation q)
          (\<lambda>want. list_ex (\<lambda>a. at_annotations a \<noteq> []) (t_attachments t) = want)
      \<and> list_all (\<lambda>pattern. list_ex (\<lambda>a. filename_glob_matches P pattern (at_filename a))
            (t_attachments t)) (q_attachment_patterns q)
      \<and> list_all (\<lambda>tag. tag \<in> set (t_tags t)) (q_tags q)
      \<and> is_none_or (map_option (pf_to_lowercase P) (q_text q)) (matches_text P t))"

definition query_matches :: "platform \<Rightarrow> ticket_query \<Rightarrow> ticket \<Rightarrow> bool" where
  "query_matches P q t =
     (query_lifecycle q t \<and> query_people P q t \<and> query_times q t \<and> query_content P q t)"

subsection \<open>Orders\<close>

definition recent_then_id :: "ticket \<Rightarrow> ticket \<Rightarrow> ordering" where
  "recent_then_id a b =
     ord_then (ord_cmp (ts_raw (t_updated_at b)) (ts_raw (t_updated_at a))) (ord_cmp (t_id a) (t_id b))"

definition ticket_confidence_rank :: "ticket \<Rightarrow> nat" where
  "ticket_confidence_rank t = confidence_rank (map_option confidence_get (latest_confidence t))"

fun ticket_cmp :: "platform \<Rightarrow> sort_key \<Rightarrow> bool \<Rightarrow> ticket \<Rightarrow> ticket \<Rightarrow> ordering" where
  "ticket_cmp P SortId d a b = directed d (ord_cmp (t_id a) (t_id b))"
| "ticket_cmp P SortCreated d a b =
     directed d (ord_then (ord_cmp (ts_raw (t_created_at a)) (ts_raw (t_created_at b)))
       (ord_cmp (t_id a) (t_id b)))"
| "ticket_cmp P SortUpdated d a b =
     directed d (ord_then (ord_cmp (ts_raw (t_updated_at a)) (ts_raw (t_updated_at b)))
       (ord_cmp (t_id a) (t_id b)))"
| "ticket_cmp P SortPriority d a b =
     ord_then (directed d (ord_cmp (priority_rank (t_priority a)) (priority_rank (t_priority b))))
       (recent_then_id a b)"
| "ticket_cmp P SortStatus d a b =
     ord_then (directed d (ord_cmp (status_code (t_status a)) (status_code (t_status b))))
       (recent_then_id a b)"
| "ticket_cmp P SortTitle d a b =
     ord_then (directed d (ord_cmp (pf_to_lowercase P (t_title a)) (pf_to_lowercase P (t_title b))))
       (recent_then_id a b)"
| "ticket_cmp P SortConfidence d a b =
     ord_then (directed d (ord_cmp (ticket_confidence_rank a) (ticket_confidence_rank b)))
       (recent_then_id a b)"

definition sort_tickets :: "platform \<Rightarrow> sort_key \<Rightarrow> bool \<Rightarrow> ticket list \<Rightarrow> ticket list" where
  "sort_tickets P key descending ts = sort_by (ticket_cmp P key descending) ts"

text \<open>The rows after the cursor row; none when the cursor is gone.\<close>

fun after_cursor :: "ulid \<Rightarrow> ticket list \<Rightarrow> ticket list" where
  "after_cursor cursor [] = []"
| "after_cursor cursor (t # ts) = (if t_id t = cursor then ts else after_cursor cursor ts)"

definition after_key_filter :: "platform \<Rightarrow> ticket_query \<Rightarrow> ticket \<Rightarrow> bool" where
  "after_key_filter P q t =
     is_none_or (q_after_key q) (\<lambda>after.
       compare_keys (q_sort q) (q_descending q) (merge_key_of P (ak_connection_id after) t)
         (ak_key after) = Greater)"

definition query_page :: "platform \<Rightarrow> ticket_query \<Rightarrow> ticket list \<Rightarrow> ticket list" where
  "query_page P q tickets =
     (let rows = sort_tickets P (q_sort q) (q_descending q)
                   (filter (after_key_filter P q) (filter (query_matches P q) tickets));
          rows = (case q_page_after q of None \<Rightarrow> rows | Some cursor \<Rightarrow> after_cursor cursor rows)
      in case q_limit q of None \<Rightarrow> rows | Some n \<Rightarrow> take n rows)"

definition query :: "platform \<Rightarrow> fs_store \<Rightarrow> ticket_query \<Rightarrow> store_error + ticket list" where
  "query P s q = result_bind (list_tickets P s) (\<lambda>ts. Inr (query_page P q ts))"

subsection \<open>Bounded reads\<close>

datatype store_read_bound_error = LimitTooLarge | TooManyRows

definition STORE_READ_MAX_ROWS :: nat where "STORE_READ_MAX_ROWS = CHECKOUT_READ_MAX_ROWS"

datatype store_read_bound = StoreReadBound (explicit_limit: "nat option")

definition read_bound_new :: "nat option \<Rightarrow> store_read_bound_error + store_read_bound" where
  "read_bound_new limit =
     (if is_some_and limit (\<lambda>l. l > STORE_READ_MAX_ROWS) then Inl LimitTooLarge
      else Inr (StoreReadBound limit))"

definition fetch_limit :: "store_read_bound \<Rightarrow> nat" where
  "fetch_limit b = unwrap_or (explicit_limit b) STORE_READ_MAX_ROWS + 1"

text \<open>\<open>finish\<close> truncates the rows in place: the flag and the rows left.\<close>

definition read_bound_finish ::
  "store_read_bound \<Rightarrow> 'a list \<Rightarrow> store_read_bound_error + (bool \<times> 'a list)" where
  "read_bound_finish b rows =
     (let cap = unwrap_or (explicit_limit b) STORE_READ_MAX_ROWS in
      if length rows \<le> cap then Inr (False, rows)
      else if explicit_limit b = None then Inl TooManyRows
      else Inr (True, take cap rows))"

subsection \<open>Resolution\<close>

definition resolve :: "platform \<Rightarrow> fs_store \<Rightarrow> string \<Rightarrow> store_error + ticket option" where
  "resolve P s needle =
     (case pf_ulid_from_string P needle of
        Some i \<Rightarrow>
          (case read_ticket P s i of
             Inr t \<Rightarrow> Inr (Some t)
           | Inl e \<Rightarrow> if is_io_kind e NotFound then Inr None else Inl e)
      | None \<Rightarrow> find_ticket_by_slug P s needle)"

subsection \<open>The orders are total and agree with the keyset order\<close>

lemma total_recent_then_id: "total_cmp recent_then_id ok"
  unfolding recent_then_id_def by (rule total_cmp_then total_cmp_flip[OF total_cmp_key] total_cmp_key)+

lemma total_ticket_cmp: "total_cmp (ticket_cmp P k d) ok"
proof -
  have "total_cmp (\<lambda>a b. ticket_cmp P k d a b) ok"
    by (cases k) (simp_all only: ticket_cmp.simps total_cmp_then total_cmp_directed total_cmp_key
        total_recent_then_id)
  then show ?thesis .
qed

lemma ticket_cmp_id: "ticket_cmp P k d a b = Equal \<Longrightarrow> t_id a = t_id b"
  by (cases k) (simp_all add: ord_then_iff recent_then_id_def)

interpretation tq: strict_total_cmp "ticket_cmp P k d" "\<lambda>_. True" t_id for P k d
  using total_ticket_cmp[of P k d "\<lambda>_. True"]
  by (simp add: strict_total_cmp_def strict_total_cmp_axioms_def ticket_cmp_id)

lemma wire_priority_rank_wire: "wire_priority_rank (Some (priority_wire p)) = priority_rank p"
  by (cases p) (simp_all add: wire_priority_rank_def)

lemma wire_status_rank_wire: "wire_status_rank (Some (status_wire s)) = status_code s"
  by (cases s) (simp_all add: wire_status_rank_def)

lemma directed_then: "directed d (ord_then a b) = ord_then (directed d a) (directed d b)"
  by (cases d) (simp_all add: ord_reverse_then)

lemma directed_Equal [simp]: "directed d Equal = Equal"
  by simp

lemma ord_then_same [simp]: "ord_then a a = a"
  by (cases a) simp_all

lemma compare_keys_agrees:
  assumes "ulid_text_order P" "k \<noteq> SortTitle"
  shows "compare_keys k d (merge_key_of P c a) (merge_key_of P c b) = ticket_cmp P k d a b"
proof -
  have ids: "ord_cmp (pf_ulid_to_string P i) (pf_ulid_to_string P j) = ord_cmp i j" for i j
    using assms(1) by (simp add: ulid_text_order_def)
  show ?thesis
    using assms(2)
    by (cases k) (simp_all add: merge_key_of_def Let_def by_identity_def recent_first_def
        recent_then_id_def ids wire_priority_rank_wire wire_status_rank_wire directed_then
        ticket_confidence_rank_def)
qed

end
