(* ===== verification/Str_Facts.thy ===== *)
theory Str_Facts
  imports Rust_Str
begin

text \<open>
  Facts on the byte-string operations that the file-format proofs share: decimal numbers,
  white space at line and token boundaries, splitting a text into tokens and lines.
\<close>

subsection \<open>Decimal numbers\<close>

lemma show_nat_digits: "list_all is_ascii_digit (show_nat n)"
proof (induction n rule: show_nat.induct)
  case (1 n)
  have "is_ascii_digit (char_of (48 + d))" if "d < 10" for d :: nat
    using that by (simp add: is_ascii_digit_def Let_def)
  with 1 show ?case by (subst show_nat.simps) simp
qed

lemma show_nat_nonempty [simp]: "show_nat n \<noteq> []"
  by (subst show_nat.simps) simp

lemma parse_digits_show_nat [simp]: "parse_digits (show_nat n) = Some n"
proof -
  have "foldl (\<lambda>n c. 10 * n + digit_value c) 0 (show_nat n) = n"
  proof (induction n rule: show_nat.induct)
    case (1 n)
    then show ?case by (subst show_nat.simps) (auto simp: digit_value_def)
  qed
  then show ?thesis using show_nat_digits[of n] by (simp add: parse_digits_def)
qed

subsection \<open>White space at line and token boundaries\<close>

text \<open>A blank or a newline cannot be part of a wide white-space character.\<close>

lemma ws_len_stop:
  assumes "c = CHR 10 \<or> c = CHR 32"
  shows "l \<noteq> [] \<Longrightarrow> ws_len (l @ c # r) = ws_len l"
  using assms
  by (cases l rule: ws_len.cases; cases r) (auto simp: wide_ws2_def wide_ws3_def)

lemma ws_len_rev_stop:
  assumes "c = CHR 10 \<or> c = CHR 32"
  shows "l \<noteq> [] \<Longrightarrow> ws_len_rev (l @ c # r) = ws_len_rev l"
  using assms
  by (cases l rule: ws_len_rev.cases; cases r) (auto simp: wide_ws2_def wide_ws3_def)

lemma ws_len_nl [simp]: "ws_len (CHR 10 # s) = 1" "ws_len_rev (CHR 10 # s) = 1"
  by (cases "CHR 10 # s" rule: ws_len.cases; simp add: ascii_ws_def)
    (cases "CHR 10 # s" rule: ws_len_rev.cases; simp add: ascii_ws_def)

lemma trim_start_nl [simp]: "trim_start (CHR 10 # s) = trim_start s"
  by (subst trim_start.simps) simp

lemma trim_end_nl [simp]: "trim_end (s @ [CHR 10]) = trim_end s"
  by (simp add: trim_end_def trim_end_rev.simps[of "CHR 10 # rev s"])

lemma trim_nl_left [simp]: "trim (CHR 10 # s) = trim s"
  by (simp add: trim_def)

text \<open>A text \<open>trim\<close> leaves alone, not empty.\<close>

definition trimmed :: "string \<Rightarrow> bool" where
  "trimmed s = (s \<noteq> [] \<and> ws_len s = 0 \<and> ws_len_rev (rev s) = 0)"

lemma trimmed_trim: "trimmed s \<Longrightarrow> trim s = s"
  by (simp add: trimmed_def trim_id)

lemma trimmed_iff: "trimmed s \<longleftrightarrow> s \<noteq> [] \<and> trim s = s"
  by (metis trimmed_def trim_id ws_len_trim ws_len_rev_trim)

lemma trim_nl_right: "trimmed s \<Longrightarrow> trim (s @ [CHR 10]) = s"
  using ws_len_stop[of "CHR 10" s "[]"]
  by (simp add: trimmed_def trim_def trim_start_id trim_end_id)

lemma trimmed_lines:
  assumes "trimmed a" "trimmed b"
  shows "trimmed (a @ CHR 10 # m @ CHR 10 # b)" "trimmed (a @ CHR 10 # b)"
  using assms ws_len_stop[of "CHR 10" a] ws_len_rev_stop[of "CHR 10" "rev b"]
  by (auto simp: trimmed_def)

text \<open>A token: not empty and free of white space at every position.\<close>

fun ws_free :: "string \<Rightarrow> bool" where
  "ws_free [] = True"
| "ws_free (c # cs) = (ws_len (c # cs) = 0 \<and> ws_free cs)"

abbreviation token :: "string \<Rightarrow> bool" where
  "token t \<equiv> t \<noteq> [] \<and> ws_free t"

lemma split_ws_token:
  "ws_free t \<Longrightarrow> r = [] \<or> hd r = CHR 32 \<Longrightarrow>
     split_ws_aux acc (t @ r) = split_ws_aux (acc @ t) r"
proof (induction t arbitrary: acc)
  case Nil
  then show ?case by simp
next
  case (Cons c t)
  then have c: "ws_len (c # t) = 0" "ws_free t" by auto
  have "ws_len ((c # t) @ r) = 0"
    using Cons.prems(2) c(1) ws_len_stop[of "CHR 32" "c # t" "tl r"] by (cases r) auto
  then have "split_ws_aux acc ((c # t) @ r) = split_ws_aux (acc @ [c]) (t @ r)"
    by (subst split_ws_aux.simps) simp
  with Cons.IH[OF c(2) Cons.prems(2)] show ?case by simp
qed

lemma ws_len_blank [simp]: "ws_len (CHR 32 # s) = 1"
  by (cases "CHR 32 # s" rule: ws_len.cases; simp add: ascii_ws_def)

lemma split_whitespace_join:
  "list_all token ts \<Longrightarrow> split_whitespace (join '' '' ts) = ts"
proof -
  have "list_all token ts \<Longrightarrow> split_ws_aux [] (join '' '' ts) = ts"
  proof (induction ts rule: induct_list012)
    case 1
    then show ?case by (simp add: split_ws_aux.simps)
  next
    case (2 t)
    then show ?case using split_ws_token[of t "[]" "[]"]
      by (simp add: split_ws_aux.simps[of t "[]"])
  next
    case (3 t u ts)
    then have t: "token t" "t \<noteq> []" by auto
    have "split_ws_aux [] (t @ CHR 32 # join '' '' (u # ts)) =
        split_ws_aux t (CHR 32 # join '' '' (u # ts))"
      using split_ws_token[of t "CHR 32 # join '' '' (u # ts)" "[]"] t by simp
    also have "\<dots> = t # split_ws_aux [] (join '' '' (u # ts))"
      using t by (subst split_ws_aux.simps) simp
    finally show ?case using 3 by simp
  qed
  then show "list_all token ts \<Longrightarrow> split_whitespace (join '' '' ts) = ts"
    by (simp add: split_whitespace_def)
qed

subsection \<open>Lines\<close>

text \<open>
  The lines of a text: none contains a newline, the last is not empty, and no other ends in a
  carriage return.  Such lists are the values of \<open>lines\<close>, and joining them is its inverse.
\<close>

definition line_list :: "string list \<Rightarrow> bool" where
  "line_list ls =
     (ls \<noteq> [] \<and> last ls \<noteq> [] \<and> list_all (\<lambda>l. CHR 10 \<notin> set l) ls
      \<and> list_all (\<lambda>l. l = [] \<or> last l \<noteq> CHR 13) (butlast ls))"

definition crlf_free :: "string \<Rightarrow> bool" where
  "crlf_free t = (\<not> contains_sub [CHR 13, CHR 10] t)"

lemma join_Cons: "join sep (x # xs) = x @ (if xs = [] then [] else sep @ join sep xs)"
  by (cases xs) simp_all

lemma line_list_Cons:
  "line_list (l # ls) \<longleftrightarrow> CHR 10 \<notin> set l \<and>
     (if ls = [] then l \<noteq> [] else (l = [] \<or> last l \<noteq> CHR 13) \<and> line_list ls)"
  by (auto simp: line_list_def)

lemma line_of_simps:
  "CHR 10 \<notin> set l \<Longrightarrow> line_of l = l"
  "l = [] \<or> last l \<noteq> CHR 13 \<Longrightarrow> line_of (l @ [CHR 10]) = l"
proof -
  assume "CHR 10 \<notin> set l"
  then have "strip_suffix nl l = None"
    by (cases "strip_suffix nl l") (auto simp: strip_suffix_Some nl_def)
  then show "line_of l = l" by (simp add: line_of_def)
next
  assume "l = [] \<or> last l \<noteq> CHR 13"
  then have "strip_suffix [CHR 13] l = None"
    by (cases "strip_suffix [CHR 13] l") (auto simp: strip_suffix_Some)
  then show "line_of (l @ [CHR 10]) = l"
    using strip_suffix_append[of nl l] by (simp add: line_of_def nl_def)
qed

lemma lines_Cons_nl:
  "CHR 10 \<notin> set l \<Longrightarrow> lines (l @ CHR 10 # s) = line_of (l @ [CHR 10]) # lines s"
  by (simp add: lines_def split_inclusive_nl_append_line)

lemma lines_join: "line_list ls \<Longrightarrow> lines (join nl ls) = ls"
proof (induction ls)
  case Nil
  then show ?case by (simp add: line_list_def)
next
  case (Cons l ls)
  show ?case
  proof (cases "ls = []")
    case True
    with Cons.prems show ?thesis
      by (simp add: line_list_Cons lines_def split_inclusive_nl_single line_of_simps)
  next
    case False
    then have "join nl (l # ls) = l @ CHR 10 # join nl ls" by (simp add: join_Cons nl_def)
    with Cons False show ?thesis by (simp add: line_list_Cons lines_Cons_nl line_of_simps)
  qed
qed

lemma join_split_char: "join [c] (split_char c t) = t"
proof (induction t)
  case (Cons x t)
  then show ?case
    by (cases "split_char c t") (auto simp: join_Cons split: if_splits)
qed simp

lemma split_char_pieces: "split_char c t \<noteq> [] \<and> list_all (\<lambda>p. c \<notin> set p) (split_char c t)"
  by (induction t) (auto split: list.splits)

lemma last_join: "ls \<noteq> [] \<Longrightarrow> last ls = [] \<Longrightarrow> join nl ls = [] \<or> last (join nl ls) = CHR 10"
  by (induction ls) (auto simp: join_Cons nl_def split: if_splits)

lemma crlf_free_join:
  "list_all (\<lambda>l. CHR 10 \<notin> set l) ls \<Longrightarrow> crlf_free (join nl ls) \<Longrightarrow>
     list_all (\<lambda>l. l = [] \<or> last l \<noteq> CHR 13) (butlast ls)"
proof (induction ls)
  case (Cons l ls)
  show ?case
  proof (cases "ls = []")
    case False
    have j: "join nl (l # ls) = l @ CHR 10 # join nl ls" using False by (simp add: join_Cons nl_def)
    have "l = [] \<or> last l \<noteq> CHR 13"
    proof (rule ccontr)
      assume "\<not> ?thesis"
      then have "l = butlast l @ [CHR 13]" by (metis append_butlast_last_id)
      then have "join nl (l # ls) = butlast l @ [CHR 13, CHR 10] @ join nl ls" using j by simp
      then show False using Cons.prems(2) unfolding crlf_free_def contains_sub_iff by metis
    qed
    moreover have "crlf_free (join nl ls)"
      using Cons.prems(2) unfolding crlf_free_def contains_sub_iff j by (metis append.assoc append_Cons)
    ultimately show ?thesis using Cons False by simp
  qed simp
qed simp

lemma text_lines:
  assumes "t \<noteq> []" "last t \<noteq> CHR 10" "crlf_free t"
  shows "line_list (lines t) \<and> join nl (lines t) = t"
proof -
  let ?ls = "split_char (CHR 10) t"
  have j: "join nl ?ls = t" using join_split_char[of "CHR 10" t] by (simp add: nl_def)
  have "line_list ?ls"
    using split_char_pieces[of "CHR 10" t] last_join[of ?ls] crlf_free_join[of ?ls] assms j
    by (auto simp: line_list_def)
  then show ?thesis using lines_join[of ?ls] j by simp
qed

lemma trimmed_last: "trimmed t \<Longrightarrow> last t \<noteq> CHR 10"
  by (cases t rule: rev_cases) (auto simp: trimmed_def)

text \<open>Splitting off complete lines.\<close>

lemma split_inclusive_nl_lines:
  "list_all (\<lambda>l. CHR 10 \<notin> set l) ls \<Longrightarrow>
     split_inclusive_nl (concat (map (\<lambda>l. l @ [CHR 10]) ls) @ r)
       = map (\<lambda>l. l @ [CHR 10]) ls @ split_inclusive_nl r"
  by (induction ls) (simp_all add: split_inclusive_nl_append_line)

lemma join_nl_concat: "ls \<noteq> [] \<Longrightarrow> join nl ls @ [CHR 10] = concat (map (\<lambda>l. l @ [CHR 10]) ls)"
  by (induction ls) (auto simp: join_Cons nl_def)

lemma crlf_to_lf_id: "crlf_free t \<Longrightarrow> crlf_to_lf t = t"
proof (induction t rule: crlf_to_lf.induct)
  case (3 c d cs)
  have nc: "\<not> (c = CHR 13 \<and> d = CHR 10)"
  proof
    assume "c = CHR 13 \<and> d = CHR 10"
    then have "c # d # cs = [] @ [CHR 13, CHR 10] @ cs" by simp
    then show False using 3(3) unfolding crlf_free_def contains_sub_iff by blast
  qed
  have "crlf_free (d # cs)"
    using 3(3) unfolding crlf_free_def contains_sub_iff by (metis append_Cons)
  then show ?case using 3(2) nc by simp
qed simp_all

subsection \<open>Text without white space\<close>

lemma ws_free_ascii:
  "list_all (\<lambda>c. of_char c < (128 :: nat) \<and> \<not> ascii_ws c) s \<Longrightarrow> ws_free s"
proof (induction s)
  case (Cons c s)
  then have "ws_len (c # s) = 0"
    by (cases "c # s" rule: ws_len.cases) (auto simp: wide_ws2_def wide_ws3_def)
  with Cons show ?case by simp
qed simp

lemma ws_free_digits: "list_all is_ascii_digit s \<Longrightarrow> ws_free s"
proof (induction s)
  case (Cons c s)
  then have "ws_len (c # s) = 0"
    by (cases "c # s" rule: ws_len.cases)
      (auto simp: is_ascii_digit_def Let_def ascii_ws_def wide_ws2_def wide_ws3_def)
  with Cons show ?case by simp
qed simp

lemma ws_free_suffix: "ws_free (a @ b) \<Longrightarrow> ws_free b"
  by (induction a) auto

lemma ws_free_rev: "ws_free s \<Longrightarrow> ws_len_rev (rev s) = 0"
proof (cases "rev s" rule: ws_len_rev.cases)
  case (4 e d c cs)
  assume "ws_free s"
  moreover have "s = rev cs @ [c, d, e]" using 4 by (metis append.assoc append_Cons append_Nil rev.simps(2) rev_rev_ident)
  ultimately have "ws_free [c, d, e]" using ws_free_suffix by metis
  with 4 show ?thesis by (auto split: if_splits)
next
  case (3 d c)
  assume "ws_free s"
  moreover have "s = [c, d]" using 3 by (metis append_Cons append_Nil rev.simps(2) rev_rev_ident rev.simps(1))
  ultimately show ?thesis by (auto split: if_splits)
next
  case (2 c)
  assume "ws_free s"
  moreover have "s = [c]" using 2 by (metis rev_singleton_conv)
  ultimately show ?thesis by (auto split: if_splits)
qed simp

lemma ws_free_trim: "ws_free s \<Longrightarrow> trim s = s"
  using ws_free_rev[of s] by (cases s) (auto intro: trim_id)

lemma find_sub_split:
  assumes "find_sub p s = Some i"
  shows "s = take i s @ p @ drop (i + length p) s"
proof -
  obtain t where t: "s = take i s @ p @ t" "length (take i s) = i" using find_sub_Some[OF assms] by blast
  have "drop (i + length p) s = t" using t by (metis append_assoc append_eq_conv_conj length_append)
  with t show ?thesis by simp
qed

lemma split_once_Some: "split_once p s = Some (a, b) \<Longrightarrow> s = a @ p @ b"
  using find_sub_split by (auto simp: split_once_def)

end
