(* ===== verification/Project_Settings.thy ===== *)
theory Project_Settings
  imports Ticket_Store Str_Facts
begin

text \<open>
  Settings in three scopes (\<open>settings.rs\<close>): a machine-wide file, a committed project file and a
  local project file, each a JSON object with a schema marker, with read-through of the files older
  releases left beside the ticket stores.  The file system is a record of file texts; JSON printing
  and parsing, the environment and path resolution are parameters.
\<close>

subsection \<open>JSON values and files\<close>

datatype json_number = NumInt int | NumFloat string

datatype json =
    JNull
  | JBool bool
  | JNumber json_number
  | JString string
  | JArray "json list"
  | JObject "(string \<times> json) list"

type_synonym json_map = "(string \<times> json) list"

definition as_u64 :: "json \<Rightarrow> nat option" where
  "as_u64 v = (case v of JNumber (NumInt n) \<Rightarrow> if 0 \<le> n \<and> n < 2 ^ 64 then Some (nat n) else None | _ \<Rightarrow> None)"

definition as_object :: "json \<Rightarrow> json_map option" where
  "as_object v = (case v of JObject m \<Rightarrow> Some m | _ \<Rightarrow> None)"

abbreviation map_insert :: "string \<Rightarrow> json \<Rightarrow> json_map \<Rightarrow> json_map" where
  "map_insert k v m \<equiv> btree_entry k (\<lambda>_. v) m"

abbreviation map_remove :: "string \<Rightarrow> json_map \<Rightarrow> json_map" where
  "map_remove k m \<equiv> filter (\<lambda>e. fst e \<noteq> k) m"

text \<open>Why a JSON value or text is refused: not JSON, not of the expected type, or a message of
  the code.\<close>

datatype json_fault = JsonSyntax string | JsonType | JsonMessage string

datatype settings_error =
    SettingsIo string io_kind
  | SettingsParse string json_fault
  | SettingsInvalid string json_fault
  | SettingsUpgradeRequired string string nat
  | SettingsBlocked string

text \<open>\<open>SettingsBlocked\<close> is no error of the code: the process waits forever for a lock that it holds
  itself through another handle.  \<open>sf_no_dir\<close> lists the files whose directory cannot be created.\<close>

record settings_fs =
  sf_files :: "(string \<times> string) list"
  sf_unreadable :: "string list"
  sf_unwritable :: "string list"
  sf_no_dir :: "string list"

definition read_bytes :: "settings_fs \<Rightarrow> string \<Rightarrow> io_kind + string" where
  "read_bytes fs path =
     (if path \<in> set (sf_unreadable fs) then Inl OtherIo
      else case map_of (sf_files fs) path of None \<Rightarrow> Inl NotFound | Some t \<Rightarrow> Inr t)"

definition read_to_string :: "settings_fs \<Rightarrow> string \<Rightarrow> io_kind + string" where
  "read_to_string fs path =
     (case read_bytes fs path of Inl e \<Rightarrow> Inl e | Inr t \<Rightarrow> if valid_utf8 t then Inr t else Inl OtherIo)"

definition is_file :: "settings_fs \<Rightarrow> string \<Rightarrow> bool" where
  "is_file fs path = is_some (map_of (sf_files fs) path)"

definition fs_write :: "settings_fs \<Rightarrow> string \<Rightarrow> string \<Rightarrow> (settings_error + unit) \<times> settings_fs" where
  "fs_write fs path t =
     (if path \<in> set (sf_unwritable fs) then (Inl (SettingsIo path OtherIo), fs)
      else (Inr (), fs\<lparr>sf_files := AList.update path t (sf_files fs)\<rparr>))"

definition path_join :: "string \<Rightarrow> string \<Rightarrow> string" where
  "path_join a b =
     (if starts_with ''/'' b \<or> a = [] then b else if ends_with ''/'' a then a @ b else a @ ''/'' @ b)"

subsection \<open>Scopes and paths\<close>

definition SETTINGS_SCHEMA_KEY :: string where "SETTINGS_SCHEMA_KEY = ''$hotsheetSchema''"
definition SETTINGS_SCHEMA_VERSION :: nat where "SETTINGS_SCHEMA_VERSION = 1"
definition SETTINGS_DIR :: string where "SETTINGS_DIR = ''.hotsheet2''"
definition LEGACY_PROJECT_SETTINGS_DIR :: string where "LEGACY_PROJECT_SETTINGS_DIR = ''.hotsheet''"
definition LEGACY_SHARED_FILE :: string where "LEGACY_SHARED_FILE = ''hotsheet-settings.json''"
definition LEGACY_LOCAL_FILE :: string where "LEGACY_LOCAL_FILE = ''hotsheet-settings.local.json''"
definition TRASH_CLEANUP_DAYS_SETTING :: string where "TRASH_CLEANUP_DAYS_SETTING = ''trash_cleanup_days''"
definition DEFAULT_TRASH_CLEANUP_DAYS :: nat where "DEFAULT_TRASH_CLEANUP_DAYS = 30"
definition COMMAND_GROUPS_KEY :: string where "COMMAND_GROUPS_KEY = ''command_groups''"

datatype scope = GlobalScope | SharedScope | LocalScope

definition file_name :: "scope \<Rightarrow> string" where
  "file_name sc = (case sc of LocalScope \<Rightarrow> ''settings.local.json'' | _ \<Rightarrow> ''settings.json'')"

definition legacy_file_name :: "scope \<Rightarrow> string option" where
  "legacy_file_name sc =
     (case sc of GlobalScope \<Rightarrow> None | SharedScope \<Rightarrow> Some LEGACY_SHARED_FILE | LocalScope \<Rightarrow> Some LEGACY_LOCAL_FILE)"

definition scope_label :: "scope \<Rightarrow> string" where
  "scope_label sc =
     (case sc of GlobalScope \<Rightarrow> ''global'' | SharedScope \<Rightarrow> ''shared'' | LocalScope \<Rightarrow> ''local'')"

text \<open>The surroundings: environment variables, the temporary directory, the resolution of a path
  to its canonical form, and the JSON library's parser, pretty printer and display.\<close>

record settings_env =
  hv_hotsheet_home :: "string option"
  hv_home :: "string option"
  hv_temp_dir :: string
  hv_canonical :: "string \<Rightarrow> io_kind + string"
  hv_parse :: "string \<Rightarrow> string + json"
  hv_pretty :: "json \<Rightarrow> string option"
  hv_display :: "json \<Rightarrow> string"

definition hotsheet_home :: "settings_env \<Rightarrow> string" where
  "hotsheet_home E =
     (case hv_hotsheet_home E of
        Some h \<Rightarrow> h
      | None \<Rightarrow> path_join (unwrap_or (hv_home E) (hv_temp_dir E)) ''.hotsheet2'')"

record settings =
  se_project_root :: string
  se_legacy_roots :: "string list"
  se_project_owned :: bool
  se_global_home :: "string option"

definition settings_new :: "string \<Rightarrow> settings" where
  "settings_new store_root =
     \<lparr>se_project_root = store_root, se_legacy_roots = [], se_project_owned = False, se_global_home = None\<rparr>"

definition for_project :: "string \<Rightarrow> settings" where
  "for_project root =
     \<lparr>se_project_root = root, se_legacy_roots = [root], se_project_owned = True, se_global_home = None\<rparr>"

definition with_legacy_stores :: "string \<Rightarrow> string list \<Rightarrow> settings" where
  "with_legacy_stores root stores =
     \<lparr>se_project_root = root,
      se_legacy_roots = fold (\<lambda>s roots. if s \<in> set roots then roots else roots @ [s]) stores [root],
      se_project_owned = True, se_global_home = None\<rparr>"

definition with_global_home :: "string \<Rightarrow> string \<Rightarrow> settings" where
  "with_global_home root home = (settings_new root)\<lparr>se_global_home := Some home\<rparr>"

definition for_project_with_global_home :: "string \<Rightarrow> string \<Rightarrow> settings" where
  "for_project_with_global_home root home = (for_project root)\<lparr>se_global_home := Some home\<rparr>"

definition settings_path :: "settings_env \<Rightarrow> settings \<Rightarrow> scope \<Rightarrow> string" where
  "settings_path E S sc =
     (if sc = GlobalScope then path_join (unwrap_or (se_global_home S) (hotsheet_home E)) (file_name GlobalScope)
      else if se_project_owned S then path_join (path_join (se_project_root S) SETTINGS_DIR) (file_name sc)
      else path_join (se_project_root S) (the (legacy_file_name sc)))"

text \<open>The lock of a scope is the canonical path of its file; \<open>held\<close> are the locks this process holds.\<close>

definition lock_scope :: "settings_env \<Rightarrow> settings \<Rightarrow> string list \<Rightarrow> scope \<Rightarrow> settings_error + string" where
  "lock_scope E S held sc =
     (case hv_canonical E (settings_path E S sc) of
        Inl e \<Rightarrow> Inl (SettingsIo (settings_path E S sc) e)
      | Inr p \<Rightarrow> if p \<in> set held then Inl (SettingsBlocked p) else Inr p)"

subsection \<open>Reading\<close>

definition parse_settings :: "settings_env \<Rightarrow> string \<Rightarrow> string \<Rightarrow> settings_error + json" where
  "parse_settings E path t =
     (case hv_parse E t of Inl e \<Rightarrow> Inl (SettingsParse path (JsonSyntax e)) | Inr v \<Rightarrow> Inr v)"

definition read_map :: "settings_env \<Rightarrow> settings_fs \<Rightarrow> string \<Rightarrow> scope \<Rightarrow> settings_error + json_map option" where
  "read_map E fs path sc =
     (case read_to_string fs path of
        Inl NotFound \<Rightarrow> Inr None
      | Inl e \<Rightarrow> Inl (SettingsIo path e)
      | Inr t \<Rightarrow>
          result_bind (parse_settings E path t) (\<lambda>value.
            let m = unwrap_or (as_object value) [] in
            case map_of m SETTINGS_SCHEMA_KEY of
              None \<Rightarrow> Inr (Some m)
            | Some version \<Rightarrow>
                if is_none_or (as_u64 version) (\<lambda>n. n > SETTINGS_SCHEMA_VERSION)
                then Inl (SettingsUpgradeRequired (scope_label sc) (hv_display E version) SETTINGS_SCHEMA_VERSION)
                else Inr (Some (map_remove SETTINGS_SCHEMA_KEY m))))"

definition schema_marker_at :: "settings_env \<Rightarrow> settings_fs \<Rightarrow> string \<Rightarrow> settings_error + bool" where
  "schema_marker_at E fs path =
     (case read_to_string fs path of
        Inl e \<Rightarrow> Inl (SettingsIo path e)
      | Inr t \<Rightarrow>
          result_bind (parse_settings E path t) (\<lambda>value.
            Inr (is_some (Option.bind (Option.bind (as_object value) (\<lambda>m. map_of m SETTINGS_SCHEMA_KEY)) as_u64))))"

definition legacy_project_path :: "settings \<Rightarrow> scope \<Rightarrow> string" where
  "legacy_project_path S sc =
     path_join (path_join (se_project_root S) LEGACY_PROJECT_SETTINGS_DIR) (file_name sc)"

definition legacy_project_map ::
  "settings_env \<Rightarrow> settings \<Rightarrow> settings_fs \<Rightarrow> scope \<Rightarrow> settings_error + json_map" where
  "legacy_project_map E S fs sc =
     (if se_project_owned S \<and> is_file fs (legacy_project_path S sc)
      then result_bind (schema_marker_at E fs (legacy_project_path S sc)) (\<lambda>marked.
             if marked
             then result_bind (read_map E fs (legacy_project_path S sc) sc) (\<lambda>m.
                    Inr (fold (\<lambda>(k, v). map_insert k v) (unwrap_or m []) []))
             else Inr [])
      else Inr [])"

fun add_legacy_roots ::
  "settings_env \<Rightarrow> settings_fs \<Rightarrow> scope \<Rightarrow> string \<Rightarrow> string list \<Rightarrow> json_map \<Rightarrow> settings_error + json_map" where
  "add_legacy_roots E fs sc name [] merged = Inr merged"
| "add_legacy_roots E fs sc name (root # roots) merged =
     result_bind (read_map E fs (path_join root name) sc) (\<lambda>m.
       add_legacy_roots E fs sc name roots
         (fold (\<lambda>(k, v). btree_entry k (\<lambda>present. unwrap_or present v)) (unwrap_or m []) merged))"

definition legacy_map :: "settings_env \<Rightarrow> settings \<Rightarrow> settings_fs \<Rightarrow> scope \<Rightarrow> settings_error + json_map" where
  "legacy_map E S fs sc =
     (case legacy_file_name sc of
        None \<Rightarrow> Inr []
      | Some name \<Rightarrow>
          result_bind (legacy_project_map E S fs sc) (add_legacy_roots E fs sc name (se_legacy_roots S)))"

definition settings_map :: "settings_env \<Rightarrow> settings \<Rightarrow> settings_fs \<Rightarrow> scope \<Rightarrow> settings_error + json_map" where
  "settings_map E S fs sc =
     result_bind (read_map E fs (settings_path E S sc) sc) (\<lambda>m.
       case m of Some m \<Rightarrow> Inr m | None \<Rightarrow> legacy_map E S fs sc)"

definition settings_effective :: "settings_env \<Rightarrow> settings \<Rightarrow> settings_fs \<Rightarrow> settings_error + json_map" where
  "settings_effective E S fs =
     result_bind (settings_map E S fs GlobalScope) (\<lambda>g.
       result_bind (settings_map E S fs SharedScope) (\<lambda>s.
         let merged = fold (\<lambda>(k, v). map_insert k v) s g in
         result_bind (settings_map E S fs LocalScope) (\<lambda>l.
           Inr (fold (\<lambda>(k, v). map_insert k v) l merged))))"

definition settings_get ::
  "settings_env \<Rightarrow> settings \<Rightarrow> settings_fs \<Rightarrow> string \<Rightarrow> scope \<Rightarrow> settings_error + json option" where
  "settings_get E S fs key sc = result_bind (settings_map E S fs sc) (\<lambda>m. Inr (map_of m key))"

definition get_effective ::
  "settings_env \<Rightarrow> settings \<Rightarrow> settings_fs \<Rightarrow> string \<Rightarrow> settings_error + json option" where
  "get_effective E S fs key = result_bind (settings_effective E S fs) (\<lambda>m. Inr (map_of m key))"

subsection \<open>Validation\<close>

definition parse_trash_cleanup_days :: "json \<Rightarrow> settings_error + nat" where
  "parse_trash_cleanup_days value =
     (case as_u64 value of
        Some days \<Rightarrow>
          if days \<ge> 2 ^ 32 then Inl (SettingsInvalid TRASH_CLEANUP_DAYS_SETTING JsonType)
          else if days = 0
          then Inl (SettingsInvalid TRASH_CLEANUP_DAYS_SETTING (JsonMessage ''must be a positive whole number of days''))
          else Inr days
      | None \<Rightarrow> Inl (SettingsInvalid TRASH_CLEANUP_DAYS_SETTING JsonType))"

definition is_string_array :: "json \<Rightarrow> bool" where
  "is_string_array v =
     (case v of JArray vs \<Rightarrow> list_all (\<lambda>x. case x of JString _ \<Rightarrow> True | _ \<Rightarrow> False) vs | _ \<Rightarrow> False)"

definition validate_set_value :: "string \<Rightarrow> json \<Rightarrow> settings_error + unit" where
  "validate_set_value key value =
     result_bind (if key = TRASH_CLEANUP_DAYS_SETTING
                  then result_bind (parse_trash_cleanup_days value) (\<lambda>_. Inr ()) else Inr ()) (\<lambda>_.
       if key = COMMAND_GROUPS_KEY \<and> \<not> is_string_array value
       then Inl (SettingsInvalid key JsonType) else Inr ())"

definition trash_cleanup_days :: "settings_env \<Rightarrow> settings \<Rightarrow> settings_fs \<Rightarrow> settings_error + nat" where
  "trash_cleanup_days E S fs =
     result_bind (get_effective E S fs TRASH_CLEANUP_DAYS_SETTING) (\<lambda>v.
       case v of None \<Rightarrow> Inr DEFAULT_TRASH_CLEANUP_DAYS | Some v \<Rightarrow> parse_trash_cleanup_days v)"

subsection \<open>Writing\<close>

text \<open>The text of an ignore file with \<open>name\<close> listed in it.\<close>

definition ignore_lists :: "string \<Rightarrow> string \<Rightarrow> bool" where
  "ignore_lists name t = list_ex (\<lambda>l. trim l = name) (lines t)"

definition ignore_append :: "string \<Rightarrow> string \<Rightarrow> string" where
  "ignore_append name existing =
     (if existing \<noteq> [] \<and> \<not> ends_with nl existing then existing @ nl else existing) @ name @ nl"

definition gitignore_path :: "settings \<Rightarrow> string" where
  "gitignore_path S = path_join (se_project_root S) ''.gitignore''"

definition ensure_gitignored ::
  "settings \<Rightarrow> settings_fs \<Rightarrow> string \<Rightarrow> (settings_error + unit) \<times> settings_fs" where
  "ensure_gitignored S fs name =
     (let existing = (case read_to_string fs (gitignore_path S) of Inl _ \<Rightarrow> [] | Inr t \<Rightarrow> t)
      in if ignore_lists name existing then (Inr (), fs)
         else fs_write fs (gitignore_path S) (ignore_append name existing))"

definition ignored_name :: "settings \<Rightarrow> string" where
  "ignored_name S =
     (if se_project_owned S then SETTINGS_DIR @ ''/'' @ file_name LocalScope else LEGACY_LOCAL_FILE)"

definition persisted :: "json_map \<Rightarrow> json" where
  "persisted m = JObject (map_insert SETTINGS_SCHEMA_KEY (JNumber (NumInt (int SETTINGS_SCHEMA_VERSION))) m)"

definition settings_text :: "settings_env \<Rightarrow> json_map \<Rightarrow> string" where
  "settings_text E m = unwrap_or (hv_pretty E (persisted m)) ''{}'' @ nl"

definition settings_write ::
  "settings_env \<Rightarrow> settings \<Rightarrow> settings_fs \<Rightarrow> scope \<Rightarrow> json_map \<Rightarrow> (settings_error + unit) \<times> settings_fs" where
  "settings_write E S fs sc m =
     (let path = settings_path E S sc; t = settings_text E m in
      if path \<in> set (sf_no_dir fs) then (Inl (SettingsIo path OtherIo), fs)
      else case (if read_bytes fs path = Inr t then (Inr (), fs) else fs_write fs path t) of
          (Inl e, fs') \<Rightarrow> (Inl e, fs')
        | (Inr _, fs') \<Rightarrow>
            if sc = LocalScope then ensure_gitignored S fs' (ignored_name S) else (Inr (), fs'))"

text \<open>A result that ends the operation early leaves the files as they are.\<close>

definition or_fail ::
  "settings_fs \<Rightarrow> settings_error + 'a \<Rightarrow> ('a \<Rightarrow> (settings_error + 'b) \<times> settings_fs)
     \<Rightarrow> (settings_error + 'b) \<times> settings_fs" where
  "or_fail fs r f = (case r of Inl e \<Rightarrow> (Inl e, fs) | Inr x \<Rightarrow> f x)"

definition settings_set ::
  "settings_env \<Rightarrow> settings \<Rightarrow> settings_fs \<Rightarrow> string \<Rightarrow> json \<Rightarrow> scope \<Rightarrow> (settings_error + unit) \<times> settings_fs" where
  "settings_set E S fs key value sc =
     or_fail fs (validate_set_value key value) (\<lambda>_.
     or_fail fs (lock_scope E S [] sc) (\<lambda>_.
     or_fail fs (settings_map E S fs sc) (\<lambda>m.
       settings_write E S fs sc (map_insert key value m))))"

definition settings_set_if ::
  "settings_env \<Rightarrow> settings \<Rightarrow> settings_fs \<Rightarrow> string \<Rightarrow> json \<Rightarrow> scope \<Rightarrow> (json option \<Rightarrow> bool)
     \<Rightarrow> (settings_error + bool) \<times> settings_fs" where
  "settings_set_if E S fs key value sc matches =
     or_fail fs (validate_set_value key value) (\<lambda>_.
     or_fail fs (lock_scope E S [] GlobalScope) (\<lambda>g.
     or_fail fs (lock_scope E S [g] SharedScope) (\<lambda>s.
     or_fail fs (lock_scope E S [g, s] LocalScope) (\<lambda>_.
     or_fail fs (get_effective E S fs key) (\<lambda>current.
       if \<not> matches current then (Inr False, fs)
       else or_fail fs (settings_map E S fs sc) (\<lambda>m.
         (case settings_write E S fs sc (map_insert key value m) of
            (Inl e, fs') \<Rightarrow> (Inl e, fs')
          | (Inr _, fs') \<Rightarrow> (Inr True, fs'))))))))"

definition settings_unset ::
  "settings_env \<Rightarrow> settings \<Rightarrow> settings_fs \<Rightarrow> string \<Rightarrow> scope \<Rightarrow> (settings_error + bool) \<times> settings_fs" where
  "settings_unset E S fs key sc =
     or_fail fs (lock_scope E S [] sc) (\<lambda>_.
     or_fail fs (settings_map E S fs sc) (\<lambda>m.
       if map_of m key = None then (Inr False, fs)
       else (case settings_write E S fs sc (map_remove key m) of
               (Inl e, fs') \<Rightarrow> (Inl e, fs')
             | (Inr _, fs') \<Rightarrow> (Inr True, fs'))))"

fun root_schema_marked :: "settings_env \<Rightarrow> settings_fs \<Rightarrow> string \<Rightarrow> string list \<Rightarrow> settings_error + bool" where
  "root_schema_marked E fs name [] = Inr False"
| "root_schema_marked E fs name (root # roots) =
     (if is_file fs (path_join root name) then schema_marker_at E fs (path_join root name)
      else root_schema_marked E fs name roots)"

definition is_schema_marked :: "settings_env \<Rightarrow> settings \<Rightarrow> settings_fs \<Rightarrow> scope \<Rightarrow> settings_error + bool" where
  "is_schema_marked E S fs sc =
     (if is_file fs (settings_path E S sc) then schema_marker_at E fs (settings_path E S sc)
      else result_bind (if se_project_owned S \<and> is_file fs (legacy_project_path S sc)
                        then schema_marker_at E fs (legacy_project_path S sc) else Inr False) (\<lambda>marked.
             if marked then Inr True
             else case legacy_file_name sc of
                 None \<Rightarrow> Inr False
               | Some name \<Rightarrow> root_schema_marked E fs name (se_legacy_roots S)))"

definition replace_scope ::
  "settings_env \<Rightarrow> settings \<Rightarrow> settings_fs \<Rightarrow> scope \<Rightarrow> json_map \<Rightarrow> (settings_error + unit) \<times> settings_fs" where
  "replace_scope E S fs sc m = or_fail fs (lock_scope E S [] sc) (\<lambda>_. settings_write E S fs sc m)"

definition migrate_scope ::
  "settings_env \<Rightarrow> settings \<Rightarrow> settings_fs \<Rightarrow> scope \<Rightarrow> (settings_error + unit) \<times> settings_fs" where
  "migrate_scope E S fs sc =
     or_fail fs (lock_scope E S [] sc) (\<lambda>_.
     or_fail fs (settings_map E S fs sc) (\<lambda>m.
       if is_file fs (settings_path E S sc) \<or> m \<noteq> [] \<and> sc \<noteq> GlobalScope
       then settings_write E S fs sc m else (Inr (), fs)))"

fun migrate_scopes ::
  "settings_env \<Rightarrow> settings \<Rightarrow> settings_fs \<Rightarrow> scope list \<Rightarrow> (settings_error + unit) \<times> settings_fs" where
  "migrate_scopes E S fs [] = (Inr (), fs)"
| "migrate_scopes E S fs (sc # scs) =
     (case migrate_scope E S fs sc of
        (Inl e, fs') \<Rightarrow> (Inl e, fs')
      | (Inr _, fs') \<Rightarrow> migrate_scopes E S fs' scs)"

definition migrate_existing :: "settings_env \<Rightarrow> settings \<Rightarrow> settings_fs \<Rightarrow> (settings_error + unit) \<times> settings_fs" where
  "migrate_existing E S fs = migrate_scopes E S fs [GlobalScope, SharedScope, LocalScope]"

subsection \<open>What a scope depends on\<close>

definition scope_files :: "settings_env \<Rightarrow> settings \<Rightarrow> scope \<Rightarrow> string list" where
  "scope_files E S sc =
     settings_path E S sc
     # (case legacy_file_name sc of
          None \<Rightarrow> []
        | Some name \<Rightarrow> legacy_project_path S sc # map (\<lambda>r. path_join r name) (se_legacy_roots S))"

definition same_on :: "settings_fs \<Rightarrow> settings_fs \<Rightarrow> string \<Rightarrow> bool" where
  "same_on fs fs' p =
     (map_of (sf_files fs') p = map_of (sf_files fs) p
      \<and> (p \<in> set (sf_unreadable fs') \<longleftrightarrow> p \<in> set (sf_unreadable fs)))"

lemma same_on_reads:
  assumes "same_on fs fs' p"
  shows "read_bytes fs' p = read_bytes fs p" "read_to_string fs' p = read_to_string fs p"
    "is_file fs' p = is_file fs p" "read_map E fs' p sc = read_map E fs p sc"
    "schema_marker_at E fs' p = schema_marker_at E fs p"
  using assms
  by (simp_all add: same_on_def read_bytes_def read_to_string_def is_file_def read_map_def schema_marker_at_def
      cong: option.case_cong)

lemma same_on_roots:
  "list_all (\<lambda>r. same_on fs fs' (path_join r name)) roots \<Longrightarrow>
     add_legacy_roots E fs' sc name roots merged = add_legacy_roots E fs sc name roots merged"
  by (induction roots arbitrary: merged) (simp_all add: same_on_reads(4)[of fs fs'])

lemma settings_map_local:
  assumes "list_all (same_on fs fs') (scope_files E S sc)"
  shows "settings_map E S fs' sc = settings_map E S fs sc"
proof -
  note r = same_on_reads[of fs fs'] and roots = same_on_roots[of fs fs']
  have "legacy_map E S fs' sc = legacy_map E S fs sc"
  proof (cases "legacy_file_name sc")
    case (Some name)
    then have "same_on fs fs' (legacy_project_path S sc)" using assms by (simp add: scope_files_def)
    then have "legacy_project_map E S fs' sc = legacy_project_map E S fs sc"
      unfolding legacy_project_map_def by (simp only: r)
    moreover have "add_legacy_roots E fs' sc name (se_legacy_roots S) = add_legacy_roots E fs sc name (se_legacy_roots S)"
      using assms Some by (intro ext roots) (simp add: scope_files_def list_all_iff)
    ultimately show ?thesis using Some by (simp add: legacy_map_def)
  qed (simp add: legacy_map_def)
  moreover have "same_on fs fs' (settings_path E S sc)" using assms by (simp add: scope_files_def)
  ultimately show ?thesis unfolding settings_map_def by (simp only: r)
qed

subsection \<open>Maps of the scopes\<close>

text \<open>The JSON library keeps objects in key order.\<close>

definition parses_maps :: "settings_env \<Rightarrow> bool" where
  "parses_maps E = (\<forall>t m. hv_parse E t = Inr (JObject m) \<longrightarrow> key_sorted m)"

definition clean_map :: "json_map \<Rightarrow> bool" where
  "clean_map m = (key_sorted m \<and> map_of m SETTINGS_SCHEMA_KEY = None)"

lemma clean_Nil [simp]: "clean_map []"
  by (simp add: clean_map_def)

lemma map_of_remove: "map_of (map_remove k m) = (map_of m)(k := None)"
  by (induction m) (auto simp: fun_eq_iff)

lemma key_sorted_filter: "key_sorted m \<Longrightarrow> key_sorted (filter P m)"
  by (induction m) auto

lemma clean_remove: "key_sorted m \<Longrightarrow> clean_map (map_remove SETTINGS_SCHEMA_KEY m)"
  by (simp add: clean_map_def key_sorted_filter map_of_remove)

lemma clean_entry: "clean_map m \<Longrightarrow> k \<noteq> SETTINGS_SCHEMA_KEY \<Longrightarrow> clean_map (btree_entry k f m)"
  by (simp add: clean_map_def key_sorted_btree_entry map_of_btree_entry)

lemma clean_keys: "clean_map m \<Longrightarrow> (k, v) \<in> set m \<Longrightarrow> k \<noteq> SETTINGS_SCHEMA_KEY"
  by (force simp: clean_map_def map_of_eq_None_iff)

lemma clean_fold:
  "clean_map m \<Longrightarrow> (\<And>k v. (k, v) \<in> set n \<Longrightarrow> k \<noteq> SETTINGS_SCHEMA_KEY) \<Longrightarrow>
     clean_map (fold (\<lambda>(k, v). btree_entry k (f v)) n m)"
  by (induction n arbitrary: m) (auto intro!: clean_entry)

lemma clean_read:
  assumes "parses_maps E" "read_map E fs path sc = Inr (Some m)"
  shows "clean_map m"
proof -
  obtain t v where t: "read_to_string fs path = Inr t" and v: "hv_parse E t = Inr v"
    using assms(2) by (auto simp: read_map_def parse_settings_def split: sum.splits io_kind.splits)
  have "key_sorted (unwrap_or (as_object v) [])"
    using v assms(1) by (auto simp: parses_maps_def as_object_def split: json.splits)
  then show ?thesis using assms(2) t v
    by (auto simp: read_map_def parse_settings_def Let_def clean_remove
        split: option.splits if_splits intro!: clean_remove) (simp_all add: clean_map_def)
qed

lemma clean_roots:
  "parses_maps E \<Longrightarrow> clean_map merged \<Longrightarrow> add_legacy_roots E fs sc name roots merged = Inr m \<Longrightarrow> clean_map m"
proof (induction roots arbitrary: merged)
  case (Cons root roots)
  from Cons.prems(3) obtain x where x: "read_map E fs (path_join root name) sc = Inr x"
    and m: "add_legacy_roots E fs sc name roots
      (fold (\<lambda>(k, v). btree_entry k (\<lambda>present. unwrap_or present v)) (unwrap_or x []) merged) = Inr m"
    by (auto simp: result_bind_eq_Inr)
  have "clean_map (unwrap_or x [])" using clean_read[OF Cons.prems(1)] x by (cases x) auto
  then have "clean_map (fold (\<lambda>(k, v). btree_entry k (\<lambda>present. unwrap_or present v)) (unwrap_or x []) merged)"
    by (intro clean_fold[OF Cons.prems(2)]) (erule clean_keys)
  from Cons.IH[OF Cons.prems(1) this m] show ?case .
qed simp

lemma clean_settings_map:
  assumes "parses_maps E" "settings_map E S fs sc = Inr m"
  shows "clean_map m"
proof -
  have project: "clean_map n" if n: "legacy_project_map E S fs sc = Inr n" for n
  proof -
    have "clean_map (fold (\<lambda>(k, v). map_insert k v) (unwrap_or x []) [])"
      if "read_map E fs path sc = Inr x" for x path
    proof (rule clean_fold)
      have "clean_map (unwrap_or x [])" using clean_read[OF assms(1)] that by (cases x) auto
      then show "(k, v) \<in> set (unwrap_or x []) \<Longrightarrow> k \<noteq> SETTINGS_SCHEMA_KEY" for k v by (rule clean_keys)
    qed simp
    with n show ?thesis
      by (auto simp: legacy_project_map_def result_bind_eq_Inr split: if_splits)
  qed
  from assms(2) show ?thesis
    by (auto simp: settings_map_def legacy_map_def result_bind_eq_Inr
        dest: project clean_roots[OF assms(1), rotated] clean_read[OF assms(1)] split: option.splits)
qed

subsection \<open>Effects of a write\<close>

definition reads_back :: "settings_env \<Rightarrow> json_map \<Rightarrow> bool" where
  "reads_back E m =
     (valid_utf8 (settings_text E m) \<and> hv_parse E (settings_text E m) = Inr (persisted m))"

lemma fs_write_effect:
  assumes "fs_write fs path t = (r, fs')"
  shows "p \<noteq> path \<Longrightarrow> same_on fs fs' p" "sf_unreadable fs' = sf_unreadable fs"
    "r = Inl e \<Longrightarrow> fs' = fs" "r = Inr () \<Longrightarrow> map_of (sf_files fs') path = Some t"
  using assms by (auto simp: fs_write_def same_on_def update_conv' split: if_splits)

lemma ensure_gitignored_effect:
  assumes "ensure_gitignored S fs name = (r, fs')"
  shows "p \<noteq> gitignore_path S \<Longrightarrow> same_on fs fs' p" "r = Inl e \<Longrightarrow> fs' = fs"
proof -
  have "fs' = fs \<or> (\<exists>t. fs_write fs (gitignore_path S) t = (r, fs'))"
    using assms by (auto simp: ensure_gitignored_def Let_def split: if_splits)
  then show "p \<noteq> gitignore_path S \<Longrightarrow> same_on fs fs' p" "r = Inl e \<Longrightarrow> fs' = fs"
    using fs_write_effect[of fs "gitignore_path S" _ r fs'] by (auto simp: same_on_def)
qed

lemma settings_write_cases:
  assumes "settings_write E S fs sc m = (r, fs')"
  obtains e where "r = Inl e" "fs' = fs"
  | fs1 where "\<And>p. p \<noteq> settings_path E S sc \<Longrightarrow> same_on fs fs1 p"
      "sf_unreadable fs1 = sf_unreadable fs"
      "settings_path E S sc \<notin> set (sf_unreadable fs) \<Longrightarrow>
         read_bytes fs1 (settings_path E S sc) = Inr (settings_text E m)"
      "if sc = LocalScope then ensure_gitignored S fs1 (ignored_name S) = (r, fs') else r = Inr () \<and> fs' = fs1"
proof -
  let ?p = "settings_path E S sc" and ?t = "settings_text E m"
  let ?w = "if read_bytes fs ?p = Inr ?t then (Inr (), fs) else fs_write fs ?p ?t"
  obtain r1 fs1 where w: "?w = (r1, fs1)" by (meson surj_pair)
  show thesis
  proof (cases "?p \<in> set (sf_no_dir fs) \<or> (\<exists>e. r1 = Inl e)")
    case True
    then have "\<exists>e. r = Inl e \<and> fs' = fs"
      using assms w fs_write_effect(3)[of fs ?p ?t r1 fs1]
      by (auto simp: settings_write_def Let_def split: if_splits)
    then show thesis using that(1) by blast
  next
    case False
    then obtain u where u: "r1 = Inr u" by (cases r1) auto
    have step: "if sc = LocalScope then ensure_gitignored S fs1 (ignored_name S) = (r, fs') else r = Inr () \<and> fs' = fs1"
      using assms w u False by (auto simp: settings_write_def Let_def)
    have eff: "fs1 = fs \<and> read_bytes fs ?p = Inr ?t \<or> fs_write fs ?p ?t = (Inr (), fs1)"
      using w u by (auto split: if_splits)
    show thesis
    proof (rule that(2)[OF _ _ _ step])
      show "same_on fs fs1 p" if "p \<noteq> ?p" for p
        using eff fs_write_effect(1)[of fs ?p ?t "Inr ()" fs1 p] that by (auto simp: same_on_def)
      show "sf_unreadable fs1 = sf_unreadable fs"
        using eff fs_write_effect(2)[of fs ?p ?t "Inr ()" fs1] by auto
      show "read_bytes fs1 ?p = Inr ?t" if "?p \<notin> set (sf_unreadable fs)"
        using eff that fs_write_effect(2,4)[of fs ?p ?t "Inr ()" fs1] by (auto simp: read_bytes_def)
    qed
  qed
qed

lemma settings_read_back:
  assumes "read_bytes fs path = Inr (settings_text E m)" "reads_back E m" "clean_map m"
  shows "read_map E fs path sc = Inr (Some m)"
proof -
  let ?v = "JNumber (NumInt (int SETTINGS_SCHEMA_VERSION))"
  have s: "key_sorted m" and k: "map_of m SETTINGS_SCHEMA_KEY = None" using assms(3) by (simp_all add: clean_map_def)
  have i: "map_of (map_insert SETTINGS_SCHEMA_KEY ?v m) SETTINGS_SCHEMA_KEY = Some ?v"
    using s by (simp add: map_of_btree_entry)
  have "map_remove SETTINGS_SCHEMA_KEY (map_insert SETTINGS_SCHEMA_KEY ?v m) = m"
    by (rule key_sorted_map_of_eq)
      (use s k in \<open>auto simp: key_sorted_filter key_sorted_btree_entry map_of_remove map_of_btree_entry fun_eq_iff\<close>)
  with i assms(1,2) show ?thesis
    by (simp add: read_map_def read_to_string_def reads_back_def parse_settings_def persisted_def as_object_def
        as_u64_def SETTINGS_SCHEMA_VERSION_def)
qed

subsection \<open>Scopes as a map\<close>

definition settings_separate :: "settings_env \<Rightarrow> settings \<Rightarrow> bool" where
  "settings_separate E S =
     (let scopes = [GlobalScope, SharedScope, LocalScope] in
      list_all (\<lambda>a. gitignore_path S \<notin> set (scope_files E S a)
        \<and> list_all (\<lambda>b. a = b \<or> settings_path E S a \<notin> set (scope_files E S b)) scopes) scopes)"

lemma separateD:
  assumes "settings_separate E S"
  shows "gitignore_path S \<notin> set (scope_files E S a)"
    "a \<noteq> b \<Longrightarrow> settings_path E S a \<notin> set (scope_files E S b)"
  using assms by (cases a; cases b; simp add: settings_separate_def Let_def)+

definition views :: "settings_env \<Rightarrow> settings \<Rightarrow> settings_fs \<Rightarrow> scope \<Rightarrow> (string \<rightharpoonup> json) option" where
  "views E S fs sc = (case settings_map E S fs sc of Inl _ \<Rightarrow> None | Inr m \<Rightarrow> Some (map_of m))"

lemma write_other_scopes:
  assumes "settings_separate E S" "settings_write E S fs sc m = (r, fs')" "sc' \<noteq> sc"
  shows "settings_map E S fs' sc' = settings_map E S fs sc'"
  using assms(2)
proof (cases rule: settings_write_cases)
  case (2 fs1)
  have "same_on fs fs' p" if p: "p \<in> set (scope_files E S sc')" for p
  proof -
    have "p \<noteq> settings_path E S sc" "p \<noteq> gitignore_path S"
      using separateD[OF assms(1)] assms(3) p by metis+
    then show ?thesis using 2(1)[of p] 2(4) ensure_gitignored_effect(1)[of S fs1 "ignored_name S" r fs' p]
      by (auto simp: same_on_def split: if_splits)
  qed
  then show ?thesis by (intro settings_map_local) (simp add: list_all_iff)
qed simp

lemma map_readable: "settings_map E S fs sc = Inr m \<Longrightarrow> settings_path E S sc \<notin> set (sf_unreadable fs)"
  by (auto simp: settings_map_def read_map_def read_to_string_def read_bytes_def)

lemma write_own_scope:
  assumes "settings_separate E S" "settings_map E S fs sc = Inr m0" "settings_write E S fs sc m = (r, fs')"
    "reads_back E m" "clean_map m"
  shows "r = Inr () \<Longrightarrow> settings_map E S fs' sc = Inr m"
    "r = Inl e \<Longrightarrow> settings_map E S fs' sc = Inr m \<and> sc = LocalScope \<or> fs' = fs"
proof -
  have "settings_map E S fs' sc = Inr m \<and> (r = Inr () \<or> sc = LocalScope) \<or> (\<exists>e. r = Inl e) \<and> fs' = fs"
    using assms(3)
  proof (cases rule: settings_write_cases)
    case (2 fs1)
    have path: "settings_path E S sc \<noteq> gitignore_path S"
      using separateD(1)[OF assms(1), of sc] by (auto simp: scope_files_def)
    have "read_bytes fs' (settings_path E S sc) = Inr (settings_text E m)"
      using 2(3)[OF map_readable[OF assms(2)]] 2(4)
        same_on_reads(1)[OF ensure_gitignored_effect(1)[of S fs1 "ignored_name S" r fs', OF _ path]]
      by (auto split: if_splits)
    from settings_read_back[OF this assms(4,5)] have "settings_map E S fs' sc = Inr m" by (simp add: settings_map_def)
    moreover have "r = Inr () \<or> sc = LocalScope" using 2(4) by (auto split: if_splits)
    ultimately show ?thesis by blast
  qed auto
  then show "r = Inr () \<Longrightarrow> settings_map E S fs' sc = Inr m"
    "r = Inl e \<Longrightarrow> settings_map E S fs' sc = Inr m \<and> sc = LocalScope \<or> fs' = fs" by auto
qed

definition effective_view :: "(scope \<Rightarrow> (string \<rightharpoonup> json) option) \<Rightarrow> string \<Rightarrow> json option" where
  "effective_view V k =
     opt_or (Option.bind (V LocalScope) (\<lambda>f. f k))
       (opt_or (Option.bind (V SharedScope) (\<lambda>f. f k)) (Option.bind (V GlobalScope) (\<lambda>f. f k)))"

lemma map_of_fold_insert:
  "key_sorted m \<Longrightarrow> distinct (map fst n) \<Longrightarrow>
     map_of (fold (\<lambda>(k, v). map_insert k v) n m) k = opt_or (map_of n k) (map_of m k)
     \<and> key_sorted (fold (\<lambda>(k, v). map_insert k v) n m)"
proof (induction n arbitrary: m)
  case (Cons e n)
  obtain j v where e: "e = (j, v)" by force
  have "key_sorted (map_insert j v m)" by (rule key_sorted_btree_entry[OF Cons.prems(1)])
  from Cons.IH[OF this] Cons.prems e show ?case
    by (cases "map_of n j") (force simp: map_of_btree_entry opt_or_def dest: map_of_SomeD split: option.split)+
qed (simp add: opt_or_def)

lemma views_Some: "views E S fs sc = Some f \<longleftrightarrow> (\<exists>m. settings_map E S fs sc = Inr m \<and> f = map_of m)"
  by (auto simp: views_def split: sum.splits)

lemma views_readable: "views E S fs sc \<noteq> None \<longleftrightarrow> (\<exists>m. settings_map E S fs sc = Inr m)"
  by (cases "settings_map E S fs sc") (simp_all add: views_def)

lemma get_effective_view:
  assumes "parses_maps E"
  shows "get_effective E S fs k = Inr v \<longleftrightarrow>
    (\<forall>sc. views E S fs sc \<noteq> None) \<and> v = effective_view (views E S fs) k"
proof -
  have eff: "get_effective E S fs k = Inr (effective_view (views E S fs) k)"
    if m: "settings_map E S fs GlobalScope = Inr g" "settings_map E S fs SharedScope = Inr s"
      "settings_map E S fs LocalScope = Inr l" for g s l
  proof -
    have "key_sorted g" "key_sorted s" "key_sorted l"
      using m clean_settings_map[OF assms] by (auto simp: clean_map_def)
    then show ?thesis
      using map_of_fold_insert[of g s] map_of_fold_insert[of "fold (\<lambda>(k, v). map_insert k v) s g" l]
      by (simp add: m get_effective_def settings_effective_def effective_view_def views_def Let_def
          key_sorted_distinct)
  qed
  show ?thesis
  proof (cases "\<forall>sc. views E S fs sc \<noteq> None")
    case True
    then have "\<exists>m. settings_map E S fs sc = Inr m" for sc using views_readable by blast
    with eff have "get_effective E S fs k = Inr (effective_view (views E S fs) k)" by metis
    with True show ?thesis by auto
  next
    case False
    then have "\<not> (\<exists>g s l. settings_map E S fs GlobalScope = Inr g \<and> settings_map E S fs SharedScope = Inr s
        \<and> settings_map E S fs LocalScope = Inr l)"
      unfolding views_readable by (metis scope.exhaust)
    then have "get_effective E S fs k \<noteq> Inr v"
      by (auto simp: get_effective_def settings_effective_def result_bind_eq_Inr Let_def)
    with False show ?thesis by blast
  qed
qed

subsection \<open>Operations on a scope\<close>

datatype settings_op = OpSet string json | OpSetIf string json "json option \<Rightarrow> bool" | OpUnset string

primrec op_key :: "settings_op \<Rightarrow> string" where
  "op_key (OpSet k v) = k"
| "op_key (OpSetIf k v matches) = k"
| "op_key (OpUnset k) = k"

primrec op_map :: "settings_op \<Rightarrow> json_map \<Rightarrow> json_map" where
  "op_map (OpSet k v) m = map_insert k v m"
| "op_map (OpSetIf k v matches) m = map_insert k v m"
| "op_map (OpUnset k) m = map_remove k m"

primrec settings_run ::
  "settings_env \<Rightarrow> settings \<Rightarrow> settings_fs \<Rightarrow> scope \<Rightarrow> settings_op \<Rightarrow> (settings_error + bool) \<times> settings_fs" where
  "settings_run E S fs sc (OpSet k v) = apfst (map_sum id (\<lambda>_. True)) (settings_set E S fs k v sc)"
| "settings_run E S fs sc (OpSetIf k v matches) = settings_set_if E S fs k v sc matches"
| "settings_run E S fs sc (OpUnset k) = settings_unset E S fs k sc"

text \<open>The specification: the operation on the map of its scope, given the effective values.\<close>

primrec spec_run :: "settings_op \<Rightarrow> (string \<Rightarrow> json option) \<Rightarrow> (string \<rightharpoonup> json) \<Rightarrow> bool \<times> (string \<rightharpoonup> json)" where
  "spec_run (OpSet k v) eff f = (True, f(k \<mapsto> v))"
| "spec_run (OpSetIf k v matches) eff f = (if matches (eff k) then (True, f(k \<mapsto> v)) else (False, f))"
| "spec_run (OpUnset k) eff f = (f k \<noteq> None, f(k := None))"

lemma settings_run_cases:
  assumes "parses_maps E" "settings_run E S fs sc op = (r, fs')"
  obtains e where "r = Inl e" "fs' = fs"
  | m where "settings_map E S fs sc = Inr m" "r = Inr False" "fs' = fs"
      "spec_run op (effective_view (views E S fs)) (map_of m) = (False, map_of m)"
  | m r1 where "settings_map E S fs sc = Inr m" "settings_write E S fs sc (op_map op m) = (r1, fs')"
      "r = map_sum id (\<lambda>_. True) r1"
      "spec_run op (effective_view (views E S fs)) (map_of m) = (True, map_of (op_map op m))"
proof (cases op)
  case (OpSet k v)
  then show thesis
    using assms(2) that clean_settings_map[OF assms(1), of S fs sc]
    by (auto simp: settings_set_def or_fail_def clean_map_def map_of_btree_entry apfst_def map_prod_def
        split: sum.splits prod.splits)
next
  case (OpSetIf k v matches)
  have eff: "\<exists>m. settings_map E S fs sc = Inr m" "c = effective_view (views E S fs) k"
    if "get_effective E S fs k = Inr c" for c
    using that unfolding get_effective_view[OF assms(1)] views_readable by blast+
  show thesis
  proof (cases "\<exists>e. r = Inl e \<and> fs' = fs")
    case False
    then obtain c where c: "get_effective E S fs k = Inr c"
      and rest: "(if \<not> matches c then (Inr False, fs) else or_fail fs (settings_map E S fs sc) (\<lambda>m.
         (case settings_write E S fs sc (map_insert k v m) of
            (Inl e, fs') \<Rightarrow> (Inl e, fs') | (Inr _, fs') \<Rightarrow> (Inr True, fs')))) = (r, fs')"
      using assms(2) OpSetIf by (auto simp: settings_set_if_def or_fail_def split: sum.splits)
    obtain m where m: "settings_map E S fs sc = Inr m" using eff(1)[OF c] by blast
    show thesis
    proof (cases "matches c")
      case True
      obtain r1 fs1 where w: "settings_write E S fs sc (map_insert k v m) = (r1, fs1)" by (meson surj_pair)
      with rest True m have "fs1 = fs'" "r = map_sum id (\<lambda>_. True) r1"
        by (auto simp: or_fail_def split: sum.splits)
      with w show thesis
        using that(3)[OF m] True eff(2)[OF c] clean_settings_map[OF assms(1) m] OpSetIf
        by (simp add: clean_map_def map_of_btree_entry)
    next
      case False
      with rest show thesis using that(2)[OF m] eff(2)[OF c] OpSetIf by simp
    qed
  qed (use that(1) in blast)
next
  case (OpUnset k)
  show thesis
  proof (cases "\<exists>e. r = Inl e \<and> fs' = fs")
    case False
    then obtain m where m: "settings_map E S fs sc = Inr m"
      and rest: "(if map_of m k = None then (Inr False, fs)
         else (case settings_write E S fs sc (map_remove k m) of
            (Inl e, fs') \<Rightarrow> (Inl e, fs') | (Inr _, fs') \<Rightarrow> (Inr True, fs'))) = (r, fs')"
      using assms(2) OpUnset by (auto simp: settings_unset_def or_fail_def split: sum.splits)
    obtain r1 fs1 where w: "settings_write E S fs sc (map_remove k m) = (r1, fs1)" by (meson surj_pair)
    show thesis
    proof (cases "map_of m k")
      case None
      with rest show thesis using that(2)[OF m] OpUnset by (simp add: fun_upd_idem)
    next
      case (Some v)
      with rest w have "fs1 = fs'" "r = map_sum id (\<lambda>_. True) r1" by (auto split: sum.splits)
      with w Some show thesis using that(3)[OF m] OpUnset by (simp add: map_of_remove)
    qed
  qed (use that(1) in blast)
qed

lemma clean_op_map:
  assumes "clean_map m" "op_key op \<noteq> SETTINGS_SCHEMA_KEY" shows "clean_map (op_map op m)"
proof (cases op)
  case (OpUnset k)
  with assms(1) show ?thesis by (simp add: clean_map_def key_sorted_filter map_of_remove)
qed (use assms in \<open>simp_all add: clean_entry\<close>)

lemma views_write:
  assumes "settings_separate E S" "settings_write E S fs sc m = (r, fs')" "settings_map E S fs' sc = Inr m'"
  shows "views E S fs' = (views E S fs)(sc := Some (map_of m'))"
  using write_other_scopes[OF assms(1,2)] assms(3) by (auto simp: views_def fun_eq_iff)

subsection \<open>Files of newer versions\<close>

definition newer_schema :: "settings_env \<Rightarrow> settings_fs \<Rightarrow> string \<Rightarrow> bool" where
  "newer_schema E fs path =
     (case read_to_string fs path of
        Inl _ \<Rightarrow> False
      | Inr t \<Rightarrow>
          (case hv_parse E t of
             Inl _ \<Rightarrow> False
           | Inr v \<Rightarrow>
               is_some_and (map_of (unwrap_or (as_object v) []) SETTINGS_SCHEMA_KEY)
                 (\<lambda>n. is_none_or (as_u64 n) (\<lambda>n. n > SETTINGS_SCHEMA_VERSION))))"

lemma newer_unreadable:
  "newer_schema E fs (settings_path E S sc) \<Longrightarrow>
     \<exists>d. settings_map E S fs sc = Inl (SettingsUpgradeRequired (scope_label sc) d SETTINGS_SCHEMA_VERSION)"
  by (auto simp: newer_schema_def settings_map_def read_map_def parse_settings_def Let_def is_some_and_iff
      split: sum.splits option.splits)

lemma write_keeps_file:
  assumes "settings_separate E S" "settings_write E S fs sc' m = (r, fs')" "sc' \<noteq> sc"
  shows "same_on fs fs' (settings_path E S sc)"
  using assms(2)
proof (cases rule: settings_write_cases)
  case (2 fs1)
  have "settings_path E S sc \<noteq> settings_path E S sc'" "settings_path E S sc \<noteq> gitignore_path S"
    using separateD[OF assms(1)] assms(3) by (auto simp: scope_files_def) metis
  then show ?thesis using 2(1)[of "settings_path E S sc"] 2(4)
      ensure_gitignored_effect(1)[of S fs1 "ignored_name S" r fs' "settings_path E S sc"]
    by (auto simp: same_on_def split: if_splits)
qed (simp add: same_on_def)

lemma run_keeps_newer:
  assumes "parses_maps E" "settings_separate E S" "newer_schema E fs (settings_path E S sc)"
    "settings_run E S fs sc' op = (r, fs')"
  shows "same_on fs fs' (settings_path E S sc)" "sc' = sc \<Longrightarrow> \<exists>e. r = Inl e"
proof -
  have "same_on fs fs' (settings_path E S sc) \<and> (sc' = sc \<longrightarrow> (\<exists>e. r = Inl e))"
    using assms(1,4)
  proof (cases rule: settings_run_cases)
    case (3 m r1)
    then have "sc' \<noteq> sc" using newer_unreadable[OF assms(3)] by auto
    with write_keeps_file[OF assms(2) 3(2)] show ?thesis by blast
  qed (use newer_unreadable[OF assms(3)] in \<open>auto simp: same_on_def\<close>)
  then show "same_on fs fs' (settings_path E S sc)" "sc' = sc \<Longrightarrow> \<exists>e. r = Inl e" by auto
qed

lemma newer_same: "same_on fs fs' p \<Longrightarrow> newer_schema E fs' p = newer_schema E fs p"
  by (simp add: newer_schema_def same_on_reads(2)[of fs fs'])

lemma migrate_scope_keeps_newer:
  assumes "settings_separate E S" "newer_schema E fs (settings_path E S sc)" "migrate_scope E S fs sc' = (r, fs')"
  shows "same_on fs fs' (settings_path E S sc) \<and> (sc' = sc \<longrightarrow> (\<exists>e. r = Inl e))"
proof (cases "sc' = sc")
  case True
  then show ?thesis using assms(3) newer_unreadable[OF assms(2)]
    by (auto simp: migrate_scope_def or_fail_def same_on_def split: sum.splits)
next
  case False
  have "same_on fs fs p" for p by (simp add: same_on_def)
  then show ?thesis using assms(3) False write_keeps_file[OF assms(1), of fs sc' _ r fs' sc]
    by (auto simp: migrate_scope_def or_fail_def split: sum.splits if_splits)
qed

lemma migrate_scopes_keeps_newer:
  "settings_separate E S \<Longrightarrow> newer_schema E fs (settings_path E S sc) \<Longrightarrow> migrate_scopes E S fs scs = (r, fs') \<Longrightarrow>
     same_on fs fs' (settings_path E S sc) \<and> (sc \<in> set scs \<longrightarrow> (\<exists>e. r = Inl e))"
proof (induction scs arbitrary: fs)
  case (Cons sc' scs)
  obtain r1 fs1 where s: "migrate_scope E S fs sc' = (r1, fs1)" by (meson surj_pair)
  note k = migrate_scope_keeps_newer[OF Cons.prems(1,2) s]
  show ?case
  proof (cases r1)
    case (Inl e)
    then show ?thesis using Cons.prems(3) s k by auto
  next
    case (Inr u)
    have "newer_schema E fs1 (settings_path E S sc)" using newer_same k Cons.prems(2) by blast
    from Cons.IH[OF Cons.prems(1) this] show ?thesis using Cons.prems(3) s k Inr by (auto simp: same_on_def)
  qed
qed (simp add: same_on_def)

subsection \<open>Ignore files\<close>

lemma split_inclusive_nl_append:
  "split_inclusive_nl (a @ CHR 10 # b) = split_inclusive_nl (a @ [CHR 10]) @ split_inclusive_nl b"
proof (induction a)
  case (Cons c a)
  have "split_inclusive_nl (a @ [CHR 10]) \<noteq> []" by (cases a) (auto split: list.split)
  with Cons show ?case by (auto split: list.splits)
qed simp

lemma lines_append: "a = [] \<or> ends_with nl a \<Longrightarrow> lines (a @ b) = lines a @ lines b"
proof (cases a rule: rev_cases)
  case (snoc c x)
  assume "a = [] \<or> ends_with nl a"
  with snoc have "x = CHR 10" by (auto simp: ends_with_def nl_def starts_with_def)
  with snoc show ?thesis using split_inclusive_nl_append[of c b] by (simp add: lines_def)
qed (simp add: lines_def)

lemma ignore_append_lists:
  assumes "CHR 10 \<notin> set name" "name = [] \<or> last name \<noteq> CHR 13" "trim name = name"
  shows "ignore_lists name (ignore_append name t)"
proof -
  let ?t = "if t \<noteq> [] \<and> \<not> ends_with nl t then t @ nl else t"
  have "?t = [] \<or> ends_with nl ?t" by (auto simp: ends_with_def nl_def starts_with_def)
  from lines_append[OF this] have "lines (ignore_append name t) = lines ?t @ lines (name @ nl)"
    by (simp add: ignore_append_def)
  moreover have "lines (name @ nl) = [name]"
    using lines_Cons_nl[OF assms(1), of "[]"] line_of_simps(2)[OF assms(2)] by (simp add: nl_def lines_def)
  ultimately show ?thesis using assms(3) by (simp add: ignore_lists_def)
qed

lemma ignored_name_line: "ignore_lists (ignored_name S) (ignore_append (ignored_name S) t)"
proof -
  have "list_all (\<lambda>c. of_char c < (128 :: nat) \<and> \<not> ascii_ws c) (ignored_name S)"
    by (simp add: ignored_name_def SETTINGS_DIR_def file_name_def LEGACY_LOCAL_FILE_def ascii_ws_def)
  then have "trim (ignored_name S) = ignored_name S" by (intro ws_free_trim ws_free_ascii)
  moreover have "CHR 10 \<notin> set (ignored_name S)" "last (ignored_name S) \<noteq> CHR 13"
    by (simp_all add: ignored_name_def SETTINGS_DIR_def file_name_def LEGACY_LOCAL_FILE_def)
  ultimately show ?thesis by (intro ignore_append_lists) simp_all
qed

lemma ensure_gitignored_result:
  assumes "ensure_gitignored S fs name = (Inr (), fs')" "\<And>t. ignore_lists name (ignore_append name t)"
  shows "\<exists>t'. map_of (sf_files fs') (gitignore_path S) = Some t' \<and> ignore_lists name t'
    \<and> (case read_to_string fs (gitignore_path S) of
         Inr t \<Rightarrow> t' = t \<or> t' = ignore_append name t
       | Inl _ \<Rightarrow> t' = ignore_append name [])"
proof -
  have empty: "\<not> ignore_lists name []" by (simp add: ignore_lists_def lines_def)
  have "fs_write fs p t = (Inr (), fs') \<Longrightarrow> map_of (sf_files fs') p = Some t" for p t
    using fs_write_effect(4)[of fs p t "Inr ()" fs'] by simp
  then show ?thesis using assms empty
    by (auto simp: ensure_gitignored_def Let_def read_to_string_def read_bytes_def split: sum.splits if_splits option.splits)
qed

subsection \<open>A concrete project\<close>

definition demo_map :: json_map where
  "demo_map = [(''theme'', JString ''dark'')]"

definition demo_newer :: json_map where
  "demo_newer = [(SETTINGS_SCHEMA_KEY, JNumber (NumInt 2))]"

definition demo_settings_env :: settings_env where
  "demo_settings_env =
     \<lparr>hv_hotsheet_home = None, hv_home = Some ''/h'', hv_temp_dir = ''/tmp'', hv_canonical = Inr,
      hv_parse = (\<lambda>t. Inr (if t = ''{d}'' @ nl then persisted demo_map
                          else if t = ''{n}'' then JObject demo_newer else JObject [])),
      hv_pretty = (\<lambda>j. if j = persisted demo_map then Some ''{d}'' else None),
      hv_display = (\<lambda>_. ''2'')\<rparr>"

definition demo_settings :: settings where
  "demo_settings = for_project ''/p''"

definition demo_settings_fs :: settings_fs where
  "demo_settings_fs = \<lparr>sf_files = [(''/p/.gitignore'', ''target'')], sf_unreadable = [], sf_unwritable = [], sf_no_dir = []\<rparr>"

definition demo_newer_fs :: settings_fs where
  "demo_newer_fs =
     \<lparr>sf_files = [(''/p/.hotsheet2/settings.json'', ''{n}'')], sf_unreadable = [], sf_unwritable = [], sf_no_dir = []\<rparr>"

definition demo_written_fs :: "string \<Rightarrow> string \<Rightarrow> settings_fs" where
  "demo_written_fs path ignored =
     \<lparr>sf_files = [(''/p/.gitignore'', ignored), (path, ''{d}'' @ nl)], sf_unreadable = [], sf_unwritable = [], sf_no_dir = []\<rparr>"

lemmas demo_settings_defs = demo_settings_env_def demo_settings_def demo_map_def demo_newer_def
  for_project_def hotsheet_home_def settings_path_def path_join_def file_name_def legacy_file_name_def
  SETTINGS_DIR_def LEGACY_PROJECT_SETTINGS_DIR_def LEGACY_SHARED_FILE_def LEGACY_LOCAL_FILE_def
  starts_with_def ends_with_def gitignore_path_def legacy_project_path_def

lemma demo_paths [simp]:
  "settings_path demo_settings_env demo_settings GlobalScope = ''/h/.hotsheet2/settings.json''"
  "settings_path demo_settings_env demo_settings SharedScope = ''/p/.hotsheet2/settings.json''"
  "settings_path demo_settings_env demo_settings LocalScope = ''/p/.hotsheet2/settings.local.json''"
  "gitignore_path demo_settings = ''/p/.gitignore''"
  by (simp_all add: demo_settings_defs)

lemma demo_separate: "settings_separate demo_settings_env demo_settings"
  by (simp add: settings_separate_def scope_files_def) (simp add: demo_settings_defs)

lemma demo_parses: "parses_maps demo_settings_env"
  by (auto simp: parses_maps_def demo_settings_env_def persisted_def demo_map_def demo_newer_def
      SETTINGS_SCHEMA_KEY_def less_list_code less_char_def)

lemma demo_utf8: "valid_utf8 ''target''" "valid_utf8 ''{n}''" "valid_utf8 (''{d}'' @ nl)"
  by code_simp+


lemma demo_absent: "settings_map demo_settings_env demo_settings demo_settings_fs SharedScope = Inr []"
  by code_simp

lemma demo_reads_back: "reads_back demo_settings_env demo_map"
  by code_simp

lemma demo_set:
  "settings_run demo_settings_env demo_settings demo_settings_fs SharedScope (OpSet ''theme'' (JString ''dark'')) =
     (Inr True, demo_written_fs ''/p/.hotsheet2/settings.json'' ''target'')"
  by code_simp

lemma demo_set_local:
  "settings_set demo_settings_env demo_settings demo_settings_fs ''theme'' (JString ''dark'') LocalScope =
     (Inr (), demo_written_fs ''/p/.hotsheet2/settings.local.json''
        (''target'' @ nl @ ''.hotsheet2/settings.local.json'' @ nl))"
  by code_simp

subsection \<open>Properties\<close>

text \<open>C26. The three settings files implement a map per scope: whenever setting, conditionally
  setting or unsetting a key succeeds, its answer and the new contents of the scope are those of
  the operation on the scope's map, no other scope changes, and every effective value is that of
  the most specific scope that has the key.  This holds also when the scope was read from the
  files of older releases.\<close>

theorem settings_refine_scopes:
  assumes "parses_maps E" "settings_separate E S" "op_key op \<noteq> SETTINGS_SCHEMA_KEY"
    and "\<And>m. settings_map E S fs sc = Inr m \<Longrightarrow> reads_back E (op_map op m)"
    and run: "settings_run E S fs sc op = (Inr b, fs')"
  shows "\<exists>f. views E S fs sc = Some f
    \<and> b = fst (spec_run op (effective_view (views E S fs)) f)
    \<and> views E S fs' = (views E S fs)(sc := Some (snd (spec_run op (effective_view (views E S fs)) f)))
    \<and> ((\<forall>sc. views E S fs' sc \<noteq> None) \<longrightarrow> get_effective E S fs' k = Inr (effective_view (views E S fs') k))"
proof -
  have eff: "(\<forall>sc. views E S fs' sc \<noteq> None) \<longrightarrow> get_effective E S fs' k = Inr (effective_view (views E S fs') k)"
    using get_effective_view[OF assms(1), of S fs' k] by blast
  from assms(1) run show ?thesis
  proof (cases rule: settings_run_cases)
    case (2 m)
    then have "views E S fs sc = Some (map_of m)" by (simp add: views_def)
    with 2 eff show ?thesis by (simp add: fun_upd_idem)
  next
    case (3 m r1)
    then have r1: "r1 = Inr ()" "b = True" by (cases r1; simp)+
    have "settings_map E S fs' sc = Inr (op_map op m)"
      by (rule write_own_scope(1)[OF assms(2) 3(1,2) assms(4)[OF 3(1)] _ r1(1)])
        (rule clean_op_map[OF clean_settings_map[OF assms(1) 3(1)] assms(3)])
    with views_write[OF assms(2) 3(2)] 3(1,4) r1(2) eff show ?thesis by (auto simp: views_def)
  qed simp
qed

theorem settings_refine_scopes_witness:
  "views demo_settings_env demo_settings (demo_written_fs ''/p/.hotsheet2/settings.json'' ''target'') SharedScope
     = Some [''theme'' \<mapsto> JString ''dark'']"
proof -
  have r: "reads_back demo_settings_env (op_map (OpSet ''theme'' (JString ''dark'')) m)"
    if "settings_map demo_settings_env demo_settings demo_settings_fs SharedScope = Inr m" for m
    using demo_reads_back that demo_absent by (simp add: demo_map_def)
  show ?thesis
    using settings_refine_scopes[OF demo_parses demo_separate _ r demo_set] demo_absent
    by (simp add: views_def[of _ _ demo_settings_fs] SETTINGS_SCHEMA_KEY_def)
qed

text \<open>A settings file written by a newer version is never overwritten: while the file of a
  scope carries a newer schema, no operation on any scope and no migration changes it, and neither
  an operation on that scope nor a migration succeeds.\<close>

theorem newer_settings_kept:
  assumes "parses_maps E" "settings_separate E S" "newer_schema E fs (settings_path E S sc)"
  shows "map_of (sf_files (snd (settings_run E S fs sc' op))) (settings_path E S sc)
      = map_of (sf_files fs) (settings_path E S sc)
    \<and> map_of (sf_files (snd (migrate_existing E S fs))) (settings_path E S sc)
      = map_of (sf_files fs) (settings_path E S sc)
    \<and> isl (fst (settings_run E S fs sc op)) \<and> isl (fst (migrate_existing E S fs))"
proof -
  obtain r fs' where r: "settings_run E S fs sc' op = (r, fs')" by (meson surj_pair)
  obtain q gs where q: "settings_run E S fs sc op = (q, gs)" by (meson surj_pair)
  obtain u hs where u: "migrate_existing E S fs = (u, hs)" by (meson surj_pair)
  have "sc \<in> set [GlobalScope, SharedScope, LocalScope]" by (cases sc) simp_all
  with migrate_scopes_keeps_newer[OF assms(2,3) u[unfolded migrate_existing_def]]
  have "same_on fs hs (settings_path E S sc)" "\<exists>e. u = Inl e" by blast+
  moreover have "same_on fs fs' (settings_path E S sc)" by (rule run_keeps_newer(1)[OF assms r])
  moreover have "\<exists>e. q = Inl e" by (rule run_keeps_newer(2)[OF assms q refl])
  ultimately show ?thesis using r q u by (auto simp: same_on_def)
qed

theorem newer_settings_kept_witness:
  "isl (fst (settings_run demo_settings_env demo_settings demo_newer_fs SharedScope (OpUnset ''theme'')))
   \<and> map_of (sf_files (snd (migrate_existing demo_settings_env demo_settings demo_newer_fs)))
       ''/p/.hotsheet2/settings.json'' = Some ''{n}''"
proof -
  have "newer_schema demo_settings_env demo_newer_fs (settings_path demo_settings_env demo_settings SharedScope)"
    by code_simp
  from newer_settings_kept[OF demo_parses demo_separate this, of SharedScope "OpUnset ''theme''"]
  show ?thesis by (simp add: demo_newer_fs_def)
qed

text \<open>Local settings are never left unignored: after every successful operation that wrote the
  local file, the project's \<open>.gitignore\<close> lists it.  A readable \<open>.gitignore\<close> keeps its text and gains
  at most that line; one that cannot be read as UTF-8 is replaced by the single line.\<close>

theorem local_settings_ignored:
  assumes "settings_separate E S" "settings_set E S fs k v LocalScope = (Inr (), fs')"
  shows "\<exists>t'. map_of (sf_files fs') (gitignore_path S) = Some t' \<and> ignore_lists (ignored_name S) t'
    \<and> (case read_to_string fs (gitignore_path S) of
         Inr t \<Rightarrow> t' = t \<or> t' = ignore_append (ignored_name S) t
       | Inl _ \<Rightarrow> t' = ignore_append (ignored_name S) [])"
proof -
  obtain m where "settings_write E S fs LocalScope m = (Inr (), fs')"
    using assms(2) by (auto simp: settings_set_def or_fail_def split: sum.splits)
  then show ?thesis
  proof (cases rule: settings_write_cases)
    case (2 fs1)
    have "gitignore_path S \<noteq> settings_path E S LocalScope"
      using separateD(1)[OF assms(1), of LocalScope] by (auto simp: scope_files_def)
    from same_on_reads(2)[OF 2(1)[OF this]] show ?thesis
      using ensure_gitignored_result[of S fs1 "ignored_name S" fs'] 2(4) ignored_name_line by simp
  qed simp
qed

theorem local_settings_ignored_witness:
  "ignore_lists ''.hotsheet2/settings.local.json'' (''target'' @ nl @ ''.hotsheet2/settings.local.json'' @ nl)"
proof -
  have "ignored_name demo_settings = ''.hotsheet2/settings.local.json''" by code_simp
  with local_settings_ignored[OF demo_separate demo_set_local] show ?thesis
    by (auto simp: demo_written_fs_def)
qed

text \<open>C28. A project whose root is the home directory cannot use conditional writes: without
  \<open>HOTSHEET_HOME\<close> its shared file is the machine-wide file, the second lock is the first one, and
  the process waits for itself whatever it wants to write.\<close>

theorem conditional_write_blocks_at_home:
  assumes "hv_hotsheet_home E = None" "hv_home E = Some root" "validate_set_value key v = Inr ()"
    and "hv_canonical E (settings_path E (for_project root) GlobalScope) = Inr p"
  shows "settings_set_if E (for_project root) fs key v sc matches = (Inl (SettingsBlocked p), fs)"
proof -
  have "settings_path E (for_project root) SharedScope = settings_path E (for_project root) GlobalScope"
    using assms(1,2) by (simp add: settings_path_def for_project_def hotsheet_home_def SETTINGS_DIR_def file_name_def)
  then show ?thesis using assms(3,4) by (simp add: settings_set_if_def or_fail_def lock_scope_def)
qed

theorem conditional_write_blocks_at_home_witness:
  "settings_set_if demo_settings_env (for_project ''/h'') demo_settings_fs ''theme'' JNull SharedScope (\<lambda>_. True)
     = (Inl (SettingsBlocked ''/h/.hotsheet2/settings.json''), demo_settings_fs)"
proof -
  have "hv_canonical demo_settings_env (settings_path demo_settings_env (for_project ''/h'') GlobalScope)
      = Inr ''/h/.hotsheet2/settings.json''" by code_simp
  moreover have "validate_set_value ''theme'' JNull = Inr ()" by code_simp
  ultimately show ?thesis
    using conditional_write_blocks_at_home[of demo_settings_env "''/h''"] by (simp add: demo_settings_env_def)
qed

end
