(* ===== verification/Provider_Outbox.thy ===== *)
theory Provider_Outbox
  imports Project_Settings
begin

text \<open>
  The outbox of provisional edits to external tickets (\<open>provider_outbox.rs\<close>): admission with retry
  detection, capacity and per-ticket order, dispatch states, compaction and pruning of settled rows,
  and the projection of pending edits on a remote ticket.  The database is a record: its rows in
  insertion order, the last sequence of each ticket and the retention row; every SQL statement is an
  update or a query on it.  A row holds the values whose JSON text the table stores.  The JSON text of
  a payload and SHA-256 are parameters, the readings of the clock arguments.
\<close>

subsection \<open>Edits\<close>

record provider_patch =
  pp_expected_token :: "string option"
  pp_title :: "string option"
  pp_details :: "string option"
  pp_category :: "string option"
  pp_priority :: "priority option"
  pp_status :: "status option"
  pp_started_phase :: "started_phase option option"
  pp_tags :: "string list option"
  pp_up_next :: "bool option"
  pp_blocked_by :: "string list option"
  pp_blocked_reason :: "string option option"
  pp_actor :: "note_actor option"

datatype outbox_error =
    EmptyIdentity
  | ChangedPayload string
  | ExpiredOperation string
  | InvalidOperationId string
  | Backpressure nat nat nat
  | MismatchedBase
  | InvalidCapacity
  | InvalidProjectionOrder string
  | UnsupportedProjectionField string string
  | InvalidProjectionTicket
  | InvalidTransition string

record admission =
  ad_operation_id :: string
  ad_connection_id :: string
  ad_native_id :: string
  ad_base_token :: "string option"
  ad_base_ticket :: json
  ad_patch :: provider_patch

text \<open>What admission reads of an \<open>ApiTicket\<close>, and its JSON value.\<close>

record ticket_view =
  tv_connection_id :: string
  tv_native_id :: string
  tv_concurrency_token :: "string option"
  tv_value :: json

definition admission_new :: "string \<Rightarrow> ticket_view \<Rightarrow> provider_patch \<Rightarrow> admission" where
  "admission_new operation_id base patch =
     \<lparr>ad_operation_id = operation_id, ad_connection_id = tv_connection_id base, ad_native_id = tv_native_id base,
      ad_base_token = tv_concurrency_token base, ad_base_ticket = tv_value base,
      ad_patch = (if pp_expected_token patch = None
                  then patch\<lparr>pp_expected_token := tv_concurrency_token base\<rparr> else patch)\<rparr>"

definition json_get :: "string \<Rightarrow> json \<Rightarrow> json option" where
  "json_get k v = (case v of JObject m \<Rightarrow> map_of m k | _ \<Rightarrow> None)"

definition as_str :: "json \<Rightarrow> string option" where
  "as_str v = (case v of JString s \<Rightarrow> Some s | _ \<Rightarrow> None)"

definition token_value :: "string option \<Rightarrow> json" where
  "token_value t = (case t of None \<Rightarrow> JNull | Some s \<Rightarrow> JString s)"

definition admission_validate :: "admission \<Rightarrow> outbox_error + unit" where
  "admission_validate a =
     (if trim (ad_operation_id a) = [] \<or> trim (ad_connection_id a) = [] \<or> trim (ad_native_id a) = []
      then Inl EmptyIdentity
      else if Option.bind (json_get ''connection_id'' (ad_base_ticket a)) as_str \<noteq> Some (ad_connection_id a)
           \<or> Option.bind (json_get ''native_id'' (ad_base_ticket a)) as_str \<noteq> Some (ad_native_id a)
           \<or> json_get ''concurrency_token'' (ad_base_ticket a) \<noteq> Some (token_value (ad_base_token a))
           \<or> pp_expected_token (ad_patch a) \<noteq> ad_base_token a
      then Inl MismatchedBase
      else Inr ())"

record outbox_env =
  oe_payload :: "string \<Rightarrow> string \<Rightarrow> string option \<Rightarrow> json \<Rightarrow> provider_patch \<Rightarrow> string"
  oe_sha256 :: "string \<Rightarrow> string"

definition payload_json :: "outbox_env \<Rightarrow> admission \<Rightarrow> string" where
  "payload_json E a = oe_payload E (ad_connection_id a) (ad_native_id a) (ad_base_token a) (ad_base_ticket a) (ad_patch a)"

definition payload_digest :: "outbox_env \<Rightarrow> string \<Rightarrow> string" where
  "payload_digest E payload = hex_lower (oe_sha256 E payload)"

subsection \<open>The database\<close>

datatype outbox_state = OutQueued | OutConfirmed

datatype dispatch_state = DQueued | DSending | DRateLimited | DNeedsAttention | DConfirmed | DDiscarded

record outbox_row =
  ob_operation_id :: string
  ob_connection_id :: string
  ob_native_id :: string
  ob_sequence :: int
  ob_base_token :: "string option"
  ob_base_ticket :: json
  ob_patch :: "provider_patch option"
  ob_payload :: string
  ob_state :: outbox_state
  ob_dispatch :: dispatch_state
  ob_attempts :: int
  ob_next_attempt_at :: int
  ob_last_error :: "string option"
  ob_conflict :: "json option"
  ob_settled_at :: "int option"
  ob_digest :: "string option"
  ob_compacted :: bool
  ob_id_version :: int

record outbox =
  ox_rows :: "outbox_row list"
  ox_sequence :: "(string \<times> string) \<Rightarrow> int option"
  ox_retention :: "(int \<times> int) option"

record outbox_operation =
  oo_operation_id :: string
  oo_connection_id :: string
  oo_native_id :: string
  oo_sequence :: int
  oo_base_token :: "string option"
  oo_base_ticket :: json
  oo_patch :: provider_patch
  oo_state :: outbox_state
  oo_dispatch :: dispatch_state
  oo_attempts :: int
  oo_next_attempt_at :: int
  oo_last_error :: "string option"
  oo_conflict :: "json option"

definition SETTLED_PAYLOAD_RETENTION :: int where "SETTLED_PAYLOAD_RETENTION = 30 * 24 * 60 * 60"
definition LEGACY_ADMISSION_GRACE :: int where "LEGACY_ADMISSION_GRACE = 30 * 24 * 60 * 60"
definition FUTURE_ID_SKEW_MS :: int where "FUTURE_ID_SKEW_MS = 5 * 60 * 1000"

definition sat64 :: "int \<Rightarrow> int" where
  "sat64 n = max (- (2 ^ 63)) (min n (2 ^ 63 - 1))"

definition operation_timestamp_ms :: "string \<Rightarrow> int option" where
  "operation_timestamp_ms s =
     Option.bind (strip_prefix ''v2:'' s) (\<lambda>r.
     Option.bind (split_once '':'' r) (\<lambda>(timestamp, random).
       if length timestamp \<noteq> 13 \<or> \<not> list_all is_ascii_digit timestamp then None
       else if \<not> (16 \<le> length random \<and> length random \<le> 80)
            \<or> \<not> list_all (\<lambda>c. is_ascii_lower c \<or> is_ascii_digit c \<or> c = CHR ''-'') random then None
       else map_option int (parse_digits timestamp)))"

definition row_of :: "outbox \<Rightarrow> string \<Rightarrow> outbox_row option" where
  "row_of db n = List.find (\<lambda>r. ob_operation_id r = n) (ox_rows db)"

text \<open>\<open>UPDATE .. WHERE\<close>: the number of rows changed and the database.\<close>

definition update_rows :: "(outbox_row \<Rightarrow> bool) \<Rightarrow> (outbox_row \<Rightarrow> outbox_row) \<Rightarrow> outbox \<Rightarrow> nat \<times> outbox" where
  "update_rows P f db =
     (length (filter P (ox_rows db)), db\<lparr>ox_rows := map (\<lambda>r. if P r then f r else r) (ox_rows db)\<rparr>)"

definition operation_of :: "outbox_row \<Rightarrow> outbox_operation" where
  "operation_of r =
     \<lparr>oo_operation_id = ob_operation_id r, oo_connection_id = ob_connection_id r, oo_native_id = ob_native_id r,
      oo_sequence = ob_sequence r, oo_base_token = ob_base_token r, oo_base_ticket = ob_base_ticket r,
      oo_patch = the (ob_patch r), oo_state = ob_state r, oo_dispatch = ob_dispatch r, oo_attempts = ob_attempts r,
      oo_next_attempt_at = ob_next_attempt_at r, oo_last_error = ob_last_error r, oo_conflict = ob_conflict r\<rparr>"

definition get_in :: "outbox \<Rightarrow> string \<Rightarrow> outbox_operation option" where
  "get_in db n = Option.bind (row_of db n) (\<lambda>r. if ob_compacted r then None else Some (operation_of r))"

subsection \<open>Compaction and pruning\<close>

definition compactable :: "int \<Rightarrow> outbox_row \<Rightarrow> bool" where
  "compactable cutoff r =
     (ob_state r = OutConfirmed \<and> \<not> ob_compacted r \<and> (case ob_settled_at r of None \<Rightarrow> False | Some t \<Rightarrow> t \<le> cutoff))"

definition compact_row :: "outbox_env \<Rightarrow> outbox_row \<Rightarrow> outbox_row" where
  "compact_row E r =
     r\<lparr>ob_base_token := None, ob_base_ticket := JNull, ob_patch := None, ob_payload := [],
       ob_digest := Some (payload_digest E (ob_payload r)), ob_last_error := None, ob_conflict := None,
       ob_compacted := True\<rparr>"

definition compact_terminal_before :: "outbox_env \<Rightarrow> int \<Rightarrow> outbox \<Rightarrow> nat \<times> outbox" where
  "compact_terminal_before E cutoff db = update_rows (compactable cutoff) (compact_row E) db"

text \<open>\<open>CAST(substr(s, 4, 13) AS INTEGER)\<close>: the leading digits after blanks and a sign, 0 without any.\<close>

definition sql_integer :: "string \<Rightarrow> int" where
  "sql_integer s =
     (let t = dropWhile ascii_ws s;
          neg = starts_with ''-'' t;
          u = (if neg \<or> starts_with ''+'' t then tl t else t) in
      (if neg then -1 else 1) * int (unwrap_or (parse_digits (takeWhile is_ascii_digit u)) 0))"

definition prunable :: "int \<Rightarrow> int \<Rightarrow> int \<Rightarrow> outbox_row \<Rightarrow> bool" where
  "prunable now floor cutoff r =
     (ob_state r = OutConfirmed \<and> ob_compacted r
      \<and> (case ob_settled_at r of None \<Rightarrow> False | Some t \<Rightarrow> t \<le> sat64 (now - SETTLED_PAYLOAD_RETENTION))
      \<and> (if ob_id_version r = 2 then sql_integer (take 13 (drop 3 (ob_operation_id r))) < floor
         else sat64 (now * 1000) \<ge> cutoff))"

definition prune_terminal_rows :: "int \<Rightarrow> outbox \<Rightarrow> nat \<times> outbox" where
  "prune_terminal_rows now db =
     (let floor = sat64 (sat64 (now - SETTLED_PAYLOAD_RETENTION) * 1000) in
      case ox_retention db of
        None \<Rightarrow> (0, db)
      | Some (saved, cutoff) \<Rightarrow>
          let saved' = max saved floor; kept = filter (\<lambda>r. \<not> prunable now saved' cutoff r) (ox_rows db) in
          (length (ox_rows db) - length kept, db\<lparr>ox_rows := kept, ox_retention := Some (saved', cutoff)\<rparr>))"

subsection \<open>Opening\<close>

definition max_sequence :: "outbox_row list \<Rightarrow> string \<times> string \<Rightarrow> int option" where
  "max_sequence rows key =
     (case filter (\<lambda>r. (ob_connection_id r, ob_native_id r) = key) rows of
        [] \<Rightarrow> None
      | r # rs \<Rightarrow> Some (foldl (\<lambda>m x. max m (ob_sequence x)) (ob_sequence r) rs))"

definition merged_sequence :: "outbox \<Rightarrow> string \<times> string \<Rightarrow> int option" where
  "merged_sequence db key =
     (case (ox_sequence db key, max_sequence (ox_rows db) key) of
        (Some a, Some b) \<Rightarrow> Some (max a b)
      | (None, b) \<Rightarrow> b
      | (a, None) \<Rightarrow> a)"

definition reopened_row :: "int \<Rightarrow> outbox_row \<Rightarrow> outbox_row" where
  "reopened_row now r =
     (let d = (if ob_state r = OutConfirmed \<and> ob_dispatch r = DQueued then DConfirmed
               else if ob_state r = OutQueued \<and> ob_dispatch r = DSending then DQueued else ob_dispatch r) in
      r\<lparr>ob_dispatch := d,
        ob_settled_at := (if ob_state r = OutConfirmed \<and> ob_settled_at r = None then Some now else ob_settled_at r)\<rparr>)"

text \<open>\<open>clock\<close>: the successive readings of the clock.\<close>

definition outbox_open :: "outbox_env \<Rightarrow> (nat \<Rightarrow> int) \<Rightarrow> nat \<Rightarrow> outbox \<Rightarrow> outbox_error + outbox" where
  "outbox_open E clock max_pending db =
     (if max_pending = 0 then Inl InvalidCapacity
      else let db1 = db\<lparr>ox_sequence := merged_sequence db,
                 ox_retention := (case ox_retention db of
                    Some r \<Rightarrow> Some r
                  | None \<Rightarrow> Some (0, sat64 (sat64 (clock 0 + LEGACY_ADMISSION_GRACE) * 1000))),
                 ox_rows := map (reopened_row (clock 1)) (ox_rows db)\<rparr>;
               db2 = snd (compact_terminal_before E (clock 2 - SETTLED_PAYLOAD_RETENTION) db1) in
        Inr (snd (prune_terminal_rows (clock 3) db2)))"

subsection \<open>Admission\<close>

definition is_v2 :: "string \<Rightarrow> bool" where
  "is_v2 n = starts_with ''v2:'' n"

definition admission_window :: "int \<Rightarrow> outbox \<Rightarrow> string \<Rightarrow> outbox_error + unit" where
  "admission_window now db n =
     (case the (ox_retention db) of (floor, cutoff) \<Rightarrow>
        let now_ms = sat64 (now * 1000) in
        if is_v2 n
        then (case operation_timestamp_ms n of
                None \<Rightarrow> Inl (InvalidOperationId n)
              | Some t \<Rightarrow> if t > sat64 (now_ms + FUTURE_ID_SKEW_MS) then Inl (InvalidOperationId n)
                          else if t < floor then Inl (ExpiredOperation n) else Inr ())
        else if now_ms \<ge> cutoff then Inl (ExpiredOperation n) else Inr ())"

definition next_sequence :: "outbox \<Rightarrow> string \<times> string \<Rightarrow> int" where
  "next_sequence db key = (case ox_sequence db key of None \<Rightarrow> 1 | Some n \<Rightarrow> n + 1)"

definition insert_admission :: "outbox_env \<Rightarrow> admission \<Rightarrow> outbox \<Rightarrow> outbox" where
  "insert_admission E a db =
     (let key = (ad_connection_id a, ad_native_id a); n = next_sequence db key in
      db\<lparr>ox_sequence := (ox_sequence db)(key := Some n),
         ox_rows := ox_rows db @
           [\<lparr>ob_operation_id = ad_operation_id a, ob_connection_id = ad_connection_id a, ob_native_id = ad_native_id a,
             ob_sequence = n, ob_base_token = ad_base_token a, ob_base_ticket = ad_base_ticket a,
             ob_patch = Some (ad_patch a), ob_payload = payload_json E a, ob_state = OutQueued, ob_dispatch = DQueued,
             ob_attempts = 0, ob_next_attempt_at = 0, ob_last_error = None, ob_conflict = None, ob_settled_at = None,
             ob_digest = None, ob_compacted = False, ob_id_version = (if is_v2 (ad_operation_id a) then 2 else 1)\<rparr>]\<rparr>)"

definition pending_count :: "outbox \<Rightarrow> nat" where
  "pending_count db = length (filter (\<lambda>r. ob_state r = OutQueued) (ox_rows db))"

text \<open>A retry of a known operation.\<close>

definition admit_existing :: "outbox_env \<Rightarrow> admission \<Rightarrow> outbox_row \<Rightarrow> outbox_error + unit" where
  "admit_existing E a r =
     (if ob_compacted r
      then (if ob_digest r \<noteq> Some (payload_digest E (payload_json E a)) then Inl (ChangedPayload (ad_operation_id a))
            else Inl (ExpiredOperation (ad_operation_id a)))
      else if ob_payload r \<noteq> payload_json E a then Inl (ChangedPayload (ad_operation_id a))
      else Inr ())"

text \<open>One admission of a batch: \<open>pending\<close> is the count before the batch, \<open>added\<close> what the batch added.\<close>

definition admit_one ::
  "outbox_env \<Rightarrow> nat \<Rightarrow> nat \<Rightarrow> int \<Rightarrow> admission \<Rightarrow> nat \<times> outbox \<Rightarrow> outbox_error + (outbox_operation \<times> nat \<times> outbox)" where
  "admit_one E max_pending pending now a s =
     (case s of (added, db) \<Rightarrow>
        result_bind (admission_validate a) (\<lambda>_.
        case row_of db (ad_operation_id a) of
          Some r \<Rightarrow> result_bind (admit_existing E a r) (\<lambda>_. Inr (the (get_in db (ad_operation_id a)), added, db))
        | None \<Rightarrow>
            result_bind (admission_window now db (ad_operation_id a)) (\<lambda>_.
            if pending + added \<ge> max_pending then Inl (Backpressure max_pending pending (added + 1))
            else let db' = insert_admission E a db in
              Inr (the (get_in db' (ad_operation_id a)), added + 1, db'))))"

fun admit_all ::
  "outbox_env \<Rightarrow> nat \<Rightarrow> nat \<Rightarrow> (nat \<Rightarrow> int) \<Rightarrow> admission list \<Rightarrow> nat \<times> outbox \<Rightarrow> outbox_error + (outbox_operation list \<times> outbox)" where
  "admit_all E max_pending pending clock [] s = Inr ([], snd s)"
| "admit_all E max_pending pending clock (a # as) s =
     result_bind (admit_one E max_pending pending (clock 0) a s) (\<lambda>(out, s').
     result_bind (admit_all E max_pending pending (\<lambda>i. clock (Suc i)) as s') (\<lambda>(outs, db). Inr (out # outs, db)))"

text \<open>The transaction is rolled back on an error; the maintenance before it is not.\<close>

definition admit_batch ::
  "outbox_env \<Rightarrow> (nat \<Rightarrow> int) \<Rightarrow> nat \<Rightarrow> admission list \<Rightarrow> outbox \<Rightarrow> (outbox_error + outbox_operation list) \<times> outbox" where
  "admit_batch E clock max_pending as db =
     (let db1 = snd (compact_terminal_before E (clock 0 - SETTLED_PAYLOAD_RETENTION) db);
          db2 = snd (prune_terminal_rows (clock 1) db1) in
      case admit_all E max_pending (pending_count db2) (\<lambda>i. clock (i + 2)) as (0, db2) of
        Inl e \<Rightarrow> (Inl e, db2)
      | Inr (outs, db3) \<Rightarrow> (Inr outs, db3))"

subsection \<open>Queries\<close>

definition list_in :: "outbox \<Rightarrow> outbox_row list \<Rightarrow> outbox_operation list" where
  "list_in db rows = map (\<lambda>r. the (get_in db (ob_operation_id r))) rows"

definition queued_rows :: "outbox \<Rightarrow> outbox_row list" where
  "queued_rows db = filter (\<lambda>r. ob_state r = OutQueued) (ox_rows db)"

definition replay_cmp :: "outbox_row \<Rightarrow> outbox_row \<Rightarrow> ordering" where
  "replay_cmp a b =
     ord_then (ord_cmp (ob_connection_id a) (ob_connection_id b))
       (ord_then (ord_cmp (ob_native_id a) (ob_native_id b)) (ord_cmp (ob_sequence a) (ob_sequence b)))"

definition sequence_cmp :: "outbox_row \<Rightarrow> outbox_row \<Rightarrow> ordering" where
  "sequence_cmp a b = ord_cmp (ob_sequence a) (ob_sequence b)"

definition list_pending :: "outbox \<Rightarrow> outbox_operation list" where
  "list_pending db = list_in db (sort_by replay_cmp (queued_rows db))"

definition of_ticket :: "string \<Rightarrow> string \<Rightarrow> outbox_row \<Rightarrow> bool" where
  "of_ticket connection native r = (ob_connection_id r = connection \<and> ob_native_id r = native)"

definition pending_for_ticket :: "outbox \<Rightarrow> string \<Rightarrow> string \<Rightarrow> outbox_operation list" where
  "pending_for_ticket db connection native =
     list_in db (sort_by sequence_cmp (filter (of_ticket connection native) (queued_rows db)))"

definition recent_for_connection :: "outbox \<Rightarrow> string \<Rightarrow> nat \<Rightarrow> outbox_operation list" where
  "recent_for_connection db connection limit =
     (let recent = take limit (rev (filter (\<lambda>r. ob_connection_id r = connection \<and> ob_state r = OutConfirmed
                     \<and> \<not> ob_compacted r) (ox_rows db))) in
      list_in db (rev (filter (\<lambda>r. ob_connection_id r = connection
        \<and> (ob_state r = OutQueued \<or> ob_operation_id r \<in> ob_operation_id ` set recent)) (ox_rows db))))"

subsection \<open>Dispatch\<close>

definition with_id :: "string \<Rightarrow> outbox_row \<Rightarrow> bool" where
  "with_id n r = (ob_operation_id r = n \<and> ob_state r = OutQueued)"

definition confirmed_row :: "int \<Rightarrow> outbox_row \<Rightarrow> outbox_row" where
  "confirmed_row now r =
     r\<lparr>ob_state := OutConfirmed, ob_dispatch := DConfirmed, ob_next_attempt_at := 0, ob_last_error := None,
       ob_settled_at := Some now\<rparr>"

definition confirm :: "int \<Rightarrow> string \<Rightarrow> outbox \<Rightarrow> bool \<times> outbox" where
  "confirm now n db =
     (case update_rows (\<lambda>r. with_id n r \<and> ob_dispatch r = DSending) (confirmed_row now) db of
        (changed, db') \<Rightarrow> (changed > 0, db'))"

definition settle_applied :: "int \<Rightarrow> string \<Rightarrow> outbox \<Rightarrow> bool \<times> outbox" where
  "settle_applied now n db =
     (case update_rows (\<lambda>r. with_id n r \<and> ob_dispatch r \<noteq> DSending) (confirmed_row now) db of
        (changed, db') \<Rightarrow> (changed > 0, db'))"

definition claimable :: "outbox \<Rightarrow> int \<Rightarrow> outbox_row \<Rightarrow> bool" where
  "claimable db now r =
     (ob_state r = OutQueued \<and> (ob_dispatch r = DQueued \<or> ob_dispatch r = DRateLimited) \<and> ob_next_attempt_at r \<le> now
      \<and> \<not> list_ex (\<lambda>e. of_ticket (ob_connection_id r) (ob_native_id r) e \<and> ob_state e = OutQueued
              \<and> ob_sequence e < ob_sequence r) (ox_rows db))"

definition sending_row :: "outbox_row \<Rightarrow> outbox_row" where
  "sending_row r = r\<lparr>ob_dispatch := DSending, ob_attempts := ob_attempts r + 1\<rparr>"

definition claim_row :: "outbox_row \<Rightarrow> outbox \<Rightarrow> outbox" where
  "claim_row r db = snd (update_rows (\<lambda>x. ob_operation_id x = ob_operation_id r) sending_row db)"

definition claim_ready :: "int \<Rightarrow> nat \<Rightarrow> outbox \<Rightarrow> outbox_operation list \<times> outbox" where
  "claim_ready now limit db =
     (let rows = take limit (sort_by sequence_cmp (filter (claimable db now) (ox_rows db)));
          db' = fold claim_row rows db in
      (list_in db' rows, db'))"

definition transition :: "string \<Rightarrow> (outbox_row \<Rightarrow> bool) \<Rightarrow> (outbox_row \<Rightarrow> outbox_row) \<Rightarrow> outbox \<Rightarrow> outbox_error + outbox" where
  "transition n P f db =
     (case update_rows (\<lambda>r. with_id n r \<and> P r) f db of
        (changed, db') \<Rightarrow> if changed = 0 then Inl (InvalidTransition n) else Inr db')"

definition outbox_defer :: "string \<Rightarrow> int \<Rightarrow> string \<Rightarrow> bool \<Rightarrow> outbox \<Rightarrow> outbox_error + outbox" where
  "outbox_defer n until error rate_limited =
     transition n (\<lambda>r. ob_dispatch r = DSending)
       (\<lambda>r. r\<lparr>ob_dispatch := (if rate_limited then DRateLimited else DQueued), ob_next_attempt_at := until,
              ob_last_error := Some error\<rparr>)"

definition needs_attention :: "string \<Rightarrow> string \<Rightarrow> json option \<Rightarrow> outbox \<Rightarrow> outbox_error + outbox" where
  "needs_attention n error conflict =
     transition n (\<lambda>r. ob_dispatch r = DSending)
       (\<lambda>r. r\<lparr>ob_dispatch := DNeedsAttention, ob_last_error := Some error, ob_conflict := conflict\<rparr>)"

definition outbox_retry :: "string \<Rightarrow> outbox \<Rightarrow> outbox_error + outbox" where
  "outbox_retry n =
     transition n (\<lambda>r. ob_dispatch r = DNeedsAttention)
       (\<lambda>r. r\<lparr>ob_dispatch := DQueued, ob_next_attempt_at := 0, ob_last_error := None\<rparr>)"

definition outbox_discard :: "int \<Rightarrow> string \<Rightarrow> outbox \<Rightarrow> outbox_error + outbox" where
  "outbox_discard now n =
     transition n (\<lambda>r. ob_dispatch r \<in> {DQueued, DRateLimited, DNeedsAttention})
       (\<lambda>r. r\<lparr>ob_state := OutConfirmed, ob_dispatch := DDiscarded, ob_settled_at := Some now\<rparr>)"

definition defer_connection :: "string \<Rightarrow> int \<Rightarrow> outbox \<Rightarrow> outbox" where
  "defer_connection connection until db =
     snd (update_rows (\<lambda>r. ob_connection_id r = connection \<and> ob_state r = OutQueued
            \<and> ob_dispatch r \<in> {DQueued, DRateLimited})
          (\<lambda>r. r\<lparr>ob_next_attempt_at := max (ob_next_attempt_at r) until, ob_dispatch := DRateLimited\<rparr>) db)"

definition record_conflict :: "string \<Rightarrow> json \<Rightarrow> outbox \<Rightarrow> outbox_error + outbox" where
  "record_conflict n conflict =
     transition n (\<lambda>r. ob_dispatch r = DSending) (\<lambda>r. r\<lparr>ob_conflict := Some conflict\<rparr>)"

subsection \<open>Projection of pending edits\<close>

definition set_field :: "string \<Rightarrow> json \<Rightarrow> json_map \<Rightarrow> json_map" where
  "set_field k v m = btree_entry k (\<lambda>_. v) m"

definition edit_fields :: "provider_patch \<Rightarrow> (string \<times> json) list" where
  "edit_fields p =
     List.map_filter (\<lambda>x. x)
       [map_option (\<lambda>s. (''title'', JString s)) (pp_title p),
        map_option (\<lambda>s. (''details'', JString s)) (pp_details p),
        map_option (\<lambda>s. (''category'', JString s)) (pp_category p),
        map_option (\<lambda>x. (''priority'', JString (priority_wire x))) (pp_priority p),
        map_option (\<lambda>ts. (''tags'', JArray (map JString ts))) (pp_tags p)]"

definition unsupported_field :: "provider_patch \<Rightarrow> string option" where
  "unsupported_field p =
     map_option fst (List.find snd
       [(''status'', pp_status p \<noteq> None), (''started_phase'', pp_started_phase p \<noteq> None),
        (''up_next'', pp_up_next p \<noteq> None), (''blocked_by'', pp_blocked_by p \<noteq> None),
        (''blocked_reason'', pp_blocked_reason p \<noteq> None)])"

fun project_operations ::
  "string \<Rightarrow> string \<Rightarrow> int \<Rightarrow> outbox_operation list \<Rightarrow> json_map \<Rightarrow> outbox_error + json_map" where
  "project_operations connection native previous [] object = Inr object"
| "project_operations connection native previous (x # xs) object =
     (if oo_connection_id x \<noteq> connection \<or> oo_native_id x \<noteq> native \<or> oo_state x \<noteq> OutQueued
         \<or> oo_sequence x \<le> previous
      then Inl (InvalidProjectionOrder (oo_operation_id x))
      else case unsupported_field (oo_patch x) of
          Some field \<Rightarrow> Inl (UnsupportedProjectionField (oo_operation_id x) field)
        | None \<Rightarrow> project_operations connection native (oo_sequence x) xs
                    (fold (\<lambda>(k, v). set_field k v) (edit_fields (oo_patch x)) object))"

definition project_pending_ticket :: "json \<Rightarrow> outbox_operation list \<Rightarrow> outbox_error + json" where
  "project_pending_ticket remote pending =
     (case (Option.bind (json_get ''connection_id'' remote) as_str, Option.bind (json_get ''native_id'' remote) as_str,
            as_object remote) of
        (Some connection, Some native, Some object) \<Rightarrow>
          if pending = [] then Inr remote
          else result_bind (project_operations connection native 0 pending object) (\<lambda>projected.
            Inr (JObject (set_field ''pending_operation_ids''
              (JArray (map (\<lambda>x. JString (oo_operation_id x)) pending)) projected)))
      | _ \<Rightarrow> Inl InvalidProjectionTicket)"

subsection \<open>Invariant\<close>

definition first_pending :: "outbox \<Rightarrow> outbox_row \<Rightarrow> bool" where
  "first_pending db r =
     (\<not> list_ex (\<lambda>e. of_ticket (ob_connection_id r) (ob_native_id r) e \<and> ob_state e = OutQueued
              \<and> ob_sequence e < ob_sequence r) (ox_rows db))"

definition row_ok :: "outbox_row \<Rightarrow> bool" where
  "row_ok r =
     ((ob_state r = OutQueued \<longrightarrow> ob_dispatch r \<in> {DQueued, DSending, DRateLimited, DNeedsAttention})
      \<and> (ob_state r = OutConfirmed \<longrightarrow> ob_dispatch r \<in> {DConfirmed, DDiscarded} \<and> ob_settled_at r \<noteq> None)
      \<and> (ob_compacted r \<longrightarrow> ob_state r = OutConfirmed \<and> ob_digest r \<noteq> None)
      \<and> (\<not> ob_compacted r \<longrightarrow> ob_patch r \<noteq> None)
      \<and> (ob_id_version r = 2 \<longleftrightarrow> is_v2 (ob_operation_id r))
      \<and> (is_v2 (ob_operation_id r) \<longrightarrow> operation_timestamp_ms (ob_operation_id r) \<noteq> None))"

definition slot :: "outbox_row \<Rightarrow> string \<times> string \<times> int" where
  "slot r = (ob_connection_id r, ob_native_id r, ob_sequence r)"

definition outbox_ok :: "outbox \<Rightarrow> bool" where
  "outbox_ok db =
     (distinct (map ob_operation_id (ox_rows db)) \<and> distinct (map slot (ox_rows db)) \<and> ox_retention db \<noteq> None
      \<and> (\<forall>k n. ox_sequence db k = Some n \<longrightarrow> 1 \<le> n)
      \<and> (\<forall>r\<in>set (ox_rows db). row_ok r \<and> 1 \<le> ob_sequence r
          \<and> (\<exists>n. ox_sequence db (ob_connection_id r, ob_native_id r) = Some n \<and> ob_sequence r \<le> n)
          \<and> (ob_state r = OutQueued \<and> ob_dispatch r = DSending \<longrightarrow> first_pending db r)))"

definition empty_outbox :: outbox where
  "empty_outbox = \<lparr>ox_rows = [], ox_sequence = (\<lambda>_. None), ox_retention = None\<rparr>"

text \<open>What a statement may do to a row: its identity stays, it never becomes queued again, and it is put to
  sending only as the first of its ticket.\<close>

definition row_step :: "outbox \<Rightarrow> outbox_row \<Rightarrow> outbox_row \<Rightarrow> bool" where
  "row_step db r r' =
     (ob_operation_id r' = ob_operation_id r \<and> slot r' = slot r \<and> (row_ok r \<longrightarrow> row_ok r')
      \<and> (ob_state r' = OutQueued \<longrightarrow> ob_state r = OutQueued)
      \<and> (ob_state r' = OutQueued \<and> ob_dispatch r' = DSending \<longrightarrow> ob_dispatch r = DSending \<or> first_pending db r))"

lemma ok_map:
  assumes "outbox_ok db" "\<And>r. r \<in> set (ox_rows db) \<Longrightarrow> row_step db r (g r)"
  shows "outbox_ok (db\<lparr>ox_rows := map g (ox_rows db)\<rparr>)" (is "outbox_ok ?db")
    "pending_count (db\<lparr>ox_rows := map g (ox_rows db)\<rparr>) \<le> pending_count db"
proof -
  have keys: "map ob_operation_id (map g (ox_rows db)) = map ob_operation_id (ox_rows db)"
    "map slot (map g (ox_rows db)) = map slot (ox_rows db)"
    using assms(2) by (auto simp: row_step_def)
  have first: "first_pending ?db (g r)" if "r \<in> set (ox_rows db)" "first_pending db r" for r
  proof -
    have "ob_connection_id (g e) = ob_connection_id e \<and> ob_native_id (g e) = ob_native_id e \<and> ob_sequence (g e) = ob_sequence e
        \<and> (ob_state (g e) = OutQueued \<longrightarrow> ob_state e = OutQueued)" if "e \<in> set (ox_rows db)" for e
      using assms(2)[OF that] by (simp add: row_step_def slot_def)
    then show ?thesis using that by (auto simp: first_pending_def list_ex_iff of_ticket_def)
  qed
  have "row_ok (g r) \<and> 1 \<le> ob_sequence (g r) \<and> (\<exists>n. ox_sequence db (ob_connection_id (g r), ob_native_id (g r)) = Some n \<and> ob_sequence (g r) \<le> n)
      \<and> (ob_state (g r) = OutQueued \<and> ob_dispatch (g r) = DSending \<longrightarrow> first_pending ?db (g r))"
    if "r \<in> set (ox_rows db)" for r
    using assms(1) assms(2)[OF that] first[OF that] that by (auto simp: outbox_ok_def row_step_def slot_def)
  moreover have "distinct (map ob_operation_id (map g (ox_rows db)))" "distinct (map slot (map g (ox_rows db)))"
    using assms(1) unfolding keys outbox_ok_def by blast+
  ultimately show "outbox_ok ?db" using assms(1) unfolding outbox_ok_def by (auto simp del: map_map)
  have "length (filter (\<lambda>r. ob_state r = OutQueued) (map g rs)) \<le> length (filter (\<lambda>r. ob_state r = OutQueued) rs)"
    if "set rs \<subseteq> set (ox_rows db)" for rs
    using that assms(2) by (induction rs) (auto simp: row_step_def)
  then show "pending_count ?db \<le> pending_count db" by (simp add: pending_count_def)
qed

lemma ok_update:
  assumes "outbox_ok db" "\<And>r. r \<in> set (ox_rows db) \<Longrightarrow> P r \<Longrightarrow> row_step db r (f r)" "update_rows P f db = (n, db')"
  shows "outbox_ok db'" "pending_count db' \<le> pending_count db"
proof -
  have s: "row_step db r (if P r then f r else r)" if "r \<in> set (ox_rows db)" for r
    using assms(1) assms(2)[OF that] that by (auto simp: row_step_def outbox_ok_def)
  have "db' = db\<lparr>ox_rows := map (\<lambda>r. if P r then f r else r) (ox_rows db)\<rparr>"
    using assms(3) by (simp add: update_rows_def)
  then show "outbox_ok db'" "pending_count db' \<le> pending_count db" using ok_map[OF assms(1) s] by simp_all
qed

text \<open>Removing settled rows.\<close>

lemma ok_filter:
  assumes "outbox_ok db" "\<And>r. r \<in> set (ox_rows db) \<Longrightarrow> \<not> Q r \<Longrightarrow> ob_state r = OutConfirmed"
  shows "outbox_ok (db\<lparr>ox_rows := filter Q (ox_rows db), ox_retention := Some t\<rparr>)"
    "pending_count (db\<lparr>ox_rows := filter Q (ox_rows db), ox_retention := Some t\<rparr>) = pending_count db"
proof -
  have "first_pending (db\<lparr>ox_rows := filter Q (ox_rows db), ox_retention := Some t\<rparr>) r" if "first_pending db r" for r
    using that by (auto simp: first_pending_def list_ex_iff)
  then show "outbox_ok (db\<lparr>ox_rows := filter Q (ox_rows db), ox_retention := Some t\<rparr>)"
    using assms(1) by (auto simp: outbox_ok_def distinct_map_filter)
  have "filter (\<lambda>r. ob_state r = OutQueued) (filter Q (ox_rows db)) = filter (\<lambda>r. ob_state r = OutQueued) (ox_rows db)"
    unfolding filter_filter using assms(2) by (intro filter_cong) (auto, metis outbox_state.distinct(1))
  then show "pending_count (db\<lparr>ox_rows := filter Q (ox_rows db), ox_retention := Some t\<rparr>) = pending_count db"
    by (simp add: pending_count_def)
qed

lemma ok_prune:
  assumes "outbox_ok db"
  shows "outbox_ok (snd (prune_terminal_rows now db))" "pending_count (snd (prune_terminal_rows now db)) = pending_count db"
proof -
  obtain saved cutoff where r: "ox_retention db = Some (saved, cutoff)" using assms by (auto simp: outbox_ok_def)
  note f = ok_filter[OF assms, of "\<lambda>r. \<not> prunable now (max saved (sat64 (sat64 (now - SETTLED_PAYLOAD_RETENTION) * 1000))) cutoff r"]
  show "outbox_ok (snd (prune_terminal_rows now db))" "pending_count (snd (prune_terminal_rows now db)) = pending_count db"
    using f by (simp_all add: prune_terminal_rows_def r Let_def prunable_def)
qed

lemma ok_compact:
  assumes "outbox_ok db"
  shows "outbox_ok (snd (compact_terminal_before E cutoff db))"
    "pending_count (snd (compact_terminal_before E cutoff db)) \<le> pending_count db"
proof -
  obtain n db' where u: "update_rows (compactable cutoff) (compact_row E) db = (n, db')" by force
  have "row_step db r (compact_row E r)" if "compactable cutoff r" for r
    using that by (auto simp: row_step_def compact_row_def compactable_def slot_def row_ok_def)
  from ok_update[OF assms this u] u
  show "outbox_ok (snd (compact_terminal_before E cutoff db))"
    "pending_count (snd (compact_terminal_before E cutoff db)) \<le> pending_count db"
    by (simp_all add: compact_terminal_before_def)
qed

lemma ok_insert:
  assumes "outbox_ok db" "row_of db (ad_operation_id a) = None" "admission_window now db (ad_operation_id a) = Inr ()"
  shows "outbox_ok (insert_admission E a db)" "pending_count (insert_admission E a db) = Suc (pending_count db)"
proof -
  let ?key = "(ad_connection_id a, ad_native_id a)"
  have fresh: "ad_operation_id a \<notin> ob_operation_id ` set (ox_rows db)"
    using assms(2) by (auto simp: row_of_def find_None_iff)
  have below: "ob_sequence r < next_sequence db ?key" if "r \<in> set (ox_rows db)" "(ob_connection_id r, ob_native_id r) = ?key" for r
    using assms(1) that by (fastforce simp: outbox_ok_def next_sequence_def)
  then have slots: "(ad_connection_id a, ad_native_id a, next_sequence db ?key) \<notin> slot ` set (ox_rows db)"
    by (force simp: slot_def)
  have pos: "1 \<le> next_sequence db ?key" using assms(1) by (force simp: outbox_ok_def next_sequence_def split: option.splits)
  have v2: "is_v2 (ad_operation_id a) \<Longrightarrow> operation_timestamp_ms (ad_operation_id a) \<noteq> None"
    using assms(3) by (auto simp: admission_window_def Let_def split: prod.splits option.splits if_splits)
  have first: "first_pending (insert_admission E a db) r" if "first_pending db r" "r \<in> set (ox_rows db)" for r
    using that below[of r] by (auto simp: first_pending_def insert_admission_def Let_def of_ticket_def)
  have seq: "\<exists>n. ox_sequence (insert_admission E a db) (ob_connection_id r, ob_native_id r) = Some n \<and> ob_sequence r \<le> n"
    if "r \<in> set (ox_rows db)" for r
  proof (cases "(ob_connection_id r, ob_native_id r) = ?key")
    case True
    then show ?thesis using below[OF that] by (auto simp: insert_admission_def Let_def)
  next
    case False
    then show ?thesis using assms(1) that by (auto simp: outbox_ok_def insert_admission_def Let_def)
  qed
  show "outbox_ok (insert_admission E a db)"
    unfolding outbox_ok_def using assms(1) fresh slots v2 first seq pos
    by (auto simp: outbox_ok_def insert_admission_def Let_def slot_def row_ok_def)
  show "pending_count (insert_admission E a db) = Suc (pending_count db)"
    by (simp add: pending_count_def insert_admission_def Let_def)
qed

lemma admit_one_cases:
  assumes "admit_one E m p now a (added, db) = Inr (out, added', db')"
  obtains (known) r where "row_of db (ad_operation_id a) = Some r" "admit_existing E a r = Inr ()" "added' = added" "db' = db"
  | (fresh) "row_of db (ad_operation_id a) = None" "admission_window now db (ad_operation_id a) = Inr ()"
      "p + added < m" "added' = added + 1" "db' = insert_admission E a db"
  using assms by (auto simp: admit_one_def result_bind_eq_Inr Let_def split: option.splits if_splits)

lemma ok_admit_all:
  assumes "admit_all E m p clock as (added, db) = Inr (outs, db')" "outbox_ok db" "pending_count db \<le> p + added" "p + added \<le> m"
  shows "outbox_ok db' \<and> pending_count db' \<le> m"
  using assms
proof (induction as arbitrary: clock added db outs)
  case (Cons a as)
  obtain out added1 db1 outs1 where o: "admit_one E m p (clock 0) a (added, db) = Inr (out, added1, db1)"
    and r: "admit_all E m p (\<lambda>i. clock (Suc i)) as (added1, db1) = Inr (outs1, db')"
    using Cons.prems(1) by (auto simp: result_bind_eq_Inr split: prod.splits)
  from o show ?case
  proof (cases rule: admit_one_cases)
    case known
    then show ?thesis using Cons.IH[OF r] Cons.prems by simp
  next
    case fresh
    then show ?thesis using Cons.IH[OF r] Cons.prems ok_insert[OF Cons.prems(2) fresh(1,2)] by simp
  qed
qed simp

lemma ok_admit_batch:
  assumes "outbox_ok db" "pending_count db \<le> m"
  shows "outbox_ok (snd (admit_batch E clock m as db))" "pending_count (snd (admit_batch E clock m as db)) \<le> m"
proof -
  let ?db2 = "snd (prune_terminal_rows (clock 1) (snd (compact_terminal_before E (clock 0 - SETTLED_PAYLOAD_RETENTION) db)))"
  have ok: "outbox_ok ?db2" by (intro ok_prune ok_compact assms)
  have le: "pending_count ?db2 \<le> m"
    using ok_prune(2)[OF ok_compact(1)[OF assms(1)]] ok_compact(2)[OF assms(1)] assms(2) by (metis order_trans)
  show "outbox_ok (snd (admit_batch E clock m as db))" "pending_count (snd (admit_batch E clock m as db)) \<le> m"
    using ok le ok_admit_all[of E m "pending_count ?db2" "\<lambda>i. clock (i + 2)" as 0 ?db2]
    by (auto simp: admit_batch_def Let_def split: sum.splits)
qed

lemma foldl_max_ge: "(m :: int) \<le> foldl (\<lambda>m x. max m (f x)) m xs \<and> (\<forall>x\<in>set xs. f x \<le> foldl (\<lambda>m x. max m (f x)) m xs)"
proof (induction xs arbitrary: m)
  case (Cons x xs)
  show ?case using Cons[of "max m (f x)"] by fastforce
qed simp

lemma max_sequence_ge:
  assumes "r \<in> set rows"
  shows "\<exists>n. max_sequence rows (ob_connection_id r, ob_native_id r) = Some n \<and> ob_sequence r \<le> n"
proof -
  have m: "r \<in> set (filter (\<lambda>x. (ob_connection_id x, ob_native_id x) = (ob_connection_id r, ob_native_id r)) rows)"
    using assms by simp
  then obtain x xs where x: "filter (\<lambda>x. (ob_connection_id x, ob_native_id x) = (ob_connection_id r, ob_native_id r)) rows = x # xs"
    by (metis list.exhaust list.distinct(1) empty_iff list.set(1))
  then have "r = x \<or> r \<in> set xs" using m by simp
  then show ?thesis using foldl_max_ge[of "ob_sequence x" ob_sequence xs] unfolding max_sequence_def x by auto
qed

lemma max_sequence_pos:
  assumes "\<forall>r\<in>set rows. 1 \<le> ob_sequence r" "max_sequence rows k = Some n" shows "1 \<le> n"
proof -
  obtain x xs where x: "filter (\<lambda>r. (ob_connection_id r, ob_native_id r) = k) rows = x # xs"
    and n: "n = foldl (\<lambda>m x. max m (ob_sequence x)) (ob_sequence x) xs"
    using assms(2) by (auto simp: max_sequence_def split: list.splits)
  have "x \<in> set (filter (\<lambda>r. (ob_connection_id r, ob_native_id r) = k) rows)" unfolding x by simp
  then have "x \<in> set rows" by simp
  with assms(1) have "1 \<le> ob_sequence x" by blast
  then show ?thesis using foldl_max_ge[of "ob_sequence x" ob_sequence xs] n by linarith
qed

lemma ok_reopened:
  fixes t now :: int
  assumes "outbox_ok db \<or> db = empty_outbox"
  defines "db1 \<equiv> db\<lparr>ox_sequence := merged_sequence db,
     ox_retention := (case ox_retention db of
        Some r \<Rightarrow> Some r | None \<Rightarrow> Some (0, sat64 (sat64 (t + LEGACY_ADMISSION_GRACE) * 1000)))\<rparr>"
  shows "outbox_ok (db1\<lparr>ox_rows := map (reopened_row now) (ox_rows db1)\<rparr>)"
    "pending_count (db1\<lparr>ox_rows := map (reopened_row now) (ox_rows db1)\<rparr>) \<le> pending_count db"
proof -
  have "\<exists>n. merged_sequence db (ob_connection_id r, ob_native_id r) = Some n \<and> ob_sequence r \<le> n"
    if "r \<in> set (ox_rows db)" for r
    using max_sequence_ge[OF that] by (auto simp: merged_sequence_def split: option.splits)
  moreover have "1 \<le> n" if "merged_sequence db k = Some n" for k n
  proof -
    have "\<forall>r\<in>set (ox_rows db). 1 \<le> ob_sequence r" "\<forall>k n. ox_sequence db k = Some n \<longrightarrow> 1 \<le> n"
      using assms(1) by (auto simp: outbox_ok_def empty_outbox_def)
    moreover from this(1) have "\<forall>n. max_sequence (ox_rows db) k = Some n \<longrightarrow> 1 \<le> n" using max_sequence_pos by blast
    ultimately show ?thesis using that unfolding merged_sequence_def
      by (fastforce split: option.splits simp: max_def)
  qed
  ultimately have ok1: "outbox_ok db1"
    using assms(1) unfolding outbox_ok_def by (auto simp: db1_def first_pending_def empty_outbox_def split: option.splits)
  have "row_step db1 r (reopened_row now r)" for r
    by (auto simp: row_step_def reopened_row_def Let_def slot_def row_ok_def)
  from ok_map[OF ok1 this]
  show "outbox_ok (db1\<lparr>ox_rows := map (reopened_row now) (ox_rows db1)\<rparr>)"
    "pending_count (db1\<lparr>ox_rows := map (reopened_row now) (ox_rows db1)\<rparr>) \<le> pending_count db"
    by (simp_all add: pending_count_def db1_def)
qed

lemma ok_open:
  assumes "outbox_ok db \<or> db = empty_outbox" "outbox_open E clock m db = Inr db'"
  shows "outbox_ok db'" "pending_count db' \<le> pending_count db"
proof -
  define db1 where "db1 = db\<lparr>ox_sequence := merged_sequence db,
     ox_retention := (case ox_retention db of
        Some r \<Rightarrow> Some r | None \<Rightarrow> Some (0, sat64 (sat64 (clock 0 + LEGACY_ADMISSION_GRACE) * 1000)))\<rparr>"
  define db2 where "db2 = db1\<lparr>ox_rows := map (reopened_row (clock 1)) (ox_rows db1)\<rparr>"
  have db': "db' = snd (prune_terminal_rows (clock 3)
      (snd (compact_terminal_before E (clock 2 - SETTLED_PAYLOAD_RETENTION) db2)))"
    using assms(2) by (auto simp: outbox_open_def db2_def db1_def Let_def split: if_splits)
  have ok2: "outbox_ok db2" "pending_count db2 \<le> pending_count db"
    unfolding db2_def db1_def by (rule ok_reopened[OF assms(1)])+
  then show "outbox_ok db'" unfolding db' by (intro ok_prune ok_compact)
  show "pending_count db' \<le> pending_count db"
    unfolding db' ok_prune(2)[OF ok_compact(1)[OF ok2(1)]] using ok_compact(2)[OF ok2(1)] ok2(2) by (metis order_trans)
qed

subsection \<open>Claims\<close>

lemma claimable_first: "claimable db now r \<longleftrightarrow>
    ob_state r = OutQueued \<and> (ob_dispatch r = DQueued \<or> ob_dispatch r = DRateLimited) \<and> ob_next_attempt_at r \<le> now
    \<and> first_pending db r"
  by (auto simp: claimable_def first_pending_def)

lemma fold_claim:
  assumes "distinct (map ob_operation_id rows)"
  shows "fold claim_row rows db = db\<lparr>ox_rows :=
    map (\<lambda>x. if ob_operation_id x \<in> ob_operation_id ` set rows then sending_row x else x) (ox_rows db)\<rparr>"
  using assms
proof (induction rows arbitrary: db)
  case (Cons r rows)
  have "ob_operation_id (sending_row x) = ob_operation_id x" for x by (simp add: sending_row_def)
  with Cons.IH[of "claim_row r db"] Cons.prems show ?case
    by (auto simp: claim_row_def update_rows_def intro!: map_cong)
qed simp

definition claim_rows :: "outbox \<Rightarrow> int \<Rightarrow> nat \<Rightarrow> outbox_row list" where
  "claim_rows db now limit = take limit (sort_by sequence_cmp (filter (claimable db now) (ox_rows db)))"

lemma claim_rows_props:
  assumes "outbox_ok db"
  shows "distinct (map ob_operation_id (claim_rows db now limit))"
    "r \<in> set (claim_rows db now limit) \<Longrightarrow> r \<in> set (ox_rows db) \<and> claimable db now r"
proof -
  show "distinct (map ob_operation_id (claim_rows db now limit))"
    using assms unfolding claim_rows_def take_map[symmetric]
    by (intro distinct_take) (simp add: outbox_ok_def distinct_map_filter)
  show "r \<in> set (claim_rows db now limit) \<Longrightarrow> r \<in> set (ox_rows db) \<and> claimable db now r"
    unfolding claim_rows_def by (auto dest!: in_set_takeD)
qed

lemma claimed_row_step:
  assumes "outbox_ok db" "x \<in> set (ox_rows db)" "ob_operation_id x \<in> ob_operation_id ` set (claim_rows db now limit)"
  shows "x \<in> set (claim_rows db now limit)" "row_step db x (sending_row x)"
proof -
  obtain r where r: "r \<in> set (claim_rows db now limit)" "ob_operation_id r = ob_operation_id x" using assms(3) by auto
  then have "r = x" using claim_rows_props(2)[OF assms(1)] assms(1,2)
    unfolding outbox_ok_def distinct_map by (metis inj_onD)
  with r show "x \<in> set (claim_rows db now limit)" by simp
  then have "claimable db now x" using claim_rows_props(2)[OF assms(1)] by blast
  then show "row_step db x (sending_row x)"
    by (auto simp: row_step_def sending_row_def slot_def row_ok_def claimable_first)
qed

lemma ok_claim:
  assumes "outbox_ok db" "claim_ready now limit db = (outs, db')"
  shows "outbox_ok db'" "pending_count db' \<le> pending_count db"
proof -
  let ?g = "\<lambda>x. if ob_operation_id x \<in> ob_operation_id ` set (claim_rows db now limit) then sending_row x else x"
  have db': "db' = db\<lparr>ox_rows := map ?g (ox_rows db)\<rparr>"
    using assms(2) fold_claim[OF claim_rows_props(1)[OF assms(1)]] by (simp add: claim_ready_def claim_rows_def Let_def)
  have "row_step db x (?g x)" if "x \<in> set (ox_rows db)" for x
    using claimed_row_step(2)[OF assms(1) that] assms(1) that by (auto simp: row_step_def outbox_ok_def)
  from ok_map[OF assms(1) this] show "outbox_ok db'" "pending_count db' \<le> pending_count db" by (simp_all add: db')
qed

lemma ok_transition:
  assumes "outbox_ok db" "transition n P f db = Inr db'"
    "\<And>r. r \<in> set (ox_rows db) \<Longrightarrow> ob_state r = OutQueued \<Longrightarrow> P r \<Longrightarrow> row_step db r (f r)"
  shows "outbox_ok db'" "pending_count db' \<le> pending_count db"
proof -
  obtain k where u: "update_rows (\<lambda>r. with_id n r \<and> P r) f db = (k, db')"
    using assms(2) by (auto simp: transition_def split: prod.splits if_splits)
  have s: "row_step db r (f r)" if "r \<in> set (ox_rows db)" "with_id n r \<and> P r" for r
    using assms(3) that by (simp add: with_id_def)
  show "outbox_ok db'" "pending_count db' \<le> pending_count db" by (rule ok_update[OF assms(1) s u]; assumption)+
qed

subsection \<open>Histories\<close>

datatype outbox_op =
    OxAdmit "nat \<Rightarrow> int" "admission list"
  | OxClaim int nat
  | OxConfirm int string
  | OxSettle int string
  | OxDefer string int string bool
  | OxAttention string string "json option"
  | OxRetry string
  | OxDiscard int string
  | OxDeferConnection string int
  | OxConflict string json
  | OxCompact int
  | OxPrune int
  | OxReopen "nat \<Rightarrow> int"

definition kept_on_error :: "outbox \<Rightarrow> outbox_error + outbox \<Rightarrow> outbox" where
  "kept_on_error db res = (case res of Inl _ \<Rightarrow> db | Inr db' \<Rightarrow> db')"

fun outbox_apply :: "outbox_env \<Rightarrow> nat \<Rightarrow> outbox_op \<Rightarrow> outbox \<Rightarrow> outbox" where
  "outbox_apply E m (OxAdmit clock as) db = snd (admit_batch E clock m as db)"
| "outbox_apply E m (OxClaim now limit) db = snd (claim_ready now limit db)"
| "outbox_apply E m (OxConfirm now n) db = snd (confirm now n db)"
| "outbox_apply E m (OxSettle now n) db = snd (settle_applied now n db)"
| "outbox_apply E m (OxDefer n until error limited) db = kept_on_error db (outbox_defer n until error limited db)"
| "outbox_apply E m (OxAttention n error conflict) db = kept_on_error db (needs_attention n error conflict db)"
| "outbox_apply E m (OxRetry n) db = kept_on_error db (outbox_retry n db)"
| "outbox_apply E m (OxDiscard now n) db = kept_on_error db (outbox_discard now n db)"
| "outbox_apply E m (OxDeferConnection connection until) db = defer_connection connection until db"
| "outbox_apply E m (OxConflict n conflict) db = kept_on_error db (record_conflict n conflict db)"
| "outbox_apply E m (OxCompact cutoff) db = snd (compact_terminal_before E cutoff db)"
| "outbox_apply E m (OxPrune now) db = snd (prune_terminal_rows now db)"
| "outbox_apply E m (OxReopen clock) db = kept_on_error db (outbox_open E clock m db)"

definition outbox_run :: "outbox_env \<Rightarrow> nat \<Rightarrow> outbox_op list \<Rightarrow> outbox \<Rightarrow> outbox" where
  "outbox_run E m ops db = fold (outbox_apply E m) ops db"

lemmas row_steps = row_step_def slot_def row_ok_def

lemma kept_cases: "(\<And>db'. res = Inr db' \<Longrightarrow> Q db') \<Longrightarrow> Q db \<Longrightarrow> Q (kept_on_error db res)"
  by (simp add: kept_on_error_def split: sum.splits)

definition bounded_ok :: "nat \<Rightarrow> outbox \<Rightarrow> bool" where
  "bounded_ok m db = (outbox_ok db \<and> pending_count db \<le> m)"

lemma bounded_update:
  assumes "bounded_ok m db" "\<And>r. r \<in> set (ox_rows db) \<Longrightarrow> P r \<Longrightarrow> row_step db r (f r)"
  shows "bounded_ok m (snd (update_rows P f db))"
proof -
  have ok: "outbox_ok db" "pending_count db \<le> m" using assms(1) by (simp_all add: bounded_ok_def)
  obtain n db' where u: "update_rows P f db = (n, db')" by force
  then show ?thesis using ok_update[OF ok(1) assms(2) u] ok(2) by (simp add: bounded_ok_def)
qed

lemma bounded_transition:
  assumes "bounded_ok m db" "\<And>r. r \<in> set (ox_rows db) \<Longrightarrow> ob_state r = OutQueued \<Longrightarrow> P r \<Longrightarrow> row_step db r (f r)"
  shows "bounded_ok m (kept_on_error db (transition n P f db))"
proof (rule kept_cases)
  fix db' assume t: "transition n P f db = Inr db'"
  have ok: "outbox_ok db" "pending_count db \<le> m" using assms(1) by (simp_all add: bounded_ok_def)
  show "bounded_ok m db'" using ok_transition[OF ok(1) t assms(2)] ok(2) by (simp add: bounded_ok_def)
qed (rule assms(1))

lemma bounded_apply:
  assumes "bounded_ok m db"
  shows "bounded_ok m (outbox_apply E m op db)"
proof -
  have ok: "outbox_ok db" "pending_count db \<le> m" using assms by (simp_all add: bounded_ok_def)
  show ?thesis
  proof (cases op)
    case (OxAdmit clock as)
    then show ?thesis using ok_admit_batch[OF ok] by (simp add: bounded_ok_def)
  next
    case (OxClaim now limit)
    obtain outs db' where c: "claim_ready now limit db = (outs, db')" by force
    then show ?thesis using ok_claim[OF ok(1) c] ok(2) OxClaim by (simp add: bounded_ok_def)
  next
    case (OxCompact cutoff)
    then show ?thesis using ok_compact[OF ok(1), of E cutoff] ok(2) by (simp add: bounded_ok_def)
  next
    case (OxPrune now)
    then show ?thesis using ok_prune[OF ok(1), of now] ok(2) by (simp add: bounded_ok_def)
  next
    case (OxReopen clock)
    have "bounded_ok m db'" if "outbox_open E clock m db = Inr db'" for db'
      using ok_open[OF disjI1[OF ok(1)] that] ok(2) by (simp add: bounded_ok_def)
    then show ?thesis using OxReopen assms by (auto intro: kept_cases)
  next
    case (OxConfirm now n)
    have "bounded_ok m (snd (update_rows (\<lambda>r. with_id n r \<and> ob_dispatch r = DSending) (confirmed_row now) db))"
      by (rule bounded_update[OF assms]) (auto simp: row_steps confirmed_row_def with_id_def)
    then show ?thesis using OxConfirm by (simp add: confirm_def case_prod_beta)
  next
    case (OxSettle now n)
    have "bounded_ok m (snd (update_rows (\<lambda>r. with_id n r \<and> ob_dispatch r \<noteq> DSending) (confirmed_row now) db))"
      by (rule bounded_update[OF assms]) (auto simp: row_steps confirmed_row_def with_id_def)
    then show ?thesis using OxSettle by (simp add: settle_applied_def case_prod_beta)
  next
    case (OxDefer n until error limited)
    show ?thesis unfolding OxDefer outbox_apply.simps outbox_defer_def
      by (rule bounded_transition[OF assms]) (auto simp: row_steps)
  next
    case (OxAttention n error conflict)
    then show ?thesis by (simp add: needs_attention_def) (rule bounded_transition[OF assms], auto simp: row_steps)
  next
    case (OxRetry n)
    then show ?thesis by (simp add: outbox_retry_def) (rule bounded_transition[OF assms], auto simp: row_steps)
  next
    case (OxDiscard now n)
    then show ?thesis by (simp add: outbox_discard_def) (rule bounded_transition[OF assms], auto simp: row_steps)
  next
    case (OxDeferConnection connection until)
    then show ?thesis by (simp add: defer_connection_def) (rule bounded_update[OF assms], auto simp: row_steps)
  next
    case (OxConflict n conflict)
    then show ?thesis by (simp add: record_conflict_def) (rule bounded_transition[OF assms], auto simp: row_steps)
  qed
qed

lemma outbox_bounded_run: "bounded_ok m db \<Longrightarrow> bounded_ok m (outbox_run E m ops db)"
  unfolding outbox_run_def by (induction ops arbitrary: db) (simp_all add: bounded_apply)

lemma bounded_opened:
  assumes "outbox_open E clock m empty_outbox = Inr db" shows "bounded_ok m db"
proof -
  have "pending_count db \<le> pending_count empty_outbox" "outbox_ok db"
    using ok_open[OF _ assms] by (simp_all add: empty_outbox_def)
  then show ?thesis by (simp add: bounded_ok_def pending_count_def empty_outbox_def)
qed

subsection \<open>The fence against a second admission\<close>

text \<open>What a row remembers of the payload it was admitted with.\<close>

definition evidence :: "outbox_env \<Rightarrow> string \<Rightarrow> outbox_row \<Rightarrow> bool" where
  "evidence E p r = (if ob_compacted r then ob_digest r = Some (payload_digest E p) else ob_payload r = p)"

text \<open>An operation is in the table with its evidence, or its id is below the admission floor.\<close>

definition fenced :: "outbox_env \<Rightarrow> string \<Rightarrow> string \<Rightarrow> outbox \<Rightarrow> bool" where
  "fenced E n p db =
     (case row_of db n of
        Some r \<Rightarrow> evidence E p r
      | None \<Rightarrow> (\<exists>t floor cutoff. operation_timestamp_ms n = Some t \<and> ox_retention db = Some (floor, cutoff) \<and> t < floor))"

lemma row_of_map:
  assumes "\<And>r. r \<in> set (ox_rows db) \<Longrightarrow> ob_operation_id (g r) = ob_operation_id r"
  shows "row_of (db\<lparr>ox_rows := map g (ox_rows db)\<rparr>) n = map_option g (row_of db n)"
proof -
  have "List.find (\<lambda>r. ob_operation_id r = n) (map g rs) = map_option g (List.find (\<lambda>r. ob_operation_id r = n) rs)"
    if "set rs \<subseteq> set (ox_rows db)" for rs
    using that assms by (induction rs) auto
  then show ?thesis by (simp add: row_of_def)
qed

lemma row_of_in: "row_of db n = Some r \<Longrightarrow> r \<in> set (ox_rows db) \<and> ob_operation_id r = n"
  by (auto simp: row_of_def find_Some_iff)

lemma row_of_Some:
  assumes "outbox_ok db" "r \<in> set (ox_rows db)" "ob_operation_id r = n" shows "row_of db n = Some r"
proof -
  have "row_of db n \<noteq> None" using assms(2,3) by (auto simp: row_of_def find_None_iff)
  then obtain x where x: "row_of db n = Some x" by blast
  then have "x \<in> set (ox_rows db)" "ob_operation_id x = ob_operation_id r" using row_of_in assms(3) by auto
  then have "x = r" using assms(1,2) unfolding outbox_ok_def distinct_map by (metis inj_onD)
  with x show ?thesis by simp
qed

lemma fenced_map:
  assumes "fenced E n p db"
    "\<And>r. r \<in> set (ox_rows db) \<Longrightarrow> ob_operation_id (g r) = ob_operation_id r \<and> (evidence E p r \<longrightarrow> evidence E p (g r))"
  shows "fenced E n p (db\<lparr>ox_rows := map g (ox_rows db)\<rparr>)"
  using assms row_of_in row_of_map[of db g n] unfolding fenced_def by (fastforce split: option.splits)

lemma fenced_update:
  assumes "fenced E n p db"
    "\<And>r. r \<in> set (ox_rows db) \<Longrightarrow> P r \<Longrightarrow> ob_operation_id (f r) = ob_operation_id r \<and> (evidence E p r \<longrightarrow> evidence E p (f r))"
  shows "fenced E n p (snd (update_rows P f db))"
  using fenced_map[OF assms(1), of "\<lambda>r. if P r then f r else r"] assms(2) by (simp add: update_rows_def)

lemma fenced_transition:
  assumes "fenced E n p db"
    "\<And>r. ob_operation_id (f r) = ob_operation_id r \<and> (evidence E p r \<longrightarrow> evidence E p (f r))"
  shows "fenced E n p (kept_on_error db (transition k P f db))"
  using fenced_update[OF assms(1), of "\<lambda>r. with_id k r \<and> P r" f] assms
  by (auto simp: kept_on_error_def transition_def case_prod_beta)

lemma timestamp_digits:
  assumes "operation_timestamp_ms n = Some t" shows "sql_integer (take 13 (drop 3 n)) = t"
proof -
  obtain r ts rnd where r: "strip_prefix ''v2:'' n = Some r" "split_once '':'' r = Some (ts, rnd)"
    and ts: "length ts = 13" "list_all is_ascii_digit ts" "map_option int (parse_digits ts) = Some t"
    using assms by (auto simp: operation_timestamp_ms_def bind_eq_Some_conv split: if_splits)
  have "n = ''v2:'' @ ts @ '':'' @ rnd" using r split_once_Some by (metis strip_prefix_Some)
  then have e: "take 13 (drop 3 n) = ts" using ts(1) by simp
  obtain c cs where c: "ts = c # cs" "is_ascii_digit c" using ts(1,2) by (cases ts) auto
  then have "\<not> ascii_ws c" "c \<noteq> CHR ''-''" "c \<noteq> CHR ''+''"
    by (auto simp: is_ascii_digit_def ascii_ws_def Let_def)
  then have "dropWhile ascii_ws ts = ts" "\<not> starts_with ''-'' ts" "\<not> starts_with ''+'' ts"
    by (simp_all add: c starts_with_def)
  note head = this
  have tw: "takeWhile is_ascii_digit ts = ts" using ts(2) by (simp add: takeWhile_eq_all_conv list_all_iff)
  obtain z where z: "parse_digits ts = Some z" "t = int z" using ts(3) by auto
  show ?thesis unfolding e sql_integer_def Let_def by (simp add: head tw z unwrap_or_def)
qed

lemma fenced_prune:
  assumes "fenced E n p db" "outbox_ok db" "is_v2 n"
  shows "fenced E n p (snd (prune_terminal_rows now db))"
proof -
  obtain saved cutoff where ret: "ox_retention db = Some (saved, cutoff)" using assms(2) by (auto simp: outbox_ok_def)
  define floor where "floor = max saved (sat64 (sat64 (now - SETTLED_PAYLOAD_RETENTION) * 1000))"
  define db' where "db' = snd (prune_terminal_rows now db)"
  have db': "ox_rows db' = filter (\<lambda>r. \<not> prunable now floor cutoff r) (ox_rows db)" "ox_retention db' = Some (floor, cutoff)"
    by (simp_all add: db'_def prune_terminal_rows_def ret Let_def floor_def)
  have ok': "outbox_ok db'" using ok_prune[OF assms(2)] by (simp add: db'_def)
  show ?thesis
  proof (cases "row_of db n")
    case None
    then have "row_of db' n = None" by (auto simp: row_of_def db' find_None_iff)
    with None assms(1) show ?thesis unfolding db'_def[symmetric] by (auto simp: fenced_def ret db' floor_def)
  next
    case (Some r)
    note r = row_of_in[OF Some]
    show ?thesis
    proof (cases "prunable now floor cutoff r")
      case True
      have "row_ok r" using assms(2) r by (simp add: outbox_ok_def)
      then obtain t where t: "operation_timestamp_ms n = Some t" "ob_id_version r = 2"
        using r assms(3) by (auto simp: row_ok_def)
      then have "t < floor" using True timestamp_digits[OF t(1)] r by (simp add: prunable_def)
      moreover have "row_of db' n = None"
      proof -
        have "x = r" if "x \<in> set (ox_rows db)" "ob_operation_id x = n" for x
          using row_of_Some[OF assms(2) that] Some by simp
        with True show ?thesis by (auto simp: row_of_def db' find_None_iff)
      qed
      ultimately show ?thesis unfolding db'_def[symmetric] by (simp add: fenced_def t db')
    next
      case False
      then have "row_of db' n = Some r" using row_of_Some[OF ok'] r by (simp add: db')
      then show ?thesis using assms(1) Some unfolding db'_def[symmetric] by (simp add: fenced_def)
    qed
  qed
qed

lemma fenced_compact:
  assumes "fenced E n p db" shows "fenced E n p (snd (compact_terminal_before E cutoff db))"
  unfolding compact_terminal_before_def
  by (rule fenced_update[OF assms]) (auto simp: compact_row_def compactable_def evidence_def)

lemma fenced_open:
  assumes "fenced E n p db" "outbox_ok db" "is_v2 n" "outbox_open E clock m db = Inr db'"
  shows "fenced E n p db'"
proof -
  define db1 where "db1 = db\<lparr>ox_sequence := merged_sequence db,
     ox_retention := (case ox_retention db of
        Some r \<Rightarrow> Some r | None \<Rightarrow> Some (0, sat64 (sat64 (clock 0 + LEGACY_ADMISSION_GRACE) * 1000)))\<rparr>"
  define db2 where "db2 = db1\<lparr>ox_rows := map (reopened_row (clock 1)) (ox_rows db1)\<rparr>"
  have db': "db' = snd (prune_terminal_rows (clock 3)
      (snd (compact_terminal_before E (clock 2 - SETTLED_PAYLOAD_RETENTION) db2)))"
    using assms(4) by (auto simp: outbox_open_def db2_def db1_def Let_def split: if_splits)
  have "fenced E n p db1" using assms(1) by (auto simp: db1_def fenced_def row_of_def split: option.splits)
  then have f2: "fenced E n p db2"
    unfolding db2_def by (rule fenced_map) (simp add: reopened_row_def evidence_def Let_def)
  have "outbox_ok db2" unfolding db2_def db1_def by (rule ok_reopened[OF disjI1[OF assms(2)]])
  with fenced_prune[OF fenced_compact[OF f2] ok_compact(1) assms(3)] show ?thesis by (simp add: db')
qed

lemma fenced_window:
  assumes "fenced E n p db" "is_v2 n" "row_of db n = None" shows "admission_window now db n \<noteq> Inr ()"
  using assms by (auto simp: fenced_def admission_window_def Let_def split: option.splits if_splits)

lemma find_row_append: "List.find P (xs @ ys) = (case List.find P xs of Some x \<Rightarrow> Some x | None \<Rightarrow> List.find P ys)"
  by (induction xs) auto

lemma fenced_insert:
  assumes "fenced E n p db" "ad_operation_id a \<noteq> n" shows "fenced E n p (insert_admission E a db)"
proof -
  have "row_of (insert_admission E a db) n = row_of db n"
    using assms(2) by (simp add: row_of_def insert_admission_def Let_def find_row_append split: option.splits)
  moreover have "ox_retention (insert_admission E a db) = ox_retention db" by (simp add: insert_admission_def Let_def)
  ultimately show ?thesis using assms(1) unfolding fenced_def by (simp split: option.splits)
qed

lemma fenced_admit_one:
  assumes "admit_one E m c now a (added, db) = Inr (out, added', db')" "fenced E n p db" "is_v2 n"
  shows "fenced E n p db'"
  using assms(1)
proof (cases rule: admit_one_cases)
  case fresh
  then have "ad_operation_id a \<noteq> n" using fenced_window[OF assms(2,3)] by auto
  with fresh show ?thesis using fenced_insert[OF assms(2)] by simp
qed (use assms(2) in simp)

lemma fenced_admit_all:
  assumes "admit_all E m c clock as s = Inr (outs, db')" "fenced E n p (snd s)" "is_v2 n"
  shows "fenced E n p db'"
  using assms
proof (induction as arbitrary: clock s outs)
  case (Cons a as)
  obtain added db where s: "s = (added, db)" by force
  obtain out added1 db1 outs1 where o: "admit_one E m c (clock 0) a (added, db) = Inr (out, added1, db1)"
    and r: "admit_all E m c (\<lambda>i. clock (Suc i)) as (added1, db1) = Inr (outs1, db')"
    using Cons.prems(1) unfolding s by (auto simp: result_bind_eq_Inr split: prod.splits)
  show ?case using Cons.IH[OF r] fenced_admit_one[OF o] Cons.prems(2,3) by (simp add: s)
qed simp

lemma fenced_apply:
  assumes "fenced E n p db" "outbox_ok db" "is_v2 n"
  shows "fenced E n p (outbox_apply E m op db)"
proof (cases op)
  case (OxAdmit clock as)
  let ?db2 = "snd (prune_terminal_rows (clock 1) (snd (compact_terminal_before E (clock 0 - SETTLED_PAYLOAD_RETENTION) db)))"
  have "fenced E n p ?db2" by (rule fenced_prune[OF fenced_compact[OF assms(1)] ok_compact(1)[OF assms(2)] assms(3)])
  then show ?thesis using fenced_admit_all[of E m "pending_count ?db2" "\<lambda>i. clock (i + 2)" as "(0, ?db2)"] assms(3)
    by (auto simp: OxAdmit admit_batch_def Let_def split: sum.splits)
next
  case (OxClaim now limit)
  have "fenced E n p (fold claim_row (claim_rows db now limit) db)"
    unfolding fold_claim[OF claim_rows_props(1)[OF assms(2)]]
    by (rule fenced_map[OF assms(1)]) (simp add: sending_row_def evidence_def)
  then show ?thesis by (simp add: OxClaim claim_ready_def claim_rows_def Let_def)
next
  case (OxReopen clock)
  show ?thesis unfolding OxReopen outbox_apply.simps
    by (rule kept_cases) (use fenced_open[OF assms] assms(1) in auto)
next
  case (OxPrune now)
  then show ?thesis using fenced_prune[OF assms] by simp
next
  case (OxCompact cutoff)
  then show ?thesis using fenced_compact[OF assms(1)] by simp
next
  case (OxConfirm now k)
  then show ?thesis
    by (simp add: confirm_def case_prod_beta) (rule fenced_update[OF assms(1)], simp add: confirmed_row_def evidence_def)
next
  case (OxSettle now k)
  then show ?thesis
    by (simp add: settle_applied_def case_prod_beta) (rule fenced_update[OF assms(1)], simp add: confirmed_row_def evidence_def)
next
  case (OxDefer k until error limited)
  show ?thesis unfolding OxDefer outbox_apply.simps outbox_defer_def
    by (rule fenced_transition[OF assms(1)]) (simp add: evidence_def)
next
  case (OxAttention k error conflict)
  show ?thesis unfolding OxAttention outbox_apply.simps needs_attention_def
    by (rule fenced_transition[OF assms(1)]) (simp add: evidence_def)
next
  case (OxRetry k)
  show ?thesis unfolding OxRetry outbox_apply.simps outbox_retry_def
    by (rule fenced_transition[OF assms(1)]) (simp add: evidence_def)
next
  case (OxDiscard now k)
  show ?thesis unfolding OxDiscard outbox_apply.simps outbox_discard_def
    by (rule fenced_transition[OF assms(1)]) (simp add: evidence_def)
next
  case (OxDeferConnection connection until)
  show ?thesis unfolding OxDeferConnection outbox_apply.simps defer_connection_def
    by (rule fenced_update[OF assms(1)]) (simp add: evidence_def)
next
  case (OxConflict k conflict)
  show ?thesis unfolding OxConflict outbox_apply.simps record_conflict_def
    by (rule fenced_transition[OF assms(1)]) (simp add: evidence_def)
qed

lemma fenced_run:
  assumes "fenced E n p db" "bounded_ok m db" "is_v2 n"
  shows "fenced E n p (outbox_run E m ops db)"
  unfolding outbox_run_def using assms(1,2)
proof (induction ops arbitrary: db)
  case (Cons op ops)
  have "outbox_ok db" using Cons.prems(2) by (simp add: bounded_ok_def)
  then show ?case using Cons.IH fenced_apply[OF Cons.prems(1) _ assms(3)] bounded_apply[OF Cons.prems(2)] by simp
qed simp

lemma fenced_admission:
  assumes "fenced E n p db" "is_v2 n" "ad_operation_id a = n" "admit_one E m c now a (added, db) = Inr (out, added', db')"
  shows "db' = db \<and> added' = added \<and> payload_json E a = p"
  using assms(4)
proof (cases rule: admit_one_cases)
  case (known r)
  then show ?thesis using assms(1,3) by (auto simp: fenced_def evidence_def admit_existing_def split: if_splits)
next
  case fresh
  then show ?thesis using fenced_window[OF assms(1,2)] assms(3) by auto
qed

subsection \<open>Pending edits on a ticket\<close>

lemma get_queued:
  assumes "outbox_ok db" "r \<in> set (ox_rows db)" "ob_state r = OutQueued"
  shows "get_in db (ob_operation_id r) = Some (operation_of r)"
proof -
  have "row_ok r" using assms(1,2) by (simp add: outbox_ok_def)
  with assms(3) have "\<not> ob_compacted r" by (auto simp: row_ok_def)
  with row_of_Some[OF assms(1,2) refl] show ?thesis by (simp add: get_in_def)
qed

interpretation sequence_order: total_cmp sequence_cmp "\<lambda>_. True"
  by unfold_locales (auto simp: sequence_cmp_def ord_cmp_def split: if_splits)

definition ticket_rows :: "outbox \<Rightarrow> string \<Rightarrow> string \<Rightarrow> outbox_row list" where
  "ticket_rows db c n = sort_by sequence_cmp (filter (of_ticket c n) (queued_rows db))"

lemma ticket_rows_sorted:
  assumes "outbox_ok db"
  shows "sorted_wrt (\<lambda>a b. ob_sequence a < ob_sequence b) (ticket_rows db c n)"
proof -
  have in_rows: "r \<in> set (ticket_rows db c n) \<Longrightarrow> r \<in> set (ox_rows db) \<and> of_ticket c n r" for r
    by (auto simp: ticket_rows_def queued_rows_def)
  have le: "sorted_wrt (\<lambda>a b. ob_sequence a \<le> ob_sequence b) (ticket_rows db c n)"
    using sequence_order.sorted_sort_by[of "filter (of_ticket c n) (queued_rows db)"]
    unfolding ticket_rows_def sorted_by_def by (auto simp: sequence_cmp_def ord_cmp_def elim!: sorted_wrt_mono_rel[rotated] split: if_splits)
  have d: "distinct (ticket_rows db c n)" and inj: "inj_on slot (set (ox_rows db))"
    using assms by (auto simp: outbox_ok_def ticket_rows_def queued_rows_def distinct_map)
  have ne: "ob_sequence a \<noteq> ob_sequence b" if "a \<in> set (ticket_rows db c n)" "b \<in> set (ticket_rows db c n)" "a \<noteq> b" for a b
    using in_rows[OF that(1)] in_rows[OF that(2)] inj_onD[OF inj, of a b] that(3) by (auto simp: slot_def of_ticket_def)
  have "sorted_wrt (\<lambda>a b. ob_sequence a < ob_sequence b) rs"
    if "sorted_wrt (\<lambda>a b. ob_sequence a \<le> ob_sequence b) rs" "distinct rs" "set rs \<subseteq> set (ticket_rows db c n)" for rs
    using that
  proof (induction rs)
    case (Cons a rs)
    have "ob_sequence a < ob_sequence b" if "b \<in> set rs" for b
    proof -
      have "a \<noteq> b" "ob_sequence a \<le> ob_sequence b" using Cons.prems that by auto
      moreover have "ob_sequence a \<noteq> ob_sequence b" using ne[of a b] Cons.prems(3) that \<open>a \<noteq> b\<close> by auto
      ultimately show ?thesis by linarith
    qed
    with Cons show ?case by simp
  qed simp
  with le d show ?thesis by blast
qed

lemma pending_for_ticket_rows:
  assumes "outbox_ok db" shows "pending_for_ticket db c n = map operation_of (ticket_rows db c n)"
  unfolding pending_for_ticket_def list_in_def ticket_rows_def
  by (rule map_cong) (auto simp: queued_rows_def get_queued[OF assms])

lemma edit_fields_distinct: "distinct (map fst (edit_fields p))"
  by (cases "pp_title p"; cases "pp_details p"; cases "pp_category p"; cases "pp_priority p"; cases "pp_tags p")
     (simp_all add: edit_fields_def List.map_filter_simps)

lemma set_fields:
  assumes "key_sorted m" "distinct (map fst kvs)"
  shows "key_sorted (fold (\<lambda>(k, v). set_field k v) kvs m)
    \<and> map_of (fold (\<lambda>(k, v). set_field k v) kvs m) = map_of m ++ map_of kvs"
  using assms
proof (induction kvs arbitrary: m)
  case (Cons e kvs)
  obtain k v where e: "e = (k, v)" by force
  have n: "map_of kvs k = None" and d: "distinct (map fst kvs)" using Cons.prems(2) e by (auto simp: map_of_eq_None_iff)
  have s: "key_sorted (set_field k v m)" "map_of (set_field k v m) = (map_of m)(k \<mapsto> v)"
    unfolding set_field_def by (rule key_sorted_btree_entry[OF Cons.prems(1)], rule map_of_btree_entry[OF Cons.prems(1)])
  have "(map_of m)(k \<mapsto> v) ++ map_of kvs = map_of m ++ map_of (e # kvs)"
    using n by (auto simp: e fun_eq_iff map_add_def split: option.splits)
  with Cons.IH[OF s(1) d] show ?case unfolding e fold_simps prod.case s(2) by (metis)
qed simp

text \<open>The value the pending edits give a field: the last edit that sets it decides.\<close>

definition latest_edit :: "outbox_operation list \<Rightarrow> string \<Rightarrow> json option" where
  "latest_edit xs k = find_map (\<lambda>x. map_of (edit_fields (oo_patch x)) k) (rev xs)"

lemma latest_edit_Cons:
  "latest_edit (x # xs) k = (case latest_edit xs k of None \<Rightarrow> map_of (edit_fields (oo_patch x)) k | Some v \<Rightarrow> Some v)"
proof -
  have "find_map f (ys @ [x]) = (case find_map f ys of None \<Rightarrow> f x | Some v \<Rightarrow> Some v)"
    for f :: "outbox_operation \<Rightarrow> json option" and ys
    by (induction ys) (auto split: option.splits)
  then show ?thesis by (simp add: latest_edit_def)
qed

lemma project_operations_latest:
  assumes "sorted_wrt (\<lambda>a b. oo_sequence a < oo_sequence b) xs" "key_sorted m"
    "\<forall>x\<in>set xs. oo_connection_id x = c \<and> oo_native_id x = n \<and> oo_state x = OutQueued \<and> previous < oo_sequence x
      \<and> unsupported_field (oo_patch x) = None"
  shows "\<exists>m'. project_operations c n previous xs m = Inr m' \<and> key_sorted m' \<and> map_of m' = map_of m ++ latest_edit xs"
  using assms
proof (induction xs arbitrary: previous m)
  case Nil
  then show ?case by (simp add: latest_edit_def map_add_def fun_eq_iff)
next
  case (Cons x xs)
  let ?m = "fold (\<lambda>(k, v). set_field k v) (edit_fields (oo_patch x)) m"
  note f = set_fields[OF Cons.prems(2) edit_fields_distinct[of "oo_patch x"]]
  obtain m' where m': "project_operations c n (oo_sequence x) xs ?m = Inr m'" "key_sorted m'"
      "map_of m' = map_of ?m ++ latest_edit xs"
    using Cons.IH[of ?m "oo_sequence x"] Cons.prems f by auto
  have "map_of m' = map_of m ++ latest_edit (x # xs)"
    using m'(3) f by (auto simp: fun_eq_iff map_add_def latest_edit_Cons split: option.splits)
  with m'(1,2) Cons.prems(3) show ?case by simp
qed

subsection \<open>Properties\<close>

text \<open>C22. Over any history of admissions, claims, confirmations, deferrals, discards, maintenance and restarts
  of an outbox opened on an empty database, the unconfirmed edits never exceed the capacity it was opened
  with, and an edit in flight is the oldest unconfirmed edit of its ticket: every other unconfirmed edit of
  that ticket has a larger sequence and is not in flight.\<close>

theorem outbox_capacity_and_order:
  assumes "outbox_open E clock m empty_outbox = Inr db0" "db = outbox_run E m ops db0"
  shows "pending_count db \<le> m
    \<and> (\<forall>r\<in>set (ox_rows db). \<forall>e\<in>set (ox_rows db).
        ob_state r = OutQueued \<and> ob_dispatch r = DSending \<and> ob_state e = OutQueued
        \<and> of_ticket (ob_connection_id r) (ob_native_id r) e
        \<longrightarrow> e = r \<or> ob_sequence r < ob_sequence e \<and> ob_dispatch e \<noteq> DSending)"
proof (intro conjI ballI impI)
  have b: "bounded_ok m db" using outbox_bounded_run[OF bounded_opened[OF assms(1)]] assms(2) by simp
  then show "pending_count db \<le> m" by (simp add: bounded_ok_def)
  fix r e
  assume r: "r \<in> set (ox_rows db)" and e: "e \<in> set (ox_rows db)"
    and h: "ob_state r = OutQueued \<and> ob_dispatch r = DSending \<and> ob_state e = OutQueued
      \<and> of_ticket (ob_connection_id r) (ob_native_id r) e"
  have ok: "outbox_ok db" using b by (simp add: bounded_ok_def)
  have first: "first_pending db x" if "x \<in> set (ox_rows db)" "ob_state x = OutQueued" "ob_dispatch x = DSending" for x
    using ok that by (simp add: outbox_ok_def)
  have le: "ob_sequence r \<le> ob_sequence e"
    using first[OF r] h e by (auto simp: first_pending_def list_ex_iff not_less)
  have ge: "ob_sequence e \<le> ob_sequence r" if "ob_dispatch e = DSending"
    using first[OF e _ that] h r by (auto simp: first_pending_def list_ex_iff not_less of_ticket_def)
  have "ob_sequence r \<noteq> ob_sequence e" if "e \<noteq> r"
    using ok r e that h unfolding outbox_ok_def distinct_map by (metis inj_onD slot_def of_ticket_def)
  with le ge show "e = r \<or> ob_sequence r < ob_sequence e \<and> ob_dispatch e \<noteq> DSending" by fastforce
qed

text \<open>C16. An edit admitted under a timestamped operation id is never admitted twice.  Once a history has put
  the edit in the outbox, every later history (confirmation, compaction of the payload, pruning of the row and
  restarts included) leaves a fence: an admission with the same id either fails, or returns the existing row,
  adds nothing and carries exactly the payload of the first admission.\<close>

theorem retry_never_duplicates:
  assumes "outbox_open E clock m empty_outbox = Inr db0" "row_of (outbox_run E m before db0) n = Some r"
    "\<not> ob_compacted r" "is_v2 n" "ad_operation_id a = n"
    "admit_one E m pending now a (added, outbox_run E m (before @ later) db0) = Inr (out, added', db')"
  shows "db' = outbox_run E m (before @ later) db0 \<and> added' = added \<and> payload_json E a = ob_payload r"
proof -
  let ?db1 = "outbox_run E m before db0"
  have b: "bounded_ok m ?db1" by (rule outbox_bounded_run[OF bounded_opened[OF assms(1)]])
  have "fenced E n (ob_payload r) ?db1" using assms(2,3) by (simp add: fenced_def evidence_def)
  from fenced_run[OF this b assms(4)] have "fenced E n (ob_payload r) (outbox_run E m (before @ later) db0)"
    by (simp add: outbox_run_def)
  from fenced_admission[OF this assms(4-6)] show ?thesis .
qed

text \<open>The pending edits of a ticket, as the outbox returns them at any point of a history, project on
  the authoritative ticket: each field has the value of the last pending edit that sets it and otherwise the
  remote value, and the result lists the operation ids of the edits in order.\<close>

theorem pending_edits_project:
  assumes "outbox_open E clock m empty_outbox = Inr db0" "db = outbox_run E m ops db0"
    "key_sorted remote" "map_of remote ''connection_id'' = Some (JString c)" "map_of remote ''native_id'' = Some (JString n)"
    "edits = pending_for_ticket db c n" "edits \<noteq> []" "\<forall>x\<in>set edits. unsupported_field (oo_patch x) = None"
  shows "\<exists>v. project_pending_ticket (JObject remote) edits = Inr (JObject v)
    \<and> map_of v = (map_of remote ++ latest_edit edits)
        (''pending_operation_ids'' \<mapsto> JArray (map (\<lambda>x. JString (oo_operation_id x)) edits))"
proof -
  have ok: "outbox_ok db" using outbox_bounded_run[OF bounded_opened[OF assms(1)]] assms(2) by (simp add: bounded_ok_def)
  note rows = assms(6)[unfolded pending_for_ticket_rows[OF ok]]
  have "sorted_wrt (\<lambda>a b. oo_sequence a < oo_sequence b) edits"
    using ticket_rows_sorted[OF ok, of c n] by (simp add: rows sorted_wrt_map operation_of_def)
  moreover have "oo_connection_id x = c \<and> oo_native_id x = n \<and> oo_state x = OutQueued \<and> 0 < oo_sequence x"
    if "x \<in> set edits" for x
    using that ok by (fastforce simp: rows ticket_rows_def queued_rows_def of_ticket_def operation_of_def outbox_ok_def)
  ultimately obtain m' where m': "project_operations c n 0 edits remote = Inr m'" "key_sorted m'"
      "map_of m' = map_of remote ++ latest_edit edits"
    using project_operations_latest[of edits remote c n 0] assms(3,8) by blast
  show ?thesis
    using m'(1,3) map_of_btree_entry[OF m'(2)] assms(4,5,7)
    by (auto simp: project_pending_ticket_def json_get_def as_str_def as_object_def set_field_def)
qed

subsection \<open>Witnesses\<close>

definition demo_outbox_env :: outbox_env where
  "demo_outbox_env =
     \<lparr>oe_payload = (\<lambda>c n t b p. c @ n @ unwrap_or (pp_title p) [] @ unwrap_or (pp_details p) []), oe_sha256 = (\<lambda>s. s)\<rparr>"

definition demo_edit :: "string \<Rightarrow> provider_patch" where
  "demo_edit title =
     \<lparr>pp_expected_token = None, pp_title = Some title, pp_details = None, pp_category = None, pp_priority = None,
      pp_status = None, pp_started_phase = None, pp_tags = None, pp_up_next = None, pp_blocked_by = None,
      pp_blocked_reason = None, pp_actor = None\<rparr>"

definition demo_jira :: json_map where
  "demo_jira = [(''concurrency_token'', JNull), (''connection_id'', JString ''j''), (''native_id'', JString ''7''), (''title'', JString ''a'')]"

definition demo_admission :: "string \<Rightarrow> string \<Rightarrow> admission" where
  "demo_admission n title =
     admission_new n \<lparr>tv_connection_id = ''j'', tv_native_id = ''7'', tv_concurrency_token = None, tv_value = JObject demo_jira\<rparr>
       (demo_edit title)"

definition demo_id :: string where "demo_id = ''v2:0000000000001:abcdefghijklmnop''"

definition demo_admitted :: "outbox_op list" where
  "demo_admitted = [OxAdmit (\<lambda>_. 0) [demo_admission demo_id ''b'', demo_admission ''legacy'' ''c''], OxClaim 0 5]"

definition demo_later :: "outbox_op list" where
  "demo_later = [OxConfirm 1 demo_id, OxReopen (\<lambda>_. 2)]"

definition demo_opened :: outbox where
  "demo_opened = (case outbox_open demo_outbox_env (\<lambda>_. 0) 2 empty_outbox of Inr db \<Rightarrow> db | Inl _ \<Rightarrow> empty_outbox)"

lemma demo_opens: "outbox_open demo_outbox_env (\<lambda>_. 0) 2 empty_outbox = Inr demo_opened"
  by (simp add: demo_opened_def outbox_open_def Let_def)

theorem outbox_capacity_and_order_witness:
  "map (\<lambda>r. (ob_sequence r, ob_dispatch r)) (ox_rows (outbox_run demo_outbox_env 2 demo_admitted demo_opened))
     = [(1, DSending), (2, DQueued)]
   \<and> pending_count (outbox_run demo_outbox_env 2 demo_admitted demo_opened) \<le> 2"
proof
  show "map (\<lambda>r. (ob_sequence r, ob_dispatch r)) (ox_rows (outbox_run demo_outbox_env 2 demo_admitted demo_opened))
     = [(1, DSending), (2, DQueued)]" by code_simp
  show "pending_count (outbox_run demo_outbox_env 2 demo_admitted demo_opened) \<le> 2"
    using outbox_capacity_and_order[OF demo_opens refl, of demo_admitted] by blast
qed

theorem retry_never_duplicates_witness:
  "case admit_one demo_outbox_env 2 1 2 (demo_admission demo_id ''b'')
          (0, outbox_run demo_outbox_env 2 (demo_admitted @ demo_later) demo_opened) of
     Inl _ \<Rightarrow> False | Inr (out, added, db) \<Rightarrow> added = 0 \<and> length (ox_rows db) = 2"
proof -
  let ?db = "outbox_run demo_outbox_env 2 (demo_admitted @ demo_later) demo_opened"
  let ?res = "admit_one demo_outbox_env 2 1 2 (demo_admission demo_id ''b'') (0, ?db)"
  have ok: "\<not> isl ?res" and n: "length (ox_rows ?db) = 2" and v: "is_v2 demo_id"
    and i: "ad_operation_id (demo_admission demo_id ''b'') = demo_id" by code_simp+
  have "case row_of (outbox_run demo_outbox_env 2 demo_admitted demo_opened) demo_id of None \<Rightarrow> False | Some r \<Rightarrow> \<not> ob_compacted r"
    by code_simp
  then obtain r where r: "row_of (outbox_run demo_outbox_env 2 demo_admitted demo_opened) demo_id = Some r" "\<not> ob_compacted r"
    by (auto split: option.splits)
  obtain out added db where e: "?res = Inr (out, added, db)" using ok by (cases ?res) auto
  from retry_never_duplicates[OF demo_opens r v i e] e n show ?thesis by simp
qed

theorem pending_edits_project_witness:
  "\<exists>v. project_pending_ticket (JObject demo_jira)
        (pending_for_ticket (outbox_run demo_outbox_env 2 demo_admitted demo_opened) ''j'' ''7'') = Inr (JObject v)
     \<and> map_of v ''title'' = Some (JString ''c'') \<and> map_of v ''native_id'' = Some (JString ''7'')"
proof -
  let ?edits = "pending_for_ticket (outbox_run demo_outbox_env 2 demo_admitted demo_opened) ''j'' ''7''"
  have a: "key_sorted demo_jira" "map_of demo_jira ''connection_id'' = Some (JString ''j'')"
    "map_of demo_jira ''native_id'' = Some (JString ''7'')" "length ?edits = 2"
    "list_all (\<lambda>x. unsupported_field (oo_patch x) = None) ?edits" by code_simp+
  have l: "latest_edit ?edits ''title'' = Some (JString ''c'')" "latest_edit ?edits ''native_id'' = None" by code_simp+
  have ne: "?edits \<noteq> []" using a(4) by force
  from pending_edits_project[OF demo_opens refl a(1-3) refl ne] a(5)
  obtain v where v: "project_pending_ticket (JObject demo_jira) ?edits = Inr (JObject v)"
    "map_of v = (map_of demo_jira ++ latest_edit ?edits)
        (''pending_operation_ids'' \<mapsto> JArray (map (\<lambda>x. JString (oo_operation_id x)) ?edits))"
    unfolding list_all_iff by blast
  then have "map_of v ''title'' = Some (JString ''c'')" "map_of v ''native_id'' = Some (JString ''7'')"
    using l a(3) by (simp_all add: map_add_def)
  with v(1) show ?thesis by blast
qed

end
