(* ===== verification/Write_Behind.thy ===== *)
theory Write_Behind
  imports Provider_Outbox
begin

text \<open>
  The write-behind service over the outbox (\<open>provider_write_behind.rs\<close> of the server): queueing,
  listing, retrying and discarding edits, and the dispatcher that sends claimed edits to the tracker.
  A provider is a record of its operations on the remote world \<open>'w\<close>; resolving a connection to its
  provider and reading an \<open>ApiTicket\<close> back from JSON are parameters.  The mutex of the outbox is
  released while a provider is called: \<open>other i\<close> is what the rest of the server does to the state in the
  \<open>i\<close>-th gap between two critical sections.
\<close>

subsection \<open>Errors\<close>

datatype http_status =
    SC_BAD_REQUEST | SC_NOT_FOUND | SC_CONFLICT | SC_TOO_MANY_REQUESTS | SC_INTERNAL_SERVER_ERROR

record api_error =
  aer_status :: http_status
  aer_message :: string
  aer_code :: "string option"

definition api_error_new :: "http_status \<Rightarrow> string \<Rightarrow> api_error" where
  "api_error_new status message = \<lparr>aer_status = status, aer_message = message, aer_code = None\<rparr>"

definition TICKET_CHANGED_CODE :: string where "TICKET_CHANGED_CODE = ''ticket_changed''"
definition WRITE_BEHIND_UNAVAILABLE_CODE :: string where
  "WRITE_BEHIND_UNAVAILABLE_CODE = ''write_behind_unavailable''"

definition ticket_changed :: "string \<Rightarrow> api_error" where
  "ticket_changed message = (api_error_new SC_CONFLICT message)\<lparr>aer_code := Some TICKET_CHANGED_CODE\<rparr>"

definition write_behind_unavailable :: "string \<Rightarrow> api_error" where
  "write_behind_unavailable message =
     (api_error_new SC_CONFLICT message)\<lparr>aer_code := Some WRITE_BEHIND_UNAVAILABLE_CODE\<rparr>"

definition single_quoted :: "string \<Rightarrow> string" where
  "single_quoted s = [CHR 39] @ s @ [CHR 39]"

text \<open>Errors of other modules that are passed through are their text.\<close>

datatype provider_error =
    PeEndpoint string
  | PeUnknownConnection string
  | PeNotFound string string
  | PeUnsupported string string
  | PeAuthentication string string
  | PeConflict string string
  | PeRateLimited string "64 word option"
  | PeDisabled string
  | PeStore string
  | PeOperation string
  | PeInvalidNativeId string string

fun provider_error_text :: "provider_error \<Rightarrow> string" where
  "provider_error_text (PeEndpoint e) = e"
| "provider_error_text (PeUnknownConnection c) = ''ticket provider connection '' @ single_quoted c @ '' was not found''"
| "provider_error_text (PeNotFound c n) =
     ''ticket '' @ single_quoted n @ '' was not found in provider connection '' @ single_quoted c"
| "provider_error_text (PeUnsupported c k) =
     ''provider connection '' @ single_quoted c @ '' does not support '' @ single_quoted k"
| "provider_error_text (PeAuthentication c m) =
     ''provider authentication failed for '' @ single_quoted c @ '': '' @ m"
| "provider_error_text (PeConflict t m) = ''provider conflict for '' @ single_quoted t @ '': '' @ m"
| "provider_error_text (PeRateLimited c r) =
     ''provider '' @ single_quoted c @ '' is rate limited'' @
     (case r of None \<Rightarrow> [] | Some n \<Rightarrow> ''; retry after '' @ show_nat (unat n) @ ''s'')"
| "provider_error_text (PeDisabled c) =
     ''provider connection '' @ single_quoted c @ '' is disabled; enable it to read or change its tickets''"
| "provider_error_text (PeStore e) = e"
| "provider_error_text (PeOperation e) = e"
| "provider_error_text (PeInvalidNativeId p i) =
     ''invalid native id '' @ single_quoted i @ '' for the '' @ p @ '' provider''"

definition TICKET_CHANGED_SINCE_READ :: string where "TICKET_CHANGED_SINCE_READ = ''ticket changed since it was read''"
definition ISSUE_CHANGED_SINCE_READ :: string where "ISSUE_CHANGED_SINCE_READ = ''issue changed since it was read''"

fun is_changed_since_read :: "provider_error \<Rightarrow> bool" where
  "is_changed_since_read (PeConflict _ message) = (message = TICKET_CHANGED_SINCE_READ \<or> message = ISSUE_CHANGED_SINCE_READ)"
| "is_changed_since_read _ = False"

definition provider_transfer_error :: "provider_error \<Rightarrow> api_error" where
  "provider_transfer_error e =
     (if is_changed_since_read e then ticket_changed (provider_error_text e)
      else api_error_new SC_CONFLICT (provider_error_text e))"

fun outbox_error_text :: "outbox_error \<Rightarrow> string" where
  "outbox_error_text EmptyIdentity = ''outbox operation id, connection id, and native ticket id must be nonempty''"
| "outbox_error_text (ChangedPayload n) = ''operation '' @ n @ '' was retried with a different mutation''"
| "outbox_error_text (ExpiredOperation n) = ''operation '' @ n @ '' is older than the outbox retry window''"
| "outbox_error_text (InvalidOperationId n) = ''operation '' @ n @ '' has an invalid or future-dated v2 id''"
| "outbox_error_text (Backpressure m p r) =
     ''outbox has '' @ show_nat p @ '' pending operations; admitting '' @ show_nat r @
     '' would exceed its limit of '' @ show_nat m"
| "outbox_error_text MismatchedBase =
     ''the base ticket's connection, native id, or concurrency token does not match the intent''"
| "outbox_error_text InvalidCapacity = ''outbox pending limit must be positive''"
| "outbox_error_text (InvalidProjectionOrder n) =
     ''pending operation '' @ n @ '' does not match the projected ticket or is out of order''"
| "outbox_error_text (UnsupportedProjectionField n f) = ''pending operation '' @ n @ '' changes unsupported field '' @ f"
| "outbox_error_text InvalidProjectionTicket =
     ''projected ticket must be a JSON object with connection_id and native_id''"
| "outbox_error_text (InvalidTransition n) = ''operation '' @ n @ '' is not in a state that allows this transition''"

fun outbox_error_status :: "outbox_error \<Rightarrow> http_status" where
  "outbox_error_status (Backpressure _ _ _) = SC_TOO_MANY_REQUESTS"
| "outbox_error_status (ChangedPayload _) = SC_CONFLICT"
| "outbox_error_status (ExpiredOperation _) = SC_CONFLICT"
| "outbox_error_status MismatchedBase = SC_CONFLICT"
| "outbox_error_status EmptyIdentity = SC_BAD_REQUEST"
| "outbox_error_status (InvalidOperationId _) = SC_BAD_REQUEST"
| "outbox_error_status (InvalidProjectionOrder _) = SC_BAD_REQUEST"
| "outbox_error_status (UnsupportedProjectionField _ _) = SC_BAD_REQUEST"
| "outbox_error_status InvalidProjectionTicket = SC_BAD_REQUEST"
| "outbox_error_status InvalidCapacity = SC_BAD_REQUEST"
| "outbox_error_status (InvalidTransition _) = SC_CONFLICT"

definition outbox_api_error :: "outbox_error \<Rightarrow> api_error" where
  "outbox_api_error e = api_error_new (outbox_error_status e) (outbox_error_text e)"

definition internal_json_error :: "string \<Rightarrow> api_error" where
  "internal_json_error e = api_error_new SC_INTERNAL_SERVER_ERROR e"

subsection \<open>Providers and the server state\<close>

record 'w ticket_provider =
  tp_write_behind :: bool
  tp_get :: "string \<Rightarrow> 'w \<Rightarrow> (provider_error + ticket_view) \<times> 'w"
  tp_update :: "string \<Rightarrow> provider_patch \<Rightarrow> 'w \<Rightarrow> (provider_error + ticket_view) \<times> 'w"

record 'w jira_env =
  je_provider_for :: "string \<Rightarrow> 'w \<Rightarrow> api_error + 'w ticket_provider"
  je_outbox :: outbox_env
  je_from_value :: "json \<Rightarrow> string + ticket_view"

text \<open>\<open>jira_outbox\<close> of the server with its capacity, the remote world, and the change events sent.\<close>

record 'w jira_state =
  js_outbox :: "(outbox \<times> nat) option"
  js_world :: 'w
  js_events :: "(string \<times> string) list"

type_synonym 'w gaps = "nat \<Rightarrow> 'w jira_state \<Rightarrow> 'w jira_state"

definition the_outbox :: "'w jira_state \<Rightarrow> outbox" where
  "the_outbox s = fst (the (js_outbox s))"

definition set_outbox :: "outbox \<Rightarrow> 'w jira_state \<Rightarrow> 'w jira_state" where
  "set_outbox db s = s\<lparr>js_outbox := map_option (\<lambda>(_, m). (db, m)) (js_outbox s)\<rparr>"

definition emit_operation_event :: "string \<Rightarrow> string \<Rightarrow> 'w jira_state \<Rightarrow> 'w jira_state" where
  "emit_operation_event connection native s = s\<lparr>js_events := js_events s @ [(connection, native)]\<rparr>"

definition connection_provider :: "'w jira_env \<Rightarrow> string \<Rightarrow> 'w jira_state \<Rightarrow> api_error + 'w ticket_provider" where
  "connection_provider E connection s = je_provider_for E connection (js_world s)"

record outbox_status =
  os_operation_id :: string
  os_connection_id :: string
  os_native_id :: string
  os_state :: dispatch_state
  os_attempts :: int
  os_next_attempt_at :: int
  os_last_error :: "string option"
  os_conflict :: "json option"

definition outbox_status_from :: "outbox_operation \<Rightarrow> outbox_status" where
  "outbox_status_from x =
     \<lparr>os_operation_id = oo_operation_id x, os_connection_id = oo_connection_id x, os_native_id = oo_native_id x,
      os_state = oo_dispatch x, os_attempts = oo_attempts x, os_next_attempt_at = oo_next_attempt_at x,
      os_last_error = oo_last_error x, os_conflict = oo_conflict x\<rparr>"

subsection \<open>Requests\<close>

definition list_jira_operations :: "'w jira_env \<Rightarrow> string \<Rightarrow> 'w jira_state \<Rightarrow> api_error + outbox_status list" where
  "list_jira_operations E connection s =
     result_bind (connection_provider E connection s) (\<lambda>provider.
     if \<not> tp_write_behind provider
     then Inl (api_error_new SC_CONFLICT ''write-behind is unavailable for this connection'')
     else case js_outbox s of
         None \<Rightarrow> Inl (api_error_new SC_CONFLICT ''write-behind is disabled'')
       | Some (db, _) \<Rightarrow> Inr (map outbox_status_from (recent_for_connection db connection 1000)))"

definition no_such_operation :: api_error where
  "no_such_operation = api_error_new SC_NOT_FOUND ''no such operation''"

definition retry_jira_operation ::
  "'w jira_env \<Rightarrow> string \<Rightarrow> string \<Rightarrow> 'w jira_state \<Rightarrow> (api_error + outbox_status) \<times> 'w jira_state" where
  "retry_jira_operation E connection n s =
     (case connection_provider E connection s of
        Inl e \<Rightarrow> (Inl e, s)
      | Inr _ \<Rightarrow>
     (case js_outbox s of
        None \<Rightarrow> (Inl (api_error_new SC_CONFLICT ''write-behind is disabled''), s)
      | Some (db, _) \<Rightarrow>
     (case opt_filter (\<lambda>x. oo_connection_id x = connection) (get_in db n) of
        None \<Rightarrow> (Inl no_such_operation, s)
      | Some current \<Rightarrow>
     (case outbox_retry n db of
        Inl e \<Rightarrow> (Inl (outbox_api_error e), s)
      | Inr db' \<Rightarrow> (Inr (outbox_status_from (the (get_in db' n))),
                  emit_operation_event connection (oo_native_id current) (set_outbox db' s))))))"

text \<open>\<open>serde_json\<close> gives the edited fields of a patch as a sorted map; a provider's ticket carries the
  edit when every one of them has its value.\<close>

definition desired_fields :: "provider_patch \<Rightarrow> json_map" where
  "desired_fields patch = fold (\<lambda>(k, v). set_field k v) (edit_fields patch) []"

definition carries :: "json_map \<Rightarrow> json \<Rightarrow> bool" where
  "carries desired v = list_all (\<lambda>(field, x). json_get field v = Some x) desired"

definition discard_readback ::
  "'w jira_env \<Rightarrow> 'w ticket_provider \<Rightarrow> outbox_operation \<Rightarrow> 'w jira_state \<Rightarrow> (api_error + bool) \<times> 'w jira_state" where
  "discard_readback E provider current s =
     (if oo_attempts current = 0 then (Inr False, s)
      else case tp_get provider (oo_native_id current) (js_world s) of
          (Inl e, w) \<Rightarrow> (Inl (provider_transfer_error e), s\<lparr>js_world := w\<rparr>)
        | (Inr remote, w) \<Rightarrow> (Inr (carries (desired_fields (oo_patch current)) (tv_value remote)), s\<lparr>js_world := w\<rparr>))"

text \<open>\<open>now\<close>: the clock when the row is settled.\<close>

definition discard_jira_operation ::
  "'w jira_env \<Rightarrow> 'w gaps \<Rightarrow> int \<Rightarrow> string \<Rightarrow> string \<Rightarrow> 'w jira_state \<Rightarrow> (api_error + outbox_status) \<times> 'w jira_state" where
  "discard_jira_operation E other now connection n s =
     (case connection_provider E connection s of
        Inl e \<Rightarrow> (Inl e, s)
      | Inr provider \<Rightarrow>
     (case js_outbox s of
        None \<Rightarrow> (Inl (api_error_new SC_CONFLICT ''write-behind is disabled''), s)
      | Some (db, _) \<Rightarrow>
     (case opt_filter (\<lambda>x. oo_connection_id x = connection) (get_in db n) of
        None \<Rightarrow> (Inl no_such_operation, s)
      | Some current \<Rightarrow>
     if oo_dispatch current = DSending
     then (Inl (api_error_new SC_CONFLICT ''sending operations cannot be discarded''), s)
     else case discard_readback E provider current (other 0 s) of
        (Inl e, s1) \<Rightarrow> (Inl e, s1)
      | (Inr already_applied, s1) \<Rightarrow>
          let s2 = other 1 s1; db2 = the_outbox s2;
              settled = (if already_applied then Inr (snd (settle_applied now n db2)) else outbox_discard now n db2) in
          (case settled of
             Inl e \<Rightarrow> (Inl (outbox_api_error e), s2)
           | Inr db3 \<Rightarrow> (Inr (outbox_status_from (the (get_in db3 n))),
                        emit_operation_event connection (oo_native_id current) (set_outbox db3 s2))))))"

subsection \<open>Queueing edits\<close>

record queued_edit =
  qe_operation_id :: string
  qe_native_id :: string
  qe_patch :: provider_patch

record queued_result =
  qr_operation_id :: string
  qr_state :: dispatch_state
  qr_ticket :: ticket_view

definition validate_edit :: "queued_edit \<Rightarrow> api_error + unit" where
  "validate_edit edit =
     (let patch = qe_patch edit in
      if trim (qe_operation_id edit) = [] \<or> trim (qe_native_id edit) = []
      then Inl (api_error_new SC_BAD_REQUEST ''operation_id and native_id are required'')
      else if pp_status patch \<noteq> None \<or> pp_started_phase patch \<noteq> None \<or> pp_up_next patch \<noteq> None
           \<or> pp_blocked_by patch \<noteq> None \<or> pp_blocked_reason patch \<noteq> None
      then Inl (api_error_new SC_BAD_REQUEST
             ''queued edits support only Jira title, details, category, priority, and tags'')
      else if pp_title patch = None \<and> pp_details patch = None \<and> pp_category patch = None
           \<and> pp_priority patch = None \<and> pp_tags patch = None
      then Inl (api_error_new SC_BAD_REQUEST ''queued edit has no supported field change'')
      else Inr ())"

text \<open>The ticket version an edit is made on: the stored one for a known operation, else the remote one.\<close>

definition queue_base ::
  "'w jira_env \<Rightarrow> 'w ticket_provider \<Rightarrow> string \<Rightarrow> queued_edit \<Rightarrow> ('w jira_state \<Rightarrow> 'w jira_state) \<Rightarrow> 'w jira_state
    \<Rightarrow> (api_error + ticket_view) \<times> 'w jira_state" where
  "queue_base E provider connection edit gap s =
     (case get_in (the_outbox s) (qe_operation_id edit) of
        Some x \<Rightarrow>
          (if oo_connection_id x \<noteq> connection \<or> oo_native_id x \<noteq> qe_native_id edit
           then Inl (api_error_new SC_CONFLICT ''operation id belongs to another ticket'')
           else case je_from_value E (oo_base_ticket x) of Inl e \<Rightarrow> Inl (internal_json_error e) | Inr v \<Rightarrow> Inr v, s)
      | None \<Rightarrow>
          let s1 = gap s in
          (case tp_get provider (qe_native_id edit) (js_world s1) of
             (Inl e, w) \<Rightarrow> (Inl (provider_transfer_error e), s1\<lparr>js_world := w\<rparr>)
           | (Inr v, w) \<Rightarrow> (Inr v, s1\<lparr>js_world := w\<rparr>)))"

fun queue_admissions ::
  "'w jira_env \<Rightarrow> 'w gaps \<Rightarrow> 'w ticket_provider \<Rightarrow> string \<Rightarrow> queued_edit list \<Rightarrow> 'w jira_state
    \<Rightarrow> (api_error + admission list) \<times> 'w jira_state" where
  "queue_admissions E other provider connection [] s = (Inr [], s)"
| "queue_admissions E other provider connection (edit # edits) s =
     (case validate_edit edit of
        Inl e \<Rightarrow> (Inl e, s)
      | Inr _ \<Rightarrow>
     (case queue_base E provider connection edit (other 1) (other 0 s) of
        (Inl e, s1) \<Rightarrow> (Inl e, s1)
      | (Inr base, s1) \<Rightarrow>
     if tv_connection_id base \<noteq> connection \<or> tv_native_id base \<noteq> qe_native_id edit
     then (Inl (api_error_new SC_CONFLICT ''provider returned a different ticket''), s1)
     else case queue_admissions E (\<lambda>i. other (i + 2)) provider connection edits s1 of
        (Inl e, s2) \<Rightarrow> (Inl e, s2)
      | (Inr as, s2) \<Rightarrow> (Inr (admission_new (qe_operation_id edit) base (qe_patch edit) # as), s2)))"

definition queue_projection ::
  "'w jira_env \<Rightarrow> 'w ticket_provider \<Rightarrow> outbox_operation \<Rightarrow> 'w gaps \<Rightarrow> 'w jira_state
    \<Rightarrow> (api_error + json) \<times> 'w jira_state" where
  "queue_projection E provider x other s =
     (let s1 = other 0 s;
          pending = pending_for_ticket (the_outbox s1) (oo_connection_id x) (oo_native_id x) in
      case pending of
        [] \<Rightarrow>
          (let s2 = other 1 s1 in
           case tp_get provider (oo_native_id x) (js_world s2) of
             (Inl e, w) \<Rightarrow> (Inl (provider_transfer_error e), s2\<lparr>js_world := w\<rparr>)
           | (Inr v, w) \<Rightarrow> (Inr (tv_value v), s2\<lparr>js_world := w\<rparr>))
      | first # _ \<Rightarrow>
          (case project_pending_ticket (oo_base_ticket first) pending of
             Inl e \<Rightarrow> Inl (outbox_api_error e) | Inr v \<Rightarrow> Inr v, s1))"

fun queue_results ::
  "'w jira_env \<Rightarrow> 'w gaps \<Rightarrow> 'w ticket_provider \<Rightarrow> outbox_operation list \<Rightarrow> 'w jira_state
    \<Rightarrow> (api_error + queued_result list) \<times> 'w jira_state" where
  "queue_results E other provider [] s = (Inr [], s)"
| "queue_results E other provider (x # xs) s =
     (case queue_projection E provider x other s of
        (Inl e, s1) \<Rightarrow> (Inl e, s1)
      | (Inr projected, s1) \<Rightarrow>
     (case je_from_value E projected of
        Inl e \<Rightarrow> (Inl (internal_json_error e), s1)
      | Inr ticket \<Rightarrow>
     (case queue_results E (\<lambda>i. other (i + 2)) provider xs s1 of
        (Inl e, s2) \<Rightarrow> (Inl e, s2)
      | (Inr rs, s2) \<Rightarrow>
          (Inr (\<lparr>qr_operation_id = oo_operation_id x, qr_state = oo_dispatch x, qr_ticket = ticket\<rparr> # rs), s2))))"

text \<open>\<open>other\<close> is what happens while the bases are read, \<open>after\<close> what happens from the admission on; the
  critical section of the admission itself is one step.\<close>

definition queue_jira_updates ::
  "'w jira_env \<Rightarrow> 'w gaps \<Rightarrow> 'w gaps \<Rightarrow> (nat \<Rightarrow> int) \<Rightarrow> string \<Rightarrow> queued_edit list \<Rightarrow> 'w jira_state
    \<Rightarrow> (api_error + queued_result list) \<times> 'w jira_state" where
  "queue_jira_updates E other after clock connection edits s =
     (case connection_provider E connection s of
        Inl e \<Rightarrow> (Inl e, s)
      | Inr provider \<Rightarrow>
     if \<not> tp_write_behind provider \<or> js_outbox s = None
     then (Inl (write_behind_unavailable
             ''durable queued edits are unavailable for this provider connection''), s)
     else if edits = []
     then (Inl (api_error_new SC_BAD_REQUEST ''operations must not be empty''), s)
     else case queue_admissions E other provider connection edits s of
        (Inl e, s1) \<Rightarrow> (Inl e, s1)
      | (Inr admissions, s1) \<Rightarrow>
          let s2 = after 0 s1 in
          (case admit_batch (je_outbox E) clock (snd (the (js_outbox s2))) admissions (the_outbox s2) of
             (Inl e, db) \<Rightarrow> (Inl (outbox_api_error e), set_outbox db s2)
           | (Inr admitted, db) \<Rightarrow>
          (case queue_results E (\<lambda>i. after (Suc i)) provider admitted (set_outbox db s2) of
             (Inl e, s3) \<Rightarrow> (Inl e, s3)
           | (Inr results, s3) \<Rightarrow>
               (Inr results, fold (\<lambda>a. emit_operation_event (ad_connection_id a) (ad_native_id a)) admissions s3))))"

subsection \<open>Dispatch\<close>

text \<open>Fields another writer changed since the edit was made, with their present values.\<close>

definition conflicting_fields :: "json_map \<Rightarrow> json \<Rightarrow> json \<Rightarrow> json_map" where
  "conflicting_fields desired base remote =
     fold (\<lambda>(field, x) conflict.
             let current = unwrap_or (json_get field remote) JNull in
             if json_get field base \<noteq> Some current \<and> current \<noteq> x then set_field field current conflict else conflict)
       desired []"

definition conflict_of :: "outbox_operation \<Rightarrow> outbox_error \<Rightarrow> provider_error" where
  "conflict_of x e = PeConflict (oo_native_id x) (outbox_error_text e)"

text \<open>A transition of the claimed row inside the attempt, its error one of the provider.\<close>

definition attempt_step ::
  "outbox_operation \<Rightarrow> (outbox \<Rightarrow> outbox_error + outbox) \<Rightarrow> 'w jira_state \<Rightarrow> (provider_error + unit) \<times> 'w jira_state" where
  "attempt_step x f s =
     (case f (the_outbox s) of
        Inl e \<Rightarrow> (Inl (conflict_of x e), s)
      | Inr db \<Rightarrow> (Inr (), set_outbox db s))"

definition attempt_confirm :: "int \<Rightarrow> outbox_operation \<Rightarrow> 'w jira_state \<Rightarrow> (provider_error + unit) \<times> 'w jira_state" where
  "attempt_confirm now x = attempt_step x (\<lambda>db. Inr (snd (confirm now (oo_operation_id x) db)))"

definition send_edit ::
  "'w ticket_provider \<Rightarrow> 'w gaps \<Rightarrow> int \<Rightarrow> outbox_operation \<Rightarrow> ticket_view \<Rightarrow> 'w jira_state
    \<Rightarrow> (provider_error + unit) \<times> 'w jira_state" where
  "send_edit provider other now x remote s =
     (let desired = desired_fields (oo_patch x);
          patch = (oo_patch x)\<lparr>pp_expected_token := tv_concurrency_token remote\<rparr>;
          s1 = other 2 s in
      case tp_update provider (oo_native_id x) patch (js_world s1) of
        (Inl e, w) \<Rightarrow> (Inl e, s1\<lparr>js_world := w\<rparr>)
      | (Inr written, w) \<Rightarrow>
          let s2 = other 3 (s1\<lparr>js_world := w\<rparr>) in
          if \<not> carries desired (tv_value written)
          then attempt_step x (needs_attention (oo_operation_id x)
                 ''provider acknowledgement did not contain local intent'' (Some (tv_value written))) s2
          else attempt_confirm now x s2)"

definition dispatch_attempt ::
  "'w jira_env \<Rightarrow> 'w gaps \<Rightarrow> int \<Rightarrow> outbox_operation \<Rightarrow> 'w jira_state \<Rightarrow> (provider_error + unit) \<times> 'w jira_state" where
  "dispatch_attempt E other now x s =
     (let s0 = other 0 s in
      case connection_provider E (oo_connection_id x) s0 of
        Inl e \<Rightarrow> (Inl (PeConflict (oo_native_id x) (aer_message e)), s0)
      | Inr provider \<Rightarrow>
     (case tp_get provider (oo_native_id x) (js_world s0) of
        (Inl e, w) \<Rightarrow> (Inl e, s0\<lparr>js_world := w\<rparr>)
      | (Inr remote, w) \<Rightarrow>
          let s1 = other 1 (s0\<lparr>js_world := w\<rparr>); desired = desired_fields (oo_patch x) in
          if carries desired (tv_value remote) then attempt_confirm now x s1
          else
            let conflict = conflicting_fields desired (oo_base_ticket x) (tv_value remote) in
            (case (if conflict \<noteq> [] then attempt_step x (record_conflict (oo_operation_id x) (JObject conflict)) s1
                   else (Inr (), s1)) of
               (Inl e, s2) \<Rightarrow> (Inl e, s2)
             | (Inr _, s2) \<Rightarrow> send_edit provider other now x remote s2)))"

text \<open>\<open>retry_after_seconds.unwrap_or(30).max(1) as i64\<close>: a 64-bit value reinterpreted as signed.\<close>

definition rate_limit_until :: "int \<Rightarrow> 64 word option \<Rightarrow> int" where
  "rate_limit_until epoch retry_after = sat64 (epoch + sint (max (unwrap_or retry_after 30) 1))"

text \<open>Admission refuses an empty operation id, whose first byte the code would index.\<close>

definition backoff_delay :: "outbox_operation \<Rightarrow> int" where
  "backoff_delay x =
     2 ^ nat (min (oo_attempts x) 6) + (case oo_operation_id x of [] \<Rightarrow> 0 | c # _ \<Rightarrow> of_char c mod 3)"

definition failed_attempt :: "outbox_operation \<Rightarrow> int \<Rightarrow> provider_error \<Rightarrow> outbox \<Rightarrow> outbox_error + outbox" where
  "failed_attempt x epoch error db =
     (let n = oo_operation_id x; text_of = provider_error_text error in
      case error of
        PeRateLimited _ retry_after \<Rightarrow>
          let until = rate_limit_until epoch retry_after in
          result_bind (outbox_defer n until ''provider rate limited'' True db) (\<lambda>db'.
          Inr (defer_connection (oo_connection_id x) until db'))
      | PeAuthentication _ _ \<Rightarrow> needs_attention n text_of None db
      | PeDisabled _ \<Rightarrow> needs_attention n text_of None db
      | PeNotFound _ _ \<Rightarrow> needs_attention n text_of None db
      | PeUnsupported _ _ \<Rightarrow> needs_attention n text_of None db
      | _ \<Rightarrow>
          if oo_attempts x mod 8 = 0 then needs_attention n text_of None db
          else outbox_defer n (sat64 (epoch + backoff_delay x)) text_of False db)"

text \<open>\<open>epoch\<close> is the time of the pass, \<open>now\<close> the clock at the confirmation.\<close>

definition dispatch_one ::
  "'w jira_env \<Rightarrow> 'w gaps \<Rightarrow> int \<Rightarrow> int \<Rightarrow> outbox_operation \<Rightarrow> 'w jira_state \<Rightarrow> (api_error + unit) \<times> 'w jira_state" where
  "dispatch_one E other now epoch x s =
     (case dispatch_attempt E other now x s of
        (Inr _, s1) \<Rightarrow> (Inr (), emit_operation_event (oo_connection_id x) (oo_native_id x) s1)
      | (Inl error, s1) \<Rightarrow>
          let s2 = other 4 s1 in
          (case failed_attempt x epoch error (the_outbox s2) of
             Inl e \<Rightarrow> (Inl (outbox_api_error e), s2)
           | Inr db \<Rightarrow> (Inr (), emit_operation_event (oo_connection_id x) (oo_native_id x) (set_outbox db s2))))"

text \<open>The jobs of a pass run side by side; here each runs in turn, what the others do meanwhile in its gaps.\<close>

fun dispatch_jobs ::
  "'w jira_env \<Rightarrow> (nat \<Rightarrow> 'w gaps) \<Rightarrow> int \<Rightarrow> int \<Rightarrow> outbox_operation list \<Rightarrow> 'w jira_state \<Rightarrow> (api_error + unit) \<times> 'w jira_state" where
  "dispatch_jobs E others now epoch [] s = (Inr (), s)"
| "dispatch_jobs E others now epoch (x # xs) s =
     (case dispatch_one E (others 0) now epoch x s of (r, s1) \<Rightarrow>
      case dispatch_jobs E (\<lambda>i. others (Suc i)) now epoch xs s1 of (rs, s2) \<Rightarrow>
        (result_bind r (\<lambda>_. rs), s2))"

definition dispatch_jira_at ::
  "'w jira_env \<Rightarrow> (nat \<Rightarrow> 'w gaps) \<Rightarrow> int \<Rightarrow> int \<Rightarrow> 'w jira_state \<Rightarrow> (api_error + nat) \<times> 'w jira_state" where
  "dispatch_jira_at E others now epoch s =
     (case js_outbox s of
        None \<Rightarrow> (Inr 0, s)
      | Some (db, _) \<Rightarrow>
          (case claim_ready epoch 4 db of
             (claimed, db') \<Rightarrow>
               let s1 = fold (\<lambda>x. emit_operation_event (oo_connection_id x) (oo_native_id x)) claimed (set_outbox db' s) in
               (case dispatch_jobs E others now epoch claimed s1 of
                  (r, s2) \<Rightarrow> (result_bind r (\<lambda>_. Inr (length claimed)), s2))))"

subsection \<open>The claimed row\<close>

definition row_at :: "'w jira_state \<Rightarrow> string \<Rightarrow> outbox_row option" where
  "row_at s n = Option.bind (js_outbox s) (\<lambda>(db, _). row_of db n)"

definition in_flight :: "'w jira_state \<Rightarrow> string \<Rightarrow> outbox_row \<Rightarrow> bool" where
  "in_flight s n r =
     (row_at s n = Some r \<and> ob_state r = OutQueued \<and> ob_dispatch r = DSending \<and> outbox_ok (the_outbox s))"

text \<open>What the dispatcher relies on of the rest of the server: an edit in flight is left alone.\<close>

definition steady :: "'w gaps \<Rightarrow> string \<Rightarrow> bool" where
  "steady other n = (\<forall>i s r. in_flight s n r \<longrightarrow> in_flight (other i s) n r)"

lemma in_flight_row: "in_flight s n r \<Longrightarrow> row_of (the_outbox s) n = Some r \<and> js_outbox s \<noteq> None"
  by (auto simp: in_flight_def row_at_def the_outbox_def bind_eq_Some_conv)

lemma steady_gap: "steady other n \<Longrightarrow> in_flight s n r \<Longrightarrow> in_flight (other i s) n r"
  by (auto simp: steady_def)

lemma in_flight_world [simp]: "in_flight (s\<lparr>js_world := w\<rparr>) n r = in_flight s n r"
  by (simp add: in_flight_def row_at_def the_outbox_def)

lemma row_at_event [simp]: "row_at (emit_operation_event c m s) n = row_at s n"
  by (simp add: row_at_def emit_operation_event_def)

lemma row_at_set:
  "js_outbox s \<noteq> None \<Longrightarrow> row_at (set_outbox db s) n = row_of db n"
  by (auto simp: row_at_def set_outbox_def)

text \<open>Statements that change one row.\<close>

lemma update_rows_row:
  assumes "row_of db n = Some r" "P r" "\<And>x. ob_operation_id (f x) = ob_operation_id x"
  shows "row_of (snd (update_rows P f db)) n = Some (f r)" "fst (update_rows P f db) \<noteq> 0"
proof -
  have "row_of (db\<lparr>ox_rows := map (\<lambda>x. if P x then f x else x) (ox_rows db)\<rparr>) n = Some (f r)"
    using row_of_map[of db "\<lambda>x. if P x then f x else x" n] assms by simp
  then show "row_of (snd (update_rows P f db)) n = Some (f r)" by (simp add: update_rows_def)
  show "fst (update_rows P f db) \<noteq> 0"
    using row_of_in[OF assms(1)] assms(2) by (auto simp: update_rows_def filter_empty_conv)
qed

lemma transition_row:
  assumes "row_of db n = Some r" "ob_state r = OutQueued" "P r" "\<And>x. ob_operation_id (f x) = ob_operation_id x"
  obtains db' where "transition n P f db = Inr db'" "row_of db' n = Some (f r)"
proof -
  have "with_id n r \<and> P r" using assms row_of_in[OF assms(1)] by (simp add: with_id_def)
  note u = update_rows_row[where P = "\<lambda>x. with_id n x \<and> P x" and f = f, OF assms(1) this assms(4)]
  show thesis using that u by (simp add: transition_def case_prod_beta)
qed

lemma sending_transition:
  assumes "row_of db n = Some r" "ob_state r = OutQueued" "ob_dispatch r = DSending"
    "\<And>x. ob_operation_id (f x) = ob_operation_id x"
  obtains db' where "transition n (\<lambda>r. ob_dispatch r = DSending) f db = Inr db'" "row_of db' n = Some (f r)"
  using transition_row[where P = "\<lambda>r. ob_dispatch r = DSending", OF assms] by blast

lemma confirm_row:
  assumes "row_of db n = Some r" "ob_state r = OutQueued" "ob_dispatch r = DSending"
  shows "row_of (snd (confirm now n db)) n = Some (confirmed_row now r)"
proof -
  have "with_id n r \<and> ob_dispatch r = DSending" using assms row_of_in[OF assms(1)] by (simp add: with_id_def)
  then show ?thesis
    unfolding confirm_def case_prod_beta snd_conv
    by (rule update_rows_row(1)[OF assms(1)]) (simp add: confirmed_row_def)
qed

lemma attempt_confirm_row:
  assumes "in_flight s n r" "oo_operation_id x = n"
  shows "\<exists>s'. attempt_confirm now x s = (Inr (), s') \<and> row_at s' n = Some (confirmed_row now r)"
  using confirm_row[of "the_outbox s" n r now] in_flight_row[OF assms(1)] assms
  by (simp add: attempt_confirm_def attempt_step_def row_at_set in_flight_def)

lemma the_outbox_world [simp]: "the_outbox (s\<lparr>js_world := w\<rparr>) = the_outbox s"
  by (simp add: the_outbox_def)

lemma the_outbox_set: "js_outbox s \<noteq> None \<Longrightarrow> the_outbox (set_outbox db s) = db"
  by (auto simp: the_outbox_def set_outbox_def)

lemma record_conflict_ok:
  assumes "outbox_ok db" "record_conflict n c db = Inr db'" shows "outbox_ok db'"
  using bounded_apply[of "pending_count db" db undefined "OxConflict n c"] assms
  by (simp add: bounded_ok_def kept_on_error_def)

lemma conflict_flight:
  assumes "in_flight s n r"
  shows "\<exists>s'. attempt_step x (record_conflict n c) s = (Inr (), s') \<and> in_flight s' n (r\<lparr>ob_conflict := Some c\<rparr>)
    \<and> js_world s' = js_world s"
proof -
  have r: "row_of (the_outbox s) n = Some r" "ob_state r = OutQueued" "ob_dispatch r = DSending" "js_outbox s \<noteq> None"
    "outbox_ok (the_outbox s)"
    using in_flight_row[OF assms] assms by (auto simp: in_flight_def)
  obtain db where db: "record_conflict n c (the_outbox s) = Inr db" "row_of db n = Some (r\<lparr>ob_conflict := Some c\<rparr>)"
    unfolding record_conflict_def
    by (rule sending_transition[OF r(1-3), where f = "\<lambda>r. r\<lparr>ob_conflict := Some c\<rparr>"]) simp_all
  have "in_flight (set_outbox db s) n (r\<lparr>ob_conflict := Some c\<rparr>)"
    using db r record_conflict_ok[OF r(5) db(1)] by (simp add: in_flight_def row_at_set the_outbox_set)
  then show ?thesis using db(1) by (simp add: attempt_step_def set_outbox_def)
qed

lemma attempt_step_row:
  assumes "in_flight s n r" "\<And>k. ob_operation_id (f k) = ob_operation_id k"
  shows "\<exists>s'. attempt_step x (transition n (\<lambda>r. ob_dispatch r = DSending) f) s = (Inr (), s') \<and> row_at s' n = Some (f r)"
proof -
  have r: "row_of (the_outbox s) n = Some r" "ob_state r = OutQueued" "ob_dispatch r = DSending" "js_outbox s \<noteq> None"
    using in_flight_row[OF assms(1)] assms(1) by (auto simp: in_flight_def)
  obtain db' where "transition n (\<lambda>r. ob_dispatch r = DSending) f (the_outbox s) = Inr db'" "row_of db' n = Some (f r)"
    using sending_transition[OF r(1-3) assms(2)] by blast
  then show ?thesis using r(4) by (simp add: attempt_step_def row_at_set)
qed

subsection \<open>The outcome of an attempt\<close>

text \<open>A ticket the provider of the edit reported, on a read or as the answer to the write.\<close>

definition reported :: "'w jira_env \<Rightarrow> outbox_operation \<Rightarrow> ticket_view \<Rightarrow> bool" where
  "reported E x v =
     (\<exists>w0 provider w w'. je_provider_for E (oo_connection_id x) w0 = Inr provider
        \<and> (tp_get provider (oo_native_id x) w = (Inr v, w')
           \<or> (\<exists>t. tp_update provider (oo_native_id x) ((oo_patch x)\<lparr>pp_expected_token := t\<rparr>) w = (Inr v, w'))))"

definition edit_applied :: "'w jira_env \<Rightarrow> outbox_operation \<Rightarrow> bool" where
  "edit_applied E x = (\<exists>v. reported E x v \<and> carries (desired_fields (oo_patch x)) (tv_value v))"

text \<open>How an attempt leaves the row: settled, put before a person, or still in flight after an error.\<close>

definition attempt_done :: "'w jira_env \<Rightarrow> int \<Rightarrow> outbox_operation \<Rightarrow> outbox_row \<Rightarrow> provider_error + unit \<Rightarrow> outbox_row \<Rightarrow> bool" where
  "attempt_done E now x r res r' =
     ((\<exists>c. r' = (case res of
            Inl _ \<Rightarrow> r\<lparr>ob_conflict := c\<rparr>
          | Inr _ \<Rightarrow> if ob_state r' = OutConfirmed then (confirmed_row now r)\<lparr>ob_conflict := c\<rparr>
                    else r\<lparr>ob_dispatch := DNeedsAttention, ob_last_error := ob_last_error r', ob_conflict := c\<rparr>))
      \<and> (ob_state r' = OutConfirmed \<longrightarrow> edit_applied E x))"

lemma attempt_done_error:
  assumes "ob_state r = OutQueued" "isl res" shows "attempt_done E now x r res r"
proof -
  obtain e where e: "res = Inl e" using assms(2) by (cases res) auto
  have "r = r\<lparr>ob_conflict := ob_conflict r\<rparr>" by simp
  then show ?thesis unfolding attempt_done_def e sum.case using assms(1) by (metis outbox_state.distinct(1))
qed

lemma attempt_done_confirm:
  assumes "in_flight s n (r\<lparr>ob_conflict := c\<rparr>)" "oo_operation_id x = n" "edit_applied E x"
    "attempt_confirm now x s = (res, s')"
  shows "\<exists>r'. row_at s' n = Some r' \<and> attempt_done E now x r res r' \<and> (isl res \<longrightarrow> outbox_ok (the_outbox s'))"
proof -
  have "res = Inr ()" "row_at s' n = Some ((confirmed_row now r)\<lparr>ob_conflict := c\<rparr>)"
    using attempt_confirm_row[OF assms(1,2), of now] assms(4) by (auto simp: confirmed_row_def)
  then show ?thesis using assms(3) by (auto simp: attempt_done_def confirmed_row_def)
qed

lemma send_edit_done:
  assumes "steady other n" "in_flight s n (r\<lparr>ob_conflict := c\<rparr>)" "oo_operation_id x = n"
    "je_provider_for E (oo_connection_id x) w0 = Inr provider" "send_edit provider other now x remote s = (res, s')"
  shows "\<exists>r'. row_at s' n = Some r' \<and> attempt_done E now x r res r' \<and> (isl res \<longrightarrow> outbox_ok (the_outbox s'))"
proof -
  let ?s1 = "other 2 s"
  let ?patch = "(oo_patch x)\<lparr>pp_expected_token := tv_concurrency_token remote\<rparr>"
  note g = steady_gap[OF assms(1)]
  have f1: "in_flight ?s1 n (r\<lparr>ob_conflict := c\<rparr>)" by (rule g[OF assms(2)])
  obtain a w where u: "tp_update provider (oo_native_id x) ?patch (js_world ?s1) = (a, w)" by force
  show ?thesis
  proof (cases a)
    case (Inl e)
    then have "res = Inl e" "s' = ?s1\<lparr>js_world := w\<rparr>" using assms(5) u by (auto simp: send_edit_def Let_def)
    then show ?thesis using f1 assms(2) by (auto simp: attempt_done_def in_flight_def row_at_def the_outbox_def)
  next
    case (Inr v)
    let ?s2 = "other 3 (?s1\<lparr>js_world := w\<rparr>)"
    have f2: "in_flight ?s2 n (r\<lparr>ob_conflict := c\<rparr>)" using g f1 by simp
    have rep: "reported E x v" unfolding reported_def using assms(4) u Inr by blast
    show ?thesis
    proof (cases "carries (desired_fields (oo_patch x)) (tv_value v)")
      case True
      then have "attempt_confirm now x ?s2 = (res, s')" using assms(5) u Inr by (simp add: send_edit_def Let_def)
      moreover have "edit_applied E x" unfolding edit_applied_def using rep True by blast
      ultimately show ?thesis using attempt_done_confirm[OF f2 assms(3)] by blast
    next
      case False
      let ?m = "''provider acknowledgement did not contain local intent''"
      have "attempt_step x (needs_attention n ?m (Some (tv_value v))) ?s2 = (res, s')"
        using assms(3,5) u Inr False by (simp add: send_edit_def Let_def)
      then have "res = Inr ()" "row_at s' n = Some (r\<lparr>ob_dispatch := DNeedsAttention, ob_last_error := Some ?m, ob_conflict := Some (tv_value v)\<rparr>)"
        unfolding needs_attention_def
        using attempt_step_row[OF f2, of "\<lambda>r. r\<lparr>ob_dispatch := DNeedsAttention, ob_last_error := Some ?m, ob_conflict := Some (tv_value v)\<rparr>" x]
        by auto
      then show ?thesis using f1 by (auto simp: attempt_done_def in_flight_def)
    qed
  qed
qed

lemma dispatch_attempt_done:
  assumes "steady other n" "in_flight s n r" "oo_operation_id x = n" "dispatch_attempt E other now x s = (res, s')"
  shows "\<exists>r'. row_at s' n = Some r' \<and> attempt_done E now x r res r' \<and> (isl res \<longrightarrow> outbox_ok (the_outbox s'))"
proof -
  let ?s0 = "other 0 s"
  note g = steady_gap[OF assms(1)]
  have f0: "in_flight ?s0 n r" by (rule g[OF assms(2)])
  have r: "ob_state r = OutQueued" using assms(2) by (simp add: in_flight_def)
  show ?thesis
  proof (cases "connection_provider E (oo_connection_id x) ?s0")
    case (Inl e)
    then have "isl res" "s' = ?s0" using assms(4) by (auto simp: dispatch_attempt_def Let_def)
    then show ?thesis using f0 attempt_done_error[OF r, of res E now x] by (simp add: in_flight_def)
  next
    case (Inr provider)
    then have p: "je_provider_for E (oo_connection_id x) (js_world ?s0) = Inr provider" by (simp add: connection_provider_def)
    obtain a w where u: "tp_get provider (oo_native_id x) (js_world ?s0) = (a, w)" by force
    let ?s1 = "other 1 (?s0\<lparr>js_world := w\<rparr>)"
    have f1: "in_flight ?s1 n r" using g f0 by simp
    show ?thesis
    proof (cases a)
      case (Inl e)
      then have "isl res" "s' = ?s0\<lparr>js_world := w\<rparr>"
        using assms(4) Inr u by (auto simp: dispatch_attempt_def Let_def)
      moreover have "in_flight (?s0\<lparr>js_world := w\<rparr>) n r" using f0 by simp
      ultimately show ?thesis using attempt_done_error[OF r, of res E now x] unfolding in_flight_def by blast
    next
      case v: (Inr remote)
      let ?desired = "desired_fields (oo_patch x)"
      let ?conflict = "conflicting_fields ?desired (oo_base_ticket x) (tv_value remote)"
      have f: "in_flight ?s1 n (r\<lparr>ob_conflict := ob_conflict r\<rparr>)" using f1 by simp
      show ?thesis
      proof (cases "carries ?desired (tv_value remote)")
        case True
        have "attempt_confirm now x ?s1 = (res, s')" using assms(4) Inr u v True by (simp add: dispatch_attempt_def Let_def)
        moreover have "edit_applied E x" unfolding edit_applied_def reported_def using p u v True by blast
        ultimately show ?thesis using attempt_done_confirm[OF f assms(3)] by blast
      next
        case False
        note unfolded = assms(4)[unfolded dispatch_attempt_def Let_def Inr sum.case u v prod.case]
        show ?thesis
        proof (cases "?conflict = []")
          case True
          then have "send_edit provider other now x remote ?s1 = (res, s')" using unfolded False by simp
          then show ?thesis using send_edit_done[OF assms(1) f assms(3) p] by blast
        next
          case c: False
          let ?r = "r\<lparr>ob_conflict := Some (JObject ?conflict)\<rparr>"
          obtain s2 where s2: "attempt_step x (record_conflict n (JObject ?conflict)) ?s1 = (Inr (), s2)" "in_flight s2 n ?r"
            using conflict_flight[OF f1] by blast
          moreover have "send_edit provider other now x remote s2 = (res, s')"
            using unfolded False c s2 assms(3) by simp
          ultimately show ?thesis using send_edit_done[OF assms(1) s2(2) assms(3) p] by blast
        qed
      qed
    qed
  qed
qed

lemma backoff_bounds:
  assumes "1 \<le> oo_attempts x" shows "2 \<le> backoff_delay x \<and> backoff_delay x \<le> 66"
proof -
  define k where "k = nat (min (oo_attempts x) 6)"
  define j :: int where "j = (case oo_operation_id x of [] \<Rightarrow> 0 | c # _ \<Rightarrow> of_char c mod 3)"
  have k: "1 \<le> k" "k \<le> 6" using assms by (auto simp: k_def)
  have "(2::int) ^ 1 \<le> 2 ^ k" "(2::int) ^ k \<le> 2 ^ 6" using k by (intro power_increasing; simp)+
  moreover have "0 \<le> j" "j \<le> 2" by (auto simp: j_def split: list.splits)
  moreover have "backoff_delay x = 2 ^ k + j" by (simp add: backoff_delay_def k_def j_def)
  ultimately show ?thesis by simp
qed

text \<open>How a failed attempt leaves the row.\<close>

definition postponed :: "outbox_operation \<Rightarrow> int \<Rightarrow> outbox_row \<Rightarrow> outbox_row \<Rightarrow> bool" where
  "postponed x epoch r r' =
     (\<exists>c t u. r' = r\<lparr>ob_dispatch := ob_dispatch r', ob_next_attempt_at := u, ob_last_error := Some t, ob_conflict := c\<rparr>
        \<and> (ob_dispatch r' = DNeedsAttention \<or> ob_dispatch r' = DRateLimited
           \<or> ob_dispatch r' = DQueued \<and> oo_attempts x mod 8 \<noteq> 0 \<and> u = sat64 (epoch + backoff_delay x)))"

lemma attention_row:
  assumes "row_of db n = Some r" "ob_state r = OutQueued" "ob_dispatch r = DSending"
  shows "\<exists>db' r'. needs_attention n t None db = Inr db' \<and> row_of db' n = Some r' \<and> postponed x epoch r r'"
proof -
  obtain db' where "needs_attention n t None db = Inr db'"
      "row_of db' n = Some (r\<lparr>ob_dispatch := DNeedsAttention, ob_last_error := Some t, ob_conflict := None\<rparr>)"
    unfolding needs_attention_def
    by (rule sending_transition[OF assms, where f = "\<lambda>r. r\<lparr>ob_dispatch := DNeedsAttention, ob_last_error := Some t, ob_conflict := None\<rparr>"]) simp_all
  then show ?thesis unfolding postponed_def
    by (intro exI[of _ db'] exI[of _ "r\<lparr>ob_dispatch := DNeedsAttention, ob_last_error := Some t, ob_conflict := None\<rparr>"] conjI
          exI[of _ None] exI[of _ t] exI[of _ "ob_next_attempt_at r"]) simp_all
qed

lemma defer_row:
  assumes "row_of db n = Some r" "ob_state r = OutQueued" "ob_dispatch r = DSending"
  obtains db' where "outbox_defer n u t limited db = Inr db'"
    "row_of db' n = Some (r\<lparr>ob_dispatch := (if limited then DRateLimited else DQueued), ob_next_attempt_at := u, ob_last_error := Some t\<rparr>)"
  unfolding outbox_defer_def
  by (rule sending_transition[OF assms, where f = "\<lambda>r. r\<lparr>ob_dispatch := (if limited then DRateLimited else DQueued), ob_next_attempt_at := u, ob_last_error := Some t\<rparr>"])
     (simp_all del: if_split)

lemma failed_attempt_row:
  assumes "row_of db n = Some r" "ob_state r = OutQueued" "ob_dispatch r = DSending" "oo_operation_id x = n"
  shows "\<exists>db' r'. failed_attempt x epoch e db = Inr db' \<and> row_of db' n = Some r' \<and> postponed x epoch r r'"
proof -
  note attention = attention_row[OF assms(1-3)]
  have backoff: "\<exists>db' r'. outbox_defer n (sat64 (epoch + backoff_delay x)) t False db = Inr db' \<and> row_of db' n = Some r' \<and> postponed x epoch r r'"
    if "oo_attempts x mod 8 \<noteq> 0" for t
  proof -
    let ?r = "r\<lparr>ob_dispatch := DQueued, ob_next_attempt_at := sat64 (epoch + backoff_delay x), ob_last_error := Some t\<rparr>"
    have "postponed x epoch r ?r" unfolding postponed_def
      using that by (intro exI[of _ "ob_conflict r"] exI[of _ t] exI[of _ "sat64 (epoch + backoff_delay x)"]) simp
    then show ?thesis using defer_row[OF assms(1-3), of "sat64 (epoch + backoff_delay x)" t False] by (metis (full_types))
  qed
  have limited: "\<exists>db' r'. result_bind (outbox_defer n u t True db) (\<lambda>db'. Inr (defer_connection c u db')) = Inr db'
      \<and> row_of db' n = Some r' \<and> postponed x epoch r r'" for u t c
  proof -
    let ?r = "r\<lparr>ob_dispatch := DRateLimited, ob_next_attempt_at := u, ob_last_error := Some t\<rparr>"
    obtain db1 where d: "outbox_defer n u t True db = Inr db1" "row_of db1 n = Some ?r"
      using defer_row[OF assms(1-3), of u t True] by (metis (full_types))
    have "row_of (defer_connection c u db1) n = Some ?r"
      unfolding defer_connection_def update_rows_def snd_conv
      by (subst row_of_map) (simp_all add: d(2))
    moreover have "postponed x epoch r ?r" unfolding postponed_def
      by (intro exI[of _ "ob_conflict r"] exI[of _ t] exI[of _ u]) simp
    ultimately show ?thesis using d(1) by (simp add: result_bind_def)
  qed
  show ?thesis using attention backoff limited assms(4)
    by (cases e; cases "oo_attempts x mod 8 = 0") (simp_all add: failed_attempt_def Let_def)
qed

lemma dispatch_one_row:
  assumes "steady other n" "in_flight s n r" "dispatch_one E other now epoch (operation_of r) s = (res, s')"
  shows "res = Inr () \<and> (\<exists>r'. row_at s' n = Some r'
    \<and> (attempt_done E now (operation_of r) r (Inr ()) r' \<or> postponed (operation_of r) epoch r r'))"
proof -
  let ?x = "operation_of r"
  have id: "oo_operation_id ?x = n"
    using in_flight_row[OF assms(2)] row_of_in by (auto simp: operation_of_def)
  obtain a s1 where t: "dispatch_attempt E other now ?x s = (a, s1)" by force
  obtain r1 where r1: "row_at s1 n = Some r1" "attempt_done E now ?x r a r1" "isl a \<longrightarrow> outbox_ok (the_outbox s1)"
    using dispatch_attempt_done[OF assms(1,2) id t] by blast
  show ?thesis
  proof (cases a)
    case (Inr u)
    then show ?thesis using assms(3) t r1 by (auto simp: dispatch_one_def)
  next
    case (Inl e)
    then obtain c where c: "r1 = r\<lparr>ob_conflict := c\<rparr>" using r1(2) by (auto simp: attempt_done_def)
    have "in_flight s1 n r1" using assms(2) r1(1,3) c Inl by (simp add: in_flight_def)
    then have f: "in_flight (other 4 s1) n r1" by (rule steady_gap[OF assms(1)])
    note db = in_flight_row[OF f]
    obtain db' r' where d: "failed_attempt ?x epoch e (the_outbox (other 4 s1)) = Inr db'" "row_of db' n = Some r'"
        "postponed ?x epoch r1 r'"
      using failed_attempt_row[of "the_outbox (other 4 s1)" n r1 ?x epoch e] db id f by (auto simp: in_flight_def)
    have "postponed ?x epoch r r'" using d(3) unfolding c postponed_def by simp
    then show ?thesis using assms(3) t Inl d db by (auto simp: dispatch_one_def Let_def row_at_set)
  qed
qed

subsection \<open>Delivery\<close>

text \<open>A tracker that answers: it reports its present ticket, and a write with the present token stores the
  edited fields and reports the new ticket.\<close>

definition tracker_answers :: "'w jira_env \<Rightarrow> string \<Rightarrow> string \<Rightarrow> ('w \<Rightarrow> ticket_view) \<Rightarrow> bool" where
  "tracker_answers E connection native view =
     (\<exists>provider. \<forall>w. je_provider_for E connection w = Inr provider \<and> tp_get provider native w = (Inr (view w), w)
        \<and> (\<forall>patch. pp_expected_token patch = tv_concurrency_token (view w) \<longrightarrow>
              (\<exists>w'. tp_update provider native patch w = (Inr (view w'), w')
                 \<and> carries (desired_fields patch) (tv_value (view w')))))"

text \<open>The gaps leave the remote ticket alone.\<close>

definition remote_quiet :: "'w gaps \<Rightarrow> ('w \<Rightarrow> ticket_view) \<Rightarrow> bool" where
  "remote_quiet other view = (\<forall>i s. view (js_world (other i s)) = view (js_world s))"

definition overwrites :: "json_map \<Rightarrow> json \<Rightarrow> json \<Rightarrow> string \<Rightarrow> bool" where
  "overwrites desired base remote k =
     (\<exists>x. map_of desired k = Some x \<and> json_get k base \<noteq> Some (unwrap_or (json_get k remote) JNull)
        \<and> unwrap_or (json_get k remote) JNull \<noteq> x)"

lemma desired_fields_sorted: "key_sorted (desired_fields p)" "map_of (desired_fields p) = map_of (edit_fields p)"
  using set_fields[of "[]" "edit_fields p", OF _ edit_fields_distinct] by (simp_all add: desired_fields_def)

lemma desired_fields_token [simp]: "desired_fields (p\<lparr>pp_expected_token := t\<rparr>) = desired_fields p"
  by (simp add: desired_fields_def edit_fields_def)

lemma conflicting_fields_at:
  assumes "key_sorted desired" "overwrites desired base remote k"
  shows "map_of (conflicting_fields desired base remote) k = Some (unwrap_or (json_get k remote) JNull)"
proof -
  let ?cur = "\<lambda>k. unwrap_or (json_get k remote) JNull"
  let ?f = "\<lambda>(field, x) conflict. let current = ?cur field in
     if json_get field base \<noteq> Some current \<and> current \<noteq> x then set_field field current conflict else conflict"
  have "(\<exists>x. (k, x) \<in> set d \<and> json_get k base \<noteq> Some (?cur k) \<and> ?cur k \<noteq> x) \<or> map_of acc k = Some (?cur k)
      \<Longrightarrow> map_of (fold ?f d acc) k = Some (?cur k)" if "key_sorted acc" for d acc
    using that
  proof (induction d arbitrary: acc)
    case (Cons e d)
    obtain j x where e: "e = (j, x)" by force
    have "key_sorted (?f e acc)" using Cons.prems(2) by (simp add: e Let_def set_field_def key_sorted_btree_entry)
    then show ?case using Cons.IH[of "?f e acc"] Cons.prems
      by (auto simp: e Let_def set_field_def map_of_btree_entry split: if_splits)
  qed simp
  then show ?thesis using assms(2) unfolding conflicting_fields_def overwrites_def by (force dest: map_of_SomeD)
qed

lemma attempt_step_world: "attempt_step x f s = (res, s') \<Longrightarrow> js_world s' = js_world s"
  by (auto simp: attempt_step_def set_outbox_def split: sum.splits)

lemma attempt_confirm_world: "attempt_confirm now x s = (res, s') \<Longrightarrow> js_world s' = js_world s"
  unfolding attempt_confirm_def by (rule attempt_step_world)

lemma send_edit_delivers:
  assumes "steady other n" "in_flight s n r" "oo_operation_id x = n" "remote_quiet other view"
    "remote = view (js_world s)"
    "\<And>w patch. pp_expected_token patch = tv_concurrency_token (view w) \<Longrightarrow>
        \<exists>w'. tp_update provider (oo_native_id x) patch w = (Inr (view w'), w') \<and> carries (desired_fields patch) (tv_value (view w'))"
  shows "\<exists>s'. send_edit provider other now x remote s = (Inr (), s') \<and> row_at s' n = Some (confirmed_row now r)
    \<and> carries (desired_fields (oo_patch x)) (tv_value (view (js_world s')))"
proof -
  let ?s1 = "other 2 s"
  let ?patch = "(oo_patch x)\<lparr>pp_expected_token := tv_concurrency_token remote\<rparr>"
  note q = assms(4)[unfolded remote_quiet_def, rule_format]
  obtain w' where u: "tp_update provider (oo_native_id x) ?patch (js_world ?s1) = (Inr (view w'), w')"
      "carries (desired_fields (oo_patch x)) (tv_value (view w'))"
    using assms(6)[of ?patch "js_world ?s1"] assms(5) q by auto
  let ?s2 = "other 3 (?s1\<lparr>js_world := w'\<rparr>)"
  have f: "in_flight ?s2 n r" using steady_gap[OF assms(1)] assms(2) by simp
  obtain s' where s': "attempt_confirm now x ?s2 = (Inr (), s')" "row_at s' n = Some (confirmed_row now r)"
    using attempt_confirm_row[OF f assms(3)] by blast
  have "view (js_world s') = view w'" using attempt_confirm_world[OF s'(1)] q by simp
  then show ?thesis using u s' by (simp add: send_edit_def Let_def)
qed

lemma dispatch_attempt_delivers:
  assumes "steady other n" "in_flight s n r" "oo_operation_id x = n" "remote_quiet other view"
    "tracker_answers E (oo_connection_id x) (oo_native_id x) view"
  shows "\<exists>s' c. dispatch_attempt E other now x s = (Inr (), s') \<and> row_at s' n = Some ((confirmed_row now r)\<lparr>ob_conflict := c\<rparr>)
    \<and> carries (desired_fields (oo_patch x)) (tv_value (view (js_world s')))
    \<and> (\<forall>k. overwrites (desired_fields (oo_patch x)) (oo_base_ticket x) (tv_value (view (js_world s))) k \<longrightarrow>
         (\<exists>m. c = Some (JObject m) \<and> map_of m k = Some (unwrap_or (json_get k (tv_value (view (js_world s)))) JNull)))"
proof -
  let ?s0 = "other 0 s" and ?d = "desired_fields (oo_patch x)" and ?remote = "tv_value (view (js_world s))"
  note q = assms(4)[unfolded remote_quiet_def, rule_format]
  note g = steady_gap[OF assms(1)]
  obtain provider where p: "\<And>w. je_provider_for E (oo_connection_id x) w = Inr provider"
      "\<And>w. tp_get provider (oo_native_id x) w = (Inr (view w), w)"
      "\<And>w patch. pp_expected_token patch = tv_concurrency_token (view w) \<Longrightarrow>
        \<exists>w'. tp_update provider (oo_native_id x) patch w = (Inr (view w'), w') \<and> carries (desired_fields patch) (tv_value (view w'))"
    using assms(5) unfolding tracker_answers_def by blast
  let ?s1 = "other 1 ?s0"
  have f1: "in_flight ?s1 n r" using g assms(2) by blast
  have v1: "view (js_world ?s1) = view (js_world s)" by (simp add: q)
  let ?conflict = "conflicting_fields ?d (oo_base_ticket x) ?remote"
  have unf: "dispatch_attempt E other now x s =
      (if carries ?d ?remote then attempt_confirm now x ?s1
       else case (if ?conflict \<noteq> [] then attempt_step x (record_conflict n (JObject ?conflict)) ?s1 else (Inr (), ?s1)) of
               (Inl e, s2) \<Rightarrow> (Inl e, s2)
             | (Inr _, s2) \<Rightarrow> send_edit provider other now x (view (js_world s)) s2)"
    by (simp add: dispatch_attempt_def Let_def connection_provider_def p(1,2) q assms(3) split: prod.split sum.split)
  consider (known) "carries ?d ?remote" | (clean) "\<not> carries ?d ?remote" "?conflict = []" | (conflict) "\<not> carries ?d ?remote" "?conflict \<noteq> []"
    by blast
  then show ?thesis
  proof cases
    case known
    obtain s' where s': "attempt_confirm now x ?s1 = (Inr (), s')" "row_at s' n = Some (confirmed_row now r)"
      using attempt_confirm_row[OF f1 assms(3)] by blast
    have "\<not> overwrites ?d (oo_base_ticket x) ?remote k" for k
      using known by (auto simp: overwrites_def carries_def list_all_iff unwrap_or_def dest!: map_of_SomeD)
    then show ?thesis using s' unf known attempt_confirm_world[OF s'(1)] v1
      by (intro exI[of _ s'] exI[of _ "ob_conflict r"]) (simp add: confirmed_row_def)
  next
    case clean
    have "\<not> overwrites ?d (oo_base_ticket x) ?remote k" for k
      using conflicting_fields_at[OF desired_fields_sorted(1), of "oo_patch x" "oo_base_ticket x" ?remote k] clean(2) by auto
    then show ?thesis
      using send_edit_delivers[OF assms(1) f1 assms(3,4) v1[symmetric] p(3), where now = now] unf clean
      by (auto intro!: exI[of _ "ob_conflict r"] simp: confirmed_row_def)
  next
    case conflict
    let ?r = "r\<lparr>ob_conflict := Some (JObject ?conflict)\<rparr>"
    obtain s2 where s2: "attempt_step x (record_conflict n (JObject ?conflict)) ?s1 = (Inr (), s2)" and f2: "in_flight s2 n ?r"
      and w: "js_world s2 = js_world ?s1"
      using conflict_flight[OF f1] by blast
    have "view (js_world s) = view (js_world s2)" using w v1 by simp
    from send_edit_delivers[OF assms(1) f2 assms(3,4) this p(3), where now = now] unf conflict s2
    show ?thesis using conflicting_fields_at[OF desired_fields_sorted(1), of "oo_patch x" "oo_base_ticket x" ?remote]
      by (auto intro!: exI[of _ "Some (JObject ?conflict)"] simp: confirmed_row_def)
  qed
qed

subsection \<open>The rest of the server\<close>

text \<open>Operations of the dispatcher on one edit, and reopening the database, which takes edits out of flight.\<close>

fun aims_at :: "outbox_op \<Rightarrow> string \<Rightarrow> bool" where
  "aims_at (OxConfirm _ k) n = (k = n)"
| "aims_at (OxDefer k _ _ _) n = (k = n)"
| "aims_at (OxAttention k _ _) n = (k = n)"
| "aims_at (OxConflict k _) n = (k = n)"
| "aims_at (OxReopen _) n = True"
| "aims_at _ n = False"

lemma ok_admit_all_plain:
  assumes "admit_all E m p clock as (added, db) = Inr (outs, db')" "outbox_ok db" shows "outbox_ok db'"
  using assms
proof (induction as arbitrary: clock added db outs)
  case (Cons a as)
  obtain out added1 db1 outs1 where o: "admit_one E m p (clock 0) a (added, db) = Inr (out, added1, db1)"
    and r: "admit_all E m p (\<lambda>i. clock (Suc i)) as (added1, db1) = Inr (outs1, db')"
    using Cons.prems(1) by (auto simp: result_bind_eq_Inr split: prod.splits)
  from o show ?case
    by (cases rule: admit_one_cases) (use Cons.IH[OF r] Cons.prems(2) ok_insert(1) in auto)
qed simp

lemma outbox_ok_apply:
  assumes "outbox_ok db" shows "outbox_ok (outbox_apply E m op db)"
proof -
  have b: "outbox_ok (outbox_apply E (pending_count db) op db)"
    using bounded_apply[of "pending_count db" db E op] assms by (simp add: bounded_ok_def)
  show ?thesis
  proof (cases op)
    case (OxAdmit clock as)
    let ?db2 = "snd (prune_terminal_rows (clock 1) (snd (compact_terminal_before E (clock 0 - SETTLED_PAYLOAD_RETENTION) db)))"
    have "outbox_ok ?db2" by (intro ok_prune ok_compact assms)
    then show ?thesis using ok_admit_all_plain[of E m "pending_count ?db2" "\<lambda>i. clock (i + 2)" as 0 ?db2]
      by (auto simp: OxAdmit admit_batch_def Let_def split: sum.splits)
  next
    case (OxReopen clock)
    show ?thesis unfolding OxReopen outbox_apply.simps
      by (rule kept_cases) (use ok_open(1)[OF disjI1[OF assms]] assms in auto)
  qed (use b in simp_all)
qed

lemma update_keeps_row:
  assumes "row_of db n = Some r" "\<not> P r" "\<And>x. ob_operation_id (f x) = ob_operation_id x"
  shows "row_of (snd (update_rows P f db)) n = Some r"
  using row_of_map[of db "\<lambda>x. if P x then f x else x" n] assms by (simp add: update_rows_def)

lemma transition_keeps_row:
  assumes "row_of db n = Some r" "k \<noteq> n \<or> \<not> P r" "\<And>x. ob_operation_id (f x) = ob_operation_id x"
  shows "row_of (kept_on_error db (transition k P f db)) n = Some r"
proof -
  have "\<not> (with_id k r \<and> P r)" using assms(2) row_of_in[OF assms(1)] by (auto simp: with_id_def)
  from update_keeps_row[of db n r "\<lambda>x. with_id k x \<and> P x", OF assms(1) this assms(3)] assms(1)
  show ?thesis by (simp add: kept_on_error_def transition_def case_prod_beta)
qed

lemma prune_keeps_row:
  assumes "row_of db n = Some r" "ob_state r = OutQueued"
  shows "row_of (snd (prune_terminal_rows now db)) n = Some r"
proof -
  have "List.find (\<lambda>x. ob_operation_id x = n) (filter Q rows) = Some r"
    if "List.find (\<lambda>x. ob_operation_id x = n) rows = Some r" "Q r" for Q rows
    using that by (induction rows) (auto split: if_splits)
  then show ?thesis using assms
    by (auto simp: prune_terminal_rows_def row_of_def Let_def prunable_def split: option.splits)
qed

lemma admit_keeps_row:
  "admit_all E m p clock as s = Inr (outs, db') \<Longrightarrow> row_of (snd s) n = Some r \<Longrightarrow> row_of db' n = Some r"
proof (induction as arbitrary: clock s outs)
  case (Cons a as)
  obtain added db where s: "s = (added, db)" by force
  obtain out added1 db1 outs1 where o: "admit_one E m p (clock 0) a (added, db) = Inr (out, added1, db1)"
    and r: "admit_all E m p (\<lambda>i. clock (Suc i)) as (added1, db1) = Inr (outs1, db')"
    using Cons.prems(1) unfolding s by (auto simp: result_bind_eq_Inr split: prod.splits)
  from o have "row_of db1 n = Some r"
    by (cases rule: admit_one_cases) (use Cons.prems(2) s in \<open>auto simp: insert_admission_def Let_def row_of_def find_row_append\<close>)
  then show ?case using Cons.IH[OF r] by simp
qed simp

lemma compact_keeps_row:
  assumes "row_of db n = Some r" "ob_state r = OutQueued"
  shows "row_of (snd (compact_terminal_before E cutoff db)) n = Some r"
  unfolding compact_terminal_before_def
  by (rule update_keeps_row[OF assms(1)]) (simp_all add: compactable_def compact_row_def assms(2))

lemma claim_keeps_row:
  assumes "outbox_ok db" "row_of db n = Some r" "ob_dispatch r = DSending"
  shows "row_of (snd (claim_ready now limit db)) n = Some r"
proof -
  let ?ids = "ob_operation_id ` set (claim_rows db now limit)"
  have "ob_operation_id r \<notin> ?ids"
    using claimed_row_step(1)[OF assms(1)] claim_rows_props(2)[OF assms(1)] row_of_in[OF assms(2)] assms(3)
    unfolding claimable_def by fastforce
  then have "row_of (fold claim_row (claim_rows db now limit) db) n = Some r"
    unfolding fold_claim[OF claim_rows_props(1)[OF assms(1)]]
    by (subst row_of_map) (simp_all add: sending_row_def assms(2))
  then show ?thesis by (simp add: claim_ready_def claim_rows_def Let_def)
qed

lemma flight_kept:
  assumes "outbox_ok db" "row_of db n = Some r" "ob_state r = OutQueued" "ob_dispatch r = DSending" "\<not> aims_at op n"
  shows "row_of (outbox_apply E m op db) n = Some r"
proof (cases op)
  case (OxAdmit clock as)
  let ?db2 = "snd (prune_terminal_rows (clock 1) (snd (compact_terminal_before E (clock 0 - SETTLED_PAYLOAD_RETENTION) db)))"
  have "row_of ?db2 n = Some r" by (intro prune_keeps_row compact_keeps_row assms(2,3))
  then show ?thesis using admit_keeps_row[of E m "pending_count ?db2" "\<lambda>i. clock (i + 2)" as "(0, ?db2)"]
    by (auto simp: OxAdmit admit_batch_def Let_def split: sum.splits)
next
  case (OxConfirm now k)
  then have "\<not> (with_id k r \<and> ob_dispatch r = DSending)" using assms(5) row_of_in[OF assms(2)] by (auto simp: with_id_def)
  from update_keeps_row[of db n r "\<lambda>x. with_id k x \<and> ob_dispatch x = DSending" "confirmed_row now", OF assms(2) this]
  show ?thesis by (simp add: OxConfirm confirm_def case_prod_beta confirmed_row_def)
next
  case (OxSettle now k)
  have "\<not> (with_id k r \<and> ob_dispatch r \<noteq> DSending)" using assms(4) by simp
  from update_keeps_row[of db n r "\<lambda>x. with_id k x \<and> ob_dispatch x \<noteq> DSending" "confirmed_row now", OF assms(2) this]
  show ?thesis by (simp add: OxSettle settle_applied_def case_prod_beta confirmed_row_def)
next
  case (OxDeferConnection c until)
  show ?thesis unfolding OxDeferConnection outbox_apply.simps defer_connection_def
    by (rule update_keeps_row[OF assms(2)]) (simp_all add: assms(4))
next
  case (OxDefer k until error limited)
  then show ?thesis using assms(5) unfolding OxDefer outbox_apply.simps outbox_defer_def
    by (intro transition_keeps_row[OF assms(2)]) simp_all
next
  case (OxAttention k error c)
  then show ?thesis using assms(5) unfolding OxAttention outbox_apply.simps needs_attention_def
    by (intro transition_keeps_row[OF assms(2)]) simp_all
next
  case (OxConflict k c)
  then show ?thesis using assms(5) unfolding OxConflict outbox_apply.simps record_conflict_def
    by (intro transition_keeps_row[OF assms(2)]) simp_all
next
  case (OxRetry k)
  show ?thesis unfolding OxRetry outbox_apply.simps outbox_retry_def
    by (intro transition_keeps_row[OF assms(2)]) (simp_all add: assms(4))
next
  case (OxDiscard now k)
  show ?thesis unfolding OxDiscard outbox_apply.simps outbox_discard_def
    by (intro transition_keeps_row[OF assms(2)]) (simp_all add: assms(4))
qed (use assms claim_keeps_row prune_keeps_row compact_keeps_row in simp_all)

text \<open>A server whose gaps run any other operations on the outbox and change the remote world at will.\<close>

definition server_gaps :: "outbox_env \<Rightarrow> nat \<Rightarrow> (nat \<Rightarrow> outbox_op list) \<Rightarrow> (nat \<Rightarrow> 'w \<Rightarrow> 'w) \<Rightarrow> 'w gaps" where
  "server_gaps E m ops world i s =
     (set_outbox (outbox_run E m (ops i) (the_outbox s)) s)\<lparr>js_world := world i (js_world s)\<rparr>"

lemma flight_kept_run:
  assumes "outbox_ok db" "row_of db n = Some r" "ob_state r = OutQueued" "ob_dispatch r = DSending"
    "\<forall>op\<in>set ops. \<not> aims_at op n"
  shows "row_of (outbox_run E m ops db) n = Some r \<and> outbox_ok (outbox_run E m ops db)"
  unfolding outbox_run_def using assms(1,2,5)
proof (induction ops arbitrary: db)
  case (Cons op ops)
  show ?case using Cons.IH[OF outbox_ok_apply[OF Cons.prems(1)] flight_kept[OF Cons.prems(1,2) assms(3,4)]] Cons.prems(3)
    by simp
qed simp

lemma server_gaps_steady:
  assumes "\<forall>i. \<forall>op\<in>set (ops i). \<not> aims_at op n" shows "steady (server_gaps E m ops world) n"
  unfolding steady_def
proof (intro allI impI)
  fix i and s :: "'a jira_state" and r
  assume f: "in_flight s n r"
  then have r: "row_of (the_outbox s) n = Some r" "js_outbox s \<noteq> None" using in_flight_row by blast+
  have "row_of (outbox_run E m (ops i) (the_outbox s)) n = Some r \<and> outbox_ok (outbox_run E m (ops i) (the_outbox s))"
    using flight_kept_run[of "the_outbox s" n r "ops i" E m] f r assms by (simp add: in_flight_def)
  then show "in_flight (server_gaps E m ops world i s) n r"
    using f r(2) by (simp add: server_gaps_def in_flight_def row_at_set the_outbox_set row_at_def)
      (simp add: row_at_def[symmetric] row_at_set)
qed

subsection \<open>Retried requests\<close>

text \<open>An uncompacted row holds what some valid admission brought.\<close>

definition admitted_from :: "outbox_env \<Rightarrow> admission \<Rightarrow> outbox_row \<Rightarrow> bool" where
  "admitted_from E a r =
     (admission_validate a = Inr () \<and> ob_operation_id r = ad_operation_id a \<and> ob_connection_id r = ad_connection_id a
      \<and> ob_native_id r = ad_native_id a \<and> ob_base_token r = ad_base_token a \<and> ob_base_ticket r = ad_base_ticket a
      \<and> ob_patch r = Some (ad_patch a) \<and> ob_payload r = payload_json E a)"

definition row_faithful :: "outbox_env \<Rightarrow> outbox_row \<Rightarrow> bool" where
  "row_faithful E r = (\<not> ob_compacted r \<longrightarrow> (\<exists>a. admitted_from E a r))"

abbreviation rows_faithful :: "outbox_env \<Rightarrow> outbox \<Rightarrow> bool" where
  "rows_faithful E db \<equiv> (\<forall>r\<in>set (ox_rows db). row_faithful E r)"

lemma faithful_update:
  assumes "rows_faithful E db" "\<And>r. row_faithful E r \<Longrightarrow> row_faithful E (f r)"
  shows "rows_faithful E (snd (update_rows P f db))"
  using assms by (auto simp: update_rows_def)

lemma faithful_transition:
  assumes "rows_faithful E db" "\<And>r. row_faithful E r \<Longrightarrow> row_faithful E (f r)"
  shows "rows_faithful E (kept_on_error db (transition n P f db))"
  using assms by (auto simp: kept_on_error_def transition_def update_rows_def split: sum.splits if_splits)

lemma faithful_compact: "rows_faithful E db \<Longrightarrow> rows_faithful E (snd (compact_terminal_before E t db))"
  unfolding compact_terminal_before_def by (rule faithful_update) (simp_all add: row_faithful_def compact_row_def)

lemma faithful_prune: "rows_faithful E db \<Longrightarrow> rows_faithful E (snd (prune_terminal_rows now db))"
  by (auto simp: prune_terminal_rows_def Let_def split: option.splits)

lemma admit_one_valid:
  "admit_one E m p now a s = Inr (out, s') \<Longrightarrow> admission_validate a = Inr ()"
  by (auto simp: admit_one_def result_bind_eq_Inr split: prod.splits)

lemma faithful_admit:
  "admit_all E m p clock as s = Inr (outs, db') \<Longrightarrow> rows_faithful E (snd s) \<Longrightarrow> rows_faithful E db'"
proof (induction as arbitrary: clock s outs)
  case (Cons a as)
  obtain added db where s: "s = (added, db)" by force
  obtain out added1 db1 outs1 where o: "admit_one E m p (clock 0) a (added, db) = Inr (out, added1, db1)"
    and r: "admit_all E m p (\<lambda>i. clock (Suc i)) as (added1, db1) = Inr (outs1, db')"
    using Cons.prems(1) unfolding s by (auto simp: result_bind_eq_Inr split: prod.splits)
  have v: "admission_validate a = Inr ()" by (rule admit_one_valid[OF o])
  from o have "rows_faithful E db1"
  proof (cases rule: admit_one_cases)
    case fresh
    have "row_faithful E x" if "x \<in> set (ox_rows (insert_admission E a db))" "x \<notin> set (ox_rows db)" for x
      using that v by (auto simp: insert_admission_def Let_def row_faithful_def admitted_from_def)
    then show ?thesis using fresh Cons.prems(2) s by auto
  qed (use Cons.prems(2) s in simp)
  then show ?case using Cons.IH[OF r] by simp
qed simp

lemmas faithful_defs = row_faithful_def admitted_from_def

lemma faithful_apply:
  assumes "rows_faithful E db" shows "rows_faithful E (outbox_apply E m op db)"
proof (cases op)
  case (OxAdmit clock as)
  let ?db2 = "snd (prune_terminal_rows (clock 1) (snd (compact_terminal_before E (clock 0 - SETTLED_PAYLOAD_RETENTION) db)))"
  have "rows_faithful E ?db2" by (intro faithful_prune faithful_compact assms)
  then show ?thesis using faithful_admit[of E m "pending_count ?db2" "\<lambda>i. clock (i + 2)" as "(0, ?db2)"]
    by (auto simp: OxAdmit admit_batch_def Let_def split: sum.splits)
next
  case (OxClaim now limit)
  have "rows_faithful E (fold claim_row rows d)" if "rows_faithful E d" for rows d
    using that
  proof (induction rows arbitrary: d)
    case (Cons r rows)
    have "rows_faithful E (claim_row r d)"
      unfolding claim_row_def by (rule faithful_update[OF Cons.prems]) (simp add: faithful_defs sending_row_def)
    then show ?case using Cons.IH by simp
  qed simp
  then show ?thesis using assms by (simp add: OxClaim claim_ready_def Let_def)
next
  case (OxConfirm now n)
  show ?thesis unfolding OxConfirm outbox_apply.simps confirm_def case_prod_beta snd_conv
    by (rule faithful_update[OF assms]) (simp add: faithful_defs confirmed_row_def)
next
  case (OxSettle now n)
  show ?thesis unfolding OxSettle outbox_apply.simps settle_applied_def case_prod_beta snd_conv
    by (rule faithful_update[OF assms]) (simp add: faithful_defs confirmed_row_def)
next
  case (OxDeferConnection c until)
  show ?thesis unfolding OxDeferConnection outbox_apply.simps defer_connection_def
    by (rule faithful_update[OF assms]) (simp add: faithful_defs)
next
  case (OxReopen clock)
  have "rows_faithful E db'" if "outbox_open E clock m db = Inr db'" for db'
  proof -
    define db1 where "db1 = db\<lparr>ox_sequence := merged_sequence db, ox_retention := (case ox_retention db of
        Some r \<Rightarrow> Some r | None \<Rightarrow> Some (0, sat64 (sat64 (clock 0 + LEGACY_ADMISSION_GRACE) * 1000))),
      ox_rows := map (reopened_row (clock 1)) (ox_rows db)\<rparr>"
    have db': "db' = snd (prune_terminal_rows (clock 3) (snd (compact_terminal_before E (clock 2 - SETTLED_PAYLOAD_RETENTION) db1)))"
      using that by (simp add: outbox_open_def Let_def db1_def split: if_splits)
    have "row_faithful E (reopened_row t r)" if "row_faithful E r" for r t
      using that by (simp add: faithful_defs reopened_row_def Let_def)
    then have "rows_faithful E db1" using assms by (simp add: db1_def)
    then show ?thesis unfolding db' by (intro faithful_prune faithful_compact)
  qed
  then show ?thesis unfolding OxReopen outbox_apply.simps kept_on_error_def using assms
    by (cases "outbox_open E clock m db") simp_all
next
  case (OxDefer n until error limited)
  show ?thesis unfolding OxDefer outbox_apply.simps outbox_defer_def
    by (rule faithful_transition[OF assms]) (simp add: faithful_defs)
next
  case (OxAttention n error c)
  show ?thesis unfolding OxAttention outbox_apply.simps needs_attention_def
    by (rule faithful_transition[OF assms]) (simp add: faithful_defs)
next
  case (OxRetry n)
  show ?thesis unfolding OxRetry outbox_apply.simps outbox_retry_def
    by (rule faithful_transition[OF assms]) (simp add: faithful_defs)
next
  case (OxDiscard now n)
  show ?thesis unfolding OxDiscard outbox_apply.simps outbox_discard_def
    by (rule faithful_transition[OF assms]) (simp add: faithful_defs)
next
  case (OxConflict n c)
  show ?thesis unfolding OxConflict outbox_apply.simps record_conflict_def
    by (rule faithful_transition[OF assms]) (simp add: faithful_defs)
next
  case (OxCompact t)
  then show ?thesis using faithful_compact[OF assms] by simp
next
  case (OxPrune now)
  then show ?thesis using faithful_prune[OF assms] by simp
qed

lemma faithful_run: "rows_faithful E db \<Longrightarrow> rows_faithful E (outbox_run E m ops db)"
  unfolding outbox_run_def
proof (induction ops arbitrary: db)
  case (Cons op ops)
  show ?case using Cons.IH[OF faithful_apply[OF Cons.prems]] by simp
qed simp

lemma opened_rows: "outbox_open E clock m empty_outbox = Inr db \<Longrightarrow> ox_rows db = []"
  by (auto simp: outbox_open_def empty_outbox_def Let_def compact_terminal_before_def update_rows_def
    prune_terminal_rows_def split: if_splits option.splits)

lemma maintenance_queued:
  "queued_rows (snd (prune_terminal_rows now (snd (compact_terminal_before E t db)))) = queued_rows db"
proof -
  let ?Q = "\<lambda>r. ob_state r = OutQueued"
  have c: "filter ?Q (map (\<lambda>r. if compactable t r then compact_row E r else r) rows) = filter ?Q rows" for rows
    by (induction rows) (auto simp: compactable_def compact_row_def)
  have p: "filter ?Q (filter (\<lambda>r. \<not> prunable now fl cut r) rows) = filter ?Q rows" for rows fl cut
    by (induction rows) (auto simp: prunable_def)
  show ?thesis
    by (auto simp: queued_rows_def prune_terminal_rows_def compact_terminal_before_def update_rows_def Let_def c p
      simp del: filter_filter split: option.splits)
qed

lemma queued_row_of:
  assumes "queued_rows db' = queued_rows db" "outbox_ok db'" "row_of db n = Some r" "ob_state r = OutQueued"
  shows "row_of db' n = Some r"
proof -
  have "r \<in> set (queued_rows db)" using row_of_in[OF assms(3)] assms(4) by (simp add: queued_rows_def)
  then have "r \<in> set (ox_rows db')" using assms(1) by (metis filter_is_subset queued_rows_def subsetD)
  then show ?thesis using row_of_Some[OF assms(2)] row_of_in[OF assms(3)] by simp
qed

text \<open>What reading a stored ticket back gives: the ticket whose JSON it is.\<close>

definition reads_back_as :: "'w jira_env \<Rightarrow> json \<Rightarrow> ticket_view \<Rightarrow> bool" where
  "reads_back_as E v base =
     (je_from_value E v = Inr base \<and> tv_value base = v \<and> json_get ''connection_id'' v = Some (JString (tv_connection_id base))
      \<and> json_get ''native_id'' v = Some (JString (tv_native_id base))
      \<and> json_get ''concurrency_token'' v = Some (token_value (tv_concurrency_token base)))"

text \<open>An edit sent again that is still queued: same id, ticket and change.\<close>

definition sent_again :: "'w jira_env \<Rightarrow> outbox \<Rightarrow> string \<Rightarrow> queued_edit \<Rightarrow> bool" where
  "sent_again E db connection edit =
     (validate_edit edit = Inr () \<and> (\<exists>r base. row_of db (qe_operation_id edit) = Some r \<and> ob_state r = OutQueued
        \<and> ob_connection_id r = connection \<and> ob_native_id r = qe_native_id edit \<and> reads_back_as E (ob_base_ticket r) base
        \<and> ob_patch r = Some (ad_patch (admission_new (qe_operation_id edit) base (qe_patch edit)))))"

lemma token_value_inj: "token_value a = token_value b \<Longrightarrow> a = b"
  by (cases a; cases b) (simp_all add: token_value_def)

lemma as_str_Some [simp]: "as_str v = Some x \<longleftrightarrow> v = JString x"
  by (cases v) (auto simp: as_str_def)

lemma again_admission:
  assumes "admitted_from Eo a r" "reads_back_as E (ob_base_ticket r) base"
    "ob_patch r = Some (ad_patch (admission_new (ob_operation_id r) base patch))"
  shows "admission_new (ob_operation_id r) base patch = a" "tv_connection_id base = ob_connection_id r"
    "tv_native_id base = ob_native_id r"
proof -
  have v: "json_get ''connection_id'' (ob_base_ticket r) = Some (JString (ad_connection_id a))"
    "json_get ''native_id'' (ob_base_ticket r) = Some (JString (ad_native_id a))"
    "json_get ''concurrency_token'' (ob_base_ticket r) = Some (token_value (ad_base_token a))"
    using assms(1)
    by (auto simp: admitted_from_def admission_validate_def bind_eq_Some_conv split: if_splits)
  then show c: "tv_connection_id base = ob_connection_id r" "tv_native_id base = ob_native_id r"
    using assms(1,2) by (auto simp: reads_back_as_def admitted_from_def)
  have t: "tv_concurrency_token base = ad_base_token a"
    using v(3) assms(2) by (auto simp: reads_back_as_def intro: token_value_inj)
  have "tv_value base = ad_base_ticket a" using assms(1,2) by (simp add: reads_back_as_def admitted_from_def)
  then show "admission_new (ob_operation_id r) base patch = a"
    using assms(1,3) c t by (cases a) (simp add: admission_new_def admitted_from_def)
qed

lemma known_admission:
  assumes "outbox_ok db" "row_of db n = Some r" "ob_state r = OutQueued" "admitted_from E a r"
  shows "admit_one E m p now a (added, db) = Inr (operation_of r, added, db)"
proof -
  have r: "r \<in> set (ox_rows db)" "ob_operation_id r = n" "\<not> ob_compacted r"
    using row_of_in[OF assms(2)] assms(1,3) by (auto simp: outbox_ok_def row_ok_def)
  have "ad_operation_id a = n" "ob_payload r = payload_json E a" "admission_validate a = Inr ()"
    using assms(4) r by (auto simp: admitted_from_def)
  then show ?thesis using assms(2) r by (simp add: admit_one_def admit_existing_def get_in_def result_bind_def)
qed

lemma known_admissions:
  assumes "outbox_ok db" "list_all2 (\<lambda>a r. row_of db (ob_operation_id r) = Some r \<and> ob_state r = OutQueued \<and> admitted_from E a r) as rs"
  shows "admit_all E m p clock as (added, db) = Inr (map operation_of rs, db)"
  using assms(2)
proof (induction arbitrary: clock rule: list_all2_induct)
  case (Cons a as r rs)
  then show ?case using known_admission[OF assms(1), of "ob_operation_id r" r E a m p "clock 0" added] by (simp add: result_bind_def)
qed simp

lemma again_admissions:
  assumes "js_outbox s = Some (db, m)" "outbox_ok db" "rows_faithful (je_outbox E) db" "\<forall>e\<in>set edits. sent_again E db connection e"
  shows "\<exists>as rs. queue_admissions E (\<lambda>_ s. s) provider connection edits s = (Inr as, s) \<and> map ob_operation_id rs = map qe_operation_id edits
    \<and> list_all2 (\<lambda>a r. row_of db (ob_operation_id r) = Some r \<and> ob_state r = OutQueued \<and> admitted_from (je_outbox E) a r) as rs"
  using assms(4)
proof (induction edits)
  case (Cons e edits)
  obtain as rs where IH: "queue_admissions E (\<lambda>_ s. s) provider connection edits s = (Inr as, s)"
      "map ob_operation_id rs = map qe_operation_id edits"
      "list_all2 (\<lambda>a r. row_of db (ob_operation_id r) = Some r \<and> ob_state r = OutQueued \<and> admitted_from (je_outbox E) a r) as rs"
    using Cons by auto
  obtain r base where r: "validate_edit e = Inr ()" "row_of db (qe_operation_id e) = Some r" "ob_state r = OutQueued"
      "ob_connection_id r = connection" "ob_native_id r = qe_native_id e" "reads_back_as E (ob_base_ticket r) base"
      "ob_patch r = Some (ad_patch (admission_new (qe_operation_id e) base (qe_patch e)))"
    using Cons.prems by (auto simp: sent_again_def)
  note i = row_of_in[OF r(2)]
  then have c: "\<not> ob_compacted r" using assms(2) r(3) by (auto simp: outbox_ok_def row_ok_def)
  then obtain a where a: "admitted_from (je_outbox E) a r" using assms(3) i by (auto simp: row_faithful_def)
  note n = again_admission[OF a r(6), of "qe_patch e", unfolded i[THEN conjunct2], OF r(7)]
  have g: "get_in db (qe_operation_id e) = Some (operation_of r)" using r(2) c by (simp add: get_in_def)
  have "queue_base E provider connection e (\<lambda>s. s) s = (Inr base, s)"
    using g r(4,5,6) assms(1) by (simp add: queue_base_def the_outbox_def operation_of_def reads_back_as_def)
  then have "queue_admissions E (\<lambda>_ s. s) provider connection (e # edits) s = (Inr (a # as), s)"
    using r(1,4,5) n IH(1) by simp
  then show ?case using IH(2,3) a r(2,3) i by (intro exI[of _ "a # as"] exI[of _ "r # rs"]) simp
qed simp

subsection \<open>Properties\<close>

text \<open>C18. A claimed edit is always settled by its job, whatever other operations the server runs on the outbox
  and whatever happens to the remote tickets meanwhile: the job ends without an error, and the row, its edit and its place kept,
  is confirmed, put before a person, rate limited, or queued again.  It is confirmed only when a ticket the
  provider reported carries every edited field, and it is queued again only after an attempt that is not the
  eighth of its window, with a delay between 2 and 66 seconds.\<close>

theorem dispatch_settles:
  assumes "\<forall>i. \<forall>op\<in>set (ops i). \<not> aims_at op n" "in_flight s n r" "1 \<le> ob_attempts r" "0 \<le> epoch" "epoch < 2 ^ 62"
    "dispatch_one E (server_gaps (je_outbox E) m ops world) now epoch (operation_of r) s = (res, s')"
  shows "res = Inr () \<and> (\<exists>r'. row_at s' n = Some r' \<and> ob_payload r' = ob_payload r \<and> ob_patch r' = ob_patch r
      \<and> slot r' = slot r
      \<and> (ob_state r' = OutConfirmed \<and> edit_applied E (operation_of r)
         \<or> ob_state r' = OutQueued \<and> ob_dispatch r' \<in> {DNeedsAttention, DRateLimited}
         \<or> ob_state r' = OutQueued \<and> ob_dispatch r' = DQueued \<and> ob_attempts r mod 8 \<noteq> 0
           \<and> epoch + 2 \<le> ob_next_attempt_at r' \<and> ob_next_attempt_at r' \<le> epoch + 66))"
proof -
  have q: "ob_state r = OutQueued" using assms(2) by (simp add: in_flight_def)
  obtain r' where r': "res = Inr ()" "row_at s' n = Some r'"
      "attempt_done E now (operation_of r) r (Inr ()) r' \<or> postponed (operation_of r) epoch r r'"
    using dispatch_one_row[OF server_gaps_steady[OF assms(1)] assms(2,6)] by blast
  have b: "2 \<le> backoff_delay (operation_of r)" "backoff_delay (operation_of r) \<le> 66"
    using backoff_bounds[of "operation_of r"] assms(3) by (simp_all add: operation_of_def)
  then have sat: "sat64 (epoch + backoff_delay (operation_of r)) = epoch + backoff_delay (operation_of r)"
    using assms(4,5) by (simp add: sat64_def)
  from r'(3) show ?thesis
  proof
    assume d: "attempt_done E now (operation_of r) r (Inr ()) r'"
    then obtain c where c: "r' = (if ob_state r' = OutConfirmed then (confirmed_row now r)\<lparr>ob_conflict := c\<rparr>
        else r\<lparr>ob_dispatch := DNeedsAttention, ob_last_error := ob_last_error r', ob_conflict := c\<rparr>)"
      and a: "ob_state r' = OutConfirmed \<longrightarrow> edit_applied E (operation_of r)" by (auto simp: attempt_done_def)
    show ?thesis
    proof (cases "ob_state r' = OutConfirmed")
      case True
      then have "r' = (confirmed_row now r)\<lparr>ob_conflict := c\<rparr>" using c by simp
      then show ?thesis using r'(1,2) True a by (intro conjI exI[of _ r']) (simp_all add: confirmed_row_def slot_def)
    next
      case False
      then obtain t where "r' = r\<lparr>ob_dispatch := DNeedsAttention, ob_last_error := t, ob_conflict := c\<rparr>" using c by auto
      then have "ob_payload r' = ob_payload r" "ob_patch r' = ob_patch r" "slot r' = slot r" "ob_state r' = OutQueued"
          "ob_dispatch r' = DNeedsAttention"
        using q by (simp_all add: slot_def)
      then show ?thesis using r'(1,2) by blast
    qed
  next
    assume "postponed (operation_of r) epoch r r'"
    then obtain c t u where c: "r' = r\<lparr>ob_dispatch := ob_dispatch r', ob_next_attempt_at := u, ob_last_error := Some t, ob_conflict := c\<rparr>"
      and k: "ob_dispatch r' = DNeedsAttention \<or> ob_dispatch r' = DRateLimited
        \<or> ob_dispatch r' = DQueued \<and> ob_attempts r mod 8 \<noteq> 0 \<and> u = sat64 (epoch + backoff_delay (operation_of r))"
      by (auto simp: postponed_def operation_of_def)
    then obtain d where "r' = r\<lparr>ob_dispatch := d, ob_next_attempt_at := u, ob_last_error := Some t, ob_conflict := c\<rparr>" by blast
    then have "ob_payload r' = ob_payload r" "ob_patch r' = ob_patch r" "slot r' = slot r" "ob_state r' = OutQueued" "ob_next_attempt_at r' = u"
      using q by (simp_all add: slot_def)
    then show ?thesis using k r'(1,2) b sat by (intro conjI exI[of _ r']) auto
  qed
qed



text \<open>C19. A request that sends queued edits again, for instance after a lost response, is accepted and changes
  nothing: it is rebuilt on the ticket version of the first request, whatever the remote ticket is by now, the
  batch is admitted, the queued rows stay as they are, and the admitted operations are the first ones.\<close>

theorem queued_retry_idempotent:
  assumes "outbox_open (je_outbox E) clock0 m empty_outbox = Inr db0" "db = outbox_run (je_outbox E) m ops db0"
    "js_outbox s = Some (db, m)" "\<forall>e\<in>set edits. sent_again E db connection e"
  shows "\<exists>as outs db'. queue_admissions E (\<lambda>_ s. s) provider connection edits s = (Inr as, s)
    \<and> admit_batch (je_outbox E) clock m as db = (Inr outs, db') \<and> queued_rows db' = queued_rows db
    \<and> map oo_operation_id outs = map qe_operation_id edits"
proof -
  let ?Eo = "je_outbox E"
  have ok: "outbox_ok db" using outbox_bounded_run[OF bounded_opened[OF assms(1)]] assms(2) by (simp add: bounded_ok_def)
  have f: "rows_faithful ?Eo db" unfolding assms(2) by (rule faithful_run) (simp add: opened_rows[OF assms(1)])
  obtain as rs where a: "queue_admissions E (\<lambda>_ s. s) provider connection edits s = (Inr as, s)"
      "map ob_operation_id rs = map qe_operation_id edits"
      "list_all2 (\<lambda>a r. row_of db (ob_operation_id r) = Some r \<and> ob_state r = OutQueued \<and> admitted_from ?Eo a r) as rs"
    using again_admissions[OF assms(3) ok f assms(4)] by blast
  let ?db = "snd (prune_terminal_rows (clock 1) (snd (compact_terminal_before ?Eo (clock 0 - SETTLED_PAYLOAD_RETENTION) db)))"
  have ok': "outbox_ok ?db" by (intro ok_prune ok_compact ok)
  have q: "queued_rows ?db = queued_rows db" by (rule maintenance_queued)
  have "list_all2 (\<lambda>a r. row_of ?db (ob_operation_id r) = Some r \<and> ob_state r = OutQueued \<and> admitted_from ?Eo a r) as rs"
    by (rule list_all2_mono[OF a(3)]) (use queued_row_of[OF q ok'] in blast)
  from known_admissions[OF ok' this]
  have "admit_batch ?Eo clock m as db = (Inr (map operation_of rs), ?db)" by (simp add: admit_batch_def Let_def)
  then show ?thesis using a(1,2) q by (intro exI[of _ as] exI[of _ "map operation_of rs"] exI[of _ ?db]) (simp add: operation_of_def comp_def)
qed

subsection \<open>Witnesses\<close>

definition demo_issue_view :: "json_map \<Rightarrow> ticket_view" where
  "demo_issue_view w = \<lparr>tv_connection_id = ''j'', tv_native_id = ''7'', tv_concurrency_token = None, tv_value = JObject w\<rparr>"

text \<open>A tracker that stores one ticket; with \<open>lost\<close> the answer to a write does not arrive.\<close>

definition demo_tracker :: "bool \<Rightarrow> json_map ticket_provider" where
  "demo_tracker lost =
     \<lparr>tp_write_behind = True, tp_get = (\<lambda>_ w. (Inr (demo_issue_view w), w)),
      tp_update = (\<lambda>_ patch w. let w' = desired_fields patch @ w in
        (if lost then Inl (PeEndpoint ''timeout'') else Inr (demo_issue_view w'), w'))\<rparr>"

definition demo_jira_env :: "bool \<Rightarrow> json_map jira_env" where
  "demo_jira_env lost =
     \<lparr>je_provider_for = (\<lambda>_ _. Inr (demo_tracker lost)), je_outbox = demo_outbox_env,
      je_from_value = (\<lambda>v. case v of JObject m \<Rightarrow> Inr (demo_issue_view m) | _ \<Rightarrow> Inl ''not an object'')\<rparr>"

definition demo_server :: "outbox_op list \<Rightarrow> json_map jira_state" where
  "demo_server ops = \<lparr>js_outbox = Some (outbox_run demo_outbox_env 2 ops demo_opened, 2), js_world = demo_jira, js_events = []\<rparr>"

definition demo_row :: outbox_row where
  "demo_row = the (row_of (outbox_run demo_outbox_env 2 demo_admitted demo_opened) demo_id)"

lemma demo_env_outbox: "je_outbox (demo_jira_env lost) = demo_outbox_env"
  by (simp add: demo_jira_env_def)

lemma demo_in_flight: "in_flight (demo_server demo_admitted) demo_id demo_row"
proof -
  have "outbox_ok (outbox_run demo_outbox_env 2 demo_admitted demo_opened)"
    using outbox_bounded_run[OF bounded_opened[OF demo_opens]] by (simp add: bounded_ok_def)
  moreover have "row_of (outbox_run demo_outbox_env 2 demo_admitted demo_opened) demo_id = Some demo_row"
    "ob_state demo_row = OutQueued" "ob_dispatch demo_row = DSending" by code_simp+
  ultimately show ?thesis by (simp add: in_flight_def row_at_def demo_server_def the_outbox_def)
qed

theorem dispatch_settles_witness:
  "\<exists>s' r'. dispatch_one (demo_jira_env True) (server_gaps demo_outbox_env 2 (\<lambda>_. [OxClaim 0 5, OxPrune 9]) (\<lambda>_ w. w)) 1 0
      (operation_of demo_row) (demo_server demo_admitted) = (Inr (), s')
    \<and> row_at s' demo_id = Some r' \<and> ob_dispatch r' \<noteq> DSending \<and> ob_payload r' = ob_payload demo_row"
proof -
  let ?d = "dispatch_one (demo_jira_env True) (server_gaps (je_outbox (demo_jira_env True)) 2 (\<lambda>_. [OxClaim 0 5, OxPrune 9]) (\<lambda>_ w. w)) 1 0
      (operation_of demo_row) (demo_server demo_admitted)"
  obtain res s' where d: "?d = (res, s')" by force
  have a: "1 \<le> ob_attempts demo_row" by code_simp
  have ok: "outbox_ok (outbox_run demo_outbox_env 2 demo_admitted demo_opened)"
    using outbox_bounded_run[OF bounded_opened[OF demo_opens]] by (simp add: bounded_ok_def)
  have "\<forall>i. \<forall>op\<in>set ((\<lambda>_ :: nat. [OxClaim 0 5, OxPrune 9]) i). \<not> aims_at op demo_id" by simp
  from dispatch_settles[OF this demo_in_flight a _ _ d] obtain r' where r: "res = Inr ()" "row_at s' demo_id = Some r'"
      "ob_payload r' = ob_payload demo_row"
      "ob_state r' = OutConfirmed \<or> ob_dispatch r' \<noteq> DSending" by auto
  have "?d = (Inr (), s')" using d r(1) by simp
  moreover have "case row_at (snd ?d) demo_id of None \<Rightarrow> False | Some r \<Rightarrow> ob_dispatch r \<noteq> DSending" by code_simp
  ultimately show ?thesis using r(2,3) unfolding demo_env_outbox by auto
qed

lemma demo_tracker_answers: "tracker_answers (demo_jira_env False) c n demo_issue_view"
proof -
  have "carries (desired_fields patch) (JObject (desired_fields patch @ w))" for patch w
  proof -
    have "distinct (map fst (desired_fields patch))"
      using desired_fields_sorted(1)[of patch] by (simp add: strict_sorted_iff strict_sorted_equal_Uniq)
    then show ?thesis
      by (auto simp: carries_def json_get_def list_all_iff map_add_def split: option.splits)
  qed
  then show ?thesis unfolding tracker_answers_def
    by (intro exI[of _ "demo_tracker False"]) (simp add: demo_jira_env_def demo_tracker_def demo_issue_view_def Let_def)
qed


definition demo_resent :: queued_edit where
  "demo_resent = \<lparr>qe_operation_id = demo_id, qe_native_id = ''7'', qe_patch = demo_edit ''b''\<rparr>"

theorem queued_retry_idempotent_witness:
  "\<exists>as outs db'. queue_admissions (demo_jira_env False) (\<lambda>_ s. s) (demo_tracker False) ''j'' [demo_resent] (demo_server demo_admitted)
      = (Inr as, demo_server demo_admitted)
    \<and> admit_batch demo_outbox_env (\<lambda>_. 3) 2 as (outbox_run demo_outbox_env 2 demo_admitted demo_opened) = (Inr outs, db')
    \<and> map oo_operation_id outs = [demo_id]"
proof -
  let ?db = "outbox_run demo_outbox_env 2 demo_admitted demo_opened"
  have v: "validate_edit demo_resent = Inr ()" "qe_operation_id demo_resent = demo_id"
    and r: "row_of ?db demo_id = Some demo_row" "ob_state demo_row = OutQueued" "ob_connection_id demo_row = ''j''"
      "ob_native_id demo_row = qe_native_id demo_resent"
    and p: "ob_patch demo_row = Some (ad_patch (admission_new demo_id (demo_issue_view demo_jira) (qe_patch demo_resent)))"
    and b: "je_from_value (demo_jira_env False) (ob_base_ticket demo_row) = Inr (demo_issue_view demo_jira)"
      "tv_value (demo_issue_view demo_jira) = ob_base_ticket demo_row"
      "json_get ''connection_id'' (ob_base_ticket demo_row) = Some (JString (tv_connection_id (demo_issue_view demo_jira)))"
      "json_get ''native_id'' (ob_base_ticket demo_row) = Some (JString (tv_native_id (demo_issue_view demo_jira)))"
      "json_get ''concurrency_token'' (ob_base_ticket demo_row) = Some (token_value (tv_concurrency_token (demo_issue_view demo_jira)))"
    by code_simp+
  have "reads_back_as (demo_jira_env False) (ob_base_ticket demo_row) (demo_issue_view demo_jira)"
    using b by (simp add: reads_back_as_def)
  then have e: "\<forall>e\<in>set [demo_resent]. sent_again (demo_jira_env False) ?db ''j'' e"
    unfolding sent_again_def using v r p by auto
  have s: "js_outbox (demo_server demo_admitted) = Some (?db, 2)" by (simp add: demo_server_def)
  from queued_retry_idempotent[OF demo_opens[folded demo_env_outbox[of False]] refl s[folded demo_env_outbox[of False]] e[folded demo_env_outbox[of False]],
    of "demo_tracker False" "\<lambda>_. 3"]
  show ?thesis unfolding demo_env_outbox using v(2) by auto
qed


text \<open>A connection that is refused before its provider is built, a disabled one for instance, is treated as a
  conflict: the edit is retried, although the dispatcher stops at once at a provider that reports itself disabled.\<close>

lemma refused_connection_retried:
  assumes "in_flight s n r" "je_provider_for E (ob_connection_id r) (js_world s) = Inl (provider_transfer_error (PeDisabled c))"
    "ob_attempts r mod 8 \<noteq> 0" "dispatch_one E (\<lambda>_ s. s) now epoch (operation_of r) s = (res, s')"
  shows "\<exists>r'. row_at s' n = Some r' \<and> ob_state r' = OutQueued \<and> ob_dispatch r' = DQueued"
proof -
  let ?x = "operation_of r"
  have r: "row_of (the_outbox s) n = Some r" "ob_state r = OutQueued" "ob_dispatch r = DSending" "js_outbox s \<noteq> None"
    using in_flight_row[OF assms(1)] assms(1) by (auto simp: in_flight_def)
  have id: "oo_operation_id ?x = n" using row_of_in[OF r(1)] by (simp add: operation_of_def)
  let ?m = "aer_message (provider_transfer_error (PeDisabled c))"
  let ?t = "provider_error_text (PeConflict (oo_native_id ?x) ?m)"
  have a: "dispatch_attempt E (\<lambda>_ s. s) now ?x s = (Inl (PeConflict (oo_native_id ?x) ?m), s)"
    using assms(2) by (simp add: dispatch_attempt_def connection_provider_def operation_of_def Let_def)
  obtain db' where "outbox_defer n (sat64 (epoch + backoff_delay ?x)) ?t False (the_outbox s) = Inr db'"
      "row_of db' n = Some (r\<lparr>ob_dispatch := (if False then DRateLimited else DQueued),
         ob_next_attempt_at := sat64 (epoch + backoff_delay ?x), ob_last_error := Some ?t\<rparr>)"
    by (rule defer_row[OF r(1-3)])
  then show ?thesis using assms(3,4) a id r
    by (auto simp: dispatch_one_def failed_attempt_def Let_def row_at_set operation_of_def)
qed

end
