(* ===== verification/Demo_Platform.thy ===== *)
theory Demo_Platform
  imports Ticket_Model
begin

text \<open>
  A concrete \<open>platform\<close> on which the hypotheses of the development hold, for evaluating the
  definitions: ULIDs as 26 base-32 digits, instants written as a decimal number of
  nanoseconds, ASCII case mapping, and a YAML codec for one sample ticket.
\<close>

subsection \<open>Base-32 digits\<close>

fun digits :: "nat \<Rightarrow> nat \<Rightarrow> nat list" where
  "digits 0 x = []"
| "digits (Suc n) x = x div 32 ^ n # digits n (x mod 32 ^ n)"

lemma digits_less: "x < 32 ^ n \<Longrightarrow> d \<in> set (digits n x) \<Longrightarrow> d < 32"
proof (induction n arbitrary: x)
  case (Suc n)
  have "x div 32 ^ n < 32" using Suc.prems by (simp add: less_mult_imp_div_less mult.commute)
  moreover have "x mod 32 ^ n < (32 :: nat) ^ n" by simp
  ultimately show ?case using Suc.IH[of "x mod 32 ^ n"] Suc.prems by auto
qed simp

lemma length_digits [simp]: "length (digits n x) = n"
  by (induction n arbitrary: x) simp_all

lemma digits_order:
  "x < 32 ^ n \<Longrightarrow> y < 32 ^ n \<Longrightarrow> digits n x < digits n y \<longleftrightarrow> x < y"
proof (induction n arbitrary: x y)
  case (Suc n)
  let ?b = "32 ^ n :: nat"
  have x: "x = ?b * (x div ?b) + x mod ?b" and y: "y = ?b * (y div ?b) + y mod ?b" by simp_all
  have m: "x mod ?b < ?b" "y mod ?b < ?b" by simp_all
  consider "x div ?b < y div ?b" | "x div ?b = y div ?b" | "y div ?b < x div ?b" by linarith
  then show ?case
  proof cases
    case 1
    then have "x < y" by (metis div_le_mono leD linorder_not_less)
    with 1 show ?thesis by simp
  next
    case 2
    then have "x < y \<longleftrightarrow> x mod ?b < y mod ?b" using x y by (metis add_less_cancel_left)
    with 2 Suc.IH[OF m] show ?thesis by simp
  next
    case 3
    then have "\<not> x < y" by (metis div_le_mono leD less_imp_le)
    with 3 show ?thesis by simp
  qed
qed simp

fun undigits :: "nat \<Rightarrow> nat list \<Rightarrow> nat" where
  "undigits acc [] = acc"
| "undigits acc (d # ds) = undigits (32 * acc + d) ds"

lemma undigits_digits: "x < 32 ^ n \<Longrightarrow> undigits acc (digits n x) = acc * 32 ^ n + x"
proof (induction n arbitrary: x acc)
  case (Suc n)
  have "undigits acc (digits (Suc n) x) = (32 * acc + x div 32 ^ n) * 32 ^ n + x mod 32 ^ n"
    using Suc.IH[of "x mod 32 ^ n"] by simp
  also have "\<dots> = acc * 32 ^ Suc n + x" by (simp add: algebra_simps)
  finally show ?case .
qed simp

lemma sorted_crockford: "sorted_wrt (<) crockford"
  by (simp add: crockford_def less_char_def)

lemma crockford_less: "a < 32 \<Longrightarrow> b < 32 \<Longrightarrow> crockford ! a < crockford ! b \<longleftrightarrow> a < b"
  using sorted_wrt_nth_less[OF sorted_crockford] length_crockford
  by (metis linorder_neqE_nat order_less_asym order_less_irrefl)

lemma map_crockford_less:
  "length xs = length ys \<Longrightarrow> list_all (\<lambda>d. d < 32) xs \<Longrightarrow> list_all (\<lambda>d. d < 32) ys \<Longrightarrow>
     map ((!) crockford) xs < map ((!) crockford) ys \<longleftrightarrow> xs < ys"
proof (induction xs ys rule: list_induct2)
  case (Cons x xs y ys)
  then have lt: "crockford ! x < crockford ! y \<longleftrightarrow> x < y" "crockford ! y < crockford ! x \<longleftrightarrow> y < x"
    by (simp_all add: crockford_less)
  then have "crockford ! x = crockford ! y \<longleftrightarrow> x = y"
    by (metis linorder_neqE_nat order_less_irrefl)
  with lt Cons show ?case by simp
qed simp

definition demo_ulid_text :: "ulid \<Rightarrow> string" where
  "demo_ulid_text i = map ((!) crockford) (digits 26 (unat i))"

lemma unat_less_26: "unat (i :: ulid) < 32 ^ 26"
proof -
  have "unat i < 2 ^ 128" using unsigned_less[of i] by simp
  also have "(2 :: nat) ^ 128 < 32 ^ 26" by simp
  finally show ?thesis .
qed

lemma demo_ulid_less: "demo_ulid_text i < demo_ulid_text j \<longleftrightarrow> i < j"
proof -
  have "list_all (\<lambda>d. d < 32) (digits 26 (unat k))" for k :: ulid
    using digits_less[OF unat_less_26[of k]] by (auto simp: list_all_iff)
  then show ?thesis
    by (simp only: demo_ulid_text_def map_crockford_less length_digits
        digits_order[OF unat_less_26 unat_less_26] word_less_nat_alt)
qed

definition crockford_value :: "char \<Rightarrow> nat option" where
  "crockford_value c = List.find (\<lambda>k. crockford ! k = c) [0..<32]"

definition demo_ulid_parse :: "string \<Rightarrow> ulid option" where
  "demo_ulid_parse s =
     (let vs = map crockford_value s in
      if length s = 26 \<and> None \<notin> set vs then Some (of_nat (undigits 0 (map the vs))) else None)"

lemma crockford_value_nth: "k < 32 \<Longrightarrow> crockford_value (crockford ! k) = Some k"
proof -
  assume k: "k < 32"
  have "crockford ! j = crockford ! k \<longleftrightarrow> j = k" if "j < 32" for j
    using crockford_less[of j k] crockford_less[of k j] k that by auto
  then show ?thesis using k
    by (auto simp: crockford_value_def find_Some_iff intro!: exI[of _ k])
qed

lemma demo_ulid_roundtrip: "demo_ulid_parse (demo_ulid_text i) = Some i"
proof -
  have d: "crockford_value (crockford ! d) = Some d" if "d \<in> set (digits 26 (unat i))" for d
    using digits_less[OF unat_less_26 that] by (rule crockford_value_nth)
  then have "map crockford_value (demo_ulid_text i) = map Some (digits 26 (unat i))"
    by (auto simp: demo_ulid_text_def)
  moreover have "length (demo_ulid_text i) = 26" by (simp add: demo_ulid_text_def)
  moreover have "None \<notin> set (map Some (digits 26 (unat i)))" by auto
  moreover have "undigits 0 (map the (map Some (digits 26 (unat i)))) = unat i"
    using undigits_digits[OF unat_less_26[of i], of 0] by (simp add: comp_def del: digits.simps)
  ultimately show ?thesis by (simp add: demo_ulid_parse_def del: list.map_comp)
qed

subsection \<open>A text form of ratings\<close>

text \<open>A rating letter, the target with two letters per byte, and the explanation if there is one.\<close>

definition demo_byte :: "char \<Rightarrow> string" where
  "demo_byte c = [char_of (65 + of_char c div 16 :: nat), char_of (65 + of_char c mod 16 :: nat)]"

fun demo_unbytes :: "string \<Rightarrow> string" where
  "demo_unbytes (a # b # s) = char_of (16 * (of_char a - 65) + (of_char b - 65) :: nat) # demo_unbytes s"
| "demo_unbytes _ = []"

definition demo_letter :: "char \<Rightarrow> bool" where
  "demo_letter c = (let n = of_char c :: nat in 65 \<le> n \<and> n \<le> 80)"

definition demo_ratings :: "(ai_rating option \<times> char) list" where
  "demo_ratings = [(None, CHR ''w''), (Some Helpful, CHR ''h''), (Some NotHelpful, CHR ''n'')]"

definition demo_print_feedback :: "ai_feedback \<Rightarrow> string" where
  "demo_print_feedback f =
     the (map_of demo_ratings (af_rating f)) # concat (map demo_byte (af_target f))
       @ (case af_explanation f of None \<Rightarrow> [] | Some e \<Rightarrow> '':'' @ concat (map demo_byte e))"

definition demo_parse_feedback :: "string \<Rightarrow> ai_feedback option" where
  "demo_parse_feedback s =
     (case s of [] \<Rightarrow> None
      | c # r \<Rightarrow>
          Option.bind (map_of (map (\<lambda>(a, b). (b, a)) demo_ratings) c) (\<lambda>rating.
          Some \<lparr>af_target = demo_unbytes (takeWhile demo_letter r), af_rating = rating,
            af_explanation = (case dropWhile demo_letter r of [] \<Rightarrow> None
                              | _ # e \<Rightarrow> Some (demo_unbytes e))\<rparr>))"

lemma demo_unbytes_bytes: "demo_unbytes (concat (map demo_byte s)) = s"
proof (induction s)
  case (Cons c s)
  have "of_char c div 16 < (16 :: nat)" using nat_of_char_less_256[of c]
    by (simp add: less_mult_imp_div_less)
  with Cons show ?case by (simp add: demo_byte_def)
qed simp

lemma demo_letters: "list_all demo_letter (concat (map demo_byte s))"
proof (induction s)
  case (Cons c s)
  have "of_char c div 16 < (16 :: nat)" using nat_of_char_less_256[of c]
    by (simp add: less_mult_imp_div_less)
  with Cons show ?case by (simp add: demo_byte_def demo_letter_def Let_def)
qed simp

lemma takeWhile_letters:
  assumes "list_all demo_letter xs" "ys = [] \<or> \<not> demo_letter (hd ys)"
  shows "takeWhile demo_letter (xs @ ys) = xs" "dropWhile demo_letter (xs @ ys) = ys"
  using assms by (induction xs) (cases ys; simp)+

lemma demo_feedback_roundtrip: "demo_parse_feedback (demo_print_feedback f) = Some f"
proof -
  let ?t = "concat (map demo_byte (af_target f))"
  let ?e = "case af_explanation f of None \<Rightarrow> [] | Some e \<Rightarrow> '':'' @ concat (map demo_byte e)"
  have "?e = [] \<or> \<not> demo_letter (hd ?e)"
    by (simp add: demo_letter_def split: option.split)
  note parts = takeWhile_letters[OF demo_letters[of "af_target f"] this]
  have rating: "map_of (map (\<lambda>(a, b). (b, a)) demo_ratings) (the (map_of demo_ratings r)) = Some r" for r
    by (cases r rule: option.exhaust; cases "the r") (simp_all add: demo_ratings_def)
  have "demo_parse_feedback (demo_print_feedback f) =
      Some \<lparr>af_target = demo_unbytes (takeWhile demo_letter (?t @ ?e)), af_rating = af_rating f,
        af_explanation = (case dropWhile demo_letter (?t @ ?e) of [] \<Rightarrow> None
                          | _ # e \<Rightarrow> Some (demo_unbytes e))\<rparr>"
    by (simp only: demo_print_feedback_def demo_parse_feedback_def list.case rating Option.bind.simps)
  then show ?thesis unfolding parts
    by (cases "af_explanation f") (simp_all add: demo_unbytes_bytes)
qed

subsection \<open>The platform\<close>

definition demo_hash_item :: "hash_item \<Rightarrow> 64 word \<Rightarrow> 64 word" where
  "demo_hash_item item h =
     31 * h + (case item of HUlid _ \<Rightarrow> 1 | HUsize n \<Rightarrow> of_nat n | HByte n \<Rightarrow> of_nat n | HStr _ \<Rightarrow> 2)"

definition demo_instant :: "string \<Rightarrow> offset_date_time option" where
  "demo_instant s = map_option (\<lambda>n. \<lparr>unix_nanos = int n, utc_offset = 0\<rparr>) (parse_digits s)"

definition demo_add :: "offset_date_time \<Rightarrow> int \<Rightarrow> offset_date_time option" where
  "demo_add dt d =
     (if unix_nanos dt + d < 10 ^ 24 then Some (dt\<lparr>unix_nanos := unix_nanos dt + d\<rparr>) else None)"

definition sample_ticket :: ticket where
  "sample_ticket =
     ticket_new 1 ''HS-000001'' ''Sample'' ''task'' \<lparr>ts_raw = ''100'', ts_parsed = demo_instant ''100''\<rparr>
       \<lparr>ts_raw = ''100'', ts_parsed = demo_instant ''100''\<rparr>"

definition demo :: platform where
  "demo = \<lparr>pf_hash = (\<lambda>items. fold demo_hash_item items 7),
     pf_ulid_from_parts = (\<lambda>ms r. or (push_bit 80 (ucast ms)) (and r (mask 80))),
     pf_ulid_bytes = (\<lambda>i. map (\<lambda>k. ucast (drop_bit (8 * (15 - k)) i)) [0..<16]),
     pf_ulid_from_string = demo_ulid_parse, pf_ulid_to_string = demo_ulid_text,
     pf_ulid_timestamp_ms = (\<lambda>i. unat (drop_bit 80 i)),
     pf_rfc3339_parse = demo_instant, pf_rfc3339_format = (\<lambda>dt. Some (show_nat (nat (unix_nanos dt)))),
     pf_datetime_add = demo_add, pf_to_lowercase = to_ascii_lower,
     pf_to_uppercase = to_ascii_upper, pf_starts_alphanumeric = (\<lambda>_. False),
     pf_json_feedback_print = demo_print_feedback, pf_json_feedback_parse = demo_parse_feedback,
     pf_yaml_to_value = (\<lambda>t. [(YString ''schema'', YNumber (show_nat (t_schema t)))]),
     pf_yaml_print = (\<lambda>m. ''schema: 2'' @ nl),
     pf_yaml_parse = (\<lambda>s. Inr (YMapping [(YString ''schema'', YString ''hotsheet/v2-bounded-notes'')])),
     pf_yaml_from_value = (\<lambda>m. Inr sample_ticket),
     pf_sha256_16 = (\<lambda>s. of_nat (length s))\<rparr>"

lemma demo_text_order: "ulid_text_order demo"
proof -
  have "ord_cmp (demo_ulid_text i) (demo_ulid_text j) = ord_cmp i j" for i j
    using demo_ulid_less[of i j] demo_ulid_less[of j i] by (auto simp: ord_cmp_def)
  then show ?thesis by (simp add: ulid_text_order_def demo_def)
qed

lemma demo_text_width: "ulid_text_width demo"
  by (simp add: ulid_text_width_def demo_def demo_ulid_text_def)

lemma demo_text_parses: "ulid_text_parses demo"
  by (simp add: ulid_text_parses_def demo_def demo_ulid_roundtrip)

text \<open>The instant with the given number of nanoseconds.\<close>

definition at_ns :: "nat \<Rightarrow> timestamp" where
  "at_ns n = \<lparr>ts_raw = show_nat n, ts_parsed = Some \<lparr>unix_nanos = int n, utc_offset = 0\<rparr>\<rparr>"

end
