(* ===== verification/Keyset_Page.thy ===== *)
theory Keyset_Page
  imports Ticket_Query Write_Behind Demo_Platform
begin

text \<open>
  Pages of provider tickets (\<open>provider.rs\<close>, \<open>wire.rs\<close>): the provider-neutral filter and order, the
  page after a key over a complete result, and the same page read from the native pages of a
  tracker, whose cursors are positions that may be stale.
\<close>

subsection \<open>Provider tickets\<close>

record api_note =
  an_id :: string
  an_kind :: note_kind
  an_created_at :: string
  an_feedback_for :: "string option"
  an_feedback_request :: bool
  an_response_to :: "string option"
  an_ai_feedback :: "ai_feedback option"
  an_text :: string

text \<open>The fields of an \<open>ApiTicket\<close> that lists read or change; the others ride in the extension.\<close>

record api_ticket =
  apt_connection_id :: string
  apt_native_id :: string
  apt_qualified_id :: string
  apt_slug :: string
  apt_title :: string
  apt_details :: string
  apt_category :: string
  apt_priority :: priority
  apt_status :: status
  apt_up_next :: bool
  apt_feedback_needed :: bool
  apt_needs_review :: bool
  apt_tags :: "string list"
  apt_created_at :: string
  apt_updated_at :: string
  apt_close_reason :: "close_reason option"
  apt_assignees :: "string list"
  apt_review_requests :: "string list"
  apt_notes :: "api_note list"
  apt_latest_confidence :: "nat option"

definition api_note_in_exchange :: "api_note \<Rightarrow> bool" where
  "api_note_in_exchange n =
     ((an_kind n = Regular \<or> an_kind n = FeedbackNeeded) \<and> an_ai_feedback n = None \<and> an_feedback_for n = None
      \<and> \<not> text_is_ai_thumbs_feedback (an_text n))"

definition api_answered :: "api_note list \<Rightarrow> api_note \<Rightarrow> bool" where
  "api_answered notes n = list_ex (\<lambda>reply. an_response_to reply = Some (an_id n)) notes"

definition api_feedback_needed :: "platform \<Rightarrow> api_note list \<Rightarrow> string \<Rightarrow> bool" where
  "api_feedback_needed P notes details =
     (if list_ex (\<lambda>n. an_kind n = FeedbackNeeded \<and> an_feedback_request n \<and> \<not> api_answered notes n) notes then True
      else case max_by (\<lambda>l r. ord_then (ord_cmp (an_created_at l) (an_created_at r)) (ord_cmp (an_id l) (an_id r)))
               (filter (\<lambda>n. (an_kind n = Regular \<or> an_kind n = FeedbackNeeded) \<and> \<not> an_feedback_request n
                   \<and> an_response_to n = None \<and> an_ai_feedback n = None \<and> an_feedback_for n = None) notes) of
          None \<Rightarrow> \<not> list_ex api_note_in_exchange notes \<and> details_request_feedback P details
        | Some n \<Rightarrow> an_kind n = FeedbackNeeded \<and> \<not> api_answered notes n)"

definition merge_key_of_ticket :: "'a api_ticket_scheme \<Rightarrow> merge_key" where
  "merge_key_of_ticket t =
     \<lparr>mk_native_id = apt_native_id t, mk_qualified_id = apt_qualified_id t, mk_title = apt_title t,
      mk_created_at = apt_created_at t, mk_updated_at = apt_updated_at t,
      mk_priority_rank = priority_rank (apt_priority t), mk_status_rank = status_code (apt_status t),
      mk_confidence_rank = confidence_rank (apt_latest_confidence t)\<rparr>"

subsection \<open>Filter and order\<close>

text \<open>\<open>str::split\<close> at the characters that are not ASCII alphanumeric, without empty pieces, lower case.\<close>

fun alnum_words_from :: "string \<Rightarrow> string \<Rightarrow> string list" where
  "alnum_words_from acc [] = (if acc = [] then [] else [rev acc])"
| "alnum_words_from acc (c # cs) =
     (if is_ascii_alnum c then alnum_words_from (c # acc) cs
      else if acc = [] then alnum_words_from [] cs else rev acc # alnum_words_from [] cs)"

definition alnum_words :: "string \<Rightarrow> string list" where
  "alnum_words s = map to_ascii_lower (alnum_words_from [] s)"

definition provider_text_matches :: "'a api_ticket_scheme \<Rightarrow> string option \<Rightarrow> bool" where
  "provider_text_matches t wanted =
     (case wanted of
        None \<Rightarrow> True
      | Some s \<Rightarrow>
          let terms = alnum_words s;
              searchable = concat (map alnum_words ([apt_slug t, apt_title t, apt_details t] @ apt_tags t)) in
          terms = [] \<or> list_all (\<lambda>term. list_ex (\<lambda>word. starts_with term word) searchable) terms)"

fun provider_collection :: "ticket_collection \<Rightarrow> status \<Rightarrow> bool" where
  "provider_collection CollQueue s = (s \<notin> {Backlog, Archive, Deleted, Moved})"
| "provider_collection CollArchive s = (s = Archive \<or> s = Moved)"
| "provider_collection CollTrash s = (s = Deleted)"
| "provider_collection CollAll s = (s \<noteq> Deleted)"

definition refresh_review :: "platform \<Rightarrow> 'a api_ticket_scheme \<Rightarrow> 'a api_ticket_scheme" where
  "refresh_review P t =
     t\<lparr>apt_needs_review := apt_feedback_needed t \<or> apt_review_requests t \<noteq> []
          \<or> api_feedback_needed P (apt_notes t) (apt_details t)\<rparr>"

definition provider_matches :: "ticket_query \<Rightarrow> 'a api_ticket_scheme \<Rightarrow> bool" where
  "provider_matches q t =
     (provider_text_matches t (q_text q)
      \<and> is_none_or (q_status q) (\<lambda>v. apt_status t = v)
      \<and> is_none_or (q_collection q) (\<lambda>c. provider_collection c (apt_status t))
      \<and> is_none_or (q_priority q) (\<lambda>v. apt_priority t = v)
      \<and> (\<not> q_up_next_only q \<or> apt_up_next t)
      \<and> is_none_or (q_category q) (\<lambda>v. apt_category t = v)
      \<and> list_all (\<lambda>tag. tag \<in> set (apt_tags t)) (q_tags q)
      \<and> (\<not> q_open_only q \<or> apt_status t = NotStarted \<or> apt_status t = Started)
      \<and> is_none_or (q_close_reason q) (\<lambda>v. apt_close_reason t = Some v)
      \<and> is_none_or (q_closed q) (\<lambda>v. is_some (apt_close_reason t) = v)
      \<and> is_none_or (q_assignee q) (\<lambda>v. v \<in> set (apt_assignees t))
      \<and> is_none_or (q_needs_review q) (\<lambda>want. apt_needs_review t = want)
      \<and> is_none_or (q_created_after q) (\<lambda>v. apt_created_at t \<ge> v)
      \<and> is_none_or (q_created_before q) (\<lambda>v. apt_created_at t \<le> v)
      \<and> is_none_or (q_updated_after q) (\<lambda>v. apt_updated_at t \<ge> v)
      \<and> is_none_or (q_updated_before q) (\<lambda>v. apt_updated_at t \<le> v)
      \<and> confidence_in_range
          (Option.bind (apt_latest_confidence t) (\<lambda>n. case confidence_new (of_nat n) of Inr c \<Rightarrow> Some c | Inl _ \<Rightarrow> None))
          (q_min_confidence q) (q_max_confidence q))"

fun compare_provider_tickets :: "sort_key \<Rightarrow> bool \<Rightarrow> 'a api_ticket_scheme \<Rightarrow> 'a api_ticket_scheme \<Rightarrow> ordering" where
  "compare_provider_tickets SortId d l r =
     ord_then (directed d (ord_cmp (apt_native_id l) (apt_native_id r)))
       (directed d (ord_cmp (apt_qualified_id l) (apt_qualified_id r)))"
| "compare_provider_tickets SortCreated d l r =
     ord_then (directed d (ord_cmp (apt_created_at l) (apt_created_at r)))
       (directed d (ord_cmp (apt_qualified_id l) (apt_qualified_id r)))"
| "compare_provider_tickets SortUpdated d l r =
     ord_then (directed d (ord_cmp (apt_updated_at l) (apt_updated_at r)))
       (directed d (ord_cmp (apt_qualified_id l) (apt_qualified_id r)))"
| "compare_provider_tickets SortPriority d l r =
     ord_then (directed d (ord_cmp (priority_rank (apt_priority l)) (priority_rank (apt_priority r))))
       (ord_then (ord_cmp (apt_updated_at r) (apt_updated_at l)) (ord_cmp (apt_qualified_id l) (apt_qualified_id r)))"
| "compare_provider_tickets SortStatus d l r =
     ord_then (directed d (ord_cmp (status_code (apt_status l)) (status_code (apt_status r))))
       (ord_then (ord_cmp (apt_updated_at r) (apt_updated_at l)) (ord_cmp (apt_qualified_id l) (apt_qualified_id r)))"
| "compare_provider_tickets SortTitle d l r =
     ord_then (directed d (ord_cmp (title_fold (apt_title l)) (title_fold (apt_title r))))
       (ord_then (ord_cmp (apt_updated_at r) (apt_updated_at l)) (ord_cmp (apt_qualified_id l) (apt_qualified_id r)))"
| "compare_provider_tickets SortConfidence d l r =
     ord_then (directed d (ord_cmp (confidence_rank (apt_latest_confidence l)) (confidence_rank (apt_latest_confidence r))))
       (ord_then (ord_cmp (apt_updated_at r) (apt_updated_at l)) (ord_cmp (apt_qualified_id l) (apt_qualified_id r)))"

definition filter_provider_ticket_page ::
  "platform \<Rightarrow> 'a api_ticket_scheme list \<Rightarrow> ticket_query \<Rightarrow> 'a api_ticket_scheme list" where
  "filter_provider_ticket_page P tickets q =
     (let kept = filter (provider_matches q) (map (refresh_review P) tickets);
          sorted = sort_by (compare_provider_tickets (q_sort q) (q_descending q)) kept in
      case q_limit q of None \<Rightarrow> sorted | Some limit \<Rightarrow> take limit sorted)"

definition unbounded_query :: "ticket_query \<Rightarrow> ticket_query" where
  "unbounded_query q = q\<lparr>q_limit := None, q_page_after := None, q_after_key := None\<rparr>"

subsection \<open>Pages\<close>

definition compare_tickets :: "ticket_query \<Rightarrow> 'a api_ticket_scheme \<Rightarrow> 'a api_ticket_scheme \<Rightarrow> ordering" where
  "compare_tickets q l r = compare_keys (q_sort q) (q_descending q) (merge_key_of_ticket l) (merge_key_of_ticket r)"

definition after_matches :: "merge_key option \<Rightarrow> ticket_query \<Rightarrow> 'a api_ticket_scheme \<Rightarrow> bool" where
  "after_matches after q t =
     is_none_or after (\<lambda>k. compare_keys (q_sort q) (q_descending q) (merge_key_of_ticket t) k = Greater)"

text \<open>A page: its tickets, each with the native cursor to resume at, and whether nothing follows.\<close>

type_synonym 'a keyset_page = "('a \<times> string option) list \<times> bool"

definition keyset_page_from_rows ::
  "'a api_ticket_scheme list \<Rightarrow> ticket_query \<Rightarrow> merge_key option \<Rightarrow> nat \<Rightarrow> 'a api_ticket_scheme keyset_page" where
  "keyset_page_from_rows rows q after limit =
     (let sorted = sort_by (compare_tickets q) (filter (after_matches after q) rows) in
      (map (\<lambda>t. (t, None)) (take limit sorted), length sorted \<le> limit))"

fun push_rows ::
  "nat \<Rightarrow> string option \<Rightarrow> 'a list \<Rightarrow> ('a \<times> string option) list \<Rightarrow> bool \<times> ('a \<times> string option) list" where
  "push_rows limit cursor [] items = (False, items)"
| "push_rows limit cursor (t # ts) items =
     (if length items = limit then (True, items) else push_rows limit cursor ts (items @ [(t, cursor)]))"

definition resumed_past_key :: "merge_key option \<Rightarrow> ticket_query \<Rightarrow> 'a api_ticket_scheme list \<Rightarrow> bool" where
  "resumed_past_key after q rows =
     (case (after, rows) of
        (_, []) \<Rightarrow> True
      | (Some _, head # _) \<Rightarrow> after_matches after q head
      | (None, _ # _) \<Rightarrow> False)"

text \<open>The walk over native pages; a tracker whose cursors run in a circle keeps it going for ever.\<close>

partial_function (option) native_pages ::
  "platform \<Rightarrow> (string option \<Rightarrow> provider_error + ('a api_ticket_scheme list \<times> string option)) \<Rightarrow> ticket_query
    \<Rightarrow> merge_key option \<Rightarrow> nat \<Rightarrow> bool \<Rightarrow> string option \<Rightarrow> ('a api_ticket_scheme \<times> string option) list
    \<Rightarrow> (provider_error + 'a api_ticket_scheme keyset_page) option" where
  "native_pages P fetch q after limit first cursor items =
     (case fetch cursor of
        Inl e \<Rightarrow> Some (Inl e)
      | Inr (rows, next) \<Rightarrow>
          if first \<and> cursor \<noteq> None \<and> resumed_past_key after q rows
          then native_pages P fetch q after limit False None items
          else case push_rows limit cursor (filter_provider_ticket_page P (filter (after_matches after q) rows) q) items of
              (full, items') \<Rightarrow>
                if full then Some (Inr (items', False))
                else case next of
                   None \<Rightarrow> Some (Inr (items', True))
                 | Some n \<Rightarrow>
                     if cursor = Some n then Some (Inl (PeConflict [] ''provider returned a non-advancing ticket cursor''))
                     else if length items' = limit then Some (Inr (items', False))
                     else native_pages P fetch q after limit False (Some n) items')"

definition keyset_page_from_native_pages ::
  "platform \<Rightarrow> ticket_query \<Rightarrow> merge_key option \<Rightarrow> string option \<Rightarrow> nat
    \<Rightarrow> (string option \<Rightarrow> provider_error + ('a api_ticket_scheme list \<times> string option))
    \<Rightarrow> (provider_error + 'a api_ticket_scheme keyset_page) option" where
  "keyset_page_from_native_pages P q after resume limit fetch = native_pages P fetch q after limit True resume []"

subsection \<open>The provider order is the checkout order\<close>

definition of_connection :: "string \<Rightarrow> 'a api_ticket_scheme \<Rightarrow> bool" where
  "of_connection c t = (apt_qualified_id t = c @ '':'' @ apt_native_id t)"

lemma ord_cmp_append [simp]: "ord_cmp (p @ x) (p @ y) = ord_cmp x (y :: string)"
  by (induction p) (auto simp: ord_cmp_def)

lemma ord_then_idem [simp]: "ord_then x x = x"
  by (cases x) simp_all

lemma compare_provider_agrees:
  assumes "of_connection c l" "of_connection c r"
  shows "compare_provider_tickets (q_sort q) (q_descending q) l r = compare_tickets q l r"
proof -
  have "ord_cmp (apt_qualified_id l) (apt_qualified_id r) = ord_cmp (apt_native_id l) (apt_native_id r)"
    using assms by (simp add: of_connection_def)
  then show ?thesis
    by (cases "q_sort q") (simp_all add: compare_tickets_def merge_key_of_ticket_def by_identity_def recent_first_def)
qed

interpretation tk: strict_total_cmp "compare_tickets q" "\<lambda>_. True" apt_qualified_id for q
proof unfold_locales
  fix x y z :: "'a api_ticket_scheme"
  show "compare_tickets q x x = Equal" by (simp add: compare_tickets_def co.cmp_refl)
  show "compare_tickets q y x = ord_reverse (compare_tickets q x y)"
    unfolding compare_tickets_def by (rule co.cmp_sym) simp_all
  show "compare_tickets q x y \<noteq> Greater \<Longrightarrow> compare_tickets q y z \<noteq> Greater \<Longrightarrow> compare_tickets q x z \<noteq> Greater"
    unfolding compare_tickets_def by (rule co.cmp_trans) simp_all
  show "compare_tickets q x y = Equal \<Longrightarrow> apt_qualified_id x = apt_qualified_id y"
    unfolding compare_tickets_def by (drule compare_keys_identity) (simp add: merge_key_of_ticket_def)
qed

subsection \<open>What a query selects\<close>

definition matching :: "platform \<Rightarrow> ticket_query \<Rightarrow> merge_key option \<Rightarrow> 'a api_ticket_scheme list \<Rightarrow> 'a api_ticket_scheme list" where
  "matching P q after rows = filter (after_matches after q) (filter (provider_matches q) (map (refresh_review P) rows))"

lemma refresh_key [simp]: "merge_key_of_ticket (refresh_review P t) = merge_key_of_ticket t"
  by (simp add: refresh_review_def merge_key_of_ticket_def)

lemma refresh_after [simp]: "after_matches after q (refresh_review P t) = after_matches after q t"
  by (simp add: after_matches_def)

lemma refresh_ids [simp]:
  "apt_native_id (refresh_review P t) = apt_native_id t" "apt_qualified_id (refresh_review P t) = apt_qualified_id t"
  "of_connection c (refresh_review P t) = of_connection c t"
  by (simp_all add: refresh_review_def of_connection_def)

lemma matching_append [simp]: "matching P q after (xs @ ys) = matching P q after xs @ matching P q after ys"
  by (simp add: matching_def)

lemma matching_Nil [simp]: "matching P q after [] = []"
  by (simp add: matching_def)

lemma filter_refreshed:
  "filter (provider_matches q) (map (refresh_review P) (filter (after_matches after q) rows)) = matching P q after rows"
  unfolding matching_def by (induction rows) auto

lemma sorted_matching:
  assumes "sorted_by (compare_tickets q) rows" shows "sorted_by (compare_tickets q) (matching P q after rows)"
proof -
  have "sorted_by (compare_tickets q) (map (refresh_review P) rows)"
    using assms by (simp add: sorted_by_def sorted_wrt_map compare_tickets_def)
  then show ?thesis unfolding matching_def sorted_by_def by (intro sorted_wrt_filter)
qed

lemma sort_by_agree:
  assumes "\<And>x y. x \<in> set xs \<Longrightarrow> y \<in> set xs \<Longrightarrow> c x y = e x y" shows "sort_by c xs = sort_by e xs"
proof -
  have "insert_by c x ys = insert_by e x ys" if "x \<in> set xs" "set ys \<subseteq> set xs" for x ys
    using that assms by (induction ys) auto
  moreover have "sort_by c ys = sort_by e ys \<and> set (sort_by c ys) \<subseteq> set xs" if "set ys \<subseteq> set xs" for ys
    using that calculation by (induction ys) auto
  ultimately show ?thesis by blast
qed

lemma page_filter_sorts:
  assumes "q_limit q = None" "\<forall>t\<in>set rows. of_connection c t"
  shows "filter_provider_ticket_page P rows q = sort_by (compare_tickets q) (matching P q None rows)"
proof -
  have "sort_by (compare_provider_tickets (q_sort q) (q_descending q)) (matching P q None rows)
      = sort_by (compare_tickets q) (matching P q None rows)"
    using assms(2) by (intro sort_by_agree compare_provider_agrees[of c]) (auto simp: matching_def)
  then show ?thesis using assms(1) by (simp add: filter_provider_ticket_page_def matching_def after_matches_def is_none_or_def)
qed

lemma page_filter_sorted:
  assumes "q_limit q = None" "\<forall>t\<in>set rows. of_connection c t" "sorted_by (compare_tickets q) rows"
  shows "filter_provider_ticket_page P (filter (after_matches after q) rows) q = matching P q after rows"
proof -
  have "filter_provider_ticket_page P (filter (after_matches after q) rows) q
      = sort_by (compare_tickets q) (matching P q None (filter (after_matches after q) rows))"
    by (rule page_filter_sorts[of q _ c]) (use assms in auto)
  also have "matching P q None (filter (after_matches after q) rows) = matching P q after rows"
    using filter_refreshed[of q P after rows] by (simp add: matching_def after_matches_def is_none_or_def)
  finally show ?thesis using tk.sort_by_sorted_id[OF sorted_matching[OF assms(3)]] by simp
qed

lemma push_rows_spec:
  "length items \<le> limit \<Longrightarrow> push_rows limit c ts items =
     (limit < length items + length ts, items @ map (\<lambda>t. (t, c)) (take (limit - length items) ts))"
proof (induction ts arbitrary: items)
  case (Cons t ts)
  show ?case
  proof (cases "length items = limit")
    case False
    then have "limit - length items = Suc (limit - length (items @ [(t, c)]))" using Cons.prems by simp
    then show ?thesis using Cons.IH[of "items @ [(t, c)]"] Cons.prems False by simp
  qed simp
qed simp

subsection \<open>The walk over native pages\<close>

text \<open>A tracker that serves its rows in pages: a cursor is the position of a page, one past the end is empty.\<close>

definition page_at :: "'a list list \<Rightarrow> nat \<Rightarrow> 'a list" where
  "page_at pages i = (if i < length pages then pages ! i else [])"

definition next_at :: "'a list list \<Rightarrow> (nat \<Rightarrow> string) \<Rightarrow> nat \<Rightarrow> string option" where
  "next_at pages cursor i = (if Suc i < length pages then Some (cursor (Suc i)) else None)"

definition serves :: "(string option \<Rightarrow> provider_error + ('a list \<times> string option)) \<Rightarrow> 'a list list \<Rightarrow> (nat \<Rightarrow> string) \<Rightarrow> bool" where
  "serves fetch pages cursor =
     (pages \<noteq> [] \<and> inj cursor \<and> fetch None = Inr (page_at pages 0, next_at pages cursor 0)
      \<and> (\<forall>i. fetch (Some (cursor i)) = Inr (page_at pages i, next_at pages cursor i)))"

lemma native_pages_step:
  assumes "fetch c = Inr (rows, next)" "\<not> (first \<and> c \<noteq> None \<and> resumed_past_key after q rows)"
  shows "native_pages P fetch q after limit first c items = native_pages P fetch q after limit False c items"
proof -
  have no: "(first \<and> c \<noteq> None \<and> resumed_past_key after q rows) = False" using assms(2) by blast
  show ?thesis by (subst (1 2) native_pages.simps) (simp only: assms(1) sum.case prod.case no if_False simp_thms)
qed

lemma walk:
  assumes "serves fetch pages cursor" "q_limit q = None" "\<forall>t\<in>set (concat pages). of_connection k t"
    "sorted_by (compare_tickets q) (concat pages)"
    "i < length pages" "fetch c = Inr (page_at pages i, next_at pages cursor i)" "\<forall>j>i. c \<noteq> Some (cursor j)" "length items \<le> limit"
  shows "\<exists>new ex. native_pages P fetch q after limit False c items = Some (Inr (items @ new, ex))
    \<and> map fst new = take (limit - length items) (matching P q after (concat (drop i pages)))
    \<and> (ex \<longrightarrow> length items + length (matching P q after (concat (drop i pages))) \<le> limit)"
  using assms(5-8)
proof (induction "length pages - i" arbitrary: i c items)
  case (Suc n)
  let ?rows = "pages ! i"
  have d: "drop i pages = ?rows # drop (Suc i) pages" using Suc.prems(1) by (simp add: Cons_nth_drop_Suc)
  have rows: "page_at pages i = ?rows" using Suc.prems(1) by (simp add: page_at_def)
  have sub: "set ?rows \<subseteq> set (concat pages)" using nth_mem[OF Suc.prems(1)] by auto
  have "concat pages = concat (take i pages) @ ?rows @ concat (drop (Suc i) pages)"
    using d by (metis append_take_drop_id concat.simps(2) concat_append)
  then have sorted: "sorted_by (compare_tickets q) ?rows" using assms(4) by (simp add: sorted_by_def sorted_wrt_append)
  let ?m = "matching P q after ?rows" and ?rest = "matching P q after (concat (drop (Suc i) pages))"
  have f: "filter_provider_ticket_page P (filter (after_matches after q) ?rows) q = ?m"
    by (rule page_filter_sorted[of q _ k]) (use assms(2,3) sub sorted in auto)
  let ?items = "items @ map (\<lambda>t. (t, c)) (take (limit - length items) ?m)"
  note push = push_rows_spec[OF Suc.prems(4), of c ?m]
  have step: "native_pages P fetch q after limit False c items =
      (if limit < length items + length ?m then Some (Inr (?items, False))
       else case next_at pages cursor i of
          None \<Rightarrow> Some (Inr (?items, True))
        | Some n \<Rightarrow> if c = Some n then Some (Inl (PeConflict [] ''provider returned a non-advancing ticket cursor''))
                    else if length ?items = limit then Some (Inr (?items, False))
                    else native_pages P fetch q after limit False (Some n) ?items)"
    by (subst native_pages.simps) (simp only: Suc.prems(2) rows f push sum.case prod.case simp_thms if_False)
  have m: "matching P q after (concat (drop i pages)) = ?m @ ?rest" by (simp add: d)
  show ?case
  proof (cases "limit < length items + length ?m")
    case True
    then show ?thesis using step m
      by (intro exI[of _ "map (\<lambda>t. (t, c)) (take (limit - length items) ?m)"] exI[of _ False]) (simp add: comp_def)
  next
    case le: False
    then have all: "take (limit - length items) ?m = ?m" by simp
    show ?thesis
    proof (cases "Suc i < length pages")
      case False
      then have "?rest = []" "next_at pages cursor i = None" by (simp_all add: next_at_def)
      then show ?thesis using step m le all
        by (intro exI[of _ "map (\<lambda>t. (t, c)) ?m"] exI[of _ True]) (simp add: comp_def)
    next
      case True
      then have nx: "next_at pages cursor i = Some (cursor (Suc i))" by (simp add: next_at_def)
      have adv: "c \<noteq> Some (cursor (Suc i))" using Suc.prems(3) by simp
      show ?thesis
      proof (cases "length items + length ?m = limit")
        case True
        then show ?thesis using step m nx adv all
          by (intro exI[of _ "map (\<lambda>t. (t, c)) ?m"] exI[of _ False]) (auto simp: comp_def)
      next
        case False
        have go: "native_pages P fetch q after limit False c items = native_pages P fetch q after limit False (Some (cursor (Suc i))) ?items"
          using step nx adv False le all by simp
        have "fetch (Some (cursor (Suc i))) = Inr (page_at pages (Suc i), next_at pages cursor (Suc i))"
          using assms(1) by (simp add: serves_def)
        moreover have "\<forall>j>Suc i. Some (cursor (Suc i)) \<noteq> Some (cursor j)"
          using assms(1) by (auto simp: serves_def inj_def)
        moreover have "n = length pages - Suc i" using Suc.hyps(2) by simp
        ultimately obtain new ex where w: "native_pages P fetch q after limit False (Some (cursor (Suc i))) ?items = Some (Inr (?items @ new, ex))"
            "map fst new = take (limit - length ?items) ?rest" "ex \<longrightarrow> length ?items + length ?rest \<le> limit"
          using Suc.hyps(1)[of "Suc i" "Some (cursor (Suc i))" ?items] True le all by auto
        then show ?thesis using go m all le
          by (intro exI[of _ "map (\<lambda>t. (t, c)) ?m @ new"] exI[of _ ex]) (auto simp: comp_def)
      qed
    qed
  qed
qed simp

lemma matching_after: "filter (after_matches after q) (matching P q None rows) = matching P q after rows"
  by (simp add: matching_def after_matches_def is_none_or_def)

lemma rows_page_sorted:
  assumes "q_limit q = None" "\<forall>t\<in>set rows. of_connection c t" "sorted_by (compare_tickets q) rows"
  shows "keyset_page_from_rows (filter_provider_ticket_page P rows q) q after limit
    = (map (\<lambda>t. (t, None)) (take limit (matching P q after rows)), length (matching P q after rows) \<le> limit)"
proof -
  have "filter_provider_ticket_page P rows q = matching P q None rows"
    using page_filter_sorts[OF assms(1,2)] tk.sort_by_sorted_id[OF sorted_matching[OF assms(3)]] by simp
  then show ?thesis
    using tk.sort_by_sorted_id[OF sorted_matching[OF assms(3), of P after]]
    by (simp add: keyset_page_from_rows_def matching_after Let_def)
qed

text \<open>Rows at or before the key leave nothing to select.\<close>

lemma matching_before:
  assumes "sorted_by (compare_tickets q) (xs @ h # ys)" "after = Some k" "\<not> after_matches after q h"
  shows "matching P q after xs = []"
proof -
  have "\<not> after_matches after q t" if "t \<in> set xs" for t
  proof -
    have "compare_tickets q t h \<noteq> Greater" using assms(1) that by (auto simp: sorted_by_def sorted_wrt_append)
    moreover have "compare_keys (q_sort q) (q_descending q) (merge_key_of_ticket h) k \<noteq> Greater"
      using assms(2,3) by (simp add: after_matches_def is_none_or_def)
    ultimately have "compare_keys (q_sort q) (q_descending q) (merge_key_of_ticket t) k \<noteq> Greater"
      using co.cmp_trans unfolding compare_tickets_def by blast
    then show ?thesis by (simp add: assms(2) after_matches_def is_none_or_def)
  qed
  then show ?thesis by (auto simp: matching_def filter_empty_conv)
qed

subsection \<open>Properties\<close>

text \<open>C21. Reading a page from the native pages of a tracker gives the page of the complete result.  For rows in
  checkout order, any key to continue after and any position hint, even a stale one that names a page that
  moved or no longer exists, the walk ends, its tickets are exactly those of the page cut from all rows, and
  it reports that nothing follows only when nothing does.\<close>

theorem native_pages_complete:
  assumes "serves fetch pages cursor" "q_limit q = None" "\<forall>t\<in>set (concat pages). of_connection c t"
    "sorted_by (compare_tickets q) (concat pages)" "resume = None \<or> (\<exists>i. resume = Some (cursor i)) \<and> after \<noteq> None"
    "(page, ended) = keyset_page_from_rows (filter_provider_ticket_page P (concat pages) q) q after limit"
  shows "\<exists>items ex. keyset_page_from_native_pages P q after resume limit fetch = Some (Inr (items, ex))
    \<and> map fst items = map fst page \<and> (ex \<longrightarrow> ended)"
proof -
  let ?M = "matching P q after (concat pages)"
  have page: "map fst page = take limit ?M" "ended = (length ?M \<le> limit)"
    using assms(6) rows_page_sorted[OF assms(2-4), of P after limit] by (simp_all add: comp_def)
  note w = walk[OF assms(1-4), where items = "[]" and P = P and after = after and limit = limit, simplified]
  have s: "pages \<noteq> []" "fetch None = Inr (page_at pages 0, next_at pages cursor 0)"
    "\<And>i. fetch (Some (cursor i)) = Inr (page_at pages i, next_at pages cursor i)" "inj cursor"
    using assms(1) by (simp_all add: serves_def)
  have start: "\<exists>items ex. native_pages P fetch q after limit False None [] = Some (Inr (items, ex))
      \<and> map fst items = take limit ?M \<and> (ex \<longrightarrow> length ?M \<le> limit)"
    using w[of 0 None] s by simp
  show ?thesis
  proof (cases resume)
    case None
    have "native_pages P fetch q after limit True None [] = native_pages P fetch q after limit False None []"
      by (rule native_pages_step[where fetch = fetch, OF s(2)]) simp
    then show ?thesis using start page None by (simp add: keyset_page_from_native_pages_def)
  next
    case (Some r)
    then obtain i k where i: "resume = Some (cursor i)" "after = Some k" using assms(5) by auto
    show ?thesis
    proof (cases "resumed_past_key after q (page_at pages i)")
      case True
      have "native_pages P fetch q after limit True (Some (cursor i)) [] = native_pages P fetch q after limit False None []"
        by (subst native_pages.simps) (simp add: s(3) True)
      then show ?thesis using start page i by (simp add: keyset_page_from_native_pages_def)
    next
      case False
      then obtain h t where h: "page_at pages i = h # t" "\<not> after_matches after q h"
        using i(2) by (auto simp: resumed_past_key_def split: list.splits)
      then have l: "i < length pages" by (auto simp: page_at_def split: if_splits)
      have split: "concat pages = concat (take i pages) @ h # t @ concat (drop (Suc i) pages)"
        "concat (drop i pages) = h # t @ concat (drop (Suc i) pages)"
      proof -
        have d: "drop i pages = (h # t) # drop (Suc i) pages" using h(1) l by (simp add: page_at_def flip: Cons_nth_drop_Suc)
        then show "concat (drop i pages) = h # t @ concat (drop (Suc i) pages)" by simp
        then show "concat pages = concat (take i pages) @ h # t @ concat (drop (Suc i) pages)"
          by (metis append_take_drop_id concat_append)
      qed
      have none: "matching P q after (concat (take i pages)) = []"
        by (rule matching_before[OF _ i(2) h(2)]) (use assms(4) split(1) in simp)
      have "concat pages = concat (take i pages) @ concat (drop i pages)" using split by simp
      then have "?M = matching P q after (concat (drop i pages))" using none by (metis append_Nil matching_append)
      moreover have "native_pages P fetch q after limit True (Some (cursor i)) [] = native_pages P fetch q after limit False (Some (cursor i)) []"
        by (rule native_pages_step[where fetch = fetch, OF s(3)]) (simp add: False)
      moreover have "\<forall>j>i. Some (cursor i) \<noteq> Some (cursor j)" using s(4) by (auto simp: inj_def)
      ultimately show ?thesis using w[OF l s(3)] page i by (simp add: keyset_page_from_native_pages_def)
    qed
  qed
qed

subsection \<open>Witness\<close>

definition demo_listed :: "string \<Rightarrow> string \<Rightarrow> api_ticket" where
  "demo_listed native title =
     \<lparr>apt_connection_id = ''j'', apt_native_id = native, apt_qualified_id = ''j'' @ '':'' @ native, apt_slug = native,
      apt_title = title, apt_details = [], apt_category = [], apt_priority = PDefault, apt_status = NotStarted,
      apt_up_next = False, apt_feedback_needed = False, apt_needs_review = False, apt_tags = [], apt_created_at = [],
      apt_updated_at = [], apt_close_reason = None, apt_assignees = [], apt_review_requests = [], apt_notes = [],
      apt_latest_confidence = None\<rparr>"

definition demo_pages :: "api_ticket list list" where
  "demo_pages = [[demo_listed ''1'' ''a'', demo_listed ''2'' ''b''], [demo_listed ''3'' ''c'']]"

definition demo_cursor :: "nat \<Rightarrow> string" where "demo_cursor i = replicate i (CHR ''x'')"

definition demo_fetch :: "string option \<Rightarrow> provider_error + (api_ticket list \<times> string option)" where
  "demo_fetch c = (let i = (case c of None \<Rightarrow> 0 | Some s \<Rightarrow> length s) in Inr (page_at demo_pages i, next_at demo_pages demo_cursor i))"

theorem native_pages_complete_witness:
  "\<exists>items ex. keyset_page_from_native_pages demo default_query (Some (merge_key_of_ticket (demo_listed ''1'' ''a'')))
      (Some (demo_cursor 5)) 1 demo_fetch = Some (Inr (items, ex))
    \<and> map (\<lambda>i. apt_native_id (fst i)) items = [''2'']"
proof -
  let ?after = "Some (merge_key_of_ticket (demo_listed ''1'' ''a''))"
  let ?page = "keyset_page_from_rows (filter_provider_ticket_page demo (concat demo_pages) default_query) default_query ?after 1"
  have serves: "serves demo_fetch demo_pages demo_cursor"
    by (auto simp: serves_def demo_fetch_def demo_cursor_def demo_pages_def inj_def dest: arg_cong[of _ _ length])
  have conn: "\<forall>t\<in>set (concat demo_pages). of_connection ''j'' t" by (simp add: demo_pages_def demo_listed_def of_connection_def)
  have "sorted_by (compare_tickets default_query) (concat demo_pages)" "q_limit default_query = None"
    and p: "map (\<lambda>i. apt_native_id (fst i)) (fst ?page) = [''2'']" unfolding sorted_by_def by code_simp+
  then obtain items ex where i: "keyset_page_from_native_pages demo default_query ?after (Some (demo_cursor 5)) 1 demo_fetch = Some (Inr (items, ex))"
      "map fst items = map fst (fst ?page)"
    using native_pages_complete[OF serves _ conn, of default_query "Some (demo_cursor 5)" ?after "fst ?page" "snd ?page" demo 1] by auto
  have "map (\<lambda>i. apt_native_id (fst i)) items = map apt_native_id (map fst items)" unfolding map_map comp_def ..
  also have "\<dots> = [''2'']" unfolding i(2) using p unfolding map_map comp_def .
  finally show ?thesis by (intro exI conjI) (rule i(1))
qed

end
