(* ===== verification/Provider_Overlay.thy ===== *)
theory Provider_Overlay
  imports Keyset_Page
begin

text \<open>
  Reads of a tracker with the pending edits of the outbox applied (\<open>provider_overlay.rs\<close> of the server):
  single tickets, lists and pages.  A pending edit can change which tickets match and where they sort,
  so it is applied before filtering and paging.  The provider and the JSON form of a ticket are
  parameters.
\<close>

subsection \<open>Definitions\<close>

record overlay_provider =
  op_connection :: string
  op_get :: "string \<Rightarrow> provider_error + api_ticket"
  op_query :: "ticket_query \<Rightarrow> provider_error + api_ticket list"
  op_query_after :: "ticket_query \<Rightarrow> merge_key option \<Rightarrow> string option \<Rightarrow> nat \<Rightarrow> provider_error + api_ticket keyset_page"
  op_query_page :: "ticket_query \<Rightarrow> string option \<Rightarrow> nat \<Rightarrow> provider_error + (api_ticket list \<times> string option)"

record ticket_codec =
  tc_platform :: platform
  tc_to_value :: "api_ticket \<Rightarrow> json"
  tc_from_value :: "json \<Rightarrow> string + api_ticket"

datatype overlay_error = OverlayProvider provider_error | OverlayOutbox outbox_error | OverlayJson string

definition NATIVE_SCAN_PAGE :: nat where "NATIVE_SCAN_PAGE = 100"
definition MAX_PENDING_NATIVE_SCAN :: nat where "MAX_PENDING_NATIVE_SCAN = 100000"
definition MAX_PENDING_POINT_READS :: nat where "MAX_PENDING_POINT_READS = 50"

type_synonym pending_edits = "(string \<times> outbox_operation list) list"

definition project_ticket :: "ticket_codec \<Rightarrow> json \<Rightarrow> outbox_operation list \<Rightarrow> overlay_error + api_ticket" where
  "project_ticket C remote edits =
     (case project_pending_ticket remote edits of
        Inl e \<Rightarrow> Inl (OverlayOutbox e)
      | Inr v \<Rightarrow> (case tc_from_value C v of Inl e \<Rightarrow> Inl (OverlayJson e) | Inr t \<Rightarrow> Inr t))"

definition or_provider :: "provider_error + 'a \<Rightarrow> overlay_error + 'a" where
  "or_provider r = (case r of Inl e \<Rightarrow> Inl (OverlayProvider e) | Inr x \<Rightarrow> Inr x)"

definition overlay_get :: "ticket_codec \<Rightarrow> overlay_provider \<Rightarrow> outbox \<Rightarrow> string \<Rightarrow> string \<Rightarrow> overlay_error + api_ticket" where
  "overlay_get C provider db connection native =
     (case pending_for_ticket db connection native of
        [] \<Rightarrow> or_provider (op_get provider native)
      | first # rest \<Rightarrow>
          let remote = (case op_get provider native of Inr t \<Rightarrow> tc_to_value C t | Inl _ \<Rightarrow> oo_base_ticket first) in
          project_ticket C remote (first # rest))"

definition pending_for_connection :: "outbox \<Rightarrow> string \<Rightarrow> pending_edits" where
  "pending_for_connection db connection =
     fold (\<lambda>x m. if oo_connection_id x = connection
                 then btree_entry (oo_native_id x) (\<lambda>v. unwrap_or v [] @ [x]) m else m)
       (list_pending db) []"

fun projected_pending :: "ticket_codec \<Rightarrow> overlay_provider \<Rightarrow> pending_edits \<Rightarrow> overlay_error + api_ticket list" where
  "projected_pending C provider [] = Inr []"
| "projected_pending C provider ((native, edits) # pending) =
     (let remote = (case op_get provider native of
                      Inr t \<Rightarrow> tc_to_value C (t\<lparr>apt_notes := []\<rparr>)
                    | Inl _ \<Rightarrow> oo_base_ticket (hd edits)) in
      result_bind (project_ticket C remote edits) (\<lambda>t.
      result_bind (projected_pending C provider pending) (\<lambda>ts. Inr (t # ts))))"

text \<open>\<open>partition_point\<close> on the sorted candidates is the length of the prefix that sorts before.\<close>

definition retain_candidate ::
  "platform \<Rightarrow> ticket_query \<Rightarrow> merge_key option \<Rightarrow> nat \<Rightarrow> api_ticket \<Rightarrow> api_ticket list \<Rightarrow> api_ticket list" where
  "retain_candidate P q after limit ticket candidates =
     (case filter_provider_ticket_page P [ticket] q of
        [] \<Rightarrow> candidates
      | t # _ \<Rightarrow>
          if \<not> after_matches after q t then candidates
          else let position = length (takeWhile (\<lambda>x. compare_tickets q x t = Less) candidates) in
            if position \<le> limit
            then take (limit + 1) (take position candidates @ t # drop position candidates)
            else candidates)"

definition requires_jira_filter_validation :: "ticket_query \<Rightarrow> bool" where
  "requires_jira_filter_validation q =
     (q_review_requested q \<noteq> None \<or> q_needs_review q \<noteq> None \<or> q_review_by q \<noteq> None \<or> q_claimed q \<noteq> None
      \<or> q_blocked q \<noteq> None \<or> q_page_after q \<noteq> None \<or> q_up_next_only q \<or> q_close_reason q \<noteq> None
      \<or> q_completed_after q \<noteq> None \<or> q_min_confidence q \<noteq> None \<or> q_max_confidence q \<noteq> None
      \<or> q_completed_before q \<noteq> None \<or> q_verified_after q \<noteq> None \<or> q_verified_before q \<noteq> None
      \<or> q_has_attachment q \<noteq> None \<or> q_has_media_annotation q \<noteq> None \<or> q_attachment_patterns q \<noteq> [])"

text \<open>The rows of one scanned page with their pending edits, which are used up.\<close>

fun project_page :: "ticket_codec \<Rightarrow> api_ticket list \<Rightarrow> pending_edits \<Rightarrow> overlay_error + (api_ticket list \<times> pending_edits)" where
  "project_page C [] pending = Inr ([], pending)"
| "project_page C (t # ts) pending =
     (case map_of pending (apt_native_id t) of
        None \<Rightarrow> result_bind (project_page C ts pending) (\<lambda>(rows, rest). Inr (t # rows, rest))
      | Some edits \<Rightarrow>
          result_bind (project_ticket C (tc_to_value C t) edits) (\<lambda>t'.
          result_bind (project_page C ts (filter (\<lambda>(k, _). k \<noteq> apt_native_id t) pending)) (\<lambda>(rows, rest).
          Inr (t' # rows, rest))))"

text \<open>The scan of the native pages shared by both fallbacks: \<open>add\<close> takes in the rows of a page.\<close>

partial_function (option) overlay_scan ::
  "ticket_codec \<Rightarrow> overlay_provider \<Rightarrow> ticket_query \<Rightarrow> nat \<Rightarrow> (api_ticket list \<Rightarrow> 'b \<Rightarrow> 'b) \<Rightarrow> string option \<Rightarrow> nat
    \<Rightarrow> pending_edits \<Rightarrow> 'b \<Rightarrow> (overlay_error + ('b \<times> pending_edits)) option" where
  "overlay_scan C provider scan_query max_scan add cursor scanned pending acc =
     (case op_query_page provider scan_query cursor NATIVE_SCAN_PAGE of
        Inl e \<Rightarrow> Some (Inl (OverlayProvider e))
      | Inr (items, next) \<Rightarrow>
          let scanned' = scanned + length items in
          if scanned' > max_scan
          then Some (Inl (OverlayProvider (PeConflict (op_connection provider)
                 (''pending Jira overlay scan exceeded '' @ show_nat max_scan @ '' issues; wait for pending edits to settle''))))
          else case project_page C items pending of
              Inl e \<Rightarrow> Some (Inl e)
            | Inr (rows, pending') \<Rightarrow>
                (case next of
                   None \<Rightarrow> Some (Inr (add rows acc, pending'))
                 | Some n \<Rightarrow>
                     if cursor = Some n
                     then Some (Inl (OverlayProvider (PeConflict (op_connection provider) ''pending Jira overlay scan did not advance'')))
                     else overlay_scan C provider scan_query max_scan add (Some n) scanned' pending' (add rows acc)))"

text \<open>The pending edits of tickets the scan did not return, on their admission snapshots.\<close>

fun projected_bases :: "ticket_codec \<Rightarrow> pending_edits \<Rightarrow> overlay_error + api_ticket list" where
  "projected_bases C [] = Inr []"
| "projected_bases C ((_, edits) # pending) =
     result_bind (project_ticket C (oo_base_ticket (hd edits)) edits) (\<lambda>t.
     result_bind (projected_bases C pending) (\<lambda>ts. Inr (t # ts)))"

definition validated_query :: "overlay_provider \<Rightarrow> ticket_query \<Rightarrow> overlay_error + unit" where
  "validated_query provider q =
     (if requires_jira_filter_validation q then result_bind (or_provider (op_query provider q)) (\<lambda>_. Inr ()) else Inr ())"

definition bounded_projected_page ::
  "ticket_codec \<Rightarrow> overlay_provider \<Rightarrow> ticket_query \<Rightarrow> pending_edits \<Rightarrow> merge_key option \<Rightarrow> nat \<Rightarrow> nat
    \<Rightarrow> (overlay_error + api_ticket keyset_page) option" where
  "bounded_projected_page C provider q pending after limit max_scan =
     (let uq = unbounded_query q; retain = retain_candidate (tc_platform C) uq after limit in
      case validated_query provider q of
        Inl e \<Rightarrow> Some (Inl e)
      | Inr _ \<Rightarrow>
          map_option (\<lambda>r. result_bind r (\<lambda>(candidates, rest).
              result_bind (projected_bases C rest) (\<lambda>ts.
              Inr (keyset_page_from_rows (fold retain ts candidates) q after limit))))
            (overlay_scan C provider (default_query\<lparr>q_sort := SortUpdated\<rparr>) max_scan (fold retain) None 0 pending []))"

definition projected_rows_with_limit ::
  "ticket_codec \<Rightarrow> overlay_provider \<Rightarrow> ticket_query \<Rightarrow> pending_edits \<Rightarrow> nat \<Rightarrow> (overlay_error + api_ticket list) option" where
  "projected_rows_with_limit C provider q pending max_scan =
     (let uq = unbounded_query q; P = tc_platform C in
      case validated_query provider q of
        Inl e \<Rightarrow> Some (Inl e)
      | Inr _ \<Rightarrow>
          map_option (\<lambda>r. result_bind r (\<lambda>(rows, rest).
              result_bind (projected_bases C rest) (\<lambda>ts.
              Inr (filter_provider_ticket_page P
                (rows @ concat (map (\<lambda>t. filter_provider_ticket_page P [t] uq) ts)) q))))
            (overlay_scan C provider default_query max_scan (\<lambda>ts rows. rows @ filter_provider_ticket_page P ts uq) None 0 pending []))"

definition projected_page ::
  "ticket_codec \<Rightarrow> overlay_provider \<Rightarrow> ticket_query \<Rightarrow> pending_edits \<Rightarrow> merge_key option \<Rightarrow> nat
    \<Rightarrow> (overlay_error + api_ticket keyset_page) option" where
  "projected_page C provider q pending after limit =
     (if length pending > MAX_PENDING_POINT_READS
      then bounded_projected_page C provider q pending after limit MAX_PENDING_NATIVE_SCAN
      else
        let uq = unbounded_query q; retain = retain_candidate (tc_platform C) uq after limit in
        Some (result_bind (or_provider (op_query_after provider uq after None (limit + length pending + 1))) (\<lambda>(items, _).
          let native = filter (\<lambda>t. map_of pending (apt_native_id t) = None) (map fst items) in
          result_bind (projected_pending C provider pending) (\<lambda>ts.
          Inr (keyset_page_from_rows (fold retain ts (fold retain native [])) q after limit)))))"

definition overlay_query_after ::
  "ticket_codec \<Rightarrow> overlay_provider \<Rightarrow> outbox \<Rightarrow> string \<Rightarrow> ticket_query \<Rightarrow> merge_key option \<Rightarrow> string option \<Rightarrow> nat
    \<Rightarrow> (overlay_error + api_ticket keyset_page) option" where
  "overlay_query_after C provider db connection q after resume limit =
     (let pending = pending_for_connection db connection in
      if pending = [] then Some (or_provider (op_query_after provider q after resume limit))
      else projected_page C provider q pending after limit)"

definition overlay_query ::
  "ticket_codec \<Rightarrow> overlay_provider \<Rightarrow> outbox \<Rightarrow> string \<Rightarrow> ticket_query \<Rightarrow> (overlay_error + api_ticket list) option" where
  "overlay_query C provider db connection q =
     (let pending = pending_for_connection db connection; P = tc_platform C; uq = unbounded_query q in
      if pending = [] then Some (or_provider (op_query provider q))
      else case q_limit q of
          Some limit \<Rightarrow>
            map_option (\<lambda>r. result_bind r (\<lambda>(items, _). Inr (map fst items))) (projected_page C provider q pending None limit)
        | None \<Rightarrow>
            if length pending > MAX_PENDING_POINT_READS
            then projected_rows_with_limit C provider q pending MAX_PENDING_NATIVE_SCAN
            else Some (
              result_bind (or_provider (op_query provider uq)) (\<lambda>rows.
              result_bind (projected_pending C provider pending) (\<lambda>ts.
              Inr (filter_provider_ticket_page P
                (filter (\<lambda>t. map_of pending (apt_native_id t) = None) rows
                   @ concat (map (\<lambda>t. filter_provider_ticket_page P [t] uq) ts)) q)))))"

subsection \<open>The first candidates\<close>

text \<open>The first \<open>m\<close> of a sorted list depend only on the first \<open>m\<close> before an insertion.\<close>

lemma take_insert_take: "take m (insert_by cmp x (take m ys)) = take m (insert_by cmp x ys)"
proof (induction ys arbitrary: m)
  case (Cons y ys)
  show ?case
  proof (cases m)
    case (Suc k)
    then show ?thesis using Cons.IH[of k] by (cases k) auto
  qed simp
qed simp

lemma take_sort_append:
  assumes "take m (sort_by cmp ys) = take m (sort_by cmp zs)"
  shows "take m (sort_by cmp (xs @ ys)) = take m (sort_by cmp (xs @ zs))"
proof (induction xs)
  case (Cons x xs)
  have "take m (sort_by cmp ((x # xs) @ ys)) = take m (insert_by cmp x (take m (sort_by cmp (xs @ ys))))"
    by (simp add: take_insert_take)
  also have "\<dots> = take m (sort_by cmp ((x # xs) @ zs))" unfolding Cons.IH by (simp add: take_insert_take)
  finally show ?case .
qed (use assms in simp)

lemma take_filter_take:
  assumes "length (filter (\<lambda>x. \<not> Q x) xs) \<le> n"
  shows "take m (filter Q (take (m + n) xs)) = take m (filter Q xs)"
  using assms
proof (induction xs arbitrary: m n)
  case (Cons x xs)
  show ?case
  proof (cases "Q x")
    case True
    then show ?thesis using Cons.IH[of n "m - 1"] Cons.prems by (cases m) auto
  next
    case False
    then obtain k where "n = Suc k" using Cons.prems by (cases n) auto
    then show ?thesis using Cons.IH[of k m] Cons.prems False by simp
  qed
qed simp

lemma insert_by_prefix:
  assumes "\<And>y. (compare y x = Less) = (compare x y = Greater)"
  shows "take (length (takeWhile (\<lambda>y. compare y x = Less) ys)) ys @ x # drop (length (takeWhile (\<lambda>y. compare y x = Less) ys)) ys
    = insert_by compare x ys"
  using assms by (induction ys) auto

lemma insert_by_all_less:
  "\<forall>y\<in>set ys. compare x y = Greater \<Longrightarrow> insert_by compare x ys = ys @ [x]"
  by (induction ys) auto

lemma compare_tickets_less: "(compare_tickets q y x = Less) = (compare_tickets q x y = Greater)"
  using tk.cmp_sym[where x = y and y = x and q = q] by (cases "compare_tickets q y x") auto

lemma refresh_idem [simp]: "refresh_review P (refresh_review P t) = refresh_review P t"
  by (simp add: refresh_review_def)

lemma retain_candidate_spec:
  assumes "length candidates \<le> limit + 1" "q_limit q = None"
  shows "retain_candidate P q after limit t candidates
    = (case matching P q after [t] of [] \<Rightarrow> candidates | x # _ \<Rightarrow> take (limit + 1) (insert_by (compare_tickets q) x candidates))"
proof (cases "provider_matches q (refresh_review P t) \<and> after_matches after q t")
  case False
  then show ?thesis using assms(2)
    by (auto simp: retain_candidate_def filter_provider_ticket_page_def matching_def)
next
  case True
  let ?x = "refresh_review P t"
  let ?n = "length (takeWhile (\<lambda>y. compare_tickets q y ?x = Less) candidates)"
  note i = insert_by_prefix[of "compare_tickets q" ?x candidates, OF compare_tickets_less]
  have r: "retain_candidate P q after limit t candidates
      = (if ?n \<le> limit then take (limit + 1) (insert_by (compare_tickets q) ?x candidates) else candidates)"
    using True assms(2) i by (simp add: retain_candidate_def filter_provider_ticket_page_def Let_def)
  have "take (limit + 1) (insert_by (compare_tickets q) ?x candidates) = candidates" if "\<not> ?n \<le> limit"
  proof -
    have "?n \<le> length candidates" by (rule length_takeWhile_le)
    then have l: "?n = length candidates" "length candidates = limit + 1" using that assms(1) by linarith+
    then have "takeWhile (\<lambda>y. compare_tickets q y ?x = Less) candidates = candidates"
      by (metis takeWhile_eq_take take_all order_refl)
    then have "\<forall>y\<in>set candidates. compare_tickets q ?x y = Greater"
      by (auto simp: takeWhile_eq_all_conv compare_tickets_less)
    then show ?thesis using insert_by_all_less[of candidates "compare_tickets q" ?x] l by simp
  qed
  then show ?thesis using True r by (simp add: matching_def)
qed

lemma fold_retain:
  assumes "q_limit q = None" "candidates = take (limit + 1) (sort_by (compare_tickets q) S)"
  shows "fold (retain_candidate P q after limit) ts candidates
    = take (limit + 1) (sort_by (compare_tickets q) (rev (matching P q after ts) @ S))"
  using assms(2)
proof (induction ts arbitrary: candidates S)
  case (Cons t ts)
  have l: "length candidates \<le> limit + 1" using Cons.prems by simp
  let ?m = "matching P q after [t]"
  have m: "?m = [] \<or> (\<exists>x. ?m = [x])" by (simp add: matching_def)
  have "retain_candidate P q after limit t candidates = take (limit + 1) (sort_by (compare_tickets q) (rev ?m @ S))"
    unfolding retain_candidate_spec[OF l assms(1)] using m Cons.prems by (auto simp: take_insert_take)
  from Cons.IH[OF this] show ?case using matching_append[of P q after "[t]" ts] by simp
qed (simp add: matching_def)

subsection \<open>Identities of edited tickets\<close>

lemma btree_entry_other: "j \<noteq> k \<Longrightarrow> map_of (btree_entry k f m) j = map_of m j"
  by (induction k f m rule: btree_entry.induct) auto

lemma edit_fields_names: "(k, v) \<in> set (edit_fields p) \<Longrightarrow> k \<in> {''title'', ''details'', ''category'', ''priority'', ''tags''}"
  by (cases "pp_title p"; cases "pp_details p"; cases "pp_category p"; cases "pp_priority p"; cases "pp_tags p")
     (auto simp: edit_fields_def List.map_filter_simps)

lemma set_fields_other:
  "k \<notin> fst ` set kvs \<Longrightarrow> map_of (fold (\<lambda>(k, v). set_field k v) kvs m) k = map_of m k"
proof (induction kvs arbitrary: m)
  case (Cons e kvs)
  obtain j v where e: "e = (j, v)" by force
  show ?case using Cons.IH[of "set_field j v m"] Cons.prems by (simp add: e set_field_def btree_entry_other)
qed simp

lemma project_operations_identity:
  assumes "project_operations c n previous xs m = Inr m'" "k \<in> {''native_id'', ''connection_id''}"
  shows "map_of m' k = map_of m k \<and> (\<forall>x\<in>set xs. oo_connection_id x = c \<and> oo_native_id x = n)"
  using assms(1)
proof (induction xs arbitrary: previous m)
  case (Cons x xs)
  let ?m = "fold (\<lambda>(k, v). set_field k v) (edit_fields (oo_patch x)) m"
  have ok: "oo_connection_id x = c" "oo_native_id x = n" "project_operations c n (oo_sequence x) xs ?m = Inr m'"
    using Cons.prems by (auto split: if_splits option.splits)
  have "k \<notin> fst ` set (edit_fields (oo_patch x))" using edit_fields_names[of _ _ "oo_patch x"] assms(2) by force
  then show ?case using Cons.IH[OF ok(3)] ok(1,2) by (simp add: set_fields_other)
qed simp

lemma project_pending_identity:
  assumes "project_pending_ticket remote (x # xs) = Inr v"
  shows "json_get ''native_id'' v = Some (JString (oo_native_id x)) \<and> json_get ''connection_id'' v = Some (JString (oo_connection_id x))"
proof -
  let ?c = "Option.bind (json_get ''connection_id'' remote) as_str" and ?n = "Option.bind (json_get ''native_id'' remote) as_str"
  obtain c n m where cn: "?c = Some c" "?n = Some n" "as_object remote = Some m"
    using assms unfolding project_pending_ticket_def by (cases ?c; cases ?n; cases "as_object remote") simp_all
  have r: "json_get ''connection_id'' remote = Some (JString c)" "json_get ''native_id'' remote = Some (JString n)"
    using cn(1,2) by (auto simp: bind_eq_Some_conv)
  have o: "remote = JObject m" using cn(3) by (cases remote) (simp_all add: as_object_def)
  have u: "project_pending_ticket remote (x # xs) = result_bind (project_operations c n 0 (x # xs) m) (\<lambda>projected.
      Inr (JObject (set_field ''pending_operation_ids'' (JArray (map (\<lambda>x. JString (oo_operation_id x)) (x # xs))) projected)))"
    unfolding project_pending_ticket_def cn by (simp del: project_operations.simps)
  obtain m' where m': "project_operations c n 0 (x # xs) m = Inr m'"
      "v = JObject (set_field ''pending_operation_ids'' (JArray (map (\<lambda>x. JString (oo_operation_id x)) (x # xs))) m')"
    using assms unfolding u result_bind_eq_Inr by blast
  note i = project_operations_identity[OF m'(1)]
  show ?thesis using r i[of "''native_id''"] i[of "''connection_id''"]
    by (simp add: o m'(2) json_get_def set_field_def btree_entry_other)
qed

text \<open>Reading a ticket keeps its identity, and the qualified id is built from it.\<close>

definition codec_ids :: "ticket_codec \<Rightarrow> string \<Rightarrow> bool" where
  "codec_ids C c =
     (\<forall>v t. tc_from_value C v = Inr t \<longrightarrow> json_get ''native_id'' v = Some (JString (apt_native_id t))
        \<and> (json_get ''connection_id'' v = Some (JString c) \<longrightarrow> of_connection c t))"

lemma project_ticket_identity:
  assumes "project_ticket C remote (x # xs) = Inr t" "codec_ids C c" "oo_connection_id x = c" "oo_native_id x = n"
  shows "apt_native_id t = n \<and> of_connection c t"
proof -
  obtain v where v: "project_pending_ticket remote (x # xs) = Inr v" "tc_from_value C v = Inr t"
    using assms(1) by (auto simp: project_ticket_def split: sum.splits)
  then show ?thesis using project_pending_identity[OF v(1)] assms(2-4) by (auto simp: codec_ids_def)
qed

definition edits_ok :: "string \<Rightarrow> string \<times> outbox_operation list \<Rightarrow> bool" where
  "edits_ok c e = (snd e \<noteq> [] \<and> (\<forall>x\<in>set (snd e). oo_connection_id x = c \<and> oo_native_id x = fst e))"

lemma edits_ok_entry:
  assumes "\<forall>e\<in>set m. edits_ok c e" "oo_connection_id x = c"
  shows "\<forall>e\<in>set (btree_entry (oo_native_id x) (\<lambda>v. unwrap_or v [] @ [x]) m). edits_ok c e"
  using assms(1)
proof (induction m)
  case Nil
  then show ?case using assms(2) by (simp add: edits_ok_def unwrap_or_def)
next
  case (Cons e m)
  obtain j v where e: "e = (j, v)" by force
  have new: "edits_ok c (oo_native_id x, [x])" using assms(2) by (simp add: edits_ok_def)
  have grown: "edits_ok c (j, v @ [x])" if "j = oo_native_id x"
    using Cons.prems assms(2) that by (simp add: e edits_ok_def)
  consider "j < oo_native_id x" | "j = oo_native_id x" | "\<not> j < oo_native_id x" "j \<noteq> oo_native_id x" by blast
  then show ?case
    by cases (use Cons new grown in \<open>simp_all add: e unwrap_or_def\<close>)
qed

lemma pending_for_connection_ok:
  "key_sorted (pending_for_connection db c) \<and> (\<forall>e\<in>set (pending_for_connection db c). edits_ok c e)"
proof -
  have "key_sorted m \<and> (\<forall>e\<in>set m. edits_ok c e) \<Longrightarrow>
      key_sorted (fold (\<lambda>x m. if oo_connection_id x = c then btree_entry (oo_native_id x) (\<lambda>v. unwrap_or v [] @ [x]) m else m) xs m)
      \<and> (\<forall>e\<in>set (fold (\<lambda>x m. if oo_connection_id x = c then btree_entry (oo_native_id x) (\<lambda>v. unwrap_or v [] @ [x]) m else m) xs m). edits_ok c e)"
    for xs m
  proof (induction xs arbitrary: m)
    case (Cons x xs)
    let ?m = "if oo_connection_id x = c then btree_entry (oo_native_id x) (\<lambda>v. unwrap_or v [] @ [x]) m else m"
    have "key_sorted ?m \<and> (\<forall>e\<in>set ?m. edits_ok c e)"
      using Cons.prems edits_ok_entry[of m c x] by (simp add: key_sorted_btree_entry)
    then show ?case using Cons.IH[of ?m] by simp
  qed simp
  from this[of "[]" "list_pending db"] show ?thesis by (simp add: pending_for_connection_def)
qed

lemma projected_pending_identity:
  assumes "projected_pending C provider pending = Inr ts" "\<forall>e\<in>set pending. edits_ok c e" "codec_ids C c"
  shows "map apt_native_id ts = map fst pending \<and> (\<forall>t\<in>set ts. of_connection c t)"
  using assms(1,2)
proof (induction pending arbitrary: ts)
  case (Cons e pending)
  obtain n edits where e: "e = (n, edits)" by force
  then obtain x xs where x: "edits = x # xs" "oo_connection_id x = c" "oo_native_id x = n"
    using Cons.prems(2) by (cases edits) (auto simp: edits_ok_def)
  obtain remote t ts' where t: "project_ticket C remote (x # xs) = Inr t" "projected_pending C provider pending = Inr ts'" "ts = t # ts'"
    using Cons.prems(1) by (auto simp: e x(1) result_bind_eq_Inr Let_def)
  show ?case using project_ticket_identity[OF t(1) assms(3) x(2,3)] Cons.IH[OF t(2)] Cons.prems(2) by (simp add: t(3) e)
qed simp

subsection \<open>The merged page\<close>

lemma compare_unbounded [simp]: "compare_tickets (unbounded_query q) = compare_tickets q"
  by (simp add: compare_tickets_def unbounded_query_def fun_eq_iff)

lemma after_unbounded [simp]: "after_matches after (unbounded_query q) = after_matches after q"
  by (simp add: after_matches_def unbounded_query_def fun_eq_iff is_none_or_def split: option.splits)

lemma unbounded_limit [simp]: "q_limit (unbounded_query q) = None"
  by (simp add: unbounded_query_def)

lemma sort_by_perm:
  assumes "mset xs = mset ys" "distinct (map apt_qualified_id xs)"
  shows "sort_by (compare_tickets q) xs = sort_by (compare_tickets q) ys"
proof -
  have s: "sorted_by (compare_tickets q) (sort_by (compare_tickets q) ys)" by (rule tk.sorted_sort_by) simp
  have "distinct (map apt_qualified_id (sort_by (compare_tickets q) ys))"
    using assms by (metis distinct_map_sort_by mset_eq_imp_distinct_iff mset_map)
  then show ?thesis using tk.sort_by_unique[OF s, of xs] assms(1) by simp
qed

lemma sort_of_sorted_filter:
  assumes "distinct (map apt_qualified_id xs)"
  shows "sort_by (compare_tickets q) (filter Q (sort_by (compare_tickets q) xs)) = filter Q (sort_by (compare_tickets q) xs)"
    "filter Q (sort_by (compare_tickets q) xs) = sort_by (compare_tickets q) (filter Q xs)"
proof -
  have s: "sorted_by (compare_tickets q) (filter Q (sort_by (compare_tickets q) xs))"
    using tk.sorted_sort_by[of xs q] unfolding sorted_by_def by (intro sorted_wrt_filter) simp
  then show "sort_by (compare_tickets q) (filter Q (sort_by (compare_tickets q) xs)) = filter Q (sort_by (compare_tickets q) xs)"
    by (rule tk.sort_by_sorted_id)
  show "filter Q (sort_by (compare_tickets q) xs) = sort_by (compare_tickets q) (filter Q xs)"
  proof (rule tk.sort_by_unique[symmetric, OF s])
    show "distinct (map apt_qualified_id (filter Q (sort_by (compare_tickets q) xs)))"
      using assms by (simp add: distinct_map_filter)
  qed simp_all
qed

lemma matching_unbounded_ids:
  "distinct (map apt_qualified_id rows) \<Longrightarrow> distinct (map apt_qualified_id (matching P q after rows))"
  unfolding matching_def by (intro distinct_map_filter) (simp add: comp_def)

lemma matching_selected:
  assumes "set xs \<subseteq> set (matching P q after rows)" shows "matching P q after xs = xs"
proof -
  have "refresh_review P x = x \<and> provider_matches q x \<and> after_matches after q x" if "x \<in> set xs" for x
    using assms that by (auto simp: matching_def)
  then have "map (refresh_review P) xs = xs" "filter (provider_matches q) xs = xs" "filter (after_matches after q) xs = xs"
    by (simp_all add: map_idI filter_id_conv)
  then show ?thesis by (simp add: matching_def)
qed

lemma matching_filter_native:
  "matching P q after (filter (\<lambda>t. Q (apt_native_id t)) rows) = filter (\<lambda>t. Q (apt_native_id t)) (matching P q after rows)"
  by (induction rows) (auto simp: matching_def)

lemma connection_ids_distinct:
  assumes "\<forall>t\<in>set rows. of_connection c t" "distinct (map apt_native_id rows)"
  shows "distinct (map apt_qualified_id rows)"
  using assms by (auto simp: distinct_map of_connection_def inj_on_def)

text \<open>The contract of a provider's keyset read: the page cut from its complete result.\<close>

definition tracker_lists :: "platform \<Rightarrow> overlay_provider \<Rightarrow> api_ticket list \<Rightarrow> bool" where
  "tracker_lists P provider rows =
     (\<forall>q after limit. q_limit q = None \<longrightarrow>
        op_query_after provider q after None limit = Inr (keyset_page_from_rows (filter_provider_ticket_page P rows q) q after limit))"

lemma page_of_rows:
  fixes rows :: "'a api_ticket_scheme list"
  assumes "q_limit q' = None" "q_sort q' = q_sort q \<and> q_descending q' = q_descending q" "\<forall>t\<in>set rows. of_connection c t"
    "distinct (map apt_native_id rows)"
  shows "keyset_page_from_rows (filter_provider_ticket_page P rows q') q after limit
    = (map (\<lambda>t. (t, None)) (take limit (sort_by (compare_tickets q) (matching P q' after rows))),
       length (matching P q' after rows) \<le> limit)"
proof -
  have d: "distinct (map apt_qualified_id (matching P q' None rows))"
    by (rule matching_unbounded_ids[OF connection_ids_distinct[OF assms(3,4)]])
  have "(compare_tickets q' :: 'a api_ticket_scheme \<Rightarrow> _) = compare_tickets q"
    using assms(2) by (simp add: compare_tickets_def fun_eq_iff)
  moreover have aeq: "(after_matches after q' :: 'a api_ticket_scheme \<Rightarrow> _) = after_matches after q"
    using assms(2) by (simp add: after_matches_def fun_eq_iff)
  ultimately have "filter_provider_ticket_page P rows q' = sort_by (compare_tickets q) (matching P q' None rows)"
    using page_filter_sorts[OF assms(1,3)] by simp
  moreover have "filter (after_matches after q) (matching P q' None rows) = matching P q' after rows"
    using matching_after[of after q' P rows] aeq by simp
  ultimately show ?thesis
    using sort_of_sorted_filter[OF d, where q = q and Q = "after_matches after q"] by (simp add: keyset_page_from_rows_def Let_def)
qed

lemma pending_rows_few:
  assumes "distinct (map apt_native_id rows)"
  shows "length (filter (\<lambda>t. \<not> map_of pending (apt_native_id t) = None) rows) \<le> length pending"
proof -
  let ?xs = "filter (\<lambda>t. \<not> map_of pending (apt_native_id t) = None) rows"
  have "length ?xs = card (apt_native_id ` set ?xs)"
    using distinct_map_filter[OF assms, of "\<lambda>t. \<not> map_of pending (apt_native_id t) = None"]
    by (metis (no_types, lifting) distinct_card length_map set_map)
  also have "\<dots> \<le> card (fst ` set pending)"
    by (rule card_mono) (auto simp: map_of_eq_None_iff)
  also have "\<dots> \<le> length pending" by (metis card_length length_map set_map)
  finally show ?thesis .
qed

lemma merged_candidates:
  fixes native edited rows :: "api_ticket list"
  assumes "\<forall>t\<in>set rows. of_connection c t" "distinct (map apt_native_id rows)" "q_limit q = None"
    "S = sort_by (compare_tickets q) (matching P q after rows)"
    "native = filter (\<lambda>t. map_of pending (apt_native_id t) = None) (take (limit + length pending + 1) S)"
    "map apt_native_id edited = map fst pending" "\<forall>t\<in>set edited. of_connection c t" "distinct (map fst pending)"
  shows "fold (retain_candidate P q after limit) edited (fold (retain_candidate P q after limit) native [])
    = take (limit + 1) (sort_by (compare_tickets q)
        (matching P q after (filter (\<lambda>t. map_of pending (apt_native_id t) = None) rows @ edited)))"
proof -
  let ?cmp = "compare_tickets q" and ?np = "\<lambda>t. map_of pending (apt_native_id t) = None" and ?m = "limit + 1"
  let ?A = "matching P q after rows" and ?B = "matching P q after edited"
  have dq: "distinct (map apt_qualified_id ?A)" by (rule matching_unbounded_ids[OF connection_ids_distinct[OF assms(1,2)]])
  have ids: "map apt_native_id (matching P q after xs) = map apt_native_id (filter (\<lambda>t. provider_matches q (refresh_review P t) \<and> after_matches after q t) xs)"
    for xs :: "api_ticket list" by (induction xs) (auto simp: matching_def)
  have dn: "distinct (map apt_native_id S)" unfolding assms(4) distinct_map_sort_by ids using assms(2) by (rule distinct_map_filter)
  have sub: "set native \<subseteq> set ?A" unfolding assms(5,4) using set_take_subset by fastforce
  have sortedS: "sorted_by ?cmp S" unfolding assms(4) by (rule tk.sorted_sort_by) simp
  have "sorted_by ?cmp native" using sortedS unfolding assms(5) sorted_by_def by (intro sorted_wrt_filter sorted_wrt_take)
  moreover have "distinct (map apt_qualified_id native)"
    unfolding assms(5,4) by (intro distinct_map_filter) (metis dq distinct_map_sort_by distinct_take take_map)
  ultimately have srev: "sort_by ?cmp (rev native) = native" by (intro tk.sort_by_unique) simp_all
  have few: "length (filter (\<lambda>t. \<not> ?np t) S) \<le> length pending" by (rule pending_rows_few[OF dn])
  have "take ?m native = take ?m (filter ?np S)"
    unfolding assms(5) using take_filter_take[OF few, of ?m] by (simp add: add.commute add.left_commute)
  moreover have "sort_by ?cmp (filter ?np S) = filter ?np S"
    unfolding assms(4) by (rule sort_of_sorted_filter(1)[OF dq])
  ultimately have top: "take ?m (sort_by ?cmp (rev ?B @ rev native)) = take ?m (sort_by ?cmp (rev ?B @ filter ?np S))"
    by (intro take_sort_append) (simp add: srev)
  have "fold (retain_candidate P q after limit) native [] = take ?m (sort_by ?cmp (rev native @ []))"
    using fold_retain[OF assms(3), of "[]" limit "[]" P after native] matching_selected[OF sub] by simp
  from fold_retain[OF assms(3) this, of P after edited]
  have "fold (retain_candidate P q after limit) edited (fold (retain_candidate P q after limit) native [])
      = take ?m (sort_by ?cmp (rev ?B @ filter ?np S))" using top by simp
  moreover have "sort_by ?cmp (rev ?B @ filter ?np S) = sort_by ?cmp (matching P q after (filter ?np rows @ edited))"
  proof (rule sort_by_perm[symmetric])
    show "mset (matching P q after (filter ?np rows @ edited)) = mset (rev ?B @ filter ?np S)"
      using matching_filter_native[of P q after "\<lambda>n. map_of pending n = None" rows] by (simp add: assms(4))
    have "apt_native_id ` set edited = fst ` set pending" using assms(6) by (metis set_map)
    then have "set (map apt_native_id (filter ?np rows)) \<inter> set (map apt_native_id edited) = {}"
      by (auto simp: map_of_eq_None_iff)
    then have "distinct (map apt_native_id (filter ?np rows @ edited))"
      using assms(2,6,8) by (simp add: distinct_map_filter)
    moreover have "\<forall>t\<in>set (filter ?np rows @ edited). of_connection c t" using assms(1,7) by auto
    ultimately show "distinct (map apt_qualified_id (matching P q after (filter ?np rows @ edited)))"
      by (intro matching_unbounded_ids connection_ids_distinct)
  qed
  ultimately show ?thesis by simp
qed

subsection \<open>Properties\<close>


subsection \<open>Witness\<close>

definition demo_rows :: "api_ticket list" where
  "demo_rows = [demo_listed ''7'' ''a'', demo_listed ''8'' ''b'']"

definition demo_list_codec :: ticket_codec where
  "demo_list_codec =
     \<lparr>tc_platform = demo,
      tc_to_value = (\<lambda>t. JObject [(''connection_id'', JString (apt_connection_id t)), (''native_id'', JString (apt_native_id t)),
                                  (''title'', JString (apt_title t))]),
      tc_from_value = (\<lambda>v. case (Option.bind (json_get ''native_id'' v) as_str, Option.bind (json_get ''title'' v) as_str) of
         (Some n, Some title) \<Rightarrow> Inr (demo_listed n title) | _ \<Rightarrow> Inl ''missing field'')\<rparr>"

definition demo_lister :: overlay_provider where
  "demo_lister =
     \<lparr>op_connection = ''j'',
      op_get = (\<lambda>n. case List.find (\<lambda>t. apt_native_id t = n) demo_rows of Some t \<Rightarrow> Inr t | None \<Rightarrow> Inl (PeNotFound ''j'' n)),
      op_query = (\<lambda>q. Inr (filter_provider_ticket_page demo demo_rows q)),
      op_query_after = (\<lambda>q after _ limit. Inr (keyset_page_from_rows (filter_provider_ticket_page demo demo_rows q) q after limit)),
      op_query_page = (\<lambda>q _ _. Inr (demo_rows, None))\<rparr>"


end
