(* ===== verification/Permission_Pattern.thy ===== *)
theory Permission_Pattern
  imports Rust_Str Str_Facts
begin

text \<open>
  Reviewed permission matchers (\<open>permission_pattern.rs\<close>): templates with placeholders and constrained
  regular expressions, both compiled to one anchored regular expression.  The regular-expression
  library is a parameter; the part of its documented syntax that the compiler produces is the
  datatype \<open>rx_piece\<close> with its source text and its meaning.
\<close>

subsection \<open>Patterns\<close>

datatype pattern_kind = TemplateKind | RegexKind

record pattern_spec =
  ps_version :: nat
  ps_kind :: pattern_kind
  ps_expression :: string

record regex_lib =
  rx_escape :: "string \<Rightarrow> string"
  rx_build :: "string \<Rightarrow> (string \<Rightarrow> bool) option"

definition PATTERN_VERSION :: nat where "PATTERN_VERSION = 1"
definition MAX_EXPRESSION_BYTES :: nat where "MAX_EXPRESSION_BYTES = 1024"
definition MAX_ACTION_BYTES :: nat where "MAX_ACTION_BYTES = 16 * 1024"
definition MIN_LITERAL_BYTES :: nat where "MIN_LITERAL_BYTES = 8"
definition MAX_PLACEHOLDERS :: nat where "MAX_PLACEHOLDERS = 4"

definition pattern_identity :: "pattern_spec \<Rightarrow> string" where
  "pattern_identity p =
     ''pattern:v'' @ show_nat (ps_version p) @ '':''
     @ (case ps_kind p of TemplateKind \<Rightarrow> ''template'' | RegexKind \<Rightarrow> ''regex'') @ '':'' @ ps_expression p"

abbreviation rx_open :: string where "rx_open \<equiv> [CHR 92, CHR ''A'', CHR ''('', CHR ''?'', CHR '':'']"
abbreviation rx_close :: string where "rx_close \<equiv> [CHR '')'', CHR 92, CHR ''z'']"

subsection \<open>Templates\<close>

definition update_quote_state :: "string \<Rightarrow> char option \<Rightarrow> char option" where
  "update_quote_state literal quote =
     fold (\<lambda>ch q.
         if ch = CHR 39 \<or> ch = CHR 34
         then (case q of Some opened \<Rightarrow> if opened = ch then None else q | None \<Rightarrow> Some ch)
         else q) literal quote"

definition token_class :: string where "token_class = ''A-Za-z0-9_./:@%+=,-''"
definition quoted_class :: string where "quoted_class = ''A-Za-z0-9_./:@%+=, -''"

definition bounded_source :: "string \<Rightarrow> string \<Rightarrow> string \<Rightarrow> string" where
  "bounded_source cls lo hi = ''['' @ cls @ '']{'' @ lo @ '','' @ hi @ ''}''"

definition placeholder_source :: "string \<Rightarrow> char option \<Rightarrow> string + string" where
  "placeholder_source name quote =
     (if name = ''token'' then Inr (bounded_source token_class ''1'' ''128'')
      else if name = ''quoted''
      then (if quote \<noteq> None then Inr (bounded_source quoted_class ''1'' ''128'')
            else Inl ''quoted permission placeholder must be inside quotes'')
      else Inl ''unsupported permission placeholder'')"

definition template_end ::
  "regex_lib \<Rightarrow> string \<Rightarrow> string \<Rightarrow> nat \<Rightarrow> nat \<Rightarrow> char option \<Rightarrow> string + string" where
  "template_end R remaining source literal_bytes placeholders quote =
     (if contains_sub ''}}'' remaining then Inl ''invalid permission placeholder''
      else if update_quote_state remaining quote \<noteq> None then Inl ''unclosed quote in permission template''
      else if placeholders = 0 \<or> placeholders > MAX_PLACEHOLDERS
           \<or> literal_bytes + length remaining < MIN_LITERAL_BYTES
      then Inl ''permission placeholder is too broad''
      else Inr (source @ rx_escape R remaining @ rx_close))"

function template_loop ::
  "regex_lib \<Rightarrow> string \<Rightarrow> string \<Rightarrow> nat \<Rightarrow> nat \<Rightarrow> char option \<Rightarrow> string + string" where
  "template_loop R remaining source literal_bytes placeholders quote =
     (case find_sub ''{{'' remaining of
        None \<Rightarrow> template_end R remaining source literal_bytes placeholders quote
      | Some opened \<Rightarrow>
          let literal = take opened remaining; tail = drop (opened + 2) remaining;
              quote' = update_quote_state literal quote in
          if contains_sub ''}}'' literal then Inl ''invalid permission placeholder''
          else case find_sub ''}}'' tail of
              None \<Rightarrow> Inl ''unclosed permission placeholder''
            | Some close \<Rightarrow>
                (case placeholder_source (take close tail) quote' of
                   Inl e \<Rightarrow> Inl e
                 | Inr cls \<Rightarrow>
                     template_loop R (drop (close + 2) tail) (source @ rx_escape R literal @ cls)
                       (literal_bytes + length literal) (placeholders + 1) quote'))"
  by pat_completeness auto
termination
proof (relation "measure (\<lambda>(R, remaining, source, literal_bytes, placeholders, quote). length remaining)")
  fix remaining tail :: string and opened close :: nat
  assume "find_sub ''{{'' remaining = Some opened" and tail: "tail = drop (opened + 2) remaining"
  then obtain t where "remaining = take opened remaining @ ''{{'' @ t" using find_sub_Some by blast
  from arg_cong[OF this, of length] have "2 \<le> length remaining" by simp
  then have "length (drop (close + 2) tail) < length remaining" using tail by simp
  then show "((R, drop (close + 2) tail, source', lits', n', quote'), R, remaining, source, lits, n, quote)
      \<in> measure (\<lambda>(R, remaining, source, literal_bytes, placeholders, quote). length remaining)"
    for R :: regex_lib and source source' :: string and lits lits' n n' :: nat and quote quote' :: "char option"
    by simp
qed simp

declare template_loop.simps [simp del]

definition template_regex :: "regex_lib \<Rightarrow> string \<Rightarrow> string + string" where
  "template_regex R expression = template_loop R expression rx_open 0 0 None"

subsection \<open>Constrained regular expressions\<close>

definition parse_usize :: "string \<Rightarrow> nat option" where
  "parse_usize s =
     Option.bind (parse_digits (case s of c # cs \<Rightarrow> if c = CHR ''+'' then cs else s | [] \<Rightarrow> s))
       (\<lambda>n. if n < 2 ^ 64 then Some n else None)"

lemma parse_usize_code [code]:
  "parse_usize s =
     Option.bind (parse_digits (case s of c # cs \<Rightarrow> if c = CHR ''+'' then cs else s | [] \<Rightarrow> s))
       (\<lambda>n. if int n < 18446744073709551616 then Some n else None)"
  unfolding parse_usize_def by (intro arg_cong2[of _ _ _ _ Option.bind] ext refl) auto

fun replace_sub :: "string \<Rightarrow> string \<Rightarrow> string" where
  "replace_sub p [] = []"
| "replace_sub p (c # cs) =
     (if starts_with p (c # cs) \<and> p \<noteq> [] then replace_sub p (drop (length p - 1) cs) else c # replace_sub p cs)"

definition class_ok :: "string \<Rightarrow> bool" where
  "class_ok cls =
     (let range_remainder = replace_sub ''0-9'' (replace_sub ''a-z'' (replace_sub ''A-Z'' cls)) in
      cls \<noteq> [] \<and> \<not> starts_with ''^'' cls \<and> length cls \<le> 80
      \<and> list_all (\<lambda>c. is_ascii_alnum c \<or> c \<in> set ''_./:-'') cls
      \<and> \<not> (contains_sub ''-'' range_remainder \<and> \<not> ends_with ''-'' range_remainder))"

definition range_ok :: "string \<Rightarrow> string + unit" where
  "range_ok bounds =
     (case split_once '','' bounds of
        None \<Rightarrow> Inl ''permission regex needs a bounded range''
      | Some (lo, hi) \<Rightarrow>
          (case (parse_usize lo, parse_usize hi) of
             (Some m, Some n) \<Rightarrow>
               if m = 0 \<or> m > n \<or> n > 128 then Inl ''permission regex range is too broad'' else Inr ()
           | _ \<Rightarrow> Inl ''invalid permission regex range''))"

text \<open>Up to the first \<open>stop\<close>, and what follows it: \<open>for x in chars.by_ref() { if x == stop { break } .. }\<close>.\<close>

definition until_char :: "char \<Rightarrow> string \<Rightarrow> string \<times> string" where
  "until_char stop s = (takeWhile (\<lambda>c. c \<noteq> stop) s, drop 1 (dropWhile (\<lambda>c. c \<noteq> stop) s))"

lemma until_char_shorter: "length (snd (until_char stop s)) \<le> length s"
  by (simp add: until_char_def) (metis diff_le_self le_trans length_dropWhile_le)

function regex_loop :: "string \<Rightarrow> nat \<Rightarrow> bool \<Rightarrow> string + (nat \<times> bool)" where
  "regex_loop [] prefix_bytes has_class = Inr (prefix_bytes, has_class)"
| "regex_loop (ch # cs) prefix_bytes has_class =
     (if ch = CHR ''['' then
        (case snd (until_char (CHR '']'') cs) of
           [] \<Rightarrow> Inl ''permission regex needs a bounded character class''
         | brace # rest \<Rightarrow>
             if brace \<noteq> CHR ''{'' \<or> \<not> class_ok (fst (until_char (CHR '']'') cs))
             then Inl ''permission regex needs a bounded character class''
             else (case range_ok (fst (until_char (CHR ''}'') rest)) of
                     Inl e \<Rightarrow> Inl e
                   | Inr _ \<Rightarrow> regex_loop (snd (until_char (CHR ''}'') rest)) prefix_bytes True))
      else if ch = CHR 92 then
        (case cs of
           [] \<Rightarrow> Inl ''invalid permission regex escape''
         | escaped # rest \<Rightarrow>
             if escaped \<notin> set (''.[]{}()^$?+*|'' @ [CHR 92]) then Inl ''unsupported permission regex escape''
             else regex_loop rest (if has_class then prefix_bytes else prefix_bytes + 1) has_class)
      else if ch \<in> set ''.?*+|(){}^$]'' then Inl ''permission regex is too broad''
      else regex_loop cs (if has_class then prefix_bytes else prefix_bytes + 1) has_class)"
  by pat_completeness auto
termination
proof (relation "measure (\<lambda>(s, prefix_bytes, has_class). length s)")
  fix ch brace :: char and cs rest :: string and pre :: nat and has :: bool
  assume "snd (until_char (CHR '']'') cs) = brace # rest"
  then have "Suc (length rest) \<le> length cs" using until_char_shorter[of "CHR '']''" cs] by simp
  moreover have "length (snd (until_char (CHR ''}'') rest)) \<le> length rest" by (rule until_char_shorter)
  ultimately show "((snd (until_char (CHR ''}'') rest), pre, True), ch # cs, pre, has)
      \<in> measure (\<lambda>(s, prefix_bytes, has_class). length s)" by simp
qed auto

declare regex_loop.simps [simp del]

definition constrained_regex :: "string \<Rightarrow> string + string" where
  "constrained_regex expression =
     (if \<not> starts_with ''^'' expression \<or> \<not> ends_with ''$'' expression \<or> length expression < 10
      then Inl ''permission regex must anchor the whole action''
      else let body = take (length expression - 2) (drop 1 expression) in
        (case regex_loop body 0 False of
           Inl e \<Rightarrow> Inl e
         | Inr (prefix_bytes, has_class) \<Rightarrow>
             if \<not> has_class \<or> prefix_bytes < MIN_LITERAL_BYTES
             then Inl ''permission regex needs a literal prefix''
             else Inr (rx_open @ body @ rx_close)))"

definition pattern_compile :: "regex_lib \<Rightarrow> pattern_spec \<Rightarrow> string + (string \<Rightarrow> bool)" where
  "pattern_compile R p =
     result_bind (case ps_kind p of
         TemplateKind \<Rightarrow> template_regex R (ps_expression p)
       | RegexKind \<Rightarrow> constrained_regex (ps_expression p)) (\<lambda>source.
       case rx_build R source of
         None \<Rightarrow> Inl ''invalid or overly complex permission pattern''
       | Some m \<Rightarrow> Inr m)"

definition pattern_validate :: "regex_lib \<Rightarrow> pattern_spec \<Rightarrow> string \<Rightarrow> string + unit" where
  "pattern_validate R p original_action =
     (if ps_version p \<noteq> PATTERN_VERSION then Inl ''unsupported permission pattern version''
      else if ps_expression p = [] \<or> length (ps_expression p) > MAX_EXPRESSION_BYTES
           \<or> length original_action > MAX_ACTION_BYTES
      then Inl ''permission pattern or action exceeds size limit''
      else result_bind (pattern_compile R p) (\<lambda>m.
        if \<not> m original_action then Inl ''permission pattern must match the reviewed action'' else Inr ()))"

definition pattern_matches :: "regex_lib \<Rightarrow> pattern_spec \<Rightarrow> string \<Rightarrow> bool" where
  "pattern_matches R p action =
     (ps_version p = PATTERN_VERSION \<and> length (ps_expression p) \<le> MAX_EXPRESSION_BYTES
      \<and> length action \<le> MAX_ACTION_BYTES
      \<and> (case pattern_compile R p of Inl _ \<Rightarrow> False | Inr m \<Rightarrow> m action))"

text \<open>The limits compare as integers when the definitions are evaluated.\<close>

lemma pattern_limits [code]:
  "pattern_validate R p original_action =
     (if ps_version p \<noteq> PATTERN_VERSION then Inl ''unsupported permission pattern version''
      else if ps_expression p = [] \<or> int (length (ps_expression p)) > 1024 \<or> int (length original_action) > 16384
      then Inl ''permission pattern or action exceeds size limit''
      else result_bind (pattern_compile R p) (\<lambda>m.
        if \<not> m original_action then Inl ''permission pattern must match the reviewed action'' else Inr ()))"
  "pattern_matches R p action =
     (ps_version p = PATTERN_VERSION \<and> int (length (ps_expression p)) \<le> 1024 \<and> int (length action) \<le> 16384
      \<and> (case pattern_compile R p of Inl _ \<Rightarrow> False | Inr m \<Rightarrow> m action))"
  by (simp_all add: pattern_validate_def pattern_matches_def MAX_EXPRESSION_BYTES_def MAX_ACTION_BYTES_def)

subsection \<open>The documented syntax\<close>

text \<open>\<open>Escaped s\<close> is the library's escape of \<open>s\<close>, \<open>Plain c\<close> a character that is no metacharacter,
  \<open>Backslashed c\<close> an escaped metacharacter, \<open>Bounded cls lo hi\<close> the class \<open>[cls]{lo,hi}\<close> and
  \<open>Unclosed s\<close> a class whose repetition is never closed, for which the library builds no matcher.\<close>

datatype rx_piece = Escaped string | Plain char | Backslashed char | Bounded string string string | Unclosed string

primrec piece_source :: "regex_lib \<Rightarrow> rx_piece \<Rightarrow> string" where
  "piece_source R (Escaped s) = rx_escape R s"
| "piece_source R (Plain c) = [c]"
| "piece_source R (Backslashed c) = [CHR 92, c]"
| "piece_source R (Bounded cls lo hi) = bounded_source cls lo hi"
| "piece_source R (Unclosed s) = s"

text \<open>The members of a class: ranges \<open>x-y\<close> and single characters.\<close>

fun class_has :: "string \<Rightarrow> char \<Rightarrow> bool" where
  "class_has [] c = False"
| "class_has [x] c = (c = x)"
| "class_has [x, y] c = (c = x \<or> c = y)"
| "class_has (x # d # y # r) c =
     (if d = CHR ''-'' then of_char x \<le> (of_char c :: nat) \<and> of_char c \<le> (of_char y :: nat) \<or> class_has r c
      else c = x \<or> class_has (d # y # r) c)"

fun pieces_match :: "rx_piece list \<Rightarrow> string \<Rightarrow> bool" where
  "pieces_match [] s = (s = [])"
| "pieces_match (Escaped l # ps) s = (starts_with l s \<and> pieces_match ps (drop (length l) s))"
| "pieces_match (Plain c # ps) s = (s \<noteq> [] \<and> hd s = c \<and> pieces_match ps (tl s))"
| "pieces_match (Backslashed c # ps) s = (s \<noteq> [] \<and> hd s = c \<and> pieces_match ps (tl s))"
| "pieces_match (Bounded cls lo hi # ps) s =
     list_ex (\<lambda>k. k \<le> length s \<and> list_all (class_has cls) (take k s) \<and> pieces_match ps (drop k s))
       [the (parse_usize lo)..<Suc (the (parse_usize hi))]"
| "pieces_match (Unclosed t # ps) s = False"

text \<open>The library builds a matcher for the anchored pieces with their meaning, if it builds one.\<close>

definition rx_agrees :: "regex_lib \<Rightarrow> rx_piece list \<Rightarrow> bool" where
  "rx_agrees R ps =
     (\<forall>m. rx_build R (rx_open @ concat (map (piece_source R) ps) @ rx_close) = Some m \<longrightarrow> m = pieces_match ps)"

subsection \<open>Templates as literals and placeholders\<close>

fun weave :: "string list \<Rightarrow> string list \<Rightarrow> string" where
  "weave (l # ls) (v # vs) = l @ v @ weave ls vs"
| "weave ls vs = concat ls @ concat vs"

definition placeholder :: "string \<Rightarrow> string" where
  "placeholder name = ''{{'' @ name @ ''}}''"

text \<open>The literals of a template and the names of the placeholders between them.\<close>

function template_parts :: "string \<Rightarrow> string list \<times> string list" where
  "template_parts remaining =
     (case find_sub ''{{'' remaining of
        None \<Rightarrow> ([remaining], [])
      | Some i \<Rightarrow>
          let tail = drop (i + 2) remaining in
          (case find_sub ''}}'' tail of
             None \<Rightarrow> ([remaining], [])
           | Some j \<Rightarrow> (case template_parts (drop (j + 2) tail) of
                          (ls, ks) \<Rightarrow> (take i remaining # ls, take j tail # ks))))"
  by pat_completeness auto
termination
proof (relation "measure length")
  fix remaining tail :: string and i j :: nat
  assume "find_sub ''{{'' remaining = Some i" and tail: "tail = drop (i + 2) remaining"
  then obtain t where "remaining = take i remaining @ ''{{'' @ t" using find_sub_Some by blast
  from arg_cong[OF this, of length] have "2 \<le> length remaining" by simp
  then show "(drop (j + 2) tail, remaining) \<in> measure length" using tail by simp
qed simp

declare template_parts.simps [simp del]

definition class_of :: "string \<Rightarrow> string" where
  "class_of name = (if name = ''quoted'' then quoted_class else token_class)"

fun weave_pieces :: "string list \<Rightarrow> string list \<Rightarrow> rx_piece list" where
  "weave_pieces (l # ls) (k # ks) = Escaped l # Bounded (class_of k) ''1'' ''128'' # weave_pieces ls ks"
| "weave_pieces ls ks = map Escaped ls"

definition template_pieces :: "string \<Rightarrow> rx_piece list" where
  "template_pieces expression = (case template_parts expression of (ls, ks) \<Rightarrow> weave_pieces ls ks)"

text \<open>What may stand for a placeholder.\<close>

definition fits :: "string \<Rightarrow> string \<Rightarrow> bool" where
  "fits name v =
     (1 \<le> length v \<and> length v \<le> 128
      \<and> list_all (\<lambda>c. is_ascii_alnum c \<or> c \<in> set ''_./:@%+=,-'' \<or> name = ''quoted'' \<and> c = CHR '' '') v)"

lemma template_parts_step:
  assumes "find_sub ''{{'' s = Some i" "find_sub ''}}'' (drop (i + 2) s) = Some j"
    "template_parts (drop (j + 2) (drop (i + 2) s)) = (ls, ks)"
  shows "template_parts s = (take i s # ls, take j (drop (i + 2) s) # ks)"
  by (subst template_parts.simps) (simp only: assms Let_def option.case prod.case)

lemma template_parts_weave:
  "template_parts s = (ls, ks) \<Longrightarrow> s = weave ls (map placeholder ks) \<and> length ls = Suc (length ks)"
proof (induction s arbitrary: ls ks rule: template_parts.induct)
  case (1 s)
  show ?case
  proof (cases "find_sub ''{{'' s")
    case None
    then show ?thesis using 1(2) by (subst (asm) template_parts.simps) auto
  next
    case (Some i)
    let ?tail = "drop (i + 2) s"
    have s: "s = take i s @ ''{{'' @ ?tail" using find_sub_split[OF Some] by simp
    show ?thesis
    proof (cases "find_sub ''}}'' ?tail")
      case None
      then show ?thesis using 1(2) Some by (subst (asm) template_parts.simps) (auto simp: Let_def)
    next
      case close: (Some j)
      let ?rest = "drop (j + 2) ?tail"
      have tail: "?tail = take j ?tail @ ''}}'' @ ?rest" using find_sub_split[OF close] by simp
      obtain ls' ks' where r: "template_parts ?rest = (ls', ks')" by force
      then have lk: "ls = take i s # ls'" "ks = take j ?tail # ks'"
        using 1(2) template_parts_step[OF Some close] by auto
      have rest: "?rest = weave ls' (map placeholder ks')" "length ls' = Suc (length ks')"
        using 1(1)[OF Some refl close r] by simp_all
      have "weave ls (map placeholder ks) = take i s @ ''{{'' @ take j ?tail @ ''}}'' @ weave ls' (map placeholder ks')"
        by (simp add: lk placeholder_def)
      also have "\<dots> = s" by (simp only: rest(1)[symmetric] tail[symmetric] s[symmetric])
      finally show ?thesis using lk rest(2) by simp
    qed
  qed
qed

lemma loop_parts:
  assumes "template_loop R s source lits n quote = Inr out" "template_parts s = (ls, ks)"
  shows "out = source @ concat (map (piece_source R) (weave_pieces ls ks)) @ rx_close
    \<and> set ks \<subseteq> {''token'', ''quoted''} \<and> 1 \<le> n + length ks \<and> n + length ks \<le> MAX_PLACEHOLDERS
    \<and> MIN_LITERAL_BYTES \<le> lits + sum_list (map length ls)"
  using assms
proof (induction R s source lits n quote arbitrary: ls ks rule: template_loop.induct)
  case (1 R s source lits n quote)
  show ?case
  proof (cases "find_sub ''{{'' s")
    case None
    then have lk: "ls = [s]" "ks = []" using 1(3) by (subst (asm) template_parts.simps, simp)+
    have "template_end R s source lits n quote = Inr out"
      using 1(2) None by (subst (asm) template_loop.simps) simp
    then show ?thesis using lk by (auto simp: template_end_def split: if_splits)
  next
    case (Some i)
    let ?tail = "drop (i + 2) s" and ?lit = "take i s"
    let ?q = "update_quote_state ?lit quote"
    obtain j cls where j: "find_sub ''}}'' ?tail = Some j" "\<not> contains_sub ''}}'' ?lit"
      and c: "placeholder_source (take j ?tail) ?q = Inr cls"
      and l: "template_loop R (drop (j + 2) ?tail) (source @ rx_escape R ?lit @ cls) (lits + length ?lit) (n + 1) ?q = Inr out"
      using 1(2) Some by (subst (asm) template_loop.simps) (auto simp: Let_def split: if_splits option.splits sum.splits)
    obtain ls' ks' where r: "template_parts (drop (j + 2) ?tail) = (ls', ks')" by force
    then have lk: "ls = ?lit # ls'" "ks = take j ?tail # ks'"
      using 1(3) template_parts_step[OF Some j(1)] by auto
    have name: "take j ?tail \<in> {''token'', ''quoted''}" "cls = bounded_source (class_of (take j ?tail)) ''1'' ''128''"
      using c by (auto simp: placeholder_source_def class_of_def split: if_splits)
    note IH = 1(1)[OF Some refl refl refl j(2,1) c l r]
    show ?thesis using IH lk name by auto
  qed
qed

lemma class_of_members:
  "class_has (class_of name) c \<longleftrightarrow>
     is_ascii_alnum c \<or> c \<in> set ''_./:@%+=,-'' \<or> name = ''quoted'' \<and> c = CHR '' ''"
  by (auto simp: class_of_def token_class_def quoted_class_def is_ascii_alnum_def is_ascii_upper_def
      is_ascii_lower_def is_ascii_digit_def Let_def)

lemma bounds_128: "the (parse_usize ''1'') = 1" "the (parse_usize ''128'') = 128"
  by (simp_all add: parse_usize_def parse_digits_def is_ascii_digit_def digit_value_def)

lemma weave_pieces_match:
  "length ls = Suc (length ks) \<Longrightarrow>
     pieces_match (weave_pieces ls ks) a \<longleftrightarrow> (\<exists>vs. list_all2 fits ks vs \<and> a = weave ls vs)"
proof (induction ks arbitrary: ls a)
  case Nil
  then obtain l where "ls = [l]" by (cases ls) auto
  then show ?case by (auto simp: starts_with_def)
next
  case (Cons k ks ls)
  obtain l ms where ls: "ls = l # ms" "length ms = Suc (length ks)" using Cons.prems by (cases ls) auto
  have fits: "fits k v \<longleftrightarrow> length v \<in> {1..<Suc 128} \<and> list_all (class_has (class_of k)) v" for v
    by (auto simp: fits_def class_of_members list_all_iff)
  show ?case
  proof
    assume "pieces_match (weave_pieces ls (k # ks)) a"
    then have "take (length l) a = l" and
      "\<exists>n\<in>{1..<Suc 128}. n \<le> length (drop (length l) a) \<and> list_all (class_has (class_of k)) (take n (drop (length l) a))
         \<and> pieces_match (weave_pieces ms ks) (drop n (drop (length l) a))"
      unfolding ls(1) by (simp_all add: starts_with_def bounds_128 list_ex_iff del: upt_Suc drop_drop length_drop)
    then obtain b n where a: "a = l @ b" and n: "n \<in> {1..<Suc 128}" "n \<le> length b" "list_all (class_has (class_of k)) (take n b)"
      and m: "pieces_match (weave_pieces ms ks) (drop n b)"
      by (metis append_take_drop_id)
    from m Cons.IH[OF ls(2)] obtain vs where "list_all2 fits ks vs" "drop n b = weave ms vs" by auto
    moreover have "fits k (take n b)" using n fits by simp
    ultimately show "\<exists>vs. list_all2 fits (k # ks) vs \<and> a = weave ls vs"
      using a ls(1) by (intro exI[of _ "take n b # vs"]) (simp, metis append_take_drop_id)
  next
    assume "\<exists>vs. list_all2 fits (k # ks) vs \<and> a = weave ls vs"
    then obtain v vs where v: "fits k v" "list_all2 fits ks vs" "a = l @ v @ weave ms vs"
      by (auto simp: list_all2_Cons1 ls(1))
    then have "pieces_match (weave_pieces ms ks) (weave ms vs)" using Cons.IH[OF ls(2)] by auto
    with v ls(1) show "pieces_match (weave_pieces ls (k # ks)) a"
      using fits[of v] by (auto simp: starts_with_def bounds_128 list_ex_iff simp del: upt_Suc intro!: bexI[of _ "length v"])
  qed
qed

text \<open>What compiles, matches as the pieces do.\<close>

lemma compile_template:
  assumes "pattern_compile R p = Inr m" "ps_kind p = TemplateKind" "rx_agrees R (template_pieces (ps_expression p))"
    "template_parts (ps_expression p) = (ls, ks)"
  shows "m = pieces_match (weave_pieces ls ks)" "set ks \<subseteq> {''token'', ''quoted''}"
    "1 \<le> length ks" "length ks \<le> MAX_PLACEHOLDERS" "MIN_LITERAL_BYTES \<le> sum_list (map length ls)"
proof -
  obtain source where t: "template_regex R (ps_expression p) = Inr source" and b: "rx_build R source = Some m"
    using assms(1,2) by (auto simp: pattern_compile_def result_bind_def split: sum.splits option.splits)
  note l = loop_parts[OF t[unfolded template_regex_def] assms(4)]
  from l b assms(3,4) show "m = pieces_match (weave_pieces ls ks)"
    unfolding rx_agrees_def template_pieces_def by simp
  from l show "set ks \<subseteq> {''token'', ''quoted''}" "1 \<le> length ks" "length ks \<le> MAX_PLACEHOLDERS"
    "MIN_LITERAL_BYTES \<le> sum_list (map length ls)" by auto
qed

lemma validate_compiles:
  "pattern_validate R p a = Inr () \<longleftrightarrow>
     ps_version p = PATTERN_VERSION \<and> ps_expression p \<noteq> [] \<and> length (ps_expression p) \<le> MAX_EXPRESSION_BYTES
     \<and> length a \<le> MAX_ACTION_BYTES \<and> (\<exists>m. pattern_compile R p = Inr m \<and> m a)"
  by (auto simp: pattern_validate_def result_bind_def split: sum.splits)

lemma rule_checks:
  assumes "ps_version p = 1" "ps_expression p \<noteq> []" "length (ps_expression p) \<le> 1024" "length a \<le> 16384"
    "case pattern_compile R p of Inl _ \<Rightarrow> False | Inr m \<Rightarrow> m a"
  shows "pattern_validate R p a = Inr ()" "pattern_matches R p a"
  using assms by (auto simp: validate_compiles pattern_matches_def PATTERN_VERSION_def MAX_EXPRESSION_BYTES_def
      MAX_ACTION_BYTES_def split: sum.splits)

lemma validated_matches: "pattern_validate R p a = Inr () \<Longrightarrow> pattern_matches R p a"
  by (auto simp: validate_compiles pattern_matches_def)

subsection \<open>Constrained expressions as pieces\<close>

text \<open>The pieces of a body that the checker accepts.\<close>

function regex_pieces :: "string \<Rightarrow> rx_piece list" where
  "regex_pieces [] = []"
| "regex_pieces (ch # cs) =
     (if ch = CHR ''['' then
        let rest = drop 1 (snd (until_char (CHR '']'') cs)) in
        (case split_once '','' (fst (until_char (CHR ''}'') rest)) of
           Some (lo, hi) \<Rightarrow>
             if CHR ''}'' \<in> set rest
             then Bounded (fst (until_char (CHR '']'') cs)) lo hi # regex_pieces (snd (until_char (CHR ''}'') rest))
             else [Unclosed (ch # cs)]
         | None \<Rightarrow> [Unclosed (ch # cs)])
      else if ch = CHR 92 \<and> cs \<noteq> [] then Backslashed (hd cs) # regex_pieces (tl cs)
      else Plain ch # regex_pieces cs)"
  by pat_completeness auto
termination
proof (relation "measure length")
  fix ch :: char and cs rest :: string
  assume "rest = drop 1 (snd (until_char (CHR '']'') cs))"
  moreover have "length (snd (until_char (CHR ''}'') rest)) \<le> length rest" by (rule until_char_shorter)
  ultimately show "(snd (until_char (CHR ''}'') rest), ch # cs) \<in> measure length"
    using until_char_shorter[of "CHR '']''" cs] by simp
qed auto

declare regex_pieces.simps [simp del]

definition is_literal :: "rx_piece \<Rightarrow> bool" where
  "is_literal q = (case q of Plain _ \<Rightarrow> True | Backslashed _ \<Rightarrow> True | _ \<Rightarrow> False)"

definition literal_char :: "rx_piece \<Rightarrow> char" where
  "literal_char q = (case q of Plain c \<Rightarrow> c | Backslashed c \<Rightarrow> c | _ \<Rightarrow> CHR 0x00)"

text \<open>The text that every match of a constrained expression starts with.\<close>

definition regex_body :: "string \<Rightarrow> string" where
  "regex_body expression = take (length expression - 2) (drop 1 expression)"

definition literal_prefix :: "string \<Rightarrow> string" where
  "literal_prefix expression = map literal_char (takeWhile is_literal (regex_pieces (regex_body expression)))"

lemma until_char_split: "stop \<in> set s \<Longrightarrow> s = fst (until_char stop s) @ stop # snd (until_char stop s)"
  by (induction s) (auto simp: until_char_def)

lemma until_char_more: "snd (until_char stop s) \<noteq> [] \<Longrightarrow> stop \<in> set s"
  by (induction s) (auto simp: until_char_def split: if_splits)

lemma pieces_prefix:
  "pieces_match qs a \<Longrightarrow> starts_with (map literal_char (takeWhile is_literal qs)) a"
proof (induction qs arbitrary: a)
  case (Cons q qs)
  show ?case using Cons.prems Cons.IH[of "tl a"]
    by (cases q; cases a) (auto simp: is_literal_def literal_char_def starts_with_def)
qed (simp add: starts_with_def)

lemma regex_loop_class:
  assumes "regex_loop (CHR ''['' # cs) n h = Inr out"
  obtains rest lo hi where "snd (until_char (CHR '']'') cs) = CHR ''{'' # rest"
    "split_once '','' (fst (until_char (CHR ''}'') rest)) = Some (lo, hi)"
    "class_ok (fst (until_char (CHR '']'') cs))"
    "regex_loop (snd (until_char (CHR ''}'') rest)) n True = Inr out"
  using assms by (subst (asm) regex_loop.simps)
    (auto simp: range_ok_def split: list.splits if_splits sum.splits option.splits)

lemma regex_loop_escape:
  assumes "regex_loop (CHR 92 # cs) n h = Inr out"
  obtains c t where "cs = c # t" "regex_loop t (if h then n else n + 1) h = Inr out"
  using assms by (subst (asm) regex_loop.simps) (auto split: list.splits if_splits)

lemma regex_loop_plain:
  assumes "regex_loop (c # cs) n h = Inr out" "c \<noteq> CHR ''[''" "c \<noteq> CHR 92"
  shows "regex_loop cs (if h then n else n + 1) h = Inr out"
  using assms by (subst (asm) regex_loop.simps) (auto split: if_splits)

lemma regex_loop_pieces:
  assumes "regex_loop s n h = Inr (n', h')"
  shows "concat (map (piece_source R) (regex_pieces s)) = s
    \<and> n' = n + (if h then 0 else length (takeWhile is_literal (regex_pieces s)))"
  using assms
proof (induction s arbitrary: n h rule: regex_pieces.induct)
  case 1
  then show ?case by (simp add: regex_loop.simps regex_pieces.simps)
next
  case (2 ch cs)
  consider (cls) "ch = CHR ''[''" | (esc) "ch = CHR 92" | (plain) "ch \<noteq> CHR ''[''" "ch \<noteq> CHR 92" by blast
  then show ?case
  proof cases
    case cls
    obtain rest lo hi where r: "snd (until_char (CHR '']'') cs) = CHR ''{'' # rest"
      and b: "split_once '','' (fst (until_char (CHR ''}'') rest)) = Some (lo, hi)"
      and l: "regex_loop (snd (until_char (CHR ''}'') rest)) n True = Inr (n', h')"
      using regex_loop_class 2(4) cls by metis
    have cs: "cs = fst (until_char (CHR '']'') cs) @ CHR '']'' # CHR ''{'' # rest"
      using until_char_split until_char_more r by (metis list.distinct(1))
    show ?thesis
    proof (cases "CHR ''}'' \<in> set rest")
      case True
      have p: "regex_pieces (ch # cs) = Bounded (fst (until_char (CHR '']'') cs)) lo hi # regex_pieces (snd (until_char (CHR ''}'') rest))"
        using True b r cls by (simp add: regex_pieces.simps)
      have IH: "concat (map (piece_source R) (regex_pieces (snd (until_char (CHR ''}'') rest)))) = snd (until_char (CHR ''}'') rest)" "n' = n"
        using 2(1)[OF cls _ b refl True l] r by simp_all
      have "rest = lo @ '','' @ hi @ CHR ''}'' # snd (until_char (CHR ''}'') rest)"
        using until_char_split[OF True] split_once_Some[OF b] by simp
      then have "ch # cs = bounded_source (fst (until_char (CHR '']'') cs)) lo hi @ snd (until_char (CHR ''}'') rest)"
        using cs cls by (simp add: bounded_source_def)
      then show ?thesis using p IH by (simp add: is_literal_def)
    next
      case False
      then have "until_char (CHR ''}'') rest = (rest, [])" using until_char_more[of "CHR ''}''" rest] by (auto simp: until_char_def takeWhile_eq_all_conv)
      with l have "n' = n" by (simp add: regex_loop.simps)
      then show ?thesis using False b r cls by (simp add: regex_pieces.simps is_literal_def)
    qed
  next
    case esc
    then obtain c t where "cs = c # t" "regex_loop t (if h then n else n + 1) h = Inr (n', h')"
      using 2(4) regex_loop_escape by metis
    then show ?thesis using 2(2)[of "if h then n else n + 1" h] esc
      by (auto simp: regex_pieces.simps is_literal_def split: if_splits)
  next
    case plain
    then show ?thesis using 2(3)[of "if h then n else n + 1" h] regex_loop_plain[OF 2(4) plain]
      by (auto simp: regex_pieces.simps is_literal_def split: if_splits)
  qed
qed

lemma compile_regex:
  assumes "pattern_compile R p = Inr m" "ps_kind p = RegexKind"
    "rx_agrees R (regex_pieces (regex_body (ps_expression p)))"
  shows "m = pieces_match (regex_pieces (regex_body (ps_expression p)))"
    "MIN_LITERAL_BYTES \<le> length (literal_prefix (ps_expression p))"
proof -
  let ?body = "regex_body (ps_expression p)"
  obtain n where l: "regex_loop ?body 0 False = Inr (n, True)" "MIN_LITERAL_BYTES \<le> n"
    and b: "rx_build R (rx_open @ ?body @ rx_close) = Some m"
    using assms(1,2) by (auto simp: pattern_compile_def constrained_regex_def result_bind_def regex_body_def Let_def
        split: sum.splits option.splits if_splits)
  note q = regex_loop_pieces[OF l(1)]
  from q b assms(3) show "m = pieces_match (regex_pieces ?body)" unfolding rx_agrees_def by simp
  from q[of R] l(2) show "MIN_LITERAL_BYTES \<le> length (literal_prefix (ps_expression p))"
    by (simp add: literal_prefix_def)
qed

subsection \<open>What a reviewed rule admits\<close>

text \<open>C23. A validated template splits into literals of at least eight bytes in all and one to four placeholders;
  both the reviewed action and every later action it matches are those literals with a bounded run of
  unreserved characters for each placeholder.\<close>

theorem template_rule_scope:
  assumes "pattern_validate R p original = Inr ()" "ps_kind p = TemplateKind" "pattern_matches R p a"
    "rx_agrees R (template_pieces (ps_expression p))"
  shows "\<exists>ls ks vs ws. ps_expression p = weave ls (map placeholder ks) \<and> original = weave ls vs \<and> a = weave ls ws
     \<and> list_all2 fits ks vs \<and> list_all2 fits ks ws \<and> set ks \<subseteq> {''token'', ''quoted''}
     \<and> 1 \<le> length ks \<and> length ks \<le> MAX_PLACEHOLDERS \<and> MIN_LITERAL_BYTES \<le> sum_list (map length ls)"
proof -
  obtain m where m: "pattern_compile R p = Inr m" "m original" "m a"
    using assms(1,3) by (auto simp: validate_compiles pattern_matches_def)
  obtain ls ks where lk: "template_parts (ps_expression p) = (ls, ks)" by force
  note c = compile_template[OF m(1) assms(2,4) lk] and w = template_parts_weave[OF lk]
  have "\<exists>vs. list_all2 fits ks vs \<and> x = weave ls vs" if "m x" for x
    using that c(1) weave_pieces_match w by blast
  then show ?thesis using m(2,3) c(2-5) w by metis
qed

text \<open>Every action that a validated constrained expression matches starts, like the reviewed action, with the
  expression's literal text before its first class, at least eight bytes of it.\<close>

theorem regex_rule_prefix:
  assumes "pattern_validate R p original = Inr ()" "ps_kind p = RegexKind" "pattern_matches R p a"
    "rx_agrees R (regex_pieces (regex_body (ps_expression p)))"
  shows "starts_with (literal_prefix (ps_expression p)) original \<and> starts_with (literal_prefix (ps_expression p)) a
    \<and> MIN_LITERAL_BYTES \<le> length (literal_prefix (ps_expression p))"
proof -
  obtain m where m: "pattern_compile R p = Inr m" "m original" "m a"
    using assms(1,3) by (auto simp: validate_compiles pattern_matches_def)
  with compile_regex[OF m(1) assms(2,4)] show ?thesis by (auto simp: literal_prefix_def intro: pieces_prefix)
qed

subsection \<open>A library for the examples\<close>

definition escape_demo :: "string \<Rightarrow> string" where
  "escape_demo s = concat (map (\<lambda>c. if c \<in> set (''.[]{}()^$?+*|'' @ [CHR 92]) then [CHR 92, c] else [c]) s)"

definition regex_demo :: "rx_piece list \<Rightarrow> regex_lib" where
  "regex_demo ps = \<lparr>rx_escape = escape_demo,
     rx_build = (\<lambda>src. if src = rx_open
         @ concat (map (piece_source \<lparr>rx_escape = escape_demo, rx_build = \<lambda>_. None\<rparr>) ps) @ rx_close
       then Some (pieces_match ps) else None)\<rparr>"

lemma regex_demo_agrees: "rx_agrees (regex_demo ps) ps"
  by (auto simp: rx_agrees_def regex_demo_def split: if_splits)

definition token_pattern :: pattern_spec where
  "token_pattern = \<lparr>ps_version = 1, ps_kind = TemplateKind, ps_expression = ''API_KEY={{token}} npm test''\<rparr>"

definition class_pattern :: pattern_spec where
  "class_pattern = \<lparr>ps_version = 1, ps_kind = RegexKind, ps_expression = ''^npm test --token=[A-Za-z0-9_-]{1,64}$''\<rparr>"

definition shell_pattern :: pattern_spec where
  "shell_pattern = \<lparr>ps_version = 1, ps_kind = RegexKind, ps_expression = ''^cargo test [.-z-]{1,128}$''\<rparr>"

abbreviation pattern_demo :: "pattern_spec \<Rightarrow> regex_lib" where
  "pattern_demo p \<equiv> regex_demo (case ps_kind p of
     TemplateKind \<Rightarrow> template_pieces (ps_expression p) | RegexKind \<Rightarrow> regex_pieces (regex_body (ps_expression p)))"

theorem template_rule_scope_witness:
  "pattern_validate (pattern_demo token_pattern) token_pattern ''API_KEY=old npm test'' = Inr ()
   \<and> pattern_matches (pattern_demo token_pattern) token_pattern ''API_KEY=n3w npm test''
   \<and> (\<exists>ls ks vs ws. ps_expression token_pattern = weave ls (map placeholder ks)
       \<and> ''API_KEY=old npm test'' = weave ls vs \<and> ''API_KEY=n3w npm test'' = weave ls ws
       \<and> list_all2 fits ks vs \<and> list_all2 fits ks ws \<and> set ks \<subseteq> {''token'', ''quoted''}
       \<and> 1 \<le> length ks \<and> length ks \<le> MAX_PLACEHOLDERS \<and> MIN_LITERAL_BYTES \<le> sum_list (map length ls))"
proof -
  have v: "pattern_validate (pattern_demo token_pattern) token_pattern ''API_KEY=old npm test'' = Inr ()"
    and m: "pattern_matches (pattern_demo token_pattern) token_pattern ''API_KEY=n3w npm test''"
    by (rule rule_checks; (simp add: token_pattern_def; fail)?; code_simp)+
  moreover have "ps_kind token_pattern = TemplateKind" by code_simp
  moreover from this have "rx_agrees (pattern_demo token_pattern) (template_pieces (ps_expression token_pattern))"
    using regex_demo_agrees by simp
  ultimately show ?thesis using template_rule_scope by blast
qed

theorem regex_rule_prefix_witness:
  "pattern_validate (pattern_demo class_pattern) class_pattern ''npm test --token=abc'' = Inr ()
   \<and> pattern_matches (pattern_demo class_pattern) class_pattern ''npm test --token=other''
   \<and> literal_prefix (ps_expression class_pattern) = ''npm test --token=''
   \<and> starts_with (literal_prefix (ps_expression class_pattern)) ''npm test --token=other''"
proof -
  have v: "pattern_validate (pattern_demo class_pattern) class_pattern ''npm test --token=abc'' = Inr ()"
    and m: "pattern_matches (pattern_demo class_pattern) class_pattern ''npm test --token=other''"
    by (rule rule_checks; (simp add: class_pattern_def; fail)?; code_simp)+
  have l: "literal_prefix (ps_expression class_pattern) = ''npm test --token=''" by code_simp
  have k: "ps_kind class_pattern = RegexKind" by code_simp
  then have "rx_agrees (pattern_demo class_pattern) (regex_pieces (regex_body (ps_expression class_pattern)))"
    using regex_demo_agrees by simp
  from regex_rule_prefix[OF v k m this] v m l show ?thesis by simp
qed



end
