(* ===== verification/Permission_Rules.thy ===== *)
theory Permission_Rules
  imports Permission_Pattern
begin

text \<open>
  Remembered permission answers (\<open>permission.rs\<close>): the fixed vocabulary of descriptions, action
  fingerprints, rules with their precedence, and the stored form inside the rule vault.  SHA-256 and
  the regular-expression library are parameters; a byte string is a \<open>string\<close>.
\<close>

record perm_lib =
  pl_regex :: regex_lib
  pl_sha256 :: "string \<Rightarrow> string"

datatype io_error =
  InvalidInput string | InvalidData string | NotFound string | AlreadyExists string | OtherError string

subsection \<open>Descriptions\<close>

definition ascii_blank :: "char \<Rightarrow> bool" where
  "ascii_blank c = (c \<in> {CHR 9, CHR 10, CHR 12, CHR 13, CHR 32})"

fun ascii_words_from :: "string \<Rightarrow> string \<Rightarrow> string list" where
  "ascii_words_from w [] = (if w = [] then [] else [rev w])"
| "ascii_words_from w (c # cs) =
     (if ascii_blank c then (if w = [] then [] else [rev w]) @ ascii_words_from [] cs
      else ascii_words_from (c # w) cs)"

definition split_ascii_whitespace :: "string \<Rightarrow> string list" where
  "split_ascii_whitespace s = ascii_words_from [] s"

definition nth_word :: "nat \<Rightarrow> string list \<Rightarrow> string option" where
  "nth_word i ws = (if i < length ws then Some (ws ! i) else None)"

definition shell_syntax :: "char \<Rightarrow> bool" where
  "shell_syntax c = (c \<in> {CHR 10, CHR 13, CHR '';'', CHR ''|'', CHR ''&'', CHR ''<'', CHR ''>'', CHR ''$'', CHR 96})"

definition safe_bash_description :: "string \<Rightarrow> string \<Rightarrow> string option" where
  "safe_bash_description tool action =
     (if \<not> eq_ignore_ascii_case tool ''bash'' \<or> list_ex shell_syntax action then None
      else let ws = split_ascii_whitespace action; subcommand = nth_word 1 ws; detail = nth_word 2 ws in
        case nth_word 0 ws of
          None \<Rightarrow> None
        | Some command \<Rightarrow>
            if command = ''npm'' then
              (if subcommand = Some ''run'' then
                 (if detail = Some ''lint'' then Some ''Run npm lint script''
                  else if detail = Some ''typecheck'' then Some ''Run npm typecheck script''
                  else if detail = Some ''build'' then Some ''Run npm build script''
                  else if detail = Some ''test:unit'' then Some ''Run npm unit tests''
                  else if detail = Some ''test:e2e'' then Some ''Run npm end-to-end tests''
                  else Some ''Run npm script'')
               else if subcommand = Some ''test'' then Some ''Run npm tests''
               else if subcommand = Some ''ci'' then Some ''Install npm dependencies''
               else Some ''Run npm command'')
            else if command = ''cargo'' then
              (if subcommand = Some ''test'' \<or> subcommand = Some ''nextest'' then Some ''Run Rust tests''
               else if subcommand = Some ''check'' then Some ''Check Rust code''
               else if subcommand = Some ''fmt'' then Some ''Format Rust code''
               else if subcommand = Some ''build'' then Some ''Build Rust code''
               else Some ''Run Cargo command'')
            else if command = ''git'' then
              (if subcommand = Some ''status'' then Some ''Check Git status''
               else if subcommand = Some ''diff'' then Some ''Review Git changes''
               else Some ''Run Git command'')
            else if command = ''rg'' then Some ''Search files''
            else if command = ''ls'' then Some ''List files''
            else if command = ''date'' then Some ''Check date''
            else if command = ''make'' then Some ''Run Make target''
            else None)"

definition safe_permission_description :: "string \<Rightarrow> string \<Rightarrow> string option" where
  "safe_permission_description tool action =
     (if eq_ignore_ascii_case tool ''bash'' then safe_bash_description tool action
      else let t = to_ascii_lower tool in
        if t = ''read'' then Some ''Read file''
        else if t = ''write'' then Some ''Write file''
        else if t \<in> {''edit'', ''multiedit'', ''notebookedit'', ''filechange''} then Some ''Edit file''
        else if t = ''webfetch'' then Some ''Fetch web page''
        else if t = ''websearch'' then Some ''Search web''
        else if t = ''glob'' then Some ''Find files''
        else if t = ''grep'' then Some ''Search file contents''
        else None)"

definition user_bash_descriptions :: "string list" where
  "user_bash_descriptions =
     [''Build or test command'', ''Version control command'', ''File operation command'', ''Network command'',
      ''Other Bash command'']"

definition allowed_bash_descriptions :: "string list" where
  "allowed_bash_descriptions =
     [''Run npm lint script'', ''Run npm typecheck script'', ''Run npm build script'', ''Run npm unit tests'',
      ''Run npm end-to-end tests'', ''Run npm script'', ''Run npm tests'', ''Install npm dependencies'',
      ''Run npm command'', ''Run Rust tests'', ''Check Rust code'', ''Format Rust code'', ''Build Rust code'',
      ''Run Cargo command'', ''Check Git status'', ''Review Git changes'', ''Run Git command'', ''Search files'',
      ''List files'', ''Check date'', ''Run Make target''] @ user_bash_descriptions"

definition valid_bash_description :: "string \<Rightarrow> bool" where
  "valid_bash_description description = (description \<in> set allowed_bash_descriptions)"

definition valid_user_bash_description :: "string \<Rightarrow> bool" where
  "valid_user_bash_description description = (description \<in> set user_bash_descriptions)"

definition valid_rule_description :: "string \<Rightarrow> string \<Rightarrow> bool" where
  "valid_rule_description tool description =
     (if eq_ignore_ascii_case tool ''bash'' then valid_bash_description description
      else safe_permission_description tool [] = Some description)"

lemma safe_bash_allowed: "safe_bash_description tool action = Some d \<Longrightarrow> valid_bash_description d"
  by (simp add: safe_bash_description_def valid_bash_description_def allowed_bash_descriptions_def Let_def
      split: if_splits option.splits; elim disjE conjE; simp)

lemma safe_description_valid:
  assumes "safe_permission_description tool action = Some d" shows "valid_rule_description tool d"
proof (cases "eq_ignore_ascii_case tool ''bash''")
  case True
  then show ?thesis using assms safe_bash_allowed
    by (simp add: valid_rule_description_def safe_permission_description_def)
next
  case False
  then have "safe_permission_description tool [] = safe_permission_description tool action"
    by (simp add: safe_permission_description_def)
  then show ?thesis using assms False by (simp add: valid_rule_description_def)
qed

lemma user_description_valid:
  "eq_ignore_ascii_case tool ''bash'' \<Longrightarrow> valid_user_bash_description d \<Longrightarrow> valid_rule_description tool d"
  by (simp add: valid_rule_description_def valid_bash_description_def valid_user_bash_description_def
      allowed_bash_descriptions_def)

subsection \<open>Fingerprints\<close>

definition LEGACY_FINGERPRINT_PREFIX :: string where "LEGACY_FINGERPRINT_PREFIX = ''sha256:v1:''"
definition ACTION_FINGERPRINT_PREFIX :: string where "ACTION_FINGERPRINT_PREFIX = ''hmac-sha256:v2:''"

fun xor_byte :: "char \<Rightarrow> char \<Rightarrow> char" where
  "xor_byte (Char a0 a1 a2 a3 a4 a5 a6 a7) (Char b0 b1 b2 b3 b4 b5 b6 b7) =
     Char (a0 \<noteq> b0) (a1 \<noteq> b1) (a2 \<noteq> b2) (a3 \<noteq> b3) (a4 \<noteq> b4) (a5 \<noteq> b5) (a6 \<noteq> b6) (a7 \<noteq> b7)"

definition key_id :: "perm_lib \<Rightarrow> string \<Rightarrow> string" where
  "key_id E key = take 16 (hex_lower (pl_sha256 E key))"

text \<open>The block is the pad, exclusive-or'ed with the key over the length of the key.\<close>

definition hmac_block :: "char \<Rightarrow> string \<Rightarrow> string" where
  "hmac_block pad key = map (xor_byte pad) key @ replicate (64 - length key) pad"

definition action_fingerprint :: "perm_lib \<Rightarrow> string \<Rightarrow> string \<Rightarrow> string" where
  "action_fingerprint E key action =
     (let inner_digest = pl_sha256 E (hmac_block (CHR 0x36) key @ action) in
      ACTION_FINGERPRINT_PREFIX @ key_id E key @ '':''
      @ hex_lower (pl_sha256 E (hmac_block (CHR 0x5C) key @ inner_digest)))"

definition is_hexdigit :: "char \<Rightarrow> bool" where
  "is_hexdigit c = (is_ascii_digit c \<or> (let n = (of_char c :: nat) in 65 \<le> n \<and> n \<le> 70 \<or> 97 \<le> n \<and> n \<le> 102))"

definition is_hex :: "string \<Rightarrow> nat \<Rightarrow> bool" where
  "is_hex s len = (length s = len \<and> list_all is_hexdigit s)"

definition is_legacy_fingerprint :: "string \<Rightarrow> bool" where
  "is_legacy_fingerprint action = is_some_and (strip_prefix LEGACY_FINGERPRINT_PREFIX action) (\<lambda>d. is_hex d 64)"

definition is_action_fingerprint :: "perm_lib \<Rightarrow> string \<Rightarrow> string \<Rightarrow> bool" where
  "is_action_fingerprint E action key =
     is_some_and (Option.bind (strip_prefix ACTION_FINGERPRINT_PREFIX action) (split_once '':''))
       (\<lambda>(kid, digest). kid = key_id E key \<and> is_hex digest 64)"

definition stored_action_key :: "perm_lib \<Rightarrow> string \<Rightarrow> string \<Rightarrow> string option" where
  "stored_action_key E action key =
     (if is_action_fingerprint E action key then Some action
      else if is_legacy_fingerprint action \<or> starts_with ACTION_FINGERPRINT_PREFIX action then None
      else Some (action_fingerprint E key action))"

text \<open>A digest has thirty-two bytes.\<close>

definition sha256_bytes :: "perm_lib \<Rightarrow> bool" where
  "sha256_bytes E = (\<forall>s. length (pl_sha256 E s) = 32)"

lemma hex_digit_hex: "n < 16 \<Longrightarrow> is_hexdigit (hex_digit n)"
  by (auto simp: hex_digit_def is_hexdigit_def is_ascii_digit_def Let_def)

lemma hex_lower_hex: "list_all is_hexdigit (hex_lower s)"
proof (induction s)
  case (Cons b s)
  have "(of_char b :: nat) div 16 < 16" by (simp add: less_mult_imp_div_less)
  then show ?case using Cons by (simp add: hex_lower_def hex_byte_def hex_digit_hex)
qed (simp add: hex_lower_def)

lemma length_hex_lower: "length (hex_lower s) = 2 * length s"
  by (induction s) (auto simp: hex_lower_def hex_byte_def)

lemma find_sub_fresh:
  "c \<notin> set a \<Longrightarrow> find_sub [c] (a @ c # b) = Some (length a)"
  by (induction a) (auto simp: starts_with_def)

lemma split_once_fresh: "c \<notin> set a \<Longrightarrow> split_once [c] (a @ c # b) = Some (a, b)"
  by (simp add: split_once_def find_sub_fresh)

lemma hex_no_colon: "list_all is_hexdigit s \<Longrightarrow> CHR '':'' \<notin> set s"
  by (auto simp: list_all_iff is_hexdigit_def is_ascii_digit_def Let_def)

lemma fingerprint_recognised:
  assumes "sha256_bytes E" shows "is_action_fingerprint E (action_fingerprint E key a) key"
proof -
  have "CHR '':'' \<notin> set (key_id E key)"
    using hex_no_colon[OF hex_lower_hex] by (metis key_id_def in_set_takeD)
  then show ?thesis using assms
    by (simp add: is_action_fingerprint_def action_fingerprint_def Let_def split_once_fresh is_hex_def
        hex_lower_hex length_hex_lower sha256_bytes_def)
qed

subsection \<open>Rules\<close>

datatype perm_decision = Allow | Deny
datatype perm_scope = Once | Session | Chat | Always

record request =
  rq_id :: nat
  rq_project :: string
  rq_connection :: string
  rq_tool :: string
  rq_action :: string
  rq_agent :: "string option"

record rule =
  rl_project :: string
  rl_tool :: string
  rl_action :: string
  rl_exact_action :: "string option"
  rl_pattern :: "pattern_spec option"
  rl_description :: "string option"
  rl_decision :: perm_decision
  rl_persist :: bool
  rl_connection :: "string option"

definition rule_matches :: "perm_lib \<Rightarrow> rule \<Rightarrow> string \<Rightarrow> string \<Rightarrow> string \<Rightarrow> string \<Rightarrow> bool" where
  "rule_matches E r project tool action key =
     (rl_project r = project \<and> rl_tool r = tool
      \<and> (case rl_pattern r of
           Some p \<Rightarrow> pattern_matches (pl_regex E) p action
         | None \<Rightarrow>
             if is_action_fingerprint E (rl_action r) key then rl_action r = action_fingerprint E key action
             else if starts_with ACTION_FINGERPRINT_PREFIX (rl_action r) \<or> is_legacy_fingerprint (rl_action r) then False
             else rl_action r = action))"

definition same_key :: "rule \<Rightarrow> rule \<Rightarrow> bool" where
  "same_key a b =
     (rl_project a = rl_project b \<and> rl_tool a = rl_tool b \<and> rl_action a = rl_action b
      \<and> rl_connection a = rl_connection b)"

definition effective_rule ::
  "perm_lib \<Rightarrow> rule list \<Rightarrow> string \<Rightarrow> string \<Rightarrow> string \<Rightarrow> string \<Rightarrow> string \<Rightarrow> rule option" where
  "effective_rule E rules project connection tool action key =
     find_map (\<lambda>(chat, exact).
         find_last (\<lambda>r. (rl_connection r = Some connection \<and> chat \<or> rl_connection r = None \<and> \<not> chat)
                        \<and> (rl_pattern r = None) = exact \<and> rule_matches E r project tool action key) rules)
       [(True, True), (True, False), (False, True), (False, False)]"

text \<open>The rules that may answer, and how much they weigh: a chat rule before a project rule, then an exact
  one before a pattern.\<close>

definition answers ::
  "perm_lib \<Rightarrow> string \<Rightarrow> string \<Rightarrow> string \<Rightarrow> string \<Rightarrow> string \<Rightarrow> rule \<Rightarrow> bool" where
  "answers E project connection tool action key r =
     ((rl_connection r = None \<or> rl_connection r = Some connection) \<and> rule_matches E r project tool action key)"

definition rule_weight :: "rule \<Rightarrow> nat" where
  "rule_weight r = (if rl_connection r \<noteq> None then 2 else 0) + (if rl_pattern r = None then 1 else 0)"

lemma find_last_None: "find_last P xs = None \<longleftrightarrow> (\<forall>x\<in>set xs. \<not> P x)"
  by (auto simp: find_last_def find_None_iff)

lemma find_last_split:
  "find_last P xs = Some x \<longleftrightarrow> (\<exists>ys zs. xs = ys @ x # zs \<and> P x \<and> (\<forall>z\<in>set zs. \<not> P z))"
proof (induction xs rule: rev_induct)
  case (snoc y xs)
  show ?case
  proof (cases "P y")
    case True
    have "zs = []" if "xs @ [y] = ys @ x # zs" "\<forall>z\<in>set zs. \<not> P z" for ys zs
      using that True by (cases zs rule: rev_cases) auto
    then show ?thesis using True by (cases "x = y") (auto intro: exI[of _ xs])
  next
    case False
    have "(\<exists>ys zs. xs @ [y] = ys @ x # zs \<and> P x \<and> (\<forall>z\<in>set zs. \<not> P z))
        \<longleftrightarrow> (\<exists>ys zs. xs = ys @ x # zs \<and> P x \<and> (\<forall>z\<in>set zs. \<not> P z))" (is "?L \<longleftrightarrow> ?R")
    proof
      assume ?L
      then obtain ys zs where h: "xs @ [y] = ys @ x # zs" "P x" "\<forall>z\<in>set zs. \<not> P z" by blast
      with False show ?R by (cases zs rule: rev_cases) auto
    next
      assume ?R
      then obtain ys zs where "xs = ys @ x # zs" "P x" "\<forall>z\<in>set zs. \<not> P z" by blast
      with False show ?L by (intro exI[of _ ys] exI[of _ "zs @ [y]"]) auto
    qed
    with snoc False show ?thesis by simp
  qed
qed simp

lemma effective_rule_weight:
  "effective_rule E rules project connection tool action key =
     find_map (\<lambda>w. find_last (\<lambda>r. rule_weight r = w \<and> answers E project connection tool action key r) rules) [3, 2, 1, 0]"
proof -
  have weight: "(\<lambda>r. (rl_connection r = Some connection \<and> chat \<or> rl_connection r = None \<and> \<not> chat)
        \<and> (rl_pattern r = None) = exact \<and> rule_matches E r project tool action key)
      = (\<lambda>r. rule_weight r = (if chat then 2 else 0) + (if exact then 1 else 0)
        \<and> answers E project connection tool action key r)" for chat exact
    by (auto simp: rule_weight_def answers_def fun_eq_iff)
  show ?thesis unfolding effective_rule_def weight by (simp add: numeral_eq_Suc cong: option.case_cong)
qed

lemma effective_rule_None:
  "effective_rule E rules project connection tool action key = None
     \<longleftrightarrow> (\<forall>r\<in>set rules. \<not> answers E project connection tool action key r)"
proof -
  have "rule_weight r \<in> set [3, 2, 1, 0]" for r by (simp add: rule_weight_def)
  then show ?thesis unfolding effective_rule_weight find_map_None find_last_None by blast
qed

text \<open>The rule that answers: the last one of the greatest weight among those that may.\<close>

definition best_rule :: "(rule \<Rightarrow> bool) \<Rightarrow> rule list \<Rightarrow> rule \<Rightarrow> bool" where
  "best_rule ok rules r =
     (ok r \<and> (\<exists>older newer. rules = older @ r # newer
       \<and> (\<forall>s\<in>set older. ok s \<longrightarrow> rule_weight s \<le> rule_weight r)
       \<and> (\<forall>s\<in>set newer. ok s \<longrightarrow> rule_weight s < rule_weight r)))"

lemma effective_rule_best:
  assumes "effective_rule E rules project connection tool action key = Some r"
  shows "best_rule (answers E project connection tool action key) rules r"
proof -
  let ?ok = "answers E project connection tool action key"
  have le: "rule_weight s \<le> 3" for s by (simp add: rule_weight_def)
  obtain w where f: "find_last (\<lambda>r. rule_weight r = w \<and> ?ok r) rules = Some r"
    and none: "\<forall>s\<in>set rules. ?ok s \<longrightarrow> rule_weight s \<le> w"
    using assms le unfolding effective_rule_weight
    by (auto simp: find_last_None split: option.splits)
      (metis One_nat_def le_Suc_eq le_zero_eq numeral_2_eq_2 numeral_3_eq_3)+
  from f obtain ys zs where "rules = ys @ r # zs" "rule_weight r = w" "?ok r" "\<forall>z\<in>set zs. \<not> (rule_weight z = w \<and> ?ok z)"
    unfolding find_last_split by blast
  with none show ?thesis unfolding best_rule_def
    by (intro conjI exI[of _ ys] exI[of _ zs]) (auto simp: order.strict_iff_order)
qed

text \<open>A request is answered by exactly one kind of rule: the newest among the rules of greatest weight (chat before
  project, exact before pattern) that match its project, tool and action and are its connection's or
  nobody's; it is left to a person precisely when there is none.\<close>

theorem effective_rule_precedence:
  "case effective_rule E rules project connection tool action key of
     None \<Rightarrow> list_all (\<lambda>r. \<not> answers E project connection tool action key r) rules
   | Some r \<Rightarrow> best_rule (answers E project connection tool action key) rules r"
  by (auto simp: effective_rule_None list_all_iff effective_rule_best split: option.splits)

end
