(* ===== verification/Permission_Bridge.thy ===== *)
theory Permission_Bridge
  imports Permission_Rules
begin

text \<open>
  The permission bridge (\<open>permission.rs\<close>): the queue of requests that wait for a person, the remembered
  rules and every operation on them.  The history of a bridge is a list of operations; \<open>bridge_run\<close>
  collects the requests it queued and the answers it gave.
\<close>

subsection \<open>State\<close>

datatype outcome = Auto perm_decision | Pending nat

record cascaded =
  cs_id :: nat
  cs_project :: string
  cs_connection :: string
  cs_decision :: perm_decision

record resolved =
  rs_project :: string
  rs_connection :: string
  rs_decision :: perm_decision
  rs_persisted_rule :: "rule option"
  rs_cascaded :: "cascaded list"

record bridge =
  pb_next_id :: nat
  pb_queue :: "request list"
  pb_rules :: "rule list"
  pb_action_key :: string
  pb_project_action_keys :: "string \<Rightarrow> string option"

definition bridge_new :: "string \<Rightarrow> bridge" where
  "bridge_new key =
     \<lparr>pb_next_id = 0, pb_queue = [], pb_rules = [], pb_action_key = key, pb_project_action_keys = (\<lambda>_. None)\<rparr>"

definition action_key_for_project :: "bridge \<Rightarrow> string \<Rightarrow> string" where
  "action_key_for_project b project = unwrap_or (pb_project_action_keys b project) (pb_action_key b)"

definition answering_rule :: "perm_lib \<Rightarrow> bridge \<Rightarrow> string \<Rightarrow> string \<Rightarrow> string \<Rightarrow> string \<Rightarrow> rule option" where
  "answering_rule E b project connection tool action =
     effective_rule E (pb_rules b) project connection tool action (action_key_for_project b project)"

subsection \<open>Seeding rules\<close>

definition seeded_rule :: "perm_lib \<Rightarrow> bridge \<Rightarrow> rule \<Rightarrow> rule option" where
  "seeded_rule E b r =
     (let key = action_key_for_project b (rl_project r);
          exact = (if rl_exact_action r = None \<and> \<not> is_action_fingerprint E (rl_action r) key
                   then Some (rl_action r) else rl_exact_action r) in
      if exact = None then None
      else map_option (\<lambda>a. r\<lparr>rl_exact_action := exact, rl_action := a,
               rl_description := opt_filter (valid_rule_description (rl_tool r)) (rl_description r)\<rparr>)
             (stored_action_key E (rl_action r) key))"

definition set_rules :: "perm_lib \<Rightarrow> rule list \<Rightarrow> bridge \<Rightarrow> bridge" where
  "set_rules E rules b =
     b\<lparr>pb_rules := List.map_filter (seeded_rule E b) rules @ filter (\<lambda>r. rl_connection r \<noteq> None) (pb_rules b)\<rparr>"

definition with_rules :: "perm_lib \<Rightarrow> string \<Rightarrow> rule list \<Rightarrow> bridge" where
  "with_rules E key rules = set_rules E rules (bridge_new key)"

definition set_action_key_and_rules :: "perm_lib \<Rightarrow> string \<Rightarrow> rule list \<Rightarrow> bridge \<Rightarrow> bridge" where
  "set_action_key_and_rules E key rules b =
     set_rules E rules (b\<lparr>pb_action_key := key, pb_project_action_keys := (\<lambda>_. None), pb_rules := []\<rparr>)"

definition set_project_action_key :: "string \<Rightarrow> string \<Rightarrow> bridge \<Rightarrow> bridge" where
  "set_project_action_key project key b =
     b\<lparr>pb_project_action_keys := (pb_project_action_keys b)(project := Some key)\<rparr>"

definition restore_durable_rules :: "perm_lib \<Rightarrow> string \<Rightarrow> rule list \<Rightarrow> bridge \<Rightarrow> bridge" where
  "restore_durable_rules E key rules b =
     (let live = map (\<lambda>r. case rl_exact_action r of Some a \<Rightarrow> r\<lparr>rl_action := a\<rparr> | None \<Rightarrow> r)
            (filter (\<lambda>r. \<not> rl_persist r \<or> starts_with ''checkout:'' (rl_project r)) (pb_rules b)) in
      set_rules E (rules @ live) (b\<lparr>pb_rules := [], pb_action_key := key\<rparr>))"

subsection \<open>Requests and answers\<close>

definition next_request_id :: "nat \<Rightarrow> nat" where
  "next_request_id n = (n + 1) mod 2 ^ 64"

lemma next_request_id_code [code]:
  "next_request_id n = (if int n + 1 < 18446744073709551616 then n + 1 else (n + 1) mod 2 ^ 64)"
  by (auto simp: next_request_id_def)

definition request_for_project_as ::
  "perm_lib \<Rightarrow> string \<Rightarrow> string \<Rightarrow> string \<Rightarrow> string \<Rightarrow> string option \<Rightarrow> bridge \<Rightarrow> outcome \<times> bridge" where
  "request_for_project_as E project connection tool action agent b =
     (case answering_rule E b project connection tool action of
        Some r \<Rightarrow> (Auto (rl_decision r), b)
      | None \<Rightarrow>
          let n = next_request_id (pb_next_id b) in
          (Pending n,
           b\<lparr>pb_next_id := n,
             pb_queue := pb_queue b @ [\<lparr>rq_id = n, rq_project = project, rq_connection = connection,
               rq_tool = tool, rq_action = action, rq_agent = agent\<rparr>]\<rparr>))"

definition rule_for_request ::
  "perm_lib \<Rightarrow> bridge \<Rightarrow> request \<Rightarrow> perm_decision \<Rightarrow> perm_scope \<Rightarrow> string option \<Rightarrow> pattern_spec option \<Rightarrow> rule" where
  "rule_for_request E b q d s description pattern =
     \<lparr>rl_project = rq_project q, rl_tool = rq_tool q,
      rl_action = action_fingerprint E (action_key_for_project b (rq_project q))
        (case pattern of None \<Rightarrow> rq_action q | Some p \<Rightarrow> pattern_identity p),
      rl_exact_action = Some (rq_action q), rl_pattern = pattern,
      rl_description = opt_or
        (opt_filter (\<lambda>v. eq_ignore_ascii_case (rq_tool q) ''bash'' \<and> valid_user_bash_description v) description)
        (safe_permission_description (rq_tool q) (rq_action q)),
      rl_decision = d, rl_persist = (s = Always),
      rl_connection = (if s = Chat then Some (rq_connection q) else None)\<rparr>"

definition queued_answer :: "perm_lib \<Rightarrow> bridge \<Rightarrow> request \<Rightarrow> rule option" where
  "queued_answer E b q = answering_rule E b (rq_project q) (rq_connection q) (rq_tool q) (rq_action q)"

definition install_rule :: "perm_lib \<Rightarrow> rule \<Rightarrow> bridge \<Rightarrow> cascaded list \<times> bridge" where
  "install_rule E r b =
     (let b1 = b\<lparr>pb_rules := filter (\<lambda>x. \<not> same_key x r) (pb_rules b) @ [r]\<rparr>;
          split = List.partition (\<lambda>q. queued_answer E b1 q \<noteq> None) (pb_queue b1) in
      (map (\<lambda>q. \<lparr>cs_id = rq_id q, cs_project = rq_project q, cs_connection = rq_connection q,
                 cs_decision = rl_decision (the (queued_answer E b1 q))\<rparr>) (fst split),
       b1\<lparr>pb_queue := snd split\<rparr>))"

definition checked_pattern :: "perm_lib \<Rightarrow> pattern_spec option \<Rightarrow> string \<Rightarrow> io_error + unit" where
  "checked_pattern E pattern action =
     (case pattern of
        None \<Rightarrow> Inr ()
      | Some p \<Rightarrow> (case pattern_validate (pl_regex E) p action of Inl e \<Rightarrow> Inl (InvalidInput e) | Inr _ \<Rightarrow> Inr ()))"

definition answer_request ::
  "perm_lib \<Rightarrow> request list \<Rightarrow> request \<Rightarrow> perm_decision \<Rightarrow> perm_scope \<Rightarrow> string option \<Rightarrow> pattern_spec option \<Rightarrow> bridge
     \<Rightarrow> resolved \<times> bridge" where
  "answer_request E rest q d s description pattern b =
     (let b1 = b\<lparr>pb_queue := rest\<rparr> in
      if s = Once
      then (\<lparr>rs_project = rq_project q, rs_connection = rq_connection q, rs_decision = d,
             rs_persisted_rule = None, rs_cascaded = []\<rparr>, b1)
      else let r = rule_for_request E b1 q d s description pattern; installed = install_rule E r b1 in
        (\<lparr>rs_project = rq_project q, rs_connection = rq_connection q, rs_decision = d,
          rs_persisted_rule = (if s = Always then Some r else None), rs_cascaded = fst installed\<rparr>, snd installed))"

definition resolve_with_pattern ::
  "perm_lib \<Rightarrow> nat \<Rightarrow> perm_decision \<Rightarrow> perm_scope \<Rightarrow> string option \<Rightarrow> pattern_spec option \<Rightarrow> bridge
     \<Rightarrow> io_error + (resolved option \<times> bridge)" where
  "resolve_with_pattern E n d s description pattern b =
     (if pattern \<noteq> None \<and> s = Once then Inl (InvalidInput ''one-time answers cannot contain a pattern'')
      else case List.extract (\<lambda>q. rq_id q = n) (pb_queue b) of
          None \<Rightarrow> Inr (None, b)
        | Some (before, q, after) \<Rightarrow>
            (case checked_pattern E pattern (rq_action q) of
               Inl e \<Rightarrow> Inl e
             | Inr _ \<Rightarrow> (case answer_request E (before @ after) q d s description pattern b of
                           (r, b') \<Rightarrow> Inr (Some r, b'))))"

definition remember_allowed_request ::
  "perm_lib \<Rightarrow> request \<Rightarrow> string option \<Rightarrow> pattern_spec option \<Rightarrow> bridge \<Rightarrow> io_error + ((rule \<times> cascaded list) \<times> bridge)" where
  "remember_allowed_request E q description pattern b =
     (case checked_pattern E pattern (rq_action q) of
        Inl e \<Rightarrow> Inl e
      | Inr _ \<Rightarrow>
          let r = rule_for_request E b q Allow Always description pattern; installed = install_rule E r b in
          Inr ((r, fst installed), snd installed))"

subsection \<open>Forgetting and editing\<close>

definition revoke :: "perm_lib \<Rightarrow> string \<Rightarrow> string option \<Rightarrow> string \<Rightarrow> string \<Rightarrow> bridge \<Rightarrow> rule option \<times> bridge" where
  "revoke E project connection tool action b =
     (let key = action_key_for_project b project in
      case List.extract (\<lambda>r. rl_project r = project \<and> rl_tool r = tool
             \<and> (rule_matches E r project tool action key \<or> rl_action r = action)
             \<and> rl_connection r = connection) (pb_rules b) of
        None \<Rightarrow> (None, b)
      | Some (before, r, after) \<Rightarrow> (Some r, b\<lparr>pb_rules := before @ after\<rparr>))"

definition in_slot :: "string \<Rightarrow> string option \<Rightarrow> string \<Rightarrow> string \<Rightarrow> rule \<Rightarrow> bool" where
  "in_slot project connection tool action r =
     (rl_project r = project \<and> rl_tool r = tool \<and> rl_action r = action \<and> rl_connection r = connection)"

definition update_decision ::
  "string \<Rightarrow> string option \<Rightarrow> string \<Rightarrow> string \<Rightarrow> perm_decision \<Rightarrow> bridge \<Rightarrow> rule option \<times> bridge" where
  "update_decision project connection tool action d b =
     (case List.extract (in_slot project connection tool action) (pb_rules b) of
        None \<Rightarrow> (None, b)
      | Some (before, r, after) \<Rightarrow>
          let r' = r\<lparr>rl_decision := d\<rparr> in (Some r', b\<lparr>pb_rules := before @ r' # after\<rparr>))"

definition forget_connection :: "string \<Rightarrow> bridge \<Rightarrow> nat \<times> bridge" where
  "forget_connection connection b =
     (let kept = filter (\<lambda>r. rl_connection r \<noteq> Some connection) (pb_rules b) in
      (length (pb_rules b) - length kept, b\<lparr>pb_rules := kept\<rparr>))"

subsection \<open>Histories\<close>

datatype bridge_op =
    OpRequest string string string string "string option"
  | OpResolve nat perm_decision perm_scope "string option" "pattern_spec option"
  | OpRemember request "string option" "pattern_spec option"
  | OpRevoke string "string option" string string
  | OpForget string
  | OpUpdateDecision string "string option" string string perm_decision
  | OpSetRules "rule list"
  | OpSetActionKey string "rule list"
  | OpSetProjectKey string string
  | OpRestore string "rule list"

type_synonym answer_log = "(nat \<times> perm_decision) list"

definition cascade_log :: "cascaded list \<Rightarrow> answer_log" where
  "cascade_log cs = map (\<lambda>c. (cs_id c, cs_decision c)) cs"

text \<open>The requests an operation queues, the answers it gives and the bridge it leaves.\<close>

fun bridge_apply :: "perm_lib \<Rightarrow> bridge_op \<Rightarrow> bridge \<Rightarrow> request list \<times> answer_log \<times> bridge" where
  "bridge_apply E (OpRequest project connection tool action agent) b =
     (case request_for_project_as E project connection tool action agent b of
        (Auto _, b') \<Rightarrow> ([], [], b')
      | (Pending _, b') \<Rightarrow> ([last (pb_queue b')], [], b'))"
| "bridge_apply E (OpResolve n d s description pattern) b =
     (case resolve_with_pattern E n d s description pattern b of
        Inl _ \<Rightarrow> ([], [], b)
      | Inr (None, b') \<Rightarrow> ([], [], b')
      | Inr (Some r, b') \<Rightarrow> ([], (n, rs_decision r) # cascade_log (rs_cascaded r), b'))"
| "bridge_apply E (OpRemember q description pattern) b =
     (case remember_allowed_request E q description pattern b of
        Inl _ \<Rightarrow> ([], [], b)
      | Inr ((_, cs), b') \<Rightarrow> ([], cascade_log cs, b'))"
| "bridge_apply E (OpRevoke project connection tool action) b = ([], [], snd (revoke E project connection tool action b))"
| "bridge_apply E (OpForget connection) b = ([], [], snd (forget_connection connection b))"
| "bridge_apply E (OpUpdateDecision project connection tool action d) b =
     ([], [], snd (update_decision project connection tool action d b))"
| "bridge_apply E (OpSetRules rules) b = ([], [], set_rules E rules b)"
| "bridge_apply E (OpSetActionKey key rules) b = ([], [], set_action_key_and_rules E key rules b)"
| "bridge_apply E (OpSetProjectKey project key) b = ([], [], set_project_action_key project key b)"
| "bridge_apply E (OpRestore key rules) b = ([], [], restore_durable_rules E key rules b)"

fun bridge_run :: "perm_lib \<Rightarrow> bridge_op list \<Rightarrow> bridge \<Rightarrow> request list \<times> answer_log \<times> bridge" where
  "bridge_run E [] b = ([], [], b)"
| "bridge_run E (op # ops) b =
     (case bridge_apply E op b of
        (asked, answered, b1) \<Rightarrow> (case bridge_run E ops b1 of (asked', answered', b2) \<Rightarrow> (asked @ asked', answered @ answered', b2)))"

subsection \<open>No request is lost or answered twice\<close>

text \<open>The books of a bridge: ids are handed out in sequence, no id is answered twice, and the queue is what was
  asked, in order, less what was answered.\<close>

definition accounted :: "request list \<Rightarrow> answer_log \<Rightarrow> bridge \<Rightarrow> bool" where
  "accounted asked answered b =
     (map rq_id asked = [1..<Suc (length asked)] \<and> pb_next_id b = length asked
      \<and> distinct (map fst answered) \<and> fst ` set answered \<subseteq> {1..<Suc (length asked)}
      \<and> pb_queue b = filter (\<lambda>q. rq_id q \<notin> fst ` set answered) asked)"

lemma filter_by_key:
  assumes "distinct (map f xs)"
  shows "filter (\<lambda>x. \<not> P x) xs = filter (\<lambda>x. f x \<notin> f ` set (filter P xs)) xs"
proof (rule filter_cong[OF refl])
  fix x assume "x \<in> set xs"
  moreover have "inj_on f (set xs)" using assms by (simp add: distinct_map)
  ultimately show "(\<not> P x) = (f x \<notin> f ` set (filter P xs))" by (auto dest: inj_onD)
qed

lemma accounted_queue:
  assumes "accounted asked answered b"
  shows "distinct (map rq_id (pb_queue b))" "rq_id ` set (pb_queue b) \<subseteq> {1..<Suc (length asked)}"
    "rq_id ` set (pb_queue b) \<inter> fst ` set answered = {}" "set (pb_queue b) \<subseteq> set asked"
proof -
  have "distinct (map rq_id asked)" "rq_id ` set asked = {1..<Suc (length asked)}"
    and q: "pb_queue b = filter (\<lambda>q. rq_id q \<notin> fst ` set answered) asked"
    using assms unfolding accounted_def by (metis distinct_upt, metis set_map set_upt, blast)
  then show "distinct (map rq_id (pb_queue b))" "rq_id ` set (pb_queue b) \<subseteq> {1..<Suc (length asked)}"
    by (simp add: distinct_map_filter, auto)
  show "rq_id ` set (pb_queue b) \<inter> fst ` set answered = {}" "set (pb_queue b) \<subseteq> set asked" using q by auto
qed

lemma accounted_answer:
  assumes "accounted asked answered b" "pb_next_id b' = pb_next_id b" "distinct (map fst log)"
    "fst ` set log \<subseteq> rq_id ` set (pb_queue b)" "pb_queue b' = filter (\<lambda>q. rq_id q \<notin> fst ` set log) (pb_queue b)"
  shows "accounted asked (answered @ log) b'"
proof -
  note q = accounted_queue[OF assms(1)]
  have "fst ` set log \<inter> fst ` set answered = {}" using q(3) assms(4) by blast
  moreover have "pb_queue b' = filter (\<lambda>q. rq_id q \<notin> fst ` set (answered @ log)) asked"
    using assms(1,5) by (auto simp: accounted_def image_Un intro: filter_cong)
  moreover have "fst ` set (answered @ log) \<subseteq> {1..<Suc (length asked)}"
    using assms(1,4) q(2) by (auto simp: accounted_def image_Un simp del: upt_Suc)
  ultimately show ?thesis using assms(1-3) by (auto simp: accounted_def)
qed

lemma accounted_keep:
  assumes "accounted asked answered b" "pb_next_id b' = pb_next_id b" "pb_queue b' = pb_queue b"
  shows "accounted asked answered b'"
  using accounted_answer[of asked answered b b' "[]"] assms by simp

lemma accounted_ask:
  assumes "accounted asked answered b" "Suc (length asked) < 2 ^ 64" "rq_id q = Suc (length asked)"
    "pb_next_id b' = Suc (length asked)" "pb_queue b' = pb_queue b @ [q]"
  shows "accounted (asked @ [q]) answered b'"
  using assms by (auto simp: accounted_def)

lemma install_queue:
  assumes "distinct (map rq_id (pb_queue b))" "install_rule E r b = (cs, b')"
  shows "distinct (map fst (cascade_log cs))" "fst ` set (cascade_log cs) \<subseteq> rq_id ` set (pb_queue b)"
    "pb_queue b' = filter (\<lambda>q. rq_id q \<notin> fst ` set (cascade_log cs)) (pb_queue b)"
    "pb_next_id b' = pb_next_id b"
proof -
  let ?b1 = "b\<lparr>pb_rules := filter (\<lambda>x. \<not> same_key x r) (pb_rules b) @ [r]\<rparr>"
  let ?P = "\<lambda>q. queued_answer E ?b1 q \<noteq> None"
  have cs: "map fst (cascade_log cs) = map rq_id (filter ?P (pb_queue b))"
    and q: "pb_queue b' = filter (\<lambda>q. \<not> ?P q) (pb_queue b)" and n: "pb_next_id b' = pb_next_id b"
    using assms(2) by (auto simp: install_rule_def Let_def cascade_log_def o_def)
  have "fst ` set (cascade_log cs) = rq_id ` set (filter ?P (pb_queue b))"
    using arg_cong[OF cs, of set] by simp
  with cs q n assms(1) filter_by_key[OF assms(1), of ?P]
  show "distinct (map fst (cascade_log cs))" "fst ` set (cascade_log cs) \<subseteq> rq_id ` set (pb_queue b)"
    "pb_queue b' = filter (\<lambda>q. rq_id q \<notin> fst ` set (cascade_log cs)) (pb_queue b)"
    "pb_next_id b' = pb_next_id b"
    by (auto simp: distinct_map_filter)
qed

lemma resolve_cases:
  assumes "resolve_with_pattern E n d s description pattern b = Inr (Some r, b')"
  obtains before q after where "pb_queue b = before @ q # after" "rq_id q = n"
    "checked_pattern E pattern (rq_action q) = Inr ()" "pattern \<noteq> None \<longrightarrow> s \<noteq> Once"
    "answer_request E (before @ after) q d s description pattern b = (r, b')"
proof (cases "List.extract (\<lambda>q. rq_id q = n) (pb_queue b)")
  case None
  with assms show ?thesis by (auto simp: resolve_with_pattern_def split: if_splits)
next
  case (Some found)
  obtain before q after where f: "found = (before, q, after)" by (cases found)
  have e: "pb_queue b = before @ q # after" "rq_id q = n" using extract_SomeE[OF Some[unfolded f]] by auto
  have "checked_pattern E pattern (rq_action q) = Inr ()" "pattern \<noteq> None \<longrightarrow> s \<noteq> Once"
    "answer_request E (before @ after) q d s description pattern b = (r, b')"
    using assms by (auto simp: resolve_with_pattern_def Some f split: if_splits sum.splits prod.splits)
  with e that show ?thesis by blast
qed

lemma resolve_queue:
  assumes "distinct (map rq_id (pb_queue b))" "resolve_with_pattern E n d s description pattern b = Inr (Some r, b')"
  defines "log \<equiv> (n, rs_decision r) # cascade_log (rs_cascaded r)"
  shows "distinct (map fst log)" "fst ` set log \<subseteq> rq_id ` set (pb_queue b)"
    "pb_queue b' = filter (\<lambda>q. rq_id q \<notin> fst ` set log) (pb_queue b)" "pb_next_id b' = pb_next_id b"
    "rs_decision r = d"
proof -
  obtain before q after where q: "pb_queue b = before @ q # after" "rq_id q = n"
    and a: "answer_request E (before @ after) q d s description pattern b = (r, b')"
    using resolve_cases[OF assms(2)] by metis
  let ?b1 = "b\<lparr>pb_queue := before @ after\<rparr>"
  have d1: "distinct (map rq_id (pb_queue ?b1))" "n \<notin> rq_id ` set (before @ after)" using assms(1) q by auto
  have rest: "before @ after = filter (\<lambda>q. rq_id q \<noteq> n) (pb_queue b)"
    using q d1(2) by (simp, metis (mono_tags, lifting) filter_True UnCI image_eqI image_Un)
  have "distinct (map fst (cascade_log (rs_cascaded r))) \<and> fst ` set (cascade_log (rs_cascaded r)) \<subseteq> rq_id ` set (before @ after)
      \<and> pb_queue b' = filter (\<lambda>q. rq_id q \<notin> fst ` set (cascade_log (rs_cascaded r))) (before @ after)
      \<and> pb_next_id b' = pb_next_id b \<and> rs_decision r = d"
  proof (cases "s = Once")
    case True
    then show ?thesis using a by (auto simp: answer_request_def cascade_log_def)
  next
    case False
    let ?r = "rule_for_request E ?b1 q d s description pattern"
    obtain cs where i: "install_rule E ?r ?b1 = (cs, b')" and r: "rs_cascaded r = cs" "rs_decision r = d"
      using a False by (cases "install_rule E ?r ?b1") (auto simp: answer_request_def Let_def)
    then show ?thesis using install_queue[OF d1(1) i] by simp
  qed
  with d1 rest q show "distinct (map fst log)" "fst ` set log \<subseteq> rq_id ` set (pb_queue b)"
    "pb_queue b' = filter (\<lambda>q. rq_id q \<notin> fst ` set log) (pb_queue b)" "pb_next_id b' = pb_next_id b"
    "rs_decision r = d"
    unfolding log_def by (auto simp: filter_filter conj_commute)
qed

lemmas rule_ops = revoke_def forget_connection_def update_decision_def set_rules_def set_action_key_and_rules_def
  set_project_action_key_def restore_durable_rules_def

definition is_request :: "bridge_op \<Rightarrow> bool" where
  "is_request op = (case op of OpRequest _ _ _ _ _ \<Rightarrow> True | _ \<Rightarrow> False)"

lemma accounted_apply:
  assumes "accounted asked answered b" "is_request op \<longrightarrow> Suc (length asked) < 2 ^ 64"
    "bridge_apply E op b = (new, log, b')"
  shows "accounted (asked @ new) (answered @ log) b' \<and> length new \<le> (if is_request op then 1 else 0)"
proof (cases op)
  case (OpRequest project connection tool action agent)
  then show ?thesis using assms accounted_ask[OF assms(1)]
    by (auto simp: is_request_def request_for_project_as_def next_request_id_def Let_def accounted_def
        split: option.splits)
next
  case (OpResolve n d s description pattern)
  show ?thesis
  proof (cases "resolve_with_pattern E n d s description pattern b")
    case (Inr res)
    obtain r b2 where res: "res = (r, b2)" by (cases res)
    show ?thesis
    proof (cases r)
      case None
      then show ?thesis using assms OpResolve Inr res
        by (auto simp: resolve_with_pattern_def split: if_splits option.splits sum.splits prod.splits)
    next
      case (Some q)
      note rq = resolve_queue[OF accounted_queue(1)[OF assms(1)] Inr[unfolded res Some]]
      show ?thesis using accounted_answer[OF assms(1) rq(4,1,2,3)] assms(3) OpResolve Inr res Some
        by (simp add: is_request_def)
    qed
  qed (use assms OpResolve in auto)
next
  case (OpRemember q description pattern)
  let ?r = "rule_for_request E b q Allow Always description pattern"
  obtain cs b2 where i: "install_rule E ?r b = (cs, b2)" by (cases "install_rule E ?r b")
  note iq = install_queue[OF accounted_queue(1)[OF assms(1)] i]
  show ?thesis using assms OpRemember accounted_answer[OF assms(1) iq(4,1,2,3)]
    by (auto simp: remember_allowed_request_def i Let_def split: sum.splits)
qed (use assms in \<open>auto simp: rule_ops Let_def split: option.splits intro: accounted_keep\<close>)

lemma accounted_run:
  assumes "accounted asked answered b" "length asked + length ops < 2 ^ 64" "bridge_run E ops b = (new, log, b')"
  shows "accounted (asked @ new) (answered @ log) b'"
  using assms
proof (induction ops arbitrary: asked answered b new log)
  case (Cons op ops)
  obtain n1 l1 b1 where a: "bridge_apply E op b = (n1, l1, b1)" by (metis prod_cases3)
  obtain n2 l2 where r: "bridge_run E ops b1 = (n2, l2, b')" "new = n1 @ n2" "log = l1 @ l2"
    using Cons.prems(3) a by (auto split: prod.splits)
  note s = accounted_apply[OF Cons.prems(1) _ a]
  have "accounted (asked @ n1) (answered @ l1) b1" "length (asked @ n1) + length ops < 2 ^ 64"
    using s Cons.prems(2) by (auto split: if_splits)
  from Cons.IH[OF this r(1)] r(2,3) show ?case by simp
qed simp

text \<open>C12. Whatever is asked, answered, remembered, revoked, edited or reseeded, and in whatever order, ids are handed out
  in sequence, no request is answered twice, and the queue is exactly the requests that were asked and not
  answered, oldest first: an answer to one never drops another.\<close>

theorem no_request_lost:
  assumes "length ops < 2 ^ 64" "bridge_run E ops (bridge_new key) = (asked, answered, b)"
  shows "map rq_id asked = [1..<Suc (length asked)] \<and> distinct (map fst answered)
    \<and> fst ` set answered \<subseteq> rq_id ` set asked
    \<and> pb_queue b = filter (\<lambda>q. rq_id q \<notin> fst ` set answered) asked"
proof -
  have "accounted [] [] (bridge_new key)" by (simp add: accounted_def bridge_new_def)
  from accounted_run[OF this _ assms(2)] assms(1) have a: "accounted asked answered b" by simp
  then have "rq_id ` set asked = {1..<Suc (length asked)}" unfolding accounted_def by (metis set_map set_upt)
  with a show ?thesis unfolding accounted_def by blast
qed

subsection \<open>Where an answer without a person comes from\<close>

text \<open>A grant: the request a person answered with a rule, the answer, its scope and the reviewed pattern.\<close>

record grant =
  gr_request :: request
  gr_decision :: perm_decision
  gr_scope :: perm_scope
  gr_pattern :: "pattern_spec option"

fun op_grants :: "perm_lib \<Rightarrow> bridge_op \<Rightarrow> bridge \<Rightarrow> grant list" where
  "op_grants E (OpResolve n d s description pattern) b =
     (case List.find (\<lambda>q. rq_id q = n) (pb_queue b) of
        None \<Rightarrow> []
      | Some q \<Rightarrow> if s \<noteq> Once \<and> checked_pattern E pattern (rq_action q) = Inr ()
                  then [\<lparr>gr_request = q, gr_decision = d, gr_scope = s, gr_pattern = pattern\<rparr>] else [])"
| "op_grants E (OpRemember q description pattern) b =
     (if checked_pattern E pattern (rq_action q) = Inr ()
      then [\<lparr>gr_request = q, gr_decision = Allow, gr_scope = Always, gr_pattern = pattern\<rparr>] else [])"
| "op_grants E op b = []"

fun run_grants :: "perm_lib \<Rightarrow> bridge_op list \<Rightarrow> bridge \<Rightarrow> grant list" where
  "run_grants E [] b = []"
| "run_grants E (op # ops) b = op_grants E op b @ run_grants E ops (snd (snd (bridge_apply E op b)))"

text \<open>The operations of a running host: rules come from answers, and go.\<close>

definition live_op :: "bridge_op \<Rightarrow> bool" where
  "live_op op =
     (case op of OpRequest _ _ _ _ _ \<Rightarrow> True | OpResolve _ _ _ _ _ \<Rightarrow> True | OpRemember _ _ _ \<Rightarrow> True
      | OpRevoke _ _ _ _ \<Rightarrow> True | OpForget _ \<Rightarrow> True | _ \<Rightarrow> False)"

definition of_grant :: "perm_lib \<Rightarrow> bridge \<Rightarrow> grant list \<Rightarrow> rule \<Rightarrow> bool" where
  "of_grant E b gs r =
     (\<exists>g\<in>set gs. \<exists>description. gr_scope g \<noteq> Once \<and> checked_pattern E (gr_pattern g) (rq_action (gr_request g)) = Inr ()
        \<and> r = rule_for_request E b (gr_request g) (gr_decision g) (gr_scope g) description (gr_pattern g))"

definition rules_granted :: "perm_lib \<Rightarrow> bridge \<Rightarrow> grant list \<Rightarrow> bool" where
  "rules_granted E b gs = (\<forall>r\<in>set (pb_rules b). of_grant E b gs r)"

text \<open>The action is the granted one, by its fingerprint, or matches the reviewed pattern.\<close>

definition grant_covers :: "perm_lib \<Rightarrow> string \<Rightarrow> grant \<Rightarrow> string \<Rightarrow> string \<Rightarrow> string \<Rightarrow> string \<Rightarrow> bool" where
  "grant_covers E key g project connection tool action =
     (rq_project (gr_request g) = project \<and> rq_tool (gr_request g) = tool \<and> gr_scope g \<noteq> Once
      \<and> (gr_scope g = Chat \<longrightarrow> rq_connection (gr_request g) = connection)
      \<and> (case gr_pattern g of
           None \<Rightarrow> action_fingerprint E key action = action_fingerprint E key (rq_action (gr_request g))
         | Some p \<Rightarrow> pattern_validate (pl_regex E) p (rq_action (gr_request g)) = Inr ()
                     \<and> pattern_matches (pl_regex E) p action))"

lemma same_keys_rule:
  assumes "pb_action_key b' = pb_action_key b" "pb_project_action_keys b' = pb_project_action_keys b"
  shows "action_key_for_project b' = action_key_for_project b"
    "rule_for_request E b' = rule_for_request E b" "of_grant E b' = of_grant E b"
  using assms by (auto simp: action_key_for_project_def rule_for_request_def of_grant_def fun_eq_iff)

lemma of_grant_mono: "of_grant E b gs r \<Longrightarrow> set gs \<subseteq> set hs \<Longrightarrow> of_grant E b hs r"
  by (auto simp: of_grant_def)

lemma install_rules:
  assumes "install_rule E r b = (cs, b')"
  shows "set (pb_rules b') \<subseteq> insert r (set (pb_rules b))" "pb_action_key b' = pb_action_key b"
    "pb_project_action_keys b' = pb_project_action_keys b"
    "list_all (\<lambda>q. queued_answer E b' q = None) (pb_queue b')"
  using assms
  by (auto simp: install_rule_def Let_def queued_answer_def answering_rule_def action_key_for_project_def list_all_iff)

text \<open>What a live operation does to the rules: some go, and at most one comes, from the operation's grant.\<close>

definition live_change :: "perm_lib \<Rightarrow> bridge_op \<Rightarrow> bridge \<Rightarrow> bridge \<Rightarrow> bool" where
  "live_change E op b b' =
     (pb_action_key b' = pb_action_key b \<and> pb_project_action_keys b' = pb_project_action_keys b
      \<and> (\<forall>r\<in>set (pb_rules b'). r \<in> set (pb_rules b) \<or> of_grant E b (op_grants E op b) r)
      \<and> (list_all (\<lambda>q. queued_answer E b q = None) (pb_queue b) \<longrightarrow> list_all (\<lambda>q. queued_answer E b' q = None) (pb_queue b')))"

lemma fewer_rules_answer:
  assumes "pb_action_key b' = pb_action_key b" "pb_project_action_keys b' = pb_project_action_keys b"
    "set (pb_rules b') \<subseteq> set (pb_rules b)" "queued_answer E b q = None"
  shows "queued_answer E b' q = None"
proof -
  have k: "action_key_for_project b' = action_key_for_project b" by (rule same_keys_rule(1)[OF assms(1,2)])
  show ?thesis using assms(3,4) unfolding queued_answer_def answering_rule_def effective_rule_None k by blast
qed

lemma live_fewer:
  assumes "pb_action_key b' = pb_action_key b" "pb_project_action_keys b' = pb_project_action_keys b"
    "set (pb_rules b') \<subseteq> set (pb_rules b)" "set (pb_queue b') \<subseteq> set (pb_queue b)"
  shows "live_change E op b b'"
  using assms fewer_rules_answer[OF assms(1-3)] by (auto simp: live_change_def list_all_iff)

lemma live_install:
  assumes "install_rule E (rule_for_request E b q d s description pattern) (b\<lparr>pb_queue := rest\<rparr>) = (cs, b')"
    "op_grants E op b = [\<lparr>gr_request = q, gr_decision = d, gr_scope = s, gr_pattern = pattern\<rparr>]" "s \<noteq> Once"
    "checked_pattern E pattern (rq_action q) = Inr ()"
  shows "live_change E op b b'"
  using install_rules[OF assms(1)] assms(2-4) by (auto simp: live_change_def of_grant_def)

lemma find_first: "xs = ys @ x # zs \<Longrightarrow> P x \<Longrightarrow> (\<And>y. y \<in> set ys \<Longrightarrow> \<not> P y) \<Longrightarrow> List.find P xs = Some x"
  by (induction ys arbitrary: xs) auto

lemma extract_find: "List.extract P xs = Some (ys, x, zs) \<Longrightarrow> List.find P xs = Some x"
  by (auto intro!: find_first dest: extract_SomeE)

lemma live_apply:
  assumes "live_op op" "bridge_apply E op b = (new, log, b')"
  shows "live_change E op b b'"
proof (cases op)
  case (OpRequest project connection tool action agent)
  then show ?thesis using assms(2)
    by (auto simp: request_for_project_as_def Let_def live_change_def list_all_iff queued_answer_def answering_rule_def
        action_key_for_project_def split: option.splits)
next
  case (OpResolve n d s description pattern)
  show ?thesis
  proof (cases "\<exists>r. resolve_with_pattern E n d s description pattern b = Inr (Some r, b')")
    case True
    then obtain r before q after where e: "List.extract (\<lambda>q. rq_id q = n) (pb_queue b) = Some (before, q, after)"
      and c: "checked_pattern E pattern (rq_action q) = Inr ()"
      and a: "answer_request E (before @ after) q d s description pattern b = (r, b')"
      by (auto simp: resolve_with_pattern_def split: if_splits option.splits sum.splits prod.splits)
    show ?thesis
    proof (cases "s = Once")
      case True
      then show ?thesis using a extract_SomeE[OF e] by (intro live_fewer) (auto simp: answer_request_def)
    next
      case False
      let ?b1 = "b\<lparr>pb_queue := before @ after\<rparr>"
      have "rule_for_request E ?b1 = rule_for_request E b" by (rule same_keys_rule) simp_all
      then obtain cs where "install_rule E (rule_for_request E b q d s description pattern) ?b1 = (cs, b')"
        using a False by (cases "install_rule E (rule_for_request E b q d s description pattern) ?b1")
          (auto simp: answer_request_def Let_def)
      then show ?thesis using False c OpResolve extract_find[OF e] by (intro live_install) auto
    qed
  next
    case False
    then have "b' = b" using assms(2) OpResolve
      by (auto simp: resolve_with_pattern_def split: if_splits option.splits sum.splits prod.splits)
    then show ?thesis by (intro live_fewer) auto
  qed
next
  case (OpRemember q description pattern)
  show ?thesis
  proof (cases "checked_pattern E pattern (rq_action q)")
    case (Inr u)
    let ?r = "rule_for_request E b q Allow Always description pattern"
    obtain cs where "install_rule E ?r b = (cs, b')"
      using assms(2) OpRemember Inr by (cases "install_rule E ?r b") (auto simp: remember_allowed_request_def Let_def)
    then show ?thesis using Inr OpRemember by (intro live_install[where rest = "pb_queue b"]) auto
  qed (use assms(2) OpRemember in \<open>auto simp: remember_allowed_request_def intro: live_fewer\<close>)
qed (use assms in \<open>auto simp: live_op_def rule_ops Let_def split: option.splits intro!: live_fewer dest!: extract_SomeE\<close>)

lemma live_run:
  assumes "list_all live_op ops" "bridge_run E ops b = (new, log, b')" "rules_granted E b gs"
    "list_all (\<lambda>q. queued_answer E b q = None) (pb_queue b)"
  shows "rules_granted E b' (gs @ run_grants E ops b) \<and> list_all (\<lambda>q. queued_answer E b' q = None) (pb_queue b')
    \<and> action_key_for_project b' = action_key_for_project b"
  using assms
proof (induction ops arbitrary: b gs new log)
  case (Cons op ops)
  obtain n1 l1 b1 where a: "bridge_apply E op b = (n1, l1, b1)" by (metis prod_cases3)
  obtain n2 l2 where r: "bridge_run E ops b1 = (n2, l2, b')" using Cons.prems(2) a by (auto split: prod.splits)
  have l: "live_change E op b b1" using live_apply[OF _ a] Cons.prems(1) by simp
  have k: "action_key_for_project b1 = action_key_for_project b" "of_grant E b1 = of_grant E b"
    using same_keys_rule(1,3)[of b1 b] l unfolding live_change_def by simp_all
  have "of_grant E b (gs @ op_grants E op b) r" if "r \<in> set (pb_rules b1)" for r
    using that l Cons.prems(3) of_grant_mono unfolding live_change_def rules_granted_def
    by (metis Un_upper1 Un_upper2 set_append)
  then have "rules_granted E b1 (gs @ op_grants E op b)" by (simp add: rules_granted_def k)
  moreover have "list_all (\<lambda>q. queued_answer E b1 q = None) (pb_queue b1)" using l Cons.prems(4) by (simp add: live_change_def)
  ultimately show ?case using Cons.IH[OF _ r, of "gs @ op_grants E op b"] Cons.prems(1) a k by simp
qed (simp add: rules_granted_def)

lemma granted_rule_covers:
  assumes "sha256_bytes E" "of_grant E b gs r"
    "answers E project connection tool action (action_key_for_project b project) r"
  shows "\<exists>g\<in>set gs. gr_decision g = rl_decision r
    \<and> grant_covers E (action_key_for_project b project) g project connection tool action"
proof -
  obtain g description where g: "g \<in> set gs" "gr_scope g \<noteq> Once"
    "checked_pattern E (gr_pattern g) (rq_action (gr_request g)) = Inr ()"
    and r: "r = rule_for_request E b (gr_request g) (gr_decision g) (gr_scope g) description (gr_pattern g)"
    using assms(2) by (auto simp: of_grant_def)
  have m: "rq_project (gr_request g) = project" "rq_tool (gr_request g) = tool"
    "gr_scope g = Chat \<longrightarrow> rq_connection (gr_request g) = connection"
    using assms(3) r by (auto simp: answers_def rule_matches_def rule_for_request_def split: if_splits)
  have "case gr_pattern g of
      None \<Rightarrow> action_fingerprint E (action_key_for_project b project) action
        = action_fingerprint E (action_key_for_project b project) (rq_action (gr_request g))
    | Some p \<Rightarrow> pattern_validate (pl_regex E) p (rq_action (gr_request g)) = Inr () \<and> pattern_matches (pl_regex E) p action"
    using assms(1,3) g(3) r m(1) fingerprint_recognised[OF assms(1)]
    by (auto simp: answers_def rule_matches_def rule_for_request_def checked_pattern_def
        split: option.splits sum.splits if_splits)
  with g m r show ?thesis by (auto simp: grant_covers_def rule_for_request_def)
qed


text \<open>While rules come only from answers, no queued request has an answer among the remembered rules: what a rule
  can answer never keeps waiting for a person.\<close>

theorem queue_needs_person:
  assumes "list_all live_op ops" "bridge_run E ops (bridge_new key) = (asked, answered, b)"
  shows "list_all (\<lambda>q. queued_answer E b q = None) (pb_queue b)"
  using live_run[OF assms, of "[]"] by (simp add: rules_granted_def bridge_new_def)

subsection \<open>Examples\<close>

definition perm_demo :: perm_lib where
  "perm_demo = \<lparr>pl_regex = pattern_demo token_pattern, pl_sha256 = (\<lambda>s. take 32 (rev s @ replicate 32 (CHR ''0'')))\<rparr>"

definition demo_key :: string where "demo_key = replicate 32 (CHR ''k'')"

lemma perm_demo_bytes: "sha256_bytes perm_demo"
  by (auto simp: sha256_bytes_def perm_demo_def min_def)

text \<open>Two chats ask for the same tests and a third command; the first answer is remembered for the session.\<close>

definition demo_ops :: "bridge_op list" where
  "demo_ops =
     [OpRequest ''p'' ''c1'' ''Bash'' ''cargo test'' None, OpRequest ''p'' ''c2'' ''Bash'' ''cargo test'' None,
      OpRequest ''p'' ''c2'' ''Bash'' ''rm x'' None, OpResolve 1 Allow Session None None]"

abbreviation demo_bridge :: bridge where
  "demo_bridge \<equiv> snd (snd (bridge_run perm_demo demo_ops (bridge_new demo_key)))"

theorem no_request_lost_witness:
  "fst (snd (bridge_run perm_demo demo_ops (bridge_new demo_key))) = [(1, Allow), (2, Allow)]
   \<and> pb_queue demo_bridge
     = filter (\<lambda>q. rq_id q \<notin> fst ` set [(1 :: nat, Allow), (2, Allow)]) (fst (bridge_run perm_demo demo_ops (bridge_new demo_key)))
   \<and> map rq_action (pb_queue demo_bridge) = [''rm x'']"
proof -
  let ?r = "bridge_run perm_demo demo_ops (bridge_new demo_key)"
  have a: "fst (snd ?r) = [(1, Allow), (2, Allow)]" and q: "map rq_action (pb_queue demo_bridge) = [''rm x'']"
    by code_simp+
  have "?r = (fst ?r, fst (snd ?r), snd (snd ?r))" by simp
  moreover have "length demo_ops < 2 ^ 64" by (simp add: demo_ops_def)
  ultimately have "pb_queue (snd (snd ?r)) = filter (\<lambda>q. rq_id q \<notin> fst ` set (fst (snd ?r))) (fst ?r)"
    using no_request_lost by blast
  with a q show ?thesis by simp
qed


theorem queue_needs_person_witness:
  "list_all live_op demo_ops \<and> pb_queue demo_bridge \<noteq> []
   \<and> list_all (\<lambda>q. queued_answer perm_demo demo_bridge q = None) (pb_queue demo_bridge)"
proof -
  let ?r = "bridge_run perm_demo demo_ops (bridge_new demo_key)"
  have l: "list_all live_op demo_ops" and q: "pb_queue demo_bridge \<noteq> []" by code_simp+
  have "?r = (fst ?r, fst (snd ?r), snd (snd ?r))" by simp
  from queue_needs_person[OF l this] l q show ?thesis by blast
qed

end
