(* ===== verification/Permission_Vault.thy ===== *)
theory Permission_Vault
  imports Permission_Bridge
begin

text \<open>
  Durable permission rules (\<open>permission.rs\<close>, \<open>permission_vault.rs\<close>): the stored form of a rule, the vault
  that holds them, and the operations of the shared bridge that change the vault and the live rules
  together.  Encryption, the key store and the file system are what the vault hides: it holds its rules
  and its key, and its next read or write may fail.
\<close>

subsection \<open>Stored rules\<close>

record stored_rule =
  sr_project :: string
  sr_tool :: string
  sr_action :: string
  sr_pattern :: "pattern_spec option"
  sr_description :: "string option"
  sr_decision :: perm_decision

definition stored_from_rule :: "rule \<Rightarrow> stored_rule" where
  "stored_from_rule r =
     \<lparr>sr_project = rl_project r, sr_tool = rl_tool r, sr_action = unwrap_or (rl_exact_action r) (rl_action r),
      sr_pattern = rl_pattern r, sr_description = rl_description r, sr_decision = rl_decision r\<rparr>"

definition key_material :: "stored_rule \<Rightarrow> string" where
  "key_material s = (case sr_pattern s of None \<Rightarrow> sr_action s | Some p \<Rightarrow> pattern_identity p)"

definition into_rule :: "perm_lib \<Rightarrow> string \<Rightarrow> stored_rule \<Rightarrow> rule" where
  "into_rule E key s =
     \<lparr>rl_project = sr_project s, rl_tool = sr_tool s, rl_action = action_fingerprint E key (key_material s),
      rl_exact_action = Some (sr_action s), rl_pattern = sr_pattern s, rl_description = sr_description s,
      rl_decision = sr_decision s, rl_persist = True, rl_connection = None\<rparr>"

definition clean_description :: "stored_rule \<Rightarrow> stored_rule" where
  "clean_description s = s\<lparr>sr_description := opt_filter (valid_rule_description (sr_tool s)) (sr_description s)\<rparr>"

definition decoded_rules :: "perm_lib \<Rightarrow> string \<Rightarrow> stored_rule list \<Rightarrow> rule list" where
  "decoded_rules E key stored =
     List.map_filter (\<lambda>s.
         if is_some_and (sr_pattern s) (\<lambda>p. pattern_validate (pl_regex E) p (sr_action s) \<noteq> Inr ()) then None
         else Some (into_rule E key (clean_description s))) stored"

subsection \<open>The vault\<close>

record vault =
  vt_key :: string
  vt_exists :: bool
  vt_rules :: "stored_rule list"
  vt_read_error :: "io_error option"
  vt_write_error :: "io_error option"

text \<open>\<open>dedupe\<close>: the newest rule of each project, tool and key material stays.\<close>

fun first_of_each :: "('a \<Rightarrow> 'k) \<Rightarrow> 'k list \<Rightarrow> 'a list \<Rightarrow> 'a list" where
  "first_of_each f seen [] = []"
| "first_of_each f seen (x # xs) =
     (if f x \<in> set seen then first_of_each f seen xs else x # first_of_each f (f x # seen) xs)"

definition stored_key :: "stored_rule \<Rightarrow> string \<times> string \<times> string" where
  "stored_key s = (sr_project s, sr_tool s, key_material s)"

definition dedupe :: "stored_rule list \<Rightarrow> stored_rule list" where
  "dedupe rules = rev (first_of_each stored_key [] (rev rules))"

definition vault_mutate ::
  "(stored_rule list \<Rightarrow> io_error + ('a \<times> stored_rule list)) \<Rightarrow> vault \<Rightarrow> io_error + ('a \<times> vault)" where
  "vault_mutate change v =
     (case vt_read_error v of
        Some e \<Rightarrow> Inl e
      | None \<Rightarrow> result_bind (change (dedupe (vt_rules v))) (\<lambda>(x, rules).
          case vt_write_error v of
            Some e \<Rightarrow> Inl e
          | None \<Rightarrow> Inr (x, v\<lparr>vt_rules := rules, vt_exists := True\<rparr>)))"

definition vault_mutate_existing ::
  "(stored_rule list \<Rightarrow> io_error + ('a \<times> stored_rule list)) \<Rightarrow> vault \<Rightarrow> io_error + ('a \<times> vault)" where
  "vault_mutate_existing change v =
     (if \<not> vt_exists v then Inl (NotFound ''permission-rule vault missing'') else vault_mutate change v)"

definition vault_load :: "vault \<Rightarrow> io_error + ((string \<times> stored_rule list) \<times> vault)" where
  "vault_load v =
     (case vt_read_error v of
        Some e \<Rightarrow> Inl e
      | None \<Rightarrow>
          let rules = dedupe (vt_rules v) in
          if length rules \<noteq> length (vt_rules v)
          then (case vt_write_error v of
                  Some e \<Rightarrow> Inl e
                | None \<Rightarrow> Inr ((vt_key v, rules), v\<lparr>vt_rules := rules, vt_exists := True\<rparr>))
          else Inr ((vt_key v, rules), v))"

definition load_rules_with_key :: "perm_lib \<Rightarrow> vault \<Rightarrow> io_error + ((string \<times> rule list) \<times> vault)" where
  "load_rules_with_key E v =
     result_bind (vault_load v) (\<lambda>((key, stored), v'). Inr ((key, decoded_rules E key stored), v'))"

definition load_existing_rules_with_key :: "perm_lib \<Rightarrow> vault \<Rightarrow> io_error + ((string \<times> rule list) \<times> vault)" where
  "load_existing_rules_with_key E v =
     (if \<not> vt_exists v then Inl (NotFound ''permission-rule vault missing'') else load_rules_with_key E v)"

definition load_rules :: "perm_lib \<Rightarrow> vault \<Rightarrow> rule list" where
  "load_rules E v = (case load_rules_with_key E v of Inl _ \<Rightarrow> [] | Inr ((_, rules), _) \<Rightarrow> rules)"

definition ensure_rules_file :: "vault \<Rightarrow> io_error + vault" where
  "ensure_rules_file v =
     (if vt_exists v then result_bind (vault_load v) (\<lambda>(_, v'). Inr v')
      else result_bind (vault_mutate (\<lambda>rules. Inr ((), rules)) v) (\<lambda>(_, v'). Inr v'))"

text \<open>A rule of one legacy source: \<open>canonical\<close> resolves a path, if it exists.\<close>

definition legacy_source_rule :: "(string \<Rightarrow> string option) \<Rightarrow> string \<Rightarrow> stored_rule \<Rightarrow> bool" where
  "legacy_source_rule canonical legacy_project s =
     (sr_project s \<noteq> []
      \<and> (sr_project s = legacy_project
         \<or> is_some_and (canonical legacy_project) (\<lambda>e. canonical (sr_project s) = Some e)))"

definition discard_legacy_rules :: "(string \<Rightarrow> string option) \<Rightarrow> string \<Rightarrow> vault \<Rightarrow> io_error + (nat \<times> vault)" where
  "discard_legacy_rules canonical legacy_project v =
     (if legacy_project = [] then Inl (InvalidInput ''legacy project identity required'')
      else vault_mutate_existing (\<lambda>rules.
        let kept = filter (\<lambda>s. \<not> legacy_source_rule canonical legacy_project s) rules in
        Inr (length rules - length kept, kept)) v)"

definition count_legacy_rules :: "(string \<Rightarrow> string option) \<Rightarrow> string \<Rightarrow> vault \<Rightarrow> io_error + nat" where
  "count_legacy_rules canonical legacy_project v =
     (if legacy_project = [] then Inl (InvalidInput ''legacy project identity required'')
      else if \<not> vt_exists v then Inl (NotFound ''permission-rule vault missing'')
      else result_bind (vault_load v) (\<lambda>((_, rules), _).
        Inr (length (filter (legacy_source_rule canonical legacy_project) rules))))"

definition stored_matches :: "perm_lib \<Rightarrow> string \<Rightarrow> string \<Rightarrow> string \<Rightarrow> string \<Rightarrow> stored_rule \<Rightarrow> bool" where
  "stored_matches E key project tool action s =
     ((sr_project s = project \<or> sr_project s = []) \<and> sr_tool s = tool
      \<and> (sr_action s = action \<or> action_fingerprint E key (key_material s) = action))"

definition remove_rule :: "perm_lib \<Rightarrow> string \<Rightarrow> string \<Rightarrow> string \<Rightarrow> vault \<Rightarrow> io_error + (bool \<times> vault)" where
  "remove_rule E project tool action v =
     vault_mutate (\<lambda>rules.
       let kept = filter (\<lambda>s. \<not> stored_matches E (vt_key v) project tool action s) rules in
       Inr (length kept \<noteq> length rules, kept)) v"

definition update_stored_rule_decision ::
  "perm_lib \<Rightarrow> string \<Rightarrow> string \<Rightarrow> string \<Rightarrow> perm_decision \<Rightarrow> vault \<Rightarrow> io_error + vault" where
  "update_stored_rule_decision E project tool action d v =
     result_bind (vault_mutate (\<lambda>rules.
         if list_ex (stored_matches E (vt_key v) project tool action) rules
         then Inr ((), map (\<lambda>s. if stored_matches E (vt_key v) project tool action s then s\<lparr>sr_decision := d\<rparr> else s) rules)
         else Inl (NotFound ''durable permission rule missing'')) v) (\<lambda>(_, v'). Inr v')"

definition append_rule :: "perm_lib \<Rightarrow> rule \<Rightarrow> vault \<Rightarrow> io_error + vault" where
  "append_rule E r v =
     (let action = unwrap_or (rl_exact_action r) (rl_action r) in
      if rl_exact_action r = None \<and> (starts_with ACTION_FINGERPRINT_PREFIX action \<or> is_legacy_fingerprint action)
      then Inl (InvalidData ''permission rule lacks exact action'')
      else let stored = (stored_from_rule r)\<lparr>sr_action := action\<rparr> in
        result_bind (checked_pattern E (sr_pattern stored) (sr_action stored)) (\<lambda>_.
        let stored' = clean_description stored in
        result_bind (vault_mutate (\<lambda>rules. Inr ((), filter (\<lambda>s. stored_key s \<noteq> stored_key stored') rules @ [stored'])) v)
          (\<lambda>(_, v'). Inr v')))"

subsection \<open>The bridge and the vault together\<close>

definition resolve_persisted_with_pattern ::
  "perm_lib \<Rightarrow> nat \<Rightarrow> perm_decision \<Rightarrow> string option \<Rightarrow> pattern_spec option \<Rightarrow> bridge \<Rightarrow> vault
     \<Rightarrow> io_error + (resolved option \<times> bridge \<times> vault)" where
  "resolve_persisted_with_pattern E n d description pattern b v =
     result_bind (resolve_with_pattern E n d Always description pattern b) (\<lambda>(r, proposed).
       case r of
         None \<Rightarrow> Inr (None, b, v)
       | Some res \<Rightarrow> result_bind (append_rule E (the (rs_persisted_rule res)) v) (\<lambda>v'. Inr (Some res, proposed, v')))"

definition remember_persisted ::
  "perm_lib \<Rightarrow> request \<Rightarrow> string option \<Rightarrow> pattern_spec option \<Rightarrow> bridge \<Rightarrow> vault
     \<Rightarrow> io_error + (cascaded list \<times> bridge \<times> vault)" where
  "remember_persisted E q description pattern b v =
     result_bind (remember_allowed_request E q description pattern b) (\<lambda>((r, cs), proposed).
       result_bind (append_rule E r v) (\<lambda>v'. Inr (cs, proposed, v')))"

text \<open>The durable operations take the vault of the project, if it has one.\<close>

definition unavailable :: io_error where
  "unavailable = OtherError ''permission rule store unavailable''"

definition revoke_with_storage ::
  "perm_lib \<Rightarrow> string \<Rightarrow> string option \<Rightarrow> string \<Rightarrow> string \<Rightarrow> bridge \<Rightarrow> vault option
     \<Rightarrow> io_error + (rule option \<times> bridge \<times> vault option)" where
  "revoke_with_storage E project connection tool action b v =
     (let key = action_key_for_project b project in
      case List.find (\<lambda>r. rl_project r = project \<and> rl_connection r = connection \<and> rl_tool r = tool
              \<and> (rl_action r = action \<or> rule_matches E r project tool action key)) (pb_rules b) of
        None \<Rightarrow> Inr (None, b, v)
      | Some current \<Rightarrow>
          result_bind
            (if rl_persist current
             then (case v of
                     None \<Rightarrow> Inl unavailable
                   | Some vt \<Rightarrow> result_bind (remove_rule E project tool action vt) (\<lambda>(gone, vt').
                       if gone then Inr (Some vt') else Inl (NotFound ''durable permission rule missing'')))
             else Inr v)
            (\<lambda>v'. case revoke E project connection tool action b of
               (removed, b1) \<Rightarrow>
                 Inr (removed, if is_some_and removed rl_persist then snd (revoke E [] None tool action b1) else b1, v')))"

definition update_decision_with_storage ::
  "perm_lib \<Rightarrow> string \<Rightarrow> string option \<Rightarrow> string \<Rightarrow> string \<Rightarrow> perm_decision \<Rightarrow> bridge \<Rightarrow> vault option
     \<Rightarrow> io_error + (rule option \<times> bridge \<times> vault option)" where
  "update_decision_with_storage E project connection tool action d b v =
     (case List.find (in_slot project connection tool action) (pb_rules b) of
        None \<Rightarrow> Inr (None, b, v)
      | Some current \<Rightarrow>
          result_bind
            (if rl_persist current
             then (case v of
                     None \<Rightarrow> Inl unavailable
                   | Some vt \<Rightarrow> result_bind (update_stored_rule_decision E project tool action d vt) (\<lambda>vt'. Inr (Some vt')))
             else Inr v)
            (\<lambda>v'. case update_decision project connection tool action d b of
               (updated, b1) \<Rightarrow>
                 Inr (updated, if rl_persist current then snd (update_decision [] None tool action d b1) else b1, v')))"

definition update_stored_pattern ::
  "perm_lib \<Rightarrow> string \<Rightarrow> string \<Rightarrow> string \<Rightarrow> string \<Rightarrow> pattern_spec option \<Rightarrow> vault \<Rightarrow> io_error + vault" where
  "update_stored_pattern E key project tool action pattern v =
     result_bind (vault_mutate (\<lambda>rules.
         let ours = (\<lambda>s. sr_project s = project \<and> sr_tool s = tool
                         \<and> action_fingerprint E key (key_material s) = action) in
         if list_ex ours rules then Inr ((), update_first ours (\<lambda>s. s\<lparr>sr_pattern := pattern\<rparr>) rules)
         else Inl (NotFound ''durable permission rule missing'')) v) (\<lambda>(_, v'). Inr v')"

definition update_pattern ::
  "perm_lib \<Rightarrow> string \<Rightarrow> string option \<Rightarrow> string \<Rightarrow> string \<Rightarrow> pattern_spec option \<Rightarrow> bridge \<Rightarrow> vault option
     \<Rightarrow> io_error + (rule option \<times> bridge \<times> vault option)" where
  "update_pattern E project connection tool action pattern b v =
     (case List.extract (in_slot project connection tool action) (pb_rules b) of
        None \<Rightarrow> Inr (None, b, v)
      | Some (before, current, after) \<Rightarrow>
          (case rl_exact_action current of
             None \<Rightarrow> Inl (InvalidData ''remembered action unavailable'')
           | Some original \<Rightarrow>
               result_bind (checked_pattern E pattern original) (\<lambda>_.
               let key = action_key_for_project b project;
                   next_action = action_fingerprint E key
                     (case pattern of None \<Rightarrow> original | Some p \<Rightarrow> pattern_identity p);
                   current' = current\<lparr>rl_pattern := pattern, rl_action := next_action\<rparr>;
                   rules = before @ current' # after in
               if list_ex (in_slot project connection tool next_action) (before @ after)
               then Inl (AlreadyExists ''matching rule already exists'')
               else if \<not> rl_persist current then Inr (Some current', b\<lparr>pb_rules := rules\<rparr>, v)
               else (case v of
                       None \<Rightarrow> Inl unavailable
                     | Some vt \<Rightarrow> result_bind (update_stored_pattern E key project tool action pattern vt) (\<lambda>vt'.
                         Inr (Some current',
                              b\<lparr>pb_rules := map (\<lambda>r. if in_slot [] None tool action r
                                   then r\<lparr>rl_pattern := pattern, rl_action := next_action\<rparr> else r) rules\<rparr>,
                              Some vt'))))))"

definition update_scope ::
  "perm_lib \<Rightarrow> string \<Rightarrow> string option \<Rightarrow> string \<Rightarrow> string \<Rightarrow> bool \<Rightarrow> bridge \<Rightarrow> (vault \<times> bool) option
     \<Rightarrow> io_error + (rule option \<times> bridge \<times> (vault \<times> bool) option)" where
  "update_scope E project connection tool action persist b durable =
     (case List.extract (in_slot project connection tool action) (pb_rules b) of
        None \<Rightarrow> Inr (None, b, durable)
      | Some (before, current, after) \<Rightarrow>
          if rl_connection current \<noteq> None
          then Inl (InvalidInput ''chat-scoped permission rules cannot change lifetime'')
          else if rl_persist current = persist then Inr (Some current, b, durable)
          else (case durable of
                  None \<Rightarrow> Inl unavailable
                | Some (vt, mirror_legacy) \<Rightarrow>
                    let updated = current\<lparr>rl_persist := persist\<rparr>;
                        rules = before @ updated # after;
                        mirrored = filter (\<lambda>r. \<not> in_slot [] None tool action r) rules
                          @ (if persist then [updated\<lparr>rl_project := []\<rparr>] else []) in
                    result_bind
                      (if persist then append_rule E updated vt
                       else result_bind (remove_rule E project tool action vt) (\<lambda>(gone, vt').
                         if gone then Inr vt' else Inl (NotFound ''durable permission rule missing'')))
                      (\<lambda>vt'. Inr (Some updated,
                         b\<lparr>pb_rules := (if mirror_legacy then mirrored else rules)\<rparr>, Some (vt', mirror_legacy)))))"

subsection \<open>Vault health\<close>

text \<open>\<open>healthy\<close> is the validator the server registers, if it has; the flag is \<open>durable_locked\<close>.\<close>

definition is_checkout :: "rule \<Rightarrow> bool" where
  "is_checkout r = starts_with ''checkout:'' (rl_project r)"

definition enforce_durable_health ::
  "(string \<Rightarrow> bool) option \<Rightarrow> string \<Rightarrow> bridge \<times> bool \<Rightarrow> bridge \<times> bool" where
  "enforce_durable_health healthy project s =
     (case s of (b, locked) \<Rightarrow>
        if \<not> list_ex (\<lambda>r. rl_persist r \<and> rl_project r = project) (pb_rules b) then (b, locked)
        else if is_some_and healthy (\<lambda>check. \<not> check project)
        then (if starts_with ''checkout:'' project
              then (b\<lparr>pb_rules := filter (\<lambda>r. \<not> rl_persist r \<or> rl_project r \<noteq> project) (pb_rules b)\<rparr>, locked)
              else (b\<lparr>pb_rules := filter (\<lambda>r. \<not> rl_persist r \<or> is_checkout r) (pb_rules b)\<rparr>, True))
        else (b, locked))"

definition drop_durable_rules_for_project :: "string \<Rightarrow> bridge \<times> bool \<Rightarrow> bridge \<times> bool" where
  "drop_durable_rules_for_project project s =
     (case s of (b, locked) \<Rightarrow>
        (b\<lparr>pb_rules := filter (\<lambda>r. \<not> rl_persist r \<or> rl_project r \<noteq> project) (pb_rules b)\<rparr>, locked))"

definition drop_legacy_durable_rules :: "bridge \<times> bool \<Rightarrow> bridge \<times> bool" where
  "drop_legacy_durable_rules s =
     (case s of (b, _) \<Rightarrow> (b\<lparr>pb_rules := filter (\<lambda>r. \<not> rl_persist r \<or> is_checkout r) (pb_rules b)\<rparr>, True))"

definition drop_durable_rules :: "bridge \<times> bool \<Rightarrow> bridge \<times> bool" where
  "drop_durable_rules s = (case s of (b, _) \<Rightarrow> (b\<lparr>pb_rules := filter (\<lambda>r. \<not> rl_persist r) (pb_rules b)\<rparr>, True))"

definition reseed_rules_with_key :: "perm_lib \<Rightarrow> string \<Rightarrow> rule list \<Rightarrow> bridge \<times> bool \<Rightarrow> bridge \<times> bool" where
  "reseed_rules_with_key E key rules s = (case s of (b, _) \<Rightarrow> (set_action_key_and_rules E key rules b, False))"

definition restore_durable_rules_with_key :: "perm_lib \<Rightarrow> string \<Rightarrow> rule list \<Rightarrow> bridge \<times> bool \<Rightarrow> bridge \<times> bool" where
  "restore_durable_rules_with_key E key rules s = (case s of (b, _) \<Rightarrow> (restore_durable_rules E key rules b, False))"

definition add_rules :: "perm_lib \<Rightarrow> rule list \<Rightarrow> bridge \<Rightarrow> bridge" where
  "add_rules E rules b =
     b\<lparr>pb_rules := pb_rules b @ List.map_filter (\<lambda>r.
         if rl_exact_action r = None then None
         else map_option (\<lambda>a. r\<lparr>rl_action := a\<rparr>)
                (stored_action_key E (rl_action r) (action_key_for_project b (rl_project r)))) rules\<rparr>"

definition add_project_rules :: "perm_lib \<Rightarrow> string \<Rightarrow> string \<Rightarrow> rule list \<Rightarrow> bridge \<Rightarrow> bridge" where
  "add_project_rules E project key rules b =
     (let b1 = set_project_action_key project key b in
      b1\<lparr>pb_rules := filter (\<lambda>r. rl_project r \<noteq> project \<or> \<not> rl_persist r) (pb_rules b)
           @ filter (\<lambda>r. rl_project r = project \<and> rl_exact_action r \<noteq> None \<and> is_action_fingerprint E (rl_action r) key) rules\<rparr>)"

text \<open>\<open>enqueue_request\<close> up to the observer: withdraw durable answers of an unhealthy vault, then ask.\<close>

definition enqueue_request ::
  "perm_lib \<Rightarrow> (string \<Rightarrow> bool) option \<Rightarrow> string \<Rightarrow> string \<Rightarrow> string \<Rightarrow> string \<Rightarrow> string option
     \<Rightarrow> bridge \<times> bool \<Rightarrow> outcome \<times> bridge \<times> bool" where
  "enqueue_request E healthy project connection tool action agent s =
     (case enforce_durable_health healthy project s of
        (b, locked) \<Rightarrow> (case request_for_project_as E project connection tool action agent b of
                         (out, b') \<Rightarrow> (out, b', locked)))"

subsection \<open>An unhealthy vault answers nothing\<close>

lemma answers_project: "answers E project connection tool action key r \<Longrightarrow> rl_project r = project"
  by (simp add: answers_def rule_matches_def)

lemma effective_rule_answers:
  "effective_rule E rules project connection tool action key = Some r
     \<Longrightarrow> r \<in> set rules \<and> answers E project connection tool action key r"
  using effective_rule_best by (fastforce simp: best_rule_def)

text \<open>When the vault of a project fails its check, a request of that project is answered without a person only by a rule
  that was never durable: a session or chat answer of this host.\<close>

theorem unhealthy_vault_asks:
  assumes "\<not> check project"
    "fst (enqueue_request E (Some check) project connection tool action agent (b, locked)) = Auto d"
  shows "list_ex (\<lambda>r. \<not> rl_persist r \<and> rl_decision r = d
    \<and> answers E project connection tool action (action_key_for_project b project) r) (pb_rules b)"
proof -
  obtain b1 locked1 where h: "enforce_durable_health (Some check) project (b, locked) = (b1, locked1)" by force
  have sub: "set (pb_rules b1) \<subseteq> set (pb_rules b)" and k: "action_key_for_project b1 = action_key_for_project b"
    and gone: "r \<in> set (pb_rules b1) \<Longrightarrow> rl_project r = project \<Longrightarrow> \<not> rl_persist r" for r
    using h assms(1) by (auto simp: enforce_durable_health_def is_checkout_def action_key_for_project_def list_ex_iff
        split: if_splits)
  obtain r where "effective_rule E (pb_rules b1) project connection tool action (action_key_for_project b project) = Some r"
    "rl_decision r = d"
    using assms(2) h k by (auto simp: enqueue_request_def request_for_project_as_def answering_rule_def Let_def split: option.splits)
  with effective_rule_answers have "r \<in> set (pb_rules b1)" "rl_decision r = d"
    "answers E project connection tool action (action_key_for_project b project) r" by blast+
  with sub gone[of r] answers_project[of E project connection tool action _ r] show ?thesis
    unfolding list_ex_iff by blast
qed

subsection \<open>Durable answers in the bridge and in the vault\<close>

definition durable_rules :: "bridge \<Rightarrow> string \<Rightarrow> rule list" where
  "durable_rules b project = filter (\<lambda>r. rl_persist r \<and> rl_project r = project) (pb_rules b)"

definition vault_rules_of :: "perm_lib \<Rightarrow> vault \<Rightarrow> string \<Rightarrow> rule list" where
  "vault_rules_of E v project = filter (\<lambda>r. rl_project r = project) (load_rules E v)"

text \<open>No two of the actions and patterns in the vault, and the one to add, share a fingerprint.\<close>

definition no_collision :: "perm_lib \<Rightarrow> vault \<Rightarrow> rule \<Rightarrow> bool" where
  "no_collision E v r =
     inj_on (action_fingerprint E (vt_key v)) (insert (key_material (stored_from_rule r)) (key_material ` set (vt_rules v)))"

lemma set_first_of_each: "set (first_of_each f seen xs) \<subseteq> set xs"
  by (induction xs arbitrary: seen) auto

lemma first_of_each_fresh: "f ` set (first_of_each f seen xs) \<inter> set seen = {}"
proof (induction xs arbitrary: seen)
  case (Cons x xs)
  show ?case using Cons[of seen] Cons[of "f x # seen"] by auto
qed simp

lemma distinct_first_of_each: "distinct (map f (first_of_each f seen xs))"
proof (induction xs arbitrary: seen)
  case (Cons x xs)
  show ?case using Cons first_of_each_fresh[of f "f x # seen" xs] by auto
qed simp

lemma first_of_each_id: "distinct (map f xs) \<Longrightarrow> f ` set xs \<inter> set seen = {} \<Longrightarrow> first_of_each f seen xs = xs"
  by (induction xs arbitrary: seen) auto

lemma dedupe_distinct: "distinct (map stored_key (dedupe xs))"
  unfolding dedupe_def using distinct_first_of_each by (metis distinct_rev rev_map)

lemma dedupe_id: "distinct (map stored_key xs) \<Longrightarrow> dedupe xs = xs"
  unfolding dedupe_def by (simp add: first_of_each_id rev_map[symmetric])

lemma set_dedupe: "set (dedupe xs) \<subseteq> set xs"
  unfolding dedupe_def using set_first_of_each by force

lemma distinct_replaced:
  "distinct (map stored_key xs) \<Longrightarrow> distinct (map stored_key (filter (\<lambda>s. stored_key s \<noteq> stored_key t) xs @ [t]))"
  by (auto simp: distinct_map_filter)

lemma rule_description_valid:
  "opt_filter (valid_rule_description (rq_tool q)) (rl_description (rule_for_request E b q d s description pattern))
     = rl_description (rule_for_request E b q d s description pattern)"
  by (auto simp: rule_for_request_def opt_filter_def opt_or_def safe_description_valid user_description_valid
      split: option.splits)

lemma stored_answer:
  fixes d :: perm_decision and description :: "string option"
  assumes "action_key_for_project b (rq_project q) = key" "checked_pattern E pattern (rq_action q) = Inr ()"
  defines "r \<equiv> rule_for_request E b q d Always description pattern"
  shows "clean_description (stored_from_rule r) = stored_from_rule r" "into_rule E key (stored_from_rule r) = r"
    "decoded_rules E key [stored_from_rule r] = [r]"
proof -
  show c: "clean_description (stored_from_rule r) = stored_from_rule r"
    using rule_description_valid[of q E b d Always description pattern] unfolding r_def
    by (simp add: clean_description_def stored_from_rule_def rule_for_request_def)
  show i: "into_rule E key (stored_from_rule r) = r"
    using assms(1) unfolding r_def
    by (auto simp: into_rule_def stored_from_rule_def rule_for_request_def key_material_def split: option.splits)
  show "decoded_rules E key [stored_from_rule r] = [r]"
    using assms(2) c i unfolding r_def
    by (auto simp: decoded_rules_def map_filter_simps checked_pattern_def stored_from_rule_def rule_for_request_def
        is_some_and_iff split: option.splits sum.splits)
qed

lemma clean_fields [simp]:
  "sr_project (clean_description s) = sr_project s" "sr_tool (clean_description s) = sr_tool s"
  "key_material (clean_description s) = key_material s"
  by (simp_all add: clean_description_def key_material_def split: option.splits)

lemma decoded_append: "decoded_rules E key (xs @ ys) = decoded_rules E key xs @ decoded_rules E key ys"
  by (simp add: decoded_rules_def map_filter_def)

lemma decoded_filter:
  assumes "\<And>s. s \<in> set xs \<Longrightarrow> Q s \<longleftrightarrow> P (into_rule E key (clean_description s))"
  shows "decoded_rules E key (filter Q xs) = filter P (decoded_rules E key xs)"
  using assms by (induction xs) (auto simp: decoded_rules_def map_filter_simps split: if_splits)

lemma load_after_mutate:
  assumes "vault_mutate (\<lambda>rules. Inr (x, change rules)) v = Inr (y, v')" "distinct (map stored_key (change (dedupe (vt_rules v))))"
  shows "load_rules E v' = decoded_rules E (vt_key v) (change (dedupe (vt_rules v)))"
proof -
  have v': "vt_rules v' = change (dedupe (vt_rules v))" "vt_read_error v' = None" "vt_key v' = vt_key v"
    using assms(1) by (auto simp: vault_mutate_def split: option.splits)
  then show ?thesis using assms(2)
    by (simp add: load_rules_def load_rules_with_key_def vault_load_def dedupe_id Let_def)
qed

lemma load_before_mutate:
  assumes "vault_mutate change v = Inr (y, v')"
  shows "load_rules E v = decoded_rules E (vt_key v) (dedupe (vt_rules v))"
  using assms by (auto simp: load_rules_def load_rules_with_key_def vault_load_def vault_mutate_def Let_def
      result_bind_def split: option.splits sum.splits)

lemma append_loads:
  assumes "append_rule E r v = Inr v'" "rl_exact_action r \<noteq> None" "clean_description (stored_from_rule r) = stored_from_rule r"
    "decoded_rules E (vt_key v) [stored_from_rule r] = [r]" "rl_connection r = None"
    "rl_action r = action_fingerprint E (vt_key v) (key_material (stored_from_rule r))" "no_collision E v r"
  shows "load_rules E v' = filter (\<lambda>x. \<not> same_key x r) (load_rules E v) @ [r]"
proof -
  let ?t = "stored_from_rule r"
  define change where "change rules = filter (\<lambda>s. stored_key s \<noteq> stored_key ?t) rules @ [?t]" for rules
  have t: "(stored_from_rule r)\<lparr>sr_action := unwrap_or (rl_exact_action r) (rl_action r)\<rparr> = ?t"
    by (simp add: stored_from_rule_def)
  obtain u where m: "vault_mutate (\<lambda>rules. Inr ((), change rules)) v = Inr (u, v')"
    using assms(1-3) by (auto simp: append_rule_def Let_def t change_def result_bind_eq_Inr)
  have same: "(stored_key s \<noteq> stored_key ?t) \<longleftrightarrow> \<not> same_key (into_rule E (vt_key v) (clean_description s)) r"
    if "s \<in> set (dedupe (vt_rules v))" for s
  proof -
    have "s \<in> set (vt_rules v)" using that set_dedupe by blast
    then have "action_fingerprint E (vt_key v) (key_material s) = rl_action r \<longleftrightarrow> key_material s = key_material ?t"
      using assms(6,7) unfolding no_collision_def by (metis (no_types, lifting) imageI inj_on_def insert_iff)
    moreover have "sr_project ?t = rl_project r" "sr_tool ?t = rl_tool r" by (simp_all add: stored_from_rule_def)
    ultimately show ?thesis using assms(5) by (simp add: stored_key_def same_key_def into_rule_def)
  qed
  have "load_rules E v' = decoded_rules E (vt_key v) (change (dedupe (vt_rules v)))"
    using load_after_mutate[OF m] distinct_replaced[OF dedupe_distinct] by (simp add: change_def)
  also have "\<dots> = filter (\<lambda>x. \<not> same_key x r) (load_rules E v) @ [r]"
    using load_before_mutate[OF m] assms(4) same
    by (simp add: change_def decoded_append decoded_filter[where P = "\<lambda>x. \<not> same_key x r"])
  finally show ?thesis .
qed

lemma persisted_cases:
  assumes "resolve_persisted_with_pattern E n d description pattern b v = Inr (Some res, b', v')"
  obtains q before after where "q \<in> set (pb_queue b)" "rq_id q = n" "rs_project res = rq_project q"
    "checked_pattern E pattern (rq_action q) = Inr ()"
    "rs_persisted_rule res = Some (rule_for_request E b q d Always description pattern)"
    "append_rule E (rule_for_request E b q d Always description pattern) v = Inr v'"
    "pb_rules b' = filter (\<lambda>x. \<not> same_key x (rule_for_request E b q d Always description pattern)) (pb_rules b)
       @ [rule_for_request E b q d Always description pattern]"
proof -
  have r: "resolve_with_pattern E n d Always description pattern b = Inr (Some res, b')"
    and a: "append_rule E (the (rs_persisted_rule res)) v = Inr v'"
    using assms by (auto simp: resolve_persisted_with_pattern_def result_bind_eq_Inr split: option.splits prod.splits)
  obtain before q after where q: "pb_queue b = before @ q # after" "rq_id q = n"
    "checked_pattern E pattern (rq_action q) = Inr ()"
    and ans: "answer_request E (before @ after) q d Always description pattern b = (res, b')"
    using resolve_cases[OF r] by metis
  have "rule_for_request E (b\<lparr>pb_queue := before @ after\<rparr>) = rule_for_request E b" by (rule same_keys_rule) simp_all
  then have "rs_persisted_rule res = Some (rule_for_request E b q d Always description pattern)"
    "rs_project res = rq_project q"
    "pb_rules b' = filter (\<lambda>x. \<not> same_key x (rule_for_request E b q d Always description pattern)) (pb_rules b)
       @ [rule_for_request E b q d Always description pattern]"
    using ans by (auto simp: answer_request_def install_rule_def Let_def)
  with q a that[of q] show ?thesis by simp
qed

text \<open>C15. A durable answer changes the bridge and the vault alike: when the vault holds exactly the durable rules of a
  project, in their order, it still does after the answer, and the new rule, read back from the vault, is
  the rule that the bridge installed.\<close>

theorem durable_answer_mirrored:
  assumes "durable_rules b project = vault_rules_of E v project"
    "resolve_persisted_with_pattern E n d description pattern b v = Inr (Some res, b', v')"
    "rs_project res = project" "vt_key v = action_key_for_project b project"
    "no_collision E v (the (rs_persisted_rule res))"
  shows "durable_rules b' project = vault_rules_of E v' project
    \<and> last (load_rules E v') = the (rs_persisted_rule res)"
proof -
  obtain q where c: "checked_pattern E pattern (rq_action q) = Inr ()" and p: "rs_project res = rq_project q"
    and pr: "rs_persisted_rule res = Some (rule_for_request E b q d Always description pattern)"
    and a: "append_rule E (rule_for_request E b q d Always description pattern) v = Inr v'"
    and b': "pb_rules b' = filter (\<lambda>x. \<not> same_key x (rule_for_request E b q d Always description pattern)) (pb_rules b)
       @ [rule_for_request E b q d Always description pattern]"
    using persisted_cases[OF assms(2)] by metis
  let ?r = "rule_for_request E b q d Always description pattern"
  have k: "action_key_for_project b (rq_project q) = vt_key v" using p assms(3,4) by simp
  note st = stored_answer[OF k c, of d description]
  have fp: "rl_action ?r = action_fingerprint E (vt_key v) (key_material (stored_from_rule ?r))"
    using st(2) by (metis into_rule_def rule.select_convs(3))
  have shape: "rl_exact_action ?r \<noteq> None" "rl_connection ?r = None" "rl_persist ?r" "rl_project ?r = project"
    using p assms(3) by (simp_all add: rule_for_request_def)
  have load: "load_rules E v' = filter (\<lambda>x. \<not> same_key x ?r) (load_rules E v) @ [?r]"
    using append_loads[OF a shape(1) st(1,3) shape(2) fp] assms(5) pr by simp
  have "durable_rules b' project = filter (\<lambda>x. \<not> same_key x ?r) (durable_rules b project) @ [?r]"
    using shape by (simp add: durable_rules_def b' filter_filter conj_commute)
  also have "\<dots> = vault_rules_of E v' project"
    using shape load assms(1) by (simp add: vault_rules_of_def filter_filter conj_commute)
  finally show ?thesis using load pr by simp
qed

subsection \<open>Examples\<close>

theorem unhealthy_vault_asks_witness:
  "fst (enqueue_request perm_demo (Some (\<lambda>_. False)) ''p'' ''c3'' ''Bash'' ''cargo test'' None (demo_bridge, False)) = Auto Allow
   \<and> list_ex (\<lambda>r. \<not> rl_persist r \<and> rl_decision r = Allow
       \<and> answers perm_demo ''p'' ''c3'' ''Bash'' ''cargo test'' (action_key_for_project demo_bridge ''p'') r)
     (pb_rules demo_bridge)"
proof -
  have a: "fst (enqueue_request perm_demo (Some (\<lambda>_. False)) ''p'' ''c3'' ''Bash'' ''cargo test'' None (demo_bridge, False)) = Auto Allow"
    by code_simp
  from unhealthy_vault_asks[OF _ a] a show ?thesis by simp
qed

definition demo_vault :: vault where
  "demo_vault = \<lparr>vt_key = demo_key, vt_exists = True,
     vt_rules = [\<lparr>sr_project = ''p'', sr_tool = ''Bash'', sr_action = ''git status'', sr_pattern = None,
       sr_description = Some ''Check Git status'', sr_decision = Allow\<rparr>],
     vt_read_error = None, vt_write_error = None\<rparr>"

definition demo_asking :: bridge where
  "demo_asking = snd (request_for_project_as perm_demo ''p'' ''c1'' ''Bash'' ''API_KEY=old npm test'' None
     (with_rules perm_demo demo_key (load_rules perm_demo demo_vault)))"

abbreviation demo_answer :: "io_error + (resolved option \<times> bridge \<times> vault)" where
  "demo_answer \<equiv> resolve_persisted_with_pattern perm_demo 1 Allow None (Some token_pattern) demo_asking demo_vault"

abbreviation demo_resolved :: resolved where
  "demo_resolved \<equiv> the (fst (projr demo_answer))"

theorem durable_answer_mirrored_witness:
  "\<not> isl demo_answer \<and> length (load_rules perm_demo (snd (snd (projr demo_answer)))) = 2
   \<and> durable_rules (fst (snd (projr demo_answer))) ''p'' = vault_rules_of perm_demo (snd (snd (projr demo_answer))) ''p''
   \<and> last (load_rules perm_demo (snd (snd (projr demo_answer)))) = the (rs_persisted_rule demo_resolved)"
proof -
  have m: "durable_rules demo_asking ''p'' = vault_rules_of perm_demo demo_vault ''p''"
    and ok: "\<not> isl demo_answer" "fst (projr demo_answer) \<noteq> None"
    and p: "rs_project demo_resolved = ''p''" and k: "vt_key demo_vault = action_key_for_project demo_asking ''p''"
    and l: "length (load_rules perm_demo (snd (snd (projr demo_answer)))) = 2"
    and n: "key_material (stored_from_rule (the (rs_persisted_rule demo_resolved))) = pattern_identity token_pattern"
      "map key_material (vt_rules demo_vault) = [''git status'']"
      "action_fingerprint perm_demo (vt_key demo_vault) (pattern_identity token_pattern)
        \<noteq> action_fingerprint perm_demo (vt_key demo_vault) ''git status''"
    by code_simp+
  have r: "demo_answer = Inr (Some demo_resolved, fst (snd (projr demo_answer)), snd (snd (projr demo_answer)))"
    using ok by (metis option.collapse prod.collapse sum.collapse(2))
  have "no_collision perm_demo demo_vault (the (rs_persisted_rule demo_resolved))"
    using n(3) unfolding no_collision_def n(1) set_map[symmetric] n(2) by (auto simp: inj_on_def)
  from durable_answer_mirrored[OF m r p k this] ok l show ?thesis by blast
qed

end
