(* ===== verification/Permission_Shared.thy ===== *)
theory Permission_Shared
  imports Permission_Vault
begin

text \<open>
  The shared bridge (\<open>SharedPermissionBridge\<close> of \<open>permission.rs\<close>): threads that ask and wait, and threads
  that answer.  An answer is decided under the bridge lock and put into the table of results under a
  second lock, so the two are separate steps here; a waiter takes its result, times out or goes away.
\<close>

subsection \<open>State and steps\<close>

record shared =
  sp_bridge :: bridge
  sp_locked :: bool
  sp_results :: "nat \<Rightarrow> perm_decision option"
  sp_delivering :: "answer_log list"
  sp_waiting :: "request list"
  sp_returned :: answer_log
  sp_asked :: "request list"
  sp_answered :: answer_log

text \<open>\<open>sp_delivering\<close> holds the answers of threads between the two locks; \<open>sp_returned\<close> what waiters returned;
  \<open>sp_asked\<close> and \<open>sp_answered\<close> are the history of the bridge.\<close>

definition shared_new :: "bridge \<Rightarrow> shared" where
  "shared_new b =
     \<lparr>sp_bridge = b, sp_locked = False, sp_results = (\<lambda>_. None), sp_delivering = [], sp_waiting = [],
      sp_returned = [], sp_asked = [], sp_answered = []\<rparr>"

definition results_insert :: "answer_log \<Rightarrow> (nat \<Rightarrow> perm_decision option) \<Rightarrow> nat \<Rightarrow> perm_decision option" where
  "results_insert log results = fold (\<lambda>(n, d) m. m(n := Some d)) log results"

definition is_pending :: "bridge \<Rightarrow> nat \<Rightarrow> bool" where
  "is_pending b n = list_ex (\<lambda>q. rq_id q = n) (pb_queue b)"

definition shared_ask ::
  "perm_lib \<Rightarrow> (string \<Rightarrow> bool) option \<Rightarrow> string \<Rightarrow> string \<Rightarrow> string \<Rightarrow> string \<Rightarrow> string option \<Rightarrow> shared \<Rightarrow> shared" where
  "shared_ask E healthy project connection tool action agent s =
     (case enqueue_request E healthy project connection tool action agent (sp_bridge s, sp_locked s) of
        (Auto _, b, locked) \<Rightarrow> s\<lparr>sp_bridge := b, sp_locked := locked\<rparr>
      | (Pending _, b, locked) \<Rightarrow>
          s\<lparr>sp_bridge := b, sp_locked := locked, sp_waiting := sp_waiting s @ [last (pb_queue b)],
            sp_asked := sp_asked s @ [last (pb_queue b)]\<rparr>)"

text \<open>An answer, a cancellation or a change of the rules, under the bridge lock.\<close>

definition shared_apply :: "perm_lib \<Rightarrow> bridge_op \<Rightarrow> shared \<Rightarrow> shared" where
  "shared_apply E op s =
     (case bridge_apply E op (sp_bridge s) of
        (_, log, b) \<Rightarrow> s\<lparr>sp_bridge := b, sp_answered := sp_answered s @ log,
          sp_delivering := (if log = [] then sp_delivering s else sp_delivering s @ [log])\<rparr>)"

definition cancel_op :: "nat \<Rightarrow> bridge_op" where
  "cancel_op n = OpResolve n Deny Once None None"

text \<open>The results lock of the thread that answered.\<close>

definition shared_deliver :: "nat \<Rightarrow> shared \<Rightarrow> shared" where
  "shared_deliver i s =
     s\<lparr>sp_results := results_insert (sp_delivering s ! i) (sp_results s),
       sp_delivering := take i (sp_delivering s) @ drop (Suc i) (sp_delivering s)\<rparr>"

definition forget_waiter :: "nat \<Rightarrow> shared \<Rightarrow> shared" where
  "forget_waiter n s =
     s\<lparr>sp_results := (sp_results s)(n := None), sp_waiting := filter (\<lambda>q. rq_id q \<noteq> n) (sp_waiting s)\<rparr>"

definition shared_take :: "nat \<Rightarrow> perm_decision \<Rightarrow> shared \<Rightarrow> shared" where
  "shared_take n d s = (forget_waiter n s)\<lparr>sp_returned := sp_returned s @ [(n, d)]\<rparr>"

text \<open>\<open>expire\<close>: withdraw the request, or take a result that is already there.\<close>

definition shared_expire :: "perm_lib \<Rightarrow> perm_decision \<Rightarrow> nat \<Rightarrow> shared \<Rightarrow> shared" where
  "shared_expire E on_timeout n s =
     (if is_pending (sp_bridge s) n
      then (case bridge_apply E (OpResolve n on_timeout Once None None) (sp_bridge s) of
              (_, log, b) \<Rightarrow>
                s\<lparr>sp_bridge := b, sp_answered := sp_answered s @ log,
                  sp_waiting := filter (\<lambda>q. rq_id q \<noteq> n) (sp_waiting s), sp_returned := sp_returned s @ [(n, on_timeout)]\<rparr>)
      else shared_take n (unwrap_or (sp_results s n) on_timeout) s)"

text \<open>\<open>AsyncAsk::drop\<close>: cancel, then clear any result.\<close>

definition shared_drop :: "perm_lib \<Rightarrow> nat \<Rightarrow> shared \<Rightarrow> shared" where
  "shared_drop E n s =
     (case bridge_apply E (cancel_op n) (sp_bridge s) of
        (_, log, b) \<Rightarrow> forget_waiter n (s\<lparr>sp_bridge := b, sp_answered := sp_answered s @ log\<rparr>))"

inductive shared_reach :: "perm_lib \<Rightarrow> (string \<Rightarrow> bool) option \<Rightarrow> perm_decision \<Rightarrow> string \<Rightarrow> shared \<Rightarrow> bool"
  for E healthy on_timeout key
where
  start: "shared_reach E healthy on_timeout key (shared_new (bridge_new key))"
| ask: "shared_reach E healthy on_timeout key s
    \<Longrightarrow> shared_reach E healthy on_timeout key (shared_ask E healthy project connection tool action agent s)"
| operate: "shared_reach E healthy on_timeout key s \<Longrightarrow> \<not> is_request op
    \<Longrightarrow> shared_reach E healthy on_timeout key (shared_apply E op s)"
| deliver: "shared_reach E healthy on_timeout key s \<Longrightarrow> i < length (sp_delivering s)
    \<Longrightarrow> shared_reach E healthy on_timeout key (shared_deliver i s)"
| take_result: "shared_reach E healthy on_timeout key s \<Longrightarrow> q \<in> set (sp_waiting s) \<Longrightarrow> sp_results s (rq_id q) = Some d
    \<Longrightarrow> shared_reach E healthy on_timeout key (shared_take (rq_id q) d s)"
| expire: "shared_reach E healthy on_timeout key s \<Longrightarrow> q \<in> set (sp_waiting s)
    \<Longrightarrow> shared_reach E healthy on_timeout key (shared_expire E on_timeout (rq_id q) s)"
| drop_waiter: "shared_reach E healthy on_timeout key s \<Longrightarrow> q \<in> set (sp_waiting s)
    \<Longrightarrow> shared_reach E healthy on_timeout key (shared_drop E (rq_id q) s)"

subsection \<open>Answers reach their waiters\<close>

text \<open>Where the answer of an id can be: still to come, on its way, or in the table.\<close>

definition reachable_answer :: "shared \<Rightarrow> nat \<Rightarrow> bool" where
  "reachable_answer s n =
     (is_pending (sp_bridge s) n \<or> n \<in> fst ` set (concat (sp_delivering s)) \<or> sp_results s n \<noteq> None)"

text \<open>A waiter waits once and returns at most once.\<close>

definition waiters_ok :: "shared \<Rightarrow> bool" where
  "waiters_ok s =
     (distinct (map rq_id (sp_waiting s) @ map fst (sp_returned s))
      \<and> set (map rq_id (sp_waiting s) @ map fst (sp_returned s)) \<subseteq> {1..<Suc (length (sp_asked s))})"

text \<open>What is in the table, on its way to it or returned was given as an answer, time-outs apart.\<close>

definition answers_given :: "perm_decision \<Rightarrow> shared \<Rightarrow> bool" where
  "answers_given on_timeout s =
     ((\<forall>n d. sp_results s n = Some d \<longrightarrow> (n, d) \<in> set (sp_answered s))
      \<and> set (concat (sp_delivering s)) \<subseteq> set (sp_answered s)
      \<and> (\<forall>n d. (n, d) \<in> set (sp_returned s) \<longrightarrow> d = on_timeout \<or> (n, d) \<in> set (sp_answered s)))"

definition shared_ok :: "perm_decision \<Rightarrow> shared \<Rightarrow> bool" where
  "shared_ok on_timeout s =
     (accounted (sp_asked s) (sp_answered s) (sp_bridge s) \<and> waiters_ok s \<and> answers_given on_timeout s
      \<and> (\<forall>q\<in>set (sp_waiting s). reachable_answer s (rq_id q)))"

lemma accounted_pending:
  assumes "accounted asked answered b"
  shows "is_pending b n \<longleftrightarrow> n \<in> {1..<Suc (length asked)} \<and> n \<notin> fst ` set answered"
proof -
  have "rq_id ` set asked = {1..<Suc (length asked)}" using assms unfolding accounted_def by (metis set_map set_upt)
  moreover have "pb_queue b = filter (\<lambda>q. rq_id q \<notin> fst ` set answered) asked" using assms by (simp add: accounted_def)
  moreover have "is_pending b n \<longleftrightarrow> n \<in> rq_id ` set (pb_queue b)" by (auto simp: is_pending_def list_ex_iff)
  moreover have "rq_id ` set (filter (\<lambda>q. rq_id q \<notin> fst ` set answered) asked) = rq_id ` set asked - fst ` set answered"
    by auto
  ultimately show ?thesis by simp
qed

lemma results_insert_Cons: "results_insert ((k, d) # log) m = results_insert log (m(k := Some d))"
  by (simp add: results_insert_def)

lemma results_insert_Some:
  "results_insert log m n = Some d \<Longrightarrow> (n, d) \<in> set log \<or> m n = Some d"
proof (induction log arbitrary: m)
  case (Cons x log)
  obtain k e where x: "x = (k, e)" by (cases x)
  from Cons.IH[OF Cons.prems[unfolded x results_insert_Cons]] show ?case by (auto simp: x split: if_splits)
qed (simp add: results_insert_def)

lemma results_insert_kept: "m n \<noteq> None \<or> n \<in> fst ` set log \<Longrightarrow> results_insert log m n \<noteq> None"
proof (induction log arbitrary: m)
  case (Cons x log)
  obtain k d where x: "x = (k, d)" by (cases x)
  show ?case unfolding x results_insert_Cons by (rule Cons.IH) (use Cons.prems x in auto)
qed (simp add: results_insert_def)

text \<open>An operation under the bridge lock moves ids from the queue to the answers in delivery.\<close>

lemma ok_apply:
  assumes "shared_ok on_timeout s" "\<not> is_request op"
  shows "shared_ok on_timeout (shared_apply E op s)"
proof -
  obtain new log b where a: "bridge_apply E op (sp_bridge s) = (new, log, b)" by (metis prod_cases3)
  have old: "accounted (sp_asked s) (sp_answered s) (sp_bridge s)" using assms(1) by (simp add: shared_ok_def)
  have acc: "accounted (sp_asked s) (sp_answered s @ log) b"
    using accounted_apply[OF old _ a] assms(2) by auto
  have "reachable_answer (shared_apply E op s) n" if "reachable_answer s n" for n
    using that accounted_pending[OF old, of n] accounted_pending[OF acc, of n]
    by (auto simp: reachable_answer_def shared_apply_def a)
  moreover have "answers_given on_timeout (shared_apply E op s)"
    using assms(1) by (auto simp: shared_ok_def answers_given_def shared_apply_def a)
  ultimately show ?thesis using acc assms(1) by (auto simp: shared_ok_def shared_apply_def waiters_ok_def a)
qed

lemma ok_deliver:
  assumes "shared_ok on_timeout s" "i < length (sp_delivering s)"
  shows "shared_ok on_timeout (shared_deliver i s)"
proof -
  let ?log = "sp_delivering s ! i" and ?rest = "take i (sp_delivering s) @ drop (Suc i) (sp_delivering s)"
  have d: "set (concat (sp_delivering s)) = set ?log \<union> set (concat ?rest)"
    by (subst id_take_nth_drop[OF assms(2)]) auto
  have "reachable_answer (shared_deliver i s) n" if "reachable_answer s n" for n
    using that results_insert_kept[of "sp_results s" n ?log] unfolding reachable_answer_def d
    by (auto simp: shared_deliver_def image_Un simp del: set_concat)
  moreover have "answers_given on_timeout (shared_deliver i s)"
    using assms(1) d results_insert_Some[of ?log "sp_results s"]
    by (auto simp: shared_ok_def answers_given_def shared_deliver_def simp del: set_concat) blast+
  ultimately show ?thesis using assms(1) by (auto simp: shared_ok_def shared_deliver_def waiters_ok_def)
qed

lemma ok_forget:
  assumes "shared_ok on_timeout s"
  shows "shared_ok on_timeout (forget_waiter n s)"
proof -
  have "reachable_answer (forget_waiter n s) m" if "reachable_answer s m" "m \<noteq> n" for m
    using that by (auto simp: reachable_answer_def forget_waiter_def)
  moreover have "waiters_ok (forget_waiter n s)" "answers_given on_timeout (forget_waiter n s)"
    using assms by (auto simp: shared_ok_def waiters_ok_def answers_given_def forget_waiter_def distinct_map_filter)
  ultimately show ?thesis using assms by (auto simp: shared_ok_def forget_waiter_def)
qed

text \<open>A waiter that leaves with an answer.\<close>

lemma ok_returned:
  assumes "shared_ok on_timeout s" "q \<in> set (sp_waiting s)" "d = on_timeout \<or> (rq_id q, d) \<in> set (sp_answered s)"
    "sp_waiting s' = filter (\<lambda>p. rq_id p \<noteq> rq_id q) (sp_waiting s)" "sp_returned s' = sp_returned s @ [(rq_id q, d)]"
    "sp_asked s' = sp_asked s"
  shows "waiters_ok s'"
proof -
  have "distinct (map rq_id (sp_waiting s) @ map fst (sp_returned s))"
    "set (map rq_id (sp_waiting s) @ map fst (sp_returned s)) \<subseteq> {1..<Suc (length (sp_asked s))}"
    using assms(1) unfolding shared_ok_def waiters_ok_def by blast+
  with assms(2,4-6) show ?thesis unfolding waiters_ok_def by (auto simp: distinct_map_filter)
qed

lemma ok_take:
  assumes "shared_ok on_timeout s" "q \<in> set (sp_waiting s)" "d = on_timeout \<or> (rq_id q, d) \<in> set (sp_answered s)"
  shows "shared_ok on_timeout (shared_take (rq_id q) d s)"
proof -
  have f: "shared_ok on_timeout (forget_waiter (rq_id q) s)" by (rule ok_forget[OF assms(1)])
  have "waiters_ok (shared_take (rq_id q) d s)"
    by (rule ok_returned[OF assms]) (simp_all add: shared_take_def forget_waiter_def)
  moreover have "answers_given on_timeout (shared_take (rq_id q) d s)"
    using f assms(3) by (auto simp: shared_ok_def answers_given_def shared_take_def forget_waiter_def)
  ultimately show ?thesis using f
    by (auto simp: shared_ok_def reachable_answer_def shared_take_def forget_waiter_def)
qed

lemma once_log:
  assumes "bridge_apply E (OpResolve n d Once None None) b = (new, log, b')"
  shows "fst ` set log \<subseteq> {n}"
  using assms by (auto simp: resolve_with_pattern_def answer_request_def cascade_log_def
      split: sum.splits option.splits if_splits prod.splits)

lemma accounted_once:
  assumes "shared_ok on_timeout s" "bridge_apply E (OpResolve n d Once None None) (sp_bridge s) = (new, log, b)"
  shows "accounted (sp_asked s) (sp_answered s @ log) b"
    "m \<noteq> n \<Longrightarrow> is_pending (sp_bridge s) m \<Longrightarrow> is_pending b m"
proof -
  have old: "accounted (sp_asked s) (sp_answered s) (sp_bridge s)" using assms(1) by (simp add: shared_ok_def)
  show acc: "accounted (sp_asked s) (sp_answered s @ log) b"
    using accounted_apply[OF old _ assms(2)] by (auto simp: is_request_def)
  show "m \<noteq> n \<Longrightarrow> is_pending (sp_bridge s) m \<Longrightarrow> is_pending b m"
    using accounted_pending[OF old, of m] accounted_pending[OF acc, of m] once_log[OF assms(2)] by auto
qed

lemma ok_expire:
  assumes "shared_ok on_timeout s" "q \<in> set (sp_waiting s)"
  shows "shared_ok on_timeout (shared_expire E on_timeout (rq_id q) s)"
proof (cases "is_pending (sp_bridge s) (rq_id q)")
  case True
  let ?op = "OpResolve (rq_id q) on_timeout Once None None"
  obtain new log b where a: "bridge_apply E ?op (sp_bridge s) = (new, log, b)" by (metis prod_cases3)
  note once = accounted_once[OF assms(1) a]
  let ?s = "shared_expire E on_timeout (rq_id q) s"
  have "waiters_ok ?s"
    by (rule ok_returned[OF assms, of on_timeout]) (simp_all add: shared_expire_def True a del: bridge_apply.simps)
  moreover have "reachable_answer ?s m" if "reachable_answer s m" "m \<noteq> rq_id q" for m
    using that once(2)[of m] by (auto simp: reachable_answer_def shared_expire_def True a simp del: bridge_apply.simps)
  moreover have "answers_given on_timeout ?s"
    using assms(1) by (auto simp: shared_ok_def answers_given_def shared_expire_def True a simp del: bridge_apply.simps)
  ultimately show ?thesis using once(1) assms(1) by (auto simp: shared_ok_def shared_expire_def True a simp del: bridge_apply.simps)
next
  case False
  have "unwrap_or (sp_results s (rq_id q)) on_timeout = on_timeout
    \<or> (rq_id q, unwrap_or (sp_results s (rq_id q)) on_timeout) \<in> set (sp_answered s)"
    using assms(1) by (cases "sp_results s (rq_id q)") (auto simp: shared_ok_def answers_given_def unwrap_or_def)
  with ok_take[OF assms] False show ?thesis by (simp add: shared_expire_def)
qed

lemma ok_drop:
  assumes "shared_ok on_timeout s" shows "shared_ok on_timeout (shared_drop E n s)"
proof -
  obtain new log b where a: "bridge_apply E (OpResolve n Deny Once None None) (sp_bridge s) = (new, log, b)"
    by (metis prod_cases3)
  note once = accounted_once[OF assms a]
  let ?s = "s\<lparr>sp_bridge := b, sp_answered := sp_answered s @ log\<rparr>"
  have drop: "shared_drop E n s = forget_waiter n ?s"
    by (simp add: shared_drop_def cancel_op_def a del: bridge_apply.simps)
  have "reachable_answer (forget_waiter n ?s) m" if "reachable_answer s m" "m \<noteq> n" for m
    using that once(2)[of m] by (auto simp: reachable_answer_def forget_waiter_def)
  moreover have "waiters_ok (forget_waiter n ?s)" "answers_given on_timeout (forget_waiter n ?s)"
    using assms by (auto simp: shared_ok_def waiters_ok_def answers_given_def forget_waiter_def distinct_map_filter)
  ultimately show ?thesis using assms once(1) unfolding drop by (auto simp: shared_ok_def forget_waiter_def)
qed

lemma health_keeps_queue:
  assumes "enforce_durable_health healthy project (b, locked) = (b', locked')"
  shows "pb_queue b' = pb_queue b" "pb_next_id b' = pb_next_id b"
  using assms by (auto simp: enforce_durable_health_def split: if_splits)

lemma ok_ask:
  assumes "shared_ok on_timeout s" "length (sp_asked (shared_ask E healthy project connection tool action agent s)) < 2 ^ 64"
  shows "shared_ok on_timeout (shared_ask E healthy project connection tool action agent s)"
proof -
  obtain b1 locked1 where h: "enforce_durable_health healthy project (sp_bridge s, sp_locked s) = (b1, locked1)" by force
  have old: "accounted (sp_asked s) (sp_answered s) (sp_bridge s)" using assms(1) by (simp add: shared_ok_def)
  have acc: "accounted (sp_asked s) (sp_answered s) b1"
    using accounted_keep[OF old] health_keeps_queue[OF h] by simp
  let ?s = "shared_ask E healthy project connection tool action agent s"
  show ?thesis
  proof (cases "answering_rule E b1 project connection tool action")
    case (Some r)
    then have s': "?s = s\<lparr>sp_bridge := b1, sp_locked := locked1\<rparr>"
      by (simp add: shared_ask_def enqueue_request_def h request_for_project_as_def)
    have "reachable_answer ?s n" if "reachable_answer s n" for n
      using that accounted_pending[OF old] accounted_pending[OF acc] by (simp add: s' reachable_answer_def)
    then show ?thesis using assms(1) acc by (simp add: s' shared_ok_def waiters_ok_def answers_given_def)
  next
    case None
    let ?n = "next_request_id (pb_next_id b1)"
    define q where "q = \<lparr>rq_id = ?n, rq_project = project, rq_connection = connection, rq_tool = tool,
      rq_action = action, rq_agent = agent\<rparr>"
    define b' where "b' = b1\<lparr>pb_next_id := ?n, pb_queue := pb_queue b1 @ [q]\<rparr>"
    have s': "?s = s\<lparr>sp_bridge := b', sp_locked := locked1, sp_waiting := sp_waiting s @ [q], sp_asked := sp_asked s @ [q]\<rparr>"
      using None by (simp add: shared_ask_def enqueue_request_def h request_for_project_as_def b'_def q_def Let_def)
    have n: "?n = Suc (length (sp_asked s))" "Suc (length (sp_asked s)) < 2 ^ 64"
      using assms(2) acc unfolding s' by (simp_all add: accounted_def next_request_id_def)
    have acc': "accounted (sp_asked s @ [q]) (sp_answered s) b'"
      by (rule accounted_ask[OF acc n(2)]) (simp_all add: q_def b'_def n(1))
    have "reachable_answer ?s m" if "reachable_answer s m \<or> m = ?n" for m
      using that accounted_pending[OF old, of m] accounted_pending[OF acc', of m] n(1) acc
      by (auto simp: s' reachable_answer_def accounted_def)
    moreover have "waiters_ok ?s"
      using assms(1) n(1) unfolding shared_ok_def waiters_ok_def s' by (fastforce simp: q_def)
    ultimately show ?thesis using assms(1) acc' unfolding s' by (auto simp: shared_ok_def answers_given_def q_def)
  qed
qed

lemma asked_kept [simp]:
  "sp_asked (shared_apply E op s) = sp_asked s" "sp_asked (shared_deliver i s) = sp_asked s"
  "sp_asked (shared_take n d s) = sp_asked s" "sp_asked (shared_expire E on_timeout n s) = sp_asked s"
  "sp_asked (shared_drop E n s) = sp_asked s"
  by (auto simp: shared_apply_def shared_deliver_def shared_take_def shared_expire_def shared_drop_def forget_waiter_def
      simp del: bridge_apply.simps split: prod.splits)

lemma shared_reach_ok:
  "shared_reach E healthy on_timeout key s \<Longrightarrow> length (sp_asked s) < 2 ^ 64 \<Longrightarrow> shared_ok on_timeout s"
proof (induction rule: shared_reach.induct)
  case start
  show ?case by (simp add: shared_ok_def shared_new_def waiters_ok_def answers_given_def accounted_def bridge_new_def)
next
  case (ask s project connection tool action agent)
  have "length (sp_asked s) \<le> length (sp_asked (shared_ask E healthy project connection tool action agent s))"
    by (auto simp: shared_ask_def split: prod.splits outcome.splits)
  then show ?case using ok_ask ask by simp
next
  case (operate s op)
  then show ?case using ok_apply by simp
next
  case (deliver s i)
  then show ?case using ok_deliver by simp
next
  case (take_result s q d)
  then have ok: "shared_ok on_timeout s" by simp
  then have "(rq_id q, d) \<in> set (sp_answered s)" using take_result by (simp add: shared_ok_def answers_given_def)
  then show ?case using ok_take[OF ok] take_result by simp
next
  case (expire s q)
  then show ?case using ok_expire by simp
next
  case (drop_waiter s q)
  then show ?case using ok_drop by simp
qed

text \<open>C14. Whatever the threads that ask, answer, cancel, change rules, time out and go away do, and in whatever order their
  locks are taken: no waiter returns twice, what it returns is an answer that was given to its own request
  or the time-out, and the answer of a thread that still waits is pending, on its way or in its place.\<close>

theorem shared_answers_reach:
  assumes "shared_reach E healthy on_timeout key s" "length (sp_asked s) < 2 ^ 64"
  shows "distinct (map fst (sp_returned s))
    \<and> list_all (\<lambda>(n, d). d = on_timeout \<or> (n, d) \<in> set (sp_answered s)) (sp_returned s)
    \<and> list_all (\<lambda>q. reachable_answer s (rq_id q)) (sp_waiting s)"
  using shared_reach_ok[OF assms] by (auto simp: shared_ok_def waiters_ok_def answers_given_def list_all_iff)

subsection \<open>The window between the two locks\<close>


theorem shared_answers_reach_witness:
  "let s = shared_take 1 Allow (shared_deliver 0 (shared_apply perm_demo (OpResolve 1 Allow Once None None)
       (shared_ask perm_demo None ''p'' ''c'' ''Bash'' ''cargo test'' None (shared_new (bridge_new demo_key))))) in
   sp_returned s = [(1, Allow)]
   \<and> list_all (\<lambda>(n, d). d = Deny \<or> (n, d) \<in> set (sp_answered s)) (sp_returned s)
   \<and> distinct (map fst (sp_returned s)) \<and> list_all (\<lambda>q. reachable_answer s (rq_id q)) (sp_waiting s)"
proof -
  define s1 where "s1 = shared_ask perm_demo None ''p'' ''c'' ''Bash'' ''cargo test'' None (shared_new (bridge_new demo_key))"
  define s2 where "s2 = shared_apply perm_demo (OpResolve 1 Allow Once None None) s1"
  define s3 where "s3 = shared_deliver 0 s2"
  have r2: "shared_reach perm_demo None Deny demo_key s2"
    unfolding s2_def s1_def by (intro shared_reach.intros) (simp add: is_request_def)
  have "length (sp_delivering s2) = 1" unfolding s2_def s1_def by code_simp
  then have r3: "shared_reach perm_demo None Deny demo_key s3" unfolding s3_def using r2 by (intro shared_reach.deliver) simp_all
  have "map rq_id (sp_waiting s3) = [1]" and res: "sp_results s3 1 = Some Allow"
    unfolding s3_def s2_def s1_def by code_simp+
  then obtain q where q: "q \<in> set (sp_waiting s3)" "rq_id q = 1" by (metis list.set_intros(1) list.simps(9) map_eq_Cons_D)
  have r4: "shared_reach perm_demo None Deny demo_key (shared_take 1 Allow s3)"
    using shared_reach.take_result[OF r3 q(1)] q(2) res by simp
  have n: "length (sp_asked (shared_take 1 Allow s3)) = 1" and ret: "sp_returned (shared_take 1 Allow s3) = [(1, Allow)]"
    unfolding s3_def s2_def s1_def by code_simp+
  have "length (sp_asked (shared_take 1 Allow s3)) < 2 ^ 64" unfolding n by simp
  from shared_answers_reach[OF r4 this] ret show ?thesis unfolding s3_def s2_def s1_def Let_def by blast
qed

end
