(* ===== verification/Ticket_Merge.thy ===== *)
theory Ticket_Merge
  imports Ticket_Lifecycle Demo_Platform
begin

text \<open>
  The semantic three-way merge of \<open>merge.rs\<close>: scalars by \<open>pick3\<close>, sets by \<open>union3\<close>, notes,
  review requests, attachments and claim events by id through a \<open>BTreeMap\<close>, and the body.
\<close>

subsection \<open>Definitions\<close>

datatype body_merge =
    Resolved string
  | Conflict string string string

record merge_outcome =
  mo_ticket :: ticket
  mo_body :: body_merge

definition pick3 :: "'a \<Rightarrow> 'a \<Rightarrow> 'a \<Rightarrow> bool \<Rightarrow> 'a" where
  "pick3 base ours theirs ours_wins =
     (if ours = theirs \<or> theirs = base then ours
      else if ours = base then theirs
      else if ours_wins then ours else theirs)"

definition union_keep :: "'a list \<Rightarrow> 'a list \<Rightarrow> 'a list \<Rightarrow> 'a \<Rightarrow> bool" where
  "union_keep base ours theirs x =
     (\<not> (x \<in> set base \<and> x \<notin> set ours) \<and> \<not> (x \<in> set base \<and> x \<notin> set theirs))"

definition union3 :: "'a list \<Rightarrow> 'a list \<Rightarrow> 'a list \<Rightarrow> 'a list" where
  "union3 base ours theirs = dedup_from [] (filter (union_keep base ours theirs) (ours @ theirs))"

text \<open>\<open>entry(id).and_modify(f).or_insert_with(..)\<close> over a list of values.\<close>

definition by_key :: "('a \<Rightarrow> 'k::linorder) \<Rightarrow> ('a \<Rightarrow> 'a \<Rightarrow> 'a) \<Rightarrow> 'a list \<Rightarrow> ('k \<times> 'a) list \<Rightarrow> ('k \<times> 'a) list" where
  "by_key key f xs m =
     fold (\<lambda>x. btree_entry (key x) (\<lambda>v. case v of None \<Rightarrow> x | Some cur \<Rightarrow> f x cur)) xs m"

definition note_cmp :: "ticket_note \<Rightarrow> ticket_note \<Rightarrow> ordering" where
  "note_cmp a b = time_then_id_cmp (n_created_at a) (n_id a) (n_created_at b) (n_id b)"

definition newer_note :: "ticket_note \<Rightarrow> ticket_note \<Rightarrow> ticket_note" where
  "newer_note n cur =
     (let human = (n_human_edited cur \<or> n_human_edited n);
          pick = (if ts_raw (n_edited_at n) > ts_raw (n_edited_at cur) then n else cur)
      in pick\<lparr>n_human_edited := human\<rparr>)"

definition merge_notes :: "ticket_note list \<Rightarrow> ticket_note list \<Rightarrow> ticket_note list" where
  "merge_notes ours theirs =
     sort_by note_cmp (btree_values (by_key n_id newer_note (ours @ theirs) []))"

definition newer_review :: "review_request \<Rightarrow> review_request \<Rightarrow> review_request" where
  "newer_review r cur = (if ts_raw (rr_at r) > ts_raw (rr_at cur) then r else cur)"

definition merge_reviews :: "review_request list \<Rightarrow> review_request list \<Rightarrow> review_request list" where
  "merge_reviews ours theirs = btree_values (by_key rr_by newer_review (ours @ theirs) [])"

definition attachment_cmp :: "attachment \<Rightarrow> attachment \<Rightarrow> ordering" where
  "attachment_cmp a b = time_then_id_cmp (at_created_at a) (at_id a) (at_created_at b) (at_id b)"

definition prefer_attachment :: "attachment list \<Rightarrow> bool \<Rightarrow> attachment \<Rightarrow> attachment \<Rightarrow> attachment" where
  "prefer_attachment ours ours_wins a cur = (if (a \<in> set ours) = ours_wins then a else cur)"

definition merge_attachments :: "attachment list \<Rightarrow> attachment list \<Rightarrow> bool \<Rightarrow> attachment list" where
  "merge_attachments ours theirs ours_wins =
     sort_by attachment_cmp
       (btree_values (by_key at_id (prefer_attachment ours ours_wins) (ours @ theirs) []))"

definition claim_event_cmp :: "claim_event \<Rightarrow> claim_event \<Rightarrow> ordering" where
  "claim_event_cmp a b = time_then_id_cmp (ce_at a) (ce_id a) (ce_at b) (ce_id b)"

definition prefer_event :: "bool \<Rightarrow> claim_event \<Rightarrow> claim_event \<Rightarrow> claim_event" where
  "prefer_event preferred e cur = (if preferred then e else cur)"

definition merge_claim_history ::
  "claim_event list \<Rightarrow> claim_event list \<Rightarrow> claim_event list \<Rightarrow> bool \<Rightarrow> claim_event list" where
  "merge_claim_history base ours theirs ours_wins =
     sort_by claim_event_cmp (btree_values
       (by_key ce_id (prefer_event ours_wins) ours
         (by_key ce_id (prefer_event (\<not> ours_wins)) theirs
           (by_key ce_id (prefer_event True) base []))))"

definition merge_body :: "string \<Rightarrow> string \<Rightarrow> string \<Rightarrow> body_merge" where
  "merge_body base ours theirs =
     (if ours = theirs \<or> theirs = base then Resolved ours
      else if ours = base then Resolved theirs
      else Conflict base ours theirs)"

definition has_body_conflict :: "merge_outcome \<Rightarrow> bool" where
  "has_body_conflict o1 = (case mo_body o1 of Conflict _ _ _ \<Rightarrow> True | Resolved _ \<Rightarrow> False)"

definition ours_newer :: "ticket \<Rightarrow> ticket \<Rightarrow> bool" where
  "ours_newer ours theirs = (ts_raw (t_updated_at ours) \<ge> ts_raw (t_updated_at theirs))"

text \<open>
  \<open>pick field\<close> below is \<open>pick3\<close> on one field of the three versions.  The fields the source
  does not assign (\<open>legacy_number\<close>) stay those of \<open>ours\<close>.
\<close>

definition merge_tickets :: "ticket \<Rightarrow> ticket \<Rightarrow> ticket \<Rightarrow> merge_outcome" where
  "merge_tickets base ours theirs =
     (let w = ours_newer ours theirs;
          status = pick3 (t_status base) (t_status ours) (t_status theirs) w;
          body = merge_body (t_details base) (t_details ours) (t_details theirs)
      in \<lparr>mo_ticket = ours\<lparr>
            t_id := pick3 (t_id base) (t_id ours) (t_id theirs) w,
            t_slug := pick3 (t_slug base) (t_slug ours) (t_slug theirs) w,
            t_schema := pick3 (t_schema base) (t_schema ours) (t_schema theirs) w,
            t_title := pick3 (t_title base) (t_title ours) (t_title theirs) w,
            t_category := pick3 (t_category base) (t_category ours) (t_category theirs) w,
            t_priority := pick3 (t_priority base) (t_priority ours) (t_priority theirs) w,
            t_status := status,
            t_started_phase := (if status = Started
              then pick3 (t_started_phase base) (t_started_phase ours) (t_started_phase theirs) w
              else None),
            t_up_next := pick3 (t_up_next base) (t_up_next ours) (t_up_next theirs) w,
            t_blocked_reason := pick3 (t_blocked_reason base) (t_blocked_reason ours) (t_blocked_reason theirs) w,
            t_completed_at := pick3 (t_completed_at base) (t_completed_at ours) (t_completed_at theirs) w,
            t_verified_at := pick3 (t_verified_at base) (t_verified_at ours) (t_verified_at theirs) w,
            t_closed_at := pick3 (t_closed_at base) (t_closed_at ours) (t_closed_at theirs) w,
            t_close_reason := pick3 (t_close_reason base) (t_close_reason ours) (t_close_reason theirs) w,
            t_duplicate_of := pick3 (t_duplicate_of base) (t_duplicate_of ours) (t_duplicate_of theirs) w,
            t_claimed_by := pick3 (t_claimed_by base) (t_claimed_by ours) (t_claimed_by theirs) w,
            t_claim_lease_expires_at := pick3 (t_claim_lease_expires_at base)
              (t_claim_lease_expires_at ours) (t_claim_lease_expires_at theirs) w,
            t_claim_eta_at := pick3 (t_claim_eta_at base) (t_claim_eta_at ours) (t_claim_eta_at theirs) w,
            t_worker_label := pick3 (t_worker_label base) (t_worker_label ours) (t_worker_label theirs) w,
            t_claim_count := pick3 (t_claim_count base) (t_claim_count ours) (t_claim_count theirs) w,
            t_claim_history := merge_claim_history (t_claim_history base) (t_claim_history ours)
              (t_claim_history theirs) w,
            t_moved_to_store := pick3 (t_moved_to_store base) (t_moved_to_store ours) (t_moved_to_store theirs) w,
            t_moved_at := pick3 (t_moved_at base) (t_moved_at ours) (t_moved_at theirs) w,
            t_copied_from := pick3 (t_copied_from base) (t_copied_from ours) (t_copied_from theirs) w,
            t_transfer_operation_id := pick3 (t_transfer_operation_id base)
              (t_transfer_operation_id ours) (t_transfer_operation_id theirs) w,
            t_transferred_from := pick3 (t_transferred_from base) (t_transferred_from ours)
              (t_transferred_from theirs) w,
            t_created_at := pick3 (t_created_at base) (t_created_at ours) (t_created_at theirs) w,
            t_created_by := pick3 (t_created_by base) (t_created_by ours) (t_created_by theirs) w,
            t_updated_at := (if w then t_updated_at ours else t_updated_at theirs),
            t_tags := union3 (t_tags base) (t_tags ours) (t_tags theirs),
            t_blocked_by := union3 (t_blocked_by base) (t_blocked_by ours) (t_blocked_by theirs),
            t_follow_ups := union3 (t_follow_ups base) (t_follow_ups ours) (t_follow_ups theirs),
            t_assignees := union3 (t_assignees base) (t_assignees ours) (t_assignees theirs),
            t_review_requests := merge_reviews (t_review_requests ours) (t_review_requests theirs),
            t_external := pick3 (t_external base) (t_external ours) (t_external theirs) w,
            t_attachments := merge_attachments (t_attachments ours) (t_attachments theirs) w,
            t_extra := pick3 (t_extra base) (t_extra ours) (t_extra theirs) w,
            t_notes := merge_notes (t_notes ours) (t_notes theirs),
            t_details := (case body of Resolved text \<Rightarrow> text | Conflict _ _ _ \<Rightarrow> t_details ours)\<rparr>,
          mo_body = body\<rparr>)"

subsection \<open>Scalars and sets\<close>

lemma pick3_cases: "pick3 b x y w \<in> {x, y}"
  by (simp add: pick3_def)

lemma pick3_simps [simp]:
  "pick3 b x x w = x" "pick3 b x b w = x" "pick3 b b y w = y"
  by (simp_all add: pick3_def)

lemma pick3_swap: "pick3 b x y w = pick3 b y x (\<not> w)"
  by (auto simp: pick3_def)

lemma pick3_conflict: "x \<noteq> b \<Longrightarrow> y \<noteq> b \<Longrightarrow> pick3 b x y w = (if w then x else y)"
  by (auto simp: pick3_def)

lemma set_union3:
  "set (union3 b x y) = (set x \<union> set y) - (set b - set x \<inter> set y)"
  by (auto simp: union3_def union_keep_def)

lemma distinct_union3: "distinct (union3 b x y)"
  by (simp add: union3_def distinct_dedup_from)

lemma union3_ours: "distinct x \<Longrightarrow> union3 b x b = dedup_from [] (filter (\<lambda>e. e \<in> set b \<longrightarrow> e \<in> set x) (x @ b))"
  by (auto simp: union3_def union_keep_def intro!: arg_cong[where f = "dedup_from []"] filter_cong)

lemma dedup_from_subset: "set xs \<subseteq> set acc \<Longrightarrow> dedup_from acc xs = acc"
  by (induction xs arbitrary: acc) auto

lemma dedup_from_append: "dedup_from acc (xs @ ys) = dedup_from (dedup_from acc xs) ys"
  by (induction xs arbitrary: acc) auto

lemma union3_same [simp]: "distinct x \<Longrightarrow> union3 x x x = x"
proof -
  assume d: "distinct x"
  have "filter (union_keep x x x) (x @ x) = x @ x"
    by (simp add: filter_id_conv union_keep_def)
  with d show ?thesis
    by (simp add: union3_def dedup_from_append dedup_from_distinct dedup_from_subset)
qed

subsection \<open>Maps by id\<close>

lemma by_key_upserts:
  "by_key key f xs m = bt.upserts key (\<lambda>x v. case v of None \<Rightarrow> x | Some cur \<Rightarrow> f x cur) xs m"
  by (simp add: by_key_def bt.upserts_def)

text \<open>
  The value kept for a key is the combination of the elements with that key, in list order.
\<close>

definition combine :: "('a \<Rightarrow> 'a \<Rightarrow> 'a) \<Rightarrow> 'a list \<Rightarrow> 'a option \<Rightarrow> 'a option" where
  "combine f xs v = fold (\<lambda>x v. Some (case v of None \<Rightarrow> x | Some cur \<Rightarrow> f x cur)) xs v"

lemma combine_simps [simp]:
  "combine f [] v = v"
  "combine f (x # xs) v = combine f xs (Some (case v of None \<Rightarrow> x | Some cur \<Rightarrow> f x cur))"
  by (simp_all add: combine_def)

lemma lookup_by_key:
  "key_sorted m \<Longrightarrow>
     map_of (by_key key f xs m) k = combine f (filter (\<lambda>x. key x = k) xs) (map_of m k)"
  by (simp add: by_key_upserts bt.lookup_upserts combine_def)

lemma key_sorted_by_key: "key_sorted m \<Longrightarrow> key_sorted (by_key key f xs m)"
  by (simp add: by_key_upserts bt.invar_upserts)

lemma dom_by_key: "key_sorted m \<Longrightarrow> dom (map_of (by_key key f xs m)) = dom (map_of m) \<union> key ` set xs"
  by (simp add: by_key_upserts bt.dom_upserts)

text \<open>Every value in the map has its key, when the combination keeps keys.\<close>

definition keyed :: "('a \<Rightarrow> 'k) \<Rightarrow> ('k \<times> 'a) list \<Rightarrow> bool" where
  "keyed key m = (\<forall>(k, v) \<in> set m. key v = k)"

lemma keyed_btree_entry:
  "keyed key m \<Longrightarrow> (\<And>v. (\<forall>c. v = Some c \<longrightarrow> key c = k) \<Longrightarrow> key (g v) = k) \<Longrightarrow>
     keyed key (btree_entry k g m)"
  by (induction m rule: btree_entry.induct) (auto simp: keyed_def)

lemma keyed_by_key:
  assumes "\<And>x c. key x = key c \<Longrightarrow> key (f x c) = key x" "keyed key m"
  shows "keyed key (by_key key f xs m)"
  using assms(2)
proof (induction xs arbitrary: m)
  case Nil
  then show ?case by (simp add: by_key_def)
next
  case (Cons x xs)
  have "keyed key (btree_entry (key x) (\<lambda>v. case v of None \<Rightarrow> x | Some cur \<Rightarrow> f x cur) m)"
    by (rule keyed_btree_entry[OF Cons.prems]) (auto simp: assms(1) split: option.splits)
  from Cons.IH[OF this] show ?case by (simp add: by_key_def)
qed

lemma values_keyed: "keyed key m \<Longrightarrow> map key (btree_values m) = map fst m"
  by (auto simp: keyed_def btree_values_def)

text \<open>
  The contract all four unions rest on: a key and a combination that keeps it.  The locale
  gives the ids of the result, that they are distinct, and that a value of the result is the
  combination of the inputs with its id.
\<close>

locale merge_by_id =
  fixes key :: "'a \<Rightarrow> 'k::linorder"
    and comb :: "'a \<Rightarrow> 'a \<Rightarrow> 'a"
  assumes comb_key: "key x = key c \<Longrightarrow> key (comb x c) = key x"
begin

definition merged :: "'a list \<Rightarrow> 'a list" where
  "merged xs = btree_values (by_key key comb xs [])"

lemma keyed_merged: "keyed key (by_key key comb xs [])"
  by (rule keyed_by_key) (simp_all add: comb_key keyed_def)

lemma ids_merged: "map key (merged xs) = map fst (by_key key comb xs [])"
  by (simp add: merged_def values_keyed keyed_merged)

lemma sorted_merged: "sorted_wrt (<) (map key (merged xs))"
  by (simp add: ids_merged key_sorted_by_key)

lemma distinct_merged: "distinct (map key (merged xs))"
  using key_sorted_distinct[OF key_sorted_by_key[of "[]" key comb xs]] by (simp add: ids_merged)

lemma set_ids_merged: "key ` set (merged xs) = key ` set xs"
proof -
  have "key ` set (merged xs) = set (map fst (by_key key comb xs []))"
    using arg_cong[OF ids_merged[of xs], of set] by simp
  also have "\<dots> = dom (map_of (by_key key comb xs []))" by (simp add: dom_map_of_conv_image_fst)
  also have "\<dots> = key ` set xs" by (simp add: dom_by_key)
  finally show ?thesis .
qed

lemma merged_iff:
  "v \<in> set (merged xs) \<longleftrightarrow> combine comb (filter (\<lambda>x. key x = key v) xs) None = Some v"
proof -
  let ?m = "by_key key comb xs []"
  have d: "distinct (map fst ?m)" by (simp add: key_sorted_distinct key_sorted_by_key)
  have "v \<in> set (merged xs) \<longleftrightarrow> (\<exists>k. (k, v) \<in> set ?m)"
    by (force simp: merged_def btree_values_def)
  also have "\<dots> \<longleftrightarrow> (key v, v) \<in> set ?m"
    using keyed_merged[of xs] by (auto simp: keyed_def)
  also have "\<dots> \<longleftrightarrow> map_of ?m (key v) = Some v" using d by simp
  finally show ?thesis by (simp add: lookup_by_key)
qed

lemma merged_distinct: "sorted_wrt (<) (map key xs) \<Longrightarrow> merged xs = xs"
proof -
  assume s: "sorted_wrt (<) (map key xs)"
  have "x \<in> set (merged xs)" if "x \<in> set xs" for x
  proof -
    have "filter (\<lambda>y. key y = key x) xs = [x]"
      using s that
    proof (induction xs)
      case (Cons a as)
      show ?case
      proof (cases "x = a")
        case True
        with Cons.prems show ?thesis by (auto simp: filter_empty_conv)
      next
        case False
        with Cons show ?thesis by auto
      qed
    qed simp
    then show ?thesis by (simp add: merged_iff)
  qed
  moreover have "key ` set (merged xs) = key ` set xs" by (rule set_ids_merged)
  moreover have "sorted_wrt (<) (map key (merged xs))" by (rule sorted_merged)
  ultimately have ids: "map key (merged xs) = map key xs" and sub: "set xs \<subseteq> set (merged xs)"
    using s by (auto intro!: strict_sorted_equal simp: strict_sorted_iff)
  show ?thesis
  proof (rule nth_equalityI)
    show len: "length (merged xs) = length xs" using ids by (rule map_eq_imp_length_eq)
    fix i assume i: "i < length (merged xs)"
    have "key (merged xs ! i) = key (xs ! i)" using ids i len by (metis nth_map)
    moreover have "xs ! i \<in> set (merged xs)" using sub i len by auto
    ultimately show "merged xs ! i = xs ! i"
      using distinct_merged[of xs] i by (auto simp: distinct_map dest: inj_onD)
  qed
qed

end

interpretation mn: merge_by_id n_id newer_note
  by unfold_locales (simp add: newer_note_def Let_def)

interpretation mr: merge_by_id rr_by newer_review
  by unfold_locales (simp add: newer_review_def)

interpretation ma: merge_by_id at_id "prefer_attachment ours w" for ours w
  by unfold_locales (simp add: prefer_attachment_def)

interpretation note_ord: strict_total_cmp note_cmp "\<lambda>n. ts_is_valid (n_created_at n)" n_id
  unfolding note_cmp_def by (rule strict_time_then_id)

interpretation att_ord: strict_total_cmp attachment_cmp "\<lambda>a. ts_is_valid (at_created_at a)" at_id
  unfolding attachment_cmp_def by (rule strict_time_then_id)

interpretation ev_ord: strict_total_cmp claim_event_cmp "\<lambda>e. ts_is_valid (ce_at e)" ce_id
  unfolding claim_event_cmp_def by (rule strict_time_then_id)

lemma merge_notes_merged: "merge_notes ours theirs = sort_by note_cmp (mn.merged (ours @ theirs))"
  by (simp add: merge_notes_def mn.merged_def)

lemma merge_reviews_merged: "merge_reviews ours theirs = mr.merged (ours @ theirs)"
  by (simp add: merge_reviews_def mr.merged_def)

lemma merge_attachments_merged:
  "merge_attachments ours theirs w = sort_by attachment_cmp (ma.merged ours w (ours @ theirs))"
  by (simp add: merge_attachments_def ma.merged_def)

subsection \<open>Notes\<close>

lemma merge_notes_ids: "n_id ` set (merge_notes x y) = n_id ` (set x \<union> set y)"
  using mn.set_ids_merged[of "x @ y"] by (simp add: merge_notes_merged)

lemma merge_notes_distinct: "distinct (map n_id (merge_notes x y))"
  by (simp add: merge_notes_merged mn.distinct_merged)

text \<open>The combination of several versions of one note.\<close>

definition resolves :: "ticket_note set \<Rightarrow> ticket_note \<Rightarrow> bool" where
  "resolves versions r =
     ((n_human_edited r \<longleftrightarrow> (\<exists>x \<in> versions. n_human_edited x))
      \<and> (\<forall>x \<in> versions. ts_raw (n_edited_at x) \<le> ts_raw (n_edited_at r))
      \<and> (\<exists>x \<in> versions. r = x\<lparr>n_human_edited := n_human_edited r\<rparr>))"

lemma resolves_newer_note:
  "resolves A c \<Longrightarrow> resolves (insert y A) (newer_note y c)"
  by (cases "ts_raw (n_edited_at y) > ts_raw (n_edited_at c)")
    (auto simp: resolves_def newer_note_def Let_def intro: order_trans less_imp_le)

lemma combine_newer_note:
  "resolves A c \<Longrightarrow> combine newer_note xs (Some c) = Some r \<Longrightarrow> resolves (A \<union> set xs) r"
proof (induction xs arbitrary: A c)
  case Nil
  then show ?case by simp
next
  case (Cons y ys)
  then show ?case using Cons.IH[OF resolves_newer_note[OF Cons.prems(1)], of y] by simp
qed

lemma merge_notes_member:
  assumes "n \<in> set (merge_notes x y)"
  shows "resolves {m \<in> set x \<union> set y. n_id m = n_id n} n"
proof -
  let ?xs = "filter (\<lambda>m. n_id m = n_id n) (x @ y)"
  have c: "combine newer_note ?xs None = Some n"
    using assms mn.merged_iff[of n "x @ y"] by (simp add: merge_notes_merged)
  then obtain z zs where z: "?xs = z # zs" by (cases ?xs) auto
  have "resolves {z} z" by (simp add: resolves_def)
  with c z have "resolves ({z} \<union> set zs) n" using combine_newer_note[of "{z}" z zs n] by simp
  moreover have "{z} \<union> set zs = {m \<in> set x \<union> set y. n_id m = n_id n}"
    using arg_cong[OF z, of set] by auto
  ultimately show ?thesis by simp
qed

subsection \<open>Claim histories\<close>

lemma values_member:
  "key_sorted m \<Longrightarrow> keyed key m \<Longrightarrow> v \<in> set (btree_values m) \<longleftrightarrow> map_of m (key v) = Some v"
  using key_sorted_distinct[of m]
  by (auto simp: btree_values_def keyed_def) (force dest: map_of_SomeD)

lemma combine_prefer_True: "combine (prefer_event True) xs v = (if xs = [] then v else Some (last xs))"
  by (induction xs arbitrary: v) (auto simp: prefer_event_def split: option.splits)

lemma combine_prefer_False_Some: "combine (prefer_event False) xs (Some c) = Some c"
  by (induction xs) (simp_all add: prefer_event_def)

lemma combine_prefer_False:
  "combine (prefer_event False) xs v =
     (case v of Some c \<Rightarrow> Some c | None \<Rightarrow> if xs = [] then None else Some (hd xs))"
  by (cases xs) (simp_all add: combine_prefer_False_Some prefer_event_def split: option.splits)

lemma combine_prefer_in:
  "combine (prefer_event w) xs v = Some r \<Longrightarrow> r \<in> set xs \<or> v = Some r"
  by (cases w) (auto simp: combine_prefer_True combine_prefer_False split: if_splits option.splits)

lemmas combine_prefer = combine_prefer_True combine_prefer_False

definition history_map ::
  "claim_event list \<Rightarrow> claim_event list \<Rightarrow> claim_event list \<Rightarrow> bool \<Rightarrow> (ulid \<times> claim_event) list" where
  "history_map base ours theirs w =
     by_key ce_id (prefer_event w) ours
       (by_key ce_id (prefer_event (\<not> w)) theirs (by_key ce_id (prefer_event True) base []))"

lemma merge_claim_history_values:
  "merge_claim_history base ours theirs w =
     sort_by claim_event_cmp (btree_values (history_map base ours theirs w))"
  by (simp add: merge_claim_history_def history_map_def)

lemma key_sorted_history_map: "key_sorted (history_map base ours theirs w)"
  by (simp add: history_map_def key_sorted_by_key)

lemma keyed_history_map: "keyed ce_id (history_map base ours theirs w)"
  unfolding history_map_def by (intro keyed_by_key) (simp_all add: prefer_event_def keyed_def)

lemma lookup_history_map:
  "map_of (history_map base ours theirs w) k =
     (let sel = filter (\<lambda>e. ce_id e = k) in
      combine (prefer_event w) (sel ours)
        (combine (prefer_event (\<not> w)) (sel theirs) (combine (prefer_event True) (sel base) None)))"
  by (simp add: history_map_def lookup_by_key key_sorted_by_key Let_def)

lemma ids_history_map:
  "fst ` set (history_map base ours theirs w) = ce_id ` (set base \<union> set ours \<union> set theirs)"
proof -
  have "dom (map_of (history_map base ours theirs w)) = ce_id ` (set base \<union> set ours \<union> set theirs)"
    by (auto simp: history_map_def dom_by_key key_sorted_by_key image_Un)
  then show ?thesis by (simp add: dom_map_of_conv_image_fst)
qed

lemma merge_claim_history_ids:
  "ce_id ` set (merge_claim_history base ours theirs w) = ce_id ` (set base \<union> set ours \<union> set theirs)"
proof -
  have "ce_id ` set (btree_values (history_map base ours theirs w)) = fst ` set (history_map base ours theirs w)"
    using arg_cong[OF values_keyed[OF keyed_history_map], of set] by simp
  then show ?thesis by (simp add: merge_claim_history_values ids_history_map)
qed

lemma merge_claim_history_distinct: "distinct (map ce_id (merge_claim_history base ours theirs w))"
  using key_sorted_distinct[OF key_sorted_history_map]
  by (simp add: merge_claim_history_values values_keyed keyed_history_map)

text \<open>Every kept event is one of the inputs.\<close>

lemma merge_claim_history_subset:
  "set (merge_claim_history base ours theirs w) \<subseteq> set base \<union> set ours \<union> set theirs"
proof
  fix e assume "e \<in> set (merge_claim_history base ours theirs w)"
  then have "map_of (history_map base ours theirs w) (ce_id e) = Some e"
    using values_member[OF key_sorted_history_map keyed_history_map]
    by (simp add: merge_claim_history_values)
  then show "e \<in> set base \<union> set ours \<union> set theirs"
    unfolding lookup_history_map Let_def by (auto dest!: combine_prefer_in)
qed

lemma merge_claim_history_swap:
  "merge_claim_history base ours theirs w = merge_claim_history base theirs ours (\<not> w)"
proof -
  have "map_of (history_map base ours theirs w) = map_of (history_map base theirs ours (\<not> w))"
  proof
    fix k
    show "map_of (history_map base ours theirs w) k = map_of (history_map base theirs ours (\<not> w)) k"
      unfolding lookup_history_map Let_def
      by (cases w) (simp_all add: combine_prefer split: option.splits)
  qed
  then have "history_map base ours theirs w = history_map base theirs ours (\<not> w)"
    by (intro key_sorted_map_of_eq key_sorted_history_map)
  then show ?thesis by (simp only: merge_claim_history_values)
qed

subsection \<open>Both directions of a merge agree\<close>

lemma filter_key_cases:
  "distinct (map key xs) \<Longrightarrow> filter (\<lambda>x. key x = k) xs = [] \<or>
     (\<exists>x \<in> set xs. key x = k \<and> filter (\<lambda>x. key x = k) xs = [x])"
proof (induction xs)
  case (Cons x xs)
  show ?case
  proof (cases "key x = k")
    case True
    with Cons.prems have "filter (\<lambda>x. key x = k) xs = []"
      by (auto simp: filter_empty_conv) (metis image_eqI)
    with True show ?thesis by simp
  next
    case False
    with Cons show ?thesis by auto
  qed
qed simp

text \<open>
  The union by id does not depend on the order of its two inputs when the combination is
  symmetric on the elements that share an id.
\<close>

lemma by_key_swap:
  assumes "distinct (map key xs)" "distinct (map key ys)"
    and "\<And>x y. x \<in> set xs \<Longrightarrow> y \<in> set ys \<Longrightarrow> key x = key y \<Longrightarrow> f y x = g x y"
  shows "by_key key f (xs @ ys) [] = by_key key g (ys @ xs) []"
proof (rule key_sorted_map_of_eq)
  show "map_of (by_key key f (xs @ ys) []) = map_of (by_key key g (ys @ xs) [])"
  proof
    fix k
    show "map_of (by_key key f (xs @ ys) []) k = map_of (by_key key g (ys @ xs) []) k"
      using filter_key_cases[OF assms(1), of k] filter_key_cases[OF assms(2), of k] assms(3)
      by (auto simp: lookup_by_key)
  qed
qed (simp_all add: key_sorted_by_key)

definition no_ties :: "('a \<Rightarrow> 'k) \<Rightarrow> ('a \<Rightarrow> timestamp) \<Rightarrow> ('a \<Rightarrow> 'b) \<Rightarrow> 'a list \<Rightarrow> 'a list \<Rightarrow> bool" where
  "no_ties key time content xs ys =
     (distinct (map key xs) \<and> distinct (map key ys) \<and>
      list_all (\<lambda>x. list_all (\<lambda>y. key x = key y \<longrightarrow> ts_raw (time x) = ts_raw (time y)
        \<longrightarrow> content x = content y) ys) xs)"

lemma no_tiesD:
  assumes "no_ties key time content xs ys"
  shows "distinct (map key xs)" "distinct (map key ys)"
    and "x \<in> set xs \<Longrightarrow> y \<in> set ys \<Longrightarrow> key x = key y \<Longrightarrow> ts_raw (time x) = ts_raw (time y)
      \<Longrightarrow> content x = content y"
  using assms by (auto simp: no_ties_def list_all_iff)

definition note_content :: "ticket_note \<Rightarrow> ticket_note" where
  "note_content n = n\<lparr>n_human_edited := False\<rparr>"

lemma note_content_eqD: "note_content a = note_content b \<Longrightarrow> a\<lparr>n_human_edited := h\<rparr> = b\<lparr>n_human_edited := h\<rparr>"
proof -
  assume "note_content a = note_content b"
  then have "(note_content a)\<lparr>n_human_edited := h\<rparr> = (note_content b)\<lparr>n_human_edited := h\<rparr>" by simp
  then show ?thesis by (simp add: note_content_def)
qed

lemma newer_note_swap:
  "(ts_raw (n_edited_at a) = ts_raw (n_edited_at b) \<Longrightarrow> note_content a = note_content b) \<Longrightarrow>
     newer_note b a = newer_note a b"
  using note_content_eqD[of a b "n_human_edited a \<or> n_human_edited b"]
  by (cases "ts_raw (n_edited_at a)" "ts_raw (n_edited_at b)" rule: linorder_cases)
    (simp_all add: newer_note_def Let_def disj_commute)

lemma merge_notes_swap:
  "no_ties n_id n_edited_at note_content xs ys \<Longrightarrow> merge_notes xs ys = merge_notes ys xs"
  unfolding merge_notes_def
  by (subst by_key_swap[where g = newer_note]) (auto dest: no_tiesD intro!: newer_note_swap)

lemma merge_reviews_swap:
  assumes "no_ties rr_by rr_at id xs ys"
  shows "merge_reviews xs ys = merge_reviews ys xs"
proof -
  have "newer_review y x = newer_review x y"
    if "x \<in> set xs" "y \<in> set ys" "rr_by x = rr_by y" for x y
    using no_tiesD(3)[OF assms that] by (auto simp: newer_review_def)
  then show ?thesis unfolding merge_reviews_def
    using no_tiesD(1,2)[OF assms] by (subst by_key_swap[where g = newer_review]) simp_all
qed

lemma merge_attachments_swap:
  assumes "distinct (map at_id xs)" "distinct (map at_id ys)"
  shows "merge_attachments xs ys w = merge_attachments ys xs (\<not> w)"
proof -
  have "prefer_attachment xs w y x = prefer_attachment ys (\<not> w) x y"
    if "x \<in> set xs" "y \<in> set ys" "at_id x = at_id y" for x y
  proof -
    have "y \<in> set xs \<longleftrightarrow> y = x" "x \<in> set ys \<longleftrightarrow> x = y"
      using that assms by (auto simp: distinct_map dest: inj_onD)
    then show ?thesis by (auto simp: prefer_attachment_def)
  qed
  then show ?thesis unfolding merge_attachments_def
    using assms by (subst by_key_swap[where g = "prefer_attachment ys (\<not> w)"]) simp_all
qed

definition convergent :: "ticket \<Rightarrow> ticket \<Rightarrow> bool" where
  "convergent ours theirs =
     (ts_raw (t_updated_at ours) \<noteq> ts_raw (t_updated_at theirs)
      \<and> no_ties n_id n_edited_at note_content (t_notes ours) (t_notes theirs)
      \<and> no_ties rr_by rr_at id (t_review_requests ours) (t_review_requests theirs)
      \<and> distinct (map at_id (t_attachments ours)) \<and> distinct (map at_id (t_attachments theirs)))"

text \<open>What a merge decides independently of the direction, with the ordered sets as sets.\<close>

definition merged_view :: "ticket \<Rightarrow> ticket \<times> string set \<times> ulid set \<times> project_ticket_ref set \<times> string set" where
  "merged_view t =
     (t\<lparr>t_tags := [], t_blocked_by := [], t_follow_ups := [], t_assignees := [],
        t_legacy_number := None, t_details := []\<rparr>,
      set (t_tags t), set (t_blocked_by t), set (t_follow_ups t), set (t_assignees t))"

fun swap_body :: "body_merge \<Rightarrow> body_merge" where
  "swap_body (Resolved text) = Resolved text"
| "swap_body (Conflict base ours theirs) = Conflict base theirs ours"

lemma merge_body_swap: "merge_body b x y = swap_body (merge_body b y x)"
  by (auto simp: merge_body_def)

lemma ours_newer_swap:
  "ts_raw (t_updated_at x) \<noteq> ts_raw (t_updated_at y) \<Longrightarrow> ours_newer y x = (\<not> ours_newer x y)"
  by (auto simp: ours_newer_def)

lemma merged_view_swap:
  assumes "convergent x y"
  shows "merged_view (mo_ticket (merge_tickets b x y)) = merged_view (mo_ticket (merge_tickets b y x))"
proof -
  have w: "ours_newer y x = (\<not> ours_newer x y)"
    and n: "merge_notes (t_notes y) (t_notes x) = merge_notes (t_notes x) (t_notes y)"
    and r: "merge_reviews (t_review_requests y) (t_review_requests x)
          = merge_reviews (t_review_requests x) (t_review_requests y)"
    and a: "merge_attachments (t_attachments y) (t_attachments x) (\<not> ours_newer x y)
          = merge_attachments (t_attachments x) (t_attachments y) (ours_newer x y)"
    using assms
    by (simp_all add: convergent_def ours_newer_swap merge_notes_swap[symmetric]
        merge_reviews_swap[symmetric] merge_attachments_swap[symmetric])
  have p: "pick3 c v u (\<not> ours_newer x y) = pick3 c u v (ours_newer x y)" for c u v :: 'v
    by (rule pick3_swap[symmetric])
  show ?thesis
    unfolding merged_view_def merge_tickets_def w Let_def
    by (simp add: p n r a merge_claim_history_swap[symmetric] set_union3 Un_commute Int_commute)
qed

subsection \<open>A merge with nothing to merge\<close>

definition merge_canonical :: "ticket \<Rightarrow> bool" where
  "merge_canonical t =
     (distinct (t_tags t) \<and> distinct (t_blocked_by t) \<and> distinct (t_follow_ups t)
      \<and> distinct (t_assignees t)
      \<and> sorted_wrt (<) (map rr_by (t_review_requests t))
      \<and> (t_started_phase t \<noteq> None \<longrightarrow> t_status t = Started)
      \<and> distinct (map n_id (t_notes t)) \<and> sorted_by note_cmp (t_notes t)
      \<and> list_all (\<lambda>n. ts_is_valid (n_created_at n)) (t_notes t)
      \<and> distinct (map at_id (t_attachments t)) \<and> sorted_by attachment_cmp (t_attachments t)
      \<and> list_all (\<lambda>a. ts_is_valid (at_created_at a)) (t_attachments t)
      \<and> distinct (map ce_id (t_claim_history t)) \<and> sorted_by claim_event_cmp (t_claim_history t)
      \<and> list_all (\<lambda>e. ts_is_valid (ce_at e)) (t_claim_history t))"

lemma mset_merged_twice:
  assumes "merge_by_id key comb" "distinct (map key xs)" "\<And>x. x \<in> set xs \<Longrightarrow> comb x x = x"
  shows "mset (merge_by_id.merged key comb (xs @ xs)) = mset xs"
proof (subst set_eq_iff_mset_eq_distinct[symmetric])
  show "distinct (merge_by_id.merged key comb (xs @ xs))" "distinct xs"
    using merge_by_id.distinct_merged[OF assms(1)] assms(2) by (auto simp: distinct_map)
  have in_merged: "x \<in> set (merge_by_id.merged key comb (xs @ xs))" if "x \<in> set xs" for x
  proof -
    have "filter (\<lambda>y. key y = key x) xs = [x]"
      using filter_key_cases[OF assms(2), of "key x"] that assms(2)
      by (auto simp: filter_empty_conv distinct_map dest: inj_onD)
    then show ?thesis using assms(3)[OF that] by (simp add: merge_by_id.merged_iff[OF assms(1)])
  qed
  show "set (merge_by_id.merged key comb (xs @ xs)) = set xs"
  proof
    show "set xs \<subseteq> set (merge_by_id.merged key comb (xs @ xs))" using in_merged by blast
    show "set (merge_by_id.merged key comb (xs @ xs)) \<subseteq> set xs"
    proof
      fix v assume v: "v \<in> set (merge_by_id.merged key comb (xs @ xs))"
      then have "key v \<in> key ` set xs"
        using merge_by_id.set_ids_merged[OF assms(1), of "xs @ xs"] by auto
      then obtain x where x: "x \<in> set xs" "key x = key v" by auto
      with v in_merged[OF x(1)] have "v = x"
        using merge_by_id.distinct_merged[OF assms(1), of "xs @ xs"]
        by (auto simp: distinct_map dest: inj_onD)
      with x show "v \<in> set xs" by simp
    qed
  qed
qed

lemma merge_notes_same:
  "distinct (map n_id xs) \<Longrightarrow> sorted_by note_cmp xs \<Longrightarrow> list_all (\<lambda>n. ts_is_valid (n_created_at n)) xs
     \<Longrightarrow> merge_notes xs xs = xs"
  unfolding merge_notes_merged
  by (rule note_ord.sort_by_unique)
    (simp_all add: mset_merged_twice mn.merge_by_id_axioms newer_note_def Let_def list_all_iff)

lemma merge_attachments_same:
  "distinct (map at_id xs) \<Longrightarrow> sorted_by attachment_cmp xs
     \<Longrightarrow> list_all (\<lambda>a. ts_is_valid (at_created_at a)) xs \<Longrightarrow> merge_attachments xs xs w = xs"
  unfolding merge_attachments_merged
  by (rule att_ord.sort_by_unique)
    (simp_all add: mset_merged_twice ma.merge_by_id_axioms prefer_attachment_def list_all_iff)

lemma history_map_same:
  assumes "distinct (map ce_id xs)"
  shows "mset (btree_values (history_map xs xs xs w)) = mset xs"
proof (subst set_eq_iff_mset_eq_distinct[symmetric])
  have d: "distinct (map ce_id (btree_values (history_map xs xs xs w)))"
    by (simp add: values_keyed keyed_history_map key_sorted_distinct key_sorted_history_map)
  then show "distinct (btree_values (history_map xs xs xs w))" "distinct xs"
    using assms by (auto simp: distinct_map)
  have sub: "set (btree_values (history_map xs xs xs w)) \<subseteq> set xs"
    using merge_claim_history_subset[of xs xs xs w] by (simp add: merge_claim_history_values)
  moreover have "ce_id ` set (btree_values (history_map xs xs xs w)) = ce_id ` set xs"
    using merge_claim_history_ids[of xs xs xs w] by (simp add: merge_claim_history_values)
  ultimately show "set (btree_values (history_map xs xs xs w)) = set xs"
    using assms by (metis distinct_map inj_on_image_eq_iff order_refl)
qed

lemma merge_claim_history_same:
  "distinct (map ce_id xs) \<Longrightarrow> sorted_by claim_event_cmp xs \<Longrightarrow> list_all (\<lambda>e. ts_is_valid (ce_at e)) xs
     \<Longrightarrow> merge_claim_history xs xs xs w = xs"
  unfolding merge_claim_history_values
  by (rule ev_ord.sort_by_unique) (simp_all add: history_map_same list_all_iff)

lemma merge_reviews_same:
  assumes "sorted_wrt (<) (map rr_by xs)"
  shows "merge_reviews xs xs = xs"
proof -
  have "distinct (map rr_by xs)" using assms by (simp add: strict_sorted_iff)
  then have "mset (mr.merged (xs @ xs)) = mset xs"
    by (simp add: mset_merged_twice mr.merge_by_id_axioms newer_review_def)
  then have "mr.merged (xs @ xs) = xs"
    using assms mr.sorted_merged[of "xs @ xs"] mr.distinct_merged[of "xs @ xs"]
    by (intro map_sorted_distinct_set_unique[of rr_by])
      (auto simp: strict_sorted_iff distinct_map dest: mset_eq_setD)
  then show ?thesis by (simp add: merge_reviews_merged)
qed

subsection \<open>Properties\<close>


definition left_ticket :: ticket where
  "left_ticket = sample_ticket\<lparr>t_title := ''Left'', t_tags := [''a''], t_updated_at := at_ns 200,
     t_notes := [plain_note 5 Regular (at_ns 150) None ''hello'']\<rparr>"

definition right_ticket :: ticket where
  "right_ticket = sample_ticket\<lparr>t_title := ''Right'', t_tags := [''b''], t_updated_at := at_ns 300,
     t_notes := [plain_note 6 Regular (at_ns 160) None ''there'']\<rparr>"


text \<open>Merging a ticket with itself changes nothing: on a ticket in canonical order, with
  both sides equal to the base, the merge is the ticket itself and its body is resolved.\<close>

theorem merge_idempotent:
  assumes "merge_canonical t"
  shows "merge_tickets t t t = \<lparr>mo_ticket = t, mo_body = Resolved (t_details t)\<rparr>"
proof -
  have "t\<lparr>t_started_phase := None\<rparr> = t" if "t_status t \<noteq> Started"
    using assms that by (cases t) (auto simp: merge_canonical_def)
  with assms show ?thesis
    by (simp add: merge_tickets_def merge_canonical_def Let_def merge_body_def merge_notes_same
        merge_attachments_same merge_claim_history_same merge_reviews_same)
qed

theorem merge_idempotent_witness:
  "merge_tickets left_ticket left_ticket left_ticket
     = \<lparr>mo_ticket = left_ticket, mo_body = Resolved (t_details left_ticket)\<rparr>"
proof -
  have "merge_canonical left_ticket"
    by (simp add: merge_canonical_def left_ticket_def sample_ticket_def ticket_new_def
        plain_note_def sorted_by_def at_ns_def ts_is_valid_def)
  then show ?thesis by (rule merge_idempotent)
qed

text \<open>C29. A merge loses no note: the ids of the merged notes are exactly those of both sides,
  each once, and each merged note is one of its versions with the newest edit time, human
  edited exactly when some version is.\<close>

theorem merge_keeps_notes:
  "n_id ` set (t_notes (mo_ticket (merge_tickets base ours theirs)))
     = n_id ` (set (t_notes ours) \<union> set (t_notes theirs))
   \<and> distinct (map n_id (t_notes (mo_ticket (merge_tickets base ours theirs))))
   \<and> list_all (\<lambda>n. resolves {m \<in> set (t_notes ours) \<union> set (t_notes theirs). n_id m = n_id n} n)
       (t_notes (mo_ticket (merge_tickets base ours theirs)))"
  using merge_notes_member[of _ "t_notes ours" "t_notes theirs"]
  by (simp add: merge_tickets_def Let_def merge_notes_ids merge_notes_distinct list_all_iff)

text \<open>A merge loses no claim event: the merged history has exactly the event ids of the
  base and both sides, each once, and every event of it is one of theirs.\<close>

theorem merge_keeps_claim_history:
  "ce_id ` set (t_claim_history (mo_ticket (merge_tickets base ours theirs)))
     = ce_id ` (set (t_claim_history base) \<union> set (t_claim_history ours) \<union> set (t_claim_history theirs))
   \<and> distinct (map ce_id (t_claim_history (mo_ticket (merge_tickets base ours theirs))))
   \<and> set (t_claim_history (mo_ticket (merge_tickets base ours theirs)))
       \<subseteq> set (t_claim_history base) \<union> set (t_claim_history ours) \<union> set (t_claim_history theirs)"
  using merge_claim_history_subset
  by (simp add: merge_tickets_def Let_def merge_claim_history_ids merge_claim_history_distinct)

text \<open>The merged tags, blockers, follow-ups and assignees are the union of both sides
  without what one side removed from the base, and no element occurs twice.\<close>

theorem merge_sets:
  "let m = mo_ticket (merge_tickets base ours theirs);
       merged = (\<lambda>b x y. (x \<union> y) - (b - x \<inter> y))
   in set (t_tags m) = merged (set (t_tags base)) (set (t_tags ours)) (set (t_tags theirs))
    \<and> distinct (t_tags m)
    \<and> set (t_assignees m)
        = merged (set (t_assignees base)) (set (t_assignees ours)) (set (t_assignees theirs))
    \<and> distinct (t_assignees m) \<and> distinct (t_blocked_by m) \<and> distinct (t_follow_ups m)"
  by (simp add: merge_tickets_def Let_def set_union3 distinct_union3)


end
