(* ===== verification/Ticket_Ops.thy ===== *)
theory Ticket_Ops
  imports Ticket_Query
begin

text \<open>
  The store operations of \<open>ops.rs\<close> on whole tickets: create, update, follow-ups, restore and
  purge of Trash, close, copy and move between stores, and human assignment.  Each is the
  source's transaction: guards, read, the transformation of \<open>Ticket_Lifecycle\<close>, write with
  its commit.  Stores are addressed by canonical root where an operation takes two of them,
  so that a store paired with itself is one store.
\<close>

datatype op_error =
    StoreErr store_error
  | WrongWorker string string string
  | NotClaimed string
  | ClaimUnavailable string string
  | DuplicateNeedsTarget
  | UnknownTicket string
  | SelfBlock string
  | LifecycleErr lifecycle_error
  | NotInTrash status
  | InvalidEta string
  | StaleHandoff string
  | OpPanic

text \<open>\<open>store.write_ticket_committing(&t)?; Ok(t)\<close>.\<close>

definition commit_ticket ::
  "platform \<Rightarrow> fs_store \<Rightarrow> (store_error \<Rightarrow> 'e) \<Rightarrow> ticket \<Rightarrow> ('e + ticket) \<times> fs_store" where
  "commit_ticket P s from t =
     (case write_ticket_committing P s t of
        (Inl e, s') \<Rightarrow> (Inl (from e), s')
      | (Inr _, s') \<Rightarrow> (Inr t, s'))"

subsection \<open>Create\<close>

record new_ticket =
  nt_title :: string
  nt_category :: string
  nt_priority :: priority
  nt_status :: status
  nt_details :: string
  nt_tags :: "string list"
  nt_up_next :: bool
  nt_blocked_by :: "ulid list"

definition dedupe_tags :: "string list \<Rightarrow> string list" where
  "dedupe_tags tags = dedup_from [] tags"

lemma length_trim_start_le: "length (trim_start s) \<le> length s"
  using trim_start_suffix[of s] by (metis length_append le_add2)

text \<open>The loop over leading \<open>[tag]\<close> groups: the tags found and what is left of the title.\<close>

function extract_tags :: "string \<Rightarrow> string list \<times> string" where
  "extract_tags rest =
     (case strip_prefix ''['' rest of
        None \<Rightarrow> ([], rest)
      | Some after_open \<Rightarrow>
          (case find_sub '']'' after_open of
             None \<Rightarrow> ([], rest)
           | Some close \<Rightarrow>
               let content = take close after_open; tag = join ''-'' (split_whitespace content) in
               if content = [] \<or> contains_sub ''['' content \<or> tag = [] then ([], rest)
               else let (tags, final) = extract_tags (trim_start (drop (close + 1) after_open))
                    in (tag # tags, final)))"
  by pat_completeness auto
termination
proof (relation "measure length")
  fix rest after_open close x xa
  assume "strip_prefix ''['' rest = Some after_open"
  then have "length after_open < length rest" by (auto simp: strip_prefix_Some)
  then show "(trim_start (drop (close + 1) after_open), rest) \<in> measure length"
    using length_trim_start_le[of "drop (close + 1) after_open"] by simp
qed simp

declare extract_tags.simps [simp del]

definition normalize_new_ticket_input :: "new_ticket \<Rightarrow> new_ticket" where
  "normalize_new_ticket_input new =
     (let original = trim (nt_title new) in
      case strip_prefix [CHR 92, CHR ''[''] original of
        Some literal \<Rightarrow> new\<lparr>nt_title := ''['' @ literal, nt_tags := dedupe_tags (nt_tags new)\<rparr>
      | None \<Rightarrow>
          let (extracted, rest) = extract_tags original in
          if extracted \<noteq> [] \<and> rest \<noteq> []
          then new\<lparr>nt_title := trim rest, nt_tags := dedupe_tags (nt_tags new @ extracted)\<rparr>
          else new\<lparr>nt_title := original, nt_tags := dedupe_tags (nt_tags new)\<rparr>)"

fun resolve_blockers_from ::
  "ulid option \<Rightarrow> (string \<Rightarrow> store_error + ticket option) \<Rightarrow> ulid list \<Rightarrow> string list
     \<Rightarrow> op_error + ulid list" where
  "resolve_blockers_from target res ids [] = Inr ids"
| "resolve_blockers_from target res ids (n # ns) =
     (case res n of
        Inl e \<Rightarrow> Inl (StoreErr e)
      | Inr None \<Rightarrow> Inl (UnknownTicket n)
      | Inr (Some t) \<Rightarrow>
          if target = Some (t_id t) then Inl (SelfBlock (t_slug t))
          else resolve_blockers_from target res
                 (if t_id t \<in> set ids then ids else ids @ [t_id t]) ns)"

definition resolve_blockers ::
  "platform \<Rightarrow> fs_store \<Rightarrow> ulid option \<Rightarrow> string list \<Rightarrow> op_error + ulid list" where
  "resolve_blockers P s target needles =
     resolve_blockers_from target (resolve P s) [] needles"

definition created_ticket ::
  "platform \<Rightarrow> ulid \<Rightarrow> string \<Rightarrow> timestamp \<Rightarrow> new_ticket \<Rightarrow> note_actor option \<Rightarrow> ticket" where
  "created_ticket P i prefix now input created_by =
     (let new = normalize_new_ticket_input input in
      (ticket_new i (derive_slug P i prefix) (nt_title new) (nt_category new) now now)
        \<lparr>t_priority := nt_priority new, t_status := nt_status new,
         t_started_phase := (if nt_status new = Started then Some Analyzing else None),
         t_details := nt_details new, t_tags := nt_tags new,
         t_up_next := (nt_up_next new \<and> is_active (nt_status new)),
         t_blocked_by := nt_blocked_by new, t_created_by := created_by\<rparr>)"

definition create_by ::
  "platform \<Rightarrow> fs_store \<Rightarrow> ulid \<Rightarrow> string \<Rightarrow> timestamp \<Rightarrow> new_ticket \<Rightarrow> note_actor option
     \<Rightarrow> (store_error + ticket) \<times> fs_store" where
  "create_by P s i prefix now new created_by =
     commit_ticket P s id (created_ticket P i prefix now new created_by)"

subsection \<open>Update\<close>

definition updated_ticket :: "platform \<Rightarrow> ticket_patch \<Rightarrow> timestamp \<Rightarrow> ticket \<Rightarrow> ticket" where
  "updated_ticket P p now before =
     (let t = apply_patch P p now before in
      if has_substantive_change before t then t\<lparr>t_updated_at := now\<rparr> else t)"

definition update_ticket ::
  "platform \<Rightarrow> fs_store \<Rightarrow> ulid \<Rightarrow> timestamp \<Rightarrow> ticket_patch \<Rightarrow> (store_error + ticket) \<times> fs_store" where
  "update_ticket P s i now p = with_ticket_transaction s id (\<lambda>s.
     (case read_ticket P s i of
        Inl e \<Rightarrow> (Inl e, s)
      | Inr before \<Rightarrow>
          if apply_patch P p now before = before then (Inr before, s)
          else commit_ticket P s id (updated_ticket P p now before)))"

definition add_follow_up ::
  "platform \<Rightarrow> fs_store \<Rightarrow> ulid \<Rightarrow> project_ticket_ref \<Rightarrow> timestamp
     \<Rightarrow> (store_error + ticket) \<times> fs_store" where
  "add_follow_up P s source target now = with_ticket_transaction s id (\<lambda>s.
     (case read_ticket P s source of
        Inl e \<Rightarrow> (Inl e, s)
      | Inr t \<Rightarrow>
          if target \<in> set (t_follow_ups t) then (Inr t, s)
          else commit_ticket P s id
                 (t\<lparr>t_follow_ups := t_follow_ups t @ [target], t_updated_at := now\<rparr>)))"

subsection \<open>Trash\<close>

definition restore ::
  "platform \<Rightarrow> fs_store \<Rightarrow> ulid \<Rightarrow> timestamp \<Rightarrow> (op_error + ticket) \<times> fs_store" where
  "restore P s i now =
     (case read_ticket P s i of
        Inl e \<Rightarrow> (Inl (StoreErr e), s)
      | Inr t \<Rightarrow>
          if t_status t \<noteq> Deleted then (Inl (NotInTrash (t_status t)), s)
          else case update_ticket P s i now (empty_patch\<lparr>p_status := Some (restore_target t)\<rparr>) of
              (Inl e, s') \<Rightarrow> (Inl (StoreErr e), s')
            | (Inr t', s') \<Rightarrow> (Inr t', s'))"

definition day_minutes :: int where "day_minutes = 24 * 60"

definition due_for_purge :: "offset_date_time \<Rightarrow> ticket \<Rightarrow> bool" where
  "due_for_purge cutoff t =
     (t_status t = Deleted \<and>
      is_some_and (ts_parsed (deleted_since t)) (\<lambda>d. unix_nanos d \<le> unix_nanos cutoff))"

definition trash_due_for_purge ::
  "platform \<Rightarrow> fs_store \<Rightarrow> timestamp \<Rightarrow> int \<Rightarrow> op_error + ticket list" where
  "trash_due_for_purge P s now retention_days =
     (case plus_minutes P now (- retention_days * day_minutes) of
        None \<Rightarrow> Inl OpPanic
      | Some limit \<Rightarrow>
          (case ts_parsed limit of
             None \<Rightarrow> Inr []
           | Some cutoff \<Rightarrow>
               (case list_tickets P s of
                  Inl e \<Rightarrow> Inl (StoreErr e)
                | Inr ts \<Rightarrow> Inr (filter (due_for_purge cutoff) ts))))"

fun purge_tickets ::
  "platform \<Rightarrow> fs_store \<Rightarrow> ticket list \<Rightarrow> (op_error + string list) \<times> fs_store" where
  "purge_tickets P s [] = (Inr [], s)"
| "purge_tickets P s (t # ts) =
     (let file = ticket_path P s (t_id t); dir = attachment_dir P (t_id t) in
      if \<not> file_exists s file then (Inl (StoreErr (Io NotFound file)), s)
      else if file \<in> set (st_unwritable s) then (Inl (StoreErr (Io OtherIo file)), s)
      else
        let s1 = s\<lparr>st_files := AList.delete file (st_files s)\<rparr> in
        if map_of (st_attachment_dirs s1) (t_id t) = None
        then (case purge_tickets P s1 ts of
                (Inl e, s') \<Rightarrow> (Inl e, s') | (Inr paths, s') \<Rightarrow> (Inr (file # paths), s'))
        else if dir \<in> set (st_unwritable s1) then (Inl (StoreErr (Io OtherIo dir)), s1)
        else
          let s2 = s1\<lparr>st_attachment_dirs := AList.delete (t_id t) (st_attachment_dirs s1)\<rparr> in
          (case purge_tickets P s2 ts of
             (Inl e, s') \<Rightarrow> (Inl e, s') | (Inr paths, s') \<Rightarrow> (Inr (file # dir # paths), s')))"

definition show_int :: "int \<Rightarrow> string" where
  "show_int n = (if n < 0 then ''-'' @ show_nat (nat (- n)) else show_nat (nat n))"

definition purge_message :: "nat \<Rightarrow> int \<Rightarrow> string" where
  "purge_message n days =
     ''Purge '' @ show_nat n @ '' '' @ (if n = 1 then ''ticket'' else ''tickets'')
       @ '' from Trash after '' @ show_int days @ '' days''"

definition purge_trash ::
  "platform \<Rightarrow> fs_store \<Rightarrow> timestamp \<Rightarrow> int \<Rightarrow> (op_error + ticket list) \<times> fs_store" where
  "purge_trash P s now retention_days = with_ticket_transaction s StoreErr (\<lambda>s.
     (case trash_due_for_purge P s now retention_days of
        Inl e \<Rightarrow> (Inl e, s)
      | Inr due \<Rightarrow>
          (case purge_tickets P s due of
             (Inl e, s') \<Rightarrow> (Inl e, s')
           | (Inr paths, s') \<Rightarrow>
               if due = [] then (Inr due, s')
               else (case autocommit_paths s' (purge_message (length due) retention_days) paths of
                       (Inl e, s'') \<Rightarrow> (Inl (StoreErr e), s'')
                     | (Inr _, s'') \<Rightarrow> (Inr due, s'')))))"

subsection \<open>Close\<close>

definition close_as ::
  "platform \<Rightarrow> fs_store \<Rightarrow> ulid \<Rightarrow> timestamp \<Rightarrow> close_reason \<Rightarrow> string option \<Rightarrow> note_actor option
     \<Rightarrow> (op_error + ticket) \<times> fs_store" where
  "close_as P s i now reason duplicate_of actor = with_ticket_transaction s StoreErr (\<lambda>s.
     if reason = Duplicate \<and> duplicate_of = None then (Inl DuplicateNeedsTarget, s)
     else case read_ticket P s i of
         Inl e \<Rightarrow> (Inl (StoreErr e), s)
       | Inr t \<Rightarrow> commit_ticket P s StoreErr (apply_close P now reason duplicate_of actor t))"

subsection \<open>Copy and move\<close>

text \<open>All stores by canonical root.\<close>

type_synonym world = "string \<Rightarrow> fs_store"

definition with_store_pair_transaction ::
  "world \<Rightarrow> string \<Rightarrow> string \<Rightarrow> (world \<Rightarrow> (op_error + 'a) \<times> world) \<Rightarrow> (op_error + 'a) \<times> world" where
  "with_store_pair_transaction w src dest op =
     (let guard = (\<lambda>r. if st_recovery_required (w r) then Some CompactionRecoveryRequired
                       else st_lock_error (w r));
          roots = (if src < dest then [src, dest] else if dest < src then [dest, src] else [src])
      in case find_map guard roots of
           Some e \<Rightarrow> (Inl (StoreErr e), w)
         | None \<Rightarrow> op w)"

definition copied_ticket :: "platform \<Rightarrow> ulid \<Rightarrow> ulid \<Rightarrow> string \<Rightarrow> timestamp \<Rightarrow> ticket \<Rightarrow> ticket" where
  "copied_ticket P i new_id dest_prefix now orig =
     orig\<lparr>t_id := new_id, t_slug := derive_slug P new_id dest_prefix,
          t_copied_from := Some i, t_created_at := now, t_updated_at := now,
          t_status := NotStarted, t_started_phase := None, t_up_next := False,
          t_claimed_by := None, t_claim_lease_expires_at := None, t_worker_label := None,
          t_claim_count := 0, t_claim_history := [], t_completed_at := None,
          t_verified_at := None, t_closed_at := None, t_close_reason := None,
          t_duplicate_of := None, t_moved_to_store := None, t_moved_at := None\<rparr>"

text \<open>The entries of the source directory land in the destination directory under their names.\<close>

definition copy_attachments ::
  "platform \<Rightarrow> world \<Rightarrow> string \<Rightarrow> string \<Rightarrow> ulid \<Rightarrow> ulid \<Rightarrow> (op_error + unit) \<times> world" where
  "copy_attachments P w src dest src_id dest_id =
     (case map_of (st_attachment_dirs (w src)) src_id of
        None \<Rightarrow> (Inr (), w)
      | Some entries \<Rightarrow>
          if attachment_dir P dest_id \<in> set (st_unwritable (w dest))
          then (Inl (StoreErr (Io OtherIo (attachment_dir P dest_id))), w)
          else
            let d = w dest;
                old = unwrap_or (map_of (st_attachment_dirs d) dest_id) [];
                new = fold (\<lambda>(name, is_file). AList.update name is_file) entries old
            in (Inr (), w(dest := d\<lparr>st_attachment_dirs :=
                  AList.update dest_id new (st_attachment_dirs d)\<rparr>)))"

definition commit_in ::
  "platform \<Rightarrow> world \<Rightarrow> string \<Rightarrow> ticket \<Rightarrow> (op_error + ticket) \<times> world" where
  "commit_in P w root t =
     (case commit_ticket P (w root) StoreErr t of (r, s') \<Rightarrow> (r, w(root := s')))"

definition copy_ticket ::
  "platform \<Rightarrow> world \<Rightarrow> string \<Rightarrow> string \<Rightarrow> ulid \<Rightarrow> ulid \<Rightarrow> timestamp \<Rightarrow> (op_error + ticket) \<times> world" where
  "copy_ticket P w src dest i new_id now = with_store_pair_transaction w src dest (\<lambda>w.
     (case read_ticket P (w src) i of
        Inl e \<Rightarrow> (Inl (StoreErr e), w)
      | Inr orig \<Rightarrow>
     (case metadata P (w dest) of
        Inl e \<Rightarrow> (Inl (StoreErr e), w)
      | Inr m \<Rightarrow>
          let t = copied_ticket P i new_id (sm_ticket_prefix m) now orig in
     (case commit_in P w dest t of
        (Inl e, w1) \<Rightarrow> (Inl e, w1)
      | (Inr _, w1) \<Rightarrow>
     (case copy_attachments P w1 src dest i new_id of
        (Inl e, w2) \<Rightarrow> (Inl e, w2)
      | (Inr _, w2) \<Rightarrow> (Inr t, w2))))))"

definition moved_ticket :: "platform \<Rightarrow> ulid \<Rightarrow> string \<Rightarrow> timestamp \<Rightarrow> ticket \<Rightarrow> ticket" where
  "moved_ticket P i dest_prefix now orig =
     orig\<lparr>t_slug := derive_slug P i dest_prefix, t_updated_at := now,
          t_moved_to_store := None, t_moved_at := None\<rparr>"

definition tombstone_ticket :: "platform \<Rightarrow> string \<Rightarrow> timestamp \<Rightarrow> ticket \<Rightarrow> ticket" where
  "tombstone_ticket P dest_id now orig =
     (let t1 = orig\<lparr>t_status := Moved, t_started_phase := None\<rparr>;
          t2 = (if t_status orig \<noteq> Moved
                then append_status_transition P (t_status orig) Moved now t1 else t1)
      in t2\<lparr>t_moved_to_store := Some dest_id, t_moved_at := Some now, t_updated_at := now,
            t_up_next := False, t_claimed_by := None, t_claim_lease_expires_at := None\<rparr>)"

definition drop_attachment_dir :: "platform \<Rightarrow> fs_store \<Rightarrow> ulid \<Rightarrow> fs_store" where
  "drop_attachment_dir P s i =
     (if attachment_dir P i \<in> set (st_unwritable s) then s
      else s\<lparr>st_attachment_dirs := AList.delete i (st_attachment_dirs s)\<rparr>)"

definition move_ticket ::
  "platform \<Rightarrow> world \<Rightarrow> string \<Rightarrow> string \<Rightarrow> ulid \<Rightarrow> string \<Rightarrow> timestamp
     \<Rightarrow> (op_error + (ticket \<times> ticket)) \<times> world" where
  "move_ticket P w src dest i dest_id now = with_store_pair_transaction w src dest (\<lambda>w.
     (case read_ticket P (w src) i of
        Inl e \<Rightarrow> (Inl (StoreErr e), w)
      | Inr orig \<Rightarrow>
     (case metadata P (w dest) of
        Inl e \<Rightarrow> (Inl (StoreErr e), w)
      | Inr m \<Rightarrow>
          let moved = moved_ticket P i (sm_ticket_prefix m) now orig;
              tombstone = tombstone_ticket P dest_id now orig in
     (case commit_in P w dest moved of
        (Inl e, w1) \<Rightarrow> (Inl e, w1)
      | (Inr _, w1) \<Rightarrow>
     (case copy_attachments P w1 src dest i i of
        (Inl e, w2) \<Rightarrow> (Inl e, w2)
      | (Inr _, w2) \<Rightarrow>
     (case commit_in P w2 src tombstone of
        (Inl e, w3) \<Rightarrow> (Inl e, w3)
      | (Inr _, w3) \<Rightarrow>
          (Inr (moved, tombstone), w3(src := drop_attachment_dir P (w3 src) i))))))))"

subsection \<open>Assignment\<close>

text \<open>\<open>requester\<close> is the Git identity \<open>current_user_email\<close> finds for the store.\<close>

definition add_reviews :: "review_request list \<Rightarrow> review_request list \<Rightarrow> review_request list" where
  "add_reviews present new =
     fold (\<lambda>r rs. if rr_by r \<in> rr_by ` set rs then rs else rs @ [r]) new present"

definition with_requester :: "string option \<Rightarrow> review_request \<Rightarrow> review_request" where
  "with_requester requester r =
     (if rr_requested_by r = None then r\<lparr>rr_requested_by := requester\<rparr> else r)"

definition assigned_ticket ::
  "string option \<Rightarrow> timestamp \<Rightarrow> string list option \<Rightarrow> review_request list \<Rightarrow> ticket \<Rightarrow> ticket" where
  "assigned_ticket requester now set_assignees reviews t =
     t\<lparr>t_assignees := (case set_assignees of None \<Rightarrow> t_assignees t
                        | Some people \<Rightarrow> dedup_from [] people),
       t_review_requests := add_reviews (t_review_requests t) (map (with_requester requester) reviews),
       t_updated_at := now\<rparr>"

definition assign ::
  "platform \<Rightarrow> fs_store \<Rightarrow> string option \<Rightarrow> ulid \<Rightarrow> timestamp \<Rightarrow> string list option
     \<Rightarrow> review_request list \<Rightarrow> (store_error + ticket) \<times> fs_store" where
  "assign P s requester i now set_assignees reviews = with_ticket_transaction s id (\<lambda>s.
     (case read_ticket P s i of
        Inl e \<Rightarrow> (Inl e, s)
      | Inr t \<Rightarrow> commit_ticket P s id (assigned_ticket requester now set_assignees reviews t)))"

end
