(* ===== verification/Note_Ops.thy ===== *)
theory Note_Ops
  imports Ticket_Ops
begin

text \<open>
  The note operations of \<open>ops.rs\<close>: append, publish a handoff, rate AI content, edit and
  delete, with the canonicalisation of attachment ids in prose and the warnings on
  attachment references.  The ids \<open>Ulid::new()\<close> mints inside an operation are its argument
  \<open>fresh\<close>.
\<close>

subsection \<open>Attachment references in prose\<close>

definition has_whitespace :: "string \<Rightarrow> bool" where
  "has_whitespace s = list_ex (\<lambda>c. ws_len c > 0) (chars s)"

definition backtick :: char where "backtick = CHR 0x60"

fun longest_run_from :: "nat \<Rightarrow> nat \<Rightarrow> string \<Rightarrow> nat" where
  "longest_run_from cur best [] = max cur best"
| "longest_run_from cur best (c # cs) =
     (if c = backtick then longest_run_from (cur + 1) best cs
      else longest_run_from 0 (max cur best) cs)"

definition longest_backtick_run :: "string \<Rightarrow> nat" where
  "longest_backtick_run value = longest_run_from 0 0 value"

definition attachment_reference :: "string option \<Rightarrow> string \<Rightarrow> string" where
  "attachment_reference ticket filename =
     (let raw = ''attachment:'' @ (case ticket of None \<Rightarrow> [] | Some slug \<Rightarrow> ''['' @ slug @ '']'')
                  @ filename
      in if has_whitespace filename \<or> backtick \<in> set filename
         then let delimiter = replicate (longest_backtick_run raw + 1) backtick;
                  padding = (if ends_with [backtick] raw then '' '' else [])
              in delimiter @ padding @ raw @ padding @ delimiter
         else raw)"

definition is_ulid_byte :: "char \<Rightarrow> bool" where
  "is_ulid_byte c =
     (is_ascii_digit c \<or> is_ascii_upper c \<and> c \<notin> {CHR ''I'', CHR ''O'', CHR ''U''})"

definition is_ulid_bytes :: "string \<Rightarrow> bool" where
  "is_ulid_bytes s = (length s = 26 \<and> list_all is_ulid_byte s)"

fun contains_prose_ulid :: "string \<Rightarrow> bool" where
  "contains_prose_ulid [] = False"
| "contains_prose_ulid (c # cs) = (is_ulid_bytes (take 26 (c # cs)) \<or> contains_prose_ulid cs)"

definition is_ascii_whitespace :: "char \<Rightarrow> bool" where
  "is_ascii_whitespace c = (let n = of_char c :: nat in n \<in> {32, 9, 10, 12, 13})"

definition prose_boundary_before :: "string \<Rightarrow> nat \<Rightarrow> bool" where
  "prose_boundary_before text index =
     (index = 0 \<or> (let c = text ! (index - 1) in
        is_ascii_whitespace c \<or> c \<in> {CHR ''('', CHR ''['', CHR ''{'', CHR 34, CHR 39}))"

definition prose_boundary_after :: "string \<Rightarrow> nat \<Rightarrow> bool" where
  "prose_boundary_after text index =
     (index = length text \<or> (let c = text ! index in
        is_ascii_whitespace c \<or> c \<in> {CHR '')'', CHR '']'', CHR ''}'', CHR '','', CHR ''.'',
          CHR '';'', CHR '':'', CHR ''!'', CHR ''?'', CHR 34, CHR 39}))"

type_synonym references = "(string \<times> string option) list"

record scan_state =
  sc_output :: string
  sc_cursor :: nat
  sc_index :: nat
  sc_inline :: nat
  sc_fenced :: bool
  sc_line_start :: bool

definition line_marker :: "string \<Rightarrow> nat \<Rightarrow> nat" where
  "line_marker text index =
     index + run_length (\<lambda>c. c = CHR '' '' \<or> c = CHR 9) (drop index text)"

definition fence_at :: "string \<Rightarrow> nat \<Rightarrow> bool" where
  "fence_at text marker =
     (take 3 (drop marker text) = replicate 3 backtick \<or> take 3 (drop marker text) = ''~~~'')"

definition replaceable_at :: "string \<Rightarrow> scan_state \<Rightarrow> bool" where
  "replaceable_at text st =
     (\<not> sc_fenced st \<and> sc_inline st = 0 \<and> sc_index st + 26 \<le> length text
      \<and> is_ulid_bytes (take 26 (drop (sc_index st) text))
      \<and> prose_boundary_before text (sc_index st)
      \<and> prose_boundary_after text (sc_index st + 26))"

definition slice :: "string \<Rightarrow> nat \<Rightarrow> nat \<Rightarrow> string" where
  "slice text a b = drop a (take b text)"

text \<open>One iteration of the scan, past the line-start test.\<close>

definition scan_body :: "references \<Rightarrow> string \<Rightarrow> scan_state \<Rightarrow> scan_state" where
  "scan_body refs text st =
     (let i = sc_index st; c = text ! i in
      if c = CHR 10 then st\<lparr>sc_line_start := True, sc_index := i + 1\<rparr>
      else if \<not> sc_fenced st \<and> c = backtick
      then let run = run_length (\<lambda>x. x = backtick) (drop i text)
           in st\<lparr>sc_inline := (if sc_inline st = 0 then run
                               else if sc_inline st = run then 0 else sc_inline st),
                 sc_index := i + run\<rparr>
      else case (if replaceable_at text st then map_of refs (slice text i (i + 26)) else None) of
          Some (Some reference) \<Rightarrow>
            if ends_with (reference @ '' ('') (take i text) \<and> i + 26 < length text
               \<and> text ! (i + 26) = CHR '')''
            then st\<lparr>sc_output := sc_output st @ slice text (sc_cursor st) (i - 2),
                    sc_index := i + 27, sc_cursor := i + 27\<rparr>
            else st\<lparr>sc_output := sc_output st @ slice text (sc_cursor st) i @ reference,
                    sc_index := i + 26, sc_cursor := i + 26\<rparr>
        | _ \<Rightarrow> st\<lparr>sc_index := i + 1\<rparr>)"

definition scan_step :: "references \<Rightarrow> string \<Rightarrow> scan_state \<Rightarrow> scan_state" where
  "scan_step refs text st =
     (if sc_line_start st then
        let marker = line_marker text (sc_index st) in
        if fence_at text marker
        then st\<lparr>sc_fenced := \<not> sc_fenced st, sc_line_start := False, sc_index := marker + 3\<rparr>
        else scan_body refs text (st\<lparr>sc_line_start := False\<rparr>)
      else scan_body refs text st)"

lemma run_length_pos: "i < length text \<Longrightarrow> text ! i = c \<Longrightarrow> 0 < run_length (\<lambda>x. x = c) (drop i text)"
  by (simp add: run_length_def Cons_nth_drop_Suc[symmetric])

lemma scan_body_advances:
  "sc_index st < length text \<Longrightarrow> sc_index st < sc_index (scan_body refs text st)"
  using run_length_pos[of "sc_index st" "text" backtick]
  by (auto simp: scan_body_def Let_def split: option.splits)

lemma scan_step_advances:
  "sc_index st < length text \<Longrightarrow> sc_index st < sc_index (scan_step refs text st)"
  using scan_body_advances[of st "text" refs]
    scan_body_advances[of "st\<lparr>sc_line_start := False\<rparr>" "text" refs]
  by (auto simp: scan_step_def Let_def line_marker_def)

function scan_prose :: "references \<Rightarrow> string \<Rightarrow> scan_state \<Rightarrow> scan_state" where
  "scan_prose refs text st =
     (if sc_index st < length text then scan_prose refs text (scan_step refs text st) else st)"
  by pat_completeness auto
termination
  by (relation "measure (\<lambda>(refs, text, st). length text - sc_index st)")
    (auto intro: diff_less_mono2 dest: scan_step_advances)

declare scan_prose.simps [simp del]

definition replace_prose_attachment_ids :: "string \<Rightarrow> references \<Rightarrow> string" where
  "replace_prose_attachment_ids text refs =
     (let st = scan_prose refs text \<lparr>sc_output = [], sc_cursor = 0, sc_index = 0, sc_inline = 0,
                 sc_fenced = False, sc_line_start = True\<rparr>
      in sc_output st @ drop (sc_cursor st) text)"

text \<open>Ids on other tickets, ambiguous ones cleared; the owner's attachments win.\<close>

definition foreign_reference :: "platform \<Rightarrow> ticket \<Rightarrow> attachment \<Rightarrow> references \<Rightarrow> references" where
  "foreign_reference P t a refs =
     (let key = pf_ulid_to_string P (at_id a) in
      AList.update key
        (if map_of refs key = None
         then Some (attachment_reference (Some (t_slug t)) (at_filename a)) else None) refs)"

definition collect_references :: "platform \<Rightarrow> ticket list \<Rightarrow> ticket \<Rightarrow> references" where
  "collect_references P listed owner =
     fold (\<lambda>a. AList.update (pf_ulid_to_string P (at_id a))
                 (Some (attachment_reference None (at_filename a)))) (t_attachments owner)
       (fold (\<lambda>t. fold (foreign_reference P t) (t_attachments t))
         (filter (\<lambda>t. t_id t \<noteq> t_id owner) listed) [])"

text \<open>\<open>Inl\<close> is the uncaught panic of reading the listing; any other listing error is ignored.\<close>

definition canonicalize_attachment_id_references ::
  "platform \<Rightarrow> fs_store \<Rightarrow> ticket \<Rightarrow> string \<Rightarrow> store_error + string" where
  "canonicalize_attachment_id_references P s owner text =
     (if \<not> contains_prose_ulid text then Inr text
      else case list_tickets_resilient P s of
          Inr (ts, _) \<Rightarrow> Inr (replace_prose_attachment_ids text (collect_references P ts owner))
        | Inl e \<Rightarrow> if is_panic e then Inl e
                   else Inr (replace_prose_attachment_ids text (collect_references P [] owner)))"

subsection \<open>Append\<close>

record note_metadata_input =
  mi_kind_explicit :: bool
  mi_summary :: "string option"
  mi_confidence :: "confidence option"
  mi_actor :: "note_actor option"
  mi_ai_feedback :: "ai_feedback option"
  mi_human_edited :: bool
  mi_response_to :: "string option"

definition normalize_summary :: "string option \<Rightarrow> string option" where
  "normalize_summary s =
     Option.bind s (\<lambda>v. let v = join '' '' (split_whitespace v) in if v \<noteq> [] then Some v else None)"

definition appended_kind :: "note_metadata_input \<Rightarrow> note_kind \<Rightarrow> string \<Rightarrow> note_kind" where
  "appended_kind md kind text =
     (if is_some (mi_ai_feedback md) then kind else infer_kind kind (mi_kind_explicit md) text)"

definition response_target ::
  "platform \<Rightarrow> ticket \<Rightarrow> note_kind \<Rightarrow> string option \<Rightarrow> store_error + ulid option" where
  "response_target P t kind response_to =
     (case response_to of
        None \<Rightarrow> Inr None
      | Some raw \<Rightarrow>
          (case pf_ulid_from_string P raw of
             None \<Rightarrow> Inl (InvalidFeedbackResponse ''response_to must be a feedback request ULID'')
           | Some request \<Rightarrow>
               if kind \<noteq> Regular \<or>
                  \<not> list_ex (\<lambda>n. n_id n = request \<and> is_feedback_needed_request n) (t_notes t)
               then Inl (InvalidFeedbackResponse
                      ''response_to must name a feedback request on this ticket'')
               else Inr (Some request)))"

definition appended_note ::
  "platform \<Rightarrow> ulid \<Rightarrow> timestamp \<Rightarrow> note_kind \<Rightarrow> note_metadata_input \<Rightarrow> ulid option \<Rightarrow> string
     \<Rightarrow> ticket_note" where
  "appended_note P note_id now kind md response_to text =
     \<lparr>n_id = note_id, n_kind = kind, n_kind_explicit = mi_kind_explicit md, n_created_at = now,
      n_edited_at = now, n_summary = normalize_summary (mi_summary md),
      n_confidence = mi_confidence md,
      n_feedback_for = opt_or (Option.bind (mi_ai_feedback md) (\<lambda>f. note_target_ulid P (af_target f)))
                         (feedback_parent_from_text P text),
      n_feedback_request = (kind = FeedbackNeeded), n_response_to = response_to,
      n_ai_feedback = mi_ai_feedback md, n_human_edited = mi_human_edited md,
      n_actor = mi_actor md, n_text = text\<rparr>"

definition add_note_with_metadata ::
  "platform \<Rightarrow> fs_store \<Rightarrow> ulid \<Rightarrow> ulid \<Rightarrow> timestamp \<Rightarrow> note_kind \<Rightarrow> note_metadata_input \<Rightarrow> string
     \<Rightarrow> (store_error + ticket) \<times> fs_store" where
  "add_note_with_metadata P s i note_id now kind md text = with_ticket_transaction s id (\<lambda>s.
     (case read_ticket P s i of
        Inl e \<Rightarrow> (Inl e, s)
      | Inr t \<Rightarrow>
     (case canonicalize_attachment_id_references P s t text of
        Inl e \<Rightarrow> (Inl e, s)
      | Inr text \<Rightarrow>
          let kind = appended_kind md kind text in
     (case response_target P t kind (mi_response_to md) of
        Inl e \<Rightarrow> (Inl e, s)
      | Inr response_to \<Rightarrow>
          commit_ticket P s id
            ((push_note (appended_note P note_id now kind md response_to text) t)
               \<lparr>t_updated_at := now\<rparr>)))))"

subsection \<open>AI content ratings\<close>

definition valid_rating_target :: "string \<Rightarrow> bool" where
  "valid_rating_target target =
     list_ex (\<lambda>prefix. is_some_and (strip_prefix prefix target)
        (\<lambda>i. i \<noteq> [] \<and> \<not> has_whitespace i)) [''note:'', ''activity:'', ''conversation:'']"

fun rating_label :: "ai_rating option \<Rightarrow> string" where
  "rating_label (Some Helpful) = helpful_label"
| "rating_label (Some NotHelpful) = not_helpful_label"
| "rating_label None = ''Withdrawn.''"

definition rating_text :: "string \<Rightarrow> ai_rating option \<Rightarrow> string option \<Rightarrow> string" where
  "rating_text target rating detail =
     join (nl @ nl) (filter (\<lambda>l. l \<noteq> [])
       [''AI feedback for '' @ target @ '': '' @ rating_label rating, unwrap_or detail []])"

definition rated_by :: "string \<Rightarrow> note_actor option \<Rightarrow> ticket_note \<Rightarrow> bool" where
  "rated_by target actor n =
     (is_some_and (ai_feedback_value n) (\<lambda>f. af_target f = target) \<and> n_actor n = actor)"

definition revise_rating ::
  "platform \<Rightarrow> timestamp \<Rightarrow> ai_feedback \<Rightarrow> string \<Rightarrow> ticket_note \<Rightarrow> ticket_note" where
  "revise_rating P now feedback text n =
     n\<lparr>n_ai_feedback := Some feedback, n_feedback_for := note_target_ulid P (af_target feedback),
       n_text := text, n_edited_at := now\<rparr>"

definition rating_note ::
  "platform \<Rightarrow> ulid \<Rightarrow> timestamp \<Rightarrow> ai_feedback \<Rightarrow> note_actor option \<Rightarrow> string \<Rightarrow> ticket_note" where
  "rating_note P fresh now feedback actor text =
     (plain_note fresh Regular now None text)
       \<lparr>n_feedback_for := note_target_ulid P (af_target feedback),
        n_ai_feedback := Some feedback, n_actor := actor\<rparr>"

definition rated_ticket ::
  "platform \<Rightarrow> ulid \<Rightarrow> timestamp \<Rightarrow> string \<Rightarrow> ai_rating option \<Rightarrow> string option
     \<Rightarrow> note_actor option \<Rightarrow> ticket \<Rightarrow> store_error + ticket" where
  "rated_ticket P fresh now target rating explanation actor t =
     (if is_some rating \<and> is_some_and (strip_prefix ''note:'' target) (\<lambda>raw.
            \<not> is_some_and (pf_ulid_from_string P raw) (\<lambda>i. i \<in> n_id ` set (t_notes t)))
      then Inl (Io InvalidInput ''AI feedback note target must name a note on this ticket'')
      else
        let previous = list_ex (rated_by target actor) (t_notes t) in
        if \<not> previous \<and> rating = None
        then Inl (Io InvalidInput ''cannot withdraw a rating that does not exist'')
        else
          let detail = opt_filter (\<lambda>v. v \<noteq> []) (map_option trim explanation);
              feedback = \<lparr>af_target = target, af_rating = rating, af_explanation = detail\<rparr>;
              text = rating_text target rating detail;
              notes = (if previous
                       then update_last (rated_by target actor) (revise_rating P now feedback text)
                              (t_notes t)
                       else t_notes t @ [rating_note P fresh now feedback actor text])
          in Inr (t\<lparr>t_notes := notes, t_updated_at := now\<rparr>))"

definition rate_ai_content ::
  "platform \<Rightarrow> fs_store \<Rightarrow> ulid \<Rightarrow> ulid \<Rightarrow> timestamp \<Rightarrow> string \<Rightarrow> ai_rating option \<Rightarrow> string option
     \<Rightarrow> note_actor option \<Rightarrow> (store_error + ticket) \<times> fs_store" where
  "rate_ai_content P s fresh i now target rating explanation actor =
     (if is_none_or (Option.bind actor na_id) (\<lambda>v. v = [])
      then (Inl (Io InvalidInput ''AI feedback requires a stable rater id''), s)
      else if \<not> valid_rating_target target
      then (Inl (Io InvalidInput
        ''AI feedback target must be a non-empty note, activity, or conversation id''), s)
      else with_ticket_transaction s id (\<lambda>s.
        (case read_ticket P s i of
           Inl e \<Rightarrow> (Inl e, s)
         | Inr t \<Rightarrow>
             (case rated_ticket P fresh now target rating explanation actor t of
                Inl e \<Rightarrow> (Inl e, s)
              | Inr t' \<Rightarrow> commit_ticket P s id t'))))"

subsection \<open>Edit and delete\<close>

record note_edit_input =
  ed_kind :: "note_kind option"
  ed_text :: "string option"
  ed_confidence :: "confidence option option"
  ed_actor :: "note_actor option"
  ed_allow_feedback_prompt_edit :: bool

definition validate_note_kind_edit :: "note_kind option \<Rightarrow> store_error + unit" where
  "validate_note_kind_edit kind =
     (if kind = Some FeedbackDraft then Inl InvalidNoteKindEdit else Inr ())"

definition has_role :: "actor_role \<Rightarrow> note_actor option \<Rightarrow> bool" where
  "has_role role actor = is_some_and actor (\<lambda>a. na_role a = role)"

definition distillation_marker :: string where
  "distillation_marker = ''hotsheet:activity-distillation:v1:''"

fun note_kind_debug :: "note_kind \<Rightarrow> string" where
  "note_kind_debug Regular = ''Regular''"
| "note_kind_debug FeedbackNeeded = ''FeedbackNeeded''"
| "note_kind_debug FeedbackDraft = ''FeedbackDraft''"
| "note_kind_debug StatusNote = ''Status''"
| "note_kind_debug Activity = ''Activity''"

definition prompt_edit_refused :: "note_edit_input \<Rightarrow> string option \<Rightarrow> ticket_note \<Rightarrow> bool" where
  "prompt_edit_refused ed text n =
     (is_some_and text (\<lambda>t. t \<noteq> n_text n) \<and> has_role Human (ed_actor ed)
      \<and> has_role Ai (n_actor n) \<and> n_kind n = FeedbackNeeded
      \<and> \<not> ed_allow_feedback_prompt_edit ed)"

definition kind_change :: "note_edit_input \<Rightarrow> ticket_note \<Rightarrow> note_kind option" where
  "kind_change ed n =
     opt_filter (\<lambda>k. k \<noteq> n_kind n \<or> \<not> n_kind_explicit n
        \<or> n_feedback_request n \<noteq> (k = FeedbackNeeded)) (ed_kind ed)"

definition change_kind :: "note_kind \<Rightarrow> ticket_note \<Rightarrow> ticket_note" where
  "change_kind k n =
     n\<lparr>n_kind := k, n_kind_explicit := True, n_feedback_request := (k = FeedbackNeeded)\<rparr>"

definition edit_text :: "note_edit_input \<Rightarrow> string \<Rightarrow> ticket_note \<Rightarrow> ticket_note" where
  "edit_text ed text n =
     (let distilled = contains_sub distillation_marker (n_text n);
          changed = (text \<noteq> n_text n);
          human = (changed \<and> has_role Human (ed_actor ed) \<and> (has_role Ai (n_actor n) \<or> distilled))
      in n\<lparr>n_human_edited := (n_human_edited n \<or> human),
           n_actor := (if n_actor n = None \<and> distilled \<and> changed
                       then Some \<lparr>na_role = Ai, na_id = Some ''hotsheet''\<rparr> else n_actor n),
           n_text := text\<rparr>)"

definition edited_note ::
  "note_edit_input \<Rightarrow> string option \<Rightarrow> timestamp \<Rightarrow> ticket_note \<Rightarrow> ticket_note" where
  "edited_note ed text now n =
     (let n1 = (case kind_change ed n of None \<Rightarrow> n | Some k \<Rightarrow> change_kind k n);
          n2 = (case text of None \<Rightarrow> n1 | Some t \<Rightarrow> edit_text ed t n1);
          n3 = (case ed_confidence ed of None \<Rightarrow> n2 | Some c \<Rightarrow> n2\<lparr>n_confidence := c\<rparr>)
      in n3\<lparr>n_edited_at := now\<rparr>)"

definition kind_correction_note ::
  "platform \<Rightarrow> ulid \<Rightarrow> ulid \<Rightarrow> timestamp \<Rightarrow> note_edit_input \<Rightarrow> note_kind \<Rightarrow> note_kind \<Rightarrow> ticket_note" where
  "kind_correction_note P fresh note_id now ed previous k =
     (plain_note fresh Activity now (Some ''Corrected note kind'')
        (''Note '' @ pf_ulid_to_string P note_id @ '': kind '' @ note_kind_debug previous @ '' to ''
          @ note_kind_debug k @ '' (HS2-CV5NMC).''))
       \<lparr>n_kind_explicit := True, n_actor := ed_actor ed\<rparr>"

text \<open>\<open>None\<close>: the edit changes nothing and nothing is written.\<close>

definition edited_ticket ::
  "platform \<Rightarrow> ulid \<Rightarrow> ulid \<Rightarrow> timestamp \<Rightarrow> note_edit_input \<Rightarrow> string option \<Rightarrow> ticket
     \<Rightarrow> store_error + ticket option" where
  "edited_ticket P fresh note_id now ed text t =
     (case List.find (\<lambda>n. n_id n = note_id) (t_notes t) of
        None \<Rightarrow> Inl (Io NotFound (''note '' @ pf_ulid_to_string P note_id))
      | Some n \<Rightarrow>
          if prompt_edit_refused ed text n
          then Inl (FeedbackNoteEdit (pf_ulid_to_string P note_id))
          else if kind_change ed n = None \<and> text = None \<and> ed_confidence ed = None then Inr None
          else
            let notes = update_first (\<lambda>n. n_id n = note_id) (edited_note ed text now) (t_notes t);
                notes = (case kind_change ed n of None \<Rightarrow> notes
                         | Some k \<Rightarrow> notes @ [kind_correction_note P fresh note_id now ed (n_kind n) k])
            in Inr (Some (t\<lparr>t_notes := notes, t_updated_at := now\<rparr>)))"

definition edit_note_with_metadata ::
  "platform \<Rightarrow> fs_store \<Rightarrow> ulid \<Rightarrow> ulid \<Rightarrow> ulid \<Rightarrow> timestamp \<Rightarrow> note_edit_input
     \<Rightarrow> (store_error + ticket) \<times> fs_store" where
  "edit_note_with_metadata P s fresh i note_id now ed =
     (case validate_note_kind_edit (ed_kind ed) of
        Inl e \<Rightarrow> (Inl e, s)
      | Inr _ \<Rightarrow> with_ticket_transaction s id (\<lambda>s.
     (case read_ticket P s i of
        Inl e \<Rightarrow> (Inl e, s)
      | Inr t \<Rightarrow>
     (case (case ed_text ed of None \<Rightarrow> Inr None
            | Some text \<Rightarrow> result_bind (canonicalize_attachment_id_references P s t text)
                             (\<lambda>v. Inr (Some v))) of
        Inl e \<Rightarrow> (Inl e, s)
      | Inr text \<Rightarrow>
     (case edited_ticket P fresh note_id now ed text t of
        Inl e \<Rightarrow> (Inl e, s)
      | Inr None \<Rightarrow> (Inr t, s)
      | Inr (Some t') \<Rightarrow> commit_ticket P s id t')))))"

definition without_note :: "platform \<Rightarrow> ulid \<Rightarrow> ticket_note list \<Rightarrow> ticket_note list" where
  "without_note P note_id notes =
     filter (\<lambda>n. n_id n \<noteq> note_id \<and> ai_feedback_for_note P n \<noteq> Some note_id) notes"

definition delete_note ::
  "platform \<Rightarrow> fs_store \<Rightarrow> ulid \<Rightarrow> ulid \<Rightarrow> timestamp \<Rightarrow> (store_error + ticket) \<times> fs_store" where
  "delete_note P s i note_id now = with_ticket_transaction s id (\<lambda>s.
     (case read_ticket P s i of
        Inl e \<Rightarrow> (Inl e, s)
      | Inr t \<Rightarrow>
          if note_id \<notin> n_id ` set (t_notes t)
          then (Inl (Io NotFound (''note '' @ pf_ulid_to_string P note_id)), s)
          else commit_ticket P s id
                 (t\<lparr>t_notes := without_note P note_id (t_notes t), t_updated_at := now\<rparr>)))"

subsection \<open>Warnings\<close>

text \<open>\<open>str::match_indices\<close>: the occurrences from the left that do not overlap.\<close>

fun match_indices_from :: "string \<Rightarrow> nat \<Rightarrow> nat \<Rightarrow> string \<Rightarrow> nat list" where
  "match_indices_from p skip pos [] = []"
| "match_indices_from p skip pos (c # cs) =
     (case skip of
        Suc k \<Rightarrow> match_indices_from p k (pos + 1) cs
      | 0 \<Rightarrow> if starts_with p (c # cs)
             then pos # match_indices_from p (length p - 1) (pos + 1) cs
             else match_indices_from p 0 (pos + 1) cs)"

function find_whitespace :: "string \<Rightarrow> nat" where
  "find_whitespace s =
     (case s of [] \<Rightarrow> 0
      | c # cs \<Rightarrow> if ws_len s > 0 then 0 else Suc (find_whitespace cs))"
  by pat_completeness auto
termination
  by (relation "measure length") auto

declare find_whitespace.simps [simp del]

definition attachment_reference_candidate :: "string \<Rightarrow> nat \<Rightarrow> string" where
  "attachment_reference_candidate tail delimiter =
     (let code_end = (if delimiter > 0 then find_sub (replicate delimiter backtick) tail else None);
          end_at = unwrap_or code_end (find_whitespace tail);
          punct = (\<lambda>c. c \<in> {CHR ''.'', CHR '','', CHR '';'', CHR '':'', CHR ''!'', CHR ''?'',
                             CHR '')'', CHR '']''})
      in rev (dropWhile punct (rev (trim (take end_at tail)))))"

definition reference_warning ::
  "(string \<Rightarrow> store_error + ticket option) \<Rightarrow> ticket \<Rightarrow> string \<Rightarrow> nat \<Rightarrow> string option" where
  "reference_warning res owner text start =
     (let tail = drop (start + length ''attachment:'') text;
          delimiter = run_length (\<lambda>c. c = backtick) (rev (take start text));
          check = (\<lambda>target label tail.
            if list_ex (\<lambda>a. starts_with (at_filename a) tail) (t_attachments target) then None
            else let candidate = attachment_reference_candidate tail delimiter in
              if candidate = [] then None
              else Some (''attachment reference '' @ [CHR 39] @ ''attachment:''
                @ (if label = t_slug owner then [] else ''['' @ label @ '']'') @ candidate @ [CHR 39]
                @ '' does not match an attachment on '' @ label
                @ ''; add the attachment or correct the filename''))
      in case strip_prefix ''['' tail of
           None \<Rightarrow> check owner (t_slug owner) tail
         | Some after_open \<Rightarrow>
             (case find_sub '']'' after_open of
                None \<Rightarrow> Some ''attachment reference has an unclosed ticket selector; use attachment:[TICKET-SLUG]filename''
              | Some close \<Rightarrow>
                  let label = trim (take close after_open) in
                  (case res label of
                     Inr (Some target) \<Rightarrow> check target label (drop (close + 1) after_open)
                   | _ \<Rightarrow> Some (''attachment reference targets missing ticket '' @ [CHR 39] @ label
                            @ [CHR 39] @ ''; correct the ticket slug or create the ticket''))))"

definition attachment_reference_warnings_with ::
  "ticket \<Rightarrow> string \<Rightarrow> (string \<Rightarrow> store_error + ticket option) \<Rightarrow> string list" where
  "attachment_reference_warnings_with owner text res =
     dedup_from [] (List.map_filter (reference_warning res owner text)
       (match_indices_from ''attachment:'' 0 0 text))"

definition note_feedback_marker_suppressed :: "ticket \<Rightarrow> ulid \<Rightarrow> bool" where
  "note_feedback_marker_suppressed t note_id =
     is_some_and (List.find (\<lambda>n. n_id n = note_id) (t_notes t)) (\<lambda>n.
       explicit_kind_suppresses_feedback_marker (n_kind n) (n_kind_explicit n)
         (is_some (n_response_to n)) (n_text n))"

end
