(* ===== verification/Claim_Ops.thy ===== *)
theory Claim_Ops
  imports Note_Ops
begin

text \<open>
  Claims and leases of \<open>ops.rs\<close>: availability, estimates, the claim-next queue within one
  store and across the stores of a project, exact claims, release, renewal with its fences,
  and the publication of a handoff note.
\<close>

subsection \<open>Availability and estimates\<close>

definition blocked_claim_notice :: "ticket \<Rightarrow> string option" where
  "blocked_claim_notice t =
     Option.bind (map_option trim (t_blocked_reason t)) (\<lambda>reason.
       if reason = [] then None
       else Some (''Blocked: '' @ reason @ ''. Re-evaluate it: update it with `edit '' @ t_slug t
         @ '' --blocked-reason <text>` or clear it with `edit '' @ t_slug t
         @ '' --clear-blocked-reason` when it no longer applies.''))"

definition claim_available :: "ticket \<Rightarrow> timestamp \<Rightarrow> bool" where
  "claim_available t now =
     (case (t_claimed_by t, t_claim_lease_expires_at t) of
        (Some _, Some expires) \<Rightarrow> chronological_cmp expires now \<noteq> Some Greater
      | _ \<Rightarrow> True)"

definition MAX_CLAIM_ETA_DAYS :: int where "MAX_CLAIM_ETA_DAYS = 14"

definition second_nanos :: int where "second_nanos = 1000000000"

definition day_seconds :: int where "day_seconds = 86400"

definition quoted :: "string \<Rightarrow> string" where
  "quoted s = [CHR 39] @ s @ [CHR 39]"

definition validate_claim_eta :: "timestamp \<Rightarrow> timestamp \<Rightarrow> op_error + unit" where
  "validate_claim_eta now eta =
     (case (ts_parsed now, ts_parsed eta) of
        (Some now_at, Some eta_at) \<Rightarrow>
          if unix_nanos eta_at \<le> unix_nanos now_at
          then Inl (InvalidEta (quoted (ts_raw eta) @ '' is not in the future''))
          else if unix_nanos eta_at - unix_nanos now_at > MAX_CLAIM_ETA_DAYS * day_seconds * second_nanos
          then Inl (InvalidEta (quoted (ts_raw eta) @ '' is more than 14 days away''))
          else Inr ()
      | _ \<Rightarrow> Inl (InvalidEta (quoted (ts_raw eta) @ '' is not an RFC 3339 timestamp'')))"

definition i64_max :: int where "i64_max = 2 ^ 63 - 1"

definition parse_i64_digits :: "string \<Rightarrow> int option" where
  "parse_i64_digits s =
     Option.bind (parse_digits s) (\<lambda>n. if int n \<le> i64_max then Some (int n) else None)"

definition unit_seconds :: "char \<Rightarrow> int option" where
  "unit_seconds c =
     map_of [(CHR ''d'', 86400), (CHR ''h'', 3600), (CHR ''m'', 60), (CHR ''s'', 1)] (ascii_lower c)"

text \<open>
  The loop over the characters with the digits read so far and the total in seconds.
  \<open>time::Duration\<close> panics when its seconds leave the 64-bit range.
\<close>

fun eta_seconds :: "op_error \<Rightarrow> int \<Rightarrow> string \<Rightarrow> string \<Rightarrow> op_error + int" where
  "eta_seconds invalid acc digits [] =
     (if digits \<noteq> [] \<or> acc = 0 then Inl invalid else Inr acc)"
| "eta_seconds invalid acc digits (c # cs) =
     (if is_ascii_digit c then eta_seconds invalid acc (digits @ [c]) cs
      else case parse_i64_digits digits of
          None \<Rightarrow> Inl invalid
        | Some amount \<Rightarrow>
            (case unit_seconds c of
               None \<Rightarrow> Inl invalid
             | Some unit \<Rightarrow>
                 if amount * unit > i64_max \<or> acc + amount * unit > i64_max then Inl OpPanic
                 else eta_seconds invalid (acc + amount * unit) [] cs))"

definition invalid_eta :: "string \<Rightarrow> op_error" where
  "invalid_eta raw = InvalidEta (quoted raw
     @ '' is neither an RFC 3339 timestamp nor a duration such as 45m, 2h, or 1h30m'')"

definition parse_claim_eta :: "platform \<Rightarrow> timestamp \<Rightarrow> string \<Rightarrow> op_error + timestamp" where
  "parse_claim_eta P now input =
     (let raw = trim input in
      result_bind
        (if contains_sub ''T'' raw then Inr (ts_new P raw)
         else case ts_parsed now of
             None \<Rightarrow> Inl (invalid_eta raw)
           | Some now_at \<Rightarrow>
               result_bind (eta_seconds (invalid_eta raw) 0 [] raw) (\<lambda>secs.
                 case pf_datetime_add P now_at (secs * second_nanos) of
                   None \<Rightarrow> Inl OpPanic
                 | Some at \<Rightarrow> Inr (ts_from_datetime P at)))
        (\<lambda>eta. result_bind (validate_claim_eta now eta) (\<lambda>_. Inr eta)))"

definition claim_started_at :: "ticket \<Rightarrow> timestamp option" where
  "claim_started_at t =
     Option.bind (t_claimed_by t) (\<lambda>holder.
       map_option ce_at (List.find (\<lambda>e. ce_kind e = ClaimEv \<and> ce_worker e = holder)
         (takeWhile (\<lambda>e. ce_kind e \<noteq> ReleaseEv) (rev (t_claim_history t)))))"

definition claim_eta_expired :: "ticket \<Rightarrow> timestamp \<Rightarrow> bool" where
  "claim_eta_expired t now =
     (is_some (t_claimed_by t) \<and>
      is_some_and (Option.bind (t_claim_eta_at t) (\<lambda>eta. chronological_cmp eta now))
        (\<lambda>r. r \<noteq> Greater))"

subsection \<open>Claim next\<close>

definition claim_next_eligible :: "ticket \<Rightarrow> timestamp \<Rightarrow> bool" where
  "claim_next_eligible t now =
     (is_open t \<and> \<not> is_blocked t \<and> claim_available t now \<and> t_started_phase t \<noteq> Some FinalTesting)"

definition claim_next_order :: "ticket \<Rightarrow> ticket \<Rightarrow> ordering" where
  "claim_next_order a b =
     ord_then (ord_cmp (t_up_next b) (t_up_next a))
       (ord_then (ord_cmp (priority_rank (t_priority a)) (priority_rank (t_priority b)))
         (ord_cmp (t_id a) (t_id b)))"

definition start_claimed_ticket :: "platform \<Rightarrow> timestamp \<Rightarrow> ticket \<Rightarrow> ticket" where
  "start_claimed_ticket P now t =
     (if t_status t \<noteq> NotStarted then t
      else append_started_phase_transition P None now
             (append_status_transition P NotStarted Started now
               (t\<lparr>t_status := Started, t_started_phase := Some Analyzing\<rparr>)))"

text \<open>Taking the claim: holder, lease, estimate, label, count and the claim event.\<close>

definition acquire_claim ::
  "platform \<Rightarrow> timestamp \<Rightarrow> timestamp \<Rightarrow> string \<Rightarrow> string option \<Rightarrow> timestamp option \<Rightarrow> ticket \<Rightarrow> ticket"
  where
  "acquire_claim P now lease worker label eta t =
     append_claim_event P
       (t\<lparr>t_claimed_by := Some worker, t_claim_lease_expires_at := Some lease,
          t_claim_eta_at := eta, t_worker_label := label, t_claim_count := t_claim_count t + 1\<rparr>)
       ClaimEv worker now (Some lease) label"

definition apply_next_claim ::
  "platform \<Rightarrow> timestamp \<Rightarrow> timestamp \<Rightarrow> string \<Rightarrow> string option \<Rightarrow> timestamp option \<Rightarrow> ticket \<Rightarrow> ticket"
  where
  "apply_next_claim P now lease worker label eta t =
     start_claimed_ticket P now ((acquire_claim P now lease worker label eta t)\<lparr>t_updated_at := now\<rparr>)"

definition claim_next_queue :: "ticket list \<Rightarrow> timestamp \<Rightarrow> ticket list" where
  "claim_next_queue ts now = filter (\<lambda>t. claim_next_eligible t now) ts"

definition peek_claim_next :: "platform \<Rightarrow> fs_store \<Rightarrow> timestamp \<Rightarrow> store_error + ticket option" where
  "peek_claim_next P s now =
     result_bind (list_tickets P s) (\<lambda>ts. Inr (min_by claim_next_order (claim_next_queue ts now)))"

definition claim_selected ::
  "platform \<Rightarrow> fs_store \<Rightarrow> timestamp \<Rightarrow> timestamp \<Rightarrow> string \<Rightarrow> string option \<Rightarrow> timestamp option
     \<Rightarrow> store_error + ticket option \<Rightarrow> (store_error + ticket option) \<times> fs_store" where
  "claim_selected P s now lease worker label eta selected =
     (case selected of
        Inl e \<Rightarrow> (Inl e, s)
      | Inr None \<Rightarrow> (Inr None, s)
      | Inr (Some t) \<Rightarrow>
          (case commit_ticket P s id (apply_next_claim P now lease worker label eta t) of
             (Inl e, s') \<Rightarrow> (Inl e, s')
           | (Inr t', s') \<Rightarrow> (Inr (Some t'), s')))"

definition claim_next_with_eta ::
  "platform \<Rightarrow> fs_store \<Rightarrow> timestamp \<Rightarrow> timestamp \<Rightarrow> string \<Rightarrow> string option \<Rightarrow> timestamp option
     \<Rightarrow> (store_error + ticket option) \<times> fs_store" where
  "claim_next_with_eta P s now lease worker label eta = with_ticket_transaction s id (\<lambda>s.
     claim_selected P s now lease worker label eta (peek_claim_next P s now))"

definition claim_next_candidate ::
  "platform \<Rightarrow> fs_store \<Rightarrow> ulid \<Rightarrow> timestamp \<Rightarrow> timestamp \<Rightarrow> string \<Rightarrow> string option
     \<Rightarrow> timestamp option \<Rightarrow> (store_error + ticket option) \<times> fs_store" where
  "claim_next_candidate P s i now lease worker label eta = with_ticket_transaction s id (\<lambda>s.
     claim_selected P s now lease worker label eta
       (result_bind (list_tickets P s)
         (\<lambda>ts. Inr (List.find (\<lambda>t. t_id t = i) (claim_next_queue ts now)))))"

subsection \<open>Claim next across stores\<close>

definition CLAIM_NEXT_ACROSS_ATTEMPTS :: nat where "CLAIM_NEXT_ACROSS_ATTEMPTS = 16"

text \<open>The selection pass: strictly better only, so an equal key keeps the earlier source.\<close>

fun select_across ::
  "platform \<Rightarrow> world \<Rightarrow> timestamp \<Rightarrow> (string \<times> ticket) option \<Rightarrow> string list
     \<Rightarrow> store_error + (string \<times> ticket) option" where
  "select_across P w now best [] = Inr best"
| "select_across P w now best (root # roots) =
     (case peek_claim_next P (w root) now of
        Inl e \<Rightarrow> Inl e
      | Inr None \<Rightarrow> select_across P w now best roots
      | Inr (Some candidate) \<Rightarrow>
          select_across P w now
            (if is_none_or best (\<lambda>(_, current). claim_next_order candidate current = Less)
             then Some (root, candidate) else best) roots)"

text \<open>
  Between the selection and the claim other workers run: \<open>env k\<close> is what they do to the
  stores at attempt \<open>k\<close>.
\<close>

fun claim_attempts ::
  "platform \<Rightarrow> (nat \<Rightarrow> world \<Rightarrow> world) \<Rightarrow> timestamp \<Rightarrow> timestamp \<Rightarrow> string \<Rightarrow> string option
     \<Rightarrow> timestamp option \<Rightarrow> string list \<Rightarrow> nat \<Rightarrow> world
     \<Rightarrow> (store_error + (string \<times> ticket) option option) \<times> world" where
  "claim_attempts P env now lease worker label eta roots 0 w = (Inr None, w)"
| "claim_attempts P env now lease worker label eta roots (Suc k) w =
     (case select_across P w now None roots of
        Inl e \<Rightarrow> (Inl e, w)
      | Inr None \<Rightarrow> (Inr (Some None), w)
      | Inr (Some (root, candidate)) \<Rightarrow>
          let w1 = env k w in
          (case claim_next_candidate P (w1 root) (t_id candidate) now lease worker label eta of
             (Inl e, s') \<Rightarrow> (Inl e, w1(root := s'))
           | (Inr (Some t), s') \<Rightarrow> (Inr (Some (Some (root, t))), w1(root := s'))
           | (Inr None, s') \<Rightarrow>
               claim_attempts P env now lease worker label eta roots k (w1(root := s'))))"

fun claim_each ::
  "platform \<Rightarrow> timestamp \<Rightarrow> timestamp \<Rightarrow> string \<Rightarrow> string option \<Rightarrow> timestamp option \<Rightarrow> string list
     \<Rightarrow> world \<Rightarrow> (store_error + (string \<times> ticket) option) \<times> world" where
  "claim_each P now lease worker label eta [] w = (Inr None, w)"
| "claim_each P now lease worker label eta (root # roots) w =
     (case claim_next_with_eta P (w root) now lease worker label eta of
        (Inl e, s') \<Rightarrow> (Inl e, w(root := s'))
      | (Inr (Some t), s') \<Rightarrow> (Inr (Some (root, t)), w(root := s'))
      | (Inr None, s') \<Rightarrow> claim_each P now lease worker label eta roots (w(root := s')))"

definition claim_next_across_with_eta ::
  "platform \<Rightarrow> (nat \<Rightarrow> world \<Rightarrow> world) \<Rightarrow> world \<Rightarrow> string list \<Rightarrow> timestamp \<Rightarrow> timestamp \<Rightarrow> string
     \<Rightarrow> string option \<Rightarrow> timestamp option \<Rightarrow> (store_error + (string \<times> ticket) option) \<times> world" where
  "claim_next_across_with_eta P env w roots now lease worker label eta =
     (case roots of
        [root] \<Rightarrow> claim_each P now lease worker label eta [root] w
      | _ \<Rightarrow>
          (case claim_attempts P env now lease worker label eta roots CLAIM_NEXT_ACROSS_ATTEMPTS w of
             (Inl e, w') \<Rightarrow> (Inl e, w')
           | (Inr (Some r), w') \<Rightarrow> (Inr r, w')
           | (Inr None, w') \<Rightarrow> claim_each P now lease worker label eta roots w'))"

subsection \<open>Exact claims\<close>

text \<open>A retry by the live holder: extend, re-estimate, relabel.\<close>

definition retry_claim ::
  "platform \<Rightarrow> timestamp \<Rightarrow> timestamp \<Rightarrow> string \<Rightarrow> string option \<Rightarrow> timestamp option \<Rightarrow> ticket \<Rightarrow> ticket"
  where
  "retry_claim P now lease worker label eta t =
     (let extends = (Option.bind (t_claim_lease_expires_at t) (\<lambda>cur. chronological_cmp cur lease)
                       = Some Less);
          re_estimates = (is_some eta \<and> eta \<noteq> t_claim_eta_at t);
          t1 = (if is_some eta then t\<lparr>t_claim_eta_at := eta\<rparr> else t);
          t2 = (if extends then t1\<lparr>t_claim_lease_expires_at := Some lease\<rparr> else t1);
          t3 = (if extends \<or> re_estimates
                then append_claim_event P t2 RenewEv worker now (t_claim_lease_expires_at t2)
                       (opt_or label (t_worker_label t2))
                else t2)
      in if is_some label then t3\<lparr>t_worker_label := label\<rparr> else t3)"

definition claim_exact ::
  "platform \<Rightarrow> timestamp \<Rightarrow> timestamp \<Rightarrow> string \<Rightarrow> string option \<Rightarrow> timestamp option \<Rightarrow> ticket
     \<Rightarrow> op_error + ticket" where
  "claim_exact P now lease worker label eta t =
     (if \<not> is_open t then Inl (ClaimUnavailable (t_slug t) ''ticket is not open'')
      else if \<not> claim_available t now then
        (case t_claimed_by t of
           None \<Rightarrow> Inl OpPanic
         | Some holder \<Rightarrow>
             if holder \<noteq> worker then Inl (WrongWorker (t_slug t) holder worker)
             else Inr ((retry_claim P now lease worker label eta t)\<lparr>t_updated_at := now\<rparr>))
      else Inr ((acquire_claim P now lease worker label eta t)\<lparr>t_updated_at := now\<rparr>))"

definition prepare_claim ::
  "platform \<Rightarrow> fs_store \<Rightarrow> ulid \<Rightarrow> timestamp \<Rightarrow> timestamp \<Rightarrow> string \<Rightarrow> string option
     \<Rightarrow> timestamp option \<Rightarrow> op_error + ticket" where
  "prepare_claim P s i now lease worker label eta =
     (case list_tickets P s of
        Inl e \<Rightarrow> Inl (StoreErr e)
      | Inr ts \<Rightarrow>
          (case List.find (\<lambda>t. t_id t = i) ts of
             None \<Rightarrow> Inl (UnknownTicket (pf_ulid_to_string P i))
           | Some t \<Rightarrow> claim_exact P now lease worker label eta t))"

definition claim_with_eta ::
  "platform \<Rightarrow> fs_store \<Rightarrow> ulid \<Rightarrow> timestamp \<Rightarrow> timestamp \<Rightarrow> string \<Rightarrow> string option
     \<Rightarrow> timestamp option \<Rightarrow> (op_error + ticket) \<times> fs_store" where
  "claim_with_eta P s i now lease worker label eta = with_ticket_transaction s StoreErr (\<lambda>s.
     (case prepare_claim P s i now lease worker label eta of
        Inl e \<Rightarrow> (Inl e, s)
      | Inr t \<Rightarrow> commit_ticket P s StoreErr (start_claimed_ticket P now t)))"

subsection \<open>Release\<close>

text \<open>\<open>None\<close>: nothing was claimed, nothing is written.\<close>

definition released_ticket ::
  "platform \<Rightarrow> timestamp \<Rightarrow> string \<Rightarrow> bool \<Rightarrow> ticket \<Rightarrow> op_error + ticket option" where
  "released_ticket P now worker force t =
     (case t_claimed_by t of
        None \<Rightarrow> Inr None
      | Some holder \<Rightarrow>
          if holder \<noteq> worker \<and> \<not> force then Inl (WrongWorker (t_slug t) holder worker)
          else Inr (Some ((end_claim P now t)\<lparr>t_updated_at := now\<rparr>)))"

definition release ::
  "platform \<Rightarrow> fs_store \<Rightarrow> ulid \<Rightarrow> timestamp \<Rightarrow> string \<Rightarrow> bool \<Rightarrow> (op_error + ticket) \<times> fs_store" where
  "release P s i now worker force = with_ticket_transaction s StoreErr (\<lambda>s.
     (case read_ticket P s i of
        Inl e \<Rightarrow> (Inl (StoreErr e), s)
      | Inr t \<Rightarrow>
          (case released_ticket P now worker force t of
             Inl e \<Rightarrow> (Inl e, s)
           | Inr None \<Rightarrow> (Inr t, s)
           | Inr (Some t') \<Rightarrow> commit_ticket P s StoreErr t')))"

fun release_each ::
  "platform \<Rightarrow> fs_store \<Rightarrow> timestamp \<Rightarrow> string \<Rightarrow> ulid list \<Rightarrow> (op_error + ticket list) \<times> fs_store" where
  "release_each P s now worker [] = (Inr [], s)"
| "release_each P s now worker (i # is) =
     (case release P s i now worker False of
        (Inl e, s') \<Rightarrow> (Inl e, s')
      | (Inr t, s') \<Rightarrow>
          (case release_each P s' now worker is of
             (Inl e, s'') \<Rightarrow> (Inl e, s'')
           | (Inr ts, s'') \<Rightarrow> (Inr (t # ts), s'')))"

definition release_worker ::
  "platform \<Rightarrow> fs_store \<Rightarrow> timestamp \<Rightarrow> string \<Rightarrow> (op_error + ticket list) \<times> fs_store" where
  "release_worker P s now worker =
     (case list_tickets_resilient P s of
        Inl e \<Rightarrow> (Inl (StoreErr e), s)
      | Inr (ts, _) \<Rightarrow>
          release_each P s now worker (map t_id (filter (\<lambda>t. t_claimed_by t = Some worker) ts)))"

subsection \<open>Renewal\<close>

definition latest_claim :: "ticket \<Rightarrow> claim_event option" where
  "latest_claim t = find_last (\<lambda>e. ce_kind e = ClaimEv) (t_claim_history t)"

definition attempt_changed :: "ticket \<Rightarrow> string \<Rightarrow> ulid \<Rightarrow> bool" where
  "attempt_changed t worker expected =
     is_none_or (latest_claim t) (\<lambda>e. ce_id e \<noteq> expected \<or> ce_worker e \<noteq> worker)"

definition renewed_ticket ::
  "platform \<Rightarrow> timestamp \<Rightarrow> timestamp \<Rightarrow> string \<Rightarrow> timestamp option \<Rightarrow> ulid option \<Rightarrow> ticket
     \<Rightarrow> op_error + ticket" where
  "renewed_ticket P now lease worker eta attempt t =
     (case t_claimed_by t of
        None \<Rightarrow> Inl (NotClaimed (t_slug t))
      | Some holder \<Rightarrow>
          if holder \<noteq> worker then Inl (WrongWorker (t_slug t) holder worker)
          else if claim_available t now
          then Inl (ClaimUnavailable (t_slug t)
                 ''lease expired; inspect claim history and claim the exact ticket again'')
          else if chronological_cmp lease now \<noteq> Some Greater
          then Inl (ClaimUnavailable (t_slug t) ''new lease must end after the renewal time'')
          else if is_some_and attempt (attempt_changed t worker)
          then Inl (ClaimUnavailable (t_slug t)
                 ''claim attempt changed; inspect ownership before continuing'')
          else
            let t1 = t\<lparr>t_claim_lease_expires_at := Some lease,
                       t_claim_eta_at := opt_or eta (t_claim_eta_at t)\<rparr>
            in Inr ((append_claim_event P t1 RenewEv worker now (Some lease) (t_worker_label t1))
                      \<lparr>t_updated_at := now\<rparr>))"

text \<open>The clock runs inside the transaction: \<open>clock\<close> is what it returns there.\<close>

definition renew_with_eta_fenced ::
  "platform \<Rightarrow> fs_store \<Rightarrow> ulid \<Rightarrow> timestamp \<times> timestamp \<Rightarrow> string \<Rightarrow> timestamp option
     \<Rightarrow> ulid option \<Rightarrow> (op_error + ticket) \<times> fs_store" where
  "renew_with_eta_fenced P s i clock worker eta attempt = with_ticket_transaction s StoreErr (\<lambda>s.
     (case read_ticket P s i of
        Inl e \<Rightarrow> (Inl (StoreErr e), s)
      | Inr t \<Rightarrow>
          (case renewed_ticket P (fst clock) (snd clock) worker eta attempt t of
             Inl e \<Rightarrow> (Inl e, s)
           | Inr t' \<Rightarrow> commit_ticket P s StoreErr t')))"

subsection \<open>Handoff\<close>

definition handoff_note :: "ulid \<Rightarrow> timestamp \<Rightarrow> string \<Rightarrow> string \<Rightarrow> ticket_note" where
  "handoff_note note_id now worker text =
     (plain_note note_id Regular now None text)
       \<lparr>n_kind_explicit := True, n_actor := Some \<lparr>na_role = Ai, na_id = Some worker\<rparr>\<rparr>"

definition handed_off_ticket ::
  "platform \<Rightarrow> ulid \<Rightarrow> timestamp \<Rightarrow> string \<Rightarrow> ulid \<Rightarrow> timestamp \<Rightarrow> string \<Rightarrow> ticket \<Rightarrow> op_error + ticket"
  where
  "handed_off_ticket P note_id now worker attempt reviewed text t =
     (if t_updated_at t \<noteq> reviewed
      then Inl (StaleHandoff ''ticket notes or claim changed; reread and rerun preflight'')
      else if t_claimed_by t \<noteq> Some worker \<or> claim_available t now \<or> attempt_changed t worker attempt
      then Inl (StaleHandoff
             ''exact live claim attempt or deadline changed; renew and rerun preflight'')
      else if t_started_phase t \<noteq> Some InitialTesting
      then Inl (StaleHandoff ''worker handoff requires the recorded initial_testing phase'')
      else Inr ((end_claim P now (push_note (handoff_note note_id now worker text) t))
                  \<lparr>t_updated_at := now\<rparr>))"

definition publish_handoff_note ::
  "platform \<Rightarrow> fs_store \<Rightarrow> ulid \<Rightarrow> ulid \<Rightarrow> timestamp \<Rightarrow> string \<Rightarrow> ulid \<Rightarrow> timestamp \<Rightarrow> string
     \<Rightarrow> (op_error + ticket) \<times> fs_store" where
  "publish_handoff_note P s i note_id now worker attempt reviewed text =
     with_ticket_transaction s StoreErr (\<lambda>s.
     (case read_ticket P s i of
        Inl e \<Rightarrow> (Inl (StoreErr e), s)
      | Inr t \<Rightarrow>
          (case handed_off_ticket P note_id now worker attempt reviewed text t of
             Inl e \<Rightarrow> (Inl e, s)
           | Inr t' \<Rightarrow> commit_ticket P s StoreErr t')))"

end
