(* ===== verification/Ticket_Reachable.thy ===== *)
theory Ticket_Reachable
  imports Claim_Ops Demo_Platform "HOL-Library.Sublist"
begin

text \<open>
  The life of one ticket as a step relation: every transformation an operation of \<open>ops.rs\<close>
  applies to a stored ticket is a step, creation gives the initial states.  The invariant
  joins the lifecycle rules, the coherence of the claim fields and the claim history as a
  faithful log of ownership; rule induction carries it to every reachable ticket.
\<close>

subsection \<open>The claim history as a log\<close>

definition holder_after :: "claim_event \<Rightarrow> string option \<Rightarrow> string option" where
  "holder_after e h =
     (case ce_kind e of ClaimEv \<Rightarrow> Some (ce_worker e) | RenewEv \<Rightarrow> h | ReleaseEv \<Rightarrow> None)"

definition history_holder :: "claim_event list \<Rightarrow> string option" where
  "history_holder es = fold holder_after es None"

definition claim_events :: "claim_event list \<Rightarrow> nat" where
  "claim_events es = length (filter (\<lambda>e. ce_kind e = ClaimEv) es)"

definition claims_logged :: "ticket \<Rightarrow> bool" where
  "claims_logged t =
     (t_claimed_by t = history_holder (t_claim_history t)
      \<and> t_claim_count t = of_nat (claim_events (t_claim_history t)))"

definition ticket_inv :: "ticket \<Rightarrow> bool" where
  "ticket_inv t = (lifecycle_ok t \<and> claim_coherent t \<and> claims_logged t)"

lemma history_holder_append [simp]:
  "history_holder [] = None"
  "history_holder (es @ [e]) = holder_after e (history_holder es)"
  by (simp_all add: history_holder_def)

lemma claim_events_append [simp]:
  "claim_events [] = 0"
  "claim_events (es @ [e]) = claim_events es + (if ce_kind e = ClaimEv then 1 else 0)"
  by (simp_all add: claim_events_def)

lemma append_claim_event_fields [op_simps]:
  "t_claim_history (append_claim_event P t k w at l lb) = t_claim_history t @
     [\<lparr>ce_id = minted_id P at [HUlid (t_id t), HUsize (length (t_claim_history t)), HStr w,
         HByte (claim_event_code k), HStr (ts_raw at)],
       ce_kind = k, ce_worker = w, ce_at = at, ce_lease_expires_at = l,
       ce_eta_at = (case k of ReleaseEv \<Rightarrow> None | _ \<Rightarrow> t_claim_eta_at t), ce_worker_label = lb\<rparr>]"
  "t_status (append_claim_event P t k w at l lb) = t_status t"
  "t_up_next (append_claim_event P t k w at l lb) = t_up_next t"
  "t_close_reason (append_claim_event P t k w at l lb) = t_close_reason t"
  "t_started_phase (append_claim_event P t k w at l lb) = t_started_phase t"
  "t_completed_at (append_claim_event P t k w at l lb) = t_completed_at t"
  "t_verified_at (append_claim_event P t k w at l lb) = t_verified_at t"
  "t_claimed_by (append_claim_event P t k w at l lb) = t_claimed_by t"
  "t_claim_lease_expires_at (append_claim_event P t k w at l lb) = t_claim_lease_expires_at t"
  "t_claim_eta_at (append_claim_event P t k w at l lb) = t_claim_eta_at t"
  "t_worker_label (append_claim_event P t k w at l lb) = t_worker_label t"
  "t_claim_count (append_claim_event P t k w at l lb) = t_claim_count t"
  "t_id (append_claim_event P t k w at l lb) = t_id t"
  by (simp_all add: append_claim_event_def)

lemma end_claim_history:
  "history_holder (t_claim_history (end_claim P now t)) =
     (if t_claimed_by t = None then history_holder (t_claim_history t) else None)"
  "claim_events (t_claim_history (end_claim P now t)) = claim_events (t_claim_history t)"
  by (auto simp: end_claim_def clear_claim_fields_def op_simps holder_after_def split: option.splits)

definition claims_ok :: "ticket \<Rightarrow> bool" where
  "claims_ok t = (claim_coherent t \<and> claims_logged t)"

lemma ticket_inv_split: "ticket_inv t \<longleftrightarrow> lifecycle_ok t \<and> claims_ok t"
  by (simp add: ticket_inv_def claims_ok_def)

lemma claims_ok_cong:
  assumes "t_claimed_by a = t_claimed_by b" "t_claim_lease_expires_at a = t_claim_lease_expires_at b"
    "t_claim_eta_at a = t_claim_eta_at b" "t_worker_label a = t_worker_label b"
    "t_claim_count a = t_claim_count b" "t_claim_history a = t_claim_history b"
  shows "claims_ok a = claims_ok b"
  unfolding claims_ok_def claim_coherent_def claims_logged_def assms ..

lemma claims_ok_end_claim: "claims_ok t \<Longrightarrow> claims_ok (end_claim P now t)"
  by (cases "t_claimed_by t")
    (simp_all add: claims_ok_def claim_coherent_def claims_logged_def end_claim_history op_simps)

text \<open>Updates that leave the claim fields alone.\<close>

lemma claims_ok_frame [op_simps]:
  "claims_ok (push_note n t) = claims_ok t"
  "claims_ok (stamp_last_note_actor a t) = claims_ok t"
  "claims_ok (t\<lparr>t_status := s\<rparr>) = claims_ok t"
  "claims_ok (t\<lparr>t_up_next := u\<rparr>) = claims_ok t"
  "claims_ok (t\<lparr>t_started_phase := ph\<rparr>) = claims_ok t"
  "claims_ok (t\<lparr>t_completed_at := c\<rparr>) = claims_ok t"
  "claims_ok (t\<lparr>t_verified_at := v\<rparr>) = claims_ok t"
  "claims_ok (t\<lparr>t_updated_at := now\<rparr>) = claims_ok t"
  "claims_ok (t\<lparr>t_close_reason := r\<rparr>) = claims_ok t"
  "claims_ok (t\<lparr>t_closed_at := r'\<rparr>) = claims_ok t"
  "claims_ok (t\<lparr>t_duplicate_of := d\<rparr>) = claims_ok t"
  "claims_ok (patch_fields p t) = claims_ok t"
  "claims_ok (patch_phase p t) = claims_ok t"
  "claims_ok (note_phase P q p now t) = claims_ok t"
  "claims_ok (start_claimed_ticket P now t) = claims_ok t"
  by (rule claims_ok_cong;
      simp add: op_simps patch_phase_def note_phase_def start_claimed_ticket_def split: option.splits)+

lemma claims_ok_patch_status_fields [op_simps]:
  "claims_ok (patch_status_fields q g now s t) = claims_ok t"
  by (simp add: patch_status_fields_def op_simps)

lemma claims_ok_patch_status: "claims_ok t \<Longrightarrow> claims_ok (patch_status P q p now s t)"
  by (simp add: patch_status_def op_simps claims_ok_end_claim)

lemma claims_ok_apply_patch:
  assumes "claims_ok t" shows "claims_ok (apply_patch P p now t)"
  using assms
  by (simp add: apply_patch_def op_simps settle_inactive_def claims_ok_end_claim claims_ok_patch_status
      split: option.splits)

lemma claims_ok_apply_close: "claims_ok t \<Longrightarrow> claims_ok (apply_close P now r d a t)"
  by (simp add: apply_close_def op_simps claims_ok_end_claim)

lemma claims_ok_not_working:
  assumes "claims_ok t" "prepare_not_working P t now report ev who = Inr t'"
  shows "claims_ok t'"
  using assms
  by (auto simp: prepare_not_working_def reopen_not_working_def op_simps claims_ok_end_claim
      split: if_splits option.splits)

text \<open>The fields the invariant reads; a step that keeps them keeps the invariant.\<close>

definition same_core :: "ticket \<Rightarrow> ticket \<Rightarrow> bool" where
  "same_core a b =
     (t_status a = t_status b \<and> t_up_next a = t_up_next b \<and> t_close_reason a = t_close_reason b
      \<and> t_started_phase a = t_started_phase b \<and> t_completed_at a = t_completed_at b
      \<and> t_verified_at a = t_verified_at b \<and> t_claimed_by a = t_claimed_by b
      \<and> t_claim_lease_expires_at a = t_claim_lease_expires_at b
      \<and> t_claim_eta_at a = t_claim_eta_at b \<and> t_worker_label a = t_worker_label b
      \<and> t_claim_count a = t_claim_count b \<and> t_claim_history a = t_claim_history b)"

lemma ticket_inv_same_core:
  assumes "same_core a b" "ticket_inv b"
  shows "ticket_inv a"
proof -
  have "lifecycle_ok a = lifecycle_ok b" "claims_ok a = claims_ok b"
    by (rule lifecycle_ok_cong claims_ok_cong; use assms(1) in \<open>simp add: same_core_def\<close>)+
  with assms(2) show ?thesis by (simp add: ticket_inv_split)
qed

lemma same_core_refl [simp]: "same_core t t"
  by (simp add: same_core_def)

lemma same_core_updates [simp]:
  "same_core (t\<lparr>t_updated_at := now\<rparr>) t" "same_core (t\<lparr>t_notes := ns, t_updated_at := now\<rparr>) t"
  "same_core (t\<lparr>t_follow_ups := fs, t_updated_at := now\<rparr>) t"
  by (simp_all add: same_core_def)

subsection \<open>Each transformation keeps the invariant\<close>

lemma ticket_inv_apply_patch: "ticket_inv t \<Longrightarrow> ticket_inv (apply_patch P p now t)"
  by (simp add: ticket_inv_split lifecycle_ok_apply_patch claims_ok_apply_patch)

lemma ticket_inv_updated: "ticket_inv t \<Longrightarrow> ticket_inv (updated_ticket P p now t)"
  using ticket_inv_apply_patch[of t P p now]
  by (auto simp: updated_ticket_def Let_def intro: ticket_inv_same_core[rotated])

lemma ticket_inv_close: "ticket_inv t \<Longrightarrow> ticket_inv (apply_close P now r d a t)"
  by (simp add: ticket_inv_split lifecycle_ok_apply_close claims_ok_apply_close)

lemma ticket_inv_not_working:
  "ticket_inv t \<Longrightarrow> prepare_not_working P t now report ev who = Inr t' \<Longrightarrow> ticket_inv t'"
  unfolding ticket_inv_split by (blast intro: claims_ok_not_working lifecycle_ok_not_working)

lemma start_claimed_fields [op_simps]:
  "t_up_next (start_claimed_ticket P now t) = t_up_next t"
  "t_close_reason (start_claimed_ticket P now t) = t_close_reason t"
  "t_completed_at (start_claimed_ticket P now t) = t_completed_at t"
  "t_verified_at (start_claimed_ticket P now t) = t_verified_at t"
  "t_claimed_by (start_claimed_ticket P now t) = t_claimed_by t"
  "t_claim_lease_expires_at (start_claimed_ticket P now t) = t_claim_lease_expires_at t"
  "t_claim_eta_at (start_claimed_ticket P now t) = t_claim_eta_at t"
  "t_worker_label (start_claimed_ticket P now t) = t_worker_label t"
  "t_claim_count (start_claimed_ticket P now t) = t_claim_count t"
  "t_claim_history (start_claimed_ticket P now t) = t_claim_history t"
  "t_id (start_claimed_ticket P now t) = t_id t"
  "t_status (start_claimed_ticket P now t) = (if t_status t = NotStarted then Started else t_status t)"
  "t_started_phase (start_claimed_ticket P now t)
     = (if t_status t = NotStarted then Some Analyzing else t_started_phase t)"
  by (simp_all add: start_claimed_ticket_def op_simps)

lemma ticket_inv_start: "ticket_inv t \<Longrightarrow> ticket_inv (start_claimed_ticket P now t)"
  by (auto simp: ticket_inv_split lifecycle_ok_def op_simps is_open_iff unclaimed_def is_active_iff)

text \<open>What a grant keeps of the lifecycle: the open ticket's status side is untouched.\<close>

lemma lifecycle_ok_open:
  assumes "lifecycle_ok t" "is_open t" "t_status a = t_status t" "t_up_next a = t_up_next t"
    "t_close_reason a = t_close_reason t" "t_started_phase a = t_started_phase t"
    "t_completed_at a = t_completed_at t" "t_verified_at a = t_verified_at t"
  shows "lifecycle_ok a"
  using assms(1,2) unfolding lifecycle_ok_def is_open_def assms(3-) by blast

text \<open>A claim event that names the holder, with the counter moved on exactly for a claim.\<close>

lemma claims_ok_claim_event:
  assumes "claims_ok t" "t_claim_history a = t_claim_history t" "t_claimed_by a = Some w"
    "t_claim_count a = t_claim_count t + 1"
  shows "claims_ok (append_claim_event P a ClaimEv w now l lb)"
proof -
  have "t_claim_count t = of_nat (claim_events (t_claim_history t))"
    using assms(1) by (simp add: claims_ok_def claims_logged_def)
  then show ?thesis using assms(2-)
    by (simp add: claims_ok_def claim_coherent_def claims_logged_def holder_after_def op_simps)
qed

lemma claims_ok_renew_event:
  assumes "claims_ok t" "t_claim_history a = t_claim_history t" "t_claimed_by t = Some w"
    "t_claimed_by a = Some w" "t_claim_count a = t_claim_count t"
  shows "claims_ok (append_claim_event P a RenewEv w now l lb)"
proof -
  have "t_claim_count t = of_nat (claim_events (t_claim_history t))"
    "history_holder (t_claim_history t) = Some w"
    using assms(1,3) by (simp_all add: claims_ok_def claims_logged_def)
  then show ?thesis using assms(2,4-)
    by (simp add: claims_ok_def claim_coherent_def claims_logged_def holder_after_def op_simps)
qed

lemma ticket_inv_acquire:
  assumes "ticket_inv t" "is_open t"
  shows "ticket_inv ((acquire_claim P now lease w l e t)\<lparr>t_updated_at := now'\<rparr>)"
proof -
  have "lifecycle_ok ((acquire_claim P now lease w l e t)\<lparr>t_updated_at := now'\<rparr>)"
    by (rule lifecycle_ok_open[of t])
      (use assms in \<open>simp_all add: ticket_inv_split acquire_claim_def op_simps\<close>)
  moreover have "claims_ok (acquire_claim P now lease w l e t)"
    unfolding acquire_claim_def
    by (rule claims_ok_claim_event[of t]) (use assms in \<open>simp_all add: ticket_inv_split\<close>)
  ultimately show ?thesis by (simp add: ticket_inv_split op_simps)
qed

text \<open>Lease, estimate and label of a held claim are free.\<close>

lemma claims_ok_held:
  assumes "t_claimed_by t = Some w"
  shows "claims_ok (t\<lparr>t_claim_eta_at := x\<rparr>) = claims_ok t"
    "claims_ok (t\<lparr>t_claim_lease_expires_at := y\<rparr>) = claims_ok t"
    "claims_ok (t\<lparr>t_worker_label := z\<rparr>) = claims_ok t"
    "claims_ok (t\<lparr>t_claim_lease_expires_at := y, t_claim_eta_at := x\<rparr>) = claims_ok t"
  using assms by (simp_all add: claims_ok_def claim_coherent_def claims_logged_def)

lemma claims_ok_retry:
  assumes "claims_ok t" "t_claimed_by t = Some w"
  shows "claims_ok (retry_claim P now lease w l e t)"
proof -
  have renew: "claims_ok (append_claim_event P a RenewEv w now x y)"
    if "claims_ok a" "t_claimed_by a = Some w" for a x y
    by (rule claims_ok_renew_event[of a]) (simp_all add: that)
  show ?thesis
    unfolding retry_claim_def Let_def
    using assms by (simp add: claims_ok_held renew append_claim_event_fields)
qed

lemma ticket_inv_retry:
  assumes "ticket_inv t" "is_open t" "t_claimed_by t = Some w"
  shows "ticket_inv ((retry_claim P now lease w l e t)\<lparr>t_updated_at := now'\<rparr>)"
proof -
  have "lifecycle_ok ((retry_claim P now lease w l e t)\<lparr>t_updated_at := now'\<rparr>)"
    by (rule lifecycle_ok_open[of t])
      (use assms in \<open>simp_all add: ticket_inv_split retry_claim_def op_simps\<close>)
  with assms show ?thesis by (simp add: ticket_inv_split op_simps claims_ok_retry)
qed

lemma ticket_inv_claim_exact:
  assumes "ticket_inv t" "claim_exact P now lease w l e t = Inr t'"
  shows "ticket_inv t'"
  using assms by (auto simp: claim_exact_def intro: ticket_inv_acquire ticket_inv_retry
      split: if_splits option.splits)

lemma ticket_inv_next_claim:
  "ticket_inv t \<Longrightarrow> claim_next_eligible t now \<Longrightarrow> ticket_inv (apply_next_claim P now lease w l e t)"
  by (simp add: apply_next_claim_def claim_next_eligible_def ticket_inv_start ticket_inv_acquire)

lemma ticket_inv_end_claim: "ticket_inv t \<Longrightarrow> ticket_inv ((end_claim P now t)\<lparr>t_updated_at := now'\<rparr>)"
  by (simp add: ticket_inv_split claims_ok_end_claim op_simps lifecycle_ok_def unclaimed_def is_open_def)

lemma ticket_inv_released:
  "ticket_inv t \<Longrightarrow> released_ticket P now w force t = Inr (Some t') \<Longrightarrow> ticket_inv t'"
  by (auto simp: released_ticket_def intro: ticket_inv_end_claim split: option.splits if_splits)

lemma claimed_open: "ticket_inv t \<Longrightarrow> t_claimed_by t = Some w \<Longrightarrow> is_open t"
  by (auto simp: ticket_inv_def lifecycle_ok_def unclaimed_def)

lemma ticket_inv_renewed:
  assumes "ticket_inv t" "renewed_ticket P now lease w eta attempt t = Inr t'"
  shows "ticket_inv t'"
proof -
  have "is_open t" "t_claimed_by t = Some w"
    using assms(2) claimed_open[OF assms(1)]
    by (auto simp: renewed_ticket_def split: option.splits if_splits)
  moreover obtain a where t': "t' = (append_claim_event P a RenewEv w now (Some lease) (t_worker_label t))
      \<lparr>t_updated_at := now\<rparr>"
    and a: "a = t\<lparr>t_claim_lease_expires_at := Some lease,
      t_claim_eta_at := opt_or eta (t_claim_eta_at t)\<rparr>"
    using assms(2) by (auto simp: renewed_ticket_def Let_def split: option.splits if_splits)
  ultimately have "lifecycle_ok t'"
    using assms(1) by (intro lifecycle_ok_open[of t t']) (simp_all add: ticket_inv_split op_simps)
  moreover have "claims_ok t'"
    unfolding t' claims_ok_frame
    by (rule claims_ok_renew_event[of t]) (use assms(1) \<open>t_claimed_by t = Some w\<close> in \<open>simp_all add: a ticket_inv_split\<close>)
  ultimately show ?thesis by (simp add: ticket_inv_split)
qed

lemma same_core_push_note [simp]: "same_core (push_note n t) t"
  by (simp add: same_core_def op_simps)

lemma ticket_inv_handed_off:
  assumes "ticket_inv t" "handed_off_ticket P n now w attempt reviewed text t = Inr t'"
  shows "ticket_inv t'"
proof -
  have "ticket_inv (push_note (handoff_note n now w text) t)"
    using assms(1) by (rule ticket_inv_same_core[rotated]) simp
  with assms(2) show ?thesis
    by (auto simp: handed_off_ticket_def intro: ticket_inv_end_claim split: if_splits)
qed

lemma same_core_rated: "rated_ticket P f now target r e a t = Inr t' \<Longrightarrow> same_core t' t"
  by (auto simp: rated_ticket_def Let_def split: if_splits)

lemma same_core_edited: "edited_ticket P f n now ed text t = Inr (Some t') \<Longrightarrow> same_core t' t"
  by (auto simp: edited_ticket_def Let_def split: if_splits option.splits)

lemma same_core_assigned: "same_core (assigned_ticket q now as rs t) t"
  by (simp add: assigned_ticket_def same_core_def)

lemma ticket_inv_normalize: "ticket_inv t \<Longrightarrow> ticket_inv (normalize_for_write t)"
  by (rule ticket_inv_same_core)
    (auto simp: same_core_def normalize_for_write_def ticket_inv_def lifecycle_ok_def)

lemma ticket_inv_created: "ticket_inv (created_ticket P i pre now new by)"
  by (simp add: created_ticket_def Let_def ticket_new_def ticket_inv_def lifecycle_ok_def
      claim_coherent_def claims_logged_def unclaimed_def)

subsection \<open>Steps and reachability\<close>

inductive ticket_step :: "platform \<Rightarrow> ticket \<Rightarrow> ticket \<Rightarrow> bool" for P where
  step_update: "ticket_step P t (updated_ticket P p now t)"
| step_close: "ticket_step P t (apply_close P now reason dup actor t)"
| step_not_working:
    "prepare_not_working P t now report ev who = Inr t' \<Longrightarrow> ticket_step P t t'"
| step_claim:
    "claim_exact P now lease w l e t = Inr t' \<Longrightarrow> ticket_step P t (start_claimed_ticket P now t')"
| step_claim_next:
    "claim_next_eligible t now \<Longrightarrow> ticket_step P t (apply_next_claim P now lease w l e t)"
| step_release: "released_ticket P now w force t = Inr (Some t') \<Longrightarrow> ticket_step P t t'"
| step_renew: "renewed_ticket P now lease w eta attempt t = Inr t' \<Longrightarrow> ticket_step P t t'"
| step_handoff:
    "handed_off_ticket P n now w attempt reviewed text t = Inr t' \<Longrightarrow> ticket_step P t t'"
| step_note: "ticket_step P t ((push_note n t)\<lparr>t_updated_at := now\<rparr>)"
| step_rate: "rated_ticket P f now target r ex actor t = Inr t' \<Longrightarrow> ticket_step P t t'"
| step_edit: "edited_ticket P f n now ed tx t = Inr (Some t') \<Longrightarrow> ticket_step P t t'"
| step_delete_note:
    "ticket_step P t (t\<lparr>t_notes := without_note P n (t_notes t), t_updated_at := now\<rparr>)"
| step_assign: "ticket_step P t (assigned_ticket requester now people reviews t)"
| step_follow_up:
    "ticket_step P t (t\<lparr>t_follow_ups := t_follow_ups t @ [r], t_updated_at := now\<rparr>)"
| step_write: "ticket_step P t (normalize_for_write t)"

inductive reachable :: "platform \<Rightarrow> ticket \<Rightarrow> bool" for P where
  reach_create: "reachable P (created_ticket P i pre now new by)"
| reach_step: "reachable P t \<Longrightarrow> ticket_step P t t' \<Longrightarrow> reachable P t'"

lemma same_core_note_step [simp]: "same_core ((push_note n t)\<lparr>t_updated_at := now\<rparr>) t"
  by (simp add: same_core_def op_simps)

lemma ticket_step_inv: "ticket_step P t t' \<Longrightarrow> ticket_inv t \<Longrightarrow> ticket_inv t'"
proof (induction rule: ticket_step.induct)
  case (step_rate f now target r ex actor t t')
  then show ?case using same_core_rated ticket_inv_same_core by blast
next
  case (step_edit f n now ed tx t t')
  then show ?case using same_core_edited ticket_inv_same_core by blast
next
  case (step_assign t requester now people reviews)
  then show ?case using same_core_assigned ticket_inv_same_core by blast
next
  case (step_note t n now)
  then show ?case by (rule ticket_inv_same_core[rotated]) simp
next
  case (step_delete_note t n now)
  then show ?case by (rule ticket_inv_same_core[rotated]) simp
next
  case (step_follow_up t r now)
  then show ?case by (rule ticket_inv_same_core[rotated]) simp
qed (auto intro: ticket_inv_updated ticket_inv_close ticket_inv_not_working ticket_inv_start
    ticket_inv_claim_exact ticket_inv_next_claim ticket_inv_released ticket_inv_renewed
    ticket_inv_handed_off ticket_inv_normalize)

lemma reachable_inv: "reachable P t \<Longrightarrow> ticket_inv t"
  by (induction rule: reachable.induct) (auto intro: ticket_inv_created ticket_step_inv)

subsection \<open>Identity and the append-only log\<close>

text \<open>The ticket keeps who it is, and its claim history only grows at the end.\<close>

definition same_identity :: "ticket \<Rightarrow> ticket \<Rightarrow> bool" where
  "same_identity t t' =
     (t_id t' = t_id t \<and> t_slug t' = t_slug t \<and> t_created_at t' = t_created_at t
      \<and> t_created_by t' = t_created_by t \<and> prefix (t_claim_history t) (t_claim_history t'))"

lemma same_identity_refl [simp]: "same_identity t t"
  by (simp add: same_identity_def)

lemma same_identity_trans: "same_identity a b \<Longrightarrow> same_identity b c \<Longrightarrow> same_identity a c"
  by (auto simp: same_identity_def)

lemma same_identity_blocks [op_simps]:
  "same_identity a (push_note n t) = same_identity a t"
  "same_identity a (stamp_last_note_actor r t) = same_identity a t"
  "same_identity a (t\<lparr>t_status := s\<rparr>) = same_identity a t"
  "same_identity a (t\<lparr>t_up_next := u\<rparr>) = same_identity a t"
  "same_identity a (t\<lparr>t_started_phase := ph\<rparr>) = same_identity a t"
  "same_identity a (t\<lparr>t_completed_at := c\<rparr>) = same_identity a t"
  "same_identity a (t\<lparr>t_verified_at := v\<rparr>) = same_identity a t"
  "same_identity a (t\<lparr>t_updated_at := now\<rparr>) = same_identity a t"
  "same_identity a (t\<lparr>t_close_reason := cr\<rparr>) = same_identity a t"
  "same_identity a (t\<lparr>t_closed_at := ca\<rparr>) = same_identity a t"
  "same_identity a (t\<lparr>t_duplicate_of := d\<rparr>) = same_identity a t"
  "same_identity a (t\<lparr>t_claimed_by := cb\<rparr>) = same_identity a t"
  "same_identity a (t\<lparr>t_claim_lease_expires_at := l\<rparr>) = same_identity a t"
  "same_identity a (t\<lparr>t_claim_eta_at := e\<rparr>) = same_identity a t"
  "same_identity a (t\<lparr>t_worker_label := wl\<rparr>) = same_identity a t"
  "same_identity a (t\<lparr>t_claim_count := cc\<rparr>) = same_identity a t"
  "same_identity a (t\<lparr>t_notes := ns\<rparr>) = same_identity a t"
  "same_identity a (t\<lparr>t_follow_ups := fs\<rparr>) = same_identity a t"
  "same_identity a (t\<lparr>t_schema := sc\<rparr>) = same_identity a t"
  "same_identity a (patch_fields p t) = same_identity a t"
  by (simp_all add: same_identity_def push_note_def stamp_last_note_actor_def patch_fields_def
      split: option.splits)

lemma same_identity_event [op_simps]:
  "same_identity a t \<Longrightarrow> same_identity a (append_claim_event P t k w at l lb)"
  by (simp add: same_identity_def append_claim_event_def)

lemma same_identity_end_claim [op_simps]: "same_identity a t \<Longrightarrow> same_identity a (end_claim P now t)"
  by (cases "t_claimed_by t") (simp_all add: end_claim_def clear_claim_fields_def op_simps)

lemma same_identity_patch: "same_identity t (updated_ticket P p now t)"
proof -
  have "same_identity a (patch_status P q p now s u)" if "same_identity a u" for a u q s
    using that by (simp add: patch_status_def patch_status_fields_def op_simps)
  then have "same_identity t (apply_patch P p now t)"
    by (simp add: apply_patch_def op_simps settle_inactive_def note_phase_def patch_phase_def
        split: option.splits)
  then show ?thesis by (simp add: updated_ticket_def op_simps)
qed

lemma same_identity_start [op_simps]:
  "same_identity a t \<Longrightarrow> same_identity a (start_claimed_ticket P now t)"
  by (simp add: start_claimed_ticket_def op_simps)

lemma same_identity_claim:
  "claim_exact P now lease w l e t = Inr t' \<Longrightarrow> same_identity t t'"
  by (auto simp: claim_exact_def acquire_claim_def retry_claim_def op_simps
      split: if_splits option.splits)

lemma same_identity_rated: "rated_ticket P f now target r e a t = Inr t' \<Longrightarrow> same_identity t t'"
  by (auto simp: rated_ticket_def Let_def op_simps split: if_splits)

lemma same_identity_edited: "edited_ticket P f n now ed tx t = Inr (Some t') \<Longrightarrow> same_identity t t'"
  by (auto simp: edited_ticket_def Let_def op_simps split: if_splits option.splits)

lemma same_identity_assigned: "same_identity t (assigned_ticket q now as rs t)"
  by (simp add: assigned_ticket_def same_identity_def)

lemma same_identity_not_working:
  "prepare_not_working P t now report ev who = Inr t' \<Longrightarrow> same_identity t t'"
  by (auto simp: prepare_not_working_def reopen_not_working_def op_simps
      split: if_splits option.splits)

lemma same_identity_step: "ticket_step P t t' \<Longrightarrow> same_identity t t'"
proof (induction rule: ticket_step.induct)
  case (step_claim now lease w l e t t')
  then show ?case using same_identity_claim same_identity_start by blast
qed (auto simp: same_identity_patch same_identity_assigned apply_close_def apply_next_claim_def
    acquire_claim_def released_ticket_def renewed_ticket_def handed_off_ticket_def
    normalize_for_write_def op_simps split: option.splits if_splits
    dest: same_identity_not_working same_identity_rated same_identity_edited)

lemma same_identity_steps: "(ticket_step P)\<^sup>*\<^sup>* t t' \<Longrightarrow> same_identity t t'"
  by (induction rule: rtranclp_induct) (auto intro: same_identity_trans same_identity_step)

subsection \<open>Properties\<close>

definition demo_new :: new_ticket where
  "demo_new = \<lparr>nt_title = ''Sample'', nt_category = ''task'', nt_priority = High,
     nt_status = NotStarted, nt_details = [], nt_tags = [], nt_up_next = True, nt_blocked_by = []\<rparr>"

definition demo_created :: ticket where
  "demo_created = created_ticket demo 5 ''hs'' (at_ns 100) demo_new None"

definition demo_claimed :: ticket where
  "demo_claimed = apply_next_claim demo (at_ns 200) (at_ns 900) ''w1'' None None demo_created"

lemma demo_created_fields:
  "t_status demo_created = NotStarted" "t_started_phase demo_created = None"
  "t_claimed_by demo_created = None" "t_blocked_reason demo_created = None"
  "t_claim_history demo_created = []" "t_claim_count demo_created = 0"
  "t_id demo_created = 5" "t_notes demo_created = []" "t_close_reason demo_created = None"
  "t_completed_at demo_created = None" "t_verified_at demo_created = None"
  "t_created_at demo_created = at_ns 100" "t_claim_lease_expires_at demo_created = None"
  by (simp_all add: demo_created_def created_ticket_def ticket_new_def demo_new_def Let_def
      normalize_new_ticket_input_def split: option.split prod.split)

lemma demo_claimed_fields:
  "t_status demo_claimed = Started" "t_started_phase demo_claimed = Some Analyzing"
  "t_claimed_by demo_claimed = Some ''w1''" "t_claim_count demo_claimed = 1"
  "t_claim_lease_expires_at demo_claimed = Some (at_ns 900)" "t_claim_eta_at demo_claimed = None"
  "length (t_claim_history demo_claimed) = 1" "t_id demo_claimed = 5"
  by (simp_all add: demo_claimed_def apply_next_claim_def acquire_claim_def op_simps
      demo_created_fields)

lemma demo_claim_step: "ticket_step demo demo_created demo_claimed"
  unfolding demo_claimed_def
  by (rule step_claim_next)
    (simp add: claim_next_eligible_def is_open_def is_blocked_def claim_available_def
      demo_created_fields)

lemma demo_claimed_reachable: "reachable demo demo_claimed"
  by (rule reach_step[OF _ demo_claim_step]) (simp add: demo_created_def reach_create)



text \<open>No sequence of operations changes a ticket's id, slug, creation time or creator, and
  the claim history is append-only: the earlier history is a prefix of the later one.\<close>

theorem history_append_only:
  "(ticket_step P)\<^sup>*\<^sup>* t t' \<Longrightarrow>
     t_id t' = t_id t \<and> t_slug t' = t_slug t \<and> t_created_at t' = t_created_at t
     \<and> t_created_by t' = t_created_by t \<and> prefix (t_claim_history t) (t_claim_history t')"
  using same_identity_steps by (simp add: same_identity_def)

theorem history_append_only_witness:
  "(ticket_step demo)\<^sup>*\<^sup>* demo_created demo_claimed \<and> t_id demo_claimed = t_id demo_created
   \<and> t_slug demo_claimed = t_slug demo_created
   \<and> prefix (t_claim_history demo_created) (t_claim_history demo_claimed)
   \<and> length (t_claim_history demo_claimed) = 1"
  using history_append_only[of demo demo_created demo_claimed] demo_claim_step
  by (simp add: demo_claimed_fields r_into_rtranclp)

end
