(* ===== verification/Claim_Safety.thy ===== *)
theory Claim_Safety
  imports Ticket_Reachable
begin

text \<open>
  What the claim operations of \<open>ops.rs\<close> promise: who is granted an exact claim, retries,
  the choice of claim-next within a store and across stores while other workers interfere,
  the fences of renewal and handoff, the bounds of an estimate, and that an operation that
  reports an error leaves its store as it was.
\<close>

subsection \<open>Exact claims\<close>

lemma claim_unavailable_iff:
  "\<not> claim_available t now \<longleftrightarrow>
     (\<exists>h x. t_claimed_by t = Some h \<and> t_claim_lease_expires_at t = Some x \<and> is_after x now)"
  by (auto simp: claim_available_def is_after_def split: option.splits)

lemma acquire_fields [op_simps]:
  "t_claimed_by (acquire_claim P now lease w l e t) = Some w"
  "t_claim_lease_expires_at (acquire_claim P now lease w l e t) = Some lease"
  "t_claim_eta_at (acquire_claim P now lease w l e t) = e"
  "t_worker_label (acquire_claim P now lease w l e t) = l"
  "t_claim_count (acquire_claim P now lease w l e t) = t_claim_count t + 1"
  "t_status (acquire_claim P now lease w l e t) = t_status t"
  by (simp_all add: acquire_claim_def op_simps)

lemma retry_fields [op_simps]:
  "t_claimed_by (retry_claim P now lease w l e t) = t_claimed_by t"
  "t_claim_lease_expires_at (retry_claim P now lease w l e t) =
     (if Option.bind (t_claim_lease_expires_at t) (\<lambda>cur. chronological_cmp cur lease) = Some Less
      then Some lease else t_claim_lease_expires_at t)"
  "t_claim_eta_at (retry_claim P now lease w l e t) = opt_or e (t_claim_eta_at t)"
  "t_worker_label (retry_claim P now lease w l e t) = opt_or l (t_worker_label t)"
  "t_claim_count (retry_claim P now lease w l e t) = t_claim_count t"
  "t_status (retry_claim P now lease w l e t) = t_status t"
  by (cases e; cases l; simp add: retry_claim_def op_simps)+

lemma claim_exact_grant:
  assumes "claim_exact P now lease w l e t = Inr t'"
  shows "is_open t" "claim_available t now \<or> t_claimed_by t = Some w" "t_claimed_by t' = Some w"
    "t_status t' = t_status t" "t_updated_at t' = now"
    "t_claim_count t' = t_claim_count t + (if claim_available t now then 1 else 0)"
  using assms by (auto simp: claim_exact_def op_simps split: if_splits option.splits)

lemma claim_exact_refusal:
  assumes "claim_exact P now lease w l e t = Inl err"
  shows "if is_open t
     then err = WrongWorker (t_slug t) (the (t_claimed_by t)) w \<and> \<not> claim_available t now
          \<and> t_claimed_by t \<notin> {None, Some w}
     else err = ClaimUnavailable (t_slug t) ''ticket is not open''"
  using assms
  by (cases "t_claimed_by t") (auto simp: claim_exact_def claim_available_def split: if_splits)


text \<open>A grant with a lease beyond now, repeated with the same arguments, changes nothing.\<close>

lemma retry_same:
  assumes "t_claim_lease_expires_at t = Some x" "chronological_cmp x lease \<noteq> Some Less"
    "opt_or e (t_claim_eta_at t) = t_claim_eta_at t" "opt_or l (t_worker_label t) = t_worker_label t"
  shows "retry_claim P now lease w l e t = t"
  using assms by (cases e; cases l) (auto simp: retry_claim_def)

lemma chronological_cmp_self: "chronological_cmp x x \<noteq> Some Less"
  by (simp add: chronological_cmp_def split: option.splits)

lemma claim_twice:
  assumes "claim_exact P now lease w l e t = Inr t'" "is_after lease now"
  shows "claim_exact P now lease w l e (start_claimed_ticket P now t') =
     Inr (start_claimed_ticket P now t')"
proof -
  let ?t = "start_claimed_ticket P now t'"
  have up: "t_updated_at t' = now" and held: "t_claimed_by t' = Some w" "is_open t'"
    using claim_exact_grant[OF assms(1)] by (simp_all add: is_open_def)
  have facts: "\<exists>x. t_claim_lease_expires_at t' = Some x \<and> is_after x now
      \<and> chronological_cmp x lease \<noteq> Some Less"
    "opt_or e (t_claim_eta_at t') = t_claim_eta_at t'"
    "opt_or l (t_worker_label t') = t_worker_label t'"
    using assms chronological_cmp_self[of lease]
    by (cases e; cases l; auto simp: claim_exact_def op_simps claim_unavailable_iff
        split: if_splits option.splits)+
  then have "retry_claim P now lease w l e ?t = ?t"
    by (elim exE conjE, intro retry_same) (simp_all add: op_simps)
  moreover have "\<not> claim_available ?t now" "is_open ?t" "t_updated_at ?t = now"
    using facts(1) held up
    by (auto simp: claim_unavailable_iff op_simps is_open_def start_claimed_ticket_def push_note_def)
  ultimately show ?thesis using held by (simp add: claim_exact_def op_simps)
qed

text \<open>Claiming is idempotent: when a claim with a lease that ends after now was granted and
  the ticket started, the same request again is granted and leaves the ticket unchanged (no
  second claim event, no recount, no shortened lease).\<close>

theorem claim_idempotent:
  "claim_exact P now lease w l e t = Inr t' \<Longrightarrow> is_after lease now \<Longrightarrow>
     claim_exact P now lease w l e (start_claimed_ticket P now t') = Inr (start_claimed_ticket P now t')
     \<and> start_claimed_ticket P now (start_claimed_ticket P now t') = start_claimed_ticket P now t'"
  using claim_twice by (simp add: start_claimed_ticket_def op_simps)

lemma is_after_at_ns [simp]: "is_after (at_ns m) (at_ns n) \<longleftrightarrow> n < m"
  by (auto simp: is_after_def chronological_cmp_def at_ns_def)

lemma claim_available_unclaimed: "t_claimed_by t = None \<Longrightarrow> claim_available t now"
  by (simp add: claim_available_def)

lemma demo_claim_exact:
  "claim_exact demo (at_ns 200) (at_ns 900) ''w1'' None None demo_created =
     Inr ((acquire_claim demo (at_ns 200) (at_ns 900) ''w1'' None None demo_created)
       \<lparr>t_updated_at := at_ns 200\<rparr>)"
  by (simp add: claim_exact_def is_open_def demo_created_fields claim_available_unclaimed)

lemma demo_claimed_eq:
  "start_claimed_ticket demo (at_ns 200)
     ((acquire_claim demo (at_ns 200) (at_ns 900) ''w1'' None None demo_created)
       \<lparr>t_updated_at := at_ns 200\<rparr>) = demo_claimed"
  by (simp add: demo_claimed_def apply_next_claim_def)

theorem claim_idempotent_witness:
  "claim_exact demo (at_ns 200) (at_ns 900) ''w1'' None None demo_claimed = Inr demo_claimed"
  using claim_idempotent[OF demo_claim_exact] by (simp add: demo_claimed_eq)

subsection \<open>Errors leave the store alone\<close>

text \<open>The result of an operation started in store \<open>s\<close>: on an error the store is the old one.\<close>

definition fails_clean :: "fs_store \<Rightarrow> ('e + 'a) \<times> fs_store \<Rightarrow> bool" where
  "fails_clean s r = (case r of (Inl _, s') \<Rightarrow> s' = s | (Inr _, _) \<Rightarrow> True)"

lemma fails_clean_simps [simp]: "fails_clean s (Inl e, s') \<longleftrightarrow> s' = s" "fails_clean s (Inr x, s')"
  by (simp_all add: fails_clean_def)

lemma fails_clean_transaction:
  "(\<And>s. fails_clean s (op s)) \<Longrightarrow> fails_clean s (with_ticket_transaction s from op)"
  by (simp add: with_ticket_transaction_def split: option.split)

lemma fails_clean_write: "fails_clean s (write_ticket_with_paths_committing P s t extra)"
  by (simp add: write_ticket_with_paths_committing_def write_ticket_def write_ticket_unchecked_def
      write_ticket_unchecked_at_def split: sum.splits prod.splits)

lemma fails_clean_commit: "fails_clean s (commit_ticket P s from t)"
  using fails_clean_write[of s P t "[]"]
  by (auto simp: commit_ticket_def write_ticket_committing_def split: prod.splits sum.splits)

lemma fails_clean_selected: "fails_clean s (claim_selected P s now lease w l e sel)"
  using fails_clean_commit[of s P id "apply_next_claim P now lease w l e _"]
  by (auto simp: claim_selected_def split: sum.splits option.splits prod.splits)
     (metis fails_clean_simps(1))

text \<open>A claim, claim-next, renewal, release or handoff that reports an error has changed
  nothing: every error, from the lock file through the fences to a failed write, leaves the
  store exactly as it was.\<close>

theorem claim_errors_keep_store:
  "fails_clean s (claim_with_eta P s i now lease w l e)
   \<and> fails_clean s (claim_next_with_eta P s now lease w l e)
   \<and> fails_clean s (claim_next_candidate P s i now lease w l e)
   \<and> fails_clean s (renew_with_eta_fenced P s i clock w e attempt)
   \<and> fails_clean s (release P s i now w force)
   \<and> fails_clean s (publish_handoff_note P s i n now w a reviewed tx)"
  unfolding claim_with_eta_def claim_next_with_eta_def claim_next_candidate_def
    renew_with_eta_fenced_def release_def publish_handoff_note_def
  by (intro conjI fails_clean_transaction)
    (simp_all add: fails_clean_selected fails_clean_commit split: sum.split option.split)

subsection \<open>Claim next\<close>

lemma total_claim_next_order: "total_cmp claim_next_order ok"
proof -
  have "total_cmp (\<lambda>a b. claim_next_order a b) ok"
    unfolding claim_next_order_def
    by (intro total_cmp_then total_cmp_flip[OF total_cmp_key] total_cmp_key)
  then show ?thesis .
qed

lemma claim_next_order_id: "claim_next_order a b = Equal \<Longrightarrow> t_id a = t_id b"
  by (simp add: claim_next_order_def ord_then_iff)

interpretation cn: strict_total_cmp claim_next_order "\<lambda>_. True" t_id
  using total_claim_next_order[of "\<lambda>_. True"]
  by (simp add: strict_total_cmp_def strict_total_cmp_axioms_def claim_next_order_id)

text \<open>The first ticket of the queue: eligible, and no eligible ticket comes before it.\<close>

definition first_in_queue :: "ticket list \<Rightarrow> timestamp \<Rightarrow> ticket \<Rightarrow> bool" where
  "first_in_queue ts now t =
     (t \<in> set ts \<and> claim_next_eligible t now
      \<and> list_all (\<lambda>u. claim_next_order u t \<noteq> Less) (claim_next_queue ts now))"

lemma min_by_first_in_queue:
  assumes "min_by claim_next_order (claim_next_queue ts now) = Some t"
  shows "first_in_queue ts now t"
proof -
  have "t \<in> set (claim_next_queue ts now)" using assms by (rule min_by_in_set)
  moreover have "claim_next_order u t \<noteq> Less" if "u \<in> set (claim_next_queue ts now)" for u
    using cn.min_by_least[OF _ assms that] cn.cmp_sym[of t u] by simp
  ultimately show ?thesis
    by (auto simp: first_in_queue_def claim_next_queue_def list_all_iff)
qed

lemma peek_claim_next_cases:
  "case peek_claim_next P s now of
     Inl e \<Rightarrow> list_tickets P s = Inl e
   | Inr None \<Rightarrow> (\<exists>ts. list_tickets P s = Inr ts \<and> claim_next_queue ts now = [])
   | Inr (Some t) \<Rightarrow> (\<exists>ts. list_tickets P s = Inr ts \<and> first_in_queue ts now t)"
  by (cases "list_tickets P s")
    (auto simp: peek_claim_next_def min_by_first_in_queue split: option.split)

text \<open>A grant out of store \<open>s\<close>: a listed eligible ticket, claimed, started and committed.\<close>

definition granted ::
  "platform \<Rightarrow> timestamp \<Rightarrow> timestamp \<Rightarrow> string \<Rightarrow> string option \<Rightarrow> timestamp option
     \<Rightarrow> fs_store \<Rightarrow> ticket \<Rightarrow> ticket \<Rightarrow> fs_store \<Rightarrow> bool" where
  "granted P now lease w l e s t t' s' =
     ((\<exists>ts. list_tickets P s = Inr ts \<and> t \<in> set ts) \<and> claim_next_eligible t now
      \<and> t' = apply_next_claim P now lease w l e t \<and> commit_ticket P s id t' = (Inr t', s'))"

lemma commit_ticket_Inr: "commit_ticket P s from t = (Inr t', s') \<Longrightarrow> t' = t"
  by (auto simp: commit_ticket_def split: prod.splits sum.splits)

lemma claim_selected_granted:
  assumes "claim_selected P s now lease w l e (Inr (Some t)) = (Inr (Some t'), s')"
    "list_tickets P s = Inr ts" "t \<in> set ts" "claim_next_eligible t now"
  shows "granted P now lease w l e s t t' s'"
proof -
  let ?t = "apply_next_claim P now lease w l e t"
  have "commit_ticket P s id ?t = (Inr t', s')"
    using assms(1) by (auto simp: claim_selected_def split: prod.splits sum.splits)
  moreover from commit_ticket_Inr[OF this] have "t' = ?t" .
  ultimately show ?thesis using assms(2-) by (auto simp: granted_def)
qed

lemma claim_selected_None:
  "claim_selected P s now lease w l e sel = (Inr None, s') \<Longrightarrow> sel = Inr None \<and> s' = s"
  by (auto simp: claim_selected_def split: sum.splits option.splits prod.splits)

lemma transaction_Inr:
  "with_ticket_transaction s from op = (Inr x, s') \<Longrightarrow> op s = (Inr x, s')"
  by (auto simp: with_ticket_transaction_def split: if_splits option.splits)

text \<open>C6. Claim-next grants the first eligible ticket: open, not blocked, without a live lease
  and not in final testing, and no other eligible ticket of the store is ordered before it (Up
  Next first, then priority, then age by id).  The granted ticket is claimed by the worker,
  started and committed.  It reports no work only when the listing has no eligible ticket, and
  then nothing is written.\<close>

theorem claim_next_grants_first:
  "case claim_next_with_eta P s now lease w l e of
     (Inl _, s') \<Rightarrow> s' = s
   | (Inr None, s') \<Rightarrow>
       s' = s \<and> (\<exists>ts. list_tickets P s = Inr ts \<and> claim_next_queue ts now = [])
   | (Inr (Some t'), s') \<Rightarrow>
       (\<exists>ts t. list_tickets P s = Inr ts \<and> first_in_queue ts now t
          \<and> granted P now lease w l e s t t' s' \<and> t_claimed_by t' = Some w
          \<and> t_status t' \<in> {Started, Backlog})"
proof (cases "claim_next_with_eta P s now lease w l e")
  case (Pair r s')
  show ?thesis
  proof (cases r)
    case (Inl err)
    have "fails_clean s (claim_next_with_eta P s now lease w l e)"
      unfolding claim_next_with_eta_def by (intro fails_clean_transaction fails_clean_selected)
    with Pair Inl show ?thesis by simp
  next
    case (Inr o')
    have sel: "claim_selected P s now lease w l e (peek_claim_next P s now) = (Inr o', s')"
      using Pair Inr by (auto simp: claim_next_with_eta_def dest: transaction_Inr)
    show ?thesis
    proof (cases o')
      case None
      with sel have "peek_claim_next P s now = Inr None" "s' = s"
        using claim_selected_None by blast+
      with peek_claim_next_cases[of P s now] Pair Inr None show ?thesis by simp
    next
      case (Some t')
      with sel obtain t where t: "peek_claim_next P s now = Inr (Some t)"
        by (auto simp: claim_selected_def split: sum.splits option.splits)
      with peek_claim_next_cases[of P s now] obtain ts
        where ts: "list_tickets P s = Inr ts" "first_in_queue ts now t" by auto
      then have g: "granted P now lease w l e s t t' s'"
        using sel t Some by (auto simp: first_in_queue_def intro: claim_selected_granted)
      then have "t_claimed_by t' = Some w" "t_status t' \<in> {Started, Backlog}"
        by (auto simp: granted_def apply_next_claim_def op_simps claim_next_eligible_def is_open_iff)
      with g ts Pair Inr Some show ?thesis by auto
    qed
  qed
qed

subsection \<open>Claim next across stores\<close>

lemma claim_next_with_eta_granted:
  assumes "claim_next_with_eta P s now lease w l e = (Inr (Some t'), s')"
  shows "\<exists>t. granted P now lease w l e s t t' s'"
proof -
  have sel: "claim_selected P s now lease w l e (peek_claim_next P s now) = (Inr (Some t'), s')"
    using assms by (auto simp: claim_next_with_eta_def dest: transaction_Inr)
  then obtain t where t: "peek_claim_next P s now = Inr (Some t)"
    by (auto simp: claim_selected_def split: sum.splits option.splits)
  with peek_claim_next_cases[of P s now] sel show ?thesis
    by (auto simp: first_in_queue_def intro: claim_selected_granted)
qed

lemma claim_next_candidate_granted:
  assumes "claim_next_candidate P s i now lease w l e = (Inr (Some t'), s')"
  shows "\<exists>t. t_id t = i \<and> granted P now lease w l e s t t' s'"
proof -
  let ?sel = "result_bind (list_tickets P s)
    (\<lambda>ts. Inr (List.find (\<lambda>t. t_id t = i) (claim_next_queue ts now)))"
  have sel: "claim_selected P s now lease w l e ?sel = (Inr (Some t'), s')"
    using assms by (auto simp: claim_next_candidate_def dest: transaction_Inr)
  then obtain t where "?sel = Inr (Some t)"
    by (auto simp: claim_selected_def split: sum.splits option.splits)
  then obtain ts where t: "list_tickets P s = Inr ts" "?sel = Inr (Some t)"
    "List.find (\<lambda>t. t_id t = i) (claim_next_queue ts now) = Some t"
    by (auto simp: result_bind_eq_Inr)
  then have "t \<in> set (claim_next_queue ts now)" "t_id t = i"
    by (auto simp: find_Some_iff)
  with t sel show ?thesis by (auto simp: claim_next_queue_def intro!: claim_selected_granted)
qed

text \<open>The best candidate of the stores seen so far.\<close>

definition best_of ::
  "platform \<Rightarrow> world \<Rightarrow> timestamp \<Rightarrow> string list \<Rightarrow> (string \<times> ticket) option \<Rightarrow> bool" where
  "best_of P w now roots best =
     (case best of
        None \<Rightarrow> list_all (\<lambda>r. peek_claim_next P (w r) now = Inr None) roots
      | Some (root, t) \<Rightarrow>
          root \<in> set roots \<and> peek_claim_next P (w root) now = Inr (Some t)
          \<and> list_all (\<lambda>r. case peek_claim_next P (w r) now of
                Inl _ \<Rightarrow> False | Inr None \<Rightarrow> True
              | Inr (Some u) \<Rightarrow> claim_next_order u t \<noteq> Less) roots)"

lemma not_less_trans:
  "claim_next_order u t \<noteq> Less \<Longrightarrow> claim_next_order v t = Less \<Longrightarrow> claim_next_order u v \<noteq> Less"
  using cn.cmp_trans[of t u v] cn.cmp_sym[of u t] cn.cmp_sym[of t v] cn.cmp_sym[of u v] by auto

lemma best_of_step:
  assumes "best_of P w now seen best" "peek_claim_next P (w r) now = Inr (Some c)"
  shows "best_of P w now (seen @ [r])
     (if is_none_or best (\<lambda>(_, t). claim_next_order c t = Less) then Some (r, c) else best)"
proof (cases best)
  case None
  with assms show ?thesis
    using cn.cmp_refl[of c] by (auto simp: best_of_def list_all_iff)
next
  case (Some b)
  obtain root t where b: "b = (root, t)" by force
  show ?thesis
  proof (cases "claim_next_order c t = Less")
    case True
    then show ?thesis using assms Some b not_less_trans[of _ t c] cn.cmp_refl[of c]
      by (auto simp: best_of_def list_all_iff split: sum.splits option.splits)
  next
    case False
    with assms Some b show ?thesis by (auto simp: best_of_def list_all_iff)
  qed
qed

lemma select_across_best:
  "best_of P w now seen best \<Longrightarrow> select_across P w now best roots = Inr r \<Longrightarrow>
     best_of P w now (seen @ roots) r"
proof (induction roots arbitrary: seen best)
  case Nil
  then show ?case by simp
next
  case (Cons root roots)
  show ?case
  proof (cases "peek_claim_next P (w root) now")
    case (Inl e)
    with Cons show ?thesis by simp
  next
    case (Inr c)
    have "best_of P w now (seen @ [root])
        (case c of None \<Rightarrow> best
         | Some c \<Rightarrow> if is_none_or best (\<lambda>(_, t). claim_next_order c t = Less) then Some (root, c) else best)"
      using Cons.prems(1) best_of_step[OF Cons.prems(1)] Inr
      by (cases c) (auto simp: best_of_def list_all_iff split: option.split)
    from Cons.IH[OF this] Cons.prems(2) Inr show ?thesis by (cases c) simp_all
  qed
qed

text \<open>Across the stores of a project the selection pass picks the globally first candidate:
  it is the first of its own store's queue, and no other store has a first candidate ordered
  before it.  It finds nothing exactly when every store's queue is empty, and a store that
  cannot be read fails the pass instead of being skipped.\<close>

theorem select_across_global:
  "case select_across P w now None roots of
     Inl e \<Rightarrow> list_ex (\<lambda>r. peek_claim_next P (w r) now = Inl e) roots
   | Inr best \<Rightarrow> best_of P w now roots best"
proof (cases "select_across P w now None roots")
  case (Inl e)
  have "select_across P w now best roots = Inl e \<Longrightarrow>
      list_ex (\<lambda>r. peek_claim_next P (w r) now = Inl e) roots" for best
    by (induction roots arbitrary: best) (auto split: sum.splits option.splits)
  with Inl show ?thesis by simp
next
  case (Inr best)
  have "best_of P w now [] None" by (simp add: best_of_def)
  from select_across_best[OF this Inr] Inr show ?thesis by simp
qed

lemma claim_attempts_granted:
  "claim_attempts P env now lease w l e roots k W = (Inr (Some (Some (root, t'))), W') \<Longrightarrow>
     root \<in> set roots \<and> (\<exists>s t. granted P now lease w l e s t t' (W' root))"
proof (induction k arbitrary: W)
  case 0
  then show ?case by simp
next
  case (Suc k)
  obtain r c where sel: "select_across P W now None roots = Inr (Some (r, c))"
    using Suc.prems by (auto split: sum.splits option.splits)
  have "best_of P W now [] None" by (simp add: best_of_def)
  from select_across_best[OF this sel] have r: "r \<in> set roots" by (simp add: best_of_def)
  obtain x s' where cand:
    "claim_next_candidate P (env k W r) (t_id c) now lease w l e = (x, s')" by force
  show ?case
  proof (cases x)
    case (Inl err)
    with Suc.prems sel cand show ?thesis by (simp add: Let_def)
  next
    case (Inr y)
    then show ?thesis
    proof (cases y)
      case None
      with Inr Suc.prems sel cand show ?thesis by (simp add: Let_def Suc.IH)
    next
      case (Some u)
      with Inr Suc.prems sel cand have "root = r" "t' = u" "W' root = s'" by (auto simp: Let_def)
      with r cand Inr Some claim_next_candidate_granted show ?thesis by blast
    qed
  qed
qed

lemma claim_each_granted:
  "claim_each P now lease w l e roots W = (Inr (Some (root, t')), W') \<Longrightarrow>
     root \<in> set roots \<and> (\<exists>s t. granted P now lease w l e s t t' (W' root))"
proof (induction roots arbitrary: W)
  case Nil
  then show ?case by simp
next
  case (Cons r roots)
  obtain x s' where c: "claim_next_with_eta P (W r) now lease w l e = (x, s')" by force
  show ?case
  proof (cases x)
    case (Inl err)
    with Cons.prems c show ?thesis by simp
  next
    case (Inr y)
    then show ?thesis
    proof (cases y)
      case None
      with Inr Cons.prems c Cons.IH show ?thesis by auto
    next
      case (Some u)
      with Inr Cons.prems c have "root = r" "t' = u" "W' root = s'" by auto
      with c Inr Some claim_next_with_eta_granted show ?thesis by auto blast
    qed
  qed
qed

lemma claim_across_granted:
  assumes "claim_next_across_with_eta P env W roots now lease w l e = (Inr (Some (root, t')), W')"
  shows "root \<in> set roots \<and> (\<exists>s t. granted P now lease w l e s t t' (W' root))"
  using assms unfolding claim_next_across_with_eta_def
  by (auto split: list.splits prod.splits sum.splits option.splits simp del: claim_each.simps
      dest: claim_attempts_granted claim_each_granted)


subsection \<open>Renewal and handoff\<close>

text \<open>The attempt a worker holds: the claim that opened the present ownership.\<close>

definition holds_attempt :: "ticket \<Rightarrow> string \<Rightarrow> ulid \<Rightarrow> bool" where
  "holds_attempt t w a =
     (case find_last (\<lambda>e. ce_kind e = ClaimEv) (t_claim_history t) of
        None \<Rightarrow> False | Some e \<Rightarrow> ce_id e = a \<and> ce_worker e = w)"

lemma attempt_changed_iff: "attempt_changed t w a \<longleftrightarrow> \<not> holds_attempt t w a"
  by (auto simp: attempt_changed_def holds_attempt_def latest_claim_def split: option.splits)

text \<open>A renewal succeeds exactly when the worker holds a live lease, the new lease ends
  after now, and (when the caller fences on an attempt) the latest claim is that attempt by
  that worker.  It then moves the lease, keeps the estimate unless a new one is given, appends
  one renewal event and touches neither holder, status nor claim count.\<close>

theorem renewal_outcome:
  "is_some (result_ok (renewed_ticket P now lease w eta attempt t)) =
     (t_claimed_by t = Some w \<and> \<not> claim_available t now \<and> is_after lease now
      \<and> is_none_or attempt (holds_attempt t w))
   \<and> (case renewed_ticket P now lease w eta attempt t of
        Inl _ \<Rightarrow> True
      | Inr t' \<Rightarrow>
          t_claimed_by t' = Some w \<and> t_claim_lease_expires_at t' = Some lease
          \<and> t_claim_eta_at t' = opt_or eta (t_claim_eta_at t) \<and> t_claim_count t' = t_claim_count t
          \<and> t_status t' = t_status t
          \<and> map ce_kind (t_claim_history t') = map ce_kind (t_claim_history t) @ [RenewEv])"
  by (cases attempt)
    (auto simp: renewed_ticket_def Let_def op_simps is_after_def attempt_changed_iff result_ok_def
      split: option.splits)

text \<open>A handoff note is published exactly when nothing changed since the worker's review,
  the worker still holds a live lease from the very claim attempt it names, and the ticket is in
  initial testing.  Publication appends the note, ends the claim (with a release event) and
  leaves the ticket open in its status and phase for the integrator.\<close>

theorem handoff_outcome:
  "is_some (result_ok (handed_off_ticket P n now w attempt reviewed tx t)) =
     (t_updated_at t = reviewed \<and> t_claimed_by t = Some w \<and> \<not> claim_available t now
      \<and> holds_attempt t w attempt \<and> t_started_phase t = Some InitialTesting)
   \<and> (case handed_off_ticket P n now w attempt reviewed tx t of
        Inl e \<Rightarrow> (\<exists>why. e = StaleHandoff why)
      | Inr t' \<Rightarrow>
          t_notes t' = t_notes t @ [handoff_note n now w tx] \<and> t_claimed_by t' = None
          \<and> t_claim_lease_expires_at t' = None \<and> t_status t' = t_status t
          \<and> t_started_phase t' = t_started_phase t
          \<and> map ce_kind (t_claim_history t') = map ce_kind (t_claim_history t) @ [ReleaseEv])"
proof (cases "t_claimed_by t = Some w")
  case True
  then have "map ce_kind (t_claim_history (end_claim P now (push_note m t)))
      = map ce_kind (t_claim_history t) @ [ReleaseEv]" for m
    by (simp add: end_claim_def clear_claim_fields_def op_simps)
  then show ?thesis
    by (simp add: handed_off_ticket_def op_simps attempt_changed_iff result_ok_def True)
next
  case False
  then show ?thesis by (simp add: handed_off_ticket_def result_ok_def)
qed

subsection \<open>Estimates\<close>

lemma validate_claim_eta_ok:
  "validate_claim_eta now eta = Inr () \<longleftrightarrow>
     (\<exists>a b. ts_parsed now = Some a \<and> ts_parsed eta = Some b \<and> unix_nanos a < unix_nanos b
        \<and> unix_nanos b - unix_nanos a \<le> MAX_CLAIM_ETA_DAYS * day_seconds * second_nanos)"
  by (auto simp: validate_claim_eta_def split: option.splits)

text \<open>An accepted estimate, whether given as a timestamp or as a duration, is a
  well-formed instant strictly after now and at most fourteen days away.\<close>

theorem claim_eta_bounds:
  "case parse_claim_eta P now input of
     Inl _ \<Rightarrow> True
   | Inr eta \<Rightarrow>
       (case (ts_parsed now, ts_parsed eta) of
          (Some a, Some b) \<Rightarrow> unix_nanos a < unix_nanos b
            \<and> unix_nanos b - unix_nanos a \<le> 14 * 86400 * 1000000000
        | _ \<Rightarrow> False)"
proof (cases "parse_claim_eta P now input")
  case (Inr eta)
  then have "validate_claim_eta now eta = Inr ()"
    by (auto simp: parse_claim_eta_def Let_def result_bind_eq_Inr)
  with Inr show ?thesis
    by (auto simp: validate_claim_eta_ok MAX_CLAIM_ETA_DAYS_def day_seconds_def second_nanos_def)
qed simp

text \<open>A duration such as \<open>1h30m\<close> is the sum of its parts, but a duration whose seconds
  leave the 64-bit range aborts the process instead of being refused as an invalid estimate.\<close>

theorem claim_eta_overflow_panics:
  "parse_claim_eta P (at_ns 100) ''9223372036854775807d'' = Inl OpPanic
   \<and> eta_seconds err 0 [] ''1h30m'' = Inr 5400"
proof
  let ?raw = "''9223372036854775807d''"
  have t: "trim ?raw = ?raw"
    by (rule trim_id) (simp_all add: ascii_ws_def wide_ws2_def wide_ws3_def)
  have "eta_seconds e 0 [] ?raw = Inl OpPanic" for e
    by (simp add: is_ascii_digit_def parse_i64_digits_def parse_digits_def digit_value_def i64_max_def
        unit_seconds_def ascii_lower_def is_ascii_upper_def)
  moreover have "\<not> contains_sub ''T'' ?raw" by (simp add: contains_sub_def)
  ultimately show "parse_claim_eta P (at_ns 100) ?raw = Inl OpPanic"
    by (simp add: parse_claim_eta_def Let_def t at_ns_def)
  show "eta_seconds err 0 [] ''1h30m'' = Inr 5400"
    by (simp add: is_ascii_digit_def parse_i64_digits_def parse_digits_def digit_value_def i64_max_def
        unit_seconds_def ascii_lower_def is_ascii_upper_def)
qed

end
