(* ===== verification/File_Roundtrip.thy ===== *)
theory File_Roundtrip
  imports Ticket_File Str_Facts Demo_Platform
begin

text \<open>
  Round trips of the ticket file of \<open>format.rs\<close>: the escaping of user text, the hexadecimal
  note values, a note with all its metadata, the notes section, the bounded content and the
  whole file.  The hypotheses on the surroundings are what the YAML, JSON and ULID crates
  document; the hypotheses on a ticket say that its texts are in the form the writer leaves
  them in.
\<close>

subsection \<open>Escaping\<close>

lemma dropWhile_Cons_same: "dropWhile (\<lambda>x. x = c) (c # l) = dropWhile (\<lambda>x. x = c) l"
  by simp

lemma stem_head: "starts_with marker_stem s \<Longrightarrow> s \<noteq> [] \<and> hd s = CHR 60"
  by (cases s) (simp_all add: marker_stem_def)

lemma escape_line_no_stem: "\<not> starts_with marker_stem (escape_line l)"
proof (cases "starts_with marker_stem (trim_start_char (CHR 92) l)")
  case True
  then show ?thesis using stem_head[of "escape_line l"] by (auto simp: escape_line_def)
next
  case False
  have "trim_start_char (CHR 92) l = l" if "starts_with marker_stem l"
    using stem_head[OF that] by (cases l) (auto simp: trim_start_char_def)
  with False show ?thesis by (auto simp: escape_line_def)
qed

lemma strip_prefix_single [simp]: "strip_prefix [c] (c # a) = Some a"
  by (simp add: strip_prefix_Some)

lemma unescape_escape_line: "unescape_line (escape_line l) = l"
proof (cases "starts_with marker_stem (trim_start_char (CHR 92) l)")
  case True
  then show ?thesis
    using strip_prefix_append[of "[CHR 92]" l] by (simp add: escape_line_def unescape_line_def)
next
  case False
  have "\<not> starts_with marker_stem (trim_start_char (CHR 92) (unwrap_or (strip_prefix [CHR 92] l) l))"
    using False by (cases "strip_prefix [CHR 92] l") (auto simp: strip_prefix_Some trim_start_char_def)
  with False show ?thesis by (simp add: escape_line_def unescape_line_def Let_def)
qed

lemma escape_line_facts:
  "escape_line l = [] \<longleftrightarrow> l = []"
  "c \<in> set (escape_line l) \<Longrightarrow> c \<in> set l \<or> c = CHR 92"
  "l \<noteq> [] \<Longrightarrow> last (escape_line l) = last l"
proof -
  show "escape_line l = [] \<longleftrightarrow> l = []"
    using stem_head[of "[]"] by (auto simp: escape_line_def trim_start_char_def)
qed (auto simp: escape_line_def split: if_splits)

lemma line_list_escape: "line_list ls \<Longrightarrow> line_list (map escape_line ls)"
proof (induction ls)
  case Nil
  then show ?case by simp
next
  case (Cons l ls)
  then show ?case
    using escape_line_facts[where l = l] by (auto simp: line_list_Cons split: if_splits)
qed

text \<open>User text in stored form: trimmed, not empty, with plain newlines.\<close>

definition stored_text :: "string \<Rightarrow> bool" where
  "stored_text t = (trimmed t \<and> crlf_free t)"

lemma stored_text_lines:
  assumes "stored_text t"
  shows "line_list (lines t)" "join nl (lines t) = t"
  using text_lines[of t] assms trimmed_last[of t] by (auto simp: stored_text_def trimmed_def)

lemma escape_content_lines:
  "stored_text t \<Longrightarrow> lines (escape_content t) = map escape_line (lines t)"
  unfolding escape_content_def by (rule lines_join) (simp add: line_list_escape stored_text_lines)

lemma unescape_escape:
  assumes "stored_text t" shows "unescape_content (escape_content t) = t"
proof -
  have "map unescape_line (lines (escape_content t)) = lines t"
    by (simp add: escape_content_lines[OF assms] unescape_escape_line comp_def)
  then show ?thesis by (simp add: unescape_content_def stored_text_lines[OF assms])
qed

text \<open>Escaping keeps a text trimmed.\<close>

lemma ws_len_rev_append: "length a \<ge> 3 \<Longrightarrow> ws_len_rev (a @ b) = ws_len_rev a"
  by (cases a rule: ws_len_rev.cases) auto

lemma ws_len_escape: "ws_len l = 0 \<Longrightarrow> ws_len (escape_line l) = 0"
proof -
  assume "ws_len l = 0"
  moreover have "ws_len (CHR 92 # l) = 0"
    by (cases "CHR 92 # l" rule: ws_len.cases) (auto simp: ascii_ws_def wide_ws2_def wide_ws3_def)
  ultimately show ?thesis by (simp add: escape_line_def)
qed

lemma ws_len_rev_escape:
  assumes "ws_len_rev (rev l) = 0"
  shows "ws_len_rev (rev (escape_line l)) = 0"
proof (cases "starts_with marker_stem (trim_start_char (CHR 92) l)")
  case True
  then obtain r where "dropWhile (\<lambda>x. x = CHR 92) l = marker_stem @ r"
    by (auto simp: trim_start_char_def starts_with_iff)
  then have "length marker_stem \<le> length l"
    by (metis length_append length_dropWhile_le le_add1 le_trans)
  then have "length (rev l) \<ge> 3" by (simp add: marker_stem_def)
  from ws_len_rev_append[OF this] True assms show ?thesis by (simp add: escape_line_def)
qed (use assms in \<open>simp add: escape_line_def\<close>)

lemma trimmed_join_first: "x \<noteq> [] \<Longrightarrow> ws_len (join nl (x # xs)) = ws_len x"
  using ws_len_stop[of "CHR 10" x "join nl xs"] by (simp add: join_Cons nl_def)

lemma join_snoc: "xs \<noteq> [] \<Longrightarrow> join sep (xs @ [x]) = join sep xs @ sep @ x"
  by (induction xs) (auto simp: join_Cons)

lemma trimmed_join_last:
  "x \<noteq> [] \<Longrightarrow> ws_len_rev (rev (join nl (xs @ [x]))) = ws_len_rev (rev x)"
  using ws_len_rev_stop[of "CHR 10" "rev x" "rev (join nl xs)"]
  by (cases "xs = []") (simp_all add: join_snoc nl_def)

lemma trimmed_escape:
  assumes "stored_text t"
  shows "trimmed (escape_content t)"
proof -
  let ?ls = "lines t"
  have ls: "line_list ?ls" "join nl ?ls = t" using stored_text_lines[OF assms] by blast+
  have t: "t \<noteq> []" "ws_len t = 0" "ws_len_rev (rev t) = 0"
    using assms by (auto simp: stored_text_def trimmed_def)
  obtain x xs where x: "?ls = x # xs" using ls(1) by (cases ?ls) (auto simp: line_list_def)
  have hd: "x \<noteq> []"
  proof
    assume "x = []"
    with x ls t(2) show False by (cases xs) (auto simp: line_list_def nl_def)
  qed
  then have "ws_len x = 0" using t(2) trimmed_join_first[of x xs] ls(2) x by simp
  then have "ws_len (escape_content t) = 0"
    using trimmed_join_first[of "escape_line x" "map escape_line xs"] hd x
    by (simp add: escape_content_def ws_len_escape escape_line_facts)
  moreover obtain ys y where y: "?ls = ys @ [y]" "y \<noteq> []"
    using ls(1) by (cases ?ls rule: rev_cases) (auto simp: line_list_def)
  then have "ws_len_rev (rev y) = 0" using t(3) trimmed_join_last[of y ys] ls(2) by simp
  then have "ws_len_rev (rev (escape_content t)) = 0"
    using trimmed_join_last[of "escape_line y" "map escape_line ys"] y
    by (simp add: escape_content_def ws_len_rev_escape escape_line_facts)
  moreover have "escape_content t \<noteq> []"
    using hd x by (simp add: escape_content_def join_Cons escape_line_facts)
  ultimately show ?thesis by (simp add: trimmed_def)
qed

subsection \<open>Hexadecimal values\<close>

lemma hex_digit_facts:
  assumes "n < 16"
  shows "hex_value (hex_digit n) = Some n" "hex_digit n \<noteq> CHR ''+''"
    "\<not> is_continuation (hex_digit n)" "hex_digit n \<noteq> CHR '':''"
    "ws_len (hex_digit n # s) = 0" "hex_digit n \<noteq> CHR 10"
proof -
  have c: "(of_char (hex_digit n) :: nat) = (if n < 10 then 48 + n else 87 + n)"
    using assms by (simp add: hex_digit_def)
  have ne: "hex_digit n \<noteq> d" if "of_char d \<notin> {48..57} \<union> {97..102 :: nat}" for d :: char
    using that c assms by (auto split: if_splits)
  show "hex_value (hex_digit n) = Some n" using assms by (simp add: hex_value_def Let_def c)
  show "\<not> is_continuation (hex_digit n)" using assms by (simp add: is_continuation_def Let_def c)
  show "hex_digit n \<noteq> CHR ''+''" "hex_digit n \<noteq> CHR '':''" "hex_digit n \<noteq> CHR 10"
    by (rule ne, simp)+
  have "\<not> ascii_ws (hex_digit n)" using assms by (simp add: ascii_ws_def Let_def c)
  moreover have "hex_digit n \<notin> {CHR 0xC2, CHR 0xE1, CHR 0xE2, CHR 0xE3}"
    using ne[of "CHR 0xC2"] ne[of "CHR 0xE1"] ne[of "CHR 0xE2"] ne[of "CHR 0xE3"] by simp
  ultimately show "ws_len (hex_digit n # s) = 0"
    by (cases "hex_digit n # s" rule: ws_len.cases) (auto simp: wide_ws2_def wide_ws3_def)
qed

lemma byte_nibbles: "of_char c div 16 < (16 :: nat)" "of_char c mod 16 < (16 :: nat)"
  using nat_of_char_less_256[of c] by (simp_all add: less_mult_imp_div_less)

lemma decode_encode_pairs: "decode_pairs (encode_note_summary s) = Inr (Some s)"
proof (induction s)
  case Nil
  then show ?case by (simp add: encode_note_summary_def)
next
  case (Cons c s)
  let ?a = "hex_digit (of_char c div 16)" and ?b = "hex_digit (of_char c mod 16)"
  have "encode_note_summary s = [] \<or> \<not> is_continuation (hd (encode_note_summary s))"
    by (cases s) (simp_all add: encode_note_summary_def encode_byte_def hex_digit_facts byte_nibbles)
  moreover have "from_hex_pair ?a ?b = Some (of_char c)"
    by (simp add: from_hex_pair_def hex_digit_facts byte_nibbles)
  ultimately show ?case
    using Cons by (simp add: encode_note_summary_def encode_byte_def hex_digit_facts byte_nibbles)
qed

lemma decode_encode: "decode_note_summary (encode_note_summary s) = Inr (opt_filter valid_utf8 (Some s))"
proof -
  have "length (encode_note_summary s) mod 2 = 0"
    by (induction s) (simp_all add: encode_note_summary_def encode_byte_def)
  then show ?thesis by (simp add: decode_note_summary_def decode_encode_pairs)
qed

lemma ws_free_encode: "ws_free (encode_note_summary s)"
  by (induction s) (simp_all add: encode_note_summary_def encode_byte_def hex_digit_facts byte_nibbles)

lemma encode_chars: "x \<in> set (encode_note_summary s) \<Longrightarrow> x \<noteq> CHR '':'' \<and> x \<noteq> CHR 10"
  by (auto simp: encode_note_summary_def encode_byte_def hex_digit_facts byte_nibbles)

lemma encode_nonempty [simp]: "encode_note_summary s = [] \<longleftrightarrow> s = []"
  by (cases s) (simp_all add: encode_note_summary_def encode_byte_def)

subsection \<open>Note metadata\<close>

text \<open>A value of a metadata field: one token that cannot be mistaken for a field name.\<close>

definition plain_value :: "string \<Rightarrow> bool" where
  "plain_value v = (token v \<and> last v \<noteq> CHR '':'')"

fun fields_tokens :: "(string \<times> string option) list \<Rightarrow> string list" where
  "fields_tokens [] = []"
| "fields_tokens ((k, v) # fs) = opt_token k v @ fields_tokens fs"

definition field_name :: "string \<Rightarrow> bool" where
  "field_name k = (token k \<and> last k = CHR '':'')"

lemma value_after_fields:
  "distinct (map fst fs) \<Longrightarrow> list_all (\<lambda>f. is_none_or (snd f) plain_value) fs \<Longrightarrow> field_name k \<Longrightarrow>
     value_after k (fields_tokens fs) = Option.bind (map_of fs k) id"
proof (induction fs)
  case Nil
  then show ?case by simp
next
  case (Cons f fs)
  obtain j v where f: "f = (j, v)" by force
  show ?case
  proof (cases v)
    case None
    moreover have "map_of fs j = None" using Cons.prems(1) f by (simp add: map_of_eq_None_iff)
    ultimately show ?thesis using Cons f by (auto simp: opt_token_def)
  next
    case (Some x)
    then have "x \<noteq> k" using Cons.prems(2,3) f by (auto simp: plain_value_def field_name_def)
    with Some Cons f show ?thesis by (auto simp: opt_token_def)
  qed
qed

text \<open>The fields of a note marker, with the values the writer gives them.\<close>

definition note_fields :: "platform \<Rightarrow> ticket_note \<Rightarrow> (string \<times> string option) list" where
  "note_fields P n =
     [(''kind:'', if n_kind n \<noteq> Regular then Some (note_kind_str (n_kind n)) else None),
      (''created_at:'', Some (ts_raw (n_created_at n))),
      (''edited_at:'', Some (ts_raw (n_edited_at n))),
      (''summary_hex:'', map_option encode_note_summary (n_summary n)),
      (''confidence:'', map_option (\<lambda>c. show_nat (confidence_get c)) (n_confidence n)),
      (''feedback_for:'', map_option (pf_ulid_to_string P) (n_feedback_for n)),
      (''kind_explicit:'', if n_kind_explicit n then Some ''true'' else None),
      (''feedback_request:'', if n_feedback_request n then Some ''true'' else None),
      (''response_to:'', map_option (pf_ulid_to_string P) (n_response_to n)),
      (''ai_feedback_hex:'',
         map_option (\<lambda>f. encode_note_summary (pf_json_feedback_print P f)) (n_ai_feedback n)),
      (''human_edited:'', if n_human_edited n then Some ''true'' else None),
      (''actor:'', map_option (\<lambda>a. actor_role_str (na_role a)) (written_actor n)),
      (''actor_id_hex:'', map_option encode_note_summary
         (opt_filter (\<lambda>i. i \<noteq> []) (Option.bind (written_actor n) na_id)))]"

lemma note_tokens_fields:
  "note_tokens P n = pf_ulid_to_string P (n_id n) # fields_tokens (note_fields P n)"
  by (simp add: note_tokens_def note_fields_def flag_token_def opt_token_def)

text \<open>Documented behaviour of the crates: ULID texts are plain tokens that parse back, and the
  JSON of a rating is UTF-8 that parses back.\<close>

definition ulid_text_plain :: "platform \<Rightarrow> bool" where
  "ulid_text_plain P = (\<forall>i. plain_value (pf_ulid_to_string P i))"

definition json_feedback_codec :: "platform \<Rightarrow> bool" where
  "json_feedback_codec P =
     (\<forall>f. pf_json_feedback_print P f \<noteq> [] \<and> valid_utf8 (pf_json_feedback_print P f)
        \<and> pf_json_feedback_parse P (pf_json_feedback_print P f) = Some f)"

definition stamp_ok :: "platform \<Rightarrow> timestamp \<Rightarrow> bool" where
  "stamp_ok P t = (plain_value (ts_raw t) \<and> ts_new P (ts_raw t) = t)"

definition hex_text :: "string \<Rightarrow> bool" where
  "hex_text s = (s \<noteq> [] \<and> valid_utf8 s)"

text \<open>A note the writer writes in full: not a local draft, texts in stored form, a known
  actor, a confidence in range.\<close>

definition note_ok :: "platform \<Rightarrow> ticket_note \<Rightarrow> bool" where
  "note_ok P n =
     (n_kind n \<noteq> FeedbackDraft \<and> stored_text (n_text n)
      \<and> stamp_ok P (n_created_at n) \<and> stamp_ok P (n_edited_at n)
      \<and> is_none_or (n_summary n) hex_text
      \<and> is_none_or (n_confidence n) (\<lambda>c. confidence_get c \<le> CONFIDENCE_MAX)
      \<and> is_none_or (n_actor n) (\<lambda>a. na_role a \<noteq> UnknownRole \<and> is_none_or (na_id a) hex_text))"

lemma plain_encode: "s \<noteq> [] \<Longrightarrow> plain_value (encode_note_summary s)"
  using encode_chars[of "last (encode_note_summary s)" s]
  by (simp add: plain_value_def ws_free_encode)

lemma plain_show_nat: "plain_value (show_nat n)"
proof -
  have "is_ascii_digit (last (show_nat n))"
    using show_nat_digits[of n] by (simp add: list_all_iff)
  then have "last (show_nat n) \<noteq> CHR '':''" by (auto simp: is_ascii_digit_def Let_def)
  then show ?thesis by (simp add: plain_value_def ws_free_digits show_nat_digits)
qed

lemma plain_literals:
  "plain_value ''true''" "k \<noteq> Regular \<Longrightarrow> plain_value (note_kind_str k)"
  "plain_value (actor_role_str r)"
  by (simp add: plain_value_def ascii_ws_def wide_ws2_def wide_ws3_def)
    (cases k; cases r; simp add: plain_value_def ascii_ws_def wide_ws2_def wide_ws3_def)+

lemma confidence_from_show:
  assumes "confidence_get c \<le> CONFIDENCE_MAX"
  shows "confidence_from_str (show_nat (confidence_get c)) = Inr c"
proof -
  let ?n = "confidence_get c"
  have "?n \<le> 100" using assms by (simp add: CONFIDENCE_MAX_def)
  then have u: "unat (of_nat ?n :: 64 word) = ?n" by (simp add: unat_of_nat)
  have "confidence_from_str (show_nat ?n) = confidence_new (of_nat ?n)"
    using \<open>?n \<le> 100\<close> show_nat_digits[of ?n]
    by (simp add: confidence_from_str_def Let_def ws_free_trim ws_free_digits)
  also have "\<dots> = Inr c"
    using assms \<open>?n \<le> 100\<close> unfolding confidence_new_def u by simp
  finally show ?thesis .
qed

lemma parse_kind_str: "k \<noteq> FeedbackDraft \<Longrightarrow> parse_note_kind (note_kind_str k) = k"
  by (cases k) (simp_all add: parse_note_kind_def)

lemma parse_role_str: "r \<noteq> UnknownRole \<Longrightarrow> parse_actor_role (actor_role_str r) = Some r"
  by (cases r) (simp_all add: parse_actor_role_def)

lemma note_fields_plain:
  assumes "note_ok P n" "ulid_text_plain P" "json_feedback_codec P"
  shows "list_all (\<lambda>f. is_none_or (snd f) plain_value) (note_fields P n)"
  using assms
  by (auto simp: note_fields_def note_ok_def stamp_ok_def hex_text_def is_none_or_iff ulid_text_plain_def
      json_feedback_codec_def plain_literals plain_show_nat plain_encode opt_filter_def
      split: option.splits if_splits)

lemma note_field_names:
  "distinct (map fst (note_fields P n))" "\<forall>k \<in> fst ` set (note_fields P n). field_name k"
  by (simp_all add: note_fields_def field_name_def ascii_ws_def wide_ws2_def wide_ws3_def)

lemma note_value:
  assumes "note_ok P n" "ulid_text_plain P" "json_feedback_codec P" "k \<in> fst ` set (note_fields P n)"
  shows "value_after k (fields_tokens (note_fields P n)) = Option.bind (map_of (note_fields P n) k) id"
  using assms by (intro value_after_fields note_fields_plain note_field_names(1))
    (use note_field_names(2) in blast)+

text \<open>The metadata of a written note.\<close>

definition metadata_of :: "ticket_note \<Rightarrow> note_metadata" where
  "metadata_of n =
     \<lparr>md_id = n_id n, md_kind = n_kind n, md_kind_explicit = n_kind_explicit n,
      md_created_at = Some (n_created_at n), md_edited_at = Some (n_edited_at n),
      md_summary = n_summary n, md_confidence = n_confidence n,
      md_feedback_for = n_feedback_for n, md_feedback_request = n_feedback_request n,
      md_response_to = n_response_to n, md_ai_feedback = n_ai_feedback n,
      md_human_edited = n_human_edited n, md_actor = n_actor n\<rparr>"

lemma note_values:
  assumes "note_ok P n" "ulid_text_plain P" "json_feedback_codec P"
  defines "toks \<equiv> fields_tokens (note_fields P n)"
  shows "value_after ''kind:'' toks = (if n_kind n \<noteq> Regular then Some (note_kind_str (n_kind n)) else None)"
    "value_after ''created_at:'' toks = Some (ts_raw (n_created_at n))"
    "value_after ''edited_at:'' toks = Some (ts_raw (n_edited_at n))"
    "value_after ''summary_hex:'' toks = map_option encode_note_summary (n_summary n)"
    "value_after ''confidence:'' toks = map_option (\<lambda>c. show_nat (confidence_get c)) (n_confidence n)"
    "value_after ''feedback_for:'' toks = map_option (pf_ulid_to_string P) (n_feedback_for n)"
    "value_after ''kind_explicit:'' toks = (if n_kind_explicit n then Some ''true'' else None)"
    "value_after ''feedback_request:'' toks = (if n_feedback_request n then Some ''true'' else None)"
    "value_after ''response_to:'' toks = map_option (pf_ulid_to_string P) (n_response_to n)"
    "value_after ''ai_feedback_hex:'' toks =
       map_option (\<lambda>f. encode_note_summary (pf_json_feedback_print P f)) (n_ai_feedback n)"
    "value_after ''human_edited:'' toks = (if n_human_edited n then Some ''true'' else None)"
    "value_after ''actor:'' toks = map_option (\<lambda>a. actor_role_str (na_role a)) (written_actor n)"
    "value_after ''actor_id_hex:'' toks = map_option encode_note_summary
         (opt_filter (\<lambda>i. i \<noteq> []) (Option.bind (written_actor n) na_id))"
  unfolding toks_def
  by (subst note_value[OF assms(1-3)]; simp add: note_fields_def)+

lemma decode_opt_encode:
  "is_none_or v hex_text \<Longrightarrow> decode_opt (map_option encode_note_summary v) = Inr v"
  by (cases v) (simp_all add: decode_opt_def decode_encode hex_text_def)

lemma parse_actor_written:
  assumes "note_ok P n" "ulid_text_plain P" "json_feedback_codec P"
  shows "parse_note_actor (fields_tokens (note_fields P n)) = Inr (n_actor n)"
proof (cases "n_actor n")
  case None
  then show ?thesis by (simp add: parse_note_actor_def note_values[OF assms] written_actor_def)
next
  case (Some a)
  have a: "na_role a \<noteq> UnknownRole" "is_none_or (na_id a) hex_text"
    using assms(1) Some by (simp_all add: note_ok_def)
  then have w: "written_actor n = Some a" using Some by (simp add: written_actor_def)
  have "opt_filter (\<lambda>i. i \<noteq> []) (na_id a) = na_id a"
    using a(2) by (cases "na_id a") (simp_all add: hex_text_def)
  then show ?thesis
    using a Some
    by (simp add: parse_note_actor_def note_values[OF assms] w parse_role_str decode_opt_encode)
qed

lemma parse_metadata_written:
  assumes "note_ok P n" "ulid_text_plain P" "json_feedback_codec P" "ulid_text_parses P"
  shows "parse_note_metadata P (n_id n) (fields_tokens (note_fields P n)) = Inr (metadata_of n)"
proof -
  note vals = note_values[OF assms(1-3)]
  have summary: "decode_opt (map_option encode_note_summary (n_summary n)) = Inr (n_summary n)"
    using assms(1) by (simp add: decode_opt_encode note_ok_def)
  have feedback: "decode_opt (map_option (\<lambda>f. encode_note_summary (pf_json_feedback_print P f))
      (n_ai_feedback n)) = Inr (map_option (pf_json_feedback_print P) (n_ai_feedback n))"
    using assms(3) by (cases "n_ai_feedback n")
      (simp_all add: decode_opt_def decode_encode json_feedback_codec_def)
  have json: "Option.bind (map_option (pf_json_feedback_print P) (n_ai_feedback n))
      (pf_json_feedback_parse P) = n_ai_feedback n"
    using assms(3) by (cases "n_ai_feedback n") (simp_all add: json_feedback_codec_def)
  have conf: "Option.bind (map_option (\<lambda>c. show_nat (confidence_get c)) (n_confidence n))
      (\<lambda>v. result_ok (confidence_from_str v)) = n_confidence n"
    using assms(1) by (cases "n_confidence n")
      (simp_all add: note_ok_def confidence_from_show result_ok_def)
  have ulid: "Option.bind (map_option (pf_ulid_to_string P) v) (pf_ulid_from_string P) = v" for v
    using assms(4) by (cases v) (simp_all add: ulid_text_parses_def)
  have stamps: "ts_new P (ts_raw (n_created_at n)) = n_created_at n"
    "ts_new P (ts_raw (n_edited_at n)) = n_edited_at n"
    using assms(1) by (simp_all add: note_ok_def stamp_ok_def)
  have kind: "(case if n_kind n \<noteq> Regular then Some (note_kind_str (n_kind n)) else None of
      None \<Rightarrow> Regular | Some k \<Rightarrow> parse_note_kind k) = n_kind n"
    using assms(1) by (simp add: note_ok_def parse_kind_str)
  show ?thesis
    unfolding parse_note_metadata_def vals summary feedback parse_actor_written[OF assms(1-3)]
      result_bind_simps json conf ulid kind
    by (simp add: metadata_of_def stamps)
qed

lemma build_note_written:
  "b \<noteq> [] \<Longrightarrow> build_note P (metadata_of n) b = Some (n\<lparr>n_text := b\<rparr>)"
  by (simp add: build_note_def metadata_of_def)

text \<open>The tokens of the marker are tokens, so the marker's text splits back into them.\<close>

lemma fields_tokens_tokens:
  "list_all (\<lambda>f. is_none_or (snd f) plain_value) fs \<Longrightarrow> list_all (\<lambda>f. field_name (fst f)) fs \<Longrightarrow>
     list_all (\<lambda>t. token t) (fields_tokens fs)"
  by (induction fs rule: fields_tokens.induct)
    (auto simp: opt_token_def plain_value_def field_name_def split: option.splits)

lemma note_tokens_tokens:
  assumes "note_ok P n" "ulid_text_plain P" "json_feedback_codec P"
  shows "list_all (\<lambda>t. token t) (note_tokens P n)"
proof -
  have "list_all (\<lambda>f. field_name (fst f)) (note_fields P n)"
    using note_field_names(2)[of P n] by (auto simp: list_all_iff)
  from fields_tokens_tokens[OF note_fields_plain[OF assms] this] assms(2)
  show ?thesis by (simp add: note_tokens_fields ulid_text_plain_def plain_value_def)
qed

lemma parse_bounded_metadata_written:
  assumes "note_ok P n" "ulid_text_plain P" "json_feedback_codec P" "ulid_text_parses P"
  shows "parse_bounded_note_metadata P (join '' '' (note_tokens P n)) = Inr (Some (metadata_of n))"
  using split_whitespace_join[OF note_tokens_tokens[OF assms(1-3)]] assms(4)
    parse_metadata_written[OF assms]
  by (simp add: parse_bounded_note_metadata_def note_tokens_fields ulid_text_parses_def)

subsection \<open>Marker lines\<close>

text \<open>The rest of a text after a marker line: nothing, or a newline and more.\<close>

definition line_end :: "string \<Rightarrow> string \<Rightarrow> bool" where
  "line_end tail after = (tail = [] \<and> after = [] \<or> tail = CHR 10 # after)"

lemma split_marker_lines_at:
  assumes "list_all (\<lambda>l. CHR 10 \<notin> set l \<and> \<not> p l) ls" "CHR 10 \<notin> set m" "m \<noteq> []" "p m"
    "line_end tail after"
  shows "split_marker_lines p (split_inclusive_nl (concat (map (\<lambda>l. l @ [CHR 10]) ls) @ m @ tail))
     = Some (concat (map (\<lambda>l. l @ [CHR 10]) ls), m, after)"
  using assms(1)
proof (induction ls)
  case Nil
  from assms(5) show ?case
  proof (cases "tail = []")
    case True
    with assms show ?thesis
      by (simp add: split_inclusive_nl_single bare_line_id line_end_def)
  next
    case False
    with assms show ?thesis
      by (simp add: split_inclusive_nl_append_line line_end_def)
  qed
next
  case (Cons l ls)
  then show ?case by (simp add: split_inclusive_nl_append_line)
qed

lemma split_once_marker_line_at:
  assumes "list_all (\<lambda>l. CHR 10 \<notin> set l \<and> l \<noteq> m) ls" "CHR 10 \<notin> set m" "m \<noteq> []" "line_end tail after"
  shows "split_once_marker_line (concat (map (\<lambda>l. l @ [CHR 10]) ls) @ m @ tail) m
     = Some (concat (map (\<lambda>l. l @ [CHR 10]) ls), after)"
  using split_marker_lines_at[of "\<lambda>l. l = m" ls m tail after] assms
  by (simp add: split_once_marker_line_def)

lemma marker_lines_facts:
  "CHR 10 \<notin> set BODY_BEGIN" "CHR 10 \<notin> set BODY_END" "CHR 10 \<notin> set NOTES_BEGIN"
  "CHR 10 \<notin> set NOTES_END" "CHR 10 \<notin> set NOTE_END" "CHR 10 \<notin> set NOTE_BEGIN_PREFIX"
  "starts_with marker_stem BODY_BEGIN" "starts_with marker_stem BODY_END"
  "starts_with marker_stem NOTES_BEGIN" "starts_with marker_stem NOTES_END"
  "starts_with marker_stem NOTE_END" "starts_with marker_stem (NOTE_BEGIN_PREFIX @ r)"
  by (simp_all add: marker_defs)

lemma markers_nonempty [simp]:
  "BODY_BEGIN \<noteq> []" "BODY_END \<noteq> []" "NOTES_BEGIN \<noteq> []" "NOTES_END \<noteq> []" "NOTE_END \<noteq> []"
  by (simp_all add: marker_defs)

text \<open>Escaped lines are never marker lines.\<close>

lemma escaped_lines:
  assumes "stored_text t"
  shows "escape_content t @ [CHR 10] = concat (map (\<lambda>l. l @ [CHR 10]) (map escape_line (lines t)))"
    "list_all (\<lambda>l. CHR 10 \<notin> set l \<and> \<not> starts_with marker_stem l) (map escape_line (lines t))"
proof -
  have ls: "line_list (lines t)" using stored_text_lines[OF assms] by blast
  then have "map escape_line (lines t) \<noteq> []" by (simp add: line_list_def)
  from join_nl_concat[OF this]
  show "escape_content t @ [CHR 10] = concat (map (\<lambda>l. l @ [CHR 10]) (map escape_line (lines t)))"
    by (simp add: escape_content_def)
  show "list_all (\<lambda>l. CHR 10 \<notin> set l \<and> \<not> starts_with marker_stem l) (map escape_line (lines t))"
    using line_list_escape[OF ls] escape_line_no_stem
    by (auto simp: line_list_def list_all_iff)
qed

lemma list_all_no_marker:
  assumes "list_all (\<lambda>l. CHR 10 \<notin> set l \<and> \<not> starts_with marker_stem l) ls" "starts_with marker_stem m"
  shows "list_all (\<lambda>l. CHR 10 \<notin> set l \<and> l \<noteq> m) ls"
  using assms by (auto simp: list_all_iff)

subsection \<open>One note\<close>

definition note_header :: "platform \<Rightarrow> ticket_note \<Rightarrow> string" where
  "note_header P n = NOTE_BEGIN_PREFIX @ join '' '' (note_tokens P n) @ '' -->''"

definition note_block :: "platform \<Rightarrow> ticket_note \<Rightarrow> string" where
  "note_block P n = note_header P n @ nl @ escape_content (n_text n) @ nl @ NOTE_END"

lemma note_to_string_block: "note_to_string P n = nl @ note_block P n @ nl"
  by (simp add: note_to_string_def note_block_def note_header_def)

lemma ws_free_no_nl: "ws_free t \<Longrightarrow> CHR 10 \<notin> set t"
  by (induction t) auto

lemma set_join: "set (join sep xs) \<subseteq> set sep \<union> \<Union> (set ` set xs)"
  by (induction xs) (auto simp: join_Cons)

lemma note_header_no_nl:
  assumes "note_ok P n" "ulid_text_plain P" "json_feedback_codec P"
  shows "CHR 10 \<notin> set (note_header P n)"
proof -
  have "CHR 10 \<notin> set t" if "t \<in> set (note_tokens P n)" for t
    using note_tokens_tokens[OF assms] that ws_free_no_nl by (auto simp: list_all_iff)
  then have "CHR 10 \<notin> set (join '' '' (note_tokens P n))"
    using set_join[of "'' ''" "note_tokens P n"] by force
  then show ?thesis by (simp add: note_header_def marker_lines_facts)
qed

lemma trimmed_join_tokens:
  assumes "list_all (\<lambda>t. token t) ts" "ts \<noteq> []"
  shows "trimmed (join '' '' ts)"
proof -
  obtain x xs where x: "ts = x # xs" using assms(2) by (cases ts) auto
  obtain ys y where y: "ts = ys @ [y]" using assms(2) by (cases ts rule: rev_cases) auto
  have "ws_len x = 0" "x \<noteq> []" using assms(1) x by (cases x; auto)+
  then have "ws_len (join '' '' ts) = 0" "join '' '' ts \<noteq> []"
    using ws_len_stop[of "CHR 32" x "join '' '' xs"] x by (simp_all add: join_Cons)
  moreover have "ws_len_rev (rev y) = 0" "y \<noteq> []" using assms(1) y ws_free_rev by auto
  then have "ws_len_rev (rev (join '' '' ts)) = 0"
    using ws_len_rev_stop[of "CHR 32" "rev y" "rev (join '' '' ys)"] y
    by (cases "ys = []") (simp_all add: join_snoc)
  ultimately show ?thesis by (simp add: trimmed_def)
qed

lemma trim_end_blank: "trim_end (s @ [CHR 32]) = trim_end s"
proof -
  have "ws_len_rev (CHR 32 # rev s) = 1"
    by (cases "CHR 32 # rev s" rule: ws_len_rev.cases; simp add: ascii_ws_def)
  then show ?thesis by (simp add: trim_end_def trim_end_rev.simps[of "CHR 32 # rev s"])
qed

lemma trim_blank_right: "trimmed s \<Longrightarrow> trim (s @ [CHR 32]) = s"
  using ws_len_stop[of "CHR 32" s "[]"]
  by (simp add: trimmed_def trim_def trim_start_id trim_end_blank trim_end_id)

text \<open>What the loop reads off one block, and how it continues.\<close>

lemma parse_one_note:
  assumes ok: "note_ok P n" "ulid_text_plain P" "json_feedback_codec P" "ulid_text_parses P"
    and tail: "line_end tail after"
  shows "parse_bounded_notes_loop P (note_block P n @ tail)
     = result_bind (parse_bounded_notes_loop P after) (\<lambda>ns. Inr (n # ns))"
proof -
  let ?toks = "join '' '' (note_tokens P n)" and ?esc = "escape_content (n_text n)"
  let ?content = "?esc @ nl @ NOTE_END @ tail"
  have st: "stored_text (n_text n)" using ok(1) by (simp add: note_ok_def)
  have "split_once_prefixed_marker_line (note_block P n @ tail) NOTE_BEGIN_PREFIX
      = Some ([], note_header P n, ?content)"
    using split_marker_lines_at[of "starts_with NOTE_BEGIN_PREFIX" "[]" "note_header P n"
        "CHR 10 # ?content" ?content] note_header_no_nl[OF ok(1-3)]
    by (simp add: split_once_prefixed_marker_line_def note_block_def note_header_def line_end_def nl_def)
  moreover have "Option.bind (strip_prefix NOTE_BEGIN_PREFIX (note_header P n)) (strip_suffix ''-->'')
      = Some (?toks @ [CHR 32])"
    using strip_suffix_append[of "''-->''" "?toks @ [CHR 32]"] by (simp add: note_header_def)
  moreover have "split_once_marker_line ?content NOTE_END = Some (?esc @ [CHR 10], after)"
    using split_once_marker_line_at[OF list_all_no_marker[OF escaped_lines(2)[OF st] marker_lines_facts(11)]
        marker_lines_facts(5) markers_nonempty(5) tail]
    unfolding escaped_lines(1)[OF st, symmetric] by (simp add: nl_def)
  moreover have "trim (?toks @ [CHR 32]) = ?toks"
    using trimmed_join_tokens[OF note_tokens_tokens[OF ok(1-3)]]
    by (intro trim_blank_right) (simp add: note_tokens_fields)
  moreover have "trim (?esc @ [CHR 10]) = ?esc" "?esc \<noteq> []"
    using trim_nl_right[OF trimmed_escape[OF st]] trimmed_escape[OF st] by (simp_all add: trimmed_def)
  ultimately show ?thesis
    using unescape_escape[OF st] build_note_written[of ?esc P n]
    by (subst parse_bounded_notes_loop.simps) (simp add: parse_bounded_metadata_written[OF ok])
qed

subsection \<open>The notes section\<close>

lemma parse_skip_blank: "parse_bounded_notes_loop P (CHR 10 # rest) = parse_bounded_notes_loop P rest"
proof -
  have "split_once_prefixed_marker_line (CHR 10 # rest) NOTE_BEGIN_PREFIX =
      map_option (\<lambda>(b, m, a). (CHR 10 # b, m, a)) (split_once_prefixed_marker_line rest NOTE_BEGIN_PREFIX)"
    using bare_line_nl[of "[]"]
    by (simp add: split_once_prefixed_marker_line_def NOTE_BEGIN_PREFIX_def)
  then show ?thesis
    by (subst (1 2) parse_bounded_notes_loop.simps)
      (simp split: option.split prod.split)
qed

lemma parse_notes_chain:
  assumes "list_all (note_ok P) ns" "ulid_text_plain P" "json_feedback_codec P" "ulid_text_parses P"
  shows "parse_bounded_notes_loop P (join nl (map (\<lambda>n. nl @ note_block P n) ns)) = Inr ns"
  using assms(1)
proof (induction ns)
  case Nil
  show ?case
    by (subst parse_bounded_notes_loop.simps) (simp add: split_once_prefixed_marker_line_def)
next
  case (Cons n ns)
  then have n: "note_ok P n" by simp
  let ?rest = "join nl (map (\<lambda>n. nl @ note_block P n) ns)"
  show ?case
  proof (cases "ns = []")
    case True
    then show ?thesis
      using parse_one_note[OF n assms(2-), of "[]" "[]"] Cons
      by (simp add: nl_def parse_skip_blank line_end_def)
  next
    case False
    then show ?thesis
      using parse_one_note[OF n assms(2-), of "CHR 10 # ?rest" ?rest] Cons
      by (simp add: nl_def parse_skip_blank line_end_def join_Cons)
  qed
qed

text \<open>The section between the notes markers, as the lines it consists of.\<close>

definition section_text :: "platform \<Rightarrow> ticket_note list \<Rightarrow> string" where
  "section_text P ns = ''## Notes'' @ nl @ concat (map (note_to_string P) ns)"

lemma concat_notes:
  "ns \<noteq> [] \<Longrightarrow> concat (map (note_to_string P) ns)
     = join nl (map (\<lambda>n. nl @ note_block P n) ns) @ [CHR 10]"
  by (induction ns) (auto simp: note_to_string_block join_Cons nl_def)

lemma trimmed_marker: "trimmed BODY_BEGIN" "trimmed BODY_END" "trimmed NOTES_BEGIN" "trimmed NOTES_END"
  "trimmed NOTE_END" "trimmed ''## Notes''"
  by (simp_all add: trimmed_def marker_defs ascii_ws_def wide_ws2_def wide_ws3_def)

lemma section_trimmed:
  assumes "ns \<noteq> []"
  shows "trim (section_text P ns) = ''## Notes'' @ nl @ join nl (map (\<lambda>n. nl @ note_block P n) ns)"
proof -
  let ?chain = "join nl (map (\<lambda>n. nl @ note_block P n) ns)"
  obtain ms n where ns: "ns = ms @ [n]" using assms by (cases ns rule: rev_cases) auto
  have "\<exists>m. ?chain = m @ CHR 10 # NOTE_END"
  proof (cases "ms = []")
    case True
    with ns show ?thesis by (simp add: note_block_def nl_def)
  next
    case False
    then have "?chain = join nl (map (\<lambda>n. nl @ note_block P n) ms) @ nl @ nl @ note_block P n"
      using ns by (simp add: join_snoc)
    then show ?thesis by (simp add: note_block_def nl_def) 
  qed
  then obtain m where m: "?chain = m @ CHR 10 # NOTE_END" by blast
  have "section_text P ns = (''## Notes'' @ CHR 10 # m @ CHR 10 # NOTE_END) @ [CHR 10]"
    using concat_notes[OF assms, of P] m by (simp add: section_text_def nl_def)
  with trim_nl_right[OF trimmed_lines(1)[OF trimmed_marker(6,5)], of m] m show ?thesis
    by (simp add: nl_def)
qed

lemma parse_section:
  assumes "list_all (note_ok P) ns" "ns \<noteq> []" "ulid_text_plain P" "json_feedback_codec P"
    "ulid_text_parses P"
  shows "parse_bounded_notes P (section_text P ns) = Inr ns"
proof -
  have "strip_prefix ''## Notes'' (trim (section_text P ns))
      = Some (CHR 10 # join nl (map (\<lambda>n. nl @ note_block P n) ns))"
    unfolding section_trimmed[OF assms(2)] strip_prefix_append by (simp add: nl_def)
  then show ?thesis
    using parse_notes_chain[OF assms(1,3-)] by (simp add: parse_bounded_notes_def parse_skip_blank)
qed

text \<open>No line of the section is the closing marker.\<close>

definition note_lines :: "platform \<Rightarrow> ticket_note \<Rightarrow> string list" where
  "note_lines P n = [[], note_header P n] @ map escape_line (lines (n_text n)) @ [NOTE_END]"

lemma note_to_string_lines:
  "stored_text (n_text n) \<Longrightarrow>
     note_to_string P n = concat (map (\<lambda>l. l @ [CHR 10]) (note_lines P n))"
  using escaped_lines(1)[of "n_text n"]
  by (simp add: note_to_string_block note_block_def note_lines_def nl_def)

lemma concat_note_lines:
  "list_all (note_ok P) ns \<Longrightarrow> concat (map (note_to_string P) ns)
     = concat (map (\<lambda>l. l @ [CHR 10]) (concat (map (note_lines P) ns)))"
  by (induction ns) (simp_all add: note_to_string_lines note_ok_def)

lemma section_lines:
  assumes "list_all (note_ok P) ns" "ulid_text_plain P" "json_feedback_codec P"
  shows "\<exists>ls. section_text P ns = concat (map (\<lambda>l. l @ [CHR 10]) ls)
     \<and> list_all (\<lambda>l. CHR 10 \<notin> set l \<and> l \<noteq> NOTES_END) ls"
proof -
  let ?ls = "''## Notes'' # concat (map (note_lines P) ns)"
  have "section_text P ns = concat (map (\<lambda>l. l @ [CHR 10]) ?ls)"
    by (simp add: section_text_def nl_def concat_note_lines[OF assms(1)])
  moreover have "list_all (\<lambda>l. CHR 10 \<notin> set l \<and> l \<noteq> NOTES_END) (note_lines P n)" if "n \<in> set ns" for n
  proof -
    have n: "note_ok P n" using assms(1) that by (simp add: list_all_iff)
    then have "stored_text (n_text n)" by (simp add: note_ok_def)
    from list_all_no_marker[OF escaped_lines(2)[OF this] marker_lines_facts(10)]
      note_header_no_nl[OF n assms(2,3)]
    show ?thesis
      by (simp add: note_lines_def marker_lines_facts) (simp add: note_header_def marker_defs)
  qed
  then have "list_all (\<lambda>l. CHR 10 \<notin> set l \<and> l \<noteq> NOTES_END) ?ls"
    by (auto simp: list_all_iff NOTES_END_def)
  ultimately show ?thesis by blast
qed

subsection \<open>The bounded content\<close>

text \<open>Body and notes in the form the writer leaves them in.\<close>

definition content_ok :: "platform \<Rightarrow> ticket \<Rightarrow> bool" where
  "content_ok P t =
     ((t_details t = [] \<or> stored_text (t_details t)) \<and> list_all (note_ok P) (t_notes t))"

definition body_text :: "ticket \<Rightarrow> string" where
  "body_text t = (if t_details t = [] then [] else escape_content (t_details t) @ [CHR 10])"

definition notes_text :: "platform \<Rightarrow> ticket \<Rightarrow> string" where
  "notes_text P t =
     (if t_notes t = [] then []
      else CHR 10 # NOTES_BEGIN @ CHR 10 # section_text P (t_notes t) @ NOTES_END @ [CHR 10])"

lemma content_to_string_parts:
  assumes "content_ok P t"
  shows "content_to_string P t =
     CHR 10 # BODY_BEGIN @ CHR 10 # body_text t @ BODY_END @ CHR 10 # notes_text P t"
proof -
  have "written_notes t = t_notes t"
    using assms by (auto simp: written_notes_def content_ok_def list_all_iff note_ok_def stored_text_def
        trimmed_iff intro!: filter_True)
  moreover have "trim (t_details t) = t_details t"
    using assms by (auto simp: content_ok_def stored_text_def trimmed_trim)
  ultimately show ?thesis
    by (simp add: content_to_string_def body_text_def notes_text_def notes_to_string_def
        section_text_def nl_def Let_def)
qed

lemma split_body:
  assumes "content_ok P t"
  shows "split_once_marker_line (body_text t @ BODY_END @ CHR 10 # r) BODY_END = Some (body_text t, r)"
    "unescape_content (trim (body_text t)) = t_details t"
proof -
  let ?d = "t_details t"
  have "split_once_marker_line (body_text t @ BODY_END @ CHR 10 # r) BODY_END = Some (body_text t, r)
      \<and> unescape_content (trim (body_text t)) = ?d"
  proof (cases "?d = []")
    case True
    then show ?thesis
      using split_once_marker_line_at[of BODY_END "[]" "CHR 10 # r" r]
      by (simp add: body_text_def line_end_def marker_lines_facts unescape_content_def lines_def)
  next
    case False
    with assms have st: "stored_text ?d" by (simp add: content_ok_def)
    from split_once_marker_line_at[OF list_all_no_marker[OF escaped_lines(2)[OF st] marker_lines_facts(8)]
        marker_lines_facts(2) markers_nonempty(2), of "CHR 10 # r" r]
    show ?thesis unfolding escaped_lines(1)[OF st, symmetric]
      using False trim_nl_right[OF trimmed_escape[OF st]]
      by (simp add: body_text_def line_end_def unescape_escape[OF st])
  qed
  then show "split_once_marker_line (body_text t @ BODY_END @ CHR 10 # r) BODY_END = Some (body_text t, r)"
    "unescape_content (trim (body_text t)) = ?d" by blast+
qed

lemma trim_notes_text:
  assumes "t_notes t \<noteq> []"
  shows "trim (notes_text P t) = NOTES_BEGIN @ CHR 10 # section_text P (t_notes t) @ NOTES_END"
proof -
  let ?sec = "section_text P (t_notes t)"
  obtain m where m: "?sec = m @ [CHR 10]"
    using concat_notes[OF assms, of P] by (simp add: section_text_def)
  have "notes_text P t = CHR 10 # (NOTES_BEGIN @ CHR 10 # m @ CHR 10 # NOTES_END) @ [CHR 10]"
    using assms m by (simp add: notes_text_def)
  then show ?thesis
    using trim_nl_right[OF trimmed_lines(1)[OF trimmed_marker(3,4)], of m] m by simp
qed

lemma parse_content_written:
  assumes "content_ok P t" "ulid_text_plain P" "json_feedback_codec P" "ulid_text_parses P"
  shows "parse_content P (content_to_string P t) = Inr (t_details t, t_notes t)"
proof -
  let ?c = "content_to_string P t"
  let ?body = "body_text t @ BODY_END @ CHR 10 # notes_text P t"
  have c: "?c = CHR 10 # BODY_BEGIN @ CHR 10 # ?body"
    using content_to_string_parts[OF assms(1)] by simp
  have "trim_start ?c = BODY_BEGIN @ CHR 10 # ?body"
    using ws_len_stop[of "CHR 10" BODY_BEGIN ?body] trimmed_marker(1)
    by (simp add: c trim_start_id trimmed_def)
  then have bounded: "parse_content P ?c = parse_bounded_content P ?c"
    by (simp add: parse_content_def)
  have start: "split_once_marker_line ?c BODY_BEGIN = Some ([CHR 10], ?body)"
    using split_once_marker_line_at[of BODY_BEGIN "[[]]" "CHR 10 # ?body" ?body]
    by (simp add: c marker_lines_facts line_end_def)
  show ?thesis
  proof (cases "t_notes t = []")
    case True
    then have "notes_text P t = []" by (simp add: notes_text_def)
    then show ?thesis
      unfolding bounded parse_bounded_content_def start
      using split_body(1)[OF assms(1), of "[]"] split_body(2)[OF assms(1)] True by simp
  next
    case False
    let ?sec = "section_text P (t_notes t)"
    have ns: "list_all (note_ok P) (t_notes t)" using assms(1) by (simp add: content_ok_def)
    note rest = trim_notes_text[OF False, of P]
    have "split_once_marker_line (NOTES_BEGIN @ CHR 10 # ?sec @ NOTES_END) NOTES_BEGIN
        = Some ([], ?sec @ NOTES_END)"
      using split_once_marker_line_at[of NOTES_BEGIN "[]" "CHR 10 # ?sec @ NOTES_END" "?sec @ NOTES_END"]
      by (simp add: marker_lines_facts line_end_def)
    moreover obtain ls where "?sec = concat (map (\<lambda>l. l @ [CHR 10]) ls)"
      "list_all (\<lambda>l. CHR 10 \<notin> set l \<and> l \<noteq> NOTES_END) ls"
      using section_lines[OF ns assms(2,3)] by blast
    then have "split_once_marker_line (?sec @ NOTES_END) NOTES_END = Some (?sec, [])"
      using split_once_marker_line_at[of NOTES_END ls "[]" "[]"]
      by (simp add: marker_lines_facts line_end_def)
    ultimately show ?thesis
      unfolding bounded parse_bounded_content_def start
      using split_body(1)[OF assms(1), of "notes_text P t"] split_body(2)[OF assms(1)] parse_section[OF ns False assms(2-)]
      by (simp add: Let_def rest)
  qed
qed

subsection \<open>Plain newlines\<close>

lemma crlf_free_Cons:
  "crlf_free (c # s) \<longleftrightarrow> \<not> (c = CHR 13 \<and> s \<noteq> [] \<and> hd s = CHR 10) \<and> crlf_free s"
  by (cases s) (auto simp: crlf_free_def contains_sub_def is_some_iff)

lemma crlf_free_Nil [simp]: "crlf_free []"
  by (simp add: crlf_free_def contains_sub_def)

lemma crlf_free_append:
  "crlf_free a \<Longrightarrow> crlf_free b \<Longrightarrow> a = [] \<or> last a \<noteq> CHR 13 \<Longrightarrow> crlf_free (a @ b)"
  by (induction a) (auto simp: crlf_free_Cons hd_append split: if_splits)

lemma crlf_free_no_nl: "CHR 10 \<notin> set s \<Longrightarrow> crlf_free s"
  by (induction s) (auto simp: crlf_free_Cons dest: hd_in_set)

definition plain_line :: "string \<Rightarrow> bool" where
  "plain_line l = (CHR 10 \<notin> set l \<and> (l = [] \<or> last l \<noteq> CHR 13))"

lemma crlf_free_line: "plain_line l \<Longrightarrow> crlf_free r \<Longrightarrow> crlf_free (l @ CHR 10 # r)"
  by (rule crlf_free_append) (simp_all add: plain_line_def crlf_free_Cons crlf_free_no_nl)

lemma crlf_free_lines:
  "list_all plain_line ls \<Longrightarrow> crlf_free r \<Longrightarrow> crlf_free (concat (map (\<lambda>l. l @ [CHR 10]) ls) @ r)"
  by (induction ls) (auto intro: crlf_free_line)

lemma trimmed_last_cr: "trimmed t \<Longrightarrow> last t \<noteq> CHR 13"
proof (cases t rule: rev_cases)
  case (snoc u c)
  assume "trimmed t"
  moreover have "ws_len_rev (CHR 13 # r) = 1" for r
    by (cases "CHR 13 # r" rule: ws_len_rev.cases; simp add: ascii_ws_def)
  ultimately show ?thesis using snoc by (auto simp: trimmed_def)
qed (simp add: trimmed_def)

lemma last_join_last: "x \<noteq> [] \<Longrightarrow> last (join nl (xs @ [x])) = last x"
  by (cases "xs = []") (simp_all add: join_snoc)

lemma escaped_plain:
  assumes "stored_text t" shows "list_all plain_line (map escape_line (lines t))"
proof -
  let ?ls = "map escape_line (lines t)"
  have ll: "line_list ?ls" using line_list_escape stored_text_lines(1)[OF assms] by blast
  then obtain xs x where x: "?ls = xs @ [x]" by (cases ?ls rule: rev_cases) (auto simp: line_list_def)
  have "last (escape_content t) \<noteq> CHR 13" using trimmed_last_cr[OF trimmed_escape[OF assms]] .
  then have "last x \<noteq> CHR 13"
    using last_join_last[of x xs] ll x by (simp add: escape_content_def line_list_def)
  then show ?thesis using ll unfolding x by (auto simp: line_list_def plain_line_def list_all_iff)
qed

lemma note_plain:
  assumes "note_ok P n" "ulid_text_plain P" "json_feedback_codec P"
  shows "list_all plain_line (note_lines P n)"
proof -
  have "plain_line (note_header P n)"
    using note_header_no_nl[OF assms] by (simp add: plain_line_def note_header_def)
  moreover have "list_all plain_line (map escape_line (lines (n_text n)))"
    using assms(1) by (intro escaped_plain) (simp add: note_ok_def)
  ultimately show ?thesis by (simp add: note_lines_def plain_line_def NOTE_END_def)
qed

text \<open>The content as a list of plain lines.\<close>

lemma content_plain:
  assumes "content_ok P t" "ulid_text_plain P" "json_feedback_codec P"
  shows "\<exists>ls. content_to_string P t = concat (map (\<lambda>l. l @ [CHR 10]) ls) \<and> list_all plain_line ls"
proof -
  let ?body = "if t_details t = [] then [] else map escape_line (lines (t_details t))"
  let ?notes = "if t_notes t = [] then []
    else [[], NOTES_BEGIN, ''## Notes''] @ concat (map (note_lines P) (t_notes t)) @ [NOTES_END]"
  have ns: "list_all (note_ok P) (t_notes t)" using assms(1) by (simp add: content_ok_def)
  have b: "body_text t = concat (map (\<lambda>l. l @ [CHR 10]) ?body)" "list_all plain_line ?body"
    using assms(1) escaped_lines(1) escaped_plain by (auto simp: body_text_def content_ok_def)
  have n: "notes_text P t = concat (map (\<lambda>l. l @ [CHR 10]) ?notes)"
    by (simp add: notes_text_def section_text_def nl_def concat_note_lines[OF ns])
  have "list_all plain_line (concat (map (note_lines P) (t_notes t)))"
    using ns note_plain[OF _ assms(2,3)] by (auto simp: list_all_iff)
  then have np: "list_all plain_line ?notes" by (simp add: plain_line_def marker_defs)
  have "content_to_string P t
      = concat (map (\<lambda>l. l @ [CHR 10]) ([[], BODY_BEGIN] @ ?body @ [BODY_END] @ ?notes))"
    unfolding content_to_string_parts[OF assms(1)] b(1) n by simp
  moreover have "list_all plain_line ([[], BODY_BEGIN] @ ?body @ [BODY_END] @ ?notes)"
    using b(2) np by (simp add: plain_line_def BODY_BEGIN_def BODY_END_def)
  ultimately show ?thesis by blast
qed

subsection \<open>The frontmatter fence\<close>

lemma find_sub_skip_line:
  assumes "CHR 10 \<notin> set l" "\<not> starts_with (''---'' @ nl) X"
  shows "find_sub (nl @ ''---'' @ nl) (l @ CHR 10 # X)
     = map_option (\<lambda>i. i + Suc (length l)) (find_sub (nl @ ''---'' @ nl) X)"
  using assms(1)
proof (induction l)
  case Nil
  then show ?case using assms(2) by (simp add: nl_def)
next
  case (Cons c l)
  then show ?case by (auto simp: nl_def option.map_comp comp_def)
qed

lemma starts_with_line:
  "CHR 10 \<notin> set l \<Longrightarrow> CHR 10 \<notin> set p \<Longrightarrow> starts_with (p @ [CHR 10]) (l @ CHR 10 # X) \<Longrightarrow> l = p"
proof (induction p arbitrary: l)
  case Nil
  then show ?case by (cases l) auto
next
  case (Cons c p)
  then show ?case by (cases l) auto
qed

text \<open>YAML text as the printer emits it: complete lines, none of them the document fence.\<close>

definition fence_free :: "string list \<Rightarrow> bool" where
  "fence_free ls = (ls \<noteq> [] \<and> list_all (\<lambda>l. plain_line l \<and> l \<noteq> ''---'') ls)"

lemma split_fence:
  "fence_free ls \<Longrightarrow> split_once (nl @ ''---'' @ nl) (join nl ls @ nl @ ''---'' @ nl @ r) = Some (join nl ls, r)"
proof -
  let ?p = "nl @ ''---'' @ nl"
  have "fence_free ls \<Longrightarrow> find_sub ?p (join nl ls @ ?p @ r) = Some (length (join nl ls))"
  proof (induction ls)
    case Nil
    then show ?case by (simp add: fence_free_def)
  next
    case (Cons l ls)
    have l: "CHR 10 \<notin> set l" using Cons.prems by (simp add: fence_free_def plain_line_def)
    show ?case
    proof (cases "ls = []")
      case True
      have "find_sub ?p (l @ ?p @ r) = Some (length l)"
        using l
      proof (induction l)
        case Nil
        have "starts_with ?p (?p @ r)" by (rule starts_with_append)
        then show ?case by (simp add: nl_def)
      next
        case (Cons c l)
        then show ?case by (auto simp: nl_def)
      qed
      with True show ?thesis by simp
    next
      case False
      let ?X = "join nl ls @ ?p @ r"
      have ff: "fence_free ls" using Cons.prems False by (simp add: fence_free_def)
      obtain k ks where k: "ls = k # ks" using False by (cases ls) auto
      have "\<exists>Y. ?X = k @ CHR 10 # Y" unfolding k by (cases "ks = []") (auto simp: join_Cons nl_def)
      moreover have "CHR 10 \<notin> set k" "k \<noteq> ''---''" using ff k by (auto simp: fence_free_def plain_line_def)
      ultimately have "\<not> starts_with (''---'' @ nl) ?X"
        using starts_with_line[of k "''---''"] by (auto simp: nl_def)
      from find_sub_skip_line[OF l this] Cons.IH[OF ff] False show ?thesis
        by (simp add: join_Cons nl_def)
    qed
  qed
  then show "fence_free ls \<Longrightarrow> ?thesis" by (simp add: split_once_def nl_def)
qed

lemma split_frontmatter_written:
  assumes "fence_free ls" "crlf_free r"
  shows "split_frontmatter (''---'' @ nl @ (join nl ls @ nl) @ ''---'' @ nl @ r) = Inr (join nl ls, r)"
proof -
  let ?t = "''---'' @ nl @ (join nl ls @ nl) @ ''---'' @ nl @ r"
  have plain: "list_all plain_line ls" using assms(1) by (auto simp: fence_free_def list_all_iff)
  have t: "?t = concat (map (\<lambda>l. l @ [CHR 10]) (''---'' # ls @ [''---''])) @ r"
    using join_nl_concat[of ls] assms(1) by (simp add: fence_free_def nl_def)
  have "crlf_free ?t" unfolding t
    by (rule crlf_free_lines) (use plain assms(2) in \<open>simp_all add: plain_line_def\<close>)
  then have "crlf_to_lf ?t = ?t" by (rule crlf_to_lf_id)
  moreover have "strip_prefix bom ?t = None"
    by (cases "strip_prefix bom ?t") (auto simp: strip_prefix_Some bom_def)
  moreover have "strip_prefix (''---'' @ nl) ?t = Some ((join nl ls @ nl) @ ''---'' @ nl @ r)"
    using strip_prefix_append[of "''---'' @ nl" "(join nl ls @ nl) @ ''---'' @ nl @ r"] by simp
  ultimately show ?thesis
    unfolding split_frontmatter_def Let_def using split_fence[OF assms(1), of r] by simp
qed

subsection \<open>The frontmatter mapping\<close>

lemma map_of_mapping_insert: "map_of (mapping_insert k v m) = (map_of m)(k \<mapsto> v)"
  by (induction k v m rule: mapping_insert.induct) auto

lemma map_of_insert_extra:
  "map_of (fold (\<lambda>(k, v). mapping_insert (YString k) v) es m) (YString j)
     = (case map_of (rev es) j of Some v \<Rightarrow> Some v | None \<Rightarrow> map_of m (YString j))"
  by (induction es arbitrary: m) (auto simp: map_of_mapping_insert map_add_def split: option.splits)

lemma unknown_keys_Cons:
  "unknown_keys ((k, v) # m) =
     (case k of YString key \<Rightarrow> if key \<in> set KNOWN_KEYS then [] else [(key, v)] | _ \<Rightarrow> []) @ unknown_keys m"
  by (simp add: unknown_keys_def List.map_filter_simps split: yaml.split)

lemma unknown_keys_known: "fst ` set m \<subseteq> YString ` set KNOWN_KEYS \<Longrightarrow> unknown_keys m = []"
proof (induction m)
  case Nil
  then show ?case by (simp add: unknown_keys_def List.map_filter_simps)
next
  case (Cons e m)
  then show ?case by (cases e) (auto simp: unknown_keys_Cons)
qed

lemma unknown_keys_insert_known:
  "key \<in> set KNOWN_KEYS \<Longrightarrow> unknown_keys (mapping_insert (YString key) v m) = unknown_keys m"
proof (induction m)
  case Nil
  then show ?case by (simp add: unknown_keys_Cons unknown_keys_def List.map_filter_simps)
next
  case (Cons e m)
  then show ?case by (cases e) (simp add: unknown_keys_Cons)
qed

lemma unknown_keys_insert_new:
  "key \<notin> set KNOWN_KEYS \<Longrightarrow> YString key \<notin> fst ` set m \<Longrightarrow>
     unknown_keys (mapping_insert (YString key) v m) = unknown_keys m @ [(key, v)]"
proof (induction m)
  case Nil
  then show ?case by (simp add: unknown_keys_Cons unknown_keys_def List.map_filter_simps)
next
  case (Cons e m)
  then show ?case by (cases e) (auto simp: unknown_keys_Cons)
qed

lemma keys_mapping_insert: "fst ` set (mapping_insert k v m) = insert k (fst ` set m)"
  by (induction k v m rule: mapping_insert.induct) auto

lemma unknown_keys_extra:
  "distinct (map fst es) \<Longrightarrow> fst ` set es \<inter> set KNOWN_KEYS = {} \<Longrightarrow>
     YString ` (fst ` set es) \<inter> fst ` set m = {} \<Longrightarrow>
     unknown_keys (fold (\<lambda>(k, v). mapping_insert (YString k) v) es m) = unknown_keys m @ es"
proof (induction es arbitrary: m)
  case Nil
  then show ?case by simp
next
  case (Cons e es)
  obtain k v where e: "e = (k, v)" by force
  have "unknown_keys (mapping_insert (YString k) v m) = unknown_keys m @ [(k, v)]"
    by (rule unknown_keys_insert_new) (use Cons.prems e in auto)
  then show ?case
    using Cons.IH[of "mapping_insert (YString k) v m"] Cons.prems e
    by (auto simp: keys_mapping_insert image_iff)
qed

lemma btree_entry_last: "list_all (\<lambda>e. fst e < k) m \<Longrightarrow> btree_entry k f m = m @ [(k, f None)]"
  by (induction k f m rule: btree_entry.induct) auto

lemma btree_rebuild:
  "key_sorted (m @ es) \<Longrightarrow> fold (\<lambda>(k, v). btree_entry k (\<lambda>_. v)) es m = m @ es"
proof (induction es arbitrary: m)
  case Nil
  then show ?case by simp
next
  case (Cons e es)
  obtain k v where e: "e = (k, v)" by force
  have "btree_entry k (\<lambda>_. v) m = m @ [(k, v)]"
    using Cons.prems e btree_entry_last[of k m "\<lambda>_. v"]
    by (auto simp: sorted_wrt_append list_all_iff)
  with Cons e show ?case by simp
qed

text \<open>
  Documented behaviour of the derived YAML codec at one ticket: the serializer writes the
  known keys, the schema as a number; the deserializer reads the known keys only; and the text
  of a mapping consists of complete lines without a document fence and parses back.
\<close>

definition frontmatter_only :: "ticket \<Rightarrow> ticket" where
  "frontmatter_only t = t\<lparr>t_details := [], t_notes := [], t_extra := []\<rparr>"

definition yaml_known :: "platform \<Rightarrow> ticket \<Rightarrow> bool" where
  "yaml_known P t =
     (fst ` set (pf_yaml_to_value P t) \<subseteq> YString ` set KNOWN_KEYS
      \<and> map_of (pf_yaml_to_value P t) (YString ''schema'') = Some (YNumber (show_nat (t_schema t))))"

definition yaml_reads_known :: "platform \<Rightarrow> ticket \<Rightarrow> bool" where
  "yaml_reads_known P t =
     (\<forall>m. (\<forall>k \<in> set KNOWN_KEYS. map_of m (YString k) = map_of (pf_yaml_to_value P t) (YString k))
        \<longrightarrow> pf_yaml_from_value P m = Inr (frontmatter_only t))"

definition yaml_text :: "platform \<Rightarrow> (yaml \<times> yaml) list \<Rightarrow> bool" where
  "yaml_text P m =
     (\<exists>ls. fence_free ls \<and> pf_yaml_print P m = join nl ls @ nl
        \<and> pf_yaml_parse P (join nl ls) = Inr (YMapping m))"

definition yaml_codec :: "platform \<Rightarrow> ticket \<Rightarrow> bool" where
  "yaml_codec P t = (yaml_known P t \<and> yaml_reads_known P t \<and> yaml_text P (frontmatter_mapping P t))"

text \<open>A ticket whose retained unknown keys are unknown, in order, and whose schema is the one
  the writer stamps.\<close>

definition frontmatter_ok :: "ticket \<Rightarrow> bool" where
  "frontmatter_ok t =
     (key_sorted (t_extra t) \<and> fst ` set (t_extra t) \<inter> set KNOWN_KEYS = {}
      \<and> schema_guard (t_schema t) \<noteq> None \<and> frontmatter_schema t = t_schema t)"

lemma schema_guard_inverse: "schema_guard n = Some g \<Longrightarrow> schema_of_guard g = Some n"
  by (auto simp: schema_guard_def schema_of_guard_def guarded_schemas schema_versions split: if_splits)

lemma parse_frontmatter_written:
  assumes "frontmatter_ok t" "yaml_known P t" "yaml_reads_known P t"
    "pf_yaml_parse P fm = Inr (YMapping (frontmatter_mapping P t))"
  shows "parse_frontmatter P fm = Inr (t\<lparr>t_details := [], t_notes := []\<rparr>)"
proof -
  let ?v = "pf_yaml_to_value P t"
  let ?base = "fold (\<lambda>(k, v). mapping_insert (YString k) v) (t_extra t) ?v"
  obtain g where g: "schema_guard (t_schema t) = Some g" using assms(1) by (auto simp: frontmatter_ok_def)
  have m: "frontmatter_mapping P t = mapping_insert (YString ''schema'') (YString g) ?base"
    using assms(1) g by (simp add: frontmatter_mapping_def frontmatter_ok_def Let_def)
  let ?m = "mapping_insert (YString ''schema'') (YNumber (show_nat (t_schema t)))
    (frontmatter_mapping P t)"
  have known: "''schema'' \<in> set KNOWN_KEYS" by (simp add: KNOWN_KEYS_def)
  have norm: "normalize_schema_marker (frontmatter_mapping P t) = Inr ?m"
    using schema_guard_inverse[OF g] unfolding m
    by (simp add: normalize_schema_marker_def map_of_mapping_insert)
  have "map_of ?m (YString k) = map_of ?v (YString k)" if "k \<in> set KNOWN_KEYS" for k
  proof (cases "k = ''schema''")
    case True
    then show ?thesis using assms(2) by (simp add: map_of_mapping_insert yaml_known_def)
  next
    case False
    have "map_of (rev (t_extra t)) k = None"
      using assms(1) that by (auto simp: frontmatter_ok_def map_of_eq_None_iff)
    with False show ?thesis unfolding m by (simp add: map_of_mapping_insert map_of_insert_extra)
  qed
  then have reads: "pf_yaml_from_value P ?m = Inr (frontmatter_only t)"
    using assms(3) unfolding yaml_reads_known_def by blast
  have "unknown_keys ?v = []" using assms(2) unknown_keys_known by (simp add: yaml_known_def)
  moreover have "unknown_keys ?base = unknown_keys ?v @ t_extra t"
    using assms(1,2) by (intro unknown_keys_extra)
      (auto simp: frontmatter_ok_def yaml_known_def dest: key_sorted_distinct)
  ultimately have "unknown_keys ?m = t_extra t"
    unfolding m using known by (simp add: unknown_keys_insert_known)
  then have "retain_unknown ?m (frontmatter_only t) = t\<lparr>t_details := [], t_notes := []\<rparr>"
    using btree_rebuild[of "[]" "t_extra t"] assms(1)
    by (simp add: retain_unknown_def frontmatter_only_def frontmatter_ok_def)
  with reads norm assms(4) show ?thesis
    by (simp add: parse_frontmatter_def yaml_result_def as_mapping_def)
qed

subsection \<open>The whole file\<close>

lemma parse_file_written:
  assumes "content_ok P t" "frontmatter_ok t" "yaml_codec P t"
    "ulid_text_plain P" "ulid_text_parses P" "json_feedback_codec P"
  shows "parse_file P (to_file_string P t) = Inr t"
proof -
  let ?c = "content_to_string P t"
  obtain ls where ls: "fence_free ls" "pf_yaml_print P (frontmatter_mapping P t) = join nl ls @ nl"
    "pf_yaml_parse P (join nl ls) = Inr (YMapping (frontmatter_mapping P t))"
    using assms(3) by (auto simp: yaml_codec_def yaml_text_def)
  obtain cs where "?c = concat (map (\<lambda>l. l @ [CHR 10]) cs)" "list_all plain_line cs"
    using content_plain[OF assms(1,4,6)] by blast
  then have "crlf_free ?c" using crlf_free_lines[of cs "[]"] by simp
  then have "split_frontmatter (to_file_string P t) = Inr (join nl ls, ?c)"
    using split_frontmatter_written[OF ls(1)] ls(2)
    by (simp add: to_file_string_def frontmatter_to_string_def)
  moreover have "parse_frontmatter P (join nl ls) = Inr (t\<lparr>t_details := [], t_notes := []\<rparr>)"
    using assms(2,3) ls(3) by (intro parse_frontmatter_written) (simp_all add: yaml_codec_def)
  ultimately show ?thesis
    using parse_content_written[OF assms(1,4,6,5)] by (simp add: parse_file_def)
qed

text \<open>The demonstration platform has the documented behaviour.\<close>

lemma valid_utf8_ascii: "list_all (byte_in 0 0x7F) s \<Longrightarrow> valid_utf8 s"
proof (induction s)
  case Nil
  then show ?case by (simp add: valid_utf8.simps[of "[]"])
next
  case (Cons c s)
  then show ?case by (simp add: valid_utf8.simps[of "c # s"])
qed

lemma ws_len_graphic:
  assumes "33 \<le> (of_char c :: nat)" "(of_char c :: nat) < 128"
  shows "ws_len (c # s) = 0"
proof -
  have "\<not> ascii_ws c" using assms by (simp add: ascii_ws_def Let_def)
  moreover have "c \<notin> {CHR 0xC2, CHR 0xE1, CHR 0xE2, CHR 0xE3}" using assms(2) by auto
  ultimately show ?thesis
    by (cases "c # s" rule: ws_len.cases) (auto simp: wide_ws2_def wide_ws3_def)
qed

lemma crockford_graphic:
  "c \<in> set crockford \<Longrightarrow> 33 \<le> (of_char c :: nat) \<and> (of_char c :: nat) < 128 \<and> c \<noteq> CHR '':''"
proof -
  have "list_all (\<lambda>c. 33 \<le> (of_char c :: nat) \<and> (of_char c :: nat) < 128 \<and> c \<noteq> CHR '':'') crockford"
    by (simp add: crockford_def)
  then show "c \<in> set crockford \<Longrightarrow> ?thesis" by (auto simp: list_all_iff)
qed

lemma demo_ulid_plain: "ulid_text_plain demo"
proof -
  have "plain_value (demo_ulid_text i)" for i
  proof -
    have cs: "set (demo_ulid_text i) \<subseteq> set crockford"
      using digits_less[OF unat_less_26[of i]] length_crockford
      by (auto simp: demo_ulid_text_def intro!: nth_mem)
    have "ws_free s" if "set s \<subseteq> set crockford" for s
      using that by (induction s) (simp_all add: crockford_graphic ws_len_graphic)
    moreover have "length (demo_ulid_text i) = 26" by (simp add: demo_ulid_text_def del: digits.simps)
    then have ne: "demo_ulid_text i \<noteq> []" by auto
    moreover have "last (demo_ulid_text i) \<in> set crockford" using cs last_in_set[OF ne] by blast
    then have "last (demo_ulid_text i) \<noteq> CHR '':''" using crockford_graphic by blast
    ultimately show ?thesis using cs by (simp add: plain_value_def)
  qed
  then show ?thesis by (simp add: ulid_text_plain_def demo_def)
qed

lemma demo_json: "json_feedback_codec demo"
proof -
  have letter: "byte_in 0 0x7F c" if "demo_letter c" for c
    using that by (simp add: demo_letter_def byte_in_def Let_def)
  have bytes: "list_all (byte_in 0 0x7F) (concat (map demo_byte s))" for s
    using demo_letters[of s] letter by (auto simp: list_all_iff)
  have "byte_in 0 0x7F (the (map_of demo_ratings r))" for r
    by (cases r rule: option.exhaust; cases "the r") (simp_all add: demo_ratings_def byte_in_def)
  with bytes have "list_all (byte_in 0 0x7F) (demo_print_feedback f)" for f
    by (simp add: demo_print_feedback_def byte_in_def split: option.split)
  then show ?thesis
    using demo_feedback_roundtrip valid_utf8_ascii
    by (simp add: json_feedback_codec_def demo_def) (simp add: demo_print_feedback_def)
qed

lemma show_100: "show_nat 100 = ''100''"
  by code_simp

definition demo_note :: ticket_note where
  "demo_note = \<lparr>n_id = 9, n_kind = FeedbackNeeded, n_kind_explicit = True, n_created_at = at_ns 100,
     n_edited_at = at_ns 100, n_summary = Some ''Ask'', n_confidence = Some (Confidence 80),
     n_feedback_for = Some 4, n_feedback_request = True, n_response_to = None,
     n_ai_feedback = Some \<lparr>af_target = ''note:1'', af_rating = Some Helpful, af_explanation = None\<rparr>,
     n_human_edited = True, n_actor = Some \<lparr>na_role = Ai, na_id = Some ''w1''\<rparr>,
     n_text = ''Which one?'' @ nl @ ''<!-- hotsheet:note:end -->''\<rparr>"

definition demo_file_ticket :: ticket where
  "demo_file_ticket = sample_ticket\<lparr>t_details := ''Body'', t_notes := [demo_note]\<rparr>"

lemma demo_stamp: "stamp_ok demo (at_ns 100)"
  by (simp add: stamp_ok_def at_ns_def show_100 plain_value_def ascii_ws_def wide_ws2_def wide_ws3_def
      ts_new_def demo_def demo_instant_def parse_digits_def is_ascii_digit_def digit_value_def)

lemma demo_content: "content_ok demo demo_file_ticket"
proof -
  have "crlf_free (n_text demo_note)"
    by (simp add: demo_note_def nl_def crlf_free_Cons)
  moreover have "trimmed (n_text demo_note)"
    by (simp add: demo_note_def nl_def trimmed_def ascii_ws_def wide_ws2_def wide_ws3_def)
  moreover have "valid_utf8 ''Ask''" "valid_utf8 ''w1''"
    by (simp_all add: valid_utf8_ascii byte_in_def)
  ultimately have "note_ok demo demo_note"
    using demo_stamp by (simp add: note_ok_def stored_text_def demo_note_def hex_text_def CONFIDENCE_MAX_def)
  moreover have "stored_text ''Body''"
    by (simp add: stored_text_def trimmed_def crlf_free_Cons ascii_ws_def wide_ws2_def wide_ws3_def)
  ultimately show ?thesis by (simp add: content_ok_def demo_file_ticket_def)
qed

lemma demo_frontmatter: "frontmatter_ok demo_file_ticket"
  by (simp add: frontmatter_ok_def demo_file_ticket_def sample_ticket_def ticket_new_def schema_guard_def
      frontmatter_schema_def arrow_heads_used_def crops_used_def intents_used_def shapes_used_def)

lemma demo_codec: "yaml_codec demo demo_file_ticket"
proof -
  have m: "frontmatter_mapping demo demo_file_ticket
      = [(YString ''schema'', YString ''hotsheet/v2-bounded-notes'')]"
    by (simp add: frontmatter_mapping_def demo_file_ticket_def sample_ticket_def ticket_new_def demo_def
        schema_guard_def frontmatter_schema_def arrow_heads_used_def crops_used_def intents_used_def
        shapes_used_def GUARDED_SCHEMA_V2_def)
  have "fence_free [''schema: 2'']" by (simp add: fence_free_def plain_line_def)
  then have "yaml_text demo (frontmatter_mapping demo demo_file_ticket)"
    unfolding yaml_text_def m by (intro exI[of _ "[''schema: 2'']"]) (simp add: demo_def)
  then show ?thesis
    by (simp add: yaml_codec_def yaml_known_def yaml_reads_known_def demo_def KNOWN_KEYS_def
        frontmatter_only_def demo_file_ticket_def sample_ticket_def ticket_new_def)
qed

text \<open>C2. Writing a ticket file and reading it back gives the same ticket: every frontmatter
  field, the unknown keys retained for newer writers, the body, and every note with its kind,
  times, summary, confidence, links, rating, edit flag, actor and text, even when body or note
  text contains lines that look like the file's own markers.  The ticket's texts are in stored
  form (trimmed, plain newlines), its notes are no local drafts; the YAML, JSON and ULID codecs
  behave as documented.\<close>

theorem ticket_file_roundtrip:
  "content_ok P t \<Longrightarrow> frontmatter_ok t \<Longrightarrow> yaml_codec P t \<Longrightarrow> ulid_text_plain P \<Longrightarrow>
     ulid_text_parses P \<Longrightarrow> json_feedback_codec P \<Longrightarrow>
     parse_file P (to_file_string P t) = Inr t"
  by (rule parse_file_written)

theorem ticket_file_roundtrip_witness:
  "parse_file demo (to_file_string demo demo_file_ticket) = Inr demo_file_ticket
   \<and> n_text (hd (t_notes demo_file_ticket)) = ''Which one?'' @ nl @ NOTE_END"
  using ticket_file_roundtrip[OF demo_content demo_frontmatter demo_codec demo_ulid_plain
      demo_text_parses demo_json]
  by (simp add: demo_file_ticket_def demo_note_def NOTE_END_def)

text \<open>User text can never forge or break the file's structure: escaping any text leaves no
  line that starts like a marker, and unescaping the escaped lines gives the text back, line
  by line, whatever the text is.\<close>

theorem escaping_is_safe:
  "list_all (\<lambda>l. \<not> starts_with marker_stem l) (map escape_line ls)
   \<and> map unescape_line (map escape_line ls) = ls"
  by (simp add: list_all_iff escape_line_no_stem unescape_escape_line comp_def)

text \<open>The hexadecimal form of summaries, ratings and actor ids: encoding gives only
  token characters, and decoding an encoded UTF-8 text gives it back.\<close>

theorem hex_roundtrip:
  "ws_free (encode_note_summary s)
   \<and> decode_note_summary (encode_note_summary s) = Inr (if valid_utf8 s then Some s else None)"
  by (simp add: decode_encode ws_free_encode)


end
