(* ===== verification/Store_Laws.thy ===== *)
theory Store_Laws
  imports Ticket_Store File_Roundtrip
begin

text \<open>
  The contract of the file store of \<open>store.rs\<close> as its clients use it: a committed ticket is
  what the next read returns, other tickets are untouched, a failed write changes nothing.
  The locale \<open>keyed_store\<close> states the contract and what follows for sequences of writes; it
  is interpreted on the store's own write and read.
\<close>

subsection \<open>The contract\<close>

locale keyed_store =
  fixes put :: "'s \<Rightarrow> 'v \<Rightarrow> ('e + 'p) \<times> 's"
    and get :: "'s \<Rightarrow> 'k \<Rightarrow> 'e + 'v"
    and key :: "'v \<Rightarrow> 'k"
    and storable :: "'s \<Rightarrow> 'v \<Rightarrow> bool"
    and canon :: "'v \<Rightarrow> 'v"
  assumes read_own: "storable s v \<Longrightarrow> put s v = (Inr p, s') \<Longrightarrow> get s' (key v) = Inr (canon v)"
    and read_other: "storable s v \<Longrightarrow> put s v = (Inr p, s') \<Longrightarrow> k \<noteq> key v \<Longrightarrow> get s' k = get s k"
    and write_error: "put s v = (Inl e, s') \<Longrightarrow> s' = s"
    and storable_kept: "put s u = (Inr p, s') \<Longrightarrow> storable s' v = storable s v"
begin

text \<open>A batch of writes, failed ones included.\<close>

definition write_all :: "'v list \<Rightarrow> 's \<Rightarrow> 's" where
  "write_all vs s = fold (\<lambda>v s. snd (put s v)) vs s"

lemma storable_step: "storable (snd (put s u)) v = storable s v"
  by (cases "put s u"; cases "fst (put s u)") (auto dest: write_error storable_kept)

lemma storable_write_all: "storable (write_all vs s) v = storable s v"
  by (induction vs arbitrary: s) (simp_all add: write_all_def storable_step)

text \<open>A key none of the writes names reads as before.\<close>

lemma read_write_all_other:
  "list_all (\<lambda>v. storable s v \<and> key v \<noteq> k) vs \<Longrightarrow> get (write_all vs s) k = get s k"
proof (induction vs arbitrary: s)
  case Nil
  then show ?case by (simp add: write_all_def)
next
  case (Cons v vs)
  have "get (snd (put s v)) k = get s k"
  proof (cases "put s v")
    case (Pair r s1)
    with Cons.prems show ?thesis
      by (cases r) (auto dest: write_error read_other[of s v _ s1 k])
  qed
  moreover have "get (write_all vs (snd (put s v))) k = get (snd (put s v)) k"
    using Cons.prems by (intro Cons.IH) (simp add: storable_step)
  ultimately show ?case by (simp add: write_all_def)
qed

text \<open>The last successful write of a key is what a read returns.\<close>

lemma read_last_write:
  assumes "list_all (storable s) (vs @ v # ws)" "list_all (\<lambda>w. key w \<noteq> key v) ws"
    "put (write_all vs s) v = (Inr p, s')"
  shows "get (write_all (vs @ v # ws) s) (key v) = Inr (canon v)"
proof -
  have "write_all (vs @ v # ws) s = write_all ws s'"
    using assms(3) by (simp add: write_all_def)
  moreover have "list_all (\<lambda>w. storable s' w \<and> key w \<noteq> key v) ws"
    using assms storable_kept[OF assms(3)] by (auto simp: list_all_iff storable_write_all)
  moreover have "storable (write_all vs s) v" using assms(1) by (simp add: storable_write_all)
  ultimately show ?thesis using read_own[OF _ assms(3)] read_write_all_other[of s' "key v" ws] by simp
qed

end

subsection \<open>Paths\<close>

lemma ticket_path_for_shard_name:
  "\<exists>d. ticket_path_for_shard P i shard = d @ pf_ulid_to_string P i @ ''.md''"
  by (simp add: ticket_path_for_shard_def Let_def)

lemma ticket_paths_differ:
  assumes "ulid_text_width P" "ulid_text_order P"
    "ticket_path_for_shard P i a = ticket_path_for_shard P j b"
  shows "i = j"
proof -
  obtain d e where "d @ pf_ulid_to_string P i @ ''.md'' = e @ pf_ulid_to_string P j @ ''.md''"
    using ticket_path_for_shard_name[of P i a] ticket_path_for_shard_name[of P j b] assms(3) by metis
  then have "pf_ulid_to_string P i = pf_ulid_to_string P j"
    using assms(1) by (simp add: ulid_text_width_def)
  with ulid_text_inj[OF assms(2)] show ?thesis by blast
qed

lemma ticket_path_cases:
  "ticket_path P s i \<in> {ticket_path_for_shard P i SHARD_ID_SUFFIX_2, ticket_path_for_shard P i SHARD_ID_PREFIX_2}"
  by (auto simp: ticket_path_def Let_def split: sum.split)

text \<open>What a write does to the files and to nothing else the paths depend on.\<close>

definition same_besides_file :: "string \<Rightarrow> string \<Rightarrow> fs_store \<Rightarrow> fs_store \<Rightarrow> bool" where
  "same_besides_file path text s s' =
     (map_of (st_files s') = (map_of (st_files s))(path \<mapsto> text) \<and> st_meta s' = st_meta s
      \<and> st_attachment_dirs s' = st_attachment_dirs s)"

lemma metadata_cong: "st_meta s' = st_meta s \<Longrightarrow> metadata P s' = metadata P s"
  by (simp add: metadata_def)

lemma ticket_path_own:
  assumes "same_besides_file (ticket_path P s i) tx s s'"
  shows "ticket_path P s' i = ticket_path P s i"
  using assms metadata_cong[of s' s P] unfolding same_besides_file_def
  by (auto simp: ticket_path_def file_exists_def Let_def is_some_iff split: sum.splits if_splits)

lemma ticket_path_other:
  assumes "same_besides_file (ticket_path P s i) tx s s'" "ulid_text_width P" "ulid_text_order P" "j \<noteq> i"
  shows "ticket_path P s' j = ticket_path P s j" "ticket_path P s j \<noteq> ticket_path P s i"
proof -
  have ne: "ticket_path_for_shard P j a \<noteq> ticket_path P s i" for a
    using ticket_paths_differ[OF assms(2,3)] ticket_path_cases[of P s i] assms(4) by auto
  have "file_exists s' (ticket_path_for_shard P j a) = file_exists s (ticket_path_for_shard P j a)" for a
    using ne[of a] assms(1) by (simp add: file_exists_def same_besides_file_def)
  then show "ticket_path P s' j = ticket_path P s j"
    using assms(1) metadata_cong[of s' s P]
    by (simp add: ticket_path_def[of P s' j] ticket_path_def[of P s j] same_besides_file_def Let_def)
  show "ticket_path P s j \<noteq> ticket_path P s i" using ticket_path_cases[of P s j] ne by auto
qed

lemma write_committing_effect:
  assumes "write_ticket_committing P s t = (Inr p, s')"
  shows "same_besides_file (ticket_path P s (t_id t)) (to_file_string P (normalize_for_write t)) s s'"
  using assms
  by (auto simp: write_ticket_committing_def write_ticket_with_paths_committing_def write_ticket_def
      write_ticket_unchecked_def write_ticket_unchecked_at_def run_commit_job_def autocommit_paths_def
      same_besides_file_def update_conv' split: sum.splits if_splits git_state.splits)

lemma write_committing_error: "write_ticket_committing P s t = (Inl e, s') \<Longrightarrow> s' = s"
  by (auto simp: write_ticket_committing_def write_ticket_with_paths_committing_def write_ticket_def
      write_ticket_unchecked_def write_ticket_unchecked_at_def split: sum.splits if_splits)

subsection \<open>Storable tickets\<close>

text \<open>The documented behaviour of the ULID, JSON and YAML crates the store relies on.\<close>

definition crates_ok :: "platform \<Rightarrow> bool" where
  "crates_ok P =
     (ulid_text_width P \<and> ulid_text_order P \<and> ulid_text_plain P \<and> ulid_text_parses P
      \<and> json_feedback_codec P)"

text \<open>Every file of the ticket's attachment directory is recorded, the records are in id order
  and none is the Finder's.\<close>

definition attachments_recorded :: "platform \<Rightarrow> fs_store \<Rightarrow> ticket \<Rightarrow> bool" where
  "attachments_recorded P s t =
     (list_all (\<lambda>a. at_filename a \<noteq> FINDER_METADATA_FILE) (t_attachments t)
      \<and> (case map_of (st_attachment_dirs s) (t_id t) of
           None \<Rightarrow> True
         | Some entries \<Rightarrow>
             sorted_by at_id_cmp (t_attachments t)
             \<and> list_all (\<lambda>(filename, is_file). is_file \<longrightarrow> filename \<noteq> FINDER_METADATA_FILE \<longrightarrow>
                  legacy_attachment_id P (t_id t) filename \<in> at_id ` set (t_attachments t)) entries))"

definition storable :: "platform \<Rightarrow> fs_store \<Rightarrow> ticket \<Rightarrow> bool" where
  "storable P s t =
     (crates_ok P \<and> content_ok P t \<and> yaml_codec P (normalize_for_write t)
      \<and> key_sorted (t_extra t) \<and> fst ` set (t_extra t) \<inter> set KNOWN_KEYS = {}
      \<and> attachments_recorded P s t)"

lemma at_id_cmp_total: "total_cmp at_id_cmp (\<lambda>_. True)"
  unfolding at_id_cmp_def by (rule total_cmp_key)

interpretation aid: total_cmp at_id_cmp "\<lambda>_. True"
  by (rule at_id_cmp_total)

lemma legacy_entries_recorded:
  assumes "list_all (\<lambda>(filename, is_file). is_file \<longrightarrow> filename \<noteq> FINDER_METADATA_FILE \<longrightarrow>
      legacy_attachment_id P (t_id t) filename \<in> at_id ` set (t_attachments t)) entries"
  shows "fold (add_legacy_entry P) entries t = t"
  using assms
  by (induction entries) (auto simp: add_legacy_entry_def legacy_attachment_def Let_def)

lemma add_legacy_recorded:
  assumes "attachments_recorded P s t"
  shows "add_legacy_attachment_metadata P s
     (t\<lparr>t_attachments := filter (\<lambda>a. at_filename a \<noteq> FINDER_METADATA_FILE) (t_attachments t)\<rparr>) = t"
proof -
  have "filter (\<lambda>a. at_filename a \<noteq> FINDER_METADATA_FILE) (t_attachments t) = t_attachments t"
    using assms by (intro filter_True) (auto simp: attachments_recorded_def list_all_iff)
  then show ?thesis using assms
    by (auto simp: add_legacy_attachment_metadata_def attachments_recorded_def Let_def
        legacy_entries_recorded aid.sort_by_sorted_id split: option.splits)
qed

lemma normalize_for_write_fields:
  "t_id (normalize_for_write t) = t_id t" "t_attachments (normalize_for_write t) = t_attachments t"
  "t_extra (normalize_for_write t) = t_extra t" "t_details (normalize_for_write t) = t_details t"
  "t_notes (normalize_for_write t) = t_notes t" "t_status (normalize_for_write t) = t_status t"
  by (simp_all add: normalize_for_write_def)

lemma write_schema_ok:
  "schema_guard (t_schema (normalize_for_write t)) \<noteq> None"
  "frontmatter_schema (normalize_for_write t) = t_schema (normalize_for_write t)"
  by (auto simp: normalize_for_write_def ticket_write_schema_def schema_guard_def frontmatter_schema_def
      arrow_heads_used_def crops_used_def intents_used_def shapes_used_def schema_versions)

lemma storable_normalized:
  assumes "storable P s t"
  shows "content_ok P (normalize_for_write t)" "frontmatter_ok (normalize_for_write t)"
    "attachments_recorded P s (normalize_for_write t)"
  using assms write_schema_ok[of t]
  by (simp_all add: storable_def content_ok_def frontmatter_ok_def attachments_recorded_def
      normalize_for_write_fields split: option.splits)

lemma read_written:
  assumes "storable P s t" "write_ticket_committing P s t = (Inr p, s')"
  shows "read_ticket P s' (t_id t) = Inr (normalize_for_write t)"
proof -
  let ?t = "normalize_for_write t"
  note w = write_committing_effect[OF assms(2)]
  have "parse_file P (to_file_string P ?t) = Inr ?t"
    using assms(1) storable_normalized[OF assms(1)]
    by (intro parse_file_written) (simp_all add: storable_def crates_ok_def)
  moreover have "map_of (st_files s') (ticket_path P s' (t_id t)) = Some (to_file_string P ?t)"
    using w ticket_path_own[OF w] by (simp add: same_besides_file_def)
  moreover have "attachments_recorded P s' ?t"
    using storable_normalized(3)[OF assms(1)] w
    by (simp add: attachments_recorded_def same_besides_file_def)
  ultimately show ?thesis
    by (simp add: read_ticket_def read_ticket_at_def parse_ticket_text_def add_legacy_recorded)
qed

lemma read_other_ticket:
  assumes "crates_ok P" "write_ticket_committing P s t = (Inr p, s')" "j \<noteq> t_id t"
  shows "read_ticket P s' j = read_ticket P s j"
proof -
  note w = write_committing_effect[OF assms(2)]
  have laws: "ulid_text_width P" "ulid_text_order P" using assms(1) by (simp_all add: crates_ok_def)
  note path = ticket_path_other[OF w laws assms(3)]
  have "parse_ticket_text P s' = parse_ticket_text P s"
    using w by (intro ext) (simp add: parse_ticket_text_def add_legacy_attachment_metadata_def
        same_besides_file_def split: sum.split)
  with path w show ?thesis
    by (simp add: read_ticket_def read_ticket_at_def same_besides_file_def split: option.split)
qed

interpretation ts: keyed_store "write_ticket_committing P" "read_ticket P" t_id "storable P"
  normalize_for_write for P
proof unfold_locales
  fix s s' :: fs_store and t u :: ticket and p :: string and e :: store_error and j :: ulid
  show "storable P s t \<Longrightarrow> write_ticket_committing P s t = (Inr p, s') \<Longrightarrow>
      read_ticket P s' (t_id t) = Inr (normalize_for_write t)" by (rule read_written)
  show "storable P s t \<Longrightarrow> write_ticket_committing P s t = (Inr p, s') \<Longrightarrow> j \<noteq> t_id t \<Longrightarrow>
      read_ticket P s' j = read_ticket P s j" by (rule read_other_ticket) (simp_all add: storable_def)
  show "write_ticket_committing P s t = (Inl e, s') \<Longrightarrow> s' = s" by (rule write_committing_error)
  show "write_ticket_committing P s u = (Inr p, s') \<Longrightarrow> storable P s' t = storable P s t"
    by (drule write_committing_effect)
      (simp add: storable_def attachments_recorded_def same_besides_file_def)
qed

subsection \<open>A concrete store\<close>

definition demo_meta :: meta_json where
  "demo_meta = \<lparr>mj_schema = Some (SchemaText GUARDED_STORE_SCHEMA_V3), mj_ticket_prefix = Some ''HS'',
     mj_id_strategy = Some ''ulid'', mj_shard = Some SHARD_ID_SUFFIX_2, mj_instance_id = None\<rparr>"

definition demo_store :: fs_store where
  "demo_store = \<lparr>st_root = ''/store'', st_meta = Some (Inr demo_meta), st_recovery_required = False,
     st_lock_error = None, st_files = [], st_unwritable = [], st_attachment_dirs = [],
     st_defer_autocommit = False, st_git = GitWorks, st_commits = []\<rparr>"

lemma demo_crates: "crates_ok demo"
  by (simp add: crates_ok_def demo_text_width demo_text_order demo_ulid_plain demo_text_parses demo_json)

lemma demo_normalized: "normalize_for_write demo_file_ticket = demo_file_ticket"
  by (simp add: normalize_for_write_def ticket_write_schema_def demo_file_ticket_def sample_ticket_def
      ticket_new_def arrow_heads_used_def crops_used_def intents_used_def shapes_used_def schema_versions)

lemma demo_storable: "storable demo demo_store demo_file_ticket"
proof -
  have "t_extra demo_file_ticket = []" "t_attachments demo_file_ticket = []"
    by (simp_all add: demo_file_ticket_def sample_ticket_def ticket_new_def)
  moreover have "map_of (st_attachment_dirs demo_store) i = None" for i by (simp add: demo_store_def)
  ultimately show ?thesis
    using demo_crates demo_content demo_codec
    by (simp add: storable_def demo_normalized attachments_recorded_def)
qed

lemma demo_format: "ensure_current_writer_format demo demo_store = Inr ()"
  by (simp add: ensure_current_writer_format_def ensure_compaction_recovered_def metadata_def demo_store_def
      demo_meta_def known_schema_def metadata_from_json_def required_field_def deserialize_store_schema_def
      validate_instance_id_def GUARDED_STORE_SCHEMA_V2_def GUARDED_STORE_SCHEMA_V3_def)

lemma demo_write: "\<exists>p s'. write_ticket_committing demo demo_store demo_file_ticket = (Inr p, s')"
  using demo_format
  by (simp add: write_ticket_committing_def write_ticket_with_paths_committing_def write_ticket_def
      write_ticket_unchecked_def write_ticket_unchecked_at_def run_commit_job_def)
    (simp add: demo_store_def autocommit_paths_def)

text \<open>C4. The store refines a map from ids to tickets: after a successful commit of a storable
  ticket, reading any id gives what the map updated at the ticket's id gives.  The committed
  ticket reads back as its written form (current file schema, no Up Next on inactive work),
  every other ticket reads as before, whichever shard layout its file is in.\<close>

theorem store_refines_map:
  "storable P s t \<Longrightarrow> write_ticket_committing P s t = (Inr p, s') \<Longrightarrow>
     read_ticket P s' = (read_ticket P s)(t_id t := Inr (normalize_for_write t))"
  using ts.read_own[of P s t p s'] ts.read_other[of P s t p s'] by (auto simp: fun_eq_iff)

theorem store_refines_map_witness:
  "\<exists>s'. read_ticket demo s' = (read_ticket demo demo_store)(t_id demo_file_ticket := Inr demo_file_ticket)"
  using store_refines_map[OF demo_storable] demo_write by (metis demo_normalized)

text \<open>Over any sequence of commits, some of which may fail, the last successful commit of
  an id decides what reading it gives; commits of other ids before and after do not matter.\<close>

theorem last_commit_wins:
  "list_all (storable P s) (ts @ t # us) \<Longrightarrow> list_all (\<lambda>u. t_id u \<noteq> t_id t) us \<Longrightarrow>
     write_ticket_committing P (fold (\<lambda>t s. snd (write_ticket_committing P s t)) ts s) t = (Inr p, s') \<Longrightarrow>
     read_ticket P (fold (\<lambda>t s. snd (write_ticket_committing P s t)) (ts @ t # us) s) (t_id t)
       = Inr (normalize_for_write t)"
  using ts.read_last_write[of P s ts t us p s'] unfolding ts.write_all_def by blast

theorem last_commit_wins_witness:
  "read_ticket demo (snd (write_ticket_committing demo demo_store demo_file_ticket)) (t_id demo_file_ticket)
     = Inr demo_file_ticket"
proof -
  obtain p s' where w: "write_ticket_committing demo demo_store demo_file_ticket = (Inr p, s')"
    using demo_write by blast
  show ?thesis
    using last_commit_wins[of demo demo_store "[]" demo_file_ticket "[]" p s'] w demo_storable
    by (simp add: demo_normalized)
qed

end
