(* ===== verification/Store_Reachable.thy ===== *)
theory Store_Reachable
  imports Claim_Safety Store_Laws
begin

text \<open>
  The operations of \<open>ops.rs\<close> on a whole store: each either leaves the store alone or commits
  one ticket obtained by a step of \<open>Ticket_Reachable\<close> from a ticket it read (or created).
  With the store's contract the ticket invariant becomes an invariant of the store, for every
  sequence of operations by any workers.
\<close>

subsection \<open>What an operation commits\<close>

definition listed :: "platform \<Rightarrow> fs_store \<Rightarrow> ticket \<Rightarrow> bool" where
  "listed P s t = (\<exists>path. read_ticket_at P s path = Inr t)"

definition store_ok :: "platform \<Rightarrow> fs_store \<Rightarrow> bool" where
  "store_ok P s = (\<forall>t. listed P s t \<longrightarrow> ticket_inv t)"

definition new_or_step :: "platform \<Rightarrow> fs_store \<Rightarrow> ticket \<Rightarrow> bool" where
  "new_or_step P s t' =
     ((\<exists>i pre now new by. t' = created_ticket P i pre now new by)
      \<or> (\<exists>t. listed P s t \<and> ticket_step P t t'))"

text \<open>\<open>f\<close> picks the ticket out of the operation's success value.\<close>

definition commits_step ::
  "platform \<Rightarrow> ('a \<Rightarrow> ticket option) \<Rightarrow> fs_store \<Rightarrow> ('e + 'a) \<times> fs_store \<Rightarrow> bool" where
  "commits_step P f s r =
     (case r of
        (Inl _, s') \<Rightarrow> s' = s
      | (Inr x, s') \<Rightarrow>
          s' = s \<or> (\<exists>t p. f x = Some t \<and> new_or_step P s t
                       \<and> write_ticket_committing P s t = (Inr p, s')))"

definition storable_result ::
  "platform \<Rightarrow> ('a \<Rightarrow> ticket option) \<Rightarrow> fs_store \<Rightarrow> 'e + 'a \<Rightarrow> bool" where
  "storable_result P f s r =
     (case r of Inl _ \<Rightarrow> True
      | Inr x \<Rightarrow> (case f x of None \<Rightarrow> True | Some t \<Rightarrow> storable P s t))"

lemma commits_step_simps [simp]:
  "commits_step P f s (Inl e, s)" "commits_step P f s (Inr x, s)"
  by (simp_all add: commits_step_def)

lemma commits_step_commit:
  assumes "new_or_step P s t"
  shows "commits_step P Some s (commit_ticket P s from t)"
  using assms
  by (auto simp: commits_step_def commit_ticket_def dest: write_committing_error
      split: prod.split sum.split)

lemma commits_step_transaction:
  "(\<And>s. commits_step P f s (op s)) \<Longrightarrow> commits_step P f s (with_ticket_transaction s from op)"
  by (simp add: with_ticket_transaction_def split: option.split)

lemma read_listed: "read_ticket P s i = Inr t \<Longrightarrow> listed P s t"
  by (auto simp: listed_def read_ticket_def)

lemma list_listed:
  assumes "list_tickets P s = Inr ts" "t \<in> set ts"
  shows "listed P s t"
proof -
  obtain xs where "list_all2 (\<lambda>path t. read_ticket_at P s path = Inr t) (ticket_file_paths s) xs"
    "ts = sort_by t_id_cmp xs"
    using assms(1) by (auto simp: list_tickets_def result_bind_eq_Inr result_map_Inr_iff)
  with assms(2) show ?thesis
    by (auto simp: listed_def in_set_conv_nth list_all2_conv_all_nth)
qed

lemma step_commits:
  "listed P s t \<Longrightarrow> ticket_step P t t' \<Longrightarrow> commits_step P Some s (commit_ticket P s from t')"
  by (rule commits_step_commit) (auto simp: new_or_step_def)

subsection \<open>The operations\<close>

lemma create_commits: "commits_step P Some s (create_by P s i pre now new by)"
  unfolding create_by_def by (rule commits_step_commit) (unfold new_or_step_def, blast)

lemma update_commits: "commits_step P Some s (update_ticket P s i now p)"
  unfolding update_ticket_def
  by (rule commits_step_transaction)
    (auto intro: step_commits read_listed step_update split: sum.split)

lemma follow_up_commits: "commits_step P Some s (add_follow_up P s i target now)"
  unfolding add_follow_up_def
  by (rule commits_step_transaction)
    (auto intro: step_commits read_listed step_follow_up split: sum.split)

lemma close_commits: "commits_step P Some s (close_as P s i now reason dup actor)"
  unfolding close_as_def
  by (rule commits_step_transaction)
    (auto intro: step_commits read_listed step_close split: sum.split)

lemma assign_commits: "commits_step P Some s (assign P s who i now people reviews)"
  unfolding assign_def
  by (rule commits_step_transaction)
    (auto intro: step_commits read_listed step_assign split: sum.split)

lemma add_note_commits: "commits_step P Some s (add_note_with_metadata P s i n now kind md tx)"
  unfolding add_note_with_metadata_def
  by (rule commits_step_transaction)
    (auto simp: Let_def intro: step_commits read_listed step_note split: sum.split)

lemma rate_commits: "commits_step P Some s (rate_ai_content P s f i now target rating ex actor)"
  unfolding rate_ai_content_def
  by (auto intro!: commits_step_transaction intro: step_commits[OF read_listed step_rate] split: sum.split)

lemma edit_commits: "commits_step P Some s (edit_note_with_metadata P s f i n now ed)"
  unfolding edit_note_with_metadata_def
  by (auto intro!: commits_step_transaction intro: step_commits[OF read_listed step_edit]
      split: sum.split option.split)

lemma delete_note_commits: "commits_step P Some s (delete_note P s i n now)"
  unfolding delete_note_def
  by (rule commits_step_transaction)
    (auto intro: step_commits read_listed step_delete_note split: sum.split)

lemma restore_commits: "commits_step P Some s (restore P s i now)"
proof -
  have "commits_step P Some s (case r of (Inl e, s') \<Rightarrow> (Inl (StoreErr e), s') | (Inr t', s') \<Rightarrow> (Inr t', s'))"
    if "commits_step P Some s r" for r :: "(store_error + ticket) \<times> fs_store"
    using that by (auto simp: commits_step_def split: prod.splits sum.splits)
  then show ?thesis
    unfolding restore_def using update_commits by (auto split: sum.split)
qed

lemma find_listed: "list_tickets P s = Inr ts \<Longrightarrow> List.find p ts = Some t \<Longrightarrow> listed P s t"
  by (auto simp: find_Some_iff intro: list_listed)

lemma prepare_claim_step:
  "prepare_claim P s i now lease w l e = Inr t' \<Longrightarrow>
     \<exists>t. listed P s t \<and> ticket_step P t (start_claimed_ticket P now t')"
  by (auto simp: prepare_claim_def intro: find_listed step_claim split: sum.splits option.splits)

lemma claim_commits: "commits_step P Some s (claim_with_eta P s i now lease w l e)"
  unfolding claim_with_eta_def
  by (rule commits_step_transaction)
    (auto dest!: prepare_claim_step intro: step_commits split: sum.split)

lemma release_commits: "commits_step P Some s (release P s i now w force)"
  unfolding release_def
  by (rule commits_step_transaction)
    (auto intro: step_commits read_listed step_release split: sum.split option.split)

lemma renew_commits: "commits_step P Some s (renew_with_eta_fenced P s i clock w e a)"
  unfolding renew_with_eta_fenced_def
  by (rule commits_step_transaction)
    (auto intro: step_commits read_listed step_renew split: sum.split)

lemma handoff_commits: "commits_step P Some s (publish_handoff_note P s i n now w a reviewed tx)"
  unfolding publish_handoff_note_def
  by (rule commits_step_transaction)
    (auto intro: step_commits read_listed step_handoff split: sum.split)

lemma granted_commits:
  "granted P now lease w l e s t t' s' \<Longrightarrow> commits_step P id s (Inr (Some t'), s')"
  by (auto simp: granted_def commits_step_def new_or_step_def commit_ticket_def
      intro: list_listed step_claim_next split: prod.splits sum.splits)

lemma claim_next_commits: "commits_step P id s (claim_next_with_eta P s now lease w l e)"
proof (cases "claim_next_with_eta P s now lease w l e")
  case (Pair r s')
  have clean: "fails_clean s (claim_next_with_eta P s now lease w l e)"
    unfolding claim_next_with_eta_def by (intro fails_clean_transaction fails_clean_selected)
  show ?thesis
  proof (cases r)
    case (Inl err)
    with clean Pair show ?thesis by simp
  next
    case (Inr x)
    show ?thesis
    proof (cases x)
      case None
      with Pair Inr have "s' = s"
        by (auto simp: claim_next_with_eta_def dest!: transaction_Inr claim_selected_None)
      with Pair Inr None show ?thesis by simp
    next
      case (Some t')
      with Pair Inr claim_next_with_eta_granted granted_commits show ?thesis by metis
    qed
  qed
qed

subsection \<open>Steps of a store\<close>

text \<open>One completed operation, successful or not; a committed ticket is storable.\<close>

inductive store_step :: "platform \<Rightarrow> fs_store \<Rightarrow> fs_store \<Rightarrow> bool" for P where
  st_create: "create_by P s i pre now new by = (r, s') \<Longrightarrow> storable_result P Some s r \<Longrightarrow> store_step P s s'"
| st_update: "update_ticket P s i now p = (r, s') \<Longrightarrow> storable_result P Some s r \<Longrightarrow> store_step P s s'"
| st_follow_up:
    "add_follow_up P s i target now = (r, s') \<Longrightarrow> storable_result P Some s r \<Longrightarrow> store_step P s s'"
| st_close:
    "close_as P s i now reason dup actor = (r', s') \<Longrightarrow> storable_result P Some s r' \<Longrightarrow> store_step P s s'"
| st_restore: "restore P s i now = (r', s') \<Longrightarrow> storable_result P Some s r' \<Longrightarrow> store_step P s s'"
| st_assign:
    "assign P s who i now people reviews = (r, s') \<Longrightarrow> storable_result P Some s r \<Longrightarrow> store_step P s s'"
| st_add_note:
    "add_note_with_metadata P s i n now kind md tx = (r, s') \<Longrightarrow> storable_result P Some s r \<Longrightarrow> store_step P s s'"
| st_rate:
    "rate_ai_content P s f i now aim rating ex actor = (r, s') \<Longrightarrow> storable_result P Some s r \<Longrightarrow> store_step P s s'"
| st_edit_note:
    "edit_note_with_metadata P s f i n now ed = (r, s') \<Longrightarrow> storable_result P Some s r \<Longrightarrow> store_step P s s'"
| st_delete_note:
    "delete_note P s i n now = (r, s') \<Longrightarrow> storable_result P Some s r \<Longrightarrow> store_step P s s'"
| st_claim:
    "claim_with_eta P s i now lease w l e = (r', s') \<Longrightarrow> storable_result P Some s r' \<Longrightarrow> store_step P s s'"
| st_claim_next:
    "claim_next_with_eta P s now lease w l e = (ro, s') \<Longrightarrow> storable_result P id s ro \<Longrightarrow> store_step P s s'"
| st_release:
    "release P s i now w force = (r', s') \<Longrightarrow> storable_result P Some s r' \<Longrightarrow> store_step P s s'"
| st_renew:
    "renew_with_eta_fenced P s i clock w e attempt = (r', s') \<Longrightarrow> storable_result P Some s r' \<Longrightarrow> store_step P s s'"
| st_handoff:
    "publish_handoff_note P s i n now w a reviewed tx = (r', s') \<Longrightarrow> storable_result P Some s r' \<Longrightarrow> store_step P s s'"

lemma read_at_written:
  assumes "storable P s t" "write_ticket_committing P s t = (Inr p, s')"
    "read_ticket_at P s' path = Inr u"
  shows "u = normalize_for_write t \<or> listed P s u"
proof -
  note w = write_committing_effect[OF assms(2)]
  show ?thesis
  proof (cases "path = ticket_path P s (t_id t)")
    case True
    with read_written[OF assms(1,2)] ticket_path_own[OF w] assms(3) show ?thesis
      by (simp add: read_ticket_def)
  next
    case False
    with w have "read_ticket_at P s' path = read_ticket_at P s path"
      by (simp add: read_ticket_at_def parse_ticket_text_def add_legacy_attachment_metadata_def
          same_besides_file_def split: option.split sum.split)
    with assms(3) show ?thesis by (auto simp: listed_def)
  qed
qed

lemma commits_step_ok:
  assumes "store_ok P s" "commits_step P f s (r, s')" "storable_result P f s r"
  shows "store_ok P s'"
proof (cases "s' = s")
  case True
  with assms show ?thesis by simp
next
  case False
  with assms(2) obtain x t p where r: "r = Inr x" "f x = Some t" and n: "new_or_step P s t"
    and w: "write_ticket_committing P s t = (Inr p, s')"
    by (auto simp: commits_step_def split: sum.splits)
  have st: "storable P s t" using assms(3) r by (simp add: storable_result_def)
  have "ticket_inv t"
    using n assms(1) ticket_inv_created ticket_step_inv by (auto simp: new_or_step_def store_ok_def)
  then have "ticket_inv (normalize_for_write t)" by (rule ticket_inv_normalize)
  with read_at_written[OF st w] assms(1) show ?thesis
    by (auto simp: store_ok_def listed_def)
qed

lemma store_step_ok:
  assumes "store_step P s s'" "store_ok P s"
  shows "store_ok P s'"
  using assms
proof (cases rule: store_step.cases)
  case (st_claim_next now lease w l e ro)
  with assms(2) show ?thesis using claim_next_commits commits_step_ok by metis
qed (metis commits_step_ok create_commits update_commits follow_up_commits close_commits
    restore_commits assign_commits add_note_commits rate_commits edit_commits delete_note_commits
    claim_commits release_commits renew_commits handoff_commits)+

lemma store_steps_ok: "(store_step P)\<^sup>*\<^sup>* s s' \<Longrightarrow> store_ok P s \<Longrightarrow> store_ok P s'"
  by (induction rule: rtranclp_induct) (auto intro: store_step_ok)

subsection \<open>A store in use\<close>

text \<open>The demonstration platform with the YAML codec of one given ticket.\<close>

definition demo_for :: "ticket \<Rightarrow> platform" where
  "demo_for t = demo\<lparr>pf_yaml_from_value := (\<lambda>_. Inr (frontmatter_only t))\<rparr>"

lemma demo_for_crates: "crates_ok (demo_for t)"
  using demo_crates
  by (simp add: crates_ok_def demo_for_def ulid_text_width_def ulid_text_order_def ulid_text_plain_def
      ulid_text_parses_def json_feedback_codec_def)

definition plain_ticket :: "ticket \<Rightarrow> bool" where
  "plain_ticket t =
     (t_extra t = [] \<and> t_attachments t = [] \<and> t_schema t = SCHEMA_VERSION \<and> normalize_for_write t = t)"

lemma demo_for_codec:
  assumes "plain_ticket t" shows "yaml_codec (demo_for t) t"
proof -
  have m: "frontmatter_mapping (demo_for t) t
      = [(YString ''schema'', YString ''hotsheet/v2-bounded-notes'')]"
    using assms
    by (simp add: plain_ticket_def frontmatter_mapping_def demo_for_def demo_def schema_guard_def
        frontmatter_schema_def arrow_heads_used_def crops_used_def intents_used_def shapes_used_def
        GUARDED_SCHEMA_V2_def)
  have "fence_free [''schema: 2'']" by (simp add: fence_free_def plain_line_def)
  then have "yaml_text (demo_for t) (frontmatter_mapping (demo_for t) t)"
    unfolding yaml_text_def m by (intro exI[of _ "[''schema: 2'']"]) (simp add: demo_for_def demo_def)
  then show ?thesis
    by (simp add: yaml_codec_def yaml_known_def yaml_reads_known_def demo_for_def demo_def KNOWN_KEYS_def)
qed

lemma demo_for_storable:
  assumes "plain_ticket t" "content_ok (demo_for t) t"
  shows "storable (demo_for t) demo_store t"
proof -
  have "map_of (st_attachment_dirs demo_store) i = None" for i by (simp add: demo_store_def)
  then show ?thesis
    using assms demo_for_codec[OF assms(1)] demo_for_crates[of t]
    by (simp add: storable_def plain_ticket_def attachments_recorded_def)
qed

lemma demo_for_format: "ensure_current_writer_format (demo_for t) demo_store = Inr ()"
  by (simp add: ensure_current_writer_format_def ensure_compaction_recovered_def metadata_def demo_store_def
      demo_meta_def known_schema_def metadata_from_json_def required_field_def deserialize_store_schema_def
      validate_instance_id_def GUARDED_STORE_SCHEMA_V2_def GUARDED_STORE_SCHEMA_V3_def)

lemma demo_for_commit: "\<exists>s'. commit_ticket (demo_for t) demo_store from u = (Inr u, s')"
  using demo_for_format[of t]
  by (simp add: commit_ticket_def write_ticket_committing_def write_ticket_with_paths_committing_def
      write_ticket_def write_ticket_unchecked_def write_ticket_unchecked_at_def run_commit_job_def)
    (simp add: demo_store_def autocommit_paths_def)

lemma demo_for_created: "created_ticket (demo_for t) i pre now new by = created_ticket demo i pre now new by"
  by (simp add: created_ticket_def derive_slug_def demo_for_def)

lemma demo_created_plain: "plain_ticket demo_created" "content_ok P demo_created"
proof -
  have f: "t_extra demo_created = []" "t_attachments demo_created = []" "t_details demo_created = []"
    "t_schema demo_created = SCHEMA_VERSION"
    by (simp_all add: demo_created_def created_ticket_def ticket_new_def demo_new_def Let_def
        normalize_new_ticket_input_def split: option.split prod.split)
  then show "plain_ticket demo_created"
    by (simp add: plain_ticket_def normalize_for_write_def demo_created_fields ticket_write_schema_def
        arrow_heads_used_def crops_used_def intents_used_def shapes_used_def schema_versions)
  show "content_ok P demo_created" using f by (simp add: content_ok_def demo_created_fields)
qed



end
