(* ===== verification/Dist_Claim.thy ===== *)
theory Dist_Claim
  imports Claim_Safety
begin

text \<open>
  Claims without a server (\<open>distclaim.rs\<close>) and the work loop over them (\<open>distwork.rs\<close>).  A claim
  marker is an orphan commit under \<open>refs/hotsheet/claims/<ULID>\<close> on the shared remote; pushes
  to the remote are the compare-and-swap.  The \<open>git\<close> program is a parameter: what a command
  returns and what it does to the world (the remote and the local object stores).  The hypothesis
  \<open>git_remote_laws\<close> is git's documented behaviour on the commands used; a command may also fail.
\<close>

subsection \<open>Markers\<close>

record claim_marker =
  cm_id :: "ulid option"
  cm_worker :: string
  cm_expires_at :: timestamp
  cm_claimed_at :: timestamp
  cm_oid :: string

datatype dist_error = NoRemote | GitFailed string string | DistStore store_error | DistOp op_error | DistPanic

datatype claim_result = Won claim_marker | Lost

definition is_expired :: "claim_marker \<Rightarrow> timestamp \<Rightarrow> bool" where
  "is_expired m now = (chronological_cmp (cm_expires_at m) now \<noteq> Some Greater)"

definition claim_ref :: "platform \<Rightarrow> ulid \<Rightarrow> string" where
  "claim_ref P i = ''refs/hotsheet/claims/'' @ pf_ulid_to_string P i"

text \<open>The \<open>git\<close> program with its arguments and standard input, and serde's codec of a marker.\<close>

type_synonym git_output = "bool \<times> string \<times> string"

record 'w dist_env =
  de_git :: "'w \<Rightarrow> string list \<Rightarrow> string option \<Rightarrow> git_output \<times> 'w"
  de_to_json :: "claim_marker \<Rightarrow> string option"
  de_from_json :: "string \<Rightarrow> claim_marker option"

subsection \<open>Git plumbing\<close>

definition ensure_remote :: "'w dist_env \<Rightarrow> 'w \<Rightarrow> (dist_error + unit) \<times> 'w" where
  "ensure_remote D w =
     (case de_git D w [''remote''] None of
        ((_, out, _), w') \<Rightarrow> (if trim out = [] then Inl NoRemote else Inr (), w'))"

definition commit_tree_args :: "string \<Rightarrow> string \<Rightarrow> string list" where
  "commit_tree_args tree message =
     [''-c'', ''user.name=Hot Sheet'', ''-c'', ''user.email=hotsheet@localhost'', ''commit-tree'',
      trim tree, ''-m'', message]"

definition write_marker_commit :: "'w dist_env \<Rightarrow> 'w \<Rightarrow> claim_marker \<Rightarrow> (dist_error + string) \<times> 'w" where
  "write_marker_commit D w payload =
     (case de_to_json D payload of
        None \<Rightarrow> (Inl (GitFailed ''serialize'' []), w)
      | Some json \<Rightarrow>
          (case de_git D w [''mktree''] (Some []) of
             ((False, _, err), w1) \<Rightarrow> (Inl (GitFailed ''mktree'' err), w1)
           | ((True, tree, _), w1) \<Rightarrow>
               (case de_git D w1 (commit_tree_args tree json) None of
                  ((False, _, err), w2) \<Rightarrow> (Inl (GitFailed ''commit-tree'' err), w2)
                | ((True, commit, _), w2) \<Rightarrow> (Inr (trim commit), w2))))"

definition looks_like_reject :: "platform \<Rightarrow> string \<Rightarrow> bool" where
  "looks_like_reject P stderr =
     (let s = pf_to_lowercase P stderr in
      list_ex (\<lambda>needle. contains_sub needle s)
        [''rejected'', ''fetch first'', ''already exists'', ''non-fast-forward'', ''stale info'', ''failed to push''])"

subsection \<open>Claim, renew, release\<close>

definition payload_of :: "ulid \<Rightarrow> string \<Rightarrow> timestamp \<Rightarrow> timestamp \<Rightarrow> claim_marker" where
  "payload_of i worker expires now =
     \<lparr>cm_id = Some i, cm_worker = worker, cm_expires_at = expires, cm_claimed_at = now, cm_oid = []\<rparr>"

definition push_args :: "string \<Rightarrow> string \<Rightarrow> string list" where
  "push_args commit r = [''push'', ''origin'', commit @ '':'' @ r]"

definition lease_args :: "string \<Rightarrow> string \<Rightarrow> string \<Rightarrow> string list" where
  "lease_args r seen commit = [''push'', ''--force-with-lease='' @ r @ '':'' @ seen, ''origin'', commit @ '':'' @ r]"

definition delete_args :: "string \<Rightarrow> string list" where
  "delete_args r = [''push'', ''origin'', '':'' @ r]"

text \<open>The end of a claim or a renewal: a marker commit and the push that decides.\<close>

definition push_marker ::
  "platform \<Rightarrow> 'w dist_env \<Rightarrow> string \<Rightarrow> (string \<Rightarrow> string list) \<Rightarrow> claim_marker \<Rightarrow> 'w
     \<Rightarrow> (dist_error + claim_result) \<times> 'w" where
  "push_marker P D op args payload w =
     (case ensure_remote D w of
        (Inl e, w0) \<Rightarrow> (Inl e, w0)
      | (Inr _, w0) \<Rightarrow>
          (case write_marker_commit D w0 payload of
             (Inl e, w1) \<Rightarrow> (Inl e, w1)
           | (Inr commit, w1) \<Rightarrow>
               (case de_git D w1 (args commit) None of
                  ((ok, _, err), w2) \<Rightarrow>
                    (if ok then Inr (Won (payload\<lparr>cm_oid := commit\<rparr>))
                     else if looks_like_reject P err then Inr Lost
                     else Inl (GitFailed op err), w2))))"

definition dist_claim ::
  "platform \<Rightarrow> 'w dist_env \<Rightarrow> ulid \<Rightarrow> string \<Rightarrow> timestamp \<Rightarrow> timestamp \<Rightarrow> 'w
     \<Rightarrow> (dist_error + claim_result) \<times> 'w" where
  "dist_claim P D i worker expires now w =
     push_marker P D ''push (claim)'' (\<lambda>commit. push_args commit (claim_ref P i))
       (payload_of i worker expires now) w"

definition dist_renew ::
  "platform \<Rightarrow> 'w dist_env \<Rightarrow> ulid \<Rightarrow> string \<Rightarrow> string \<Rightarrow> timestamp \<Rightarrow> timestamp \<Rightarrow> 'w
     \<Rightarrow> (dist_error + claim_result) \<times> 'w" where
  "dist_renew P D i worker seen expires now w =
     push_marker P D ''push (renew)'' (lease_args (claim_ref P i) seen) (payload_of i worker expires now) w"

definition dist_release :: "platform \<Rightarrow> 'w dist_env \<Rightarrow> ulid \<Rightarrow> 'w \<Rightarrow> (dist_error + bool) \<times> 'w" where
  "dist_release P D i w =
     (case ensure_remote D w of
        (Inl e, w0) \<Rightarrow> (Inl e, w0)
      | (Inr _, w0) \<Rightarrow>
          (case de_git D w0 (delete_args (claim_ref P i)) None of
             ((ok, _, err), w1) \<Rightarrow>
               (if ok then Inr True
                else if contains_sub ''remote ref does not exist'' err then Inr False
                else Inl (GitFailed ''push (release)'' err), w1)))"

subsection \<open>Listing and sweeping\<close>

definition marker_of_line :: "platform \<Rightarrow> 'w dist_env \<Rightarrow> string \<Rightarrow> 'w \<Rightarrow> claim_marker option \<times> 'w" where
  "marker_of_line P D line w =
     (case split_whitespace line of
        oid # refname # _ \<Rightarrow>
          (case pf_ulid_from_string P (last (split_char (CHR ''/'') refname)) of
             None \<Rightarrow> (None, w)
           | Some i \<Rightarrow>
               (case de_git D w [''show'', ''-s'', ''--format=%B'', oid] None of
                  ((ok, msg, _), w') \<Rightarrow>
                    (if ok then map_option (\<lambda>m. m\<lparr>cm_id := Some i, cm_oid := oid\<rparr>) (de_from_json D (trim msg))
                     else None, w')))
      | _ \<Rightarrow> (None, w))"

fun markers_of_lines :: "platform \<Rightarrow> 'w dist_env \<Rightarrow> string list \<Rightarrow> 'w \<Rightarrow> claim_marker list \<times> 'w" where
  "markers_of_lines P D [] w = ([], w)"
| "markers_of_lines P D (l # ls) w =
     (let (m, w1) = marker_of_line P D l w; (ms, w2) = markers_of_lines P D ls w1
      in (case m of None \<Rightarrow> ms | Some m \<Rightarrow> m # ms, w2))"

definition cm_id_cmp :: "claim_marker \<Rightarrow> claim_marker \<Rightarrow> ordering" where
  "cm_id_cmp a b =
     (case (cm_id a, cm_id b) of
        (None, None) \<Rightarrow> Equal | (None, Some _) \<Rightarrow> Less | (Some _, None) \<Rightarrow> Greater
      | (Some i, Some j) \<Rightarrow> ord_cmp i j)"

definition list_claims :: "platform \<Rightarrow> 'w dist_env \<Rightarrow> 'w \<Rightarrow> (dist_error + claim_marker list) \<times> 'w" where
  "list_claims P D w =
     (case ensure_remote D w of
        (Inl e, w0) \<Rightarrow> (Inl e, w0)
      | (Inr _, w0) \<Rightarrow>
          (case de_git D w0 [''ls-remote'', ''origin'', ''refs/hotsheet/claims/*''] None of
             ((False, _, err), w1) \<Rightarrow> (Inl (GitFailed ''ls-remote'' err), w1)
           | ((True, out, _), w1) \<Rightarrow>
               (let w2 = snd (de_git D w1 [''fetch'', ''--quiet'', ''origin'',
                                ''refs/hotsheet/claims/*:refs/hotsheet/claims/*''] None);
                    (ms, w3) = markers_of_lines P D (lines out) w2
                in (Inr (sort_by cm_id_cmp ms), w3))))"

text \<open>Between the listing and each deletion other workers run: \<open>env k\<close> is what they do before the
  deletion with \<open>k\<close> more markers to visit.\<close>

fun sweep_markers ::
  "platform \<Rightarrow> 'w dist_env \<Rightarrow> (nat \<Rightarrow> 'w \<Rightarrow> 'w) \<Rightarrow> timestamp \<Rightarrow> nat \<Rightarrow> claim_marker list \<Rightarrow> 'w
     \<Rightarrow> (dist_error + nat) \<times> 'w" where
  "sweep_markers P D env now reaped [] w = (Inr reaped, w)"
| "sweep_markers P D env now reaped (m # ms) w =
     (if is_expired m now
      then case cm_id m of
          None \<Rightarrow> sweep_markers P D env now reaped ms w
        | Some i \<Rightarrow>
            (case dist_release P D i (env (length ms) w) of
               (Inl e, w') \<Rightarrow> (Inl e, w')
             | (Inr removed, w') \<Rightarrow>
                 sweep_markers P D env now (if removed then reaped + 1 else reaped) ms w')
      else sweep_markers P D env now reaped ms w)"

definition sweep_expired ::
  "platform \<Rightarrow> 'w dist_env \<Rightarrow> (nat \<Rightarrow> 'w \<Rightarrow> 'w) \<Rightarrow> timestamp \<Rightarrow> 'w \<Rightarrow> (dist_error + nat) \<times> 'w" where
  "sweep_expired P D env now w =
     (case list_claims P D w of
        (Inl e, w') \<Rightarrow> (Inl e, w')
      | (Inr ms, w') \<Rightarrow> sweep_markers P D env now 0 ms w')"

subsection \<open>The work loop\<close>

datatype work_outcome = Completed | Continued | Failed

definition candidates :: "platform \<Rightarrow> fs_store \<Rightarrow> timestamp \<Rightarrow> store_error + ulid list" where
  "candidates P s now =
     result_bind (list_tickets P s) (\<lambda>ts.
       Inr (map t_id (sort_by claim_next_order
         (filter (\<lambda>t. is_open t \<and> \<not> is_blocked t \<and> claim_available t now
                      \<and> t_started_phase t \<noteq> Some FinalTesting) ts))))"

definition locally_claimed ::
  "platform \<Rightarrow> string \<Rightarrow> timestamp \<Rightarrow> timestamp \<Rightarrow> ticket \<Rightarrow> ticket" where
  "locally_claimed P worker expires now t =
     start_claimed_ticket P now
       ((append_claim_event P
           (t\<lparr>t_claimed_by := Some worker, t_claim_lease_expires_at := Some expires,
              t_claim_eta_at := None, t_claim_count := t_claim_count t + 1\<rparr>)
           ClaimEv worker now (Some expires) None)\<lparr>t_updated_at := now\<rparr>)"

definition record_local_claim ::
  "platform \<Rightarrow> fs_store \<Rightarrow> ulid \<Rightarrow> string \<Rightarrow> timestamp \<Rightarrow> timestamp \<Rightarrow> (store_error + unit) \<times> fs_store" where
  "record_local_claim P s i worker expires now = with_ticket_transaction s id (\<lambda>s.
     (case read_ticket P s i of
        Inl e \<Rightarrow> (Inl e, s)
      | Inr t \<Rightarrow>
          (case write_ticket_committing P s (locally_claimed P worker expires now t) of
             (Inl e, s') \<Rightarrow> (Inl e, s')
           | (Inr _, s') \<Rightarrow> (Inr (), s'))))"

text \<open>The scan over the candidates; \<open>env k\<close> is what other workers do to the world before the
  attempt with \<open>k\<close> candidates after it.\<close>

fun claim_scan ::
  "platform \<Rightarrow> 'w dist_env \<Rightarrow> (nat \<Rightarrow> 'w \<Rightarrow> 'w) \<Rightarrow> string \<Rightarrow> timestamp \<Rightarrow> timestamp \<Rightarrow> ulid list \<Rightarrow> 'w
     \<Rightarrow> (dist_error + claim_marker option) \<times> 'w" where
  "claim_scan P D env worker expires now [] w = (Inr None, w)"
| "claim_scan P D env worker expires now (i # is) w =
     (case dist_claim P D i worker expires now (env (length is) w) of
        (Inl e, w') \<Rightarrow> (Inl e, w')
      | (Inr (Won m), w') \<Rightarrow> (Inr (Some m), w')
      | (Inr Lost, w') \<Rightarrow> claim_scan P D env worker expires now is w')"

definition select_and_claim ::
  "platform \<Rightarrow> 'w dist_env \<Rightarrow> (nat \<Rightarrow> 'w \<Rightarrow> 'w) \<Rightarrow> fs_store \<Rightarrow> string \<Rightarrow> int \<Rightarrow> timestamp \<Rightarrow> 'w
     \<Rightarrow> (dist_error + claim_marker option) \<times> 'w \<times> fs_store" where
  "select_and_claim P D env s worker lease_minutes now w =
     (case plus_minutes P now lease_minutes of
        None \<Rightarrow> (Inl DistPanic, w, s)
      | Some expires \<Rightarrow>
          (case candidates P s now of
             Inl e \<Rightarrow> (Inl (DistStore e), w, s)
           | Inr is \<Rightarrow>
               (case claim_scan P D env worker expires now is w of
                  (Inl e, w') \<Rightarrow> (Inl e, w', s)
                | (Inr None, w') \<Rightarrow> (Inr None, w', s)
                | (Inr (Some m), w') \<Rightarrow>
                    (case record_local_claim P s (the (cm_id m)) worker expires now of
                       (Inl e, s') \<Rightarrow> (Inl (DistStore e), w', s')
                     | (Inr _, s') \<Rightarrow> (Inr (Some m), w', s')))))"

text \<open>One cycle: claim, drive the ticket (which may change the world and the store), then keep
  the lease or drop it.\<close>

definition work_once ::
  "platform \<Rightarrow> 'w dist_env \<Rightarrow> (nat \<Rightarrow> 'w \<Rightarrow> 'w) \<Rightarrow> fs_store \<Rightarrow> string \<Rightarrow> int \<Rightarrow> timestamp
     \<Rightarrow> (ulid \<Rightarrow> 'w \<times> fs_store \<Rightarrow> work_outcome \<times> 'w \<times> fs_store) \<Rightarrow> 'w
     \<Rightarrow> (dist_error + (ulid \<times> work_outcome) option) \<times> 'w \<times> fs_store" where
  "work_once P D env s worker lease_minutes now drive w =
     (case select_and_claim P D env s worker lease_minutes now w of
        (Inl e, w1, s1) \<Rightarrow> (Inl e, w1, s1)
      | (Inr None, w1, s1) \<Rightarrow> (Inr None, w1, s1)
      | (Inr (Some m), w1, s1) \<Rightarrow>
          (case cm_id m of
             None \<Rightarrow> (Inl DistPanic, w1, s1)
           | Some i \<Rightarrow>
               (case drive i (w1, s1) of
                  (Continued, w2, s2) \<Rightarrow>
                    (case plus_minutes P now lease_minutes of
                       None \<Rightarrow> (Inl DistPanic, w2, s2)
                     | Some expires \<Rightarrow>
                         (case dist_renew P D i worker (cm_oid m) expires now w2 of
                            (Inl e, w3) \<Rightarrow> (Inl e, w3, s2)
                          | (Inr Lost, w3) \<Rightarrow> (Inr (Some (i, Continued)), w3, s2)
                          | (Inr (Won _), w3) \<Rightarrow>
                              (case renew_with_eta_fenced P s2 i (now, expires) worker None None of
                                 (Inl e, s3) \<Rightarrow> (Inl (DistOp e), w3, s3)
                               | (Inr _, s3) \<Rightarrow> (Inr (Some (i, Continued)), w3, s3))))
                | (outcome, w2, s2) \<Rightarrow>
                    (case dist_release P D i w2 of
                       (Inl e, w3) \<Rightarrow> (Inl e, w3, s2)
                     | (Inr _, w3) \<Rightarrow>
                         (Inr (Some (i, outcome)), w3, snd (release P s2 i now worker True))))))"

end
