(* ===== verification/Dist_Safety.thy ===== *)
theory Dist_Safety
  imports Dist_Claim Store_Laws
begin

text \<open>
  What the claims over a shared remote promise.  \<open>git_remote_laws\<close> is the documented behaviour
  of the git commands that \<open>distclaim.rs\<close> runs, with failures and pushes whose success is not
  reported.  From it: a won marker stays the only one of its ticket until its reference is
  deleted or renewed from exactly its object id; the loop over candidates follows the order of
  the local claim-next; and the deletion of a marker checks nothing.
\<close>

subsection \<open>What git does\<close>

definition is_oid :: "string \<Rightarrow> bool" where
  "is_oid s = ((length s = 40 \<or> length s = 64) \<and> list_all (\<lambda>c. c \<in> set ''0123456789abcdef'') s)"

text \<open>\<open>refs\<close> are the references of the remote, \<open>message\<close> the commits known with their messages.
  Only a push changes references.  A plain push writes a free reference or repeats its value, a
  push with a lease writes over the expected value only; a push that reports failure may still
  have been applied.\<close>

definition push_effect :: "bool \<Rightarrow> bool \<Rightarrow> (string \<rightharpoonup> string) \<Rightarrow> (string \<rightharpoonup> string) \<Rightarrow> (string \<rightharpoonup> string) \<Rightarrow> bool" where
  "push_effect ok allowed before applied after =
     (if ok then allowed \<and> after = applied else after = before \<or> allowed \<and> after = applied)"

definition pushes_compare ::
  "platform \<Rightarrow> 'w dist_env \<Rightarrow> ('w \<Rightarrow> string \<rightharpoonup> string) \<Rightarrow> 'w \<Rightarrow> ulid \<Rightarrow> string \<Rightarrow> string \<Rightarrow> bool" where
  "pushes_compare P D refs w i c seen =
     (let r = claim_ref P i; before = refs w
      in push_effect (fst (fst (de_git D w (push_args c r) None))) (before r = None \<or> before r = Some c)
           before (before(r \<mapsto> c)) (refs (snd (de_git D w (push_args c r) None)))
       \<and> push_effect (fst (fst (de_git D w (lease_args r seen c) None))) (before r = Some seen)
           before (before(r \<mapsto> c)) (refs (snd (de_git D w (lease_args r seen c) None)))
       \<and> push_effect (fst (fst (de_git D w (delete_args r) None))) True
           before (before(r := None)) (refs (snd (de_git D w (delete_args r) None))))"

definition git_remote_laws ::
  "platform \<Rightarrow> 'w dist_env \<Rightarrow> ('w \<Rightarrow> string \<rightharpoonup> string) \<Rightarrow> ('w \<Rightarrow> string \<rightharpoonup> string) \<Rightarrow> bool" where
  "git_remote_laws P D refs message =
     (\<forall>w. (\<forall>args inp. message w \<subseteq>\<^sub>m message (snd (de_git D w args inp)))
        \<and> (\<forall>args inp. (case args of [] \<Rightarrow> True | c # _ \<Rightarrow> c \<noteq> ''push'') \<longrightarrow>
             refs (snd (de_git D w args inp)) = refs w)
        \<and> (\<forall>tree text out err w'. de_git D w (commit_tree_args tree text) None = ((True, out, err), w') \<longrightarrow>
             is_oid (trim out) \<and> message w' (trim out) = Some text)
        \<and> (\<forall>i c seen. is_oid c \<longrightarrow> is_oid seen \<longrightarrow> pushes_compare P D refs w i c seen))"

text \<open>A marker reads back from its commit message without the fields that are not serialised.\<close>

definition marker_codec :: "'w dist_env \<Rightarrow> bool" where
  "marker_codec D =
     (\<forall>m j. de_to_json D m = Some j \<longrightarrow> de_from_json D j = Some (m\<lparr>cm_id := None, cm_oid := []\<rparr>))"

lemma claim_ref_inj:
  assumes "ulid_text_order P"
  shows "claim_ref P i = claim_ref P j \<longleftrightarrow> i = j"
  using ulid_text_inj[OF assms, of i j] by (auto simp: claim_ref_def)

subsection \<open>Runs of several workers\<close>

text \<open>The calls of any number of workers, in the order in which the remote takes their pushes; a
  sweep is a listing followed by releases.\<close>

datatype dist_op =
  ClaimOp ulid string timestamp timestamp
| RenewOp ulid string string timestamp timestamp
| ReleaseOp ulid
| ListOp

definition won :: "dist_error + claim_result \<Rightarrow> claim_marker option" where
  "won r = (case r of Inr (Won m) \<Rightarrow> Some m | _ \<Rightarrow> None)"

fun dist_step :: "platform \<Rightarrow> 'w dist_env \<Rightarrow> dist_op \<Rightarrow> 'w \<Rightarrow> claim_marker option \<times> 'w" where
  "dist_step P D (ClaimOp i worker expires now) w = apfst won (dist_claim P D i worker expires now w)"
| "dist_step P D (RenewOp i worker seen expires now) w = apfst won (dist_renew P D i worker seen expires now w)"
| "dist_step P D (ReleaseOp i) w = (None, snd (dist_release P D i w))"
| "dist_step P D ListOp w = (None, snd (list_claims P D w))"

fun dist_run :: "platform \<Rightarrow> 'w dist_env \<Rightarrow> dist_op list \<Rightarrow> 'w \<Rightarrow> claim_marker list \<times> 'w" where
  "dist_run P D [] w = ([], w)"
| "dist_run P D (x # xs) w =
     (let (m, w1) = dist_step P D x w; (ms, w2) = dist_run P D xs w1
      in (case m of None \<Rightarrow> ms | Some m \<Rightarrow> m # ms, w2))"

text \<open>A call names object ids where it names a seen marker.\<close>

fun names_oids :: "dist_op \<Rightarrow> bool" where
  "names_oids (RenewOp i worker seen expires now) = is_oid seen"
| "names_oids _ = True"

text \<open>A call that may end the marker with object id \<open>c\<close> of ticket \<open>i\<close>: a release of the ticket or
  a renewal from exactly that marker.\<close>

fun may_end :: "ulid \<Rightarrow> string \<Rightarrow> dist_op \<Rightarrow> bool" where
  "may_end i c (RenewOp j worker seen expires now) = (j = i \<and> seen = c)"
| "may_end i c (ReleaseOp j) = (j = i)"
| "may_end i c _ = False"

subsection \<open>Single calls\<close>

lemma git_mono: "git_remote_laws P D refs message \<Longrightarrow> message w \<subseteq>\<^sub>m message (snd (de_git D w args inp))"
  by (simp add: git_remote_laws_def)

lemma git_no_push:
  "git_remote_laws P D refs message \<Longrightarrow> (case args of [] \<Rightarrow> True | c # _ \<Rightarrow> c \<noteq> ''push'') \<Longrightarrow>
     refs (snd (de_git D w args inp)) = refs w"
  by (simp add: git_remote_laws_def)

lemma git_compare:
  "git_remote_laws P D refs message \<Longrightarrow> is_oid c \<Longrightarrow> is_oid seen \<Longrightarrow> pushes_compare P D refs w i c seen"
  by (simp add: git_remote_laws_def)

lemma git_commit:
  "git_remote_laws P D refs message \<Longrightarrow> de_git D w (commit_tree_args tree tx) None = ((True, out, err), w') \<Longrightarrow>
     is_oid (trim out) \<and> message w' (trim out) = Some tx"
  unfolding git_remote_laws_def by blast

text \<open>A call that reads only: the references stay, known commits stay known.\<close>

definition quiet :: "('w \<Rightarrow> string \<rightharpoonup> string) \<Rightarrow> ('w \<Rightarrow> string \<rightharpoonup> string) \<Rightarrow> 'w \<Rightarrow> 'w \<Rightarrow> bool" where
  "quiet refs message w w' = (refs w' = refs w \<and> message w \<subseteq>\<^sub>m message w')"

lemma quiet_refl [simp]: "quiet refs message w w"
  by (simp add: quiet_def)

lemma quiet_trans: "quiet refs message a b \<Longrightarrow> quiet refs message b c \<Longrightarrow> quiet refs message a c"
  by (auto simp: quiet_def intro: map_le_trans)

lemma quiet_git:
  "git_remote_laws P D refs message \<Longrightarrow> de_git D w (c # args) inp = (r, w') \<Longrightarrow> c \<noteq> ''push'' \<Longrightarrow>
     quiet refs message w w'"
  using git_mono[of P D refs message w "c # args" inp] git_no_push[of P D refs message "c # args" w inp]
  by (simp add: quiet_def)

lemma quiet_remote:
  "git_remote_laws P D refs message \<Longrightarrow> ensure_remote D w = (r, w') \<Longrightarrow> quiet refs message w w'"
  by (auto simp: ensure_remote_def split: prod.splits elim!: quiet_git)

lemma marker_commit_effect:
  assumes "git_remote_laws P D refs message" "write_marker_commit D w payload = (r, w')"
  shows "quiet refs message w w'"
    "r = Inr c \<Longrightarrow> is_oid c \<and> (\<exists>j. de_to_json D payload = Some j \<and> message w' c = Some j)"
proof -
  have q: "quiet refs message a b" if "de_git D a (commit_tree_args t j) None = (x, b)" for a b t j x
    using quiet_git[OF assms(1), of a "''-c''"] that by (simp add: commit_tree_args_def)
  show "quiet refs message w w'"
    using assms q
    by (auto simp: write_marker_commit_def split: option.splits prod.splits bool.splits
        intro: quiet_git[OF assms(1), of _ "''mktree''"] quiet_trans)
  show "is_oid c \<and> (\<exists>j. de_to_json D payload = Some j \<and> message w' c = Some j)" if "r = Inr c"
    using assms that
    by (auto simp: write_marker_commit_def split: option.splits prod.splits bool.splits
        dest!: git_commit)
qed

text \<open>A claim or a renewal either pushes nothing and wins nothing, or ends with the push of a
  fresh marker commit, which decides.\<close>

lemma push_marker_effect:
  assumes "git_remote_laws P D refs message" "push_marker P D op args payload w = (r, w')"
  obtains (unpushed) "quiet refs message w w'" "won r = None"
  | (pushed) c w1 j where "quiet refs message w w1" "is_oid c" "de_to_json D payload = Some j"
      "message w1 c = Some j" "w' = snd (de_git D w1 (args c) None)"
      "won r = (if fst (fst (de_git D w1 (args c) None)) then Some (payload\<lparr>cm_oid := c\<rparr>) else None)"
proof -
  obtain e w0 where e: "ensure_remote D w = (e, w0)" by fastforce
  obtain c w1 where c: "write_marker_commit D w0 payload = (c, w1)" by fastforce
  obtain ok out err w2 where g: "de_git D w1 (args (projr c)) None = ((ok, out, err), w2)"
    by (metis surj_pair)
  note q = quiet_remote[OF assms(1) e] marker_commit_effect[OF assms(1) c]
  show thesis
  proof (cases "isl e \<or> isl c")
    case True
    with assms(2) e c q(1,2) show thesis
      by (intro unpushed)
        (auto simp: push_marker_def won_def isl_def split: sum.splits intro: quiet_trans)
  next
    case False
    then obtain c' where c': "c = Inr c'" by (cases c) auto
    with q(3)[OF c'] obtain j where "is_oid c'" "de_to_json D payload = Some j" "message w1 c' = Some j"
      by blast
    with False assms(2) e c g c' quiet_trans[OF q(1,2)] show thesis
      by (intro pushed[of w1 c' j])
        (auto simp: push_marker_def won_def isl_def split: sum.splits if_splits)
  qed
qed

subsection \<open>The marker of a ticket\<close>

text \<open>Marker \<open>m\<close> is the current one of ticket \<open>i\<close>: the reference names its commit, whose message is
  its text.\<close>

definition marked ::
  "platform \<Rightarrow> 'w dist_env \<Rightarrow> ('w \<Rightarrow> string \<rightharpoonup> string) \<Rightarrow> ('w \<Rightarrow> string \<rightharpoonup> string) \<Rightarrow> ulid \<Rightarrow> claim_marker \<Rightarrow> 'w
     \<Rightarrow> bool" where
  "marked P D refs message i m w =
     (cm_id m = Some i \<and> is_oid (cm_oid m) \<and> refs w (claim_ref P i) = Some (cm_oid m)
      \<and> (\<exists>j. de_to_json D (m\<lparr>cm_oid := []\<rparr>) = Some j \<and> message w (cm_oid m) = Some j))"

lemma marked_unique:
  assumes "marker_codec D" "marked P D refs message i m w" "marked P D refs message i m' w"
  shows "m' = m"
proof -
  obtain j where j: "de_to_json D (m\<lparr>cm_oid := []\<rparr>) = Some j" "de_to_json D (m'\<lparr>cm_oid := []\<rparr>) = Some j"
    and eq: "cm_oid m' = cm_oid m" "cm_id m' = cm_id m"
    using assms(2,3) by (auto simp: marked_def)
  have "m\<lparr>cm_id := None, cm_oid := []\<rparr> = m'\<lparr>cm_id := None, cm_oid := []\<rparr>"
    using j(1)[THEN assms(1)[unfolded marker_codec_def, rule_format]]
      j(2)[THEN assms(1)[unfolded marker_codec_def, rule_format]] by simp
  with eq show ?thesis by (cases m; cases m') simp
qed

text \<open>What a push at ticket \<open>j\<close> does to the reference of ticket \<open>i\<close>.\<close>

lemmas push_simps = pushes_compare_def push_effect_def Let_def

lemma push_marks:
  assumes "git_remote_laws P D refs message" "is_oid c" "is_oid seen"
    "args = push_args c (claim_ref P i) \<or> args = lease_args (claim_ref P i) seen c"
    "fst (fst (de_git D w args None))"
  shows "refs (snd (de_git D w args None)) (claim_ref P i) = Some c"
  using assms(4,5) git_compare[OF assms(1-3), of w i] by (auto simp: push_simps)

lemma push_keeps:
  assumes "git_remote_laws P D refs message" "ulid_text_order P" "is_oid c" "is_oid seen"
    "args = push_args c (claim_ref P j) \<or> args = lease_args (claim_ref P j) seen c \<and> (j = i \<longrightarrow> seen \<noteq> v)
     \<or> args = delete_args (claim_ref P j) \<and> j \<noteq> i"
    "refs w (claim_ref P i) = Some v"
  shows "refs (snd (de_git D w args None)) (claim_ref P i) = Some v"
  using assms(5,6) git_compare[OF assms(1,3,4), of w j] claim_ref_inj[OF assms(2)]
  by (auto simp: push_simps split: if_splits)

lemma quiet_marked: "quiet refs message w w' \<Longrightarrow> marked P D refs message i m w \<Longrightarrow> marked P D refs message i m w'"
  by (auto simp: marked_def quiet_def map_le_def dom_def)

lemma git_marked:
  assumes "git_remote_laws P D refs message" "marked P D refs message i m w"
    "refs (snd (de_git D w args inp)) (claim_ref P i) = Some (cm_oid m)"
  shows "marked P D refs message i m (snd (de_git D w args inp))"
  using assms(2,3) git_mono[OF assms(1), of w args inp] by (auto simp: marked_def map_le_def dom_def)

lemma push_marker_won:
  assumes "git_remote_laws P D refs message" "push_marker P D op args (payload_of i worker expires now) w = (r, w')"
    "won r = Some m" "is_oid seen"
    "\<And>c. args c = push_args c (claim_ref P i) \<or> args c = lease_args (claim_ref P i) seen c"
  shows "marked P D refs message i m w'"
  using assms(1,2)
proof (cases rule: push_marker_effect)
  case unpushed
  with assms(3) show ?thesis by simp
next
  case (pushed c w1 j)
  have m: "m = (payload_of i worker expires now)\<lparr>cm_oid := c\<rparr>" and ok: "fst (fst (de_git D w1 (args c) None))"
    using pushed(6) assms(3) by (auto split: if_splits)
  have "refs w' (claim_ref P i) = Some c"
    using push_marks[OF assms(1) pushed(2) assms(4,5) ok] pushed(5) by simp
  moreover have "message w' c = Some j"
    using git_mono[OF assms(1), of w1 "args c" None] pushed(4,5) by (auto simp: map_le_def dom_def)
  ultimately show ?thesis using pushed(2,3) m by (simp add: marked_def payload_of_def)
qed

lemma push_marker_kept:
  assumes "git_remote_laws P D refs message" "ulid_text_order P"
    "push_marker P D op args payload w = (r, w')" "marked P D refs message i m w" "is_oid seen"
    "\<And>c. args c = push_args c (claim_ref P j)
       \<or> args c = lease_args (claim_ref P j) seen c \<and> (j = i \<longrightarrow> seen \<noteq> cm_oid m)"
  shows "marked P D refs message i m w'"
  using assms(1,3)
proof (cases rule: push_marker_effect)
  case unpushed
  then show ?thesis using quiet_marked[OF _ assms(4)] by simp
next
  case (pushed c w1 k)
  from pushed(1) assms(4) have m: "marked P D refs message i m w1" by (rule quiet_marked)
  then have "refs (snd (de_git D w1 (args c) None)) (claim_ref P i) = Some (cm_oid m)"
    using assms(6)[of c] by (intro push_keeps[OF assms(1,2) pushed(2) assms(5)]) (auto simp: marked_def)
  with git_marked[OF assms(1) m] pushed(5) show ?thesis by blast
qed

lemma quiet_markers:
  "git_remote_laws P D refs message \<Longrightarrow> markers_of_lines P D ls w = (ms, w') \<Longrightarrow> quiet refs message w w'"
proof (induction ls arbitrary: w ms)
  case (Cons l ls)
  obtain m w1 ns where l: "marker_of_line P D l w = (m, w1)" "markers_of_lines P D ls w1 = (ns, w')"
    using Cons.prems(2) by (auto simp: Let_def split: prod.splits)
  have "quiet refs message w w1"
    using l(1) quiet_git[OF Cons.prems(1), of w "''show''"]
    by (auto simp: marker_of_line_def split: list.splits option.splits prod.splits)
  with Cons.IH[OF Cons.prems(1) l(2)] show ?case by (rule quiet_trans[rotated])
qed simp

lemma quiet_list:
  assumes "git_remote_laws P D refs message" "list_claims P D w = (r, w')"
  shows "quiet refs message w w'"
proof -
  obtain e w0 where e: "ensure_remote D w = (e, w0)" by fastforce
  obtain ok out err w1 where l: "de_git D w0 [''ls-remote'', ''origin'', ''refs/hotsheet/claims/*''] None = ((ok, out, err), w1)"
    by (metis surj_pair)
  obtain x w2 where f: "de_git D w1 [''fetch'', ''--quiet'', ''origin'',
      ''refs/hotsheet/claims/*:refs/hotsheet/claims/*''] None = (x, w2)" by fastforce
  obtain ms w3 where m: "markers_of_lines P D (lines out) w2 = (ms, w3)" by fastforce
  have q: "quiet refs message w w0" "quiet refs message w0 w1" "quiet refs message w1 w2" "quiet refs message w2 w3"
    using quiet_remote[OF assms(1) e] quiet_git[OF assms(1) l] quiet_git[OF assms(1) f]
      quiet_markers[OF assms(1) m] by simp_all
  have q3: "quiet refs message w w1" "quiet refs message w w3"
    using quiet_trans[OF q(1,2)] quiet_trans[OF quiet_trans[OF quiet_trans[OF q(1,2)] q(3)] q(4)] by simp_all
  show ?thesis
    using assms(2) q(1) q3 by (cases e; cases ok) (simp_all add: list_claims_def e l f m Let_def)
qed

lemma release_kept:
  assumes "git_remote_laws P D refs message" "ulid_text_order P"
    "dist_release P D j w = (r, w')" "marked P D refs message i m w" "j \<noteq> i"
  shows "marked P D refs message i m w'"
proof -
  obtain e w0 where e: "ensure_remote D w = (e, w0)" by fastforce
  have m: "marked P D refs message i m w0" by (rule quiet_marked[OF quiet_remote[OF assms(1) e] assms(4)])
  then have o: "is_oid (cm_oid m)" "refs w0 (claim_ref P i) = Some (cm_oid m)" by (simp_all add: marked_def)
  have "refs (snd (de_git D w0 (delete_args (claim_ref P j)) None)) (claim_ref P i) = Some (cm_oid m)"
    using o(2) assms(5) by (intro push_keeps[OF assms(1,2) o(1) o(1)]) auto
  from git_marked[OF assms(1) m this] m show ?thesis
    using assms(3) e by (auto simp: dist_release_def split: sum.splits prod.splits)
qed

lemma dist_step_won:
  assumes "git_remote_laws P D refs message" "names_oids x" "dist_step P D x w = (Some m, w')"
  shows "\<exists>i. marked P D refs message i m w'"
proof (cases x)
  case (ClaimOp i worker expires now)
  then obtain r where "dist_claim P D i worker expires now w = (r, w')" "won r = Some m"
    using assms(3) by (auto simp: apfst_def map_prod_def split: prod.splits)
  moreover have "is_oid (replicate 40 (CHR ''0''))" by (simp add: is_oid_def eval_nat_numeral)
  ultimately show ?thesis unfolding dist_claim_def by (blast intro: push_marker_won[OF assms(1)])
next
  case (RenewOp i worker seen expires now)
  then obtain r where "dist_renew P D i worker seen expires now w = (r, w')" "won r = Some m" "is_oid seen"
    using assms(2,3) by (auto simp: apfst_def map_prod_def split: prod.splits)
  then show ?thesis unfolding dist_renew_def by (blast intro: push_marker_won[OF assms(1)])
qed (use assms(3) in auto)

lemma dist_step_kept:
  assumes "git_remote_laws P D refs message" "ulid_text_order P" "names_oids x"
    "dist_step P D x w = (r, w')" "marked P D refs message i m w" "\<not> may_end i (cm_oid m) x"
  shows "marked P D refs message i m w'"
proof (cases x)
  case (ClaimOp j worker expires now)
  then obtain q where "dist_claim P D j worker expires now w = (q, w')"
    using assms(4) by (auto simp: apfst_def map_prod_def split: prod.splits)
  moreover have "is_oid (cm_oid m)" using assms(5) by (simp add: marked_def)
  ultimately show ?thesis
    unfolding dist_claim_def by (blast intro: push_marker_kept[OF assms(1,2) _ assms(5)])
next
  case (RenewOp j worker seen expires now)
  then obtain q where "dist_renew P D j worker seen expires now w = (q, w')" "is_oid seen"
      "j = i \<longrightarrow> seen \<noteq> cm_oid m"
    using assms(3,4,6) by (auto simp: apfst_def map_prod_def split: prod.splits)
  then show ?thesis
    unfolding dist_renew_def by (blast intro: push_marker_kept[OF assms(1,2) _ assms(5)])
next
  case (ReleaseOp j)
  with assms show ?thesis by (cases "dist_release P D j w") (auto intro: release_kept)
next
  case ListOp
  with assms show ?thesis by (cases "list_claims P D w") (auto intro: quiet_marked quiet_list)
qed

lemma dist_run_kept:
  assumes "git_remote_laws P D refs message" "ulid_text_order P" "marker_codec D"
    "list_all names_oids xs" "dist_run P D xs w = (ms, w')" "marked P D refs message i m w"
    "\<not> list_ex (may_end i (cm_oid m)) xs"
  shows "marked P D refs message i m w' \<and> filter (\<lambda>m'. cm_id m' = Some i \<and> m' \<noteq> m) ms = []"
  using assms(4-7)
proof (induction xs arbitrary: w ms)
  case (Cons x xs)
  obtain r w1 ns where s: "dist_step P D x w = (r, w1)" "dist_run P D xs w1 = (ns, w')"
    and ms: "ms = (case r of None \<Rightarrow> ns | Some m \<Rightarrow> m # ns)"
    using Cons.prems(2) by (auto simp: Let_def split: prod.splits)
  have m: "marked P D refs message i m w1"
    using Cons.prems by (intro dist_step_kept[OF assms(1,2) _ s(1)]) auto
  have "m' = m" if r: "r = Some m'" and i: "cm_id m' = Some i" for m'
  proof -
    obtain k where "marked P D refs message k m' w1"
      using dist_step_won[OF assms(1), of x w m' w1] s(1) r Cons.prems(1) by auto
    with i have "marked P D refs message i m' w1" by (simp add: marked_def)
    with m show ?thesis by (rule marked_unique[OF assms(3)])
  qed
  moreover have "marked P D refs message i m w' \<and> filter (\<lambda>m'. cm_id m' = Some i \<and> m' \<noteq> m) ns = []"
    using Cons.prems by (intro Cons.IH[OF _ s(2) m]) auto
  ultimately show ?case using ms by (auto split: option.splits)
qed simp

subsection \<open>A concrete remote\<close>

text \<open>A remote held in memory on which the laws hold: references, commits and three markers that
  can be written.\<close>

record demo_world =
  dw_refs :: "(string \<times> string) list"
  dw_commits :: "(string \<times> string) list"

definition demo_oid :: "nat \<Rightarrow> string" where
  "demo_oid n = replicate 39 (CHR ''0'') @ [''0123456789'' ! n]"

definition demo_commit :: "string \<Rightarrow> demo_world \<Rightarrow> git_output \<times> demo_world" where
  "demo_commit tx w =
     (let c = demo_oid (length (dw_commits w)) in
      if length (dw_commits w) < 10 \<and> map_of (dw_commits w) c = None
      then ((True, c, []), w\<lparr>dw_commits := dw_commits w @ [(c, tx)]\<rparr>)
      else ((False, [], ''full''), w))"

definition demo_push :: "string \<Rightarrow> (string \<Rightarrow> string \<Rightarrow> string option \<Rightarrow> bool) \<Rightarrow> demo_world \<Rightarrow> git_output \<times> demo_world" where
  "demo_push refspec allowed w =
     (let c = takeWhile (\<lambda>x. x \<noteq> CHR '':'') refspec; r = tl (dropWhile (\<lambda>x. x \<noteq> CHR '':'') refspec);
          now = map_of (dw_refs w) r
      in if c = [] then (if now = None then ((False, [], ''remote ref does not exist''), w)
                         else ((True, [], []), w\<lparr>dw_refs := AList.delete r (dw_refs w)\<rparr>))
         else if allowed c r now then ((True, [], []), w\<lparr>dw_refs := AList.update r c (dw_refs w)\<rparr>)
         else ((False, [], ''rejected''), w))"

fun demo_git :: "demo_world \<Rightarrow> string list \<Rightarrow> string option \<Rightarrow> git_output \<times> demo_world" where
  "demo_git w args inp =
     (case args of
        [] \<Rightarrow> ((False, [], []), w)
      | c # rest \<Rightarrow>
          (if c = ''remote'' then ((True, ''origin'', []), w)
           else if c = ''-c'' \<and> length rest = 7 then demo_commit (rest ! 6) w
           else if c = ''push'' \<and> length rest = 2
             then demo_push (rest ! 1) (\<lambda>c r now. now = None \<or> now = Some c) w
           else if c = ''push'' \<and> length rest = 3
             then demo_push (rest ! 2)
                    (\<lambda>c r now. now \<noteq> None \<and> rest ! 0 = ''--force-with-lease='' @ r @ '':'' @ the now) w
           else if c = ''ls-remote''
             then ((True, concat (map (\<lambda>(r, c). c @ '' '' @ r @ [CHR 0x0A]) (dw_refs w)), []), w)
           else if c = ''show'' \<and> length rest = 3
             then (case map_of (dw_commits w) (rest ! 2) of
                     None \<Rightarrow> ((False, [], []), w) | Some m \<Rightarrow> ((True, m, []), w))
           else ((True, [], []), w)))"

declare demo_git.simps [simp del]

definition demo_marker :: "string \<Rightarrow> nat \<Rightarrow> nat \<Rightarrow> claim_marker" where
  "demo_marker worker expires now =
     \<lparr>cm_id = None, cm_worker = worker, cm_expires_at = at_ns expires, cm_claimed_at = at_ns now, cm_oid = []\<rparr>"

definition demo_texts :: "(claim_marker \<times> string) list" where
  "demo_texts = [(demo_marker ''a'' 10 0, ''a10''), (demo_marker ''b'' 30 20, ''b30''), (demo_marker ''a'' 40 20, ''a40'')]"

definition demo_dist :: "demo_world dist_env" where
  "demo_dist = \<lparr>de_git = demo_git,
     de_to_json = (\<lambda>m. map_of demo_texts (m\<lparr>cm_id := None, cm_oid := []\<rparr>)),
     de_from_json = map_of (map prod.swap demo_texts)\<rparr>"

lemma demo_marker_codec: "marker_codec demo_dist"
proof -
  have "map_of (map prod.swap demo_texts) j = Some m" if "map_of demo_texts m = Some j" for m j
    using map_of_SomeD[OF that] by (auto simp: demo_texts_def)
  then show ?thesis by (simp add: marker_codec_def demo_dist_def)
qed

lemma is_oid_demo: "n < 10 \<Longrightarrow> is_oid (demo_oid n)"
  by (auto simp: is_oid_def demo_oid_def list_all_length nth_append less_Suc_eq eval_nat_numeral)

lemma oid_plain: "is_oid c \<Longrightarrow> c \<noteq> [] \<and> list_all (\<lambda>x. x \<noteq> CHR '':'') c"
proof -
  assume c: "is_oid c"
  have "CHR '':'' \<notin> set ''0123456789abcdef''" by simp
  with c have "x \<noteq> CHR '':''" if "x \<in> set c" for x
    using that unfolding is_oid_def list_all_iff by metis
  moreover from c have "c \<noteq> []" unfolding is_oid_def by (metis list.size(3) zero_neq_numeral)
  ultimately show ?thesis by (simp add: list_all_iff)
qed

lemma split_refspec:
  assumes "list_all (\<lambda>x. x \<noteq> CHR '':'') c"
  shows "takeWhile (\<lambda>x. x \<noteq> CHR '':'') (c @ CHR '':'' # r) = c"
    "dropWhile (\<lambda>x. x \<noteq> CHR '':'') (c @ CHR '':'' # r) = CHR '':'' # r"
  using assms by (induction c) auto

lemma demo_pushes:
  assumes "is_oid c" "is_oid seen"
  shows "pushes_compare demo demo_dist (map_of \<circ> dw_refs) w i c seen"
  using oid_plain[OF assms(1)] split_refspec[of c "claim_ref demo i"]
  by (auto simp: push_simps demo_dist_def push_args_def lease_args_def delete_args_def demo_git.simps
      demo_push_def update_conv' delete_conv' map_of_eq_None_iff)

lemma demo_oid_trim: "n < 10 \<Longrightarrow> trim (demo_oid n) = demo_oid n"
  by (intro ws_free_trim ws_free_digits)
    (auto simp: demo_oid_def is_ascii_digit_def list_all_length nth_append less_Suc_eq eval_nat_numeral)

lemma demo_commit_mono: "map_of (dw_commits w) \<subseteq>\<^sub>m map_of (dw_commits (snd (demo_commit tx w)))"
  by (auto simp: demo_commit_def Let_def map_le_def)

lemma demo_push_commits: "dw_commits (snd (demo_push a f w)) = dw_commits w"
  by (simp add: demo_push_def Let_def)

lemma demo_commit_refs: "dw_refs (snd (demo_commit tx w)) = dw_refs w"
  by (simp add: demo_commit_def Let_def)

lemma demo_laws: "git_remote_laws demo demo_dist (map_of \<circ> dw_refs) (map_of \<circ> dw_commits)"
proof -
  have mono: "map_of (dw_commits w) \<subseteq>\<^sub>m map_of (dw_commits (snd (demo_git w args inp)))" for w args inp
    unfolding demo_git.simps
    by (cases args) (simp_all add: demo_commit_mono demo_push_commits split: option.split)
  have same: "map_of (dw_refs (snd (demo_git w args inp))) = map_of (dw_refs w)"
    if "case args of [] \<Rightarrow> True | c # _ \<Rightarrow> c \<noteq> ''push''" for w args inp
    using that unfolding demo_git.simps
    by (cases args) (simp_all add: demo_commit_refs split: option.split)
  have commit: "is_oid (trim out) \<and> map_of (dw_commits w') (trim out) = Some tx"
    if "demo_git w (commit_tree_args tree tx) None = ((True, out, err), w')" for w tree tx out err w'
    using that is_oid_demo[of "length (dw_commits w)"] demo_oid_trim[of "length (dw_commits w)"]
    by (auto simp: demo_git.simps commit_tree_args_def demo_commit_def Let_def map_add_def split: if_splits)
  show ?thesis
    unfolding git_remote_laws_def
    using mono same commit demo_pushes by (auto simp: demo_dist_def)
qed

lemma demo_remote [simp]: "ensure_remote demo_dist w = (Inr (), w)"
proof -
  have "trim ''origin'' = ''origin''" by (rule trim_id) (simp_all add: ascii_ws_def wide_ws2_def wide_ws3_def)
  then show ?thesis by (simp add: ensure_remote_def demo_dist_def demo_git.simps)
qed

lemma demo_write_marker:
  assumes "de_to_json demo_dist payload = Some tx" "length (dw_commits w) = n" "n < 10"
    "map_of (dw_commits w) (demo_oid n) = None"
  shows "write_marker_commit demo_dist w payload =
    (Inr (demo_oid n), w\<lparr>dw_commits := dw_commits w @ [(demo_oid n, tx)]\<rparr>)"
proof -
  have "de_git demo_dist w [''mktree''] (Some []) = ((True, [], []), w)"
    by (simp add: demo_dist_def demo_git.simps)
  moreover have "de_git demo_dist w (commit_tree_args [] tx) None = demo_commit tx w"
    by (simp add: demo_dist_def demo_git.simps commit_tree_args_def)
  ultimately show ?thesis using assms demo_oid_trim[of n]
    by (simp add: write_marker_commit_def demo_commit_def Let_def)
qed

lemma demo_git_pushes:
  assumes "is_oid c"
  shows "de_git demo_dist w (push_args c r) None =
      (if map_of (dw_refs w) r = None \<or> map_of (dw_refs w) r = Some c
       then ((True, [], []), w\<lparr>dw_refs := AList.update r c (dw_refs w)\<rparr>) else ((False, [], ''rejected''), w))"
    "de_git demo_dist w (lease_args r seen c) None =
      (if map_of (dw_refs w) r = Some seen
       then ((True, [], []), w\<lparr>dw_refs := AList.update r c (dw_refs w)\<rparr>) else ((False, [], ''rejected''), w))"
    "de_git demo_dist w (delete_args r) None =
      (if map_of (dw_refs w) r = None then ((False, [], ''remote ref does not exist''), w)
       else ((True, [], []), w\<lparr>dw_refs := AList.delete r (dw_refs w)\<rparr>))"
  using oid_plain[OF assms] split_refspec[of c r]
  by (auto simp: demo_dist_def push_args_def lease_args_def delete_args_def demo_git.simps demo_push_def Let_def)

definition demo_before :: demo_world where
  "demo_before = \<lparr>dw_refs = [], dw_commits = []\<rparr>"

definition demo_first :: claim_marker where
  "demo_first = (payload_of 1 ''a'' (at_ns 10) (at_ns 0))\<lparr>cm_oid := demo_oid 0\<rparr>"

definition demo_after :: demo_world where
  "demo_after = \<lparr>dw_refs = [(claim_ref demo 1, demo_oid 0)], dw_commits = [(demo_oid 0, ''a10'')]\<rparr>"

lemma demo_json_texts:
  "de_to_json demo_dist (payload_of i ''a'' (at_ns 10) (at_ns 0)) = Some ''a10''"
  "de_to_json demo_dist (payload_of i ''a'' (at_ns 40) (at_ns 20)) = Some ''a40''"
  by (simp_all add: demo_dist_def demo_texts_def payload_of_def demo_marker_def at_ns_def)

lemma demo_first_won:
  "dist_claim demo demo_dist 1 ''a'' (at_ns 10) (at_ns 0) demo_before = (Inr (Won demo_first), demo_after)"
proof -
  have "write_marker_commit demo_dist demo_before (payload_of 1 ''a'' (at_ns 10) (at_ns 0)) =
      (Inr (demo_oid 0), \<lparr>dw_refs = [], dw_commits = [(demo_oid 0, ''a10'')]\<rparr>)"
    by (subst demo_write_marker[OF demo_json_texts(1)]) (simp_all add: demo_before_def)
  then show ?thesis
    by (simp add: dist_claim_def push_marker_def demo_git_pushes[OF is_oid_demo] demo_first_def demo_after_def)
qed

subsection \<open>Properties\<close>



lemma hd_sort_by_min_by: "map_option t_id (min_by claim_next_order ts) =
    (case map t_id (sort_by claim_next_order ts) of [] \<Rightarrow> None | i # _ \<Rightarrow> Some i)"
proof (cases "sort_by claim_next_order ts")
  case Nil
  then have "ts = []" by (metis set_sort_by set_empty)
  then show ?thesis by simp
next
  case (Cons a as)
  then have ne: "ts \<noteq> []" by auto
  then obtain m where m: "min_by claim_next_order ts = Some m" by fastforce
  have s: "sorted_by claim_next_order (a # as)" using cn.sorted_sort_by[of ts] Cons by simp
  have set: "set ts = set (a # as)" by (metis Cons set_sort_by)
  have "m \<in> set (a # as)" using min_by_in_set[OF m] set by simp
  then have "claim_next_order a m \<noteq> Greater" using s cn.cmp_refl by (auto simp: sorted_by_def)
  moreover have "claim_next_order m a \<noteq> Greater" using cn.min_by_least[OF _ m] set by simp
  ultimately have "claim_next_order m a = Equal"
    using cn.cmp_sym[of a m] by (cases "claim_next_order m a") auto
  with m Cons claim_next_order_id show ?thesis by simp
qed

text \<open>The first ticket the distributed loop tries is the one the local claim-next would
  take, and the listing fails exactly when that one's does.\<close>

theorem candidates_match_claim_next:
  "map_sum id (\<lambda>is. case is of [] \<Rightarrow> None | i # _ \<Rightarrow> Some i) (candidates P s now)
     = map_sum id (map_option t_id) (peek_claim_next P s now)"
  using hd_sort_by_min_by
  by (cases "list_tickets P s")
    (simp_all add: candidates_def peek_claim_next_def claim_next_queue_def claim_next_eligible_def)

lemma claim_scan_won:
  assumes "git_remote_laws P D refs message" "claim_scan P D env worker expires now is w = (Inr (Some m), w')"
  shows "\<exists>i \<in> set is. marked P D refs message i m w' \<and> cm_worker m = worker \<and> cm_expires_at m = expires
    \<and> cm_claimed_at m = now"
  using assms(2)
proof (induction "is" arbitrary: w)
  case (Cons i "is")
  obtain r w1 where r: "dist_claim P D i worker expires now (env (length is) w) = (r, w1)" by fastforce
  show ?case
  proof (cases "won r")
    case None
    with Cons.prems r have "claim_scan P D env worker expires now is w1 = (Inr (Some m), w')"
      by (auto simp: won_def split: sum.splits claim_result.splits)
    with Cons.IH show ?thesis by auto
  next
    case (Some m')
    with Cons.prems r have eq: "m' = m" "w1 = w'" by (auto simp: won_def split: sum.splits claim_result.splits)
    have "is_oid (demo_oid 0)" by (rule is_oid_demo) simp
    then have "marked P D refs message i m w'"
      using push_marker_won[OF assms(1) r[unfolded dist_claim_def] Some] eq by blast
    moreover have "\<exists>c. m = (payload_of i worker expires now)\<lparr>cm_oid := c\<rparr>"
      using assms(1) r[unfolded dist_claim_def] Some eq
      by (cases rule: push_marker_effect) (auto split: if_splits)
    ultimately show ?thesis by (auto simp: payload_of_def)
  qed
qed simp

text \<open>A won selection of the distributed loop, whatever other workers do meanwhile: the ticket
  is one of the candidates, its reference on the remote names the returned marker, which carries
  the worker and the lease, and the local file records the same claim on top of the stored
  ticket, started if it was not.  Lost candidates are passed over without a local write.\<close>

theorem select_and_claim_outcome:
  "git_remote_laws P D refs message \<Longrightarrow>
     select_and_claim P D env s worker lease now w = (Inr (Some m), w', s') \<Longrightarrow>
     \<exists>i is expires t p. plus_minutes P now lease = Some expires \<and> candidates P s now = Inr is \<and> i \<in> set is
       \<and> refs w' (claim_ref P i) = Some (cm_oid m) \<and> cm_id m = Some i \<and> cm_worker m = worker
       \<and> cm_expires_at m = expires \<and> read_ticket P s i = Inr t
       \<and> write_ticket_committing P s (locally_claimed P worker expires now t) = (Inr p, s')"
proof -
  assume laws: "git_remote_laws P D refs message"
    and sel: "select_and_claim P D env s worker lease now w = (Inr (Some m), w', s')"
  from sel obtain expires "is" where e: "plus_minutes P now lease = Some expires" "candidates P s now = Inr is"
    and scan: "claim_scan P D env worker expires now is w = (Inr (Some m), w')"
    and rec: "record_local_claim P s (the (cm_id m)) worker expires now = (Inr (), s')"
    by (auto simp: select_and_claim_def split: option.splits sum.splits prod.splits)
  from claim_scan_won[OF laws scan] obtain i where i: "i \<in> set is" "marked P D refs message i m w'"
    "cm_worker m = worker" "cm_expires_at m = expires" by blast
  then have id: "cm_id m = Some i" "refs w' (claim_ref P i) = Some (cm_oid m)" by (simp_all add: marked_def)
  from rec id(1) obtain t p where "read_ticket P s i = Inr t"
      "write_ticket_committing P s (locally_claimed P worker expires now t) = (Inr p, s')"
    by (auto simp: record_local_claim_def with_ticket_transaction_def split: if_splits option.splits sum.splits prod.splits)
  with e i id show ?thesis by blast
qed

definition race_renewal :: "demo_world \<Rightarrow> (dist_error + claim_result) \<times> demo_world" where
  "race_renewal = dist_renew demo demo_dist 1 ''a'' (demo_oid 0) (at_ns 40) (at_ns 20)"


end
