(* ===== verification/Advisory_Claim.thy ===== *)
theory Advisory_Claim
  imports Rust_Str Str_Facts
begin

text \<open>
  Best-effort claims on tickets of external providers (\<open>advisory_claim.rs\<close>,
  \<open>advisory_claim_v2.rs\<close>).  Markers are events in the provider's order; every reader reconciles
  all of them into a projection that is unsafe for dispatch when anything is ambiguous.  The 64-bit
  times are integers, saturating where the code saturates.
\<close>

subsection \<open>Events\<close>

record provider_ref =
  pr_connection_id :: string
  pr_native_id :: string

datatype advisory_kind = AdvClaim int | AdvRenew int | AdvRelease

record advisory_event =
  ae_ticket :: provider_ref
  ae_worker :: string
  ae_operation_id :: string
  ae_provider_order :: nat
  ae_kind :: advisory_kind

record advisory_claim =
  ac_worker :: string
  ac_operation_id :: string
  ac_expires_unix_ms :: int

record advisory_projection =
  ap_claims :: "advisory_claim list"
  ap_conflicted :: bool
  ap_invalid_markers :: nat

definition saturating_i64 :: "int \<Rightarrow> int" where
  "saturating_i64 x = max (- (2 ^ 63)) (min (2 ^ 63 - 1) x)"

subsection \<open>Bounded operation identities\<close>

definition MAX_OPERATION_HORIZON_MS :: int where "MAX_OPERATION_HORIZON_MS = 24 * 60 * 60 * 1000"
definition MAX_CLOCK_SKEW_MS :: int where "MAX_CLOCK_SKEW_MS = 60000"

definition RECLAIM_AFTER_ISSUE_MS :: int where
  "RECLAIM_AFTER_ISSUE_MS = MAX_OPERATION_HORIZON_MS + 2 * MAX_CLOCK_SKEW_MS"

datatype v2_event_state = V2Current | V2Inert

definition nonce_byte :: "char \<Rightarrow> bool" where
  "nonce_byte b = (is_ascii_lower b \<or> is_ascii_digit b \<or> b = CHR ''-'')"

definition issued_at_ms :: "string \<Rightarrow> string + int option" where
  "issued_at_ms operation_id =
     (case strip_prefix ''v2:'' operation_id of
        None \<Rightarrow> Inr None
      | Some rest \<Rightarrow>
          (case split_once '':'' rest of
             None \<Rightarrow> Inl ''malformed v2 operation id''
           | Some (timestamp, nonce) \<Rightarrow>
               if length timestamp \<noteq> 13 \<or> \<not> list_all is_ascii_digit timestamp
                 \<or> length nonce < 16 \<or> 80 < length nonce \<or> \<not> list_all nonce_byte nonce
               then Inl ''malformed v2 operation id''
               else (case parse_digits timestamp of
                       None \<Rightarrow> Inl ''invalid v2 issue time''
                     | Some n \<Rightarrow>
                         if int n \<le> 0 \<or> 2 ^ 63 \<le> int n + RECLAIM_AFTER_ISSUE_MS
                         then Inl ''invalid v2 issue time'' else Inr (Some (int n)))))"

definition identity_byte :: "char \<Rightarrow> bool" where
  "identity_byte b = (is_ascii_alnum b \<or> b \<in> set ''-_.:'')"

definition identity :: "string \<Rightarrow> bool" where
  "identity s = (s \<noteq> [] \<and> length s \<le> 128 \<and> list_all identity_byte s)"

definition expiry_of :: "advisory_kind \<Rightarrow> int option" where
  "expiry_of k = (case k of AdvClaim e \<Rightarrow> Some e | AdvRenew e \<Rightarrow> Some e | AdvRelease \<Rightarrow> None)"

definition classify :: "advisory_event \<Rightarrow> int \<Rightarrow> string + v2_event_state option" where
  "classify event provider_now_ms =
     (case issued_at_ms (ae_operation_id event) of
        Inl e \<Rightarrow> Inl e
      | Inr None \<Rightarrow> Inr None
      | Inr (Some issued) \<Rightarrow>
          if \<not> identity (ae_worker event) then Inl ''invalid v2 worker identity''
          else if provider_now_ms \<le> 0 \<or> issued > saturating_i64 (provider_now_ms + MAX_CLOCK_SKEW_MS)
          then Inl ''v2 operation id is ahead of provider time''
          else if is_some_and (expiry_of (ae_kind event))
                    (\<lambda>e. e \<le> issued \<or> e > issued + MAX_OPERATION_HORIZON_MS)
          then Inl ''v2 expiry is outside its operation horizon''
          else if provider_now_ms \<ge> issued + MAX_OPERATION_HORIZON_MS + MAX_CLOCK_SKEW_MS
          then Inr (Some V2Inert) else Inr (Some V2Current))"

definition valid_write :: "advisory_event \<Rightarrow> int \<Rightarrow> bool" where
  "valid_write event provider_now_ms = (classify event provider_now_ms = Inr (Some V2Current))"

definition reclaimable :: "advisory_event \<Rightarrow> provider_ref \<Rightarrow> int \<Rightarrow> bool" where
  "reclaimable event ticket provider_now_ms =
     (if ae_ticket event \<noteq> ticket \<or> ae_provider_order event = 0 then False
      else case issued_at_ms (ae_operation_id event) of
          Inr (Some issued) \<Rightarrow>
            classify event provider_now_ms = Inr (Some V2Inert)
            \<and> provider_now_ms \<ge> issued + RECLAIM_AFTER_ISSUE_MS
        | _ \<Rightarrow> False)"

definition valid_write_event :: "advisory_event \<Rightarrow> provider_ref \<Rightarrow> int \<Rightarrow> bool" where
  "valid_write_event event ticket now =
     (ae_ticket event = ticket \<and> ae_provider_order event = 0
      \<and> identity (ae_worker event) \<and> identity (ae_operation_id event)
      \<and> is_none_or (expiry_of (ae_kind event)) (\<lambda>e. e > now)
      \<and> (case issued_at_ms (ae_operation_id event) of
           Inr None \<Rightarrow> True | Inr (Some _) \<Rightarrow> valid_write event now | Inl _ \<Rightarrow> False))"

subsection \<open>Reconciliation\<close>

text \<open>What the first pass makes of an event: an invalid marker, an operation past its horizon,
  or one that takes part.\<close>

datatype marker_class = InvalidMarker | InertMarker | UsableMarker

definition marker_class_of :: "provider_ref \<Rightarrow> int \<Rightarrow> advisory_event \<Rightarrow> marker_class" where
  "marker_class_of ticket now e =
     (if ae_ticket e \<noteq> ticket \<or> trim (ae_worker e) = [] \<or> trim (ae_operation_id e) = []
         \<or> ae_provider_order e = 0 then InvalidMarker
      else case classify e now of
          Inr (Some V2Inert) \<Rightarrow> InertMarker
        | Inl _ \<Rightarrow> InvalidMarker
        | _ \<Rightarrow> UsableMarker)"

type_synonym ordered_events = "(nat \<times> advisory_event) list"

definition admit_event ::
  "provider_ref \<Rightarrow> int \<Rightarrow> advisory_event \<Rightarrow> ordered_events \<times> nat \<Rightarrow> ordered_events \<times> nat" where
  "admit_event ticket now e st =
     (case st of (ordered, invalid) \<Rightarrow>
        (case marker_class_of ticket now e of
           InvalidMarker \<Rightarrow> (ordered, invalid + 1)
         | InertMarker \<Rightarrow> (ordered, invalid)
         | UsableMarker \<Rightarrow>
             (btree_entry (ae_provider_order e) (\<lambda>prev. unwrap_or prev e) ordered,
              if is_some_and (map_of ordered (ae_provider_order e)) (\<lambda>prev. prev \<noteq> e)
              then invalid + 1 else invalid)))"

definition released_operations :: "advisory_event list \<Rightarrow> string set" where
  "released_operations es = set (map ae_operation_id (filter (\<lambda>e. ae_kind e = AdvRelease) es))"

type_synonym operation_state = "string \<times> int option \<times> bool"

text \<open>One event against the state of its operation: the new state, \<open>None\<close> for an invalid marker.\<close>

definition operation_step :: "operation_state option \<Rightarrow> advisory_event \<Rightarrow> operation_state option" where
  "operation_step current e =
     (case (current, ae_kind e) of
        (None, AdvClaim x) \<Rightarrow> if x > 0 then Some (ae_worker e, Some x, False) else None
      | (Some (worker, Some expiry, False), AdvClaim x) \<Rightarrow>
          if worker = ae_worker e \<and> x = expiry then current else None
      | (Some (worker, Some expiry, False), AdvRenew x) \<Rightarrow>
          if worker = ae_worker e \<and> x \<ge> expiry then Some (worker, Some x, False) else None
      | (Some (worker, _, False), AdvRelease) \<Rightarrow>
          if worker = ae_worker e then Some (worker, None, True) else None
      | (Some (worker, None, True), AdvRelease) \<Rightarrow>
          if worker = ae_worker e then current else None
      | _ \<Rightarrow> None)"

type_synonym operations = "(string \<times> operation_state) list"

definition project_event :: "advisory_event \<Rightarrow> operations \<times> nat \<Rightarrow> operations \<times> nat" where
  "project_event e st =
     (case st of (by_operation, invalid) \<Rightarrow>
        (case operation_step (map_of by_operation (ae_operation_id e)) e of
           Some v \<Rightarrow> (btree_entry (ae_operation_id e) (\<lambda>_. v) by_operation, invalid)
         | None \<Rightarrow> (by_operation, invalid + 1)))"

definition live_claim ::
  "string set \<Rightarrow> int \<Rightarrow> int \<Rightarrow> string \<times> operation_state \<Rightarrow> advisory_claim option" where
  "live_claim released allowance now entry =
     (case entry of (operation_id, worker, expiry, _) \<Rightarrow>
        if operation_id \<in> released then None
        else case expiry of
            None \<Rightarrow> None
          | Some x \<Rightarrow>
              if saturating_i64 (x + allowance) > now
              then Some \<lparr>ac_worker = worker, ac_operation_id = operation_id, ac_expires_unix_ms = x\<rparr>
              else None)"

definition reconcile_claims ::
  "provider_ref \<Rightarrow> advisory_event list \<Rightarrow> int \<Rightarrow> int \<Rightarrow> advisory_projection" where
  "reconcile_claims ticket events now skew_allowance =
     (let (ordered, invalid1) = fold (admit_event ticket now) events ([], 0);
          (by_operation, invalid) = fold project_event (btree_values ordered) ([], invalid1);
          claims = List.map_filter (live_claim (released_operations (btree_values ordered))
                     (max skew_allowance 0) now) by_operation
      in \<lparr>ap_claims = claims, ap_conflicted = (invalid > 0 \<or> length claims > 1),
          ap_invalid_markers = invalid\<rparr>)"

subsection \<open>The first pass\<close>

abbreviation usable :: "provider_ref \<Rightarrow> int \<Rightarrow> advisory_event list \<Rightarrow> advisory_event list" where
  "usable ticket now es \<equiv> filter (\<lambda>e. marker_class_of ticket now e = UsableMarker) es"

abbreviation first_event :: "advisory_event \<Rightarrow> advisory_event option \<Rightarrow> advisory_event" where
  "first_event e prev \<equiv> unwrap_or prev e"

lemma admit_ordered:
  "fst (fold (admit_event ticket now) es (ordered, n)) =
     bt.upserts ae_provider_order first_event (usable ticket now es) ordered"
  by (induction es arbitrary: ordered n)
    (simp_all add: admit_event_def bt.upserts_def split: marker_class.split)

lemma admit_counts:
  assumes "key_sorted ordered" "\<And>k v. map_of ordered k = Some v \<Longrightarrow> ae_provider_order v = k"
    "inj_on ae_provider_order (ran (map_of ordered))"
  shows "n \<le> snd (fold (admit_event ticket now) es (ordered, n))"
    "snd (fold (admit_event ticket now) es (ordered, n)) = n \<longleftrightarrow>
       list_all (\<lambda>e. marker_class_of ticket now e \<noteq> InvalidMarker) es
       \<and> inj_on ae_provider_order (ran (map_of ordered) \<union> set (usable ticket now es))"
proof -
  have "n \<le> snd (fold (admit_event ticket now) es (ordered, n))
    \<and> (snd (fold (admit_event ticket now) es (ordered, n)) = n \<longleftrightarrow>
       list_all (\<lambda>e. marker_class_of ticket now e \<noteq> InvalidMarker) es
       \<and> inj_on ae_provider_order (ran (map_of ordered) \<union> set (usable ticket now es)))"
    using assms
  proof (induction es arbitrary: ordered n)
    case (Cons e es)
    let ?k = "ae_provider_order e"
    consider "marker_class_of ticket now e = InvalidMarker" | "marker_class_of ticket now e = InertMarker"
      | "marker_class_of ticket now e = UsableMarker" by (cases "marker_class_of ticket now e") auto
    then show ?case
    proof cases
      case 1
      then show ?thesis using Cons.IH[OF Cons.prems, of "n + 1"] by (simp add: admit_event_def)
    next
      case 2
      then show ?thesis using Cons.IH[OF Cons.prems, of n] by (simp add: admit_event_def)
    next
      case 3
      let ?o = "btree_entry ?k (\<lambda>prev. unwrap_or prev e) ordered"
      have m: "map_of ?o = (map_of ordered)(?k \<mapsto> unwrap_or (map_of ordered ?k) e)"
        by (rule bt.lookup_entry) (rule Cons.prems)
      show ?thesis
      proof (cases "map_of ordered ?k")
        case None
        have r: "ran (map_of ?o) = insert e (ran (map_of ordered))"
          using m None by (simp add: ran_map_upd)
        have new: "?k \<notin> ae_provider_order ` ran (map_of ordered)"
          using Cons.prems(2) None by (auto simp: ran_def)
        have i: "inj_on ae_provider_order (ran (map_of ?o))" using Cons.prems(3) new unfolding r by auto
        have k: "ae_provider_order v = k" if "map_of ?o k = Some v" for k v
          using that m None Cons.prems(2)[of k v] by (auto split: if_splits)
        note IH = Cons.IH[OF key_sorted_btree_entry[OF Cons.prems(1)] k i, of n, unfolded r]
        show ?thesis using IH 3 None by (simp add: admit_event_def)
      next
        case (Some p)
        have same: "map_of ?o = map_of ordered" using m Some by auto
        have p: "p \<in> ran (map_of ordered)" "ae_provider_order p = ?k"
          using Some Cons.prems(2) by (auto intro: ranI)
        note IH = Cons.IH[of ?o, unfolded same, OF key_sorted_btree_entry[OF Cons.prems(1)] Cons.prems(2,3)]
        show ?thesis
        proof (cases "p = e")
          case True
          then have "insert e (ran (map_of ordered) \<union> X) = ran (map_of ordered) \<union> X" for X using p by auto
          then show ?thesis using IH[of n] 3 Some True by (simp add: admit_event_def)
        next
          case False
          then have "\<not> inj_on ae_provider_order (insert e (ran (map_of ordered) \<union> X))" for X
            using p by (meson False UnI1 inj_onD insertCI)
          then show ?thesis using IH[of "n + 1"] 3 Some False by (simp add: admit_event_def)
        qed
      qed
    qed
  qed simp
  then show "n \<le> snd (fold (admit_event ticket now) es (ordered, n))"
    "snd (fold (admit_event ticket now) es (ordered, n)) = n \<longleftrightarrow>
       list_all (\<lambda>e. marker_class_of ticket now e \<noteq> InvalidMarker) es
       \<and> inj_on ae_provider_order (ran (map_of ordered) \<union> set (usable ticket now es))" by blast+
qed

lemma fold_first: "fold (\<lambda>x v. Some (first_event x v)) ys v = (case v of None \<Rightarrow> (case ys of [] \<Rightarrow> None | y # _ \<Rightarrow> Some y) | Some x \<Rightarrow> Some x)"
  by (induction ys arbitrary: v) (simp_all split: option.split list.split)

text \<open>When no order has two events, the ordered map is the set of usable events by order.\<close>

lemma ordered_lookup:
  assumes "inj_on ae_provider_order (set us)"
  shows "map_of (bt.upserts ae_provider_order first_event us []) k = Some e
    \<longleftrightarrow> e \<in> set us \<and> ae_provider_order e = k"
proof -
  let ?f = "filter (\<lambda>x. ae_provider_order x = k) us"
  have "map_of (bt.upserts ae_provider_order first_event us []) k = (case ?f of [] \<Rightarrow> None | y # _ \<Rightarrow> Some y)"
    using bt.lookup_upserts[of "[]" ae_provider_order first_event us k] by (simp add: fold_first)
  moreover have "(case ?f of [] \<Rightarrow> None | y # _ \<Rightarrow> Some y) = Some e \<longleftrightarrow> e \<in> set us \<and> ae_provider_order e = k"
  proof (cases ?f)
    case Nil
    then show ?thesis by (auto simp: filter_empty_conv)
  next
    case (Cons y ys)
    then have "y \<in> set ?f" by simp
    then have y: "y \<in> set us" "ae_provider_order y = k" by auto
    have "y = e \<longleftrightarrow> e \<in> set us \<and> ae_provider_order e = k"
      using y inj_onD[OF assms, of y e] by blast
    then show ?thesis by (simp add: Cons)
  qed
  ultimately show ?thesis by simp
qed

lemma ordered_set_eq:
  assumes "inj_on ae_provider_order (set us)" "set us = set us'"
  shows "bt.upserts ae_provider_order first_event us [] = bt.upserts ae_provider_order first_event us' []"
proof (rule key_sorted_map_of_eq)
  show "map_of (bt.upserts ae_provider_order first_event us []) = map_of (bt.upserts ae_provider_order first_event us' [])"
  proof
    fix k
    show "map_of (bt.upserts ae_provider_order first_event us []) k = map_of (bt.upserts ae_provider_order first_event us' []) k"
      using ordered_lookup[OF assms(1), of k] ordered_lookup[OF assms(1)[unfolded assms(2)], of k] assms(2)
      by (metis not_Some_eq)
  qed
qed (simp_all add: bt.invar_upserts)

subsection \<open>The second pass\<close>

lemma project_event_simps:
  "project_event e (m, n) =
     (case operation_step (map_of m (ae_operation_id e)) e of
        Some v \<Rightarrow> (btree_entry (ae_operation_id e) (\<lambda>_. v) m, n) | None \<Rightarrow> (m, n + 1))"
  by (simp add: project_event_def)

lemma project_counts:
  "fold project_event vs (m, n) = (fst (fold project_event vs (m, 0)), n + snd (fold project_event vs (m, 0)))"
proof (induction vs arbitrary: m n)
  case (Cons e vs)
  show ?case
  proof (cases "operation_step (map_of m (ae_operation_id e)) e")
    case None
    then show ?thesis using Cons.IH[of m "n + 1"] Cons.IH[of m 1] by (simp add: project_event_simps)
  next
    case (Some v)
    then show ?thesis using Cons.IH[of _ n] by (simp add: project_event_simps)
  qed
qed simp

text \<open>What is recorded of an operation after the events \<open>vs\<close>, if none was invalid.\<close>

abbreviation events_of :: "string \<Rightarrow> advisory_event list \<Rightarrow> advisory_event list" where
  "events_of i vs \<equiv> filter (\<lambda>e. ae_operation_id e = i) vs"

definition expiries :: "advisory_event list \<Rightarrow> int set" where
  "expiries vs = set (List.map_filter (\<lambda>e. expiry_of (ae_kind e)) vs)"

definition recorded :: "advisory_event list \<Rightarrow> operation_state option \<Rightarrow> bool" where
  "recorded vs st =
     (case st of
        None \<Rightarrow> vs = []
      | Some (worker, expiry, released) \<Rightarrow>
          vs \<noteq> [] \<and> list_all (\<lambda>e. ae_worker e = worker) vs
          \<and> (released \<longleftrightarrow> list_ex (\<lambda>e. ae_kind e = AdvRelease) vs)
          \<and> expiry = (if released then None else Some (Max (expiries vs)))
          \<and> expiries vs \<noteq> {})"

lemma expiries_snoc:
  "expiries (vs @ [e]) = expiries vs \<union> set_option (expiry_of (ae_kind e))"
  by (auto simp: expiries_def map_filter_def split: option.splits)

lemma recorded_step:
  assumes "recorded vs st" "operation_step st e = Some v"
  shows "recorded (vs @ [e]) (Some v)"
proof -
  have fin: "finite (expiries vs)" by (simp add: expiries_def)
  have nil: "expiries [] = {}" by (simp add: expiries_def map_filter_def)
  show ?thesis
  proof (cases st)
    case None
    then show ?thesis using assms nil expiries_snoc[of "[]" e]
      by (auto simp: recorded_def operation_step_def expiry_of_def split: advisory_kind.splits if_splits)
  next
    case (Some s)
    obtain w x r where s: "s = (w, x, r)" by (cases s) auto
    have "Max (insert y (expiries vs)) = max y (Max (expiries vs))" if "expiries vs \<noteq> {}" for y
      using fin that by (simp add: Max_insert)
    then show ?thesis using assms Some s expiries_snoc[of vs e]
      by (auto simp: recorded_def operation_step_def expiry_of_def max_def
          split: advisory_kind.splits if_splits option.splits bool.splits)
  qed
qed

lemma project_recorded:
  assumes "snd (fold project_event vs ([], 0)) = 0"
  shows "key_sorted (fst (fold project_event vs ([], 0)))"
    "recorded (events_of i vs) (map_of (fst (fold project_event vs ([], 0))) i)"
proof -
  have "snd (fold project_event vs ([], 0)) = 0 \<longrightarrow>
      key_sorted (fst (fold project_event vs ([], 0)))
      \<and> recorded (events_of i vs) (map_of (fst (fold project_event vs ([], 0))) i)"
  proof (induction vs rule: rev_induct)
    case Nil
    then show ?case by (simp add: recorded_def)
  next
    case (snoc e vs)
    obtain m n where f: "fold project_event vs ([], 0) = (m, n)" by force
    show ?case
    proof (cases "operation_step (map_of m (ae_operation_id e)) e")
      case None
      with f show ?thesis by (simp add: project_event_simps)
    next
      case (Some v)
      have "recorded (events_of i (vs @ [e])) (map_of (btree_entry (ae_operation_id e) (\<lambda>_. v) m) i)"
        if "key_sorted m" "recorded (events_of i vs) (map_of m i)"
        using that Some recorded_step[of "events_of i vs" "map_of m i" e v]
        by (cases "i = ae_operation_id e") (simp_all add: map_of_btree_entry)
      with snoc f Some show ?thesis by (simp add: project_event_simps key_sorted_btree_entry)
    qed
  qed
  with assms show "key_sorted (fst (fold project_event vs ([], 0)))"
    "recorded (events_of i vs) (map_of (fst (fold project_event vs ([], 0))) i)" by blast+
qed

subsection \<open>The projection\<close>

abbreviation ordered_of :: "provider_ref \<Rightarrow> int \<Rightarrow> advisory_event list \<Rightarrow> ordered_events" where
  "ordered_of ticket now es \<equiv> bt.upserts ae_provider_order first_event (usable ticket now es) []"

abbreviation projected :: "provider_ref \<Rightarrow> int \<Rightarrow> advisory_event list \<Rightarrow> operations \<times> nat" where
  "projected ticket now es \<equiv> fold project_event (btree_values (ordered_of ticket now es)) ([], 0)"

lemma reconcile_parts:
  "reconcile_claims ticket es now a =
     (let n = snd (fold (admit_event ticket now) es ([], 0)) + snd (projected ticket now es);
          claims = List.map_filter (live_claim (released_operations (btree_values (ordered_of ticket now es)))
                     (max a 0) now) (fst (projected ticket now es))
      in \<lparr>ap_claims = claims, ap_conflicted = (n > 0 \<or> length claims > 1), ap_invalid_markers = n\<rparr>)"
proof -
  obtain m n where f: "fold (admit_event ticket now) es ([], 0) = (m, n)" by force
  have o: "m = ordered_of ticket now es" using admit_ordered[of ticket now es "[]" 0] f by simp
  show ?thesis
    unfolding reconcile_claims_def f o Let_def
    by (simp add: project_counts[of "btree_values (ordered_of ticket now es)" "[]" n])
qed

lemma unconflicted:
  assumes "\<not> ap_conflicted (reconcile_claims ticket es now a)"
  shows "list_all (\<lambda>e. marker_class_of ticket now e \<noteq> InvalidMarker) es"
    "inj_on ae_provider_order (set (usable ticket now es))" "snd (projected ticket now es) = 0"
    "length (ap_claims (reconcile_claims ticket es now a)) \<le> 1"
proof -
  have n: "snd (fold (admit_event ticket now) es ([], 0)) = 0" "snd (projected ticket now es) = 0"
    using assms by (simp_all add: reconcile_parts Let_def)
  show "list_all (\<lambda>e. marker_class_of ticket now e \<noteq> InvalidMarker) es"
    "inj_on ae_provider_order (set (usable ticket now es))"
    using admit_counts(2)[of "[]" ticket now es 0] n(1) by simp_all
  show "snd (projected ticket now es) = 0" by (rule n)
  show "length (ap_claims (reconcile_claims ticket es now a)) \<le> 1"
    using assms by (simp add: reconcile_parts Let_def)
qed

lemma reconcile_same_events:
  assumes "\<not> ap_conflicted (reconcile_claims ticket es now a)" "set es = set es'"
  shows "reconcile_claims ticket es' now a = reconcile_claims ticket es now a"
proof -
  note u = unconflicted[OF assms(1)]
  have set: "set (usable ticket now es) = set (usable ticket now es')" using assms(2) by simp
  have ord: "ordered_of ticket now es' = ordered_of ticket now es"
    by (rule ordered_set_eq[OF u(2) set, symmetric])
  have "snd (fold (admit_event ticket now) xs ([], 0)) = 0" if "set xs = set es" for xs
    using admit_counts(2)[of "[]" ticket now xs 0] u(1,2) that by (simp add: list_all_iff)
  then show ?thesis using assms(2) unfolding reconcile_parts ord by simp
qed

lemma recorded_set:
  assumes "set vs = set vs'" shows "recorded vs st = recorded vs' st"
proof -
  have "expiries vs = expiries vs'" using assms by (auto simp: expiries_def map_filter_def)
  moreover have "vs = [] \<longleftrightarrow> vs' = []" using assms by (metis set_empty)
  ultimately show ?thesis using assms by (simp add: recorded_def list_all_iff list_ex_iff split: option.split)
qed

text \<open>The live claim of an operation according to the events: all by its worker, no release, the
  latest expiry still ahead.\<close>

definition owns :: "advisory_event list \<Rightarrow> int \<Rightarrow> int \<Rightarrow> advisory_claim \<Rightarrow> bool" where
  "owns us allowance now c =
     (let mine = events_of (ac_operation_id c) us in
      mine \<noteq> [] \<and> list_all (\<lambda>e. ae_worker e = ac_worker c \<and> ae_kind e \<noteq> AdvRelease) mine
      \<and> ac_expires_unix_ms c = Max (expiries mine)
      \<and> saturating_i64 (ac_expires_unix_ms c + max allowance 0) > now)"

lemma set_ordered_values:
  assumes "inj_on ae_provider_order (set us)"
  shows "set (btree_values (bt.upserts ae_provider_order first_event us [])) = set us"
proof -
  let ?o = "bt.upserts ae_provider_order first_event us []"
  have "distinct (map fst ?o)" by (intro key_sorted_distinct bt.invar_upserts) simp
  then have "snd ` set ?o = ran (map_of ?o)" by (simp add: ran_distinct)
  also have "\<dots> = set us" using ordered_lookup[OF assms] by (auto simp: ran_def)
  finally show ?thesis by (simp add: btree_values_def)
qed

lemma live_claim_owns:
  assumes "recorded (events_of i us) (Some st)" "i \<in> released \<longleftrightarrow> list_ex (\<lambda>e. ae_kind e = AdvRelease) (events_of i us)"
  shows "live_claim released (max a 0) now (i, st) = Some c \<longleftrightarrow> ac_operation_id c = i \<and> owns us a now c"
proof -
  obtain w x r where st: "st = (w, x, r)" by (cases st) auto
  have rec: "events_of i us \<noteq> []" "list_all (\<lambda>e. ae_worker e = w) (events_of i us)"
    "r \<longleftrightarrow> list_ex (\<lambda>e. ae_kind e = AdvRelease) (events_of i us)"
    "x = (if r then None else Some (Max (expiries (events_of i us))))"
    using assms(1) st by (simp_all add: recorded_def)
  show ?thesis
  proof (cases r)
    case True
    then obtain e where "e \<in> set (events_of i us)" "ae_kind e = AdvRelease" using rec(3) by (auto simp: list_ex_iff)
    with assms(2) rec(3) True show ?thesis by (auto simp: live_claim_def st owns_def Let_def list_all_iff)
  next
    case False
    then have "ae_kind e \<noteq> AdvRelease" if "e \<in> set (events_of i us)" for e
      using rec(3) that by (auto simp: list_ex_iff)
    moreover obtain e where e: "e \<in> set (events_of i us)" using rec(1) by (metis list.set_sel(1))
    ultimately have "ac_operation_id c = i \<Longrightarrow>
        list_all (\<lambda>e. ae_worker e = ac_worker c \<and> ae_kind e \<noteq> AdvRelease) (events_of i us) \<longleftrightarrow> ac_worker c = w"
      using rec(2) by (auto simp: list_all_iff)
    then show ?thesis using assms(2) rec(1,3,4) False
      by (cases c) (auto simp: live_claim_def st owns_def Let_def)
  qed
qed

text \<open>Events past their horizon count for nothing.\<close>

lemma admit_inert:
  "marker_class_of ticket now e = InertMarker \<Longrightarrow>
     fold (admit_event ticket now) (filter (\<lambda>x. x \<noteq> e) es) st = fold (admit_event ticket now) es st"
  by (induction es arbitrary: st) (auto simp: admit_event_def split: prod.split)

lemma issued_positive: "issued_at_ms i = Inr (Some t) \<Longrightarrow> 0 < t \<and> t + RECLAIM_AFTER_ISSUE_MS < 2 ^ 63"
  by (auto simp: issued_at_ms_def Let_def split: option.splits if_splits prod.splits)

lemma plain_bytes:
  "identity_byte c \<Longrightarrow> of_char c < (128 :: nat) \<and> \<not> ascii_ws c"
  "nonce_byte c \<Longrightarrow> of_char c < (128 :: nat) \<and> \<not> ascii_ws c"
  "is_ascii_digit c \<Longrightarrow> of_char c < (128 :: nat) \<and> \<not> ascii_ws c"
  by (auto simp: identity_byte_def nonce_byte_def is_ascii_alnum_def is_ascii_digit_def is_ascii_upper_def
      is_ascii_lower_def ascii_ws_def Let_def)

lemma identity_trim: "identity w \<Longrightarrow> trim w \<noteq> []"
  using ws_free_trim[OF ws_free_ascii[of w]] plain_bytes(1) by (auto simp: identity_def list_all_iff)

lemma operation_trim:
  assumes "issued_at_ms i = Inr (Some t)" shows "trim i \<noteq> []"
proof -
  obtain rest where r: "strip_prefix ''v2:'' i = Some rest"
    using assms by (cases "strip_prefix ''v2:'' i") (auto simp: issued_at_ms_def)
  obtain ts nonce where n: "split_once '':'' rest = Some (ts, nonce)" "list_all is_ascii_digit ts" "list_all nonce_byte nonce"
    using assms r by (auto simp: issued_at_ms_def split: option.splits if_splits prod.splits)
  from split_once_Some[OF n(1)] have "rest = ts @ '':'' @ nonce" .
  then have "i = ''v2:'' @ ts @ '':'' @ nonce" using strip_prefix_Some[of "''v2:''" i rest] r by simp
  moreover have "list_all (\<lambda>c. of_char c < (128 :: nat) \<and> \<not> ascii_ws c) (''v2:'' @ ts @ '':'' @ nonce)"
    using n(2,3) plain_bytes(2,3) by (auto simp: list_all_iff ascii_ws_def)
  ultimately show ?thesis using ws_free_trim[OF ws_free_ascii[of i]] by auto
qed

lemma reclaimable_inert:
  assumes "reclaimable e ticket now" "now - MAX_CLOCK_SKEW_MS \<le> now'"
  shows "marker_class_of ticket now' e = InertMarker"
proof -
  obtain t where t: "issued_at_ms (ae_operation_id e) = Inr (Some t)" "now \<ge> t + RECLAIM_AFTER_ISSUE_MS"
    and e: "ae_ticket e = ticket" "ae_provider_order e \<noteq> 0" "classify e now = Inr (Some V2Inert)"
    using assms(1) by (auto simp: reclaimable_def split: if_splits sum.splits option.splits)
  note pos = issued_positive[OF t(1)]
  have now': "now' \<ge> t + MAX_OPERATION_HORIZON_MS + MAX_CLOCK_SKEW_MS"
    using t(2) assms(2) by (simp add: RECLAIM_AFTER_ISSUE_MS_def MAX_CLOCK_SKEW_MS_def)
  have w: "identity (ae_worker e)" and x: "\<not> is_some_and (expiry_of (ae_kind e)) (\<lambda>x. x \<le> t \<or> x > t + MAX_OPERATION_HORIZON_MS)"
    using e(3) t(1) by (auto simp: classify_def split: if_splits)
  have "0 < now'" "t \<le> saturating_i64 (now' + MAX_CLOCK_SKEW_MS)"
    using pos now' by (simp_all add: saturating_i64_def MAX_CLOCK_SKEW_MS_def MAX_OPERATION_HORIZON_MS_def
        RECLAIM_AFTER_ISSUE_MS_def)
  then have "classify e now' = Inr (Some V2Inert)" using t(1) w x now' by (simp add: classify_def)
  with e identity_trim[OF w] operation_trim[OF t(1)] show ?thesis by (simp add: marker_class_of_def)
qed

subsection \<open>Concrete markers\<close>

definition demo_issue :: provider_ref where
  "demo_issue = \<lparr>pr_connection_id = ''jira'', pr_native_id = ''T-1''\<rparr>"

definition demo_event :: "string \<Rightarrow> nat \<Rightarrow> advisory_kind \<Rightarrow> advisory_event" where
  "demo_event i n k =
     \<lparr>ae_ticket = demo_issue, ae_worker = ''w'', ae_operation_id = i, ae_provider_order = n, ae_kind = k\<rparr>"

definition demo_events :: "advisory_event list" where
  "demo_events = [demo_event ''op'' 1 (AdvClaim 50), demo_event ''op'' 2 (AdvRenew 90)]"

definition demo_live :: advisory_projection where
  "demo_live = \<lparr>ap_claims = [\<lparr>ac_worker = ''w'', ac_operation_id = ''op'', ac_expires_unix_ms = 90\<rparr>],
     ap_conflicted = False, ap_invalid_markers = 0\<rparr>"

definition demo_old :: advisory_event where
  "demo_old = demo_event ''v2:0000000000001:0123456789abcdef'' 3 (AdvClaim 1000)"

lemma demo_reconciled: "reconcile_claims demo_issue demo_events 60 0 = demo_live"
  by code_simp

lemma demo_old_reclaimable: "reclaimable demo_old demo_issue 86520001"
  by code_simp

subsection \<open>Properties\<close>

text \<open>Reconciliation does not depend on how markers arrive: for any two listings of the same
  events, reordered or with repetitions, both are unsafe for dispatch or neither is, and when
  they are safe they are the same projection.\<close>

theorem reconcile_order_free:
  "set es = set es' \<Longrightarrow>
     ap_conflicted (reconcile_claims ticket es now a) = ap_conflicted (reconcile_claims ticket es' now a)
     \<and> (ap_conflicted (reconcile_claims ticket es now a)
         \<or> reconcile_claims ticket es' now a = reconcile_claims ticket es now a)"
  using reconcile_same_events[of ticket es now a es'] reconcile_same_events[of ticket es' now a es] by metis

theorem reconcile_order_free_witness:
  "reconcile_claims demo_issue (rev demo_events @ demo_events) 60 0 = demo_live"
proof -
  have "\<not> ap_conflicted demo_live" by (simp add: demo_live_def)
  moreover have "set demo_events = set (rev demo_events @ demo_events)" by simp
  ultimately show ?thesis using reconcile_order_free[of demo_events "rev demo_events @ demo_events" demo_issue 60 0]
    demo_reconciled by metis
qed

text \<open>C24. A projection that is safe for dispatch is exact: it has at most one claim, and the
  claims are those operations whose usable events are all by one worker, without a release at any
  position, and whose latest expiry plus the skew allowance is still ahead.\<close>

theorem unconflicted_is_exact:
  "\<not> ap_conflicted (reconcile_claims ticket es now a) \<Longrightarrow>
     length (ap_claims (reconcile_claims ticket es now a)) \<le> 1
     \<and> set (ap_claims (reconcile_claims ticket es now a)) = {c. owns (usable ticket now es) a now c}"
proof -
  assume u: "\<not> ap_conflicted (reconcile_claims ticket es now a)"
  note c = unconflicted[OF u]
  let ?vs = "btree_values (ordered_of ticket now es)" and ?ops = "fst (projected ticket now es)"
  let ?rel = "released_operations ?vs"
  have vs: "set (events_of i ?vs) = set (events_of i (usable ticket now es))" for i
    using set_ordered_values[OF c(2)] by simp
  have sorted: "key_sorted ?ops" by (rule project_recorded(1)[OF c(3)])
  have rec: "recorded (events_of i (usable ticket now es)) (map_of ?ops i)" for i
    using project_recorded(2)[OF c(3), of i] recorded_set[OF vs[of i]] by simp
  have rel: "i \<in> ?rel \<longleftrightarrow> list_ex (\<lambda>e. ae_kind e = AdvRelease) (events_of i (usable ticket now es))" for i
    using vs[of i] by (auto simp: released_operations_def list_ex_iff)
  have live: "live_claim ?rel (max a 0) now (i, st) = Some c \<longleftrightarrow> ac_operation_id c = i \<and> owns (usable ticket now es) a now c"
    if "map_of ?ops i = Some st" for i st c
    using live_claim_owns[of i "usable ticket now es" st ?rel a now c] rec[of i] rel[of i] that by simp
  have owned: "\<exists>st. map_of ?ops (ac_operation_id c) = Some st" if "owns (usable ticket now es) a now c" for c
    using that rec[of "ac_operation_id c"]
    by (cases "map_of ?ops (ac_operation_id c)") (auto simp: owns_def recorded_def Let_def)
  have "set (ap_claims (reconcile_claims ticket es now a))
      = {c. \<exists>i st. map_of ?ops i = Some st \<and> live_claim ?rel (max a 0) now (i, st) = Some c}"
    using key_sorted_distinct[OF sorted]
    by (force simp: reconcile_parts Let_def map_filter_def map_of_eq_Some_iff)
  also have "\<dots> = {c. owns (usable ticket now es) a now c}" using live owned by blast
  finally show ?thesis using c(4) by blast
qed

theorem unconflicted_is_exact_witness:
  "{c. owns (usable demo_issue 60 demo_events) 0 60 c} = set (ap_claims demo_live) \<and> length (ap_claims demo_live) = 1"
proof -
  have c: "\<not> ap_conflicted (reconcile_claims demo_issue demo_events 60 0)"
    by (simp add: demo_reconciled demo_live_def)
  show ?thesis using unconflicted_is_exact[OF c] by (simp add: demo_reconciled) (simp add: demo_live_def)
qed

text \<open>Cleaning up is safe: deleting a marker that may be reclaimed changes no projection, at
  any later time and even when the provider's clock falls back by the allowed skew.\<close>

theorem reclaim_changes_nothing:
  "reclaimable e ticket now \<Longrightarrow> now - MAX_CLOCK_SKEW_MS \<le> now' \<Longrightarrow>
     reconcile_claims ticket (filter (\<lambda>x. x \<noteq> e) es) now' a = reconcile_claims ticket es now' a"
  using admit_inert[OF reclaimable_inert] by (simp add: reconcile_claims_def)

theorem reclaim_changes_nothing_witness:
  "reclaimable demo_old demo_issue 86520001
   \<and> reconcile_claims demo_issue (filter (\<lambda>x. x \<noteq> demo_old) (demo_old # demo_events)) 86460001 0
     = reconcile_claims demo_issue (demo_old # demo_events) 86460001 0"
proof -
  have "(86520001 :: int) - MAX_CLOCK_SKEW_MS \<le> 86460001" by (simp add: MAX_CLOCK_SKEW_MS_def)
  from reclaim_changes_nothing[OF demo_old_reclaimable this] demo_old_reclaimable show ?thesis by blast
qed

end
