(* ===== verification/Feedback_Choices.thy ===== *)
theory Feedback_Choices
  imports Rust_Str Str_Facts
begin

text \<open>
  The choice grammar of feedback prompts (\<open>feedback_choices.rs\<close>): a prompt is split into prose
  regions and choice groups, a group being a Markdown list under a \<open>CHOICE\<close> header or a run of
  lettered blocks.  Offsets are byte offsets.  \<open>source_lines\<close>, the line predicates, the two group
  scanners and the document loop follow the source function by function; loops over line indices
  are recursions whose termination is proved from the progress of the scanners.
\<close>

subsection \<open>Lines\<close>

record source_line =
  sl_start :: nat
  sl_end :: nat
  sl_text :: string

function source_lines_at :: "nat \<Rightarrow> string \<Rightarrow> source_line list" where
  "source_lines_at start rest =
     (if rest = [] then []
      else case find_sub nl rest of
          Some offset \<Rightarrow>
            \<lparr>sl_start = start, sl_end = start + offset + 1, sl_text = take offset rest\<rparr>
            # source_lines_at (start + offset + 1) (drop (offset + 1) rest)
        | None \<Rightarrow> [\<lparr>sl_start = start, sl_end = start + length rest, sl_text = rest\<rparr>])"
  by pat_completeness auto
termination
  by (relation "measure (\<lambda>(start, rest). length rest)") auto

declare source_lines_at.simps [simp del]

definition source_lines :: "string \<Rightarrow> source_line list" where
  "source_lines source = source_lines_at 0 source"

subsection \<open>Line predicates\<close>

abbreviation bold_marks :: "string list" where "bold_marks \<equiv> [''**'', ''__'']"

definition strip_bold :: "string \<Rightarrow> string option" where
  "strip_bold s = opt_or (strip_prefix ''**'' s) (strip_prefix ''__'' s)"

definition unwrap_bold :: "string \<Rightarrow> string" where
  "unwrap_bold s =
     (case List.find (\<lambda>d. length s \<ge> 2 * length d \<and> starts_with d s \<and> ends_with d s) bold_marks of
        None \<Rightarrow> s
      | Some d \<Rightarrow> drop (length d) (take (length s - length d) s))"

definition starts_ws :: "string \<Rightarrow> bool" where
  "starts_ws s = (ws_len s > 0)"

definition choice_header :: "string \<Rightarrow> string option option" where
  "choice_header s =
     (let rest = trim_start s; rest = unwrap_or (strip_bold rest) rest in
      Option.bind (strip_prefix ''CHOICE'' rest) (\<lambda>rest.
        let (colon, rest) = (case strip_prefix '':'' rest of Some r \<Rightarrow> (True, r) | None \<Rightarrow> (False, rest));
            rest = unwrap_or (strip_bold rest) rest;
            inline = trim rest
        in if inline = [] then Some None
           else if \<not> starts_ws rest \<or> \<not> colon then None
           else let question = trim (unwrap_bold inline)
                in Some (if question = [] then None else Some question)))"

definition choice_fence :: "string \<Rightarrow> (char \<times> nat) option" where
  "choice_fence s =
     (case trim_start s of
        [] \<Rightarrow> None
      | marker # cs \<Rightarrow>
          if marker = CHR 96 \<or> marker = CHR ''~'' then
            let run = run_length (\<lambda>c. c = marker) (marker # cs)
            in if run \<ge> 3 then Some (marker, run) else None
          else None)"

definition block_indent :: "string \<Rightarrow> string option" where
  "block_indent s =
     (let spaces = run_length (\<lambda>c. c = CHR '' '') s in if spaces \<le> 3 then Some (drop spaces s) else None)"

definition is_heading :: "string \<Rightarrow> bool" where
  "is_heading s =
     (case block_indent s of
        None \<Rightarrow> False
      | Some rest \<Rightarrow>
          let hashes = run_length (\<lambda>c. c = CHR ''#'') rest
          in 1 \<le> hashes \<and> hashes \<le> 6 \<and> (drop hashes rest = [] \<or> starts_ws (drop hashes rest)))"

definition is_blockquote :: "string \<Rightarrow> bool" where
  "is_blockquote s = is_some_and (block_indent s) (starts_with ''>'')"

definition is_thematic_break :: "string \<Rightarrow> bool" where
  "is_thematic_break s =
     (case block_indent s of
        Some (marker # cs) \<Rightarrow>
          marker \<in> set ''-*_''
          \<and> (let tail = trim_end cs
             in list_all (\<lambda>c. c = marker \<or> c = CHR '' '' \<or> c = CHR 9) tail
                \<and> length (filter (\<lambda>c. c = marker) tail) \<ge> 2)
      | _ \<Rightarrow> False)"

fun indent_of :: "string \<Rightarrow> nat" where
  "indent_of [] = 0"
| "indent_of (c # cs) =
     (if c = CHR '' '' then 1 + indent_of cs else if c = CHR 9 then 4 + indent_of cs else 0)"

text \<open>\<open>dedent_from removed columns text\<close>: the loop with the columns removed so far.\<close>

fun dedent_from :: "nat \<Rightarrow> nat \<Rightarrow> string \<Rightarrow> string" where
  "dedent_from removed columns [] = []"
| "dedent_from removed columns (c # cs) =
     (if removed \<ge> columns then c # cs
      else if c = CHR '' '' then dedent_from (removed + 1) columns cs
      else if c = CHR 9 then dedent_from (removed + 4) columns cs
      else c # cs)"

definition dedent :: "string \<Rightarrow> nat \<Rightarrow> string" where
  "dedent s columns = dedent_from 0 columns s"

definition is_blank :: "string \<Rightarrow> bool" where
  "is_blank s = (trim s = [])"

record list_item_line =
  li_indent :: nat
  li_ordered :: bool
  li_content_column :: nat
  li_label :: string

abbreviation blank_byte :: "char \<Rightarrow> bool" where "blank_byte c \<equiv> c = CHR '' '' \<or> c = CHR 9"

definition list_item :: "string \<Rightarrow> list_item_line option" where
  "list_item s =
     (let rest = dropWhile blank_byte s;
          indent = indent_of (takeWhile blank_byte s);
          digits = run_length is_ascii_digit rest;
          marker = (if digits > 0
                    then (case drop digits rest of c # _ \<Rightarrow> if c \<in> set ''.)'' then Some (digits + 1) else None
                          | [] \<Rightarrow> None)
                    else (case rest of c # _ \<Rightarrow> if c \<in> set ''-+*'' then Some 1 else None | [] \<Rightarrow> None))
      in Option.bind marker (\<lambda>marker_len.
           let after = drop marker_len rest; content = dropWhile blank_byte after; label = trim content
           in if length content = length after \<or> label = [] then None
              else Some \<lparr>li_indent = indent, li_ordered = digits > 0,
                         li_content_column = indent + marker_len + indent_of (takeWhile blank_byte after),
                         li_label = label\<rparr>))"

record lettered_head =
  lh_style :: string
  lh_ordinal :: nat
  lh_indent :: nat
  lh_label :: string
  lh_details :: "string option"

definition en_dash :: string where "en_dash = [CHR 0xE2, CHR 0x80, CHR 0x93]"

text \<open>The byte length of the separator after the letter or number, 0 if there is none.\<close>

definition separator_len :: "string \<Rightarrow> nat" where
  "separator_len s =
     (if starts_with em_dash s \<or> starts_with en_dash s then 3
      else case s of c # _ \<Rightarrow> if c \<in> set '':.)-'' then 1 else 0 | [] \<Rightarrow> 0)"

definition lettered_value :: "string \<Rightarrow> (string \<times> nat \<times> nat) option" where
  "lettered_value value =
     (case value of
        [] \<Rightarrow> None
      | first # cs \<Rightarrow>
          if is_ascii_upper first then Some (''letter'', of_char first - 64, 1)
          else if is_ascii_digit first \<and> first \<noteq> CHR ''0'' then
            let len = (case cs of c # _ \<Rightarrow> if is_ascii_digit c then 2 else 1 | [] \<Rightarrow> 1)
            in map_option (\<lambda>n. (''number'', n, len)) (parse_digits (take len value))
          else None)"

definition lettered_keyword :: "string \<Rightarrow> (string \<times> nat \<times> nat \<times> bool) option" where
  "lettered_keyword body =
     Option.bind (List.find (\<lambda>k. starts_with k body) [''CHOICE'', ''Option'', ''OPTION'']) (\<lambda>keyword.
       let rest = drop (length keyword) body; value = dropWhile blank_byte rest in
       if length value = length rest then None
       else Option.bind (lettered_value value) (\<lambda>(kind, ordinal, value_len).
         let after = drop value_len value in
         if (case after of c # _ \<Rightarrow> is_ascii_alnum c | [] \<Rightarrow> False) then None
         else let spaced = dropWhile blank_byte after;
                  tail = drop (separator_len spaced) spaced
              in Some (to_ascii_lower keyword @ ''-'' @ kind, ordinal, length body - length tail,
                       separator_len spaced > 0)))"

definition bare_letter :: "string \<Rightarrow> (string \<times> nat \<times> nat \<times> bool) option" where
  "bare_letter body =
     (case body of
        letter # c # _ \<Rightarrow>
          if is_ascii_upper letter \<and> c \<in> set ''.):'' then Some (''bare-letter'', of_char letter - 64, 2, True)
          else None
      | _ \<Rightarrow> None)"

definition bold_header_text :: "string \<Rightarrow> string \<Rightarrow> string \<Rightarrow> nat \<Rightarrow> bool \<Rightarrow> (string \<times> string option) option" where
  "bold_header_text bold body rest marker_len separated =
     Option.bind (find_sub bold rest) (\<lambda>close.
       let inner = take close rest; after = trim (drop (close + length bold) rest);
           lead = trim (take (marker_len + close) body)
       in if \<not> separated \<and> trim inner \<noteq> [] then None
          else if inner \<noteq> [] \<and> \<not> starts_ws inner then None
          else if trim inner \<noteq> [] then Some (lead, if after = [] then None else Some after)
          else Some (if after = [] then lead else lead @ '' '' @ after, None))"

definition lettered_header :: "string \<Rightarrow> lettered_head option" where
  "lettered_header s =
     (let spaces = min (run_length (\<lambda>c. c = CHR '' '') s) 3;
          after_indent = drop spaces s;
          bold = List.find (\<lambda>b. starts_with b after_indent) bold_marks;
          body = drop (case bold of None \<Rightarrow> 0 | Some b \<Rightarrow> length b) after_indent
      in Option.bind (opt_or (lettered_keyword body) (bare_letter body)) (\<lambda>(style, ordinal, marker_len, separated).
           let rest = drop marker_len body in
           map_option (\<lambda>(label, details).
               \<lparr>lh_style = style, lh_ordinal = ordinal, lh_indent = spaces, lh_label = label, lh_details = details\<rparr>)
             (case bold of
                Some b \<Rightarrow> bold_header_text b body rest marker_len separated
              | None \<Rightarrow>
                  if \<not> separated \<or> rest \<noteq> [] \<and> \<not> starts_ws rest then None
                  else Some (trim after_indent, None))))"

definition interrupts_paragraph :: "string \<Rightarrow> bool" where
  "interrupts_paragraph s =
     (is_some (choice_fence s) \<or> is_heading s \<or> is_blockquote s \<or> is_thematic_break s
      \<or> is_some (choice_header s))"

definition continues_paragraph :: "string \<Rightarrow> bool" where
  "continues_paragraph s = (\<not> is_blank s \<and> \<not> interrupts_paragraph s \<and> lettered_header s = None)"

subsection \<open>Choices and groups\<close>

record feedback_choice =
  fc_id :: string
  fc_label :: string
  fc_details :: "string option"

record choice_group =
  cg_index :: nat
  cg_start :: nat
  cg_end :: nat
  cg_question :: "string option"
  cg_inline_question :: bool
  cg_choices :: "feedback_choice list"

record choice_region =
  cr_source :: string
  cr_source_start :: nat

record choice_document =
  cd_groups :: "choice_group list"
  cd_regions :: "choice_region list"

definition feedback_choice_id :: "nat \<Rightarrow> nat \<Rightarrow> string" where
  "feedback_choice_id group_index choice_index =
     (if group_index = 1 then ''choice-'' @ show_nat choice_index
      else ''group-'' @ show_nat group_index @ ''-choice-'' @ show_nat choice_index)"

definition question_line :: "string \<Rightarrow> string option" where
  "question_line prose =
     Option.bind (find_last (\<lambda>l. l \<noteq> []) (map trim (split_char (CHR 10) prose))) (\<lambda>l.
       let hashes = run_length (\<lambda>c. c = CHR ''#'') l;
           l = (if 1 \<le> hashes \<and> hashes \<le> 6 \<and> starts_ws (drop hashes l) then trim_start (drop hashes l) else l);
           question = trim (unwrap_bold l)
       in if question = [] then None else Some question)"

definition prose_region :: "string \<Rightarrow> nat \<Rightarrow> nat \<Rightarrow> choice_region" where
  "prose_region source start stop =
     (let raw = drop start (take stop source); body = trim_start_char (CHR 10) raw
      in \<lparr>cr_source = rev (trim_start_char (CHR 10) (rev body)), cr_source_start = start + length raw - length body\<rparr>)"

text \<open>The number of leading elements with a property.\<close>

definition run_length_list :: "('a \<Rightarrow> bool) \<Rightarrow> 'a list \<Rightarrow> nat" where
  "run_length_list p xs = length (takeWhile p xs)"

record pending_choice =
  pc_line :: nat
  pc_label :: string
  pc_first_details :: "string option"
  pc_dedent :: "nat option"
  pc_last_line :: nat

definition choice_details :: "string list \<Rightarrow> pending_choice \<Rightarrow> string option" where
  "choice_details texts choice =
     (let raw = drop (pc_line choice + 1) (take (pc_last_line choice + 1) texts);
          columns = (case pc_dedent choice of
                       Some c \<Rightarrow> c
                     | None \<Rightarrow> unwrap_or (min_by ord_cmp (map indent_of (filter (\<lambda>t. \<not> is_blank t) raw))) 0);
          body = map (\<lambda>t. trim_end (dedent t columns)) raw;
          body = (case pc_first_details choice of None \<Rightarrow> body | Some first \<Rightarrow> first # body);
          kept = rev (dropWhile (\<lambda>t. t = []) (rev (dropWhile (\<lambda>t. t = []) body)))
      in if kept = [] then None else Some (join nl kept))"

record scanned_group =
  sg_choices :: "pending_choice list"
  sg_last_line :: nat

definition extend_last :: "nat \<Rightarrow> pending_choice list \<Rightarrow> pending_choice list" where
  "extend_last i choices = (if choices = [] then [] else butlast choices @ [(last choices)\<lparr>pc_last_line := i\<rparr>])"

text \<open>The list scanner over the lines from index \<open>i\<close> on; \<open>indent\<close> is the indentation of the current
  item, \<open>blank\<close> whether blank lines precede.\<close>

fun scan_list_from ::
  "bool \<Rightarrow> nat \<Rightarrow> string list \<Rightarrow> pending_choice list \<Rightarrow> nat option \<Rightarrow> nat \<Rightarrow> bool \<Rightarrow> scanned_group" where
  "scan_list_from ordered i [] choices indent last_line blank = \<lparr>sg_choices = choices, sg_last_line = last_line\<rparr>"
| "scan_list_from ordered i (t # ts) choices indent last_line blank =
     (if is_blank t then scan_list_from ordered (Suc i) ts choices indent last_line True
      else if is_some_and indent (\<lambda>n. indent_of t \<ge> n + 2) \<and> choices \<noteq> []
      then scan_list_from ordered (Suc i) ts (extend_last i choices) indent i False
      else case list_item t of
          Some item \<Rightarrow>
            if li_ordered item \<noteq> ordered then \<lparr>sg_choices = choices, sg_last_line = last_line\<rparr>
            else scan_list_from ordered (Suc i) ts
                   (choices @ [\<lparr>pc_line = i, pc_label = li_label item, pc_first_details = None,
                                pc_dedent = Some (li_content_column item), pc_last_line = i\<rparr>])
                   (Some (li_indent item)) i False
        | None \<Rightarrow>
            if choices \<noteq> [] \<and> \<not> blank \<and> \<not> interrupts_paragraph t
            then scan_list_from ordered (Suc i) ts (extend_last i choices) indent i blank
            else \<lparr>sg_choices = choices, sg_last_line = last_line\<rparr>)"

definition scan_list :: "string list \<Rightarrow> nat \<Rightarrow> scanned_group" where
  "scan_list texts first =
     scan_list_from (is_some_and (list_item (texts ! first)) li_ordered) first (drop first texts) [] None first False"

definition fence_end :: "string list \<Rightarrow> nat \<Rightarrow> nat" where
  "fence_end texts i =
     (case choice_fence (texts ! i) of
        None \<Rightarrow> i
      | Some (marker, len) \<Rightarrow>
          let closes = (\<lambda>t. is_some_and (choice_fence t) (\<lambda>(c, n). c = marker \<and> n \<ge> len));
              next = i + 1 + run_length_list (\<lambda>t. \<not> closes t) (drop (i + 1) texts)
          in if next < length texts then next else length texts - 1)"

lemma fence_end_ge: "i < length texts \<Longrightarrow> i \<le> fence_end texts i \<and> fence_end texts i < length texts"
  by (auto simp: fence_end_def Let_def split: option.split)

definition is_next :: "string list \<Rightarrow> string \<Rightarrow> nat \<Rightarrow> nat \<Rightarrow> bool" where
  "is_next texts style i taken =
     is_some_and (lettered_header (texts ! i)) (\<lambda>h. lh_style h = style \<and> lh_ordinal h = taken + 1)"

text \<open>The paragraphs after a lettered block: whether the next header was found, where the probe
  stopped, the block's last line and the end of the first paragraph.\<close>

definition skip_blank :: "string list \<Rightarrow> nat \<Rightarrow> nat" where
  "skip_blank texts i = i + run_length_list is_blank (drop i texts)"

definition unit_end :: "string list \<Rightarrow> nat \<Rightarrow> nat" where
  "unit_end texts p =
     (if is_some (choice_fence (texts ! p)) then fence_end texts p
      else p + run_length_list continues_paragraph (drop (p + 1) texts))"

lemma unit_end_ge: "p < length texts \<Longrightarrow> p \<le> unit_end texts p"
  using fence_end_ge[of p texts] by (simp add: unit_end_def)

function probe_units ::
  "string list \<Rightarrow> string \<Rightarrow> nat \<Rightarrow> nat \<Rightarrow> nat \<Rightarrow> nat \<Rightarrow> nat option \<Rightarrow> nat option \<Rightarrow> bool \<times> nat \<times> nat \<times> nat option"
  where
  "probe_units texts style taken indent probe last_line pending first_unit =
     (let p = skip_blank texts probe in
      if p \<ge> length texts then (False, p, last_line, first_unit)
      else if is_next texts style p (taken + 1) then (True, p, unwrap_or pending last_line, first_unit)
      else let t = texts ! p in
        if is_heading t \<or> is_some (choice_header t) \<or> is_some (lettered_header t)
        then (False, p, last_line, first_unit)
        else let e = unit_end texts p; own = (pending = None \<and> indent_of t \<ge> indent + 2) in
          probe_units texts style taken indent (e + 1) (if own then e else last_line)
            (if own then pending else Some e) (opt_or first_unit (Some e)))"
  by pat_completeness auto
termination
proof (relation "measure (\<lambda>(texts, style, taken, indent, probe, last_line, pending, first_unit). length texts - probe)")
  fix texts :: "string list" and probe p e :: nat
  assume p: "p = skip_blank texts probe" "\<not> length texts \<le> p" and e: "e = unit_end texts p"
  have "probe \<le> p" using p(1) by (simp add: skip_blank_def)
  moreover have "p \<le> e" using unit_end_ge[of p texts] p(2) e by simp
  ultimately have "length texts - (e + 1) < length texts - probe" using p(2) by linarith
  then show "((texts, style, taken, indent, e + 1, l, pend, f), texts, style, taken, indent, probe, l', pend', f')
      \<in> measure (\<lambda>(texts, style, taken, indent, probe, last_line, pending, first_unit). length texts - probe)"
    for style :: string and taken indent l l' :: nat and pend pend' f f' :: "nat option"
    by simp
qed simp

declare probe_units.simps [simp del]

definition has_details :: "pending_choice \<Rightarrow> bool" where
  "has_details c = (pc_last_line c > pc_line c \<or> is_some (pc_first_details c))"

text \<open>One lettered block at line \<open>i\<close>, with the index of the next header if there is one.\<close>

definition lettered_block ::
  "string list \<Rightarrow> string \<Rightarrow> pending_choice list \<Rightarrow> nat \<Rightarrow> lettered_head \<Rightarrow> pending_choice \<times> nat option" where
  "lettered_block texts style choices i block =
     (let own = i + run_length_list continues_paragraph (drop (i + 1) texts);
          header_only = (own = i \<and> lh_details block = None);
          (found, probe, last_line, first_unit) =
            probe_units texts style (length choices) (lh_indent block) (own + 1) own None None;
          last_line = (if \<not> found \<and> header_only \<and> last_line = i \<and> list_ex has_details choices
                       then unwrap_or first_unit last_line else last_line)
      in (\<lparr>pc_line = i, pc_label = lh_label block, pc_first_details = lh_details block, pc_dedent = None,
           pc_last_line = last_line\<rparr>,
          if found then Some probe else None))"

lemma probe_units_ge: "probe \<le> fst (snd (probe_units texts style taken indent probe l pend f))"
proof (induction texts style taken indent probe l pend f rule: probe_units.induct)
  case (1 texts style taken indent probe l pend f)
  let ?p = "skip_blank texts probe"
  have p: "probe \<le> ?p" by (simp add: skip_blank_def)
  show ?case
  proof (cases "?p \<ge> length texts \<or> is_next texts style ?p (taken + 1) \<or> is_heading (texts ! ?p)
      \<or> is_some (choice_header (texts ! ?p)) \<or> is_some (lettered_header (texts ! ?p))")
    case True
    then show ?thesis using p by (subst probe_units.simps) (auto simp: Let_def)
  next
    case False
    then have "?p \<le> unit_end texts ?p" using unit_end_ge[of ?p texts] by simp
    with False p 1[OF refl _ _ refl _ refl refl] show ?thesis
      by (subst probe_units.simps) (auto simp: Let_def)
  qed
qed

lemma lettered_block_advances:
  assumes "lettered_block texts style choices i block = (c, Some j)"
  shows "i < j"
proof -
  let ?own = "i + run_length_list continues_paragraph (drop (i + 1) texts)"
  obtain found probe l f where p: "probe_units texts style (length choices) (lh_indent block) (?own + 1) ?own None None
      = (found, probe, l, f)" by (metis surj_pair)
  have "?own + 1 \<le> probe"
    using probe_units_ge[of "?own + 1" texts style "length choices" "lh_indent block" ?own None None] p by simp
  moreover have "j = probe"
    using assms p by (simp add: lettered_block_def Let_def split: if_splits)
  ultimately show ?thesis by simp
qed

function lettered_from :: "string list \<Rightarrow> string \<Rightarrow> nat \<Rightarrow> pending_choice list \<Rightarrow> pending_choice list" where
  "lettered_from texts style i choices =
     (if i < length texts \<and> is_next texts style i (length choices)
      then case lettered_header (texts ! i) of
          None \<Rightarrow> choices
        | Some block \<Rightarrow>
            (case lettered_block texts style choices i block of
               (current, Some j) \<Rightarrow> lettered_from texts style j (choices @ [current])
             | (current, None) \<Rightarrow> choices @ [current])
      else choices)"
  by pat_completeness auto
termination
  by (relation "measure (\<lambda>(texts, style, i, choices). length texts - i)")
    (auto dest!: lettered_block_advances[OF sym] intro: diff_less_mono2)

declare lettered_from.simps [simp del]

definition scan_lettered :: "string list \<Rightarrow> nat \<Rightarrow> scanned_group" where
  "scan_lettered texts first =
     (let style = (case lettered_header (texts ! first) of None \<Rightarrow> [] | Some h \<Rightarrow> lh_style h);
          choices = lettered_from texts style first []
      in \<lparr>sg_choices = choices, sg_last_line = (if choices = [] then first else pc_last_line (last choices))\<rparr>)"

definition scan_group :: "string list \<Rightarrow> nat \<Rightarrow> bool \<Rightarrow> scanned_group option" where
  "scan_group texts first explicit_header =
     (if first \<ge> length texts then None
      else if explicit_header \<and> is_some (list_item (texts ! first)) then Some (scan_list texts first)
      else case lettered_header (texts ! first) of
          None \<Rightarrow> None
        | Some h \<Rightarrow>
            if lh_ordinal h \<noteq> 1 then None
            else let group = scan_lettered texts first
                 in if explicit_header \<or> length (sg_choices group) \<ge> 2 then Some group else None)"

subsection \<open>The scanners stay within the prompt\<close>

text \<open>A scanned group within the lines \<open>first ..< n\<close>: its choices are in order, do not overlap, and
  the last one ends the group.\<close>

definition choices_ok :: "nat \<Rightarrow> nat \<Rightarrow> pending_choice list \<Rightarrow> bool" where
  "choices_ok first n cs =
     (list_all (\<lambda>c. first \<le> pc_line c \<and> pc_line c \<le> pc_last_line c \<and> pc_last_line c < n) cs
      \<and> sorted_wrt (\<lambda>a b. pc_last_line a < pc_line b) cs)"

lemma choices_ok_Nil [simp]: "choices_ok first n []"
  by (simp add: choices_ok_def)

lemma choices_ok_mono: "choices_ok first n cs \<Longrightarrow> n \<le> m \<Longrightarrow> choices_ok first m cs"
  by (auto simp: choices_ok_def list_all_iff)

lemma choices_ok_snoc:
  "choices_ok first n cs \<Longrightarrow> first \<le> n \<Longrightarrow> n \<le> pc_line c \<Longrightarrow> pc_line c \<le> pc_last_line c \<Longrightarrow> pc_last_line c < m
     \<Longrightarrow> choices_ok first m (cs @ [c])"
  by (fastforce simp: choices_ok_def list_all_iff sorted_wrt_append)

lemma choices_ok_extend:
  assumes "choices_ok first i cs" shows "choices_ok first (Suc i) (extend_last i cs)"
proof (cases cs rule: rev_cases)
  case (snoc ds d)
  with assms show ?thesis
    by (auto simp: choices_ok_def extend_last_def list_all_iff sorted_wrt_append)
qed (simp add: extend_last_def)

lemma scan_list_ok:
  assumes "choices_ok first i cs" "choices_ok first (Suc l) cs" "first \<le> l" "first \<le> i" "l < i + length ts"
  shows "let g = scan_list_from ordered i ts cs indent l blank in
    choices_ok first (Suc (sg_last_line g)) (sg_choices g) \<and> first \<le> sg_last_line g \<and> sg_last_line g < i + length ts"
  using assms
proof (induction ts arbitrary: i cs indent l blank)
  case (Cons t ts)
  have later: "choices_ok first (Suc i) cs" by (rule choices_ok_mono[OF Cons.prems(1)]) simp
  have ext: "choices_ok first (Suc i) (extend_last i cs)" by (rule choices_ok_extend[OF Cons.prems(1)])
  have new: "choices_ok first (Suc i) (cs @ [\<lparr>pc_line = i, pc_label = x, pc_first_details = None,
      pc_dedent = d, pc_last_line = i\<rparr>])" for x d
    using Cons.prems(4) by (intro choices_ok_snoc[OF Cons.prems(1)]) simp_all
  show ?case
    using Cons.prems Cons.IH[OF later Cons.prems(2,3), of indent True]
      Cons.IH[OF ext ext Cons.prems(4), of indent False] Cons.IH[OF ext ext Cons.prems(4), of indent blank]
      Cons.IH[OF new new Cons.prems(4)]
    by (auto simp: Let_def split: option.split)
qed (simp add: Let_def)

lemma unit_end_less: "p < length texts \<Longrightarrow> unit_end texts p < length texts"
proof -
  assume p: "p < length texts"
  have "run_length_list continues_paragraph (drop (p + 1) texts) \<le> length (drop (p + 1) texts)"
    unfolding run_length_list_def by (rule length_takeWhile_le)
  then have "p + run_length_list continues_paragraph (drop (p + 1) texts) < length texts" using p by simp
  with fence_end_ge[OF p] show ?thesis by (simp add: unit_end_def)
qed

lemma probe_units_ok:
  assumes "lo \<le> l" "l < probe" "l < length texts"
    "is_none_or pend (\<lambda>e. lo \<le> e \<and> e < probe \<and> e < length texts)" "is_none_or f (\<lambda>e. lo \<le> e \<and> e < length texts)"
  shows "case probe_units texts style taken indent probe l pend f of (found, p, l', f') \<Rightarrow>
    lo \<le> l' \<and> l' < length texts \<and> (found \<longrightarrow> l' < p \<and> p < length texts)
    \<and> is_none_or f' (\<lambda>e. lo \<le> e \<and> e < length texts)"
  using assms
proof (induction texts style taken indent probe l pend f rule: probe_units.induct)
  case (1 texts style taken indent probe l pend f)
  let ?p = "skip_blank texts probe" and ?e = "unit_end texts (skip_blank texts probe)"
  have p: "probe \<le> ?p" by (simp add: skip_blank_def)
  show ?case
  proof (cases "?p \<ge> length texts \<or> is_next texts style ?p (taken + 1) \<or> is_heading (texts ! ?p)
      \<or> is_some (choice_header (texts ! ?p)) \<or> is_some (lettered_header (texts ! ?p))")
    case True
    then show ?thesis using p 1(2-6)
      by (subst probe_units.simps) (cases pend; auto simp: Let_def)
  next
    case False
    then have e: "?p \<le> ?e" "?e < length texts" using unit_end_ge[of ?p texts] unit_end_less[of ?p texts] by simp_all
    let ?own = "pend = None \<and> indent_of (texts ! ?p) \<ge> indent + 2"
    have "case probe_units texts style taken indent (?e + 1) (if ?own then ?e else l)
        (if ?own then pend else Some ?e) (opt_or f (Some ?e)) of (found, p, l', f') \<Rightarrow>
      lo \<le> l' \<and> l' < length texts \<and> (found \<longrightarrow> l' < p \<and> p < length texts)
      \<and> is_none_or f' (\<lambda>e. lo \<le> e \<and> e < length texts)"
      using False e p 1(2-6)
      by (intro 1(1)[OF refl _ _ refl _ refl refl]) (auto simp: opt_or_def split: option.split)
    with False show ?thesis by (subst probe_units.simps) (simp add: Let_def)
  qed
qed

lemma lettered_block_ok:
  assumes "lettered_block texts style cs i block = (c, r)" "i < length texts"
  shows "pc_line c = i" "i \<le> pc_last_line c" "pc_last_line c < length texts"
    "is_none_or r (\<lambda>j. pc_last_line c < j \<and> j < length texts)"
proof -
  let ?own = "i + run_length_list continues_paragraph (drop (i + 1) texts)"
  obtain found probe l f where p: "probe_units texts style (length cs) (lh_indent block) (?own + 1) ?own None None
      = (found, probe, l, f)" by (metis surj_pair)
  have "run_length_list continues_paragraph (drop (i + 1) texts) \<le> length (drop (i + 1) texts)"
    unfolding run_length_list_def by (rule length_takeWhile_le)
  then have own: "?own < length texts" using assms(2) by simp
  have ok: "i \<le> l" "l < length texts" "found \<longrightarrow> l < probe \<and> probe < length texts"
    "is_none_or f (\<lambda>e. i \<le> e \<and> e < length texts)"
    using probe_units_ok[of i ?own "?own + 1" texts None None style "length cs" "lh_indent block"] own p
    by simp_all
  show "pc_line c = i" "i \<le> pc_last_line c" "pc_last_line c < length texts"
    "is_none_or r (\<lambda>j. pc_last_line c < j \<and> j < length texts)"
    using assms(1) p ok by (cases f; auto simp: lettered_block_def Let_def split: if_splits)+
qed

lemma lettered_from_ok:
  assumes "choices_ok first i cs" "first \<le> i" "i \<le> length texts"
  shows "choices_ok first (length texts) (lettered_from texts style i cs)
    \<and> (is_next texts style i (length cs) \<and> i < length texts \<longrightarrow> lettered_from texts style i cs \<noteq> [])
    \<and> (cs \<noteq> [] \<longrightarrow> lettered_from texts style i cs \<noteq> [])"
  using assms
proof (induction texts style i cs rule: lettered_from.induct)
  case (1 texts style i cs)
  show ?case
  proof (cases "i < length texts \<and> is_next texts style i (length cs)")
    case False
    then show ?thesis using 1(2-4) choices_ok_mono[of first i cs "length texts"]
      by (subst (1 2 3) lettered_from.simps) auto
  next
    case True
    then obtain block where b: "lettered_header (texts ! i) = Some block"
      by (cases "lettered_header (texts ! i)") (auto simp: is_next_def)
    obtain c r where l: "lettered_block texts style cs i block = (c, r)" by force
    note ok = lettered_block_ok[OF l]
    show ?thesis
    proof (cases r)
      case None
      have "choices_ok first (length texts) (cs @ [c])"
        using 1(2,3) ok True by (intro choices_ok_snoc[of first i]) simp_all
      with True b l None show ?thesis by (subst (1 2 3) lettered_from.simps) simp
    next
      case (Some j)
      have "choices_ok first j (cs @ [c])"
        using 1(2,3) ok True Some by (intro choices_ok_snoc[of first i]) simp_all
      moreover have "first \<le> j" "j \<le> length texts" using 1(3) ok True Some by simp_all
      ultimately show ?thesis
        using 1(1)[OF True b l[symmetric] Some] True b l Some
        by (subst (1 2 3) lettered_from.simps) simp
    qed
  qed
qed

lemma choices_ok_last:
  assumes "choices_ok first n cs" "cs \<noteq> []"
  shows "choices_ok first (Suc (pc_last_line (last cs))) cs" "first \<le> pc_last_line (last cs)" "pc_last_line (last cs) < n"
  using assms by (cases cs rule: rev_cases; fastforce simp: choices_ok_def list_all_iff sorted_wrt_append)+

lemma scan_group_ok:
  assumes "scan_group texts first b = Some g"
  shows "first \<le> sg_last_line g" "sg_last_line g < length texts" "choices_ok first (Suc (sg_last_line g)) (sg_choices g)"
proof -
  have f: "first < length texts" using assms by (auto simp: scan_group_def split: if_splits)
  have l: "choices_ok first (Suc (sg_last_line (scan_list texts first))) (sg_choices (scan_list texts first))
      \<and> first \<le> sg_last_line (scan_list texts first) \<and> sg_last_line (scan_list texts first) < length texts"
    using scan_list_ok[of first first "[]" first "drop first texts"] f by (simp add: scan_list_def Let_def)
  have t: "choices_ok first (Suc (sg_last_line (scan_lettered texts first))) (sg_choices (scan_lettered texts first))
      \<and> first \<le> sg_last_line (scan_lettered texts first) \<and> sg_last_line (scan_lettered texts first) < length texts"
    using lettered_from_ok[of first first "[]" texts] choices_ok_last[of first "length texts"] f
    by (simp add: scan_lettered_def Let_def)
  show "first \<le> sg_last_line g" "sg_last_line g < length texts" "choices_ok first (Suc (sg_last_line g)) (sg_choices g)"
    using assms l t by (auto simp: scan_group_def Let_def split: if_splits option.splits)
qed

subsection \<open>The document\<close>

definition opened_group :: "string list \<Rightarrow> nat \<Rightarrow> scanned_group option" where
  "opened_group texts i =
     opt_filter (\<lambda>g. sg_choices g \<noteq> [])
       (if is_some (choice_header (texts ! i)) then scan_group texts (skip_blank texts (i + 1)) True
        else scan_group texts i False)"

definition feedback_choices_of :: "string list \<Rightarrow> nat \<Rightarrow> pending_choice list \<Rightarrow> feedback_choice list" where
  "feedback_choices_of texts group_index cs =
     map (\<lambda>(k, c). \<lparr>fc_id = feedback_choice_id group_index (k + 1), fc_label = pc_label c,
                     fc_details = choice_details texts c\<rparr>) (enumerate 0 cs)"

lemma opened_group_ok:
  assumes "opened_group texts i = Some g"
  shows "i \<le> sg_last_line g" "sg_last_line g < length texts" "sg_choices g \<noteq> []"
proof -
  obtain first b where f: "scan_group texts first b = Some g" "i \<le> first" "sg_choices g \<noteq> []"
    using assms by (auto simp: opened_group_def opt_filter_def skip_blank_def split: option.splits if_splits)
  show "i \<le> sg_last_line g" "sg_last_line g < length texts" "sg_choices g \<noteq> []"
    using scan_group_ok[OF f(1)] f(2,3) by simp_all
qed

record choice_scan =
  cs_open_fence :: "(char \<times> nat) option"
  cs_prose_start :: nat
  cs_groups :: "choice_group list"
  cs_regions :: "choice_region list"

definition add_group :: "string \<Rightarrow> source_line list \<Rightarrow> nat \<Rightarrow> scanned_group \<Rightarrow> choice_scan \<Rightarrow> choice_scan" where
  "add_group source ls i g st =
     (let texts = map sl_text ls; index = length (cs_groups st) + 1;
          start = sl_start (ls ! i); stop = sl_end (ls ! sg_last_line g);
          prose = prose_region source (cs_prose_start st) start;
          inline = Option.bind (choice_header (texts ! i)) id
      in st\<lparr>cs_prose_start := stop, cs_regions := cs_regions st @ [prose],
            cs_groups := cs_groups st @
              [\<lparr>cg_index = index, cg_start = start, cg_end = stop,
                cg_question = opt_or inline (question_line (cr_source prose)),
                cg_inline_question = is_some inline,
                cg_choices = feedback_choices_of texts index (sg_choices g)\<rparr>]\<rparr>)"

function scan_document :: "string \<Rightarrow> source_line list \<Rightarrow> nat \<Rightarrow> choice_scan \<Rightarrow> choice_scan" where
  "scan_document source ls i st =
     (if i \<ge> length ls then st
      else let texts = map sl_text ls; fence_match = choice_fence (texts ! i) in
        case cs_open_fence st of
          Some (marker, len) \<Rightarrow>
            scan_document source ls (i + 1)
              (if is_some_and fence_match (\<lambda>(c, n). c = marker \<and> n \<ge> len) then st\<lparr>cs_open_fence := None\<rparr> else st)
        | None \<Rightarrow>
            if is_some fence_match then scan_document source ls (i + 1) (st\<lparr>cs_open_fence := fence_match\<rparr>)
            else case opened_group texts i of
                None \<Rightarrow> scan_document source ls (i + 1) st
              | Some g \<Rightarrow> scan_document source ls (sg_last_line g + 1) (add_group source ls i g st))"
  by pat_completeness auto
termination
proof (relation "measure (\<lambda>(source, ls, i, st). length ls - i)")
  fix source :: string and ls :: "source_line list" and i :: nat and st :: choice_scan
    and texts :: "string list" and g :: scanned_group
  assume i: "\<not> length ls \<le> i" "texts = map sl_text ls" and g: "opened_group texts i = Some g"
  from opened_group_ok(1)[OF g] have "length ls - (sg_last_line g + 1) < length ls - i" using i(1) by simp
  then show "((source, ls, sg_last_line g + 1, add_group source ls i g st), source, ls, i, st)
      \<in> measure (\<lambda>(source, ls, i, st). length ls - i)" by simp
qed auto

declare scan_document.simps [simp del]

definition parse_feedback_choices :: "string \<Rightarrow> choice_document option" where
  "parse_feedback_choices source =
     (let st = scan_document source (source_lines source) 0
                 \<lparr>cs_open_fence = None, cs_prose_start = 0, cs_groups = [], cs_regions = []\<rparr>
      in if cs_groups st = [] then None
         else Some \<lparr>cd_groups = cs_groups st,
                    cd_regions = cs_regions st @ [prose_region source (cs_prose_start st) (length source)]\<rparr>)"

subsection \<open>Answers\<close>

definition indent_lines :: "string \<Rightarrow> string" where
  "indent_lines s = concat (map (\<lambda>c. if c = CHR 10 then nl @ ''  '' else [c]) s)"

definition choice_bullets :: "feedback_choice list \<Rightarrow> string" where
  "choice_bullets cs = join nl (map (\<lambda>c. ''- '' @ indent_lines (fc_label c)) cs)"

definition selected_choices :: "choice_group \<Rightarrow> string list \<Rightarrow> feedback_choice list" where
  "selected_choices g selected = filter (\<lambda>c. fc_id c \<in> set selected) (cg_choices g)"

definition selected_feedback_group_markdown :: "choice_group \<Rightarrow> string list \<Rightarrow> string" where
  "selected_feedback_group_markdown g selected =
     (let cs = selected_choices g selected in
      if cs = [] then []
      else ''Selected choice'' @ (if length cs = 1 then [] else ''s'') @ '':'' @ nl @ choice_bullets cs)"

definition selected_feedback_choices_markdown :: "string \<Rightarrow> string list \<Rightarrow> string" where
  "selected_feedback_choices_markdown source selected =
     (case parse_feedback_choices source of
        None \<Rightarrow> []
      | Some d \<Rightarrow>
          (case cd_groups d of
             [g] \<Rightarrow> selected_feedback_group_markdown g selected
           | gs \<Rightarrow>
               join (nl @ nl) (List.map_filter (\<lambda>g.
                 let cs = selected_choices g selected in
                 if cs = [] then None
                 else Some (''**'' @ unwrap_or (cg_question g) (''Choice '' @ show_nat (cg_index g)) @ ''**'' @ nl
                            @ choice_bullets cs)) gs)))"

subsection \<open>Every byte has its place\<close>

text \<open>The region \<open>r\<close> is the text from \<open>a\<close> to \<open>b\<close> without the line breaks around it, at its offset.\<close>

definition region_at :: "string \<Rightarrow> nat \<Rightarrow> nat \<Rightarrow> choice_region \<Rightarrow> bool" where
  "region_at source a b r =
     (a \<le> b \<and> b \<le> length source
      \<and> (\<exists>m n. drop a (take b source) = replicate m (CHR 10) @ cr_source r @ replicate n (CHR 10)
              \<and> cr_source_start r = a + m))"

fun covers :: "string \<Rightarrow> nat \<Rightarrow> choice_region list \<Rightarrow> choice_group list \<Rightarrow> bool" where
  "covers source a [r] [] = region_at source a (length source) r"
| "covers source a (r # rs) (g # gs) =
     (region_at source a (cg_start g) r \<and> cg_start g < cg_end g \<and> covers source (cg_end g) rs gs)"
| "covers source a _ _ = False"

text \<open>The same before the last region is known.\<close>

fun covers_to :: "string \<Rightarrow> nat \<Rightarrow> choice_region list \<Rightarrow> choice_group list \<Rightarrow> nat \<Rightarrow> bool" where
  "covers_to source a [] [] b = (a = b)"
| "covers_to source a (r # rs) (g # gs) b =
     (region_at source a (cg_start g) r \<and> cg_start g < cg_end g \<and> covers_to source (cg_end g) rs gs b)"
| "covers_to source a _ _ b = False"

lemma covers_to_snoc:
  "covers_to source a rs gs b \<Longrightarrow> region_at source b (cg_start g) r \<Longrightarrow> cg_start g < cg_end g \<Longrightarrow>
     covers_to source a (rs @ [r]) (gs @ [g]) (cg_end g)"
  by (induction source a rs gs b rule: covers_to.induct) auto

lemma covers_to_last:
  "covers_to source a rs gs b \<Longrightarrow> region_at source b (length source) r \<Longrightarrow> covers source a (rs @ [r]) gs"
proof (induction source a rs gs b rule: covers_to.induct)
  case (2 source a r' rs g gs b)
  then show ?case by (cases "rs @ [r]"; cases gs) auto
qed auto

lemma newline_split: "\<exists>m. s = replicate m (CHR 10) @ trim_start_char (CHR 10) s \<and> length s = m + length (trim_start_char (CHR 10) s)"
proof (induction s)
  case (Cons c s)
  then obtain m where m: "s = replicate m (CHR 10) @ trim_start_char (CHR 10) s"
    "length s = m + length (trim_start_char (CHR 10) s)" by blast
  show ?case
  proof (cases "c = CHR 10")
    case True
    with m show ?thesis by (intro exI[of _ "Suc m"]) (simp add: trim_start_char_def)
  qed (simp add: trim_start_char_def)
qed (simp add: trim_start_char_def)

lemma prose_region_at:
  assumes "a \<le> b" "b \<le> length source" shows "region_at source a b (prose_region source a b)"
proof -
  let ?raw = "drop a (take b source)"
  let ?body = "trim_start_char (CHR 10) ?raw"
  obtain m where m: "?raw = replicate m (CHR 10) @ ?body" "length ?raw = m + length ?body"
    using newline_split by blast
  obtain n where n: "rev ?body = replicate n (CHR 10) @ trim_start_char (CHR 10) (rev ?body)"
    using newline_split by blast
  have "?body = rev (trim_start_char (CHR 10) (rev ?body)) @ replicate n (CHR 10)"
    using arg_cong[OF n, of rev] by simp
  with m assms show ?thesis
    unfolding region_at_def prose_region_def Let_def
    by (intro conjI exI[of _ m] exI[of _ n]) simp_all
qed

text \<open>The lines are consecutive non-empty pieces of the source.\<close>

lemma source_lines_chain:
  "ls = source_lines_at start rest \<Longrightarrow> i < length ls \<Longrightarrow>
     sl_start (ls ! i) < sl_end (ls ! i) \<and> sl_end (ls ! i) \<le> start + length rest
     \<and> sl_start (ls ! i) = (if i = 0 then start else sl_end (ls ! (i - 1)))"
proof (induction start rest arbitrary: ls i rule: source_lines_at.induct)
  case (1 start rest)
  show ?case
  proof (cases "rest = []")
    case True
    with 1(2,3) show ?thesis by (simp add: source_lines_at.simps)
  next
    case False
    show ?thesis
    proof (cases "find_sub nl rest")
      case None
      with 1(2,3) False show ?thesis by (simp add: source_lines_at.simps)
    next
      case (Some k)
      let ?tl = "source_lines_at (start + k + 1) (drop (k + 1) rest)"
      have ls: "ls = \<lparr>sl_start = start, sl_end = start + k + 1, sl_text = take k rest\<rparr> # ?tl"
        using 1(2) False Some by (simp add: source_lines_at.simps[of start rest])
      obtain t where t: "rest = take k rest @ nl @ t" "length (take k rest) = k" using find_sub_Some[OF Some] by blast
      have k: "k + 1 \<le> length rest" using arg_cong[OF t(1), of length] t(2) by (simp add: nl_def)
      show ?thesis
      proof (cases i)
        case 0
        with ls k show ?thesis by simp
      next
        case (Suc j)
        with 1(3) ls have j: "j < length ?tl" by simp
        have "start + k + 1 + length (drop (k + 1) rest) = start + length rest" using k by simp
        from 1(1)[OF False Some refl j, unfolded this] show ?thesis
          by (cases j) (simp_all add: ls Suc)
      qed
    qed
  qed
qed

definition line_bound :: "string \<Rightarrow> source_line list \<Rightarrow> nat \<Rightarrow> nat" where
  "line_bound source ls i = (if i < length ls then sl_start (ls ! i) else length source)"

lemma line_bound_step:
  assumes "ls = source_lines source" "i < length ls"
  shows "line_bound source ls i < sl_end (ls ! i)" "sl_end (ls ! i) \<le> line_bound source ls (Suc i)"
    "line_bound source ls i \<le> length source" "line_bound source ls (Suc i) \<le> length source"
  using source_lines_chain[of ls 0 source i] source_lines_chain[of ls 0 source "Suc i"] assms
  by (auto simp: line_bound_def source_lines_def)

lemma line_bound_mono:
  assumes "ls = source_lines source" "i \<le> j" shows "line_bound source ls i \<le> line_bound source ls j"
  using assms(2)
proof (induction j rule: dec_induct)
  case (step j)
  show ?case
  proof (cases "j < length ls")
    case True
    with step line_bound_step[OF assms(1) True] show ?thesis by linarith
  qed (use step in \<open>simp add: line_bound_def\<close>)
qed simp

definition numbered :: "choice_group list \<Rightarrow> bool" where
  "numbered gs =
     (map cg_index gs = map Suc [0..<length gs]
      \<and> list_all (\<lambda>g. cg_choices g \<noteq> [] \<and> map fc_id (cg_choices g)
          = map (\<lambda>k. feedback_choice_id (cg_index g) (k + 1)) [0..<length (cg_choices g)]) gs)"

definition scan_ok :: "string \<Rightarrow> source_line list \<Rightarrow> nat \<Rightarrow> choice_scan \<Rightarrow> bool" where
  "scan_ok source ls i st =
     (covers_to source 0 (cs_regions st) (cs_groups st) (cs_prose_start st)
      \<and> cs_prose_start st \<le> line_bound source ls i \<and> numbered (cs_groups st))"

lemma ids_of_choices:
  "map fc_id (feedback_choices_of texts n cs) = map (\<lambda>k. feedback_choice_id n (k + 1)) [0..<length cs]"
  "length (feedback_choices_of texts n cs) = length cs"
  by (auto intro!: nth_equalityI simp: feedback_choices_of_def nth_enumerate_eq)

lemma scan_ok_add:
  assumes "scan_ok source ls i st" "ls = source_lines source" "i < length ls" "i \<le> sg_last_line g"
    "sg_last_line g < length ls" "sg_choices g \<noteq> []"
  shows "scan_ok source ls (sg_last_line g + 1) (add_group source ls i g st)"
proof -
  let ?b = "sg_last_line g"
  have start: "sl_start (ls ! i) = line_bound source ls i" using assms(3) by (simp add: line_bound_def)
  have b: "line_bound source ls i < sl_end (ls ! ?b)" "sl_end (ls ! ?b) \<le> line_bound source ls (Suc ?b)"
    using line_bound_step[OF assms(2,5)] line_bound_mono[OF assms(2,4)] by linarith+
  have r: "region_at source (cs_prose_start st) (line_bound source ls i)
      (prose_region source (cs_prose_start st) (line_bound source ls i))"
    using assms(1) line_bound_step(3)[OF assms(2,3)] by (intro prose_region_at) (simp_all add: scan_ok_def)
  have "covers_to source 0 (cs_regions st @ [prose_region source (cs_prose_start st) (line_bound source ls i)])
      (cs_groups st @ [h]) (sl_end (ls ! ?b))" if "cg_start h = line_bound source ls i" "cg_end h = sl_end (ls ! ?b)" for h
    using assms(1) covers_to_snoc[of source 0 "cs_regions st" "cs_groups st" "cs_prose_start st" h, unfolded that, OF _ r b(1)]
    by (simp add: scan_ok_def)
  moreover have "feedback_choices_of texts n (sg_choices g) \<noteq> []" for texts n
    using ids_of_choices(2)[of texts n "sg_choices g"] assms(6) by auto
  ultimately show ?thesis
    using assms(1) b
    by (simp add: scan_ok_def add_group_def Let_def start numbered_def ids_of_choices)
qed

lemma scan_document_ok:
  assumes "scan_ok source ls i st" "ls = source_lines source"
  shows "scan_ok source ls (length ls) (scan_document source ls i st)"
  using assms
proof (induction source ls i st rule: scan_document.induct)
  case (1 source ls i st)
  show ?case
  proof (cases "i \<ge> length ls")
    case True
    then show ?thesis using 1(5) by (subst scan_document.simps) (simp add: scan_ok_def line_bound_def)
  next
    case False
    then have i: "i < length ls" by simp
    have next_line: "scan_ok source ls (i + 1) (st\<lparr>cs_open_fence := f\<rparr>)" "scan_ok source ls (i + 1) st" for f
      using 1(5) line_bound_step[OF 1(6) i] by (auto simp: scan_ok_def)
    let ?texts = "map sl_text ls"
    let ?f = "choice_fence (?texts ! i)"
    show ?thesis
    proof (cases "cs_open_fence st")
      case (Some x)
      obtain marker len where x: "x = (marker, len)" by force
      have "scan_ok source ls (i + 1) (if is_some_and ?f (\<lambda>(c, n). c = marker \<and> n \<ge> len) then st\<lparr>cs_open_fence := None\<rparr> else st)"
        using next_line by simp
      from 1(4)[OF False refl refl Some x[symmetric] this 1(6)] False Some x show ?thesis
        by (subst scan_document.simps) (simp add: Let_def)
    next
      case None
      show ?thesis
      proof (cases "is_some ?f")
        case True
        from 1(1)[OF False refl refl None True next_line(1) 1(6)] False None True show ?thesis
          by (subst scan_document.simps) (simp add: Let_def)
      next
        case nf: False
        show ?thesis
        proof (cases "opened_group ?texts i")
          case no: None
          from 1(2)[OF False refl refl None nf no next_line(2) 1(6)] False None nf no show ?thesis
            by (subst scan_document.simps) (simp add: Let_def)
        next
          case (Some g)
          have "scan_ok source ls (sg_last_line g + 1) (add_group source ls i g st)"
            using opened_group_ok[OF Some] by (intro scan_ok_add[OF 1(5,6) i]) simp_all
          from 1(3)[OF False refl refl None nf Some this 1(6)] False None nf Some show ?thesis
            by (subst scan_document.simps) (simp add: Let_def)
        qed
      qed
    qed
  qed
qed

subsection \<open>Distinct choice ids\<close>

lemma show_nat_inj: "show_nat m = show_nat n \<longleftrightarrow> m = n"
  by (metis option.inject parse_digits_show_nat)

lemma digits_before_dash:
  assumes "show_nat a @ CHR ''-'' # r = show_nat b @ CHR ''-'' # s"
  shows "a = b \<and> r = s"
proof -
  have "CHR ''-'' \<notin> set (show_nat n)" for n
    using show_nat_digits[of n] by (auto simp: list_all_iff is_ascii_digit_def)
  then have "takeWhile (\<lambda>c. c \<noteq> CHR ''-'') (show_nat n @ CHR ''-'' # t) = show_nat n" for n t
    by (subst takeWhile_append2) (auto dest: subsetD)
  then have "show_nat a = show_nat b" using arg_cong[OF assms, of "takeWhile (\<lambda>c. c \<noteq> CHR ''-'')"] by metis
  with assms show ?thesis by (simp add: show_nat_inj)
qed

lemma feedback_choice_id_inj:
  "feedback_choice_id g k = feedback_choice_id h l \<longleftrightarrow> g = h \<and> k = l"
proof -
  have "(g = h \<and> k = l)" if "''group-'' @ show_nat g @ ''-choice-'' @ show_nat k = ''group-'' @ show_nat h @ ''-choice-'' @ show_nat l"
    using that digits_before_dash[of g "''choice-'' @ show_nat k" h "''choice-'' @ show_nat l"]
    by (simp add: show_nat_inj)
  then show ?thesis by (auto simp: feedback_choice_id_def show_nat_inj)
qed

lemma numbered_distinct:
  assumes "numbered gs" shows "distinct (concat (map (\<lambda>g. map fc_id (cg_choices g)) gs))"
proof -
  have ids: "map fc_id (cg_choices g) = map (\<lambda>k. feedback_choice_id (cg_index g) (k + 1)) [0..<length (cg_choices g)]"
    and ne: "cg_choices g \<noteq> []" if "g \<in> set gs" for g
    using assms that by (auto simp: numbered_def list_all_iff)
  have idx: "distinct (map cg_index gs)" using assms by (simp add: numbered_def distinct_map)
  then show ?thesis using ids ne
  proof (induction gs)
    case (Cons g gs)
    have own: "distinct (map fc_id (cg_choices g))"
      using Cons.prems(2)[of g] by (simp add: distinct_map inj_on_def feedback_choice_id_inj)
    have "set (map fc_id (cg_choices g)) \<inter> set (map fc_id (cg_choices h)) = {}" if h: "h \<in> set gs" for h
    proof -
      have "cg_index g \<noteq> cg_index h" using Cons.prems(1) h by auto
      then show ?thesis
        using Cons.prems(2)[of g] Cons.prems(2)[of h] h by (auto simp: feedback_choice_id_inj simp del: set_map)
          (auto simp: feedback_choice_id_inj)
    qed
    then have "set (map fc_id (cg_choices g)) \<inter> set (concat (map (\<lambda>g. map fc_id (cg_choices g)) gs)) = {}"
      by auto
    moreover have "distinct (concat (map (\<lambda>g. map fc_id (cg_choices g)) gs))"
      using Cons.prems by (intro Cons.IH) simp_all
    ultimately show ?case using own by (simp del: set_map set_concat)
  qed simp
qed

text \<open>C25. A parsed prompt loses nothing and every choice can be named: the prose regions and the
  choice groups alternate and cover the prompt, each byte of it in exactly one region, group or
  line break around a region, each region at its stated offset; the groups are numbered from
  one, none is empty, and no two choices of the prompt share an id.\<close>

theorem choices_cover_prompt:
  "case parse_feedback_choices source of
     None \<Rightarrow> True
   | Some d \<Rightarrow>
       covers source 0 (cd_regions d) (cd_groups d)
       \<and> map cg_index (cd_groups d) = map Suc [0..<length (cd_groups d)]
       \<and> list_all (\<lambda>g. cg_choices g \<noteq> []) (cd_groups d)
       \<and> distinct (concat (map (\<lambda>g. map fc_id (cg_choices g)) (cd_groups d)))"
proof -
  let ?ls = "source_lines source"
  let ?st = "scan_document source ?ls 0 \<lparr>cs_open_fence = None, cs_prose_start = 0, cs_groups = [], cs_regions = []\<rparr>"
  have ok: "scan_ok source ?ls (length ?ls) ?st"
    by (rule scan_document_ok) (simp_all add: scan_ok_def numbered_def)
  then have bound: "cs_prose_start ?st \<le> length source" by (simp add: scan_ok_def line_bound_def)
  have "covers source 0 (cs_regions ?st @ [prose_region source (cs_prose_start ?st) (length source)]) (cs_groups ?st)"
    using ok covers_to_last[OF _ prose_region_at[OF bound order_refl]] by (simp add: scan_ok_def)
  moreover have "numbered (cs_groups ?st)" using ok by (simp add: scan_ok_def)
  ultimately show ?thesis
    using numbered_distinct[of "cs_groups ?st"]
    by (simp add: parse_feedback_choices_def Let_def numbered_def list_all_iff)
qed

end
