(* ===== verification/Worklist.thy ===== *)
theory Worklist
  imports Project_Settings Store_Reachable
begin

text \<open>
  The derived worklist of a checkout (\<open>worklist.rs\<close>) and the standing guidance it carries
  (\<open>auto_context.rs\<close>): guidance layered over the three settings scopes, the Markdown of the Up Next
  queue, the aggregation of several ticket stores and the writing of the file with its entry in
  git's local exclude file.
\<close>

subsection \<open>Standing guidance\<close>

datatype auto_context_source = CategorySource | TagSource

record auto_context_entry =
  ctx_source :: auto_context_source
  ctx_key :: string
  ctx_text :: string

definition AUTO_CONTEXT_KEY :: string where "AUTO_CONTEXT_KEY = ''auto_context''"

definition category_entry :: "string \<Rightarrow> string \<Rightarrow> auto_context_entry" where
  "category_entry key t = \<lparr>ctx_source = CategorySource, ctx_key = key, ctx_text = t\<rparr>"

definition auto_context_defaults :: "auto_context_entry list" where
  "auto_context_defaults =
     [category_entry ''issue''
        (''Clarify the problem and its impact before acting. If it turns out to be a defect, ''
         @ ''add a test that guards against regressions; if it needs a larger change, ''
         @ ''immediately create follow-up tickets for the work without asking.''),
      category_entry ''bug''
        (''Reproduce the bug first, then fix the root cause '' @ em_dash
         @ '' not just the symptom. Add tests that would have caught it, covering BOTH the ''
         @ ''positive case (the fix behaves correctly) AND the negative / edge cases (bad input, ''
         @ ''error paths, boundaries) where applicable. Prefer both a unit test and an automated ''
         @ ''end-to-end test.''),
      category_entry ''feature''
        (''Understand the existing architecture and conventions before implementing (read any ''
         @ ''overview / summary docs first). Add or update documentation for the new behavior. ''
         @ ''Add tests covering it. Use FEEDBACK NEEDED if ambiguity blocks the current ticket, ''
         @ ''and immediately create follow-up tickets without asking for anything left out of ''
         @ ''scope.''),
      category_entry ''requirement_change''
        (''Update the requirements / spec docs to match the new behavior in the same change. ''
         @ ''New or updated tests may be required as well '' @ em_dash
         @ '' add them where the behavior change warrants it. Ask clarifying questions if the ''
         @ ''desired behavior is ambiguous.''),
      category_entry ''task''
        (''Make sure you understand the surrounding context before starting. Immediately ''
         @ ''create a follow-up ticket without asking for anything left incomplete.''),
      category_entry ''investigation''
        (''Investigate and write up your findings; recommend concrete next steps. Don't ''
         @ ''implement the change yet '' @ em_dash
         @ '' immediately create follow-up tickets without asking for the work you propose.''),
      category_entry ''concept''
        (''Explore multiple directions before converging. Align with the existing design ''
         @ ''language and brand. Include rationale for the chosen concept, and ask clarifying ''
         @ ''questions on ambiguous requirements.''),
      category_entry ''revision''
        (''Align with the existing design language and patterns. Address the specific ''
         @ ''requested changes; confirm you've understood the request before making them.''),
      category_entry ''feedback''
        (''Make sure you understand the specific feedback and its intent before acting. ''
         @ ''Address each point, and ask clarifying questions if any point is ambiguous.''),
      category_entry ''asset''
        (''Produce the asset to the required specs and formats. Follow the existing style and ''
         @ ''naming conventions; confirm dimensions / format before delivering.''),
      category_entry ''research''
        (''Investigate and write up your findings with concrete recommendations. Don't start ''
         @ ''production work yet '' @ em_dash
         @ '' immediately create follow-up tickets without asking for the work you propose.''),
      category_entry ''design''
        (''Align with the existing design language and brand before proposing changes. Include ''
         @ ''mockups and rationale, and ask clarifying questions on ambiguous requirements.'')]"

text \<open>Decoding of a configured array as the derived deserializer does it: objects by field name
  (further fields ignored) or arrays by position, the source as a name or as a name with null.\<close>

definition decode_source_name :: "string \<Rightarrow> auto_context_source option" where
  "decode_source_name s =
     (if s = ''category'' then Some CategorySource else if s = ''tag'' then Some TagSource else None)"

fun decode_source :: "json \<Rightarrow> auto_context_source option" where
  "decode_source (JString s) = decode_source_name s"
| "decode_source (JObject [(s, JNull)]) = decode_source_name s"
| "decode_source _ = None"

definition decode_fields :: "json option \<Rightarrow> json option \<Rightarrow> json option \<Rightarrow> auto_context_entry option" where
  "decode_fields source key t =
     (case (Option.bind source decode_source, key, t) of
        (Some s, Some (JString k), Some (JString x)) \<Rightarrow> Some \<lparr>ctx_source = s, ctx_key = k, ctx_text = x\<rparr>
      | _ \<Rightarrow> None)"

fun decode_entry :: "json \<Rightarrow> auto_context_entry option" where
  "decode_entry (JObject m) = decode_fields (map_of m ''type'') (map_of m ''key'') (map_of m ''text'')"
| "decode_entry (JArray [s, k, t]) = decode_fields (Some s) (Some k) (Some t)"
| "decode_entry _ = None"

fun decode_entries :: "json \<Rightarrow> auto_context_entry list option" where
  "decode_entries (JArray vs) =
     (if list_all (\<lambda>v. is_some (decode_entry v)) vs then Some (map (the \<circ> decode_entry) vs) else None)"
| "decode_entries _ = None"

definition scope_debug :: "scope \<Rightarrow> string" where
  "scope_debug sc = (case sc of GlobalScope \<Rightarrow> ''Global'' | SharedScope \<Rightarrow> ''Shared'' | LocalScope \<Rightarrow> ''Local'')"

definition configured_entries ::
  "settings_env \<Rightarrow> settings \<Rightarrow> settings_fs \<Rightarrow> scope \<Rightarrow> settings_error + auto_context_entry list" where
  "configured_entries E S fs sc =
     result_bind (settings_get E S fs AUTO_CONTEXT_KEY sc) (\<lambda>v.
       case v of
         None \<Rightarrow> Inr []
       | Some v \<Rightarrow>
           (case decode_entries v of
              None \<Rightarrow> Inl (SettingsInvalid (AUTO_CONTEXT_KEY @ '' ('' @ scope_debug sc @ '')'') JsonType)
            | Some es \<Rightarrow> Inr es))"

definition same_target :: "auto_context_entry \<Rightarrow> auto_context_entry \<Rightarrow> bool" where
  "same_target a b = (ctx_source a = ctx_source b \<and> ctx_key a = ctx_key b)"

definition layer_entry :: "auto_context_entry \<Rightarrow> auto_context_entry list \<Rightarrow> auto_context_entry list" where
  "layer_entry item entries =
     (if list_ex (same_target item) entries then update_first (same_target item) (\<lambda>_. item) entries
      else entries @ [item])"

fun layer_scopes ::
  "settings_env \<Rightarrow> settings \<Rightarrow> settings_fs \<Rightarrow> scope list \<Rightarrow> auto_context_entry list
     \<Rightarrow> settings_error + auto_context_entry list" where
  "layer_scopes E S fs [] entries = Inr entries"
| "layer_scopes E S fs (sc # scs) entries =
     result_bind (configured_entries E S fs sc) (\<lambda>configured.
       layer_scopes E S fs scs (fold layer_entry configured entries))"

definition auto_context_effective ::
  "settings_env \<Rightarrow> settings \<Rightarrow> settings_fs \<Rightarrow> settings_error + auto_context_entry list" where
  "auto_context_effective E S fs =
     layer_scopes E S fs [GlobalScope, SharedScope, LocalScope] auto_context_defaults"

definition resolve_fields ::
  "string \<Rightarrow> string list \<Rightarrow> auto_context_entry list \<Rightarrow> auto_context_entry list" where
  "resolve_fields cat ticket_tags entries =
     (case List.find (\<lambda>e. ctx_source e = CategorySource \<and> ctx_key e = cat) entries of
        Some e \<Rightarrow> if trim (ctx_text e) \<noteq> [] then [e] else []
      | None \<Rightarrow> [])
     @ filter (\<lambda>e. trim (ctx_text e) \<noteq> [])
         (sort_by (\<lambda>a b. ord_cmp (ctx_key a) (ctx_key b))
            (filter (\<lambda>e. ctx_source e = TagSource
                        \<and> list_ex (\<lambda>t. eq_ignore_ascii_case t (ctx_key e)) ticket_tags) entries))"

definition resolve_context :: "ticket \<Rightarrow> auto_context_entry list \<Rightarrow> auto_context_entry list" where
  "resolve_context t entries = resolve_fields (t_category t) (t_tags t) entries"

subsection \<open>The Markdown of the queue\<close>

definition escape_byte :: "char \<Rightarrow> string" where
  "escape_byte c =
     (if c = CHR ''&'' then ''&amp;'' else if c = CHR ''<'' then ''&lt;'' else if c = CHR ''>'' then ''&gt;''
      else if c = CHR 10 \<or> c = CHR 13 then '' ''
      else if c \<in> set ([CHR 92, CHR 96] @ ''*_{}[]()#+-.!|'') then [CHR 92, c]
      else [c])"

definition escape_inline_markdown :: "string \<Rightarrow> string" where
  "escape_inline_markdown s = concat (map escape_byte s)"

definition worklist_row :: "ticket \<Rightarrow> string" where
  "worklist_row t =
     ''- ['' @ t_slug t @ ''] '' @ escape_inline_markdown (t_title t) @ '' '' @ middle_dot @ '' ''
     @ priority_wire (t_priority t) @ '' '' @ middle_dot @ '' '' @ status_wire (t_status t)"

definition worklist_line :: "ticket \<Rightarrow> string" where
  "worklist_line t = worklist_row t @ nl"

definition crop_line :: "attachment \<Rightarrow> image_crop \<Rightarrow> string" where
  "crop_line a c =
     ''  > Image crop '' @ escape_inline_markdown (at_filename a) @ '': '' @ show_nat (unat (crop_width c))
     @ '' '' @ times_sign @ '' '' @ show_nat (unat (crop_height c)) @ '' px at ('' @ show_nat (unat (crop_x c))
     @ '', '' @ show_nat (unat (crop_y c)) @ '') of original; annotations use original coordinates'' @ nl"

definition annotation_line :: "attachment \<Rightarrow> media_annotation \<Rightarrow> string" where
  "annotation_line a m =
     ''  > Media annotation '' @ escape_inline_markdown (at_filename a) @ '' #'' @ escape_inline_markdown (ma_id m)
     @ '': '' @ shape_type (ma_shape m) @ '' '' @ middle_dot @ '' ''
     @ escape_inline_markdown (if ma_intents m = [] then default_intent m else join '', '' (ma_intents m)) @ nl"

definition attachment_lines :: "attachment \<Rightarrow> string" where
  "attachment_lines a =
     (case at_crop a of None \<Rightarrow> [] | Some c \<Rightarrow> crop_line a c) @ concat (map (annotation_line a) (at_annotations a))"

definition context_lines :: "auto_context_entry \<Rightarrow> string" where
  "context_lines c = concat (map (\<lambda>l. ''  > '' @ l @ nl) (lines (ctx_text c)))"

definition worklist_entry :: "ticket \<Rightarrow> auto_context_entry list \<Rightarrow> string" where
  "worklist_entry t entries =
     worklist_line t @ concat (map attachment_lines (t_attachments t))
     @ concat (map context_lines (resolve_context t entries))"

definition queued :: "ticket \<Rightarrow> bool" where
  "queued t = (t_up_next t \<and> is_active (t_status t))"

definition worklist_order :: "ticket \<Rightarrow> ticket \<Rightarrow> ordering" where
  "worklist_order a b =
     ord_then (ord_cmp (priority_rank (t_priority a)) (priority_rank (t_priority b)))
       (ord_cmp (ts_raw (t_created_at b)) (ts_raw (t_created_at a)))"

definition worklist_head_lines :: "string list" where
  "worklist_head_lines =
     [''# Hot Sheet '' @ em_dash @ '' Up Next'',
      [],
      ''_Local projection of the current priority queue. Regenerated automatically; do not ''
      @ ''edit._'',
      [],
      ''## Workflow'',
      [],
      ''Work these tickets in priority order, where reasonable. Before starting, read the ''
      @ ''ticket in full and set it to `started`. On git-backed tickets, record each ''
      @ ''`started_phase` transition as it happens (`initial_testing` before running tests or ''
      @ ''gates, `integrating` before merging or pushing, `final_testing` while CI runs). ''
      @ ''Before completion, finish and verify its scope, update required ''
      @ ''tests/coverage/docs, and scan for incomplete work. Create every follow-up ''
      @ ''immediately, without asking: unfinished steps, open questions, known gaps, ''
      @ ''out-of-scope work, and designed-but-unbuilt behavior each get a ticket as soon as ''
      @ ''identified, never only a comment/TODO/note. Set the current ticket to `completed` ''
      @ ''with a scannable Markdown note that leads with the outcome and separates the ''
      @ ''result, verification, and follow-ups with short headings and bullets when the note ''
      @ ''is substantial. Never leave a dense prose or raw-log dump; keep simple updates ''
      @ ''brief and omit empty sections. Include every follow-up slug. Then run the ''
      @ ''repository's required gates, commit the coherent ticket-sized change, and push it ''
      @ ''before starting another ticket. Use `FEEDBACK NEEDED` only when a user decision or ''
      @ ''unavailable external state blocks the current ticket; leave it `started` and name ''
      @ ''the blocker. FEEDBACK NEEDED never replaces follow-ups for independently ''
      @ ''describable work. Do not set `verified`; that is reserved for human review.'',
      [],
      ''Use `hotsheet-cli show <slug>` and `hotsheet-cli edit <slug> --status ''
      @ ''started|completed --note \"'' @ ellipsis
      @ ''\"`, or the equivalent Hot Sheet MCP tools. If neither is available, report that ''
      @ ''status could not be updated rather than silently skipping it.'',
      [],
      ''## Tickets'',
      []]"

definition worklist_head :: string where
  "worklist_head = concat (map (\<lambda>l. l @ nl) worklist_head_lines)"

definition render_with_auto_context :: "ticket list \<Rightarrow> auto_context_entry list \<Rightarrow> string" where
  "render_with_auto_context tickets entries =
     (let up_next = sort_by worklist_order (filter queued tickets)
      in worklist_head
         @ (if up_next = [] then ''_(nothing queued)_'' @ nl @ nl
            else concat (map (\<lambda>t. worklist_entry t entries) up_next)))"

definition render_worklist :: "ticket list \<Rightarrow> string" where
  "render_worklist tickets = render_with_auto_context tickets auto_context_defaults"

subsection \<open>Writing the file\<close>

definition CHECKOUT_WORKLIST :: string where "CHECKOUT_WORKLIST = ''.hotsheet2/worklist.md''"

text \<open>The surroundings of the writer: the directories, the output of \<open>git rev-parse\<close> in a directory
  (if it succeeds with text), and the stores that may be opened as ticket sources.\<close>

record worklist_env =
  wl_dirs :: "string list"
  wl_rev_parse :: "string \<Rightarrow> string option"
  wl_open_admitted :: "string \<Rightarrow> store_error + fs_store"

definition enclosing_git_exclude :: "worklist_env \<Rightarrow> string \<Rightarrow> (string \<times> string) option" where
  "enclosing_git_exclude W checkout =
     Option.bind (wl_rev_parse W checkout) (\<lambda>stdout.
       case lines stdout of
         [] \<Rightarrow> None
       | common # rest \<Rightarrow>
           Some (path_join common ''info/exclude'',
                 ''/'' @ (case rest of [] \<Rightarrow> [] | show_prefix # _ \<Rightarrow> show_prefix) @ CHECKOUT_WORKLIST))"

definition result_option :: "'e + 'a \<Rightarrow> 'a option" where
  "result_option r = (case r of Inl _ \<Rightarrow> None | Inr x \<Rightarrow> Some x)"

definition local_git_exclude :: "worklist_env \<Rightarrow> settings_fs \<Rightarrow> string \<Rightarrow> (string \<times> string) option" where
  "local_git_exclude W fs checkout =
     (let dot_git = path_join checkout ''.git'' in
      if dot_git \<notin> set (wl_dirs W) \<and> \<not> is_file fs dot_git then enclosing_git_exclude W checkout
      else Option.bind
        (if dot_git \<in> set (wl_dirs W) then Some dot_git
         else Option.bind (result_option (read_to_string fs dot_git)) (\<lambda>pointer.
                map_option (\<lambda>raw. path_join checkout (trim raw)) (strip_prefix ''gitdir:'' pointer)))
        (\<lambda>git_dir.
           let common = (case read_to_string fs (path_join git_dir ''commondir'') of
                           Inl _ \<Rightarrow> git_dir
                         | Inr v \<Rightarrow> path_join git_dir (trim v))
           in Some (path_join common ''info/exclude'', CHECKOUT_WORKLIST)))"

text \<open>The checkout whose worklist a path names: the path without its last two components.\<close>

definition worklist_checkout :: "string \<Rightarrow> string option" where
  "worklist_checkout path =
     (if path = CHECKOUT_WORKLIST then Some []
      else map_option (\<lambda>c. if c = [] then ''/'' else c) (strip_suffix (''/'' @ CHECKOUT_WORKLIST) path))"

definition io_write :: "settings_fs \<Rightarrow> string \<Rightarrow> string \<Rightarrow> (store_error + unit) \<times> settings_fs" where
  "io_write fs path t =
     (case fs_write fs path t of (Inl _, fs') \<Rightarrow> (Inl (Io OtherIo path), fs') | (Inr _, fs') \<Rightarrow> (Inr (), fs'))"

definition add_exclude :: "settings_fs \<Rightarrow> string \<Rightarrow> string \<Rightarrow> (store_error + unit) \<times> settings_fs" where
  "add_exclude fs ignore pattern =
     (let contents = unwrap_or (result_option (read_to_string fs ignore)) []
      in if ignore_lists pattern contents then (Inr (), fs)
         else if ignore \<in> set (sf_no_dir fs) then (Inl (Io OtherIo ignore), fs)
         else io_write fs ignore (ignore_append pattern contents))"

definition write_worklist ::
  "worklist_env \<Rightarrow> settings_fs \<Rightarrow> string \<Rightarrow> string \<Rightarrow> (store_error + unit) \<times> settings_fs" where
  "write_worklist W fs path body =
     (if path \<in> set (sf_no_dir fs) then (Inl (Io OtherIo path), fs)
      else case Option.bind (worklist_checkout path) (local_git_exclude W fs) of
          None \<Rightarrow> io_write fs path body
        | Some (ignore, pattern) \<Rightarrow>
            (case add_exclude fs ignore pattern of
               (Inl e, fs') \<Rightarrow> (Inl e, fs')
             | (Inr _, fs') \<Rightarrow> io_write fs' path body))"

definition settings_failure :: "settings_error \<Rightarrow> store_error" where
  "settings_failure e = Io OtherIo ''InvalidData''"

definition regenerate_tickets_with_settings ::
  "settings_env \<Rightarrow> worklist_env \<Rightarrow> settings \<Rightarrow> settings_fs \<Rightarrow> ticket list \<Rightarrow> string
     \<Rightarrow> (store_error + nat) \<times> settings_fs" where
  "regenerate_tickets_with_settings E W S fs tickets path =
     (case auto_context_effective E S fs of
        Inl e \<Rightarrow> (Inl (settings_failure e), fs)
      | Inr entries \<Rightarrow>
          (case write_worklist W fs path (render_with_auto_context tickets entries) of
             (Inl e, fs') \<Rightarrow> (Inl e, fs')
           | (Inr _, fs') \<Rightarrow> (Inr (length (filter queued tickets)), fs')))"

definition regenerate_with_settings ::
  "platform \<Rightarrow> settings_env \<Rightarrow> worklist_env \<Rightarrow> settings \<Rightarrow> settings_fs \<Rightarrow> fs_store \<Rightarrow> string
     \<Rightarrow> (store_error + nat) \<times> settings_fs" where
  "regenerate_with_settings P E W S fs store path =
     (case list_tickets P store of
        Inl e \<Rightarrow> (Inl e, fs)
      | Inr tickets \<Rightarrow> regenerate_tickets_with_settings E W S fs tickets path)"

definition regenerate_to ::
  "platform \<Rightarrow> settings_env \<Rightarrow> worklist_env \<Rightarrow> settings_fs \<Rightarrow> fs_store \<Rightarrow> string
     \<Rightarrow> (store_error + nat) \<times> settings_fs" where
  "regenerate_to P E W fs store path =
     regenerate_with_settings P E W (settings_new (st_root store)) fs store path"

definition regenerate_for_project ::
  "platform \<Rightarrow> settings_env \<Rightarrow> worklist_env \<Rightarrow> settings_fs \<Rightarrow> fs_store \<Rightarrow> string \<Rightarrow> string
     \<Rightarrow> (store_error + nat) \<times> settings_fs" where
  "regenerate_for_project P E W fs store project_root path =
     regenerate_with_settings P E W (with_legacy_stores project_root [st_root store]) fs store path"

subsection \<open>Checkouts\<close>

record ticket_source =
  src_connection_id :: string
  src_provider :: string
  src_locator :: string

record checkout =
  co_root :: string
  co_sources :: "ticket_source list"
  co_store_instance_ids :: "(string \<times> string) list"
  co_default_source :: "string option"

definition checkout_settings :: "checkout \<Rightarrow> settings" where
  "checkout_settings co =
     with_legacy_stores (co_root co)
       ((case Option.bind (co_default_source co) (\<lambda>i. List.find (\<lambda>s. src_connection_id s = i) (co_sources co)) of
           Some s \<Rightarrow> if src_provider s = ''git'' then [src_locator s] else []
         | None \<Rightarrow> [])
        @ map src_locator (filter (\<lambda>s. src_provider s = ''git'' \<and> Some (src_connection_id s) \<noteq> co_default_source co)
            (co_sources co)))"

definition aggregate_ticket :: "ticket \<Rightarrow> (ulid \<times> ticket) list \<Rightarrow> (ulid \<times> ticket) list" where
  "aggregate_ticket t by_id =
     (case map_of by_id (t_id t) of
        Some existing \<Rightarrow> if t_status existing \<noteq> Moved then by_id else btree_entry (t_id t) (\<lambda>_. t) by_id
      | None \<Rightarrow> btree_entry (t_id t) (\<lambda>_. t) by_id)"

fun aggregate_sources ::
  "platform \<Rightarrow> worklist_env \<Rightarrow> ticket_source list \<Rightarrow> (ulid \<times> ticket) list \<Rightarrow> store_error + (ulid \<times> ticket) list" where
  "aggregate_sources P W [] by_id = Inr by_id"
| "aggregate_sources P W (s # ss) by_id =
     result_bind (wl_open_admitted W (src_locator s)) (\<lambda>store.
     result_bind (list_tickets P store) (\<lambda>tickets.
       aggregate_sources P W ss (fold aggregate_ticket tickets by_id)))"

definition worklist_sources :: "checkout \<Rightarrow> ticket_source list" where
  "worklist_sources co =
     filter (\<lambda>s. src_provider s = ''git'' \<and> is_some (map_of (co_store_instance_ids co) (src_connection_id s)))
       (co_sources co)"

definition regenerate_checkout_from_tickets ::
  "settings_env \<Rightarrow> worklist_env \<Rightarrow> settings_fs \<Rightarrow> checkout \<Rightarrow> ticket list \<Rightarrow> (store_error + nat) \<times> settings_fs" where
  "regenerate_checkout_from_tickets E W fs co tickets =
     regenerate_tickets_with_settings E W (checkout_settings co) fs tickets (path_join (co_root co) CHECKOUT_WORKLIST)"

definition regenerate_checkout ::
  "platform \<Rightarrow> settings_env \<Rightarrow> worklist_env \<Rightarrow> settings_fs \<Rightarrow> checkout \<Rightarrow> (store_error + nat) \<times> settings_fs" where
  "regenerate_checkout P E W fs co =
     (case aggregate_sources P W (worklist_sources co) [] of
        Inl e \<Rightarrow> (Inl e, fs)
      | Inr by_id \<Rightarrow> regenerate_checkout_from_tickets E W fs co (btree_values by_id))"

subsection \<open>Rows\<close>

abbreviation is_row :: "string \<Rightarrow> bool" where "is_row l \<equiv> starts_with ''- ['' l"

text \<open>A text made of complete lines, none of which is a row.\<close>

definition rowless :: "string \<Rightarrow> bool" where
  "rowless s = ((s = [] \<or> ends_with nl s) \<and> filter is_row (lines s) = [])"

lemma ends_with_nl: "ends_with nl s \<longleftrightarrow> (\<exists>a. s = a @ [CHR 10])"
  by (cases s rule: rev_cases) (auto simp: ends_with_def nl_def)

lemma ends_with_append: "ends_with nl a \<Longrightarrow> b = [] \<or> ends_with nl b \<Longrightarrow> ends_with nl (a @ b)"
  by (auto simp: ends_with_nl)

lemma rowless_append: "rowless a \<Longrightarrow> rowless b \<Longrightarrow> rowless (a @ b)"
  by (auto simp: rowless_def ends_with_nl lines_append)

lemma rowless_concat: "(\<And>x. x \<in> set xs \<Longrightarrow> rowless (f x)) \<Longrightarrow> rowless (concat (map f xs))"
  by (induction xs) (auto simp: rowless_append, simp add: rowless_def lines_def)

lemma rowless_line:
  assumes "CHR 10 \<notin> set l" "l = [] \<or> hd l \<noteq> CHR ''-''" shows "rowless (l @ nl)"
proof -
  have "lines (l @ nl) = [line_of (l @ [CHR 10])]"
    using lines_Cons_nl[OF assms(1), of "[]"] by (simp add: lines_def nl_def)
  moreover have "\<not> is_row (line_of (l @ [CHR 10]))"
    using strip_suffix_append[of nl l] assms(2)
    by (cases l) (auto simp: line_of_def nl_def starts_with_def strip_suffix_def take_Cons')
  moreover have "ends_with nl (l @ nl)" unfolding ends_with_nl by (simp add: nl_def)
  ultimately show ?thesis by (simp add: rowless_def)
qed

lemma rowless_quote: "CHR 10 \<notin> set x \<Longrightarrow> rowless (''  > '' @ x @ nl)"
  using rowless_line[of "''  > '' @ x"] by simp

lemma escape_no_newline: "CHR 10 \<notin> set (escape_inline_markdown s)"
  by (auto simp: escape_inline_markdown_def escape_byte_def)

lemma show_nat_no_newline: "CHR 10 \<notin> set (show_nat n)"
  using show_nat_digits[of n] by (auto simp: list_all_iff is_ascii_digit_def)

lemma lines_no_newline: "l \<in> set (lines s) \<Longrightarrow> CHR 10 \<notin> set l"
proof -
  have strip: "set (unwrap_or (strip_suffix [CHR 13] x) x) \<subseteq> set x" for x
    by (auto simp: strip_suffix_def dest: in_set_takeD)
  have "\<forall>l \<in> set (split_inclusive_nl s). CHR 10 \<notin> set (butlast l) \<and> l \<noteq> []"
  proof (induction s)
    case (Cons c s)
    then show ?case by (cases "split_inclusive_nl s") auto
  qed simp
  moreover have "CHR 10 \<notin> set (line_of l)" if "CHR 10 \<notin> set (butlast l)" "l \<noteq> []" for l
    using that strip[of "butlast l"]
    by (cases l rule: rev_cases) (auto simp: line_of_def nl_def strip_suffix_def ends_with_def)
  ultimately show "l \<in> set (lines s) \<Longrightarrow> CHR 10 \<notin> set l" by (auto simp: lines_def)
qed

lemma rowless_attachment: "rowless (attachment_lines a)"
proof -
  have nil: "rowless []" by (simp add: rowless_def lines_def)
  have crop: "rowless (crop_line a c)" for c
    using rowless_quote[of "''Image crop '' @ escape_inline_markdown (at_filename a) @ '': ''
      @ show_nat (unat (crop_width c)) @ '' '' @ times_sign @ '' '' @ show_nat (unat (crop_height c)) @ '' px at (''
      @ show_nat (unat (crop_x c)) @ '', '' @ show_nat (unat (crop_y c))
      @ '') of original; annotations use original coordinates''"]
    by (simp add: crop_line_def escape_no_newline show_nat_no_newline times_sign_def)
  have shape: "CHR 10 \<notin> set (shape_type x)" for x by (cases x rule: shape_type.cases) simp_all
  have "rowless (annotation_line a m)" for m
    using rowless_quote[of "''Media annotation '' @ escape_inline_markdown (at_filename a) @ '' #''
      @ escape_inline_markdown (ma_id m) @ '': '' @ shape_type (ma_shape m) @ '' '' @ middle_dot @ '' ''
      @ escape_inline_markdown (if ma_intents m = [] then default_intent m else join '', '' (ma_intents m))"] shape
    by (simp add: annotation_line_def escape_no_newline middle_dot_def)
  then show ?thesis
    unfolding attachment_lines_def by (intro rowless_append rowless_concat) (simp_all add: nil crop split: option.split)
qed

lemma rowless_context: "rowless (context_lines c)"
  unfolding context_lines_def by (rule rowless_concat) (rule rowless_quote[OF lines_no_newline])

lemma entry_rows:
  assumes "CHR 10 \<notin> set (t_slug t)"
  shows "ends_with nl (worklist_entry t entries)" "filter is_row (lines (worklist_entry t entries)) = [worklist_row t]"
proof -
  let ?r = "worklist_row t"
    and ?b = "concat (map attachment_lines (t_attachments t)) @ concat (map context_lines (resolve_context t entries))"
  have b: "rowless ?b" by (intro rowless_append rowless_concat rowless_attachment rowless_context)
  have "CHR 10 \<notin> set ?r" using assms escape_no_newline
    by (cases "t_status t"; cases "t_priority t") (simp_all add: worklist_row_def middle_dot_def priority_wire.simps)
  moreover have "last ?r \<noteq> CHR 13" by (cases "t_status t") (simp_all add: worklist_row_def)
  moreover have "?r \<noteq> []" by (simp add: worklist_row_def)
  ultimately have "lines (worklist_entry t entries) = ?r # lines ?b"
    using lines_Cons_nl[of ?r ?b] line_of_simps(2)[of ?r] by (simp add: worklist_entry_def worklist_line_def nl_def)
  moreover have "is_row ?r" by (simp add: worklist_row_def starts_with_def)
  ultimately show "filter is_row (lines (worklist_entry t entries)) = [worklist_row t]"
    using b by (simp add: rowless_def)
  show "ends_with nl (worklist_entry t entries)"
    unfolding worklist_entry_def worklist_line_def
    by (rule ends_with_append) (use b in \<open>auto simp: rowless_def ends_with_def nl_def\<close>)
qed

lemma entries_rows:
  "\<forall>t \<in> set ts. CHR 10 \<notin> set (t_slug t) \<Longrightarrow>
     filter is_row (lines (concat (map (\<lambda>t. worklist_entry t entries) ts))) = map worklist_row ts"
  by (induction ts) (simp_all add: lines_append entry_rows, simp add: lines_def)

lemma head_rows: "rowless worklist_head" "rowless (''_(nothing queued)_'' @ nl @ nl)"
proof -
  have "list_all (\<lambda>l. CHR 10 \<notin> set l \<and> (l = [] \<or> hd l \<noteq> CHR ''-'')) worklist_head_lines"
    by (simp add: worklist_head_lines_def em_dash_def ellipsis_def)
  then show "rowless worklist_head"
    unfolding worklist_head_def list_all_iff by (intro rowless_concat rowless_line) simp_all
  show "rowless (''_(nothing queued)_'' @ nl @ nl)"
    using rowless_append[OF rowless_line rowless_line, of "''_(nothing queued)_''" "[]"] by simp
qed

lemma render_rows:
  assumes "\<And>t. t \<in> set tickets \<Longrightarrow> CHR 10 \<notin> set (t_slug t)"
  shows "filter is_row (lines (render_with_auto_context tickets entries)) =
    map worklist_row (sort_by worklist_order (filter queued tickets))"
  using head_rows entries_rows[of "sort_by worklist_order (filter queued tickets)"] assms
  by (simp add: render_with_auto_context_def Let_def rowless_def lines_append)

subsection \<open>Layers of guidance\<close>

abbreviation targets :: "auto_context_source \<Rightarrow> string \<Rightarrow> auto_context_entry \<Rightarrow> bool" where
  "targets source key e \<equiv> ctx_source e = source \<and> ctx_key e = key"

abbreviation target :: "auto_context_entry \<Rightarrow> auto_context_source \<times> string" where
  "target e \<equiv> (ctx_source e, ctx_key e)"

lemma find_update_first:
  "list_ex (same_target item) es \<Longrightarrow>
     List.find (targets s k) (update_first (same_target item) (\<lambda>_. item) es) =
       (if targets s k item then Some item else List.find (targets s k) es)
     \<and> map target (update_first (same_target item) (\<lambda>_. item) es) = map target es"
  by (induction es) (auto simp: same_target_def)

lemma find_append: "List.find p (xs @ ys) = opt_or (List.find p xs) (List.find p ys)"
  by (induction xs) (auto simp: opt_or_def)

lemma no_target: "target item \<notin> set (map target es) \<Longrightarrow> targets s k item \<Longrightarrow> List.find (targets s k) es = None"
  by (auto simp: find_None_iff image_iff)

lemma layer_entry_find:
  "List.find (targets s k) (layer_entry item es) =
     (if targets s k item then Some item else List.find (targets s k) es)
   \<and> (distinct (map target es) \<longrightarrow> distinct (map target (layer_entry item es)))"
proof (cases "list_ex (same_target item) es")
  case True
  then show ?thesis using find_update_first[OF True] by (simp add: layer_entry_def)
next
  case False
  then have new: "target item \<notin> set (map target es)"
    by (auto simp: list_ex_iff same_target_def)
  have "List.find (targets s k) es = None" if "targets s k item"
    by (rule no_target[OF new that])
  with False new show ?thesis by (auto simp: layer_entry_def find_append opt_or_def split: option.split)
qed

lemma opt_or_assoc: "opt_or (opt_or x y) z = opt_or x (opt_or y z)"
  by (cases x) (simp_all add: opt_or_def)

lemma layer_fold_find:
  "List.find (targets s k) (fold layer_entry items es) =
     opt_or (List.find (targets s k) (rev items)) (List.find (targets s k) es)
   \<and> (distinct (map target es) \<longrightarrow> distinct (map target (fold layer_entry items es)))"
proof (induction items arbitrary: es)
  case (Cons item items)
  from Cons.IH[of "layer_entry item es"] layer_entry_find[of s k item es] show ?case
    by (auto simp: find_append opt_or_def split: option.split)
qed (simp add: opt_or_def)

lemma defaults_distinct: "distinct (map target auto_context_defaults)"
  by (simp add: auto_context_defaults_def category_entry_def)

lemma find_rev_distinct: "distinct (map target es) \<Longrightarrow> List.find (targets s k) (rev es) = List.find (targets s k) es"
proof (induction es)
  case (Cons e es)
  have "List.find (targets s k) es = None" if "targets s k e"
    using no_target[of e es s k] Cons.prems that by simp
  with Cons show ?case by (auto simp: find_append opt_or_def split: option.split)
qed simp

lemma effective_layers:
  assumes "auto_context_effective E S fs = Inr es"
  obtains g s l where "configured_entries E S fs GlobalScope = Inr g" "configured_entries E S fs SharedScope = Inr s"
    "configured_entries E S fs LocalScope = Inr l" "es = fold layer_entry (g @ s @ l) auto_context_defaults"
  using assms by (auto simp: auto_context_effective_def result_bind_eq_Inr)

subsection \<open>Aggregation of stores\<close>

text \<open>The copy of a ticket that a checkout shows: the first live copy, else the last tombstone.\<close>

definition shown_copy :: "ticket list \<Rightarrow> ulid \<Rightarrow> ticket option" where
  "shown_copy ts i =
     opt_or (List.find (\<lambda>t. t_id t = i \<and> t_status t \<noteq> Moved) ts) (find_last (\<lambda>t. t_id t = i) ts)"

definition aggregated :: "(ulid \<times> ticket) list \<Rightarrow> ticket list \<Rightarrow> bool" where
  "aggregated by_id ts = (key_sorted by_id \<and> (\<forall>i. map_of by_id i = shown_copy ts i))"

lemma shown_copy_id: "shown_copy ts i = Some t \<Longrightarrow> t_id t = i"
  by (auto simp: shown_copy_def opt_or_def find_Some_iff dest: find_last_Some split: option.splits)

lemma shown_copy_live:
  assumes "shown_copy ts i = Some e"
  shows "t_status e \<noteq> Moved \<longleftrightarrow> List.find (\<lambda>t. t_id t = i \<and> t_status t \<noteq> Moved) ts \<noteq> None"
proof (cases "List.find (\<lambda>t. t_id t = i \<and> t_status t \<noteq> Moved) ts")
  case None
  then have "find_last (\<lambda>t. t_id t = i) ts = Some e" using assms by (simp add: shown_copy_def opt_or_def)
  with None show ?thesis using find_last_Some[of "\<lambda>t. t_id t = i" ts e] by (auto simp: find_None_iff)
next
  case (Some u)
  then have "u = e" using assms by (simp add: shown_copy_def opt_or_def)
  moreover have "t_status u \<noteq> Moved" using Some by (auto simp: find_Some_iff)
  ultimately have "u = e" "t_status u \<noteq> Moved" .
  with Some show ?thesis by simp
qed

lemma shown_copy_snoc:
  "shown_copy (ts @ [t]) i =
     (if t_id t = i \<and> is_none_or (shown_copy ts i) (\<lambda>e. t_status e = Moved) then Some t else shown_copy ts i)"
proof (cases "shown_copy ts i")
  case None
  then show ?thesis by (auto simp: shown_copy_def find_append opt_or_def split: option.splits)
next
  case (Some e)
  then show ?thesis using shown_copy_live[OF Some]
    by (auto simp: shown_copy_def find_append opt_or_def split: option.splits)
qed

lemma aggregated_ticket: "aggregated by_id ts \<Longrightarrow> aggregated (aggregate_ticket t by_id) (ts @ [t])"
  by (auto simp: aggregated_def aggregate_ticket_def shown_copy_snoc key_sorted_btree_entry map_of_btree_entry
      split: option.split)

lemma aggregated_tickets: "aggregated by_id ts \<Longrightarrow> aggregated (fold aggregate_ticket us by_id) (ts @ us)"
proof (induction us arbitrary: by_id ts)
  case (Cons u us)
  from Cons.IH[OF aggregated_ticket[OF Cons.prems]] show ?case by simp
qed simp

lemma aggregated_sources:
  "aggregated by_id ts \<Longrightarrow> aggregate_sources P W ss by_id = Inr by_id' \<Longrightarrow>
     \<exists>tss. result_map (\<lambda>s. result_bind (wl_open_admitted W (src_locator s)) (list_tickets P)) ss = Inr tss
       \<and> aggregated by_id' (ts @ concat tss)"
proof (induction ss arbitrary: by_id ts)
  case (Cons s ss)
  from Cons.prems(2) obtain store us where o: "wl_open_admitted W (src_locator s) = Inr store"
    and u: "list_tickets P store = Inr us"
    and r: "aggregate_sources P W ss (fold aggregate_ticket us by_id) = Inr by_id'"
    by (auto simp: result_bind_eq_Inr)
  from Cons.IH[OF aggregated_tickets[OF Cons.prems(1)] r] show ?case
    by (auto simp: o u)
qed simp

lemma find_SomeD: "List.find p xs = Some x \<Longrightarrow> x \<in> set xs \<and> p x"
  by (auto simp: find_Some_iff)

lemma shown_copy_in: "shown_copy ts i = Some t \<Longrightarrow> t \<in> set ts"
  by (auto simp: shown_copy_def opt_or_def dest: find_SomeD find_last_Some split: option.splits)

lemma list_all2_in_set: "list_all2 R xs ys \<Longrightarrow> y \<in> set ys \<Longrightarrow> \<exists>x \<in> set xs. R x y"
  by (induction rule: list_all2_induct) auto

lemma find_values:
  assumes "key_sorted m" "\<And>k v. map_of m k = Some v \<Longrightarrow> key v = k"
  shows "List.find (\<lambda>v. key v = k) (btree_values m) = map_of m k"
  using assms
proof (induction m)
  case (Cons e m)
  obtain j v where e: "e = (j, v)" by force
  have j: "key v = j" using Cons.prems(2)[of j v] e by simp
  have "key w = i" if "map_of m i = Some w" for i w
  proof -
    have "i \<noteq> j" using that key_sorted_distinct[OF Cons.prems(1)] e by (force dest: map_of_SomeD)
    then show ?thesis using Cons.prems(2)[of i w] that e by simp
  qed
  with Cons e j show ?case by (auto simp: btree_values_def)
qed (simp add: btree_values_def)

definition one_line_slugs :: "platform \<Rightarrow> worklist_env \<Rightarrow> ticket_source list \<Rightarrow> bool" where
  "one_line_slugs P W ss =
     (\<forall>s \<in> set ss. \<forall>store ts. wl_open_admitted W (src_locator s) = Inr store \<longrightarrow> list_tickets P store = Inr ts
        \<longrightarrow> list_all (\<lambda>t. CHR 10 \<notin> set (t_slug t)) ts)"

lemma write_worklist_body:
  assumes "write_worklist W fs path body = (Inr (), fs')"
  shows "map_of (sf_files fs') path = Some body"
proof -
  obtain fs1 where "io_write fs1 path body = (Inr (), fs')"
    using assms by (auto simp: write_worklist_def split: if_splits option.splits sum.splits prod.splits)
  then show ?thesis
    by (auto simp: io_write_def fs_write_def update_conv' split: if_splits)
qed

subsection \<open>A concrete checkout\<close>

definition demo_queued :: ticket where "demo_queued = sample_ticket\<lparr>t_up_next := True\<rparr>"

lemma demo_queued_plain: "plain_ticket demo_queued" "content_ok P demo_queued"
  by (simp_all add: plain_ticket_def content_ok_def normalize_for_write_def ticket_write_schema_def demo_queued_def
      sample_ticket_def ticket_new_def arrow_heads_used_def crops_used_def intents_used_def shapes_used_def schema_versions)

abbreviation demo_queue_path :: string where
  "demo_queue_path \<equiv> ''tickets/01/00000000000000000000000001.md''"

lemma digits_one: "digits (Suc n) 1 = replicate n 0 @ [1]"
proof (induction n)
  case (Suc n)
  have "(1 :: nat) < 32 ^ Suc n" by (rule one_less_power) simp_all
  then have "(1 :: nat) div 32 ^ Suc n = 0" "(1 :: nat) mod 32 ^ Suc n = 1" by (simp_all only: div_less mod_less)
  with Suc show ?case by (subst digits.simps) simp
qed simp

lemma demo_first_text: "demo_ulid_text 1 = ''00000000000000000000000001''"
proof -
  have "digits 26 1 = replicate 25 0 @ [1]" using digits_one[of 25] by (simp only: eval_nat_numeral BitM.simps)
  moreover have "replicate 25 (CHR ''0'') = ''0000000000000000000000000''" by code_simp
  ultimately show ?thesis by (simp add: demo_ulid_text_def map_replicate crockford_def)
qed

lemma demo_queue_path: "ticket_path (demo_for t) demo_store 1 = demo_queue_path"
  using demo_first_text
  by (simp add: ticket_path_def demo_store_def demo_meta_def file_exists_def metadata_def ticket_path_for_shard_def demo_for_def demo_def
      ensure_compaction_recovered_def known_schema_def metadata_from_json_def required_field_def deserialize_store_schema_def
      validate_instance_id_def GUARDED_STORE_SCHEMA_V2_def GUARDED_STORE_SCHEMA_V3_def SHARD_ID_PREFIX_2_def SHARD_ID_SUFFIX_2_def)

definition demo_queue_store :: fs_store where
  "demo_queue_store = snd (write_ticket_committing (demo_for demo_queued) demo_store demo_queued)"

lemma demo_queue_written:
  "write_ticket_committing (demo_for demo_queued) demo_store demo_queued = (Inr demo_queue_path, demo_queue_store)"
  "ticket_file_paths demo_queue_store = [demo_queue_path]"
proof -
  have i: "t_id demo_queued = 1" by (simp add: demo_queued_def sample_ticket_def ticket_new_def)
  have "is_ticket_file demo_queue_path" by code_simp
  then show "write_ticket_committing (demo_for demo_queued) demo_store demo_queued = (Inr demo_queue_path, demo_queue_store)"
    "ticket_file_paths demo_queue_store = [demo_queue_path]"
    using demo_for_format[of demo_queued] demo_queue_path[of demo_queued] i
    unfolding demo_queue_store_def
    by (simp_all add: write_ticket_committing_def write_ticket_with_paths_committing_def write_ticket_def
      write_ticket_unchecked_def write_ticket_unchecked_at_def run_commit_job_def)
     (simp_all add: demo_store_def autocommit_paths_def ticket_file_paths_def)
qed

lemma demo_queue_listed: "list_tickets (demo_for demo_queued) demo_queue_store = Inr [demo_queued]"
proof -
  have i: "t_id demo_queued = 1" by (simp add: demo_queued_def sample_ticket_def ticket_new_def)
  have "read_ticket (demo_for demo_queued) demo_queue_store 1 = Inr demo_queued"
    using read_written[OF demo_for_storable[OF demo_queued_plain] demo_queue_written(1)] demo_queued_plain(1) i
    by (simp add: plain_ticket_def)
  moreover have "ticket_path (demo_for demo_queued) demo_queue_store 1 = demo_queue_path"
    using ticket_path_own[OF write_committing_effect[OF demo_queue_written(1)], unfolded i] demo_queue_path i by simp
  ultimately show ?thesis by (simp add: list_tickets_def demo_queue_written(2) read_ticket_def)
qed
definition demo_worklist_env :: worklist_env where
  "demo_worklist_env = \<lparr>wl_dirs = [''/p/.git''], wl_rev_parse = (\<lambda>_. None), wl_open_admitted = (\<lambda>_. Inr demo_queue_store)\<rparr>"

definition demo_checkout :: checkout where
  "demo_checkout = \<lparr>co_root = ''/p'',
     co_sources = [\<lparr>src_connection_id = ''c'', src_provider = ''git'', src_locator = ''/store''\<rparr>],
     co_store_instance_ids = [(''c'', ''i'')], co_default_source = None\<rparr>"

lemma demo_configured:
  "configured_entries demo_settings_env (checkout_settings demo_checkout) demo_settings_fs sc = Inr []"
proof -
  let ?c = "configured_entries demo_settings_env (checkout_settings demo_checkout) demo_settings_fs"
  have "?c GlobalScope = Inr []" "?c SharedScope = Inr []" "?c LocalScope = Inr []" by code_simp+
  then show ?thesis by (cases sc) (simp_all only:)
qed

lemma demo_guidance:
  "auto_context_effective demo_settings_env (checkout_settings demo_checkout) demo_settings_fs = Inr auto_context_defaults"
  by (simp add: auto_context_effective_def demo_configured)

lemma write_worklist_succeeds:
  assumes "sf_no_dir fs = []" "sf_unwritable fs = []"
  shows "\<exists>fs'. write_worklist W fs path body = (Inr (), fs')"
proof -
  have w: "\<exists>fs'. io_write fs p t = (Inr (), fs') \<and> sf_unwritable fs' = []" if "sf_unwritable fs = []" for fs p t
    using that by (simp add: io_write_def fs_write_def)
  have x: "\<exists>fs'. add_exclude fs p t = (Inr (), fs') \<and> sf_unwritable fs' = []" for p t
    using assms w[of fs] by (simp add: add_exclude_def Let_def)
  show ?thesis
  proof (cases "Option.bind (worklist_checkout path) (local_git_exclude W fs)")
    case (Some ip)
    obtain fs1 where "add_exclude fs (fst ip) (snd ip) = (Inr (), fs1)" "sf_unwritable fs1 = []"
      using x[of "fst ip" "snd ip"] by blast
    with Some assms w[of fs1 path body] show ?thesis by (cases ip) (auto simp: write_worklist_def)
  qed (use assms w[of fs path body] in \<open>auto simp: write_worklist_def\<close>)
qed

lemma demo_regenerated:
  "\<exists>fs'. regenerate_checkout (demo_for demo_queued) demo_settings_env demo_worklist_env demo_settings_fs demo_checkout
     = (Inr 1, fs')"
proof -
  have "worklist_sources demo_checkout = co_sources demo_checkout" by (simp add: worklist_sources_def demo_checkout_def)
  then have "aggregate_sources (demo_for demo_queued) demo_worklist_env (worklist_sources demo_checkout) []
      = Inr [(t_id demo_queued, demo_queued)]"
    by (simp add: demo_checkout_def demo_worklist_env_def demo_queue_listed aggregate_ticket_def)
  moreover have "queued demo_queued" by (simp add: queued_def demo_queued_def sample_ticket_def ticket_new_def)
  moreover obtain fs' where "write_worklist demo_worklist_env demo_settings_fs (path_join (co_root demo_checkout) CHECKOUT_WORKLIST)
      (render_with_auto_context [demo_queued] auto_context_defaults) = (Inr (), fs')"
    using write_worklist_succeeds by (metis demo_settings_fs_def settings_fs.select_convs(3,4))
  ultimately show ?thesis
    by (simp add: regenerate_checkout_def regenerate_checkout_from_tickets_def regenerate_tickets_with_settings_def
        demo_guidance btree_values_def)
qed

subsection \<open>Properties\<close>

text \<open>C27. The worklist of a checkout is exactly its queue: after a regeneration, the rows of the file
  are the active Up Next tickets of all linked stores, each ticket once, in priority order, and
  the reported count is their number.  A ticket found in several stores appears as its first live
  copy; a tombstone counts only where no store has a live one.  Titles, file names, annotations
  and guidance cannot add, hide or split a row; slugs are assumed to have no line break.\<close>

theorem worklist_is_queue:
  assumes run: "regenerate_checkout P E W fs co = (Inr n, fs')"
    and slugs: "one_line_slugs P W (worklist_sources co)"
  shows "\<exists>tss tickets body.
    result_map (\<lambda>s. result_bind (wl_open_admitted W (src_locator s)) (list_tickets P)) (worklist_sources co) = Inr tss
    \<and> distinct (map t_id tickets) \<and> (\<forall>i. List.find (\<lambda>t. t_id t = i) tickets = shown_copy (concat tss) i)
    \<and> map_of (sf_files fs') (path_join (co_root co) CHECKOUT_WORKLIST) = Some body
    \<and> filter is_row (lines body) = map worklist_row (sort_by worklist_order (filter queued tickets))
    \<and> n = length (filter is_row (lines body))"
proof -
  let ?path = "path_join (co_root co) CHECKOUT_WORKLIST"
  obtain by_id where src: "aggregate_sources P W (worklist_sources co) [] = Inr by_id"
    and r: "regenerate_checkout_from_tickets E W fs co (btree_values by_id) = (Inr n, fs')"
    using run by (auto simp: regenerate_checkout_def split: sum.splits)
  have "aggregated [] []" by (simp add: aggregated_def shown_copy_def opt_or_def)
  from aggregated_sources[OF this src] obtain tss
    where tss: "result_map (\<lambda>s. result_bind (wl_open_admitted W (src_locator s)) (list_tickets P)) (worklist_sources co) = Inr tss"
      and ag: "aggregated by_id (concat tss)" by auto
  have ids: "map_of by_id k = Some v \<Longrightarrow> t_id v = k" for k v
    using ag shown_copy_id by (auto simp: aggregated_def)
  have sorted: "key_sorted by_id" using ag by (simp add: aggregated_def)
  obtain entries where e: "n = length (filter queued (btree_values by_id))"
    "write_worklist W fs ?path (render_with_auto_context (btree_values by_id) entries) = (Inr (), fs')"
    using r by (auto simp: regenerate_checkout_from_tickets_def regenerate_tickets_with_settings_def
        split: sum.splits prod.splits)
  have "CHR 10 \<notin> set (t_slug t)" if "t \<in> set (btree_values by_id)" for t
  proof -
    from that obtain i where "(i, t) \<in> set by_id" by (auto simp: btree_values_def)
    then have "shown_copy (concat tss) i = Some t"
      using map_of_is_SomeI[OF key_sorted_distinct[OF sorted]] ag by (simp add: aggregated_def)
    then have "t \<in> set (concat tss)" by (rule shown_copy_in)
    then obtain ts where ts: "ts \<in> set tss" "t \<in> set ts" by auto
    then obtain s store where "s \<in> set (worklist_sources co)" "wl_open_admitted W (src_locator s) = Inr store"
      "list_tickets P store = Inr ts"
      using list_all2_in_set[OF tss[unfolded result_map_Inr_iff] ts(1)] by (auto simp: result_bind_eq_Inr)
    then show ?thesis using slugs ts(2) by (auto simp: one_line_slugs_def list_all_iff)
  qed
  then have rows: "filter is_row (lines (render_with_auto_context (btree_values by_id) entries)) =
      map worklist_row (sort_by worklist_order (filter queued (btree_values by_id)))"
    by (rule render_rows)
  have "distinct (map t_id (btree_values by_id))"
    using btree_values_keyed[OF sorted ids] key_sorted_distinct[OF sorted] by simp
  moreover have "\<forall>i. List.find (\<lambda>t. t_id t = i) (btree_values by_id) = shown_copy (concat tss) i"
    using find_values[OF sorted ids] ag by (simp add: aggregated_def)
  ultimately show ?thesis using tss write_worklist_body[OF e(2)] rows e(1) by fastforce
qed

theorem worklist_is_queue_witness:
  "\<exists>fs' body. regenerate_checkout (demo_for demo_queued) demo_settings_env demo_worklist_env demo_settings_fs demo_checkout
     = (Inr 1, fs') \<and> map_of (sf_files fs') ''/p/.hotsheet2/worklist.md'' = Some body
     \<and> length (filter is_row (lines body)) = 1"
proof -
  obtain fs' where r: "regenerate_checkout (demo_for demo_queued) demo_settings_env demo_worklist_env demo_settings_fs demo_checkout
     = (Inr 1, fs')" using demo_regenerated by blast
  have s: "one_line_slugs (demo_for demo_queued) demo_worklist_env (worklist_sources demo_checkout)"
    using demo_queue_listed
    by (auto simp: one_line_slugs_def demo_worklist_env_def demo_queued_def sample_ticket_def ticket_new_def)
  have "path_join (co_root demo_checkout) CHECKOUT_WORKLIST = ''/p/.hotsheet2/worklist.md''" by code_simp
  with worklist_is_queue[OF r s] r show ?thesis by auto
qed

text \<open>Guidance is layered by target: for each category or tag the effective entry is the last
  one among the defaults and the global, shared and local lists, no target occurs twice, and a
  ticket's category contributes that entry exactly when its text is not blank, so a blank entry of
  a more specific scope switches the guidance off.\<close>

theorem guidance_layers:
  assumes "auto_context_effective E S fs = Inr es"
  shows "\<exists>g s l. configured_entries E S fs GlobalScope = Inr g \<and> configured_entries E S fs SharedScope = Inr s
    \<and> configured_entries E S fs LocalScope = Inr l \<and> distinct (map target es)
    \<and> (\<forall>source key. List.find (targets source key) es
         = find_last (targets source key) (auto_context_defaults @ g @ s @ l))
    \<and> filter (\<lambda>e. ctx_source e = CategorySource) (resolve_context t es)
       = (case find_last (targets CategorySource (t_category t)) (auto_context_defaults @ g @ s @ l) of
            Some e \<Rightarrow> if trim (ctx_text e) = [] then [] else [e]
          | None \<Rightarrow> [])"
proof -
  obtain g s l where c: "configured_entries E S fs GlobalScope = Inr g" "configured_entries E S fs SharedScope = Inr s"
    "configured_entries E S fs LocalScope = Inr l" and es: "es = fold layer_entry (g @ s @ l) auto_context_defaults"
    by (rule effective_layers[OF assms])
  have f: "List.find (targets source key) es = find_last (targets source key) (auto_context_defaults @ g @ s @ l)"
    for source key
    using layer_fold_find[of source key "g @ s @ l" auto_context_defaults] es
      find_rev_distinct[OF defaults_distinct, of source key]
    by (simp add: find_last_def find_append opt_or_assoc)
  have "filter (\<lambda>e. ctx_source e = CategorySource) (filter q (sort_by cmp (filter (\<lambda>e. ctx_source e = TagSource \<and> p e) es))) = []"
    for p q cmp by (auto simp: filter_empty_conv)
  then have tags: "filter (\<lambda>e. ctx_source e = CategorySource) (resolve_context t es) =
      filter (\<lambda>e. ctx_source e = CategorySource)
        (case List.find (targets CategorySource (t_category t)) es of
           Some e \<Rightarrow> if trim (ctx_text e) \<noteq> [] then [e] else [] | None \<Rightarrow> [])"
    by (simp add: resolve_context_def resolve_fields_def)
  have "filter (\<lambda>e. ctx_source e = CategorySource) (resolve_context t es)
       = (case List.find (targets CategorySource (t_category t)) es of
            Some e \<Rightarrow> if trim (ctx_text e) = [] then [] else [e] | None \<Rightarrow> [])"
  proof (cases "List.find (targets CategorySource (t_category t)) es")
    case (Some e)
    then show ?thesis using find_SomeD[OF Some] unfolding tags by simp
  qed (simp add: tags)
  moreover have "distinct (map target es)"
    using layer_fold_find[of _ _ "g @ s @ l" auto_context_defaults] es defaults_distinct by blast
  ultimately show ?thesis using c f by (intro exI[of _ g] exI[of _ s] exI[of _ l]) simp
qed

theorem guidance_layers_witness:
  "\<exists>e. filter (\<lambda>e. ctx_source e = CategorySource) (resolve_context demo_queued auto_context_defaults) = [e]
     \<and> ctx_key e = ''task''"
proof -
  have c: "t_category demo_queued = ''task''" by (simp add: demo_queued_def sample_ticket_def ticket_new_def)
  have "is_some_and (find_last (targets CategorySource ''task'') auto_context_defaults)
      (\<lambda>e. trim (ctx_text e) \<noteq> [] \<and> ctx_key e = ''task'')"
    by code_simp
  then show ?thesis using guidance_layers[OF demo_guidance, of demo_queued]
    by (auto simp: demo_configured c is_some_and_iff)
qed

end
