(* ===== verification/Osc_Scanner.thy ===== *)
theory Osc_Scanner
  imports Rust_Str
begin

text \<open>
  The two streaming scanners of \<open>hotsheet-terminals\<close>: \<open>osc.rs\<close> reads the informational OSC
  sequences (working directory, hyperlink, progress, notification) and \<open>busy.rs\<close> the OSC 133
  prompt marks out of the bytes a PTY emits.  Both are state machines over single bytes,
  because a sequence may be split across reads.  The locale \<open>osc_machine\<close> states the framing
  laws the two share and compares the machine with a parser of the whole stream.
\<close>

subsection \<open>Bytes\<close>

definition ESC :: char where "ESC = CHR 0x1B"
definition BEL :: char where "BEL = CHR 0x07"
definition backslash :: char where "backslash = CHR 0x5C"

lemma control_bytes_differ [simp]:
  "ESC \<noteq> BEL" "BEL \<noteq> ESC" "backslash \<noteq> ESC" "backslash \<noteq> BEL" "CHR '']'' \<noteq> ESC"
  "ESC \<noteq> CHR '']''" "ESC \<noteq> backslash" "BEL \<noteq> backslash"
  by (simp_all add: ESC_def BEL_def backslash_def)

text \<open>\<open>str::from_utf8\<close> accepts the well-formed byte sequences of Unicode's table 3-7.\<close>

definition byte_in :: "nat \<Rightarrow> nat \<Rightarrow> char \<Rightarrow> bool" where
  "byte_in lo hi c = (lo \<le> (of_char c :: nat) \<and> (of_char c :: nat) \<le> hi)"

fun utf8_valid :: "string \<Rightarrow> bool" where
  "utf8_valid [] = True"
| "utf8_valid (a # s) =
     (if byte_in 0 0x7F a then utf8_valid s
      else case s of [] \<Rightarrow> False
      | b # s \<Rightarrow>
        if byte_in 0xC2 0xDF a then byte_in 0x80 0xBF b \<and> utf8_valid s
        else case s of [] \<Rightarrow> False
        | c # s \<Rightarrow>
          if byte_in 0xE0 0xEF a then
            byte_in (if a = CHR 0xE0 then 0xA0 else 0x80) (if a = CHR 0xED then 0x9F else 0xBF) b
            \<and> byte_in 0x80 0xBF c \<and> utf8_valid s
          else case s of [] \<Rightarrow> False
          | d # s \<Rightarrow>
            byte_in 0xF0 0xF4 a
            \<and> byte_in (if a = CHR 0xF0 then 0x90 else 0x80) (if a = CHR 0xF4 then 0x8F else 0xBF) b
            \<and> byte_in 0x80 0xBF c \<and> byte_in 0x80 0xBF d \<and> utf8_valid s)"

text \<open>\<open>str::parse::<u8>\<close>: an optional plus sign and digits, at most 255.\<close>

definition parse_u8 :: "string \<Rightarrow> nat option" where
  "parse_u8 s =
     Option.bind (parse_digits (unwrap_or (strip_prefix ''+'' s) s))
       (\<lambda>n. if n \<le> 255 then Some n else None)"

subsection \<open>The informational scanner\<close>

record term_state =
  tm_cwd :: "string option"
  tm_link :: "string option"
  tm_progress :: "nat option"
  tm_notify :: "string option"

datatype osc_state = Normal | Esc | Osc | OscEsc

record osc_scanner =
  os_state :: osc_state
  os_payload :: string
  os_term :: term_state

definition MAX_PAYLOAD :: nat where "MAX_PAYLOAD = 2048"

definition osc_new :: osc_scanner where
  "osc_new = \<lparr>os_state = Normal, os_payload = [],
     os_term = \<lparr>tm_cwd = None, tm_link = None, tm_progress = None, tm_notify = None\<rparr>\<rparr>"

definition with_initial_cwd :: "string option \<Rightarrow> osc_scanner" where
  "with_initial_cwd cwd = osc_new\<lparr>os_term := (os_term osc_new)\<lparr>tm_cwd := cwd\<rparr>\<rparr>"

definition osc_push :: "char \<Rightarrow> osc_scanner \<Rightarrow> osc_scanner" where
  "osc_push b s = (if length (os_payload s) < MAX_PAYLOAD then s\<lparr>os_payload := os_payload s @ [b]\<rparr> else s)"

definition set_cwd :: "string \<Rightarrow> term_state \<Rightarrow> term_state" where
  "set_cwd rest t =
     (if \<not> utf8_valid rest then t
      else let path = (case strip_prefix ''file://'' rest of
                         Some after \<Rightarrow> (case find_sub ''/'' after of
                                           Some i \<Rightarrow> drop i after | None \<Rightarrow> after)
                       | None \<Rightarrow> rest)
           in if path \<noteq> [] then t\<lparr>tm_cwd := Some path\<rparr> else t)"

definition set_link :: "string \<Rightarrow> term_state \<Rightarrow> term_state" where
  "set_link rest t =
     (if \<not> utf8_valid rest then t
      else let uri = (case split_once '';'' rest of Some (_, u) \<Rightarrow> u | None \<Rightarrow> [])
           in t\<lparr>tm_link := (if uri = [] then None else Some uri)\<rparr>)"

definition set_notify_or_progress ::
  "string \<Rightarrow> term_state \<times> string list \<Rightarrow> term_state \<times> string list" where
  "set_notify_or_progress rest tn =
     (let (t, notifications) = tn in
      if \<not> utf8_valid rest then tn
      else case strip_prefix ''4;'' rest of
          Some prog \<Rightarrow>
            let parts = split_char (CHR '';'') prog;
                st = (case parts of [] \<Rightarrow> ''0'' | p # _ \<Rightarrow> p);
                pct = (case parts of _ # p # _ \<Rightarrow> parse_u8 (trim p) | _ \<Rightarrow> None)
            in (t\<lparr>tm_progress :=
                   (if st = ''0'' then None
                    else if st = ''3'' \<or> st = ''4'' then tm_progress t
                    else map_option (\<lambda>p. min p 100) pct)\<rparr>, notifications)
        | None \<Rightarrow>
            if rest \<noteq> [] then (t\<lparr>tm_notify := Some rest\<rparr>, notifications @ [rest]) else tn)"

text \<open>The dispatch of a complete payload by its code.\<close>

definition osc_dispatch :: "string \<Rightarrow> term_state \<times> string list \<Rightarrow> term_state \<times> string list" where
  "osc_dispatch payload tn =
     (case strip_prefix ''7;'' payload of
        Some rest \<Rightarrow> (set_cwd rest (fst tn), snd tn)
      | None \<Rightarrow>
          (case strip_prefix ''8;'' payload of
             Some rest \<Rightarrow> (set_link rest (fst tn), snd tn)
           | None \<Rightarrow>
               (case strip_prefix ''9;'' payload of
                  Some rest \<Rightarrow> set_notify_or_progress rest tn
                | None \<Rightarrow> tn)))"

definition osc_finish :: "osc_scanner \<Rightarrow> string list \<Rightarrow> osc_scanner \<times> string list" where
  "osc_finish s notifications =
     (let (t, n) = osc_dispatch (os_payload s) (os_term s, notifications)
      in (s\<lparr>os_payload := [], os_term := t, os_state := Normal\<rparr>, n))"

fun osc_byte :: "osc_scanner \<times> string list \<Rightarrow> char \<Rightarrow> osc_scanner \<times> string list" where
  "osc_byte (s, n) b =
     (case os_state s of
        Normal \<Rightarrow> (if b = ESC then s\<lparr>os_state := Esc\<rparr> else s, n)
      | Esc \<Rightarrow> (if b = CHR '']'' then s\<lparr>os_state := Osc, os_payload := []\<rparr>
                else s\<lparr>os_state := Normal\<rparr>, n)
      | Osc \<Rightarrow> (if b = BEL then osc_finish s n
                else if b = ESC then (s\<lparr>os_state := OscEsc\<rparr>, n)
                else (osc_push b s, n))
      | OscEsc \<Rightarrow> (if b = backslash then osc_finish s n
                   else let s' = s\<lparr>os_state := Osc\<rparr>
                        in (if b \<noteq> ESC then osc_push b s' else s', n)))"

definition osc_feed :: "osc_scanner \<Rightarrow> string \<Rightarrow> osc_scanner \<times> string list" where
  "osc_feed s bytes = foldl osc_byte (s, []) bytes"

subsection \<open>The busy detector\<close>

record busy_detector =
  bd_state :: osc_state
  bd_payload :: string
  bd_busy :: bool

definition busy_new :: busy_detector where
  "busy_new = \<lparr>bd_state = Normal, bd_payload = [], bd_busy = False\<rparr>"

definition busy_dispatch :: "string \<Rightarrow> bool \<Rightarrow> bool" where
  "busy_dispatch payload busy =
     (case strip_prefix ''133;'' payload of
        Some (c # _) \<Rightarrow> (if c = CHR ''C'' then True
                          else if c = CHR ''A'' \<or> c = CHR ''D'' then False else busy)
      | _ \<Rightarrow> busy)"

definition busy_finish :: "busy_detector \<Rightarrow> busy_detector" where
  "busy_finish d = d\<lparr>bd_busy := busy_dispatch (bd_payload d) (bd_busy d), bd_state := Normal, bd_payload := []\<rparr>"

definition busy_byte :: "busy_detector \<Rightarrow> char \<Rightarrow> busy_detector" where
  "busy_byte d b =
     (case bd_state d of
        Normal \<Rightarrow> if b = ESC then d\<lparr>bd_state := Esc\<rparr> else d
      | Esc \<Rightarrow> if b = CHR '']'' then d\<lparr>bd_state := Osc, bd_payload := []\<rparr> else d\<lparr>bd_state := Normal\<rparr>
      | Osc \<Rightarrow>
          if b = BEL then busy_finish d
          else if b = ESC then d\<lparr>bd_state := OscEsc\<rparr>
          else if length (bd_payload d) < 64 then d\<lparr>bd_payload := bd_payload d @ [b]\<rparr> else d
      | OscEsc \<Rightarrow>
          if b = backslash then busy_finish d
          else if b \<noteq> ESC \<and> length (bd_payload d) < 64
          then d\<lparr>bd_state := Osc, bd_payload := bd_payload d @ [b]\<rparr>
          else d\<lparr>bd_state := Osc\<rparr>)"

definition busy_feed :: "busy_detector \<Rightarrow> string \<Rightarrow> bool \<times> busy_detector" where
  "busy_feed d bytes = (let d' = foldl busy_byte d bytes in (bd_busy d' \<noteq> bd_busy d, d'))"

definition contains_spinner :: "string \<Rightarrow> bool" where
  "contains_spinner bytes =
     list_ex (\<lambda>(a, b). a = CHR 0xE2 \<and> byte_in 0xA0 0xA3 b) (zip bytes (tl bytes))"

subsection \<open>The sequences of a whole stream\<close>

text \<open>
  The body of a sequence up to its terminator, BEL or ESC backslash.  An escape byte inside the
  body that does not complete the terminator is dropped.  \<open>None\<close> when the stream ends first.
\<close>

fun osc_body :: "bool \<Rightarrow> string \<Rightarrow> (string \<times> string) option" where
  "osc_body escaped [] = None"
| "osc_body False (c # s) =
     (if c = BEL then Some ([], s)
      else if c = ESC then osc_body True s
      else map_option (\<lambda>(body, rest). (c # body, rest)) (osc_body False s))"
| "osc_body True (c # s) =
     (if c = backslash then Some ([], s)
      else if c = ESC then osc_body False s
      else map_option (\<lambda>(body, rest). (c # body, rest)) (osc_body False s))"

lemma osc_body_shorter: "osc_body e s = Some (body, rest) \<Longrightarrow> length rest < length s"
  by (induction e s arbitrary: body rest rule: osc_body.induct)
    (fastforce split: if_splits)+

function (sequential) osc_payloads :: "string \<Rightarrow> string list" where
  "osc_payloads (c # d # s) =
     (if c \<noteq> ESC then osc_payloads (d # s)
      else if d \<noteq> CHR '']'' then osc_payloads s
      else case osc_body False s of None \<Rightarrow> [] | Some (body, rest) \<Rightarrow> body # osc_payloads rest)"
| "osc_payloads _ = []"
  by pat_completeness auto
termination
  by (relation "measure length") (auto dest: osc_body_shorter)

subsection \<open>The framing laws\<close>

locale osc_machine =
  fixes phase :: "'m \<Rightarrow> osc_state"
    and payload :: "'m \<Rightarrow> string"
    and info :: "'m \<Rightarrow> 'i"
    and step :: "'m \<Rightarrow> char \<Rightarrow> 'm"
    and dispatch :: "string \<Rightarrow> 'i \<Rightarrow> 'i"
    and cap :: nat
  assumes normal: "phase m = Normal \<Longrightarrow>
      phase (step m c) = (if c = ESC then Esc else Normal) \<and> info (step m c) = info m
      \<and> payload (step m c) = payload m"
    and esc: "phase m = Esc \<Longrightarrow>
      phase (step m c) = (if c = CHR '']'' then Osc else Normal) \<and> info (step m c) = info m
      \<and> payload (step m c) = (if c = CHR '']'' then [] else payload m)"
    and body: "phase m \<in> {Osc, OscEsc} \<Longrightarrow> c \<notin> {BEL, ESC, backslash} \<or> phase m = Osc \<and> c = backslash
        \<or> phase m = OscEsc \<and> c = BEL \<Longrightarrow>
      phase (step m c) = Osc \<and> info (step m c) = info m
      \<and> payload (step m c) = (if length (payload m) < cap then payload m @ [c] else payload m)"
    and escape: "phase m \<in> {Osc, OscEsc} \<Longrightarrow>
      phase (step m ESC) = (if phase m = Osc then OscEsc else Osc) \<and> info (step m ESC) = info m
      \<and> payload (step m ESC) = payload m"
    and finish: "(phase m, c) \<in> {(Osc, BEL), (OscEsc, backslash)} \<Longrightarrow>
      phase (step m c) = Normal \<and> info (step m c) = dispatch (payload m) (info m)
      \<and> payload (step m c) = []"
begin

lemma step_body_open:
  assumes "phase m \<in> {Osc, OscEsc}" "osc_body (phase m = OscEsc) s = None"
  shows "info (foldl step m s) = info m"
  using assms
proof (induction s arbitrary: m)
  case (Cons c s)
  then show ?case
    using body[of m c] escape[of m] finish[of m c]
    by (cases "phase m") (auto split: if_splits)
qed simp

lemma step_body_closed:
  assumes "phase m \<in> {Osc, OscEsc}" "osc_body (phase m = OscEsc) s = Some (b, rest)"
    "payload m = take cap acc"
  shows "\<exists>m'. foldl step m s = foldl step m' rest \<and> phase m' = Normal
    \<and> info m' = dispatch (take cap (acc @ b)) (info m)"
  using assms
proof (induction s arbitrary: m acc b)
  case (Cons c s)
  have pay: "(if length (take cap acc) < cap then take cap acc @ [c] else take cap acc) = take cap (acc @ [c])"
    by (auto simp: min_def)
  consider (ended) "(phase m, c) \<in> {(Osc, BEL), (OscEsc, backslash)}" | (escape) "c = ESC"
    | (body) "c \<notin> {BEL, ESC, backslash} \<or> phase m = Osc \<and> c = backslash \<or> phase m = OscEsc \<and> c = BEL"
    using Cons.prems(1) by (cases "phase m") auto
  then show ?case
  proof cases
    case ended
    with Cons.prems finish[OF ended] show ?thesis by (intro exI[of _ "step m c"]) auto
  next
    case escape
    have "osc_body (phase (step m c) = OscEsc) s = Some (b, rest)"
      using Cons.prems osc_machine_axioms escape osc_machine.escape[OF osc_machine_axioms, of m]
      by (auto split: if_splits)
    with Cons.IH[of "step m c" b acc] Cons.prems osc_machine.escape[OF osc_machine_axioms, of m] escape
    show ?thesis by auto
  next
    case body
    note st = osc_machine.body[OF osc_machine_axioms Cons.prems(1) body]
    obtain b' where "b = c # b'" "osc_body False s = Some (b', rest)"
      using Cons.prems(1,2) body by (auto split: if_splits)
    with Cons.IH[of "step m c" b' "acc @ [c]"] Cons.prems st pay show ?thesis by auto
  qed
qed simp

text \<open>The machine over a stream is the dispatch of the payloads of the stream, in order.\<close>

lemma step_stream:
  assumes "phase m = Normal"
  shows "info (foldl step m s) = fold (\<lambda>p. dispatch (take cap p)) (osc_payloads s) (info m)"
  using assms
proof (induction s arbitrary: m rule: osc_payloads.induct)
  case (1 c d s)
  note first = normal[of m c]
  show ?case
  proof (cases "c = ESC \<and> d = CHR '']''")
    case True
    let ?m = "step (step m c) d"
    have m: "phase ?m = Osc" "info ?m = info m" "payload ?m = take cap []"
      using 1(4) True first esc[of "step m c" d] by auto
    show ?thesis
    proof (cases "osc_body False s")
      case None
      with True step_body_open[of ?m s] m show ?thesis by simp
    next
      case (Some br)
      then obtain b rest where br: "osc_body False s = Some (b, rest)" by (cases br) auto
      obtain m' where "foldl step ?m s = foldl step m' rest" "phase m' = Normal"
        "info m' = dispatch (take cap b) (info m)"
        using step_body_closed[of ?m s b rest "[]"] m br by auto
      with 1(3)[OF _ _ br refl] True br show ?thesis by simp
    qed
  next
    case False
    then show ?thesis using 1 first esc[of "step m c" d] by (cases "c = ESC") auto
  qed
qed (simp_all add: normal)

lemma payload_bounded:
  "length (payload m) \<le> cap \<Longrightarrow> length (payload (foldl step m s)) \<le> cap"
proof (induction s arbitrary: m)
  case (Cons c s)
  have "length (payload (step m c)) \<le> cap"
  proof (cases "phase m")
    case Normal
    then show ?thesis using normal[of m c] Cons.prems by simp
  next
    case Esc
    then show ?thesis using esc[of m c] Cons.prems by simp
  next
    case Osc
    then show ?thesis
      using body[of m c] escape[of m] finish[of m c] Cons.prems by (cases "c = ESC"; cases "c = BEL") auto
  next
    case OscEsc
    then show ?thesis
      using body[of m c] escape[of m] finish[of m c] Cons.prems by (cases "c = ESC"; cases "c = backslash") auto
  qed
  with Cons.IH show ?case by simp
qed simp

end


interpretation osc: osc_machine "os_state \<circ> fst" "os_payload \<circ> fst" "\<lambda>(s, n). (os_term s, n)" osc_byte
  osc_dispatch MAX_PAYLOAD
  by unfold_locales
    (auto simp: osc_push_def osc_finish_def Let_def split: osc_state.splits prod.splits)

interpretation busy: osc_machine bd_state bd_payload bd_busy busy_byte busy_dispatch 64
  by unfold_locales (auto simp: busy_byte_def busy_finish_def)

subsection \<open>Properties\<close>

text \<open>The notifications of a sequence of reads, and the scanner after them.\<close>

fun feed_reads :: "osc_scanner \<Rightarrow> string list \<Rightarrow> osc_scanner \<times> string list" where
  "feed_reads s [] = (s, [])"
| "feed_reads s (r # rs) =
     (let (s', n) = osc_feed s r; (s'', ns) = feed_reads s' rs in (s'', n @ ns))"

fun busy_reads :: "busy_detector \<Rightarrow> string list \<Rightarrow> busy_detector" where
  "busy_reads d [] = d"
| "busy_reads d (r # rs) = busy_reads (snd (busy_feed d r)) rs"

lemma dispatch_accumulates:
  "osc_dispatch p (t, n0 @ n) = (let (t', n') = osc_dispatch p (t, n) in (t', n0 @ n'))"
  by (auto simp: osc_dispatch_def set_notify_or_progress_def Let_def split: option.splits prod.splits)

lemma byte_accumulates: "osc_byte (s, n0 @ n) b = (let (s', n') = osc_byte (s, n) b in (s', n0 @ n'))"
  using dispatch_accumulates[of "os_payload s" "os_term s" n0 n]
  by (auto simp: osc_finish_def Let_def split: osc_state.splits prod.splits)

lemma bytes_accumulate:
  "foldl osc_byte (s, n0 @ n) bs = (let (s', n') = foldl osc_byte (s, n) bs in (s', n0 @ n'))"
proof (induction bs arbitrary: s n)
  case (Cons b bs)
  obtain s1 n1 where 1: "osc_byte (s, n) b = (s1, n1)" by (cases "osc_byte (s, n) b")
  with byte_accumulates[of s n0 n b] Cons[of s1 n1] show ?case by simp
qed simp

lemma feed_reads_stream: "feed_reads s rs = osc_feed s (concat rs)"
proof (induction rs arbitrary: s)
  case (Cons r rs)
  obtain s1 n1 where 1: "osc_feed s r = (s1, n1)" by (cases "osc_feed s r")
  have "osc_feed s (concat (r # rs)) = foldl osc_byte (s1, n1) (concat rs)"
    using 1 by (simp add: osc_feed_def)
  with bytes_accumulate[of s1 n1 "[]" "concat rs"] 1 Cons[of s1] show ?case
    by (simp add: osc_feed_def)
qed (simp add: osc_feed_def)

lemma busy_reads_stream: "busy_reads d rs = foldl busy_byte d (concat rs)"
  by (induction rs arbitrary: d) (simp_all add: busy_feed_def Let_def)

lemma osc_stream:
  "(os_term (fst (feed_reads (with_initial_cwd cwd) rs)), snd (feed_reads (with_initial_cwd cwd) rs))
     = fold (\<lambda>p. osc_dispatch (take MAX_PAYLOAD p)) (osc_payloads (concat rs))
         (os_term (with_initial_cwd cwd), [])"
  using osc.step_stream[of "(with_initial_cwd cwd, [])" "concat rs"]
  by (simp add: feed_reads_stream osc_feed_def with_initial_cwd_def osc_new_def case_prod_beta)

text \<open>C37. However the stream of a terminal is split into reads, the scanner reports the
  working directory, link, progress and notifications of exactly the OSC sequences of the whole
  stream, in order, each payload cut at 2048 bytes; the busy detector likewise follows the
  OSC 133 marks of the whole stream.\<close>

theorem scanners_follow_stream:
  "(let (s, ns) = feed_reads (with_initial_cwd cwd) rs in (os_term s, ns))
     = fold (\<lambda>p. osc_dispatch (take MAX_PAYLOAD p)) (osc_payloads (concat rs))
         (os_term (with_initial_cwd cwd), [])
   \<and> bd_busy (busy_reads busy_new rs)
     = fold (\<lambda>p. busy_dispatch (take 64 p)) (osc_payloads (concat rs)) False"
proof
  show "(let (s, ns) = feed_reads (with_initial_cwd cwd) rs in (os_term s, ns))
     = fold (\<lambda>p. osc_dispatch (take MAX_PAYLOAD p)) (osc_payloads (concat rs))
         (os_term (with_initial_cwd cwd), [])"
    using osc_stream[of cwd rs] by (simp add: case_prod_beta)
  show "bd_busy (busy_reads busy_new rs)
     = fold (\<lambda>p. busy_dispatch (take 64 p)) (osc_payloads (concat rs)) False"
    using busy.step_stream[of busy_new "concat rs"] by (simp add: busy_reads_stream busy_new_def)
qed

lemma progress_bounded:
  assumes "is_none_or (tm_progress (fst tn)) (\<lambda>p. p \<le> 100)"
  shows "is_none_or (tm_progress (fst (osc_dispatch p tn))) (\<lambda>p. p \<le> 100)"
  using assms
  by (auto simp: osc_dispatch_def set_cwd_def set_link_def set_notify_or_progress_def Let_def
      is_none_or_iff split: option.splits prod.splits list.splits if_splits)

lemma fold_invariant_osc: "(\<And>p x. P x \<Longrightarrow> P (f p x)) \<Longrightarrow> P x \<Longrightarrow> P (fold f ps x)"
  by (induction ps arbitrary: x) auto

text \<open>A hostile stream cannot grow a scanner: after any reads the payload buffers hold at
  most 2048 and 64 bytes, and a reported progress is a percentage of at most 100.\<close>

theorem scanners_bounded:
  "length (os_payload (fst (feed_reads (with_initial_cwd cwd) rs))) \<le> 2048
   \<and> length (bd_payload (busy_reads busy_new rs)) \<le> 64
   \<and> is_none_or (tm_progress (os_term (fst (feed_reads (with_initial_cwd cwd) rs)))) (\<lambda>p. p \<le> 100)"
proof (intro conjI)
  show "length (os_payload (fst (feed_reads (with_initial_cwd cwd) rs))) \<le> 2048"
    using osc.payload_bounded[of "(with_initial_cwd cwd, [])" "concat rs"]
    by (simp add: feed_reads_stream osc_feed_def with_initial_cwd_def osc_new_def MAX_PAYLOAD_def)
  show "length (bd_payload (busy_reads busy_new rs)) \<le> 64"
    using busy.payload_bounded[of busy_new "concat rs"] by (simp add: busy_reads_stream busy_new_def)
  let ?start = "(os_term (with_initial_cwd cwd), [])"
  have "is_none_or (tm_progress (fst ?start)) (\<lambda>p. p \<le> 100)"
    by (simp add: with_initial_cwd_def osc_new_def)
  then have "is_none_or (tm_progress (fst (fold (\<lambda>p. osc_dispatch (take MAX_PAYLOAD p))
      (osc_payloads (concat rs)) ?start))) (\<lambda>p. p \<le> 100)"
    by (rule fold_invariant_osc[rotated]) (rule progress_bounded)
  then show "is_none_or (tm_progress (os_term (fst (feed_reads (with_initial_cwd cwd) rs)))) (\<lambda>p. p \<le> 100)"
    using osc_stream[of cwd rs] by (metis fst_conv)
qed

end
