(* ===== verification/Size_Arbiter.thy ===== *)
theory Size_Arbiter
  imports Hotsheet_Prelude "HOL-Library.AList"
begin

text \<open>
  The arbiter of \<open>hotsheet-terminals/src/sizing.rs\<close>: many viewports claim a size for one PTY
  and the arbiter picks one, with a focus hold, a resize rate limit and a minimal change.  The
  clock is an argument of every operation, in milliseconds; millisecond times and attach numbers
  are naturals (\<open>u64\<close> in the source, where \<open>saturating_sub\<close> is subtraction of naturals).
  A \<open>HashMap\<close> is an association list with distinct keys; its order stands for the arbitrary
  iteration order of the map, so the theorems hold for every order.
\<close>

subsection \<open>Data\<close>

definition SIZE_FOCUS_HOLD_MS :: nat where "SIZE_FOCUS_HOLD_MS = 500"
definition SIZE_DEPARTED_MEMORY :: nat where "SIZE_DEPARTED_MEMORY = 64"
definition SIZE_MIN_DELTA :: "16 word" where "SIZE_MIN_DELTA = 2"
definition SIZE_RESIZE_MIN_INTERVAL_MS :: nat where "SIZE_RESIZE_MIN_INTERVAL_MS = 100"

record viewport_claim =
  vc_viewer_id :: string
  vc_cols :: "16 word"
  vc_rows :: "16 word"
  vc_focus :: bool
  vc_visible :: bool
  vc_interacting :: bool
  vc_answers_queries :: bool
  vc_activity_at_ms :: nat

datatype size_policy = FocusFollows | Smallest | LargestVisible | Pinned "16 word" "16 word"

record decision =
  dc_cols :: "16 word"
  dc_rows :: "16 word"
  dc_driven_by :: "string option"
  dc_answered_by :: "string option"

record seen =
  sn_seq :: nat
  sn_claimed_at_ms :: nat

record size_arbiter =
  sa_policy :: size_policy
  sa_claims :: "(string \<times> viewport_claim) list"
  sa_seen :: "(string \<times> seen) list"
  sa_next_seq :: nat
  sa_departed :: "(string \<times> nat) list"
  sa_applied :: "(16 word \<times> 16 word) option"
  sa_applied_by :: "string option"
  sa_applied_at_ms :: nat
  sa_driver :: "string option"
  sa_focus_changed_at_ms :: nat
  sa_deferred_until_ms :: "nat option"
  sa_announced_answerer :: "string option"

subsection \<open>Operations\<close>

definition arbiter_new :: "size_policy \<Rightarrow> size_arbiter" where
  "arbiter_new policy =
     \<lparr>sa_policy = policy, sa_claims = [], sa_seen = [], sa_next_seq = 0, sa_departed = [],
      sa_applied = None, sa_applied_by = None, sa_applied_at_ms = 0, sa_driver = None,
      sa_focus_changed_at_ms = 0, sa_deferred_until_ms = None, sa_announced_answerer = None\<rparr>"

definition set_policy :: "size_policy \<Rightarrow> size_arbiter \<Rightarrow> size_arbiter" where
  "set_policy policy a = a\<lparr>sa_policy := policy\<rparr>"

definition set_applied :: "16 word \<Rightarrow> 16 word \<Rightarrow> size_arbiter \<Rightarrow> size_arbiter" where
  "set_applied cols rows a = a\<lparr>sa_applied := Some (cols, rows), sa_applied_by := None\<rparr>"

text \<open>The attach order of a viewport; \<open>None\<close>, the maximum of \<open>u64\<close>, for one without.\<close>

definition u64_max :: nat where "u64_max = 2 ^ 64 - 1"

definition attach_seq :: "size_arbiter \<Rightarrow> viewport_claim \<Rightarrow> nat" where
  "attach_seq a c = (case map_of (sa_seen a) (vc_viewer_id c) of None \<Rightarrow> u64_max | Some s \<Rightarrow> sn_seq s)"

definition seq_cmp :: "size_arbiter \<Rightarrow> viewport_claim \<Rightarrow> viewport_claim \<Rightarrow> ordering" where
  "seq_cmp a c d = ord_cmp (attach_seq a c) (attach_seq a d)"

definition answerer :: "size_arbiter \<Rightarrow> string option" where
  "answerer a =
     (case sa_applied_by a of
        Some driver \<Rightarrow>
          if is_some_and (map_of (sa_claims a) driver) vc_answers_queries then Some driver
          else map_option vc_viewer_id
                 (min_by (seq_cmp a) (filter vc_answers_queries (map snd (sa_claims a))))
      | None \<Rightarrow> map_option vc_viewer_id
                 (min_by (seq_cmp a) (filter vc_answers_queries (map snd (sa_claims a)))))"

definition applied :: "size_arbiter \<Rightarrow> decision option" where
  "applied a =
     map_option (\<lambda>(cols, rows).
       \<lparr>dc_cols = cols, dc_rows = rows, dc_driven_by = sa_applied_by a, dc_answered_by = answerer a\<rparr>)
       (sa_applied a)"

definition answerer_notice :: "size_arbiter \<Rightarrow> decision option \<times> size_arbiter" where
  "answerer_notice a =
     (case applied a of
        None \<Rightarrow> (None, a)
      | Some current \<Rightarrow>
          if dc_answered_by current = sa_announced_answerer a then (None, a)
          else (Some current, a\<lparr>sa_announced_answerer := dc_answered_by current\<rparr>))"

definition viewer_count :: "size_arbiter \<Rightarrow> nat" where
  "viewer_count a = length (sa_claims a)"

definition starts_takeover :: "size_arbiter \<Rightarrow> viewport_claim \<Rightarrow> bool" where
  "starts_takeover a c =
     ((vc_focus c \<and> is_none_or (map_of (sa_claims a) (vc_viewer_id c)) (\<lambda>p. \<not> vc_focus p)
       \<or> vc_interacting c)
      \<and> sa_driver a \<noteq> Some (vc_viewer_id c))"

definition claim_activity :: "size_arbiter \<Rightarrow> viewport_claim \<Rightarrow> nat \<Rightarrow> nat" where
  "claim_activity a c now =
     (if vc_interacting c then now
      else case map_of (sa_claims a) (vc_viewer_id c) of
          Some previous \<Rightarrow> vc_activity_at_ms previous
        | None \<Rightarrow> unwrap_or (map_of (sa_departed a) (vc_viewer_id c)) 0)"

definition upsert :: "viewport_claim \<Rightarrow> nat \<Rightarrow> size_arbiter \<Rightarrow> size_arbiter" where
  "upsert c now a =
     (let v = vc_viewer_id c;
          a1 = (if starts_takeover a c then a\<lparr>sa_focus_changed_at_ms := now\<rparr> else a);
          c' = c\<lparr>vc_activity_at_ms := claim_activity a c now\<rparr>;
          a2 = a1\<lparr>sa_departed := AList.delete v (sa_departed a1)\<rparr>;
          (seq, next_seq) = (case map_of (sa_seen a2) v of
                    Some s \<Rightarrow> (sn_seq s, sa_next_seq a2)
                  | None \<Rightarrow> (sa_next_seq a2 + 1, sa_next_seq a2 + 1))
      in a2\<lparr>sa_next_seq := next_seq,
            sa_seen := AList.update v \<lparr>sn_seq = seq, sn_claimed_at_ms = now\<rparr> (sa_seen a2),
            sa_claims := AList.update v c' (sa_claims a2)\<rparr>)"

definition at_cmp :: "string \<times> nat \<Rightarrow> string \<times> nat \<Rightarrow> ordering" where
  "at_cmp x y = ord_cmp (snd x) (snd y)"

definition remember_departed :: "string \<Rightarrow> nat \<Rightarrow> size_arbiter \<Rightarrow> size_arbiter" where
  "remember_departed v at a =
     (let d = sa_departed a;
          d' = (if SIZE_DEPARTED_MEMORY \<le> length d \<and> \<not> is_some (map_of d v)
                then case min_by at_cmp d of None \<Rightarrow> d | Some (oldest, _) \<Rightarrow> AList.delete oldest d
                else d)
      in a\<lparr>sa_departed := AList.update v at d'\<rparr>)"

definition remove :: "string \<Rightarrow> size_arbiter \<Rightarrow> size_arbiter" where
  "remove v a =
     (let a1 = a\<lparr>sa_seen := AList.delete v (sa_seen a), sa_claims := AList.delete v (sa_claims a)\<rparr>;
          a2 = (case map_of (sa_claims a) v of
                  Some gone \<Rightarrow> if vc_activity_at_ms gone > 0
                    then remember_departed (vc_viewer_id gone) (vc_activity_at_ms gone) a1 else a1
                | None \<Rightarrow> a1);
          a3 = (if sa_driver a2 = Some v then a2\<lparr>sa_driver := None\<rparr> else a2)
      in if sa_applied_by a3 = Some v then a3\<lparr>sa_applied_by := None\<rparr> else a3)"

definition expire :: "nat \<Rightarrow> nat \<Rightarrow> size_arbiter \<Rightarrow> nat \<times> size_arbiter" where
  "expire now lease a =
     (let stale = map fst (filter (\<lambda>(_, s). now - sn_claimed_at_ms s > lease) (sa_seen a))
      in (length stale, fold remove stale a))"

definition defer_until :: "nat \<Rightarrow> size_arbiter \<Rightarrow> size_arbiter" where
  "defer_until at a =
     a\<lparr>sa_deferred_until_ms := Some (case sa_deferred_until_ms a of None \<Rightarrow> at | Some cur \<Rightarrow> min cur at)\<rparr>"

definition decision_of :: "viewport_claim \<Rightarrow> decision" where
  "decision_of c = \<lparr>dc_cols = vc_cols c, dc_rows = vc_rows c, dc_driven_by = Some (vc_viewer_id c),
     dc_answered_by = None\<rparr>"

definition area :: "viewport_claim \<Rightarrow> 32 word" where
  "area c = ucast (vc_cols c) * ucast (vc_rows c)"

fun extreme_from :: "bool \<Rightarrow> viewport_claim option \<Rightarrow> viewport_claim list \<Rightarrow> viewport_claim option" where
  "extreme_from largest best [] = best"
| "extreme_from largest best (c # cs) =
     extreme_from largest
       (if is_none_or best (\<lambda>b. if largest then area c > area b else area c < area b)
        then Some c else best) cs"

definition by_extreme :: "bool \<Rightarrow> size_arbiter \<Rightarrow> decision option" where
  "by_extreme largest a =
     map_option decision_of (extreme_from largest None (filter vc_visible (map snd (sa_claims a))))"

text \<open>Newest interaction, then the current driver, then the earliest attached.\<close>

definition focus_cmp :: "size_arbiter \<Rightarrow> viewport_claim \<Rightarrow> viewport_claim \<Rightarrow> ordering" where
  "focus_cmp a c d =
     ord_then (ord_cmp (vc_activity_at_ms c) (vc_activity_at_ms d))
       (ord_then (ord_cmp (sa_driver a = Some (vc_viewer_id c)) (sa_driver a = Some (vc_viewer_id d)))
         (ord_reverse (ord_cmp (attach_seq a c) (attach_seq a d))))"

definition latest_focused :: "size_arbiter \<Rightarrow> viewport_claim option" where
  "latest_focused a =
     max_by (focus_cmp a) (filter (\<lambda>c. vc_focus c \<and> vc_visible c) (map snd (sa_claims a)))"

definition driver_present :: "size_arbiter \<Rightarrow> bool" where
  "driver_present a = is_some_and (sa_driver a) (\<lambda>d. is_some (map_of (sa_claims a) d))"

definition focus_follows :: "nat \<Rightarrow> size_arbiter \<Rightarrow> decision option \<times> size_arbiter" where
  "focus_follows now a =
     (case map_option vc_viewer_id (latest_focused a) of
        None \<Rightarrow>
          (map_option (\<lambda>(cols, rows). \<lparr>dc_cols = cols, dc_rows = rows, dc_driven_by = None,
             dc_answered_by = None\<rparr>) (sa_applied a), a)
      | Some cand \<Rightarrow>
          let a' = (if sa_driver a = Some cand \<and> driver_present a then a
                    else if \<not> driver_present a then a\<lparr>sa_driver := Some cand\<rparr>
                    else if now - sa_focus_changed_at_ms a \<ge> SIZE_FOCUS_HOLD_MS
                    then a\<lparr>sa_driver := Some cand\<rparr>
                    else defer_until (sa_focus_changed_at_ms a + SIZE_FOCUS_HOLD_MS) a)
          in (map_option decision_of (map_of (sa_claims a') (unwrap_or (sa_driver a') cand)), a'))"

definition target :: "nat \<Rightarrow> size_arbiter \<Rightarrow> decision option \<times> size_arbiter" where
  "target now a =
     (case sa_policy a of
        Pinned cols rows \<Rightarrow>
          (Some \<lparr>dc_cols = cols, dc_rows = rows, dc_driven_by = None, dc_answered_by = None\<rparr>, a)
      | Smallest \<Rightarrow> (by_extreme False a, a)
      | LargestVisible \<Rightarrow> (by_extreme True a, a)
      | FocusFollows \<Rightarrow> focus_follows now a)"

definition abs_diff :: "16 word \<Rightarrow> 16 word \<Rightarrow> 16 word" where
  "abs_diff x y = (if x < y then y - x else x - y)"

definition sub_threshold :: "(16 word \<times> 16 word) option \<Rightarrow> decision \<Rightarrow> bool" where
  "sub_threshold sz t =
     (case sz of None \<Rightarrow> False
      | Some (c, r) \<Rightarrow> abs_diff c (dc_cols t) < SIZE_MIN_DELTA \<and> abs_diff r (dc_rows t) < SIZE_MIN_DELTA)"

definition decide :: "nat \<Rightarrow> size_arbiter \<Rightarrow> decision option \<times> size_arbiter" where
  "decide now a =
     (case target now (a\<lparr>sa_deferred_until_ms := None\<rparr>) of
        (None, a1) \<Rightarrow> (None, a1)
      | (Some t, a1) \<Rightarrow>
          if sub_threshold (sa_applied a1) t then (None, a1)
          else if is_some (sa_applied a1) \<and> now - sa_applied_at_ms a1 < SIZE_RESIZE_MIN_INTERVAL_MS
          then (None, defer_until (sa_applied_at_ms a1 + SIZE_RESIZE_MIN_INTERVAL_MS) a1)
          else let a2 = a1\<lparr>sa_applied := Some (dc_cols t, dc_rows t), sa_applied_by := dc_driven_by t,
                           sa_applied_at_ms := now\<rparr>;
                   by = answerer a2
               in (Some (t\<lparr>dc_answered_by := by\<rparr>), a2\<lparr>sa_announced_answerer := by\<rparr>))"

subsection \<open>Association lists as maps\<close>

lemma set_update_alist:
  "distinct (map fst xs) \<Longrightarrow> set (AList.update k v xs) = insert (k, v) {e \<in> set xs. fst e \<noteq> k}"
proof (induction xs)
  case (Cons e xs)
  then show ?case by (cases e) (auto simp: rev_image_eqI)
qed simp

lemma set_delete_alist: "set (AList.delete k xs) = {e \<in> set xs. fst e \<noteq> k}"
  by (auto simp: AList.delete_eq)

lemma dom_delete_alist: "fst ` set (AList.delete k xs) = fst ` set xs - {k}"
  by (auto simp: set_delete_alist image_iff)

lemma distinct_alist_ops [simp]:
  "distinct (map fst xs) \<Longrightarrow> distinct (map fst (AList.update k v xs))"
  "distinct (map fst xs) \<Longrightarrow> distinct (map fst (AList.delete k xs))"
  by (simp_all add: AList.distinct_update AList.distinct_delete)

lemma length_delete_present:
  "k \<in> fst ` set xs \<Longrightarrow> length (AList.delete k xs) < length xs"
  by (induction xs) (auto simp: AList.delete_eq intro: le_imp_less_Suc)

lemma length_update_alist:
  "length (AList.update k v xs) = (if k \<in> fst ` set xs then length xs else Suc (length xs))"
  by (induction xs) auto

lemma is_some_map_of: "is_some (map_of xs k) \<longleftrightarrow> k \<in> fst ` set xs"
  by (simp add: is_some_iff map_of_eq_None_iff)

subsection \<open>The invariant\<close>

definition arbiter_inv :: "size_arbiter \<Rightarrow> bool" where
  "arbiter_inv a =
     (distinct (map fst (sa_claims a)) \<and> distinct (map fst (sa_seen a))
      \<and> distinct (map fst (sa_departed a))
      \<and> (\<forall>(v, c) \<in> set (sa_claims a). vc_viewer_id c = v)
      \<and> fst ` set (sa_seen a) = fst ` set (sa_claims a)
      \<and> (\<forall>(v, s) \<in> set (sa_seen a). sn_seq s \<le> sa_next_seq a
           \<and> (\<forall>(w, s') \<in> set (sa_seen a). sn_seq s = sn_seq s' \<longrightarrow> v = w))
      \<and> fst ` set (sa_departed a) \<inter> fst ` set (sa_claims a) = {}
      \<and> length (sa_departed a) \<le> SIZE_DEPARTED_MEMORY
      \<and> set_option (sa_driver a) \<subseteq> fst ` set (sa_claims a)
      \<and> set_option (sa_applied_by a) \<subseteq> fst ` set (sa_claims a))"

lemma arbiter_invD:
  assumes "arbiter_inv a"
  shows "distinct (map fst (sa_claims a))" "distinct (map fst (sa_seen a))"
    "distinct (map fst (sa_departed a))"
    "(v, c) \<in> set (sa_claims a) \<Longrightarrow> vc_viewer_id c = v"
    "fst ` set (sa_seen a) = fst ` set (sa_claims a)"
    "(v, s) \<in> set (sa_seen a) \<Longrightarrow> sn_seq s \<le> sa_next_seq a"
    "(v, s) \<in> set (sa_seen a) \<Longrightarrow> (w, s') \<in> set (sa_seen a) \<Longrightarrow> sn_seq s = sn_seq s' \<Longrightarrow> v = w"
    "fst ` set (sa_departed a) \<inter> fst ` set (sa_claims a) = {}"
    "length (sa_departed a) \<le> SIZE_DEPARTED_MEMORY"
    "sa_driver a = Some d \<Longrightarrow> d \<in> fst ` set (sa_claims a)"
    "sa_applied_by a = Some d \<Longrightarrow> d \<in> fst ` set (sa_claims a)"
  using assms by (auto simp: arbiter_inv_def)

lemma inv_new: "arbiter_inv (arbiter_new p)"
  by (simp add: arbiter_inv_def arbiter_new_def)

lemma inv_set_policy: "arbiter_inv a \<Longrightarrow> arbiter_inv (set_policy p a)"
  by (simp add: arbiter_inv_def set_policy_def)

lemma inv_set_applied: "arbiter_inv a \<Longrightarrow> arbiter_inv (set_applied c r a)"
  by (simp add: arbiter_inv_def set_applied_def)

lemma upsert_fields:
  "sa_claims (upsert c now a)
     = AList.update (vc_viewer_id c) (c\<lparr>vc_activity_at_ms := claim_activity a c now\<rparr>) (sa_claims a)"
  "sa_departed (upsert c now a) = AList.delete (vc_viewer_id c) (sa_departed a)"
  "sa_driver (upsert c now a) = sa_driver a" "sa_applied_by (upsert c now a) = sa_applied_by a"
  "sa_applied (upsert c now a) = sa_applied a" "sa_policy (upsert c now a) = sa_policy a"
  "sa_applied_at_ms (upsert c now a) = sa_applied_at_ms a"
  by (simp_all add: upsert_def Let_def split: option.split)

lemma upsert_seen:
  assumes "arbiter_inv a"
  shows "\<exists>q n. sa_seen (upsert c now a)
      = AList.update (vc_viewer_id c) \<lparr>sn_seq = q, sn_claimed_at_ms = now\<rparr> (sa_seen a)
    \<and> sa_next_seq (upsert c now a) = n \<and> q \<le> n \<and> sa_next_seq a \<le> n
    \<and> (\<forall>(w, s) \<in> set (sa_seen a). sn_seq s = q \<longrightarrow> w = vc_viewer_id c)"
proof (cases "map_of (sa_seen a) (vc_viewer_id c)")
  case None
  then have "\<forall>(w, s) \<in> set (sa_seen a). sn_seq s \<noteq> sa_next_seq a + 1"
    using arbiter_invD(6)[OF assms] by fastforce
  with None show ?thesis by (auto simp: upsert_def Let_def)
next
  case (Some s)
  then have s: "(vc_viewer_id c, s) \<in> set (sa_seen a)" by (rule map_of_SomeD)
  have "\<forall>(w, s') \<in> set (sa_seen a). sn_seq s' = sn_seq s \<longrightarrow> w = vc_viewer_id c"
    using arbiter_invD(7)[OF assms _ s] by blast
  with Some arbiter_invD(6)[OF assms s] show ?thesis
    by (intro exI[of _ "sn_seq s"] exI[of _ "sa_next_seq a"]) (simp add: upsert_def Let_def)
qed

lemma inv_upsert:
  assumes "arbiter_inv a"
  shows "arbiter_inv (upsert c now a)"
proof -
  note i = arbiter_invD[OF assms]
  obtain q n where s: "sa_seen (upsert c now a)
      = AList.update (vc_viewer_id c) \<lparr>sn_seq = q, sn_claimed_at_ms = now\<rparr> (sa_seen a)"
    "sa_next_seq (upsert c now a) = n" "q \<le> n" "sa_next_seq a \<le> n"
    "\<forall>(w, s) \<in> set (sa_seen a). sn_seq s = q \<longrightarrow> w = vc_viewer_id c"
    using upsert_seen[OF assms, of c now] by blast
  have "length (AList.delete (vc_viewer_id c) (sa_departed a)) \<le> SIZE_DEPARTED_MEMORY"
    using i(9) AList.length_delete_le[of "vc_viewer_id c" "sa_departed a"] by linarith
  moreover have "\<forall>(v, c') \<in> set (sa_claims (upsert c now a)). vc_viewer_id c' = v"
    using i(1,4) by (auto simp: upsert_fields set_update_alist)
  moreover have "\<forall>(v, e) \<in> set (sa_seen (upsert c now a)). sn_seq e \<le> n
      \<and> (\<forall>(w, e') \<in> set (sa_seen (upsert c now a)). sn_seq e = sn_seq e' \<longrightarrow> v = w)"
    using i(2,7) s le_trans[OF i(6) s(4)] by (fastforce simp: set_update_alist)
  moreover have "set_option (sa_driver a) \<subseteq> fst ` set (sa_claims (upsert c now a))"
    "set_option (sa_applied_by a) \<subseteq> fst ` set (sa_claims (upsert c now a))"
    using i(10,11) by (auto simp: upsert_fields AList.dom_update)
  moreover have "fst ` set (sa_departed (upsert c now a)) \<inter> fst ` set (sa_claims (upsert c now a)) = {}"
    using i(8) by (auto simp: upsert_fields AList.dom_update set_delete_alist)
  ultimately show ?thesis
    unfolding arbiter_inv_def using i(1,2,3,5) s(1,2) by (simp add: upsert_fields AList.dom_update)
qed

lemma remember_departed_fields:
  "sa_claims (remember_departed v at a) = sa_claims a" "sa_seen (remember_departed v at a) = sa_seen a"
  "sa_next_seq (remember_departed v at a) = sa_next_seq a" "sa_driver (remember_departed v at a) = sa_driver a"
  "sa_applied_by (remember_departed v at a) = sa_applied_by a"
  "sa_applied (remember_departed v at a) = sa_applied a" "sa_policy (remember_departed v at a) = sa_policy a"
  "sa_applied_at_ms (remember_departed v at a) = sa_applied_at_ms a"
  by (simp_all add: remember_departed_def Let_def)

lemma remember_departed_bounded:
  assumes "distinct (map fst (sa_departed a))" "length (sa_departed a) \<le> SIZE_DEPARTED_MEMORY"
  shows "distinct (map fst (sa_departed (remember_departed v at a)))"
    "length (sa_departed (remember_departed v at a)) \<le> SIZE_DEPARTED_MEMORY"
    "fst ` set (sa_departed (remember_departed v at a)) \<subseteq> insert v (fst ` set (sa_departed a))"
proof -
  show "distinct (map fst (sa_departed (remember_departed v at a)))"
    using assms(1) by (auto simp: remember_departed_def Let_def split: option.split)
  show "fst ` set (sa_departed (remember_departed v at a)) \<subseteq> insert v (fst ` set (sa_departed a))"
    by (auto simp: remember_departed_def Let_def AList.dom_update set_delete_alist split: option.split)
  have "length (AList.delete k (sa_departed a)) < SIZE_DEPARTED_MEMORY"
    if "min_by at_cmp (sa_departed a) = Some (k, x)" for k x
    using length_delete_present[of k "sa_departed a"] min_by_in_set[OF that] assms(2) by force
  moreover have "sa_departed a = [] \<Longrightarrow> \<not> SIZE_DEPARTED_MEMORY \<le> length (sa_departed a)"
    by (simp add: SIZE_DEPARTED_MEMORY_def)
  ultimately show "length (sa_departed (remember_departed v at a)) \<le> SIZE_DEPARTED_MEMORY"
    using assms(2) by (auto simp: remember_departed_def Let_def length_update_alist is_some_map_of
        not_le less_eq_Suc_le split: option.split)
qed

lemma remove_fields:
  "sa_claims (remove v a) = AList.delete v (sa_claims a)" "sa_seen (remove v a) = AList.delete v (sa_seen a)"
  "sa_next_seq (remove v a) = sa_next_seq a"
  "sa_driver (remove v a) = (if sa_driver a = Some v then None else sa_driver a)"
  "sa_applied_by (remove v a) = (if sa_applied_by a = Some v then None else sa_applied_by a)"
  "sa_applied (remove v a) = sa_applied a" "sa_policy (remove v a) = sa_policy a"
  "sa_applied_at_ms (remove v a) = sa_applied_at_ms a"
  by (simp_all add: remove_def Let_def remember_departed_fields split: option.split)

lemma inv_remove:
  assumes "arbiter_inv a"
  shows "arbiter_inv (remove v a)"
proof -
  note i = arbiter_invD[OF assms]
  let ?a = "a\<lparr>sa_seen := AList.delete v (sa_seen a), sa_claims := AList.delete v (sa_claims a)\<rparr>"
  have dep: "distinct (map fst (sa_departed (remove v a)))
    \<and> length (sa_departed (remove v a)) \<le> SIZE_DEPARTED_MEMORY
    \<and> fst ` set (sa_departed (remove v a)) \<subseteq> insert v (fst ` set (sa_departed a))"
    using remember_departed_bounded[of ?a] i(3,9) i(4)[OF map_of_SomeD]
    by (auto simp: remove_def Let_def split: option.split)
  moreover have "fst ` set (sa_departed (remove v a)) \<inter> (fst ` set (sa_claims a) - {v}) = {}"
    using dep i(8) by blast
  moreover have "\<forall>(w, c) \<in> set (AList.delete v (sa_claims a)). vc_viewer_id c = w"
    using i(4) by (auto simp: set_delete_alist)
  moreover have "\<forall>(u, e) \<in> set (AList.delete v (sa_seen a)). sn_seq e \<le> sa_next_seq a
      \<and> (\<forall>(w, e') \<in> set (AList.delete v (sa_seen a)). sn_seq e = sn_seq e' \<longrightarrow> u = w)"
    using i(6,7) by (fastforce simp: set_delete_alist)
  moreover have "set_option (sa_driver (remove v a)) \<subseteq> fst ` set (sa_claims a) - {v}"
    "set_option (sa_applied_by (remove v a)) \<subseteq> fst ` set (sa_claims a) - {v}"
    using i(10,11) by (auto simp: remove_fields)
  ultimately show ?thesis
    unfolding arbiter_inv_def using i(1,2,5) by (simp add: remove_fields(1-3) dom_delete_alist)
qed

lemma inv_expire: "arbiter_inv a \<Longrightarrow> arbiter_inv (snd (expire now lease a))"
proof -
  have "arbiter_inv a \<Longrightarrow> arbiter_inv (fold remove vs a)" for vs
    by (induction vs arbitrary: a) (auto intro: inv_remove)
  then show "arbiter_inv a \<Longrightarrow> ?thesis" by (simp add: expire_def Let_def)
qed

lemma inv_answerer_notice: "arbiter_inv a \<Longrightarrow> arbiter_inv (snd (answerer_notice a))"
  by (auto simp: answerer_notice_def arbiter_inv_def split: option.split)

lemma latest_focused_in:
  assumes "arbiter_inv a" "latest_focused a = Some c"
  shows "(vc_viewer_id c, c) \<in> set (sa_claims a)" "vc_focus c" "vc_visible c"
  using max_by_in_set[OF assms(2)[unfolded latest_focused_def]] arbiter_invD(4)[OF assms(1)] by force+

lemma extreme_from_in: "extreme_from l best cs = Some c \<Longrightarrow> best = Some c \<or> c \<in> set cs"
  by (induction cs arbitrary: best) (fastforce split: if_splits)+

lemma focus_follows_fields:
  "sa_claims (snd (focus_follows now a)) = sa_claims a" "sa_seen (snd (focus_follows now a)) = sa_seen a"
  "sa_next_seq (snd (focus_follows now a)) = sa_next_seq a"
  "sa_departed (snd (focus_follows now a)) = sa_departed a"
  "sa_applied_by (snd (focus_follows now a)) = sa_applied_by a"
  "sa_applied (snd (focus_follows now a)) = sa_applied a" "sa_policy (snd (focus_follows now a)) = sa_policy a"
  "sa_applied_at_ms (snd (focus_follows now a)) = sa_applied_at_ms a"
  "sa_focus_changed_at_ms (snd (focus_follows now a)) = sa_focus_changed_at_ms a"
  by (simp_all add: focus_follows_def defer_until_def Let_def split: option.split)

lemma target_fields:
  "sa_claims (snd (target now a)) = sa_claims a" "sa_seen (snd (target now a)) = sa_seen a"
  "sa_next_seq (snd (target now a)) = sa_next_seq a" "sa_departed (snd (target now a)) = sa_departed a"
  "sa_applied_by (snd (target now a)) = sa_applied_by a" "sa_applied (snd (target now a)) = sa_applied a"
  "sa_policy (snd (target now a)) = sa_policy a" "sa_applied_at_ms (snd (target now a)) = sa_applied_at_ms a"
  "sa_focus_changed_at_ms (snd (target now a)) = sa_focus_changed_at_ms a"
  by (simp_all add: target_def focus_follows_fields split: size_policy.split)

text \<open>The driver after a decision and the viewport behind a target are attached.\<close>

lemma target_live:
  assumes "arbiter_inv a"
  shows "set_option (sa_driver (snd (target now a))) \<subseteq> fst ` set (sa_claims a)"
    "fst (target now a) = Some t \<Longrightarrow> set_option (dc_driven_by t) \<subseteq> fst ` set (sa_claims a)"
proof -
  note i = arbiter_invD[OF assms]
  show "set_option (sa_driver (snd (target now a))) \<subseteq> fst ` set (sa_claims a)"
    using i(10) latest_focused_in(1)[OF assms]
    by (auto simp: target_def focus_follows_def defer_until_def Let_def rev_image_eqI
        split: size_policy.split option.split)
  show "set_option (dc_driven_by t) \<subseteq> fst ` set (sa_claims a)" if t: "fst (target now a) = Some t"
  proof -
    consider "dc_driven_by t = None" | c v where "t = decision_of c" "(v, c) \<in> set (sa_claims a)"
      using t extreme_from_in[of _ None]
      by (fastforce simp: target_def focus_follows_def by_extreme_def Let_def defer_until_def
          dest: map_of_SomeD split: size_policy.splits option.splits if_splits)
    then show ?thesis using i(4) by cases (force simp: decision_of_def)+
  qed
qed

lemma inv_target: "arbiter_inv a \<Longrightarrow> arbiter_inv (snd (target now a))"
  using target_live(1)[of a now] by (simp add: arbiter_inv_def target_fields)

lemma inv_decide:
  assumes "arbiter_inv a"
  shows "arbiter_inv (snd (decide now a))"
proof -
  let ?a = "a\<lparr>sa_deferred_until_ms := None\<rparr>"
  have 0: "arbiter_inv ?a" using assms by (simp add: arbiter_inv_def)
  have "arbiter_inv (snd (target now ?a))" by (rule inv_target[OF 0])
  moreover have "fst (target now ?a) = Some t \<Longrightarrow> set_option (dc_driven_by t) \<subseteq> fst ` set (sa_claims a)" for t
    using target_live(2)[OF 0] by simp
  moreover have "sa_claims (snd (target now ?a)) = sa_claims a" by (simp add: target_fields)
  ultimately show ?thesis
    by (cases "target now ?a") (auto simp: decide_def arbiter_inv_def defer_until_def Let_def split: option.split)
qed

subsection \<open>Runs\<close>

text \<open>Every sequence of calls the owner of the PTY can make.\<close>

datatype arbiter_op =
  SetPolicy size_policy | SetApplied "16 word" "16 word" | Upsert viewport_claim nat | Remove string
| Expire nat nat | AnswererNotice | Decide nat

fun run_op :: "arbiter_op \<Rightarrow> size_arbiter \<Rightarrow> size_arbiter" where
  "run_op (SetPolicy p) a = set_policy p a"
| "run_op (SetApplied c r) a = set_applied c r a"
| "run_op (Upsert c now) a = upsert c now a"
| "run_op (Remove v) a = remove v a"
| "run_op (Expire now lease) a = snd (expire now lease a)"
| "run_op AnswererNotice a = snd (answerer_notice a)"
| "run_op (Decide now) a = snd (decide now a)"

definition run_ops :: "arbiter_op list \<Rightarrow> size_arbiter \<Rightarrow> size_arbiter" where
  "run_ops ops a = fold run_op ops a"

text \<open>The resizes of a run, with the times of the calls that returned them.\<close>

fun resizes :: "arbiter_op list \<Rightarrow> size_arbiter \<Rightarrow> (nat \<times> decision) list" where
  "resizes [] a = []"
| "resizes (Decide now # ops) a =
     (case decide now a of
        (None, a') \<Rightarrow> resizes ops a'
      | (Some d, a') \<Rightarrow> (now, d) # resizes ops a')"
| "resizes (op # ops) a = resizes ops (run_op op a)"

lemma inv_run_op: "arbiter_inv a \<Longrightarrow> arbiter_inv (run_op op a)"
  by (cases op) (simp_all add: inv_set_policy inv_set_applied inv_upsert inv_remove inv_expire
      inv_answerer_notice inv_decide)

lemma inv_run_ops: "arbiter_inv a \<Longrightarrow> arbiter_inv (run_ops ops a)"
  unfolding run_ops_def by (induction ops arbitrary: a) (simp_all add: inv_run_op)

lemma run_ops_Cons: "run_ops (op # ops) a = run_ops ops (run_op op a)"
  by (simp add: run_ops_def)

text \<open>However viewports attach, claim, leave and expire, the arbiter's maps agree: a
  viewport has a claim exactly when it has an attach number, attach numbers are distinct, the
  driver and the viewport behind the applied size are attached, and the memory of departed
  viewports is disjoint from the attached ones and holds at most 64 entries.\<close>

theorem arbiter_invariant: "arbiter_inv (run_ops ops (arbiter_new p))"
  by (rule inv_run_ops[OF inv_new])

lemma decide_cases:
  fixes a now
  defines "a1 \<equiv> snd (target now (a\<lparr>sa_deferred_until_ms := None\<rparr>))"
  obtains
    (held) "fst (target now (a\<lparr>sa_deferred_until_ms := None\<rparr>)) = None" "decide now a = (None, a1)"
  | (small) t where "fst (target now (a\<lparr>sa_deferred_until_ms := None\<rparr>)) = Some t"
      "sub_threshold (sa_applied a) t" "decide now a = (None, a1)"
  | (early) t where "fst (target now (a\<lparr>sa_deferred_until_ms := None\<rparr>)) = Some t"
      "\<not> sub_threshold (sa_applied a) t" "sa_applied a \<noteq> None"
      "now - sa_applied_at_ms a < SIZE_RESIZE_MIN_INTERVAL_MS"
      "decide now a = (None, defer_until (sa_applied_at_ms a + SIZE_RESIZE_MIN_INTERVAL_MS) a1)"
  | (resized) t a2 by' where "fst (target now (a\<lparr>sa_deferred_until_ms := None\<rparr>)) = Some t"
      "\<not> sub_threshold (sa_applied a) t"
      "sa_applied a = None \<or> sa_applied_at_ms a + SIZE_RESIZE_MIN_INTERVAL_MS \<le> now"
      "a2 = a1\<lparr>sa_applied := Some (dc_cols t, dc_rows t), sa_applied_by := dc_driven_by t,
                           sa_applied_at_ms := now\<rparr>"
      "by' = answerer a2"
      "decide now a = (Some (t\<lparr>dc_answered_by := by'\<rparr>), a2\<lparr>sa_announced_answerer := by'\<rparr>)"
proof (cases "fst (target now (a\<lparr>sa_deferred_until_ms := None\<rparr>))")
  case None
  then show thesis using held by (cases "target now (a\<lparr>sa_deferred_until_ms := None\<rparr>)") (simp add: decide_def a1_def)
next
  case (Some t)
  have f: "sa_applied a1 = sa_applied a" "sa_applied_at_ms a1 = sa_applied_at_ms a"
    by (simp_all add: a1_def target_fields)
  have d: "target now (a\<lparr>sa_deferred_until_ms := None\<rparr>) = (Some t, a1)"
    using Some by (simp add: a1_def prod_eq_iff)
  show thesis
  proof (cases "sub_threshold (sa_applied a) t")
    case True
    then show thesis using small[OF Some] d f by (simp add: decide_def)
  next
    case big: False
    show thesis
    proof (cases "sa_applied a \<noteq> None \<and> now - sa_applied_at_ms a < SIZE_RESIZE_MIN_INTERVAL_MS")
      case True
      then show thesis using early[OF Some big] d f big by (simp add: decide_def is_some_iff)
    next
      case False
      then have "sa_applied a = None \<or> sa_applied_at_ms a + SIZE_RESIZE_MIN_INTERVAL_MS \<le> now"
        by (cases "sa_applied a") (auto simp: SIZE_RESIZE_MIN_INTERVAL_MS_def)
      then show thesis using resized[OF Some big _ refl refl] d f big False
        by (simp add: decide_def is_some_iff Let_def)
    qed
  qed
qed

text \<open>A resize is recorded, and follows the last one by the interval.\<close>

definition rate_ok :: "nat \<Rightarrow> size_arbiter \<Rightarrow> bool" where
  "rate_ok from_ms a = (sa_applied a \<noteq> None \<and> from_ms \<le> sa_applied_at_ms a)"

lemma rate_kept: "rate_ok n a \<Longrightarrow> (\<forall>t. op \<noteq> Decide t) \<Longrightarrow> rate_ok n (run_op op a)"
proof (induction op a rule: run_op.induct)
  case (5 now lease a)
  have "sa_applied (fold remove vs a) = sa_applied a \<and> sa_applied_at_ms (fold remove vs a) = sa_applied_at_ms a" for vs
    by (induction vs arbitrary: a) (simp_all add: remove_fields)
  with 5 show ?case by (simp add: rate_ok_def expire_def Let_def)
qed (auto simp: rate_ok_def set_policy_def set_applied_def upsert_fields remove_fields answerer_notice_def
    split: option.split)

lemmas rate_kept_op =
  rate_kept[where op = "SetPolicy p" for p, simplified] rate_kept[where op = "SetApplied c r" for c r, simplified]
  rate_kept[where op = "Upsert c t" for c t, simplified] rate_kept[where op = "Remove v" for v, simplified]
  rate_kept[where op = "Expire t l" for t l, simplified] rate_kept[where op = AnswererNotice, simplified]

lemma rate_decide:
  "decide now a = (None, a') \<Longrightarrow> rate_ok n a \<Longrightarrow> rate_ok n a'"
  "decide now a = (Some d, a') \<Longrightarrow> rate_ok now a' \<and> (rate_ok n a \<longrightarrow> n + 100 \<le> now)"
  by (cases now a rule: decide_cases;
      auto simp: rate_ok_def target_fields defer_until_def SIZE_RESIZE_MIN_INTERVAL_MS_def)+

lemma resizes_spaced:
  "sorted_wrt (\<lambda>s t. s + 100 \<le> t) (map fst (resizes ops a))
   \<and> (rate_ok n a \<longrightarrow> list_all (\<lambda>t. n + 100 \<le> t) (map fst (resizes ops a)))"
proof (induction ops a arbitrary: n rule: resizes.induct)
  case (2 now ops a)
  show ?case
  proof (cases "decide now a")
    case (Pair d a')
    show ?thesis
    proof (cases d)
      case None
      with Pair 2(1)[OF Pair[symmetric]] rate_decide(1)[of now a a' n] show ?thesis by simp
    next
      case (Some x)
      have r: "rate_ok now a'" and n: "rate_ok n a \<longrightarrow> n + 100 \<le> now"
        using rate_decide(2)[of now a x a' n] Pair Some by auto
      have ih: "sorted_wrt (\<lambda>s t. s + 100 \<le> t) (map fst (resizes ops a'))"
        "list_all (\<lambda>t. now + 100 \<le> t) (map fst (resizes ops a'))"
        using 2(2)[OF Pair[symmetric] Some, of now] r by auto
      have "list_all (\<lambda>t. n + 100 \<le> t) (map fst (resizes ops a'))" if "rate_ok n a"
        using ih(2) n that by (auto simp: list_all_iff)
      with ih n Pair Some show ?thesis by (auto simp: list_all_iff)
    qed
  qed
qed (simp_all add: rate_kept_op)

text \<open>C34. Whatever the viewports do, two resizes of the PTY are at least 100 milliseconds apart
  (ten a second at most), even when the clock runs backwards between the calls.\<close>

theorem resize_rate_limited:
  "sorted_wrt (\<lambda>s t. s + 100 \<le> t) (map fst (resizes ops (arbiter_new p)))"
  using resizes_spaced by blast

end
