(* ===== verification/Size_Takeover.thy ===== *)
theory Size_Takeover
  imports Size_Arbiter
begin

text \<open>
  Who drives the size under the focus-follows policy of \<open>sizing.rs\<close>: the choice does not depend
  on the iteration order of the maps, passive claims never take the size from the viewport a
  human last used, and an interaction ends with the PTY at the interacting viewport's size after
  at most three of the follow-up calls the arbiter asks its owner for.
\<close>

subsection \<open>The newest interaction\<close>

context total_cmp
begin

lemma max_by_same_set:
  assumes "set xs = set ys" "\<forall>x \<in> set xs. ok x"
    "\<And>x y. x \<in> set xs \<Longrightarrow> y \<in> set xs \<Longrightarrow> cmp x y = Equal \<Longrightarrow> x = y"
  shows "max_by cmp xs = max_by cmp ys"
proof (cases "max_by cmp xs"; cases "max_by cmp ys")
  fix m n
  assume m: "max_by cmp xs = Some m" and n: "max_by cmp ys = Some n"
  have in_set: "m \<in> set xs" "n \<in> set xs" using max_by_in_set m n assms(1) by fastforce+
  have "cmp n m \<noteq> Greater" "cmp m n \<noteq> Greater"
    using max_by_greatest[OF assms(2) m in_set(2)] max_by_greatest[of ys n m] n in_set assms(1,2) by auto
  then have "cmp m n = Equal"
    using cmp_sym[of m n] in_set assms(2) by (cases "cmp m n") auto
  then show ?thesis using assms(3)[OF in_set] m n by simp
qed (use assms(1) in auto)

lemma min_by_same_set:
  assumes "set xs = set ys" "\<forall>x \<in> set xs. ok x"
    "\<And>x y. x \<in> set xs \<Longrightarrow> y \<in> set xs \<Longrightarrow> cmp x y = Equal \<Longrightarrow> x = y"
  shows "min_by cmp xs = min_by cmp ys"
proof (cases "min_by cmp xs"; cases "min_by cmp ys")
  fix m n
  assume m: "min_by cmp xs = Some m" and n: "min_by cmp ys = Some n"
  have in_set: "m \<in> set xs" "n \<in> set xs" using min_by_in_set m n assms(1) by fastforce+
  have "cmp m n \<noteq> Greater" "cmp n m \<noteq> Greater"
    using min_by_least[OF assms(2) m in_set(2)] min_by_least[of ys n m] n in_set assms(1,2) by auto
  then have "cmp m n = Equal"
    using cmp_sym[of m n] in_set assms(2) by (cases "cmp m n") auto
  then show ?thesis using assms(3)[OF in_set] m n by simp
qed (use assms(1) in auto)

end

interpretation foc: total_cmp "focus_cmp a" "\<lambda>_. True" for a
proof -
  have "total_cmp (\<lambda>c d. ord_then (ord_cmp (vc_activity_at_ms c) (vc_activity_at_ms d))
      (ord_then (ord_cmp (sa_driver a = Some (vc_viewer_id c)) (sa_driver a = Some (vc_viewer_id d)))
        (ord_reverse (ord_cmp (attach_seq a c) (attach_seq a d))))) (\<lambda>_. True)"
    by (intro total_cmp_then total_cmp_key total_cmp_reverse)
  then show "total_cmp (focus_cmp a) (\<lambda>_. True)" by (simp add: focus_cmp_def[abs_def])
qed

interpretation att: total_cmp "seq_cmp a" "\<lambda>_. True" for a
  unfolding seq_cmp_def[abs_def] by (rule total_cmp_key)

lemma attach_seq_inj:
  assumes "arbiter_inv a" "(v, c) \<in> set (sa_claims a)" "(w, d) \<in> set (sa_claims a)"
    "attach_seq a c = attach_seq a d"
  shows "c = d"
proof -
  note i = arbiter_invD[OF assms(1)]
  have ids: "vc_viewer_id c = v" "vc_viewer_id d = w" using i(4) assms(2,3) by auto
  obtain s s' where s: "(v, s) \<in> set (sa_seen a)" "(w, s') \<in> set (sa_seen a)"
    using i(5) assms(2,3) by (metis (no_types, lifting) fst_conv imageE image_eqI prod.collapse)
  then have "attach_seq a c = sn_seq s" "attach_seq a d = sn_seq s'"
    using ids i(2) by (simp_all add: attach_seq_def)
  with assms(4) i(7)[OF s] have "v = w" by simp
  with assms(2,3) i(1) show ?thesis by (metis eq_key_imp_eq_value)
qed

lemma latest_focused_is:
  assumes "arbiter_inv a" "(v, c) \<in> set (sa_claims a)" "vc_focus c" "vc_visible c"
    "\<And>w d. (w, d) \<in> set (sa_claims a) \<Longrightarrow> w \<noteq> v \<Longrightarrow> focus_cmp a d c = Less"
  shows "latest_focused a = Some c"
proof -
  let ?xs = "filter (\<lambda>c. vc_focus c \<and> vc_visible c) (map snd (sa_claims a))"
  have c: "c \<in> set ?xs" using assms(2,3,4) by force
  then obtain m where m: "max_by (focus_cmp a) ?xs = Some m" by (metis empty_iff list.set(1) max_by_None not_None_eq)
  then obtain w where w: "(w, m) \<in> set (sa_claims a)" using max_by_in_set[OF m] by auto
  have "focus_cmp a c m \<noteq> Greater" using foc.max_by_greatest[OF _ m c] by simp
  then have "focus_cmp a m c \<noteq> Less" using foc.cmp_sym[where x = m and y = c] by auto
  with assms(5)[OF w] have "w = v" by blast
  with w assms(1,2) m show ?thesis
    unfolding latest_focused_def by (metis arbiter_invD(1) eq_key_imp_eq_value)
qed

subsection \<open>Passive claims\<close>

text \<open>The viewport drives, is eligible, and no known interaction is newer.\<close>

definition holds_size :: "string \<Rightarrow> size_arbiter \<Rightarrow> bool" where
  "holds_size v a =
     (sa_policy a = FocusFollows \<and> sa_driver a = Some v \<and>
      (case map_of (sa_claims a) v of None \<Rightarrow> False
       | Some c \<Rightarrow> vc_focus c \<and> vc_visible c
           \<and> list_all (\<lambda>(_, d). vc_activity_at_ms d \<le> vc_activity_at_ms c) (sa_claims a)
           \<and> list_all (\<lambda>(_, at). at \<le> vc_activity_at_ms c) (sa_departed a)))"

text \<open>Calls without a human interaction that leave the viewport attached and eligible.\<close>

fun passive_op :: "string \<Rightarrow> arbiter_op \<Rightarrow> bool" where
  "passive_op v (SetPolicy p) = (p = FocusFollows)"
| "passive_op v (SetApplied c r) = True"
| "passive_op v (Upsert c now) = (\<not> vc_interacting c \<and> (vc_viewer_id c = v \<longrightarrow> vc_focus c \<and> vc_visible c))"
| "passive_op v (Remove w) = (w \<noteq> v)"
| "passive_op v (Expire now lease) = False"
| "passive_op v AnswererNotice = True"
| "passive_op v (Decide now) = True"

lemma holds_sizeE:
  assumes "holds_size v a" "arbiter_inv a"
  obtains c where "sa_policy a = FocusFollows" "sa_driver a = Some v" "map_of (sa_claims a) v = Some c"
    "(v, c) \<in> set (sa_claims a)" "vc_focus c" "vc_visible c" "vc_viewer_id c = v"
    "\<And>w d. (w, d) \<in> set (sa_claims a) \<Longrightarrow> vc_activity_at_ms d \<le> vc_activity_at_ms c"
    "\<And>w at. (w, at) \<in> set (sa_departed a) \<Longrightarrow> at \<le> vc_activity_at_ms c"
  using assms arbiter_invD(4)[OF assms(2) map_of_SomeD]
  by (fastforce simp: holds_size_def list_all_iff split: option.splits dest: map_of_SomeD)

lemma holds_sizeI:
  assumes "sa_policy a = FocusFollows" "sa_driver a = Some v" "map_of (sa_claims a) v = Some c"
    "vc_focus c" "vc_visible c"
    "\<And>w d. (w, d) \<in> set (sa_claims a) \<Longrightarrow> vc_activity_at_ms d \<le> vc_activity_at_ms c"
    "\<And>w at. (w, at) \<in> set (sa_departed a) \<Longrightarrow> at \<le> vc_activity_at_ms c"
  shows "holds_size v a"
  using assms by (auto simp: holds_size_def list_all_iff)

lemma holds_target:
  assumes "holds_size v a" "arbiter_inv a"
  shows "\<exists>c. map_of (sa_claims a) v = Some c \<and> vc_viewer_id c = v \<and> target now a = (Some (decision_of c), a)"
proof -
  obtain c where c: "sa_policy a = FocusFollows" "sa_driver a = Some v" "map_of (sa_claims a) v = Some c"
    "(v, c) \<in> set (sa_claims a)" "vc_focus c" "vc_visible c" "vc_viewer_id c = v"
    "\<And>w d. (w, d) \<in> set (sa_claims a) \<Longrightarrow> vc_activity_at_ms d \<le> vc_activity_at_ms c"
    by (rule holds_sizeE[OF assms]) blast
  have "latest_focused a = Some c"
  proof (rule latest_focused_is[OF assms(2) c(4-6)])
    fix w d
    assume d: "(w, d) \<in> set (sa_claims a)" "w \<noteq> v"
    then have "vc_viewer_id d = w" using arbiter_invD(4)[OF assms(2)] by blast
    with c(2,7) d c(8)[OF d(1)] show "focus_cmp a d c = Less" by (auto simp: focus_cmp_def ord_then_iff)
  qed
  with c show ?thesis
    by (auto simp: target_def focus_follows_def driver_present_def)
qed

lemma holds_upsert:
  assumes "holds_size v a" "arbiter_inv a" "passive_op v (Upsert c now)"
  shows "holds_size v (upsert c now a)"
proof -
  obtain p where p: "sa_policy a = FocusFollows" "sa_driver a = Some v" "map_of (sa_claims a) v = Some p"
    "vc_focus p" "vc_visible p"
    "\<And>w d. (w, d) \<in> set (sa_claims a) \<Longrightarrow> vc_activity_at_ms d \<le> vc_activity_at_ms p"
    "\<And>w at. (w, at) \<in> set (sa_departed a) \<Longrightarrow> at \<le> vc_activity_at_ms p"
    by (rule holds_sizeE[OF assms(1,2)]) blast
  note i = arbiter_invD[OF assms(2)]
  let ?c = "c\<lparr>vc_activity_at_ms := claim_activity a c now\<rparr>"
  define q where "q = (if vc_viewer_id c = v then ?c else p)"
  have act: "claim_activity a c now \<le> vc_activity_at_ms p"
    using assms(3) p(6,7)
    by (cases "map_of (sa_departed a) (vc_viewer_id c)")
      (auto simp: claim_activity_def dest: map_of_SomeD split: option.split)
  have q: "vc_activity_at_ms q = vc_activity_at_ms p" "vc_focus q" "vc_visible q"
    using assms(3) p(3-5) by (auto simp: q_def claim_activity_def)
  show ?thesis
  proof (rule holds_sizeI[of _ v q])
    show "map_of (sa_claims (upsert c now a)) v = Some q"
      using p(3) by (simp add: upsert_fields q_def AList.update_conv')
    show "\<And>w d. (w, d) \<in> set (sa_claims (upsert c now a)) \<Longrightarrow> vc_activity_at_ms d \<le> vc_activity_at_ms q"
      using act p(6) q(1) i(1) by (auto simp: upsert_fields set_update_alist)
    show "\<And>w at. (w, at) \<in> set (sa_departed (upsert c now a)) \<Longrightarrow> at \<le> vc_activity_at_ms q"
      using p(7) q(1) by (auto simp: upsert_fields set_delete_alist)
  qed (use p q in \<open>simp_all add: upsert_fields\<close>)
qed

lemma remember_departed_set:
  assumes "distinct (map fst (sa_departed a))"
  shows "set (sa_departed (remember_departed v at a)) \<subseteq> insert (v, at) (set (sa_departed a))"
  using assms by (auto simp: remember_departed_def Let_def set_update_alist set_delete_alist split: option.split)

lemma remove_departed_set:
  assumes "arbiter_inv a" "(u, at) \<in> set (sa_departed (remove w a))"
  shows "(u, at) \<in> set (sa_departed a) \<or> (\<exists>x c. (x, c) \<in> set (sa_claims a) \<and> at = vc_activity_at_ms c)"
proof -
  let ?a = "a\<lparr>sa_seen := AList.delete w (sa_seen a), sa_claims := AList.delete w (sa_claims a)\<rparr>"
  have sub: "set (sa_departed (remember_departed x y ?a)) \<subseteq> insert (x, y) (set (sa_departed a))" for x y
    using remember_departed_set[of ?a] arbiter_invD(3)[OF assms(1)] by simp
  show ?thesis
  proof (cases "map_of (sa_claims a) w")
    case None
    with assms(2) show ?thesis by (simp add: remove_def Let_def split: if_splits)
  next
    case (Some g)
    then have "(w, g) \<in> set (sa_claims a)" by (rule map_of_SomeD)
    moreover have "(u, at) \<in> insert (vc_viewer_id g, vc_activity_at_ms g) (set (sa_departed a))"
      using assms(2) Some sub[of "vc_viewer_id g" "vc_activity_at_ms g"]
      by (auto simp: remove_def Let_def split: if_splits)
    ultimately show ?thesis by auto
  qed
qed

lemma holds_remove:
  assumes "holds_size v a" "arbiter_inv a" "w \<noteq> v"
  shows "holds_size v (remove w a)"
proof -
  obtain p where p: "sa_policy a = FocusFollows" "sa_driver a = Some v" "map_of (sa_claims a) v = Some p"
    "vc_focus p" "vc_visible p"
    "\<And>u d. (u, d) \<in> set (sa_claims a) \<Longrightarrow> vc_activity_at_ms d \<le> vc_activity_at_ms p"
    "\<And>u at. (u, at) \<in> set (sa_departed a) \<Longrightarrow> at \<le> vc_activity_at_ms p"
    by (rule holds_sizeE[OF assms(1,2)]) blast
  show ?thesis
  proof (rule holds_sizeI[of _ v p])
    show "map_of (sa_claims (remove w a)) v = Some p"
      using p(3) assms(3) by (simp add: remove_fields AList.delete_conv')
    show "\<And>u d. (u, d) \<in> set (sa_claims (remove w a)) \<Longrightarrow> vc_activity_at_ms d \<le> vc_activity_at_ms p"
      using p(6) by (auto simp: remove_fields set_delete_alist)
    show "\<And>u at. (u, at) \<in> set (sa_departed (remove w a)) \<Longrightarrow> at \<le> vc_activity_at_ms p"
      using remove_departed_set[OF assms(2), where w = w] p(6,7) by blast
  qed (use p assms(3) in \<open>simp_all add: remove_fields\<close>)
qed

lemma holds_cong:
  "sa_policy b = sa_policy a \<Longrightarrow> sa_driver b = sa_driver a \<Longrightarrow> sa_claims b = sa_claims a \<Longrightarrow>
   sa_departed b = sa_departed a \<Longrightarrow> holds_size v b = holds_size v a"
  by (simp add: holds_size_def split: option.split)

lemma holds_decide:
  assumes "holds_size v a" "arbiter_inv a"
  shows "holds_size v (snd (decide now a))" "fst (decide now a) = Some d \<Longrightarrow> dc_driven_by d = Some v"
proof -
  let ?a = "a\<lparr>sa_deferred_until_ms := None\<rparr>"
  have a: "holds_size v ?a" "arbiter_inv ?a"
    using assms holds_cong[of ?a a v] by (simp_all add: arbiter_inv_def)
  obtain c where c: "vc_viewer_id c = v" "target now ?a = (Some (decision_of c), ?a)"
    using holds_target[OF a, of now] by blast
  have "sa_policy (snd (decide now a)) = sa_policy ?a \<and> sa_driver (snd (decide now a)) = sa_driver ?a
      \<and> sa_claims (snd (decide now a)) = sa_claims ?a \<and> sa_departed (snd (decide now a)) = sa_departed ?a"
    using c by (auto simp: decide_def Let_def defer_until_def)
  then show "holds_size v (snd (decide now a))" using a(1) holds_cong by blast
  from c show "fst (decide now a) = Some d \<Longrightarrow> dc_driven_by d = Some v"
    by (auto simp: decide_def Let_def decision_of_def split: if_splits)
qed

lemma holds_run_op:
  assumes "holds_size v a" "arbiter_inv a" "passive_op v op"
  shows "holds_size v (run_op op a)"
proof (cases op)
  case (SetPolicy p)
  moreover have "sa_policy a = FocusFollows" using assms(1) by (simp add: holds_size_def)
  ultimately show ?thesis
    using assms holds_cong[of "run_op op a" a v] by (simp add: set_policy_def)
next
  case (SetApplied c r)
  then show ?thesis using assms holds_cong[of "run_op op a" a v] by (simp add: set_applied_def)
next
  case AnswererNotice
  then show ?thesis
    using assms holds_cong[of "run_op op a" a v] by (auto simp: answerer_notice_def split: option.splits)
qed (use assms in \<open>auto intro: holds_upsert holds_remove holds_decide\<close>)

lemma holds_resizes:
  assumes "holds_size v a" "arbiter_inv a" "list_all (passive_op v) ops"
  shows "list_all (\<lambda>(_, d). dc_driven_by d = Some v) (resizes ops a)"
  using assms
proof (induction ops arbitrary: a)
  case (Cons op ops)
  have ih: "list_all (\<lambda>(_, d). dc_driven_by d = Some v) (resizes ops (run_op op a))"
    using Cons holds_run_op inv_run_op by simp
  show ?case
  proof (cases op)
    case (Decide now)
    with ih holds_decide(2)[OF Cons.prems(1,2), of now] show ?thesis
      by (cases "decide now a") (auto split: option.split)
  qed (use ih in simp_all)
qed simp

lemma holds_run_ops:
  "holds_size v a \<Longrightarrow> arbiter_inv a \<Longrightarrow> list_all (passive_op v) ops \<Longrightarrow> holds_size v (run_ops ops a)"
  by (induction ops arbitrary: a) (auto simp: run_ops_def holds_run_op inv_run_op)

text \<open>C10. While the viewport with the newest human interaction stays attached and eligible,
  nothing but another interaction takes the size from it: over any sequence of first claims,
  reconnects, eligibility changes, heartbeats, disconnects of others and decisions, it remains
  the driver and every resize is driven by it.\<close>

theorem passive_claims_never_steal:
  assumes "arbiter_inv a" "holds_size v a" "list_all (passive_op v) ops"
  shows "sa_driver (run_ops ops a) = Some v
    \<and> list_all (\<lambda>(_, d). dc_driven_by d = Some v) (resizes ops a)"
  using holds_resizes[OF assms(2,1,3)] holds_run_ops[OF assms(2,1,3)] by (simp add: holds_size_def)

definition demo_view :: "string \<Rightarrow> 16 word \<Rightarrow> bool \<Rightarrow> viewport_claim" where
  "demo_view v cols interacting =
     \<lparr>vc_viewer_id = v, vc_cols = cols, vc_rows = 24, vc_focus = True, vc_visible = True,
      vc_interacting = interacting, vc_answers_queries = True, vc_activity_at_ms = 0\<rparr>"

definition demo_desk :: size_arbiter where
  "demo_desk = run_ops [Upsert (demo_view ''desk'' 80 True) 1000, Decide 1000] (arbiter_new FocusFollows)"

lemma demo_desk_holds: "holds_size ''desk'' demo_desk"
  by code_simp

theorem passive_claims_never_steal_witness:
  "sa_driver (run_ops [Upsert (demo_view ''phone'' 40 False) 2000, Decide 9000] demo_desk) = Some ''desk''"
  using passive_claims_never_steal[of demo_desk "''desk''"
      "[Upsert (demo_view ''phone'' 40 False) 2000, Decide 9000]"]
    demo_desk_holds inv_run_ops[OF inv_new]
  by (simp add: demo_desk_def demo_view_def)

subsection \<open>An interaction takes over\<close>

text \<open>
  The terminal's follow-up loop (\<open>schedule_trailing_resize\<close>): sleep until the time the arbiter
  asked for and decide again, each time late by an arbitrary delay.
\<close>

fun settle :: "nat list \<Rightarrow> size_arbiter \<Rightarrow> size_arbiter" where
  "settle [] a = a"
| "settle (late # lates) a =
     (case sa_deferred_until_ms a of None \<Rightarrow> a | Some at \<Rightarrow> settle lates (snd (decide (at + late) a)))"

definition top_viewport :: "string \<Rightarrow> viewport_claim \<Rightarrow> size_arbiter \<Rightarrow> bool" where
  "top_viewport v c a =
     (arbiter_inv a \<and> sa_policy a = FocusFollows \<and> map_of (sa_claims a) v = Some c
      \<and> vc_focus c \<and> vc_visible c
      \<and> (\<forall>(w, d) \<in> set (sa_claims a). w \<noteq> v \<longrightarrow> vc_activity_at_ms d < vc_activity_at_ms c))"

text \<open>Another live driver is inside the focus hold.\<close>

definition waiting :: "string \<Rightarrow> nat \<Rightarrow> size_arbiter \<Rightarrow> bool" where
  "waiting v now a =
     (sa_driver a \<noteq> None \<and> sa_driver a \<noteq> Some v \<and> now - sa_focus_changed_at_ms a < SIZE_FOCUS_HOLD_MS)"

definition settled :: "string \<Rightarrow> viewport_claim \<Rightarrow> size_arbiter \<Rightarrow> bool" where
  "settled v c a =
     (sa_deferred_until_ms a = None \<and> sa_driver a = Some v \<and> sub_threshold (sa_applied a) (decision_of c))"

lemma top_latest:
  assumes "top_viewport v c a"
  shows "latest_focused a = Some c" "vc_viewer_id c = v"
proof -
  have t: "arbiter_inv a" "(v, c) \<in> set (sa_claims a)" "vc_focus c" "vc_visible c"
    "\<And>w d. (w, d) \<in> set (sa_claims a) \<Longrightarrow> w \<noteq> v \<Longrightarrow> vc_activity_at_ms d < vc_activity_at_ms c"
    using assms by (auto simp: top_viewport_def dest: map_of_SomeD)
  show "vc_viewer_id c = v" using arbiter_invD(4)[OF t(1,2)] .
  show "latest_focused a = Some c"
    by (rule latest_focused_is[OF t(1-4)]) (simp add: t(5) focus_cmp_def ord_then_iff)
qed

lemma top_target:
  assumes "top_viewport v c a"
  shows "\<not> waiting v now a \<Longrightarrow> target now a = (Some (decision_of c), a\<lparr>sa_driver := Some v\<rparr>)"
    "waiting v now a \<Longrightarrow> \<exists>t. target now a
      = (Some t, defer_until (sa_focus_changed_at_ms a + SIZE_FOCUS_HOLD_MS) a)"
proof -
  have t: "arbiter_inv a" "sa_policy a = FocusFollows" "map_of (sa_claims a) v = Some c"
    using assms by (simp_all add: top_viewport_def)
  have present: "driver_present a \<longleftrightarrow> sa_driver a \<noteq> None"
    using arbiter_invD(10)[OF t(1)] by (auto simp: driver_present_def is_some_and_iff is_some_map_of)
  have same: "sa_driver a = Some v \<Longrightarrow> a\<lparr>sa_driver := Some v\<rparr> = a" by simp
  show "target now a = (Some (decision_of c), a\<lparr>sa_driver := Some v\<rparr>)" if "\<not> waiting v now a"
    using that t top_latest[OF assms] present same
    by (auto simp: target_def focus_follows_def waiting_def not_less Let_def)
  show "\<exists>t. target now a = (Some t, defer_until (sa_focus_changed_at_ms a + SIZE_FOCUS_HOLD_MS) a)"
    if w: "waiting v now a"
  proof -
    obtain d where d: "sa_driver a = Some d" using w by (auto simp: waiting_def)
    then obtain e where "map_of (sa_claims a) d = Some e"
      using arbiter_invD(10)[OF t(1) d] by (metis is_some_iff is_some_map_of not_None_eq)
    with w d t top_latest[OF assms] present show ?thesis
      by (auto simp: target_def focus_follows_def waiting_def defer_until_def Let_def)
  qed
qed

lemma decide_fields:
  "sa_claims (snd (decide now a)) = sa_claims a" "sa_policy (snd (decide now a)) = sa_policy a"
  "sa_focus_changed_at_ms (snd (decide now a)) = sa_focus_changed_at_ms a"
  by (cases now a rule: decide_cases; simp add: target_fields defer_until_def)+

lemma top_decide: "top_viewport v c a \<Longrightarrow> top_viewport v c (snd (decide now a))"
  by (simp add: top_viewport_def decide_fields inv_decide)

lemma top_fresh: "top_viewport v c a \<Longrightarrow> top_viewport v c (a\<lparr>sa_deferred_until_ms := None\<rparr>)"
  by (simp add: top_viewport_def arbiter_inv_def)

lemma abs_diff_self: "abs_diff x x < SIZE_MIN_DELTA"
  by (simp add: abs_diff_def SIZE_MIN_DELTA_def)

text \<open>Deciding once the viewport may drive: settled, or the resize waits for its interval.\<close>

lemma decide_driving:
  assumes "top_viewport v c a" "\<not> waiting v now a"
  shows "settled v c (snd (decide now a)) \<or>
    (sa_driver (snd (decide now a)) = Some v \<and> now - sa_applied_at_ms a < SIZE_RESIZE_MIN_INTERVAL_MS
     \<and> sa_deferred_until_ms (snd (decide now a)) = Some (sa_applied_at_ms a + SIZE_RESIZE_MIN_INTERVAL_MS)
     \<and> sa_applied_at_ms (snd (decide now a)) = sa_applied_at_ms a)"
proof -
  have "\<not> waiting v now (a\<lparr>sa_deferred_until_ms := None\<rparr>)" using assms(2) by (simp add: waiting_def)
  from top_target(1)[OF top_fresh[OF assms(1)] this] show ?thesis
    by (cases now a rule: decide_cases)
      (auto simp: settled_def defer_until_def sub_threshold_def abs_diff_self)
qed

lemma settle_settled: "settled v c a \<Longrightarrow> settle lates a = a"
  by (cases lates) (simp_all add: settled_def)

lemma settle_driving:
  assumes "top_viewport v c a" "\<not> waiting v now a"
  shows "settled v c (settle (late # lates) (snd (decide now a)))"
proof -
  let ?a = "snd (decide now a)"
  consider "settled v c ?a" | (later) "sa_driver ?a = Some v"
    "sa_deferred_until_ms ?a = Some (sa_applied_at_ms ?a + SIZE_RESIZE_MIN_INTERVAL_MS)"
    using decide_driving[OF assms] by auto
  then show ?thesis
  proof cases
    case 1
    then show ?thesis by (simp only: settle_settled)
  next
    case later
    let ?t = "sa_applied_at_ms ?a + SIZE_RESIZE_MIN_INTERVAL_MS + late"
    have "settled v c (snd (decide ?t ?a))"
      using decide_driving[OF top_decide[OF assms(1), of now], of ?t] later(1)
      by (auto simp: waiting_def)
    then show ?thesis using later(2) by (simp add: settle_settled)
  qed
qed

text \<open>Deciding inside the hold: the next call comes at its end or, before it, at the end of the
  resize interval of the old driver.\<close>

lemma decide_waiting:
  assumes "top_viewport v c a" "waiting v now a"
  shows "let a' = snd (decide now a); hold = sa_focus_changed_at_ms a + SIZE_FOCUS_HOLD_MS in
    sa_deferred_until_ms a' = Some hold \<or>
    (now - sa_applied_at_ms a < SIZE_RESIZE_MIN_INTERVAL_MS
     \<and> sa_applied_at_ms a' = sa_applied_at_ms a
     \<and> sa_deferred_until_ms a' = Some (sa_applied_at_ms a + SIZE_RESIZE_MIN_INTERVAL_MS))"
proof -
  have "waiting v now (a\<lparr>sa_deferred_until_ms := None\<rparr>)" using assms(2) by (simp add: waiting_def)
  from top_target(2)[OF top_fresh[OF assms(1)] this] show ?thesis
    by (cases now a rule: decide_cases) (auto simp: defer_until_def Let_def min_def)
qed

lemma settle_hold:
  assumes "top_viewport v c a" "sa_deferred_until_ms a = Some (sa_focus_changed_at_ms a + SIZE_FOCUS_HOLD_MS)"
  shows "settled v c (settle (x # y # lates) a)"
proof -
  have "\<not> waiting v (sa_focus_changed_at_ms a + SIZE_FOCUS_HOLD_MS + x) a" by (simp add: waiting_def)
  from settle_driving[OF assms(1) this, of y lates] assms(2) show ?thesis by simp
qed

lemma settle_three:
  assumes "top_viewport v c a"
  shows "settled v c (settle [x, y, z] (snd (decide now a)))"
proof (cases "waiting v now a")
  case False
  then show ?thesis by (rule settle_driving[OF assms])
next
  case True
  let ?a = "snd (decide now a)" let ?t = "sa_applied_at_ms ?a + SIZE_RESIZE_MIN_INTERVAL_MS"
  note top = top_decide[OF assms, of now]
  consider (hold) "sa_deferred_until_ms ?a = Some (sa_focus_changed_at_ms ?a + SIZE_FOCUS_HOLD_MS)"
    | (rate) "sa_deferred_until_ms ?a = Some ?t"
    using decide_waiting[OF assms True] by (auto simp: Let_def decide_fields)
  then show ?thesis
  proof cases
    case hold
    then show ?thesis by (rule settle_hold[OF top])
  next
    case rate
    have "settled v c (settle [y, z] (snd (decide (?t + x) ?a)))"
    proof (cases "waiting v (?t + x) ?a")
      case True
      then show ?thesis
        using settle_hold[OF top_decide[OF top], of "?t + x" y z "[]"] decide_waiting[OF top True]
        by (auto simp: Let_def decide_fields)
    qed (rule settle_driving[OF top])
    with rate show ?thesis by simp
  qed
qed

lemma interaction_tops:
  assumes "arbiter_inv a" "sa_policy a = FocusFollows" "vc_interacting c" "vc_focus c" "vc_visible c"
    "\<forall>(w, d) \<in> set (sa_claims a). w \<noteq> vc_viewer_id c \<longrightarrow> vc_activity_at_ms d < t"
  shows "top_viewport (vc_viewer_id c) (c\<lparr>vc_activity_at_ms := t\<rparr>) (upsert c t a)"
  using assms inv_upsert[OF assms(1)] arbiter_invD(1)[OF assms(1)]
  by (auto simp: top_viewport_def upsert_fields claim_activity_def AList.update_conv' set_update_alist)

text \<open>C33. A viewport a human interacts with gets the PTY: after its claim, a decision at any time
  and at most three of the follow-up decisions the arbiter asks for, no follow-up is pending, the
  viewport drives, and the applied size is its size up to one row and one column; however late
  the follow-ups run.\<close>

theorem interaction_takes_over:
  assumes "arbiter_inv a" "sa_policy a = FocusFollows" "vc_interacting c" "vc_focus c" "vc_visible c"
    "\<forall>(w, d) \<in> set (sa_claims a). w \<noteq> vc_viewer_id c \<longrightarrow> vc_activity_at_ms d < t"
  shows "let s = settle [x, y, z] (snd (decide now (upsert c t a))) in
    sa_deferred_until_ms s = None \<and> sa_driver s = Some (vc_viewer_id c)
    \<and> sub_threshold (sa_applied s) (decision_of c)"
  using settle_three[OF interaction_tops[OF assms], of x y z now] by (simp add: settled_def decision_of_def Let_def)

theorem interaction_takes_over_witness:
  "sa_driver (settle [0, 7, 3] (snd (decide 1001 (upsert (demo_view ''phone'' 40 True) 1001 demo_desk)))) = Some ''phone''"
proof -
  have "\<forall>(w, d) \<in> set (sa_claims demo_desk). w \<noteq> vc_viewer_id (demo_view ''phone'' 40 True) \<longrightarrow>
      vc_activity_at_ms d < 1001" "sa_policy demo_desk = FocusFollows" by code_simp+
  then show ?thesis
    using interaction_takes_over[of demo_desk "demo_view ''phone'' 40 True" 1001 0 7 3 1001]
      inv_run_ops[OF inv_new] by (simp add: demo_desk_def demo_view_def Let_def)
qed

subsection \<open>The order of the maps\<close>

text \<open>The same arbiter with its maps enumerated in another order.\<close>

definition reordered :: "size_arbiter \<Rightarrow> size_arbiter \<Rightarrow> bool" where
  "reordered a b =
     (\<exists>cs ss. mset cs = mset (sa_claims a) \<and> mset ss = mset (sa_seen a)
        \<and> b = a\<lparr>sa_claims := cs, sa_seen := ss\<rparr>)"

lemma reordered_iff:
  "reordered a b \<longleftrightarrow>
     (mset (sa_claims b) = mset (sa_claims a) \<and> mset (sa_seen b) = mset (sa_seen a)
      \<and> sa_policy b = sa_policy a \<and> sa_next_seq b = sa_next_seq a \<and> sa_departed b = sa_departed a
      \<and> sa_applied b = sa_applied a \<and> sa_applied_by b = sa_applied_by a
      \<and> sa_applied_at_ms b = sa_applied_at_ms a \<and> sa_driver b = sa_driver a
      \<and> sa_focus_changed_at_ms b = sa_focus_changed_at_ms a
      \<and> sa_deferred_until_ms b = sa_deferred_until_ms a
      \<and> sa_announced_answerer b = sa_announced_answerer a)"
proof
  show "reordered a b \<Longrightarrow> mset (sa_claims b) = mset (sa_claims a) \<and> mset (sa_seen b) = mset (sa_seen a)
      \<and> sa_policy b = sa_policy a \<and> sa_next_seq b = sa_next_seq a \<and> sa_departed b = sa_departed a
      \<and> sa_applied b = sa_applied a \<and> sa_applied_by b = sa_applied_by a
      \<and> sa_applied_at_ms b = sa_applied_at_ms a \<and> sa_driver b = sa_driver a
      \<and> sa_focus_changed_at_ms b = sa_focus_changed_at_ms a
      \<and> sa_deferred_until_ms b = sa_deferred_until_ms a
      \<and> sa_announced_answerer b = sa_announced_answerer a" by (auto simp: reordered_def)
qed (auto simp: reordered_def intro!: exI[of _ "sa_claims b"] exI[of _ "sa_seen b"] size_arbiter.equality)

lemma map_of_mset_eq:
  assumes "distinct (map fst xs)" "mset ys = mset xs"
  shows "map_of ys = map_of xs"
proof -
  have "mset (map fst ys) = mset (map fst xs)" using assms(2) by simp
  then have "distinct (map fst ys)" using assms(1) mset_eq_imp_distinct_iff by blast
  then show ?thesis using assms map_of_inject_set[of ys xs] mset_eq_setD by blast
qed

lemma reorderedE:
  assumes "reordered a b" "arbiter_inv a"
  obtains cs ss where "b = a\<lparr>sa_claims := cs, sa_seen := ss\<rparr>" "set cs = set (sa_claims a)"
    "map_of cs = map_of (sa_claims a)" "map_of ss = map_of (sa_seen a)"
    "mset cs = mset (sa_claims a)" "mset ss = mset (sa_seen a)"
  using assms map_of_mset_eq[OF arbiter_invD(1)[OF assms(2)]] map_of_mset_eq[OF arbiter_invD(2)[OF assms(2)]]
  unfolding reordered_def by (metis mset_eq_setD)

lemma reordered_latest:
  assumes "reordered a b" "arbiter_inv a"
  shows "latest_focused b = latest_focused a"
proof -
  obtain cs ss where b: "b = a\<lparr>sa_claims := cs, sa_seen := ss\<rparr>" "set cs = set (sa_claims a)"
    "map_of ss = map_of (sa_seen a)" by (rule reorderedE[OF assms])
  have "attach_seq b = attach_seq a" using b by (simp add: attach_seq_def fun_eq_iff)
  with b have cmp: "focus_cmp b = focus_cmp a" by (simp add: focus_cmp_def fun_eq_iff)
  let ?f = "filter (\<lambda>c. vc_focus c \<and> vc_visible c) \<circ> map snd"
  have "max_by (focus_cmp a) (?f (sa_claims a)) = max_by (focus_cmp a) (?f cs)"
  proof (rule foc.max_by_same_set)
    show "set (?f (sa_claims a)) = set (?f cs)" using b(2) by auto
    fix c d
    assume "c \<in> set (?f (sa_claims a))" "d \<in> set (?f (sa_claims a))" and eq: "focus_cmp a c d = Equal"
    then obtain v w where "(v, c) \<in> set (sa_claims a)" "(w, d) \<in> set (sa_claims a)" by auto
    moreover have "attach_seq a c = attach_seq a d" using eq by (simp add: focus_cmp_def ord_then_iff)
    ultimately show "c = d" by (rule attach_seq_inj[OF assms(2)])
  qed simp
  with cmp b(1) show ?thesis by (simp add: latest_focused_def)
qed

lemma reordered_answerer:
  assumes "reordered a b" "arbiter_inv a"
  shows "answerer b = answerer a"
proof -
  obtain cs ss where b: "b = a\<lparr>sa_claims := cs, sa_seen := ss\<rparr>" "set cs = set (sa_claims a)"
    "map_of cs = map_of (sa_claims a)" "map_of ss = map_of (sa_seen a)" by (rule reorderedE[OF assms])
  have cmp: "seq_cmp b = seq_cmp a" using b by (simp add: seq_cmp_def attach_seq_def fun_eq_iff)
  let ?f = "filter vc_answers_queries \<circ> map snd"
  have "min_by (seq_cmp a) (?f (sa_claims a)) = min_by (seq_cmp a) (?f cs)"
  proof (rule att.min_by_same_set)
    show "set (?f (sa_claims a)) = set (?f cs)" using b(2) by auto
    fix c d
    assume "c \<in> set (?f (sa_claims a))" "d \<in> set (?f (sa_claims a))" and eq: "seq_cmp a c d = Equal"
    then obtain v w where "(v, c) \<in> set (sa_claims a)" "(w, d) \<in> set (sa_claims a)" by auto
    moreover have "attach_seq a c = attach_seq a d" using eq by (simp add: seq_cmp_def)
    ultimately show "c = d" by (rule attach_seq_inj[OF assms(2)])
  qed simp
  with cmp b(1,3) show ?thesis by (simp add: answerer_def split: option.split)
qed

lemma reordered_target:
  assumes "reordered a b" "arbiter_inv a" "sa_policy a \<notin> {Smallest, LargestVisible}"
  shows "fst (target now b) = fst (target now a) \<and> reordered (snd (target now a)) (snd (target now b))"
proof -
  obtain cs ss where b: "b = a\<lparr>sa_claims := cs, sa_seen := ss\<rparr>" "map_of cs = map_of (sa_claims a)"
    "mset cs = mset (sa_claims a)" "mset ss = mset (sa_seen a)" by (rule reorderedE[OF assms(1,2)])
  have "driver_present b = driver_present a" using b(1,2) by (simp add: driver_present_def)
  with b(1,2) assms(3) reordered_latest[OF assms(1,2)]
  have "target now b = (fst (target now a), (snd (target now a))\<lparr>sa_claims := cs, sa_seen := ss\<rparr>)"
    by (auto simp: target_def focus_follows_def defer_until_def Let_def split: size_policy.split option.split)
  then show ?thesis using b(3,4) by (auto simp: reordered_def target_fields)
qed

lemma reordered_decide:
  assumes "reordered a b" "arbiter_inv a" "sa_policy a \<notin> {Smallest, LargestVisible}"
  shows "fst (decide now b) = fst (decide now a) \<and> reordered (snd (decide now a)) (snd (decide now b))"
proof -
  let ?a = "a\<lparr>sa_deferred_until_ms := None\<rparr>" and ?b = "b\<lparr>sa_deferred_until_ms := None\<rparr>"
  have inv: "arbiter_inv ?a" using assms(2) by (simp add: arbiter_inv_def)
  have "reordered ?a ?b" using assms(1) by (simp add: reordered_iff)
  from reordered_target[OF this inv, of now] assms(3)
  obtain t a1 b1 where t: "target now ?a = (t, a1)" "target now ?b = (t, b1)" and r: "reordered a1 b1"
    by (cases "target now ?a"; cases "target now ?b") auto
  have i1: "arbiter_inv a1" using inv_target[OF inv, of now] t(1) by simp
  have f: "sa_applied b1 = sa_applied a1" "sa_applied_at_ms b1 = sa_applied_at_ms a1"
    using r by (simp_all add: reordered_iff)
  have fin: "answerer (b1\<lparr>sa_applied := x, sa_applied_by := dc_driven_by d, sa_applied_at_ms := now\<rparr>)
      = answerer (a1\<lparr>sa_applied := x, sa_applied_by := dc_driven_by d, sa_applied_at_ms := now\<rparr>)"
    if "t = Some d" for x d
  proof (rule reordered_answerer)
    show "reordered (a1\<lparr>sa_applied := x, sa_applied_by := dc_driven_by d, sa_applied_at_ms := now\<rparr>)
        (b1\<lparr>sa_applied := x, sa_applied_by := dc_driven_by d, sa_applied_at_ms := now\<rparr>)"
      using r by (simp add: reordered_iff)
    show "arbiter_inv (a1\<lparr>sa_applied := x, sa_applied_by := dc_driven_by d, sa_applied_at_ms := now\<rparr>)"
      using i1 target_live(2)[OF inv, of now d] target_fields(1)[of now ?a] t(1) that
      by (simp add: arbiter_inv_def)
  qed
  show ?thesis
    using t f fin r by (cases t) (simp_all add: decide_def defer_until_def Let_def reordered_iff)
qed

text \<open>Under the focus-follows and pinned policies neither the chosen size nor the answerer
  depends on the order in which the maps are enumerated: reordering them changes no decision.\<close>

theorem decision_ignores_map_order:
  assumes "arbiter_inv a" "sa_policy a \<notin> {Smallest, LargestVisible}"
    "mset cs = mset (sa_claims a)" "mset ss = mset (sa_seen a)"
  shows "fst (decide now (a\<lparr>sa_claims := cs, sa_seen := ss\<rparr>)) = fst (decide now a)
    \<and> answerer (a\<lparr>sa_claims := cs, sa_seen := ss\<rparr>) = answerer a"
proof -
  have "reordered a (a\<lparr>sa_claims := cs, sa_seen := ss\<rparr>)" using assms(3,4) unfolding reordered_def by blast
  with reordered_decide[OF _ assms(1,2)] reordered_answerer[OF _ assms(1)] show ?thesis by blast
qed

theorem decision_ignores_map_order_witness:
  "answerer (demo_desk\<lparr>sa_claims := rev (sa_claims demo_desk), sa_seen := rev (sa_seen demo_desk)\<rparr>)
     = answerer demo_desk"
proof -
  have "sa_policy demo_desk = FocusFollows" by code_simp
  then show ?thesis
    using decision_ignores_map_order[of demo_desk "rev (sa_claims demo_desk)" "rev (sa_seen demo_desk)" 0]
      inv_run_ops[OF inv_new] by (simp add: demo_desk_def)
qed

subsection \<open>The terminal's size frames\<close>

text \<open>
  The sizing half of \<open>Terminal\<close> (\<open>terminal.rs\<close>): the arbiter, the size frames broadcast to the
  viewers, in order, and the size last given to the PTY.
\<close>

datatype decided = Resize decision | Notice decision | Nothing

record term_sizing =
  tz_sizer :: size_arbiter
  tz_frames :: "decision list"
  tz_pty :: "16 word \<times> 16 word"

definition spawn_sizing :: "16 word \<Rightarrow> 16 word \<Rightarrow> term_sizing" where
  "spawn_sizing cols rows =
     \<lparr>tz_sizer = set_applied cols rows (arbiter_new FocusFollows), tz_frames = [], tz_pty = (cols, rows)\<rparr>"

definition decide_or_notice :: "nat \<Rightarrow> size_arbiter \<Rightarrow> decided \<times> size_arbiter" where
  "decide_or_notice now s =
     (case decide now s of
        (Some d, s') \<Rightarrow> (Resize d, s')
      | (None, s') \<Rightarrow>
          (case answerer_notice s' of (Some d, s'') \<Rightarrow> (Notice d, s'') | (None, s'') \<Rightarrow> (Nothing, s'')))"

text \<open>Announce, then resize.\<close>

definition apply_size :: "decided \<times> size_arbiter \<Rightarrow> term_sizing \<Rightarrow> decision option \<times> term_sizing" where
  "apply_size ds z =
     (let z' = z\<lparr>tz_sizer := snd ds\<rparr> in
      case fst ds of
        Resize d \<Rightarrow> (Some d, z'\<lparr>tz_frames := tz_frames z @ [d], tz_pty := (dc_cols d, dc_rows d)\<rparr>)
      | Notice d \<Rightarrow> (None, z'\<lparr>tz_frames := tz_frames z @ [d]\<rparr>)
      | Nothing \<Rightarrow> (None, z'))"

definition claim_size :: "viewport_claim \<Rightarrow> nat \<Rightarrow> term_sizing \<Rightarrow> decision option \<times> term_sizing" where
  "claim_size c now z = apply_size (decide_or_notice now (upsert c now (tz_sizer z))) z"

definition drop_viewer :: "string \<Rightarrow> nat \<Rightarrow> term_sizing \<Rightarrow> decision option \<times> term_sizing" where
  "drop_viewer v now z = apply_size (decide_or_notice now (remove v (tz_sizer z))) z"

definition set_size_policy :: "size_policy \<Rightarrow> term_sizing \<Rightarrow> term_sizing" where
  "set_size_policy p z = z\<lparr>tz_sizer := set_policy p (tz_sizer z)\<rparr>"

text \<open>One pass of the follow-up loop at a time.\<close>

definition trailing_decide :: "nat \<Rightarrow> term_sizing \<Rightarrow> term_sizing" where
  "trailing_decide now z =
     (case decide now (tz_sizer z) of
        (None, s) \<Rightarrow> z\<lparr>tz_sizer := s\<rparr>
      | (Some d, s) \<Rightarrow> z\<lparr>tz_sizer := s, tz_frames := tz_frames z @ [d], tz_pty := (dc_cols d, dc_rows d)\<rparr>)"

datatype sizing_op = ClaimSize viewport_claim nat | DropViewer string nat | SizePolicy size_policy | Trailing nat

fun sizing_step :: "sizing_op \<Rightarrow> term_sizing \<Rightarrow> term_sizing" where
  "sizing_step (ClaimSize c now) z = snd (claim_size c now z)"
| "sizing_step (DropViewer v now) z = snd (drop_viewer v now z)"
| "sizing_step (SizePolicy p) z = set_size_policy p z"
| "sizing_step (Trailing now) z = trailing_decide now z"

definition frames_current :: "term_sizing \<Rightarrow> bool" where
  "frames_current z =
     (sa_applied (tz_sizer z) = Some (tz_pty z) \<and> sa_announced_answerer (tz_sizer z) = answerer (tz_sizer z)
      \<and> (if tz_frames z = [] then answerer (tz_sizer z) = None
         else (dc_cols (last (tz_frames z)), dc_rows (last (tz_frames z))) = tz_pty z
           \<and> dc_answered_by (last (tz_frames z)) = answerer (tz_sizer z)))"

lemma answerer_cong:
  "sa_claims b = sa_claims a \<Longrightarrow> sa_seen b = sa_seen a \<Longrightarrow> sa_applied_by b = sa_applied_by a \<Longrightarrow>
     answerer b = answerer a"
  by (simp add: answerer_def seq_cmp_def[abs_def] attach_seq_def split: option.split)

lemma decide_none:
  assumes "decide now a = (None, a')"
  shows "answerer a' = answerer a" "sa_applied a' = sa_applied a"
    "sa_announced_answerer a' = sa_announced_answerer a"
proof -
  have "sa_announced_answerer (snd (target now b)) = sa_announced_answerer b" for b
    by (simp add: target_def focus_follows_def defer_until_def Let_def split: size_policy.split option.split)
  with assms show "sa_announced_answerer a' = sa_announced_answerer a"
    by (cases now a rule: decide_cases) (auto simp: defer_until_def)
  show "sa_applied a' = sa_applied a"
    using assms by (cases now a rule: decide_cases) (auto simp: defer_until_def target_fields)
  show "answerer a' = answerer a"
    using assms by (cases now a rule: decide_cases; intro answerer_cong) (auto simp: defer_until_def target_fields)
qed

lemma decide_some:
  assumes "decide now a = (Some d, a')"
  shows "sa_applied a' = Some (dc_cols d, dc_rows d)" "sa_announced_answerer a' = answerer a'"
    "dc_answered_by d = answerer a'"
proof -
  have "answerer (b\<lparr>sa_announced_answerer := x\<rparr>) = answerer b" for b x by (rule answerer_cong) simp_all
  with assms show "sa_applied a' = Some (dc_cols d, dc_rows d)" "sa_announced_answerer a' = answerer a'"
    "dc_answered_by d = answerer a'"
    by (cases now a rule: decide_cases; auto)+
qed

lemma notice_announces:
  assumes "sa_applied a = Some (cols, rows)"
  shows "answerer_notice a =
     (if answerer a = sa_announced_answerer a then (None, a)
      else (Some \<lparr>dc_cols = cols, dc_rows = rows, dc_driven_by = sa_applied_by a, dc_answered_by = answerer a\<rparr>,
            a\<lparr>sa_announced_answerer := answerer a\<rparr>))"
  using assms by (simp add: answerer_notice_def applied_def)

lemma frames_decide_or_notice:
  assumes "frames_current z" "sa_applied a = sa_applied (tz_sizer z)"
    "sa_announced_answerer a = sa_announced_answerer (tz_sizer z)"
  shows "frames_current (snd (apply_size (decide_or_notice now a) z))"
proof (cases "decide now a")
  case (Pair d a')
  show ?thesis
  proof (cases d)
    case (Some x)
    with Pair decide_some[of now a x a'] show ?thesis
      by (simp add: frames_current_def decide_or_notice_def apply_size_def)
  next
    case None
    obtain cols rows where pty: "tz_pty z = (cols, rows)" by (cases "tz_pty z")
    have ann: "answerer (a'\<lparr>sa_announced_answerer := x\<rparr>) = answerer a'" for x by (rule answerer_cong) simp_all
    note n = decide_none[of now a a']
    have ap: "sa_applied a' = Some (cols, rows)"
      using assms n None Pair pty by (simp add: frames_current_def)
    have d: "decide_or_notice now a = (case answerer_notice a' of (Some d, s'') \<Rightarrow> (Notice d, s'')
        | (None, s'') \<Rightarrow> (Nothing, s''))" using Pair None by (simp add: decide_or_notice_def)
    show ?thesis
    proof (cases "answerer a' = sa_announced_answerer a'")
      case True
      with d n ap assms None Pair pty show ?thesis
        by (simp add: notice_announces[OF ap] frames_current_def apply_size_def Let_def)
    next
      case False
      with d ap pty show ?thesis
        by (simp add: notice_announces[OF ap] frames_current_def apply_size_def Let_def ann)
    qed
  qed
qed

lemma frames_step: "frames_current z \<Longrightarrow> frames_current (sizing_step op z)"
proof (induction op z rule: sizing_step.induct)
  case (1 c now z)
  have "sa_announced_answerer (upsert c now a) = sa_announced_answerer a" for a
    by (simp add: upsert_def Let_def split: option.split)
  with 1 show ?case by (simp add: claim_size_def frames_decide_or_notice upsert_fields)
next
  case (2 v now z)
  have "sa_announced_answerer (remove v a) = sa_announced_answerer a" for a
    by (simp add: remove_def remember_departed_def Let_def split: option.split)
  with 2 show ?case by (simp add: drop_viewer_def frames_decide_or_notice remove_fields)
next
  case (3 p z)
  then show ?case
    using answerer_cong[of "set_policy p (tz_sizer z)" "tz_sizer z"]
    by (simp add: frames_current_def set_size_policy_def set_policy_def)
next
  case (4 now z)
  then show ?case
    using decide_none[of now "tz_sizer z"] decide_some[of now "tz_sizer z"]
    by (cases "decide now (tz_sizer z)") (auto simp: frames_current_def trailing_decide_def split: option.split if_splits)
qed

text \<open>Every viewer knows the PTY's size and who answers the program's queries: after any
  claims, disconnects, policy changes and follow-up decisions the size on the PTY is the applied
  size, and the last size frame names it and the current answerer (no frame has been sent only
  while no viewport can answer and the size is the one the terminal started with).\<close>

theorem size_frames_current:
  "frames_current (fold sizing_step ops (spawn_sizing cols rows))"
proof -
  have "frames_current z \<Longrightarrow> frames_current (fold sizing_step ops z)" for z
    by (induction ops arbitrary: z) (simp_all add: frames_step)
  moreover have "frames_current (spawn_sizing cols rows)"
    by (simp add: frames_current_def spawn_sizing_def set_applied_def arbiter_new_def answerer_def)
  ultimately show ?thesis by blast
qed

end
