(* ===== verification/Input_Queue.thy ===== *)
theory Input_Queue
  imports Hotsheet_Prelude
begin

text \<open>
  The ordered PTY input queue of \<open>hotsheet-terminals/src/input_queue.rs\<close>: callers push chunks
  into a bounded queue, one writer thread takes them to the PTY in order and answers each
  chunk's acknowledgement, and dropping the queue discards what is unwritten.  The mutex makes
  the pushes, the drop and the two halves of a writer turn (taking a chunk, accounting for its
  write) atomic, so a run is a sequence of such events in any order.  The PTY is outside: each
  write has an arbitrary outcome.
\<close>

subsection \<open>Data\<close>

definition INPUT_BUDGET_BYTES :: nat where "INPUT_BUDGET_BYTES = 1024 * 1024"

text \<open>How a chunk reports its result: fire and forget, or a channel identified by a number.\<close>

datatype ack = AckNone | AckAsync nat | AckSync nat

record chunk =
  ck_bytes :: string
  ck_ack :: ack

text \<open>What \<open>write_all\<close> and \<open>flush\<close> did: everything, or an error after some bytes.\<close>

datatype write_result = Wrote | WriteFailed nat

text \<open>The result an acknowledgement receives.\<close>

datatype ack_result = Answered write_result | InputClosed

text \<open>The locked state of the queue, the writer thread's chunk in hand and whether it returned,
  the bytes the PTY took, and the results sent so far.\<close>

record input_queue =
  iq_chunks :: "chunk list"
  iq_queued_bytes :: nat
  iq_closed :: bool
  iq_writing :: "chunk option"
  iq_exited :: bool
  iq_pty :: string
  iq_results :: "(chunk \<times> ack_result) list"

definition spawn :: input_queue where
  "spawn = \<lparr>iq_chunks = [], iq_queued_bytes = 0, iq_closed = False, iq_writing = None,
     iq_exited = False, iq_pty = [], iq_results = []\<rparr>"

subsection \<open>Operations\<close>

definition has_room :: "input_queue \<Rightarrow> nat \<Rightarrow> bool" where
  "has_room q len = (iq_queued_bytes q = 0 \<or> iq_queued_bytes q + len \<le> INPUT_BUDGET_BYTES)"

definition enqueue :: "chunk \<Rightarrow> input_queue \<Rightarrow> input_queue" where
  "enqueue c q = q\<lparr>iq_queued_bytes := iq_queued_bytes q + length (ck_bytes c),
                   iq_chunks := iq_chunks q @ [c]\<rparr>"

text \<open>One pass of the loop of \<open>push_async\<close> and \<open>write\<close> under the lock: refuse, accept or wait.\<close>

datatype push_outcome = PushClosed | PushAccepted | PushWaits

definition push_pass :: "chunk \<Rightarrow> input_queue \<Rightarrow> push_outcome \<times> input_queue" where
  "push_pass c q =
     (if iq_closed q then (PushClosed, q)
      else if has_room q (length (ck_bytes c)) then (PushAccepted, enqueue c q)
      else (PushWaits, q))"

definition drop_queue :: "input_queue \<Rightarrow> input_queue" where
  "drop_queue q =
     q\<lparr>iq_closed := True, iq_chunks := [],
       iq_queued_bytes := iq_queued_bytes q - sum_list (map (length \<circ> ck_bytes) (iq_chunks q)),
       iq_results := iq_results q @ map (\<lambda>c. (c, InputClosed)) (iq_chunks q)\<rparr>"

fun taken_by_pty :: "chunk \<Rightarrow> write_result \<Rightarrow> string" where
  "taken_by_pty c Wrote = ck_bytes c"
| "taken_by_pty c (WriteFailed n) = take n (ck_bytes c)"

text \<open>A turn of \<open>run_writer\<close>: take the next chunk, or account for the write of the one in hand.\<close>

definition writer_turn :: "write_result \<Rightarrow> input_queue \<Rightarrow> input_queue" where
  "writer_turn r q =
     (if iq_exited q then q
      else case iq_writing q of
          Some c \<Rightarrow>
            q\<lparr>iq_writing := None, iq_queued_bytes := iq_queued_bytes q - length (ck_bytes c),
              iq_pty := iq_pty q @ taken_by_pty c r, iq_results := iq_results q @ [(c, Answered r)]\<rparr>
        | None \<Rightarrow>
            (case iq_chunks q of
               c # cs \<Rightarrow> q\<lparr>iq_chunks := cs, iq_writing := Some c\<rparr>
             | [] \<Rightarrow> if iq_closed q then q\<lparr>iq_exited := True\<rparr> else q))"

subsection \<open>Runs\<close>

datatype queue_event = Push chunk | WriterTurn write_result | DropQueue

fun queue_step :: "queue_event \<Rightarrow> input_queue \<times> chunk list \<Rightarrow> input_queue \<times> chunk list" where
  "queue_step (Push c) (q, accepted) =
     (case push_pass c q of (PushAccepted, q') \<Rightarrow> (q', accepted @ [c]) | (_, q') \<Rightarrow> (q', accepted))"
| "queue_step (WriterTurn r) (q, accepted) = (writer_turn r q, accepted)"
| "queue_step DropQueue (q, accepted) = (drop_queue q, accepted)"

text \<open>The queue after a run from its start, and the chunks it accepted, in order.\<close>

definition queue_run :: "queue_event list \<Rightarrow> input_queue \<times> chunk list" where
  "queue_run es = fold queue_step es (spawn, [])"

definition in_hand :: "input_queue \<Rightarrow> chunk list" where
  "in_hand q = (case iq_writing q of None \<Rightarrow> [] | Some c \<Rightarrow> [c])"

definition unwritten :: "input_queue \<Rightarrow> chunk list" where
  "unwritten q = in_hand q @ iq_chunks q"

definition answered :: "input_queue \<Rightarrow> (chunk \<times> write_result) list" where
  "answered q = List.map_filter (\<lambda>(c, r). case r of Answered w \<Rightarrow> Some (c, w) | InputClosed \<Rightarrow> None) (iq_results q)"

definition discarded :: "input_queue \<Rightarrow> chunk list" where
  "discarded q = List.map_filter (\<lambda>(c, r). case r of Answered w \<Rightarrow> None | InputClosed \<Rightarrow> Some c) (iq_results q)"

definition total_bytes :: "chunk list \<Rightarrow> nat" where
  "total_bytes cs = sum_list (map (length \<circ> ck_bytes) cs)"

definition within_budget :: "nat \<Rightarrow> chunk list \<Rightarrow> bool" where
  "within_budget n cs = (n \<le> INPUT_BUDGET_BYTES \<or> (\<exists>c \<in> set cs. n = length (ck_bytes c)))"

definition queue_inv :: "input_queue \<times> chunk list \<Rightarrow> bool" where
  "queue_inv qa =
     (let (q, accepted) = qa in
      accepted = map fst (answered q) @ unwritten q @ discarded q
      \<and> iq_pty q = concat (map (\<lambda>(c, r). taken_by_pty c r) (answered q))
      \<and> iq_queued_bytes q = total_bytes (unwritten q)
      \<and> within_budget (iq_queued_bytes q) (unwritten q)
      \<and> (\<not> iq_closed q \<longrightarrow> discarded q = []) \<and> (iq_closed q \<longrightarrow> iq_chunks q = [])
      \<and> (iq_exited q \<longrightarrow> iq_closed q \<and> iq_writing q = None))"

lemma queue_invD:
  assumes "queue_inv (q, accepted)"
  shows "accepted = map fst (answered q) @ unwritten q @ discarded q"
    "iq_pty q = concat (map (\<lambda>(c, r). taken_by_pty c r) (answered q))"
    "iq_queued_bytes q = total_bytes (unwritten q)" "within_budget (total_bytes (unwritten q)) (unwritten q)"
    "\<not> iq_closed q \<Longrightarrow> discarded q = []" "iq_closed q \<Longrightarrow> iq_chunks q = []"
    "iq_exited q \<Longrightarrow> iq_closed q" "iq_exited q \<Longrightarrow> iq_writing q = None"
  using assms by (auto simp: queue_inv_def)

lemma map_filter_append: "List.map_filter f (xs @ ys) = List.map_filter f xs @ List.map_filter f ys"
  by (simp add: List.map_filter_def)

lemma map_filter_discarded [simp]:
  "List.map_filter (\<lambda>(c, r). case r of Answered w \<Rightarrow> Some (c, w) | InputClosed \<Rightarrow> None)
     (map (\<lambda>c. (c, InputClosed)) cs) = []"
  "List.map_filter (\<lambda>(c, r). case r of Answered w \<Rightarrow> None | InputClosed \<Rightarrow> Some c)
     (map (\<lambda>c. (c, InputClosed)) cs) = cs"
  by (induction cs) (simp_all add: List.map_filter_simps)

lemmas queue_logs = answered_def discarded_def map_filter_append List.map_filter_simps

lemma inv_spawn: "queue_inv (spawn, [])"
  by (simp add: within_budget_def queue_inv_def spawn_def queue_logs unwritten_def in_hand_def total_bytes_def)

lemma total_bytes_simps [simp]:
  "total_bytes [] = 0" "total_bytes (c # cs) = length (ck_bytes c) + total_bytes cs"
  "total_bytes (cs @ ds) = total_bytes cs + total_bytes ds"
  by (simp_all add: total_bytes_def)

lemma total_bytes_member: "c \<in> set cs \<Longrightarrow> length (ck_bytes c) \<le> total_bytes cs"
  by (induction cs) auto

text \<open>Finishing the chunk in hand keeps the budget.\<close>

lemma budget_tail:
  assumes "len = length (ck_bytes c) + total_bytes cs" "within_budget len (c # cs)"
  shows "within_budget (total_bytes cs) cs"
  using assms total_bytes_member[of _ cs] unfolding within_budget_def by fastforce

lemma budget_one: "within_budget (total_bytes (in_hand q)) (in_hand q)"
  by (simp add: within_budget_def in_hand_def split: option.split)

lemma budget_push:
  "within_budget n cs \<Longrightarrow> n = 0 \<or> n + length (ck_bytes c) \<le> INPUT_BUDGET_BYTES \<Longrightarrow>
     within_budget (n + length (ck_bytes c)) (cs @ [c])"
  by (auto simp: within_budget_def)

lemma inv_push:
  assumes "queue_inv (q, accepted)"
  shows "queue_inv (queue_step (Push c) (q, accepted))"
proof (cases "push_pass c q")
  case (Pair o' q')
  show ?thesis
  proof (cases "o' = PushAccepted")
    case True
    then have q': "q' = enqueue c q" "\<not> iq_closed q" "has_room q (length (ck_bytes c))"
      using Pair by (auto simp: push_pass_def split: if_splits)
    have "unwritten (enqueue c q) = unwritten q @ [c]" "answered (enqueue c q) = answered q"
      "discarded (enqueue c q) = discarded q"
      by (simp_all add: enqueue_def unwritten_def in_hand_def queue_logs)
    moreover have "\<not> iq_exited q" using assms q'(2) by (auto simp: queue_inv_def)
    moreover have "iq_queued_bytes q = 0 \<or> iq_queued_bytes q + length (ck_bytes c) \<le> INPUT_BUDGET_BYTES"
      using q'(3) by (simp add: has_room_def)
    ultimately show ?thesis
      using True Pair q'(1,2) queue_invD[OF assms] budget_push[of "iq_queued_bytes q" "unwritten q" c]
      by (simp add: queue_inv_def) (simp add: enqueue_def)
  next
    case False
    then have "q' = q" using Pair by (auto simp: push_pass_def split: if_splits)
    with False Pair assms show ?thesis by (cases o') auto
  qed
qed

lemma inv_drop:
  assumes "queue_inv (q, accepted)"
  shows "queue_inv (queue_step DropQueue (q, accepted))"
proof -
  have d: "answered (drop_queue q) = answered q" "discarded (drop_queue q) = discarded q @ iq_chunks q"
    "unwritten (drop_queue q) = in_hand q" "iq_pty (drop_queue q) = iq_pty q"
    "iq_queued_bytes (drop_queue q) = iq_queued_bytes q - total_bytes (iq_chunks q)"
    "iq_closed (drop_queue q)" "iq_chunks (drop_queue q) = []" "iq_writing (drop_queue q) = iq_writing q"
    "iq_exited (drop_queue q) = iq_exited q"
    by (simp_all add: drop_queue_def queue_logs unwritten_def in_hand_def total_bytes_def)
  note i = queue_invD[OF assms]
  have "accepted = map fst (answered q) @ in_hand q @ discarded q @ iq_chunks q"
    using i(1,5,6) by (cases "iq_closed q") (simp_all add: unwritten_def)
  moreover have "iq_queued_bytes (drop_queue q) = total_bytes (in_hand q)"
    using i(3) by (simp add: d unwritten_def)
  ultimately show ?thesis
    using budget_one[of q] i(2,8) by (simp add: queue_inv_def d)
qed

lemma inv_turn:
  assumes "queue_inv (q, accepted)"
  shows "queue_inv (queue_step (WriterTurn r) (q, accepted))"
proof (cases "iq_exited q")
  case True
  then show ?thesis using assms by (simp add: writer_turn_def)
next
  case running: False
  show ?thesis
  proof (cases "iq_writing q")
    case None
    have "answered (writer_turn r q) = answered q" "discarded (writer_turn r q) = discarded q"
      "unwritten (writer_turn r q) = unwritten q" "iq_pty (writer_turn r q) = iq_pty q"
      "iq_queued_bytes (writer_turn r q) = iq_queued_bytes q" "iq_closed (writer_turn r q) = iq_closed q"
      using None running
      by (auto simp: writer_turn_def queue_logs unwritten_def in_hand_def split: list.split)
    moreover have "iq_closed q \<longrightarrow> iq_chunks (writer_turn r q) = []"
      "iq_exited (writer_turn r q) \<longrightarrow> iq_closed q \<and> iq_writing (writer_turn r q) = None"
      using assms None running by (auto simp: queue_inv_def writer_turn_def split: list.split)
    ultimately show ?thesis using queue_invD[OF assms] by (simp add: queue_inv_def)
  next
    case (Some c)
    let ?q = "writer_turn r q"
    have t: "answered ?q = answered q @ [(c, r)]" "discarded ?q = discarded q"
      "unwritten q = c # iq_chunks q" "unwritten ?q = iq_chunks q" "iq_closed ?q = iq_closed q"
      "iq_chunks ?q = iq_chunks q" "iq_exited ?q = iq_exited q"
      "iq_queued_bytes ?q = iq_queued_bytes q - length (ck_bytes c)"
      "iq_pty ?q = iq_pty q @ taken_by_pty c r"
      using Some running by (simp_all add: writer_turn_def queue_logs unwritten_def in_hand_def)
    have i: "accepted = map fst (answered q) @ unwritten q @ discarded q"
      "iq_pty q = concat (map (\<lambda>(c, r). taken_by_pty c r) (answered q))"
      "iq_queued_bytes q = length (ck_bytes c) + total_bytes (iq_chunks q)"
      "within_budget (iq_queued_bytes q) (c # iq_chunks q)"
      "\<not> iq_closed q \<longrightarrow> discarded q = []" "iq_closed q \<longrightarrow> iq_chunks q = []"
      using queue_invD[OF assms] by (simp_all add: t(3))
    show ?thesis using i budget_tail[OF i(3,4)] running by (simp add: queue_inv_def t)
  qed
qed

lemma inv_queue_step: "queue_inv qa \<Longrightarrow> queue_inv (queue_step e qa)"
  by (cases qa; cases e) (simp_all only: inv_push inv_drop inv_turn)

lemma inv_queue_run: "queue_inv (queue_run es)"
proof -
  have "queue_inv qa \<Longrightarrow> queue_inv (fold queue_step es qa)" for qa
  proof (induction es arbitrary: qa)
    case (Cons e es)
    then show ?case using Cons.IH[OF inv_queue_step[OF Cons.prems]] by simp
  qed simp
  with inv_spawn show ?thesis by (simp add: queue_run_def)
qed

text \<open>Whatever the interleaving of pushes, writer turns and the drop, input keeps its order
  and none is lost or doubled: the accepted chunks are, in order, the ones answered by the PTY,
  the ones still unwritten, and after a drop the discarded ones; the PTY received exactly the
  bytes of the answered chunks, in that order (a prefix of a chunk whose write failed).\<close>

theorem input_stays_ordered:
  "let (q, accepted) = queue_run es in
     accepted = map fst (answered q) @ unwritten q @ discarded q
     \<and> iq_pty q = concat (map (\<lambda>(c, r). taken_by_pty c r) (answered q))"
  using inv_queue_run[of es] by (auto simp: queue_inv_def)

text \<open>The byte count never underflows and keeps the budget: it is the size of the unwritten
  input, and more than the budget only while a single oversize chunk is all of it.\<close>

theorem input_within_budget:
  "let (q, accepted) = queue_run es in
     iq_queued_bytes q = total_bytes (unwritten q)
     \<and> (iq_queued_bytes q \<le> INPUT_BUDGET_BYTES
        \<or> (\<exists>c \<in> set (unwritten q). iq_queued_bytes q = length (ck_bytes c)))"
  using inv_queue_run[of es] by (auto simp: queue_inv_def within_budget_def)

subsection \<open>The queue drains\<close>

definition turns_left :: "input_queue \<Rightarrow> nat" where
  "turns_left q =
     (if iq_exited q then 0
      else 2 * length (iq_chunks q) + length (in_hand q) + (if iq_closed q then 1 else 0))"

lemma turn_progress: "turns_left (writer_turn r q) = turns_left q - 1"
  by (auto simp: turns_left_def writer_turn_def in_hand_def split: option.split list.split)

lemma turns_progress: "turns_left (fold writer_turn rs q) = turns_left q - length rs"
  by (induction rs arbitrary: q) (simp_all add: turn_progress)

lemma turns_in_run:
  "queue_run (es @ map WriterTurn rs) = (fold writer_turn rs (fst (queue_run es)), snd (queue_run es))"
proof -
  have "fold queue_step (map WriterTurn rs) (q, ac) = (fold writer_turn rs q, ac)" for q ac
    by (induction rs arbitrary: q) simp_all
  from this[of "fst (queue_run es)" "snd (queue_run es)"] show ?thesis by (simp add: queue_run_def)
qed

lemma drained:
  assumes "queue_inv (q, accepted)" "turns_left q = 0"
  shows "unwritten q = []" "iq_queued_bytes q = 0" "iq_closed q \<longrightarrow> iq_exited q"
proof -
  show u: "unwritten q = []"
    using assms by (auto simp: queue_inv_def turns_left_def unwritten_def in_hand_def split: if_splits option.splits)
  show "iq_queued_bytes q = 0" using assms(1) u by (simp add: queue_inv_def)
  show "iq_closed q \<longrightarrow> iq_exited q" using assms(2) by (auto simp: turns_left_def split: if_splits)
qed

text \<open>C36. Whenever the PTY answers, the queue drains: after any run, two writer turns per queued
  chunk and two more leave nothing unwritten whatever the PTY answered, every accepted chunk has
  its result, a closed queue's writer thread has returned, and an open queue accepts any chunk,
  however large, so no caller waits for ever.\<close>

theorem input_drains:
  "let q = fst (queue_run es);
       q' = fold writer_turn (map result [0 ..< 2 * length (iq_chunks q) + 2 + k]) q in
     unwritten q' = [] \<and> iq_queued_bytes q' = 0
     \<and> (if iq_closed q' then iq_exited q' else fst (push_pass c q') = PushAccepted)
     \<and> snd (queue_run es) = map fst (answered q') @ discarded q'"
proof -
  let ?q = "fst (queue_run es)"
  let ?rs = "map result [0 ..< 2 * length (iq_chunks ?q) + 2 + k]"
  define q' where "q' = fold writer_turn ?rs ?q"
  have "turns_left ?q \<le> 2 * length (iq_chunks ?q) + 2"
    by (simp add: turns_left_def in_hand_def split: option.split)
  then have 0: "turns_left q' = 0" unfolding q'_def turns_progress by simp
  have "queue_run (es @ map WriterTurn ?rs) = (q', snd (queue_run es))"
    unfolding q'_def by (rule turns_in_run)
  then have inv: "queue_inv (q', snd (queue_run es))"
    using inv_queue_run[of "es @ map WriterTurn ?rs"] by (simp only:)
  note d = drained[OF inv 0]
  have "fst (push_pass c q') = PushAccepted" if "\<not> iq_closed q'"
    using that d(2) by (simp add: push_pass_def has_room_def)
  with d inv have "unwritten q' = [] \<and> iq_queued_bytes q' = 0
     \<and> (if iq_closed q' then iq_exited q' else fst (push_pass c q') = PushAccepted)
     \<and> snd (queue_run es) = map fst (answered q') @ discarded q'"
    by (simp add: queue_inv_def)
  then show ?thesis unfolding q'_def Let_def .
qed

end
