(* ===== verification/Output_Replay.thy ===== *)
theory Output_Replay
  imports Rust_Str
begin

text \<open>
  The retained output of a terminal (\<open>hotsheet-terminals/src/terminal.rs\<close>): the byte ring that
  is trimmed only where a fresh emulator may start (outside an escape sequence and not on a
  UTF-8 continuation byte), the replay snapshot with its stream position, and the two functions
  that cut a replay for a reconnecting viewer.  Stream offsets are naturals (\<open>u64\<close> in the source).
\<close>

subsection \<open>Escape sequences\<close>

datatype ansi_state = Ground | Escape | Csi | StringSeq bool | StringEscape bool

definition byte_val :: "char \<Rightarrow> nat" where "byte_val c = of_char c"

fun advance :: "ansi_state \<Rightarrow> char \<Rightarrow> ansi_state" where
  "advance Ground b = (if byte_val b = 0x1B then Escape else Ground)"
| "advance Escape b =
     (if b = CHR ''['' then Csi
      else if b = CHR '']'' then StringSeq True
      else if b \<in> {CHR ''P'', CHR ''X'', CHR ''^'', CHR ''_''} then StringSeq False
      else if 0x20 \<le> byte_val b \<and> byte_val b \<le> 0x2F then Escape
      else Ground)"
| "advance Csi b =
     (if byte_val b = 0x18 \<or> byte_val b = 0x1A then Ground
      else if byte_val b = 0x1B then Escape
      else if 0x40 \<le> byte_val b \<and> byte_val b \<le> 0x7E then Ground
      else Csi)"
| "advance (StringSeq bell) b =
     (if byte_val b = 0x07 \<and> bell then Ground
      else if byte_val b = 0x1B then StringEscape bell
      else StringSeq bell)"
| "advance (StringEscape bell) b =
     (if byte_val b = 0x5C then Ground
      else if byte_val b = 0x1B then StringEscape bell
      else StringSeq bell)"

text \<open>Where a snapshot may start: outside a sequence, not on a continuation byte.\<close>

definition safe_start :: "ansi_state \<Rightarrow> char \<Rightarrow> bool" where
  "safe_start a b = (a = Ground \<and> \<not> is_continuation b)"

subsection \<open>The ring\<close>

text \<open>A retained byte is the byte with its \<open>safe_start\<close> flag.\<close>

type_synonym retained = "(char \<times> bool) list"

record ring =
  rg_buf :: retained
  rg_cap :: nat
  rg_ansi :: ansi_state
  rg_end :: nat

definition ring_new :: "nat \<Rightarrow> ring" where
  "ring_new cap = \<lparr>rg_buf = [], rg_cap = cap, rg_ansi = Ground, rg_end = 0\<rparr>"

function trim_buf :: "nat \<Rightarrow> retained \<Rightarrow> retained" where
  "trim_buf cap buf =
     (if length buf > cap then trim_buf cap (dropWhile (\<lambda>b. \<not> snd b) (tl buf)) else buf)"
  by pat_completeness auto
termination
proof (relation "measure (length \<circ> snd)")
  fix cap :: nat and buf :: retained
  assume "cap < length buf"
  then have "length (dropWhile (\<lambda>b. \<not> snd b) (tl buf)) < length buf"
    using length_dropWhile_le[of "\<lambda>b. \<not> snd b" "tl buf"] by (cases buf) auto
  then show "((cap, dropWhile (\<lambda>b. \<not> snd b) (tl buf)), (cap, buf)) \<in> measure (length \<circ> snd)" by simp
qed simp

declare trim_buf.simps [simp del]

definition ring_push_byte :: "char \<Rightarrow> ring \<Rightarrow> ring" where
  "ring_push_byte b r =
     r\<lparr>rg_buf := trim_buf (rg_cap r) (rg_buf r @ [(b, safe_start (rg_ansi r) b)]),
       rg_ansi := advance (rg_ansi r) b\<rparr>"

definition ring_push :: "string \<Rightarrow> ring \<Rightarrow> ring" where
  "ring_push bytes r = fold ring_push_byte bytes (r\<lparr>rg_end := rg_end r + length bytes\<rparr>)"

definition ring_resize :: "nat \<Rightarrow> ring \<Rightarrow> ring" where
  "ring_resize cap r = r\<lparr>rg_cap := cap, rg_buf := trim_buf cap (rg_buf r)\<rparr>"

definition snapshot :: "ring \<Rightarrow> string" where
  "snapshot r = map fst (rg_buf r)"

record stream_position =
  sp_stream :: nat
  sp_end_offset :: nat

record replay =
  rp_data :: string
  rp_position :: stream_position

definition ring_replay :: "nat \<Rightarrow> ring \<Rightarrow> replay" where
  "ring_replay stream r =
     \<lparr>rp_data = snapshot r, rp_position = \<lparr>sp_stream = stream, sp_end_offset = rg_end r\<rparr>\<rparr>"

definition REPLAY_BYTES_MIN :: nat where "REPLAY_BYTES_MIN = 64 * 1024"
definition REPLAY_BYTES_MAX :: nat where "REPLAY_BYTES_MAX = 64 * 1024 * 1024"

definition clamp_replay_bytes :: "nat \<Rightarrow> nat" where
  "clamp_replay_bytes bytes = min REPLAY_BYTES_MAX (max REPLAY_BYTES_MIN bytes)"

subsection \<open>Cutting a replay\<close>

definition replay_after :: "string \<Rightarrow> nat \<Rightarrow> nat \<Rightarrow> string option" where
  "replay_after data end_offset offset =
     (if end_offset < length data then None
      else let start = end_offset - length data in
        if offset < start \<or> offset > end_offset then None
        else Some (drop (offset - start) data))"

fun suffix_scan :: "nat \<Rightarrow> ansi_state \<Rightarrow> string \<Rightarrow> string" where
  "suffix_scan before ansi [] = []"
| "suffix_scan before ansi (b # bs) =
     (if before = 0 \<and> safe_start ansi b then b # bs
      else suffix_scan (before - 1) (advance ansi b) bs)"

definition replay_suffix :: "string \<Rightarrow> nat \<Rightarrow> string" where
  "replay_suffix replay max_len =
     (if length replay \<le> max_len then replay else suffix_scan (length replay - max_len) Ground replay)"

subsection \<open>The flags of a stream\<close>

fun annotate :: "ansi_state \<Rightarrow> string \<Rightarrow> retained" where
  "annotate a [] = []"
| "annotate a (b # bs) = (b, safe_start a b) # annotate (advance a b) bs"

lemma annotate_append: "annotate a (xs @ ys) = annotate a xs @ annotate (foldl advance a xs) ys"
  by (induction xs arbitrary: a) simp_all

lemma length_annotate [simp]: "length (annotate a s) = length s"
  by (induction s arbitrary: a) simp_all

lemma map_fst_annotate [simp]: "map fst (annotate a s) = s"
  by (induction s arbitrary: a) simp_all

text \<open>From a safe byte on, the flags are those of the rest parsed afresh.\<close>

lemma annotate_restart:
  assumes "drop k (annotate Ground s) = (b, True) # rest"
  shows "annotate Ground (map fst ((b, True) # rest)) = (b, True) # rest"
proof -
  have k: "k < length s" using assms by (metis drop_eq_Nil2 length_annotate list.distinct(1) not_less)
  then obtain c cs where cs: "drop k s = c # cs" by (metis Cons_nth_drop_Suc)
  have "annotate Ground (take k s @ drop k s) = annotate Ground s" by simp
  then have d: "drop k (annotate Ground s) = annotate (foldl advance Ground (take k s)) (c # cs)"
    using k cs by (metis annotate_append append_eq_conv_conj length_annotate length_take min.absorb4)
  with assms have "foldl advance Ground (take k s) = Ground" by (simp add: safe_start_def)
  with d assms show ?thesis by (metis map_fst_annotate)
qed

lemma suffix_scan_annotate:
  "suffix_scan n a s = map fst (dropWhile (\<lambda>b. \<not> snd b) (drop n (annotate a s)))"
proof (induction s arbitrary: n a)
  case (Cons b s)
  then show ?case by (cases n) auto
qed simp

text \<open>What remains of a stream's bytes within a capacity, starting at a safe byte.\<close>

definition safe_suffix :: "nat \<Rightarrow> retained \<Rightarrow> retained" where
  "safe_suffix cap xs =
     (if length xs \<le> cap then xs else dropWhile (\<lambda>b. \<not> snd b) (drop (length xs - cap) xs))"

lemma replay_suffix_annotate: "replay_suffix s n = map fst (safe_suffix n (annotate Ground s))"
  by (simp add: replay_suffix_def safe_suffix_def suffix_scan_annotate)

subsection \<open>The ring holds the end of the stream\<close>

lemma trim_buf_suffix: "\<exists>k. trim_buf cap buf = drop k buf"
proof (induction cap buf rule: trim_buf.induct)
  case (1 cap buf)
  show ?case
  proof (cases "cap < length buf")
    case True
    then obtain k where "trim_buf cap (dropWhile (\<lambda>b. \<not> snd b) (tl buf)) = drop k (dropWhile (\<lambda>b. \<not> snd b) (tl buf))"
      using 1 by blast
    moreover have "trim_buf cap buf = trim_buf cap (dropWhile (\<lambda>b. \<not> snd b) (tl buf))"
      using True by (subst trim_buf.simps) simp
    ultimately have "trim_buf cap buf = drop (k + length (takeWhile (\<lambda>b. \<not> snd b) (tl buf)) + 1) buf"
      using True by (cases buf) (simp_all add: dropWhile_eq_drop add.commute)
    then show ?thesis by blast
  next
    case False
    then have "trim_buf cap buf = drop 0 buf" by (simp add: trim_buf.simps)
    then show ?thesis by blast
  qed
qed

lemma trim_buf_length: "length (trim_buf cap buf) \<le> cap"
proof (induction cap buf rule: trim_buf.induct)
  case (1 cap buf)
  then show ?case by (cases "cap < length buf") (simp_all add: trim_buf.simps[of cap buf])
qed

definition ring_of :: "string \<Rightarrow> ring \<Rightarrow> bool" where
  "ring_of s r =
     ((\<exists>k. rg_buf r = drop k (annotate Ground s)) \<and> rg_ansi r = foldl advance Ground s
      \<and> rg_end r = length s \<and> length (rg_buf r) \<le> rg_cap r)"

lemma drop_take_end: "drop k xs = drop (length xs - length (drop k xs)) xs"
  by (cases "k \<le> length xs") auto

lemma push_byte_buf:
  "rg_buf (ring_push_byte b r) = trim_buf (rg_cap r) (rg_buf r @ [(b, safe_start (rg_ansi r) b)])"
  by (simp add: ring_push_byte_def)

lemma push_byte_ring:
  assumes "\<exists>k. rg_buf r = drop k (annotate Ground s)" "rg_ansi r = foldl advance Ground s"
  shows "\<exists>k. rg_buf (ring_push_byte b r) = drop k (annotate Ground (s @ [b]))"
    "rg_ansi (ring_push_byte b r) = foldl advance Ground (s @ [b])"
    "length (rg_buf (ring_push_byte b r)) \<le> rg_cap (ring_push_byte b r)"
    "rg_end (ring_push_byte b r) = rg_end r" "rg_cap (ring_push_byte b r) = rg_cap r"
proof -
  obtain k where k: "rg_buf r = drop k (annotate Ground s)" "k \<le> length s"
    using assms(1) by (metis drop_take_end diff_le_self length_annotate)
  have "rg_buf r @ [(b, safe_start (rg_ansi r) b)] = drop k (annotate Ground (s @ [b]))"
    using k assms(2) by (simp add: annotate_append)
  moreover obtain j where "trim_buf (rg_cap r) (drop k (annotate Ground (s @ [b]))) = drop j (drop k (annotate Ground (s @ [b])))"
    using trim_buf_suffix by blast
  ultimately have "rg_buf (ring_push_byte b r) = drop (j + k) (annotate Ground (s @ [b]))"
    by (simp add: ring_push_byte_def)
  then show "\<exists>k. rg_buf (ring_push_byte b r) = drop k (annotate Ground (s @ [b]))" by blast
qed (simp_all add: ring_push_byte_def assms trim_buf_length)

lemma push_bytes_ring:
  assumes "\<exists>k. rg_buf r = drop k (annotate Ground s)" "rg_ansi r = foldl advance Ground s"
    "length (rg_buf r) \<le> rg_cap r"
  shows "(\<exists>k. rg_buf (fold ring_push_byte bs r) = drop k (annotate Ground (s @ bs)))
    \<and> rg_ansi (fold ring_push_byte bs r) = foldl advance Ground (s @ bs)
    \<and> length (rg_buf (fold ring_push_byte bs r)) \<le> rg_cap r
    \<and> rg_end (fold ring_push_byte bs r) = rg_end r \<and> rg_cap (fold ring_push_byte bs r) = rg_cap r"
  using assms
proof (induction bs arbitrary: r s)
  case (Cons b bs)
  note p = push_byte_ring[OF Cons.prems(1,2), of b]
  from Cons.IH[OF p(1-3)] p(4,5) show ?case by simp
qed simp

lemma ring_of_push: "ring_of s r \<Longrightarrow> ring_of (s @ bs) (ring_push bs r)"
  using push_bytes_ring[of "r\<lparr>rg_end := rg_end r + length bs\<rparr>" s bs]
  by (auto simp: ring_of_def ring_push_def)

lemma ring_of_resize:
  assumes "ring_of s r"
  shows "ring_of s (ring_resize cap r)"
proof -
  obtain k where k: "rg_buf r = drop k (annotate Ground s)" using assms by (auto simp: ring_of_def)
  moreover obtain j where "trim_buf cap (rg_buf r) = drop j (rg_buf r)" using trim_buf_suffix by blast
  ultimately have "rg_buf (ring_resize cap r) = drop (j + k) (annotate Ground s)"
    by (simp add: ring_resize_def)
  moreover have "length (rg_buf (ring_resize cap r)) \<le> rg_cap (ring_resize cap r)"
    by (simp add: ring_resize_def trim_buf_length)
  moreover have "rg_ansi (ring_resize cap r) = rg_ansi r" "rg_end (ring_resize cap r) = rg_end r"
    by (simp_all add: ring_resize_def)
  ultimately show ?thesis using assms unfolding ring_of_def by metis
qed

lemma ring_of_snapshot:
  assumes "ring_of s r"
  shows "snapshot r = drop (length s - length (snapshot r)) s" "length (snapshot r) \<le> length s"
    "length (snapshot r) \<le> rg_cap r"
proof -
  obtain k where k: "rg_buf r = drop k (annotate Ground s)" using assms by (auto simp: ring_of_def)
  then have "snapshot r = drop k s" by (simp add: snapshot_def flip: drop_map)
  then show "snapshot r = drop (length s - length (snapshot r)) s" "length (snapshot r) \<le> length s"
    using drop_take_end[of k s] by simp_all
  show "length (snapshot r) \<le> rg_cap r" using assms by (simp add: ring_of_def snapshot_def)
qed

text \<open>A terminal's output so far: chunks and resizes of the ring.\<close>

datatype ring_op = PushBytes string | ResizeRing nat

fun ring_step :: "ring_op \<Rightarrow> ring \<Rightarrow> ring" where
  "ring_step (PushBytes bs) r = ring_push bs r"
| "ring_step (ResizeRing cap) r = ring_resize (clamp_replay_bytes cap) r"

fun pushed :: "ring_op list \<Rightarrow> string" where
  "pushed [] = []"
| "pushed (PushBytes bs # ops) = bs @ pushed ops"
| "pushed (ResizeRing cap # ops) = pushed ops"

lemma ring_of_ops: "ring_of s r \<Longrightarrow> ring_of (s @ pushed ops) (fold ring_step ops r)"
proof (induction ops arbitrary: s r rule: pushed.induct)
  case (2 bs ops)
  then show ?case using 2(1)[OF ring_of_push[OF 2(2), of bs]] by simp
next
  case (3 cap ops)
  then show ?case using 3(1)[OF ring_of_resize[OF 3(2)]] by simp
qed simp

lemma ring_of_new: "ring_of [] (ring_new cap)"
  by (simp add: ring_of_def ring_new_def)

text \<open>A reconnecting viewer misses nothing and gets nothing twice: after any output and
  resizes of the ring, \<open>replay_after\<close> at the offset a viewer has applied answers exactly when the
  retained bytes reach back to it, and then with the bytes of the stream after that offset.\<close>

theorem replay_continues_stream:
  "let r = fold ring_step ops (ring_new cap); p = ring_replay stream r; s = pushed ops in
     rp_data p = drop (length s - length (rp_data p)) s
     \<and> (case replay_after (rp_data p) (sp_end_offset (rp_position p)) offset of
          None \<Rightarrow> offset < length s - length (rp_data p) \<or> length s < offset
        | Some rest \<Rightarrow> offset \<le> length s \<and> take offset s @ rest = s)"
proof -
  let ?r = "fold ring_step ops (ring_new cap)" and ?s = "pushed ops"
  have r: "ring_of ?s ?r" using ring_of_ops[OF ring_of_new, of ops cap] by simp
  note snap = ring_of_snapshot[OF r]
  have e: "rg_end ?r = length ?s" using r by (simp add: ring_of_def)
  have "drop (offset - (length ?s - length (snapshot ?r))) (snapshot ?r) = drop offset ?s"
    if "\<not> offset < length ?s - length (snapshot ?r)"
    using that by (subst snap(1)) simp
  with snap e show ?thesis by (simp add: ring_replay_def replay_after_def Let_def)
qed

subsection \<open>Safe boundaries\<close>

text \<open>No escape sequence (and no stretch of continuation bytes) fills the whole capacity: among
  any \<open>cap\<close> consecutive bytes that end after position \<open>cap\<close> there is a safe one.\<close>

definition no_long_sequence :: "nat \<Rightarrow> string \<Rightarrow> bool" where
  "no_long_sequence cap s =
     list_all (\<lambda>i. list_ex snd (take cap (drop (Suc i) (annotate Ground s)))) [0 ..< length s - cap]"

lemma trim_one_over:
  assumes "length buf = Suc cap" "list_ex snd (tl buf)"
  shows "trim_buf cap buf = dropWhile (\<lambda>b. \<not> snd b) (tl buf)"
proof -
  have "trim_buf cap buf = trim_buf cap (dropWhile (\<lambda>b. \<not> snd b) (tl buf))"
    using assms(1) by (subst trim_buf.simps) simp
  moreover have "length (dropWhile (\<lambda>b. \<not> snd b) (tl buf)) \<le> cap"
    using assms(1) length_dropWhile_le[of "\<lambda>b. \<not> snd b" "tl buf"] by simp
  ultimately show ?thesis by (subst (asm) (2) trim_buf.simps) simp
qed

lemma dropWhile_append_found: "list_ex P xs \<Longrightarrow> dropWhile (\<lambda>x. \<not> P x) (xs @ ys) = dropWhile (\<lambda>x. \<not> P x) xs @ ys"
  by (induction xs) auto

lemma dropWhile_drop_within:
  "j \<le> length (takeWhile Q xs) \<Longrightarrow> dropWhile Q (drop j xs) = dropWhile Q xs"
proof (induction xs arbitrary: j)
  case (Cons x xs)
  then show ?case by (cases j) (auto split: if_splits)
qed simp

lemma no_long_prefix: "no_long_sequence cap (s @ [b]) \<Longrightarrow> no_long_sequence cap s"
  by (auto simp: no_long_sequence_def list_all_iff annotate_append)

lemma no_long_window:
  assumes "no_long_sequence cap s" "cap < length s"
  shows "list_ex snd (drop (length s - cap) (annotate Ground s))"
proof -
  have "length s - cap - 1 \<in> set [0 ..< length s - cap]" using assms(2) by simp
  with assms(1) have "list_ex snd (take cap (drop (Suc (length s - cap - 1)) (annotate Ground s)))"
    unfolding no_long_sequence_def list_all_iff by blast
  with assms(2) show ?thesis by (simp add: Suc_diff_Suc)
qed

text \<open>One more byte: the retained bytes stay the safe suffix.\<close>

lemma safe_suffix_snoc:
  assumes "cap < length A \<Longrightarrow> list_ex snd (drop (length A - cap) A)"
    "cap < Suc (length A) \<Longrightarrow> list_ex snd (drop (Suc (length A) - cap) (A @ [x]))"
  shows "trim_buf cap (safe_suffix cap A @ [x]) = safe_suffix cap (A @ [x])"
proof -
  have whole: "length buf \<le> cap \<Longrightarrow> trim_buf cap buf = buf" for buf :: retained
    by (subst trim_buf.simps) simp
  consider "length A < cap" | "length A = cap" | "cap < length A" by linarith
  then show ?thesis
  proof cases
    case 1
    then show ?thesis by (simp add: safe_suffix_def whole)
  next
    case 2
    then have "list_ex snd (drop 1 (A @ [x]))" using assms(2) by (simp del: drop_append list_ex_append)
    then have "list_ex snd (tl (A @ [x]))" by (simp add: drop_Suc del: drop_append list_ex_append)
    moreover have "safe_suffix cap A = A"
      "safe_suffix cap (A @ [x]) = dropWhile (\<lambda>b. \<not> snd b) (drop 1 (A @ [x]))"
      using 2 by (simp_all add: safe_suffix_def del: drop_append)
    ultimately show ?thesis
      using 2 trim_one_over[of "A @ [x]" cap] by (simp add: drop_Suc del: drop_append)
  next
    case 3
    then obtain d D where D: "drop (length A - cap) A = d # D"
      using assms(1) by (cases "drop (length A - cap) A") auto
    have len: "cap = Suc (length D)" using 3 D by (metis length_drop length_Cons diff_diff_cancel less_imp_le)
    have "drop (Suc (length A) - cap) A = D"
      using D 3 by (metis Suc_diff_le drop_Suc less_imp_le list.sel(3) tl_drop)
    then have rest: "drop (Suc (length A) - cap) (A @ [x]) = D @ [x]" using 3 len by simp
    have goal: "safe_suffix cap (A @ [x]) = dropWhile (\<lambda>b. \<not> snd b) (D @ [x])"
      using 3 rest by (simp add: safe_suffix_def)
    show ?thesis
    proof (cases "snd d")
      case True
      then have "safe_suffix cap A = d # D" using 3 D by (simp add: safe_suffix_def)
      then show ?thesis
        using trim_one_over[of "d # D @ [x]" cap] assms(2) rest 3 len goal by simp
    next
      case False
      then have ex: "list_ex snd D" using assms(1)[OF 3] D by simp
      have "safe_suffix cap A = dropWhile (\<lambda>b. \<not> snd b) D" using 3 D False by (simp add: safe_suffix_def)
      moreover have "length (dropWhile (\<lambda>b. \<not> snd b) D @ [x]) \<le> cap"
        using len length_dropWhile_le[of "\<lambda>b. \<not> snd b" D] by simp
      ultimately show ?thesis using whole dropWhile_append_found[OF ex, of "[x]"] goal by simp
    qed
  qed
qed

lemma ring_safe_suffix:
  assumes "no_long_sequence cap s"
  shows "rg_buf (fold ring_push_byte s ((ring_new cap)\<lparr>rg_end := e\<rparr>)) = safe_suffix cap (annotate Ground s)"
  using assms
proof (induction s rule: rev_induct)
  case Nil
  then show ?case by (simp add: ring_new_def safe_suffix_def)
next
  case (snoc b s)
  let ?r = "fold ring_push_byte s ((ring_new cap)\<lparr>rg_end := e\<rparr>)" and ?A = "annotate Ground s"
  have prev: "no_long_sequence cap s" using snoc.prems by (rule no_long_prefix)
  have r: "rg_ansi ?r = foldl advance Ground s" "rg_cap ?r = cap"
    using push_bytes_ring[of "(ring_new cap)\<lparr>rg_end := e\<rparr>" "[]" s] by (simp_all add: ring_new_def)
  let ?x = "(b, safe_start (foldl advance Ground s) b)"
  have A: "annotate Ground (s @ [b]) = ?A @ [?x]" by (simp add: annotate_append)
  have "trim_buf cap (safe_suffix cap ?A @ [?x]) = safe_suffix cap (?A @ [?x])"
    using no_long_window[OF prev] no_long_window[OF snoc.prems] A
    by (intro safe_suffix_snoc) simp_all
  with snoc.IH[OF prev] r A show ?case by (simp add: push_byte_buf)
qed

lemma no_long_mono:
  assumes "no_long_sequence small s" "small \<le> big"
  shows "no_long_sequence big s"
  unfolding no_long_sequence_def list_all_iff
proof
  fix i
  assume i: "i \<in> set [0 ..< length s - big]"
  then have "i \<in> set [0 ..< length s - small]" using assms(2) by auto
  then have "list_ex snd (take small (drop (Suc i) (annotate Ground s)))"
    using assms(1) unfolding no_long_sequence_def list_all_iff by blast
  then show "list_ex snd (take big (drop (Suc i) (annotate Ground s)))"
    using set_take_subset_set_take[OF assms(2), of "drop (Suc i) (annotate Ground s)"]
    unfolding list_ex_iff by (meson subsetD)
qed

lemma safe_suffix_dropWhile:
  assumes "small \<le> length D"
  shows "safe_suffix small (dropWhile (\<lambda>b. \<not> snd b) D) = dropWhile (\<lambda>b. \<not> snd b) (drop (length D - small) D)"
proof -
  define k where "k = length (takeWhile (\<lambda>b. \<not> snd b) D)"
  have d: "dropWhile (\<lambda>b. \<not> snd b) D = drop k D" by (simp add: k_def dropWhile_eq_drop)
  show ?thesis
  proof (cases "length D - k \<le> small")
    case True
    then have "length D - small \<le> length (takeWhile (\<lambda>b. \<not> snd b) D)" by (simp add: k_def)
    from dropWhile_drop_within[OF this] True d show ?thesis by (simp add: safe_suffix_def)
  next
    case False
    then have "drop (length D - k - small) (drop k D) = drop (length D - small) D" by simp
    with False d show ?thesis by (simp add: safe_suffix_def)
  qed
qed

lemma safe_suffix_twice:
  assumes "small \<le> big"
  shows "safe_suffix small (safe_suffix big A) = safe_suffix small A"
proof (cases "length A \<le> big")
  case True
  then show ?thesis by (simp add: safe_suffix_def[of big])
next
  case False
  then have "safe_suffix big A = dropWhile (\<lambda>b. \<not> snd b) (drop (length A - big) A)"
    by (simp add: safe_suffix_def)
  moreover have "drop (big - small) (drop (length A - big) A) = drop (length A - small) A"
    using assms False by simp
  ultimately show ?thesis
    using safe_suffix_dropWhile[of small "drop (length A - big) A"] assms False
    by (simp add: safe_suffix_def[of small A])
qed

text \<open>A safe suffix of a stream's flags is what parsing its bytes afresh gives.\<close>

lemma annotate_safe_suffix:
  assumes "A = annotate Ground s"
  shows "annotate Ground (map fst (safe_suffix cap A)) = safe_suffix cap A"
proof (cases "length A \<le> cap")
  case True
  then show ?thesis using assms by (simp add: safe_suffix_def)
next
  case False
  obtain k where k: "safe_suffix cap A = drop k A"
    using False by (simp add: safe_suffix_def dropWhile_eq_drop)
  show ?thesis
  proof (cases "safe_suffix cap A")
    case (Cons x xs)
    then have "snd x" using False hd_dropWhile[of "\<lambda>b. \<not> snd b" "drop (length A - cap) A"]
      by (simp add: safe_suffix_def)
    then obtain b where "x = (b, True)" by (cases x) auto
    with Cons k assms have "drop k (annotate Ground s) = (b, True) # xs" by simp
    from annotate_restart[OF this] Cons \<open>x = (b, True)\<close> show ?thesis by (simp only:)
  qed simp
qed

lemma ring_push_snapshot:
  "no_long_sequence cap s \<Longrightarrow> snapshot (ring_push s (ring_new cap)) = map fst (safe_suffix cap (annotate Ground s))"
  using ring_safe_suffix[of cap s "length s"] by (simp add: snapshot_def ring_push_def ring_new_def)

text \<open>As long as no escape sequence fills the ring, its snapshot is the longest end of the
  stream within the capacity that starts where an emulator may start, and cutting the snapshot
  of a larger ring with \<open>replay_suffix\<close> gives the snapshot the smaller ring would hold.\<close>

theorem ring_keeps_safe_suffix:
  assumes "no_long_sequence small s" "small \<le> big"
  shows "snapshot (ring_push s (ring_new small)) = map fst (safe_suffix small (annotate Ground s))
    \<and> replay_suffix (snapshot (ring_push s (ring_new big))) small = snapshot (ring_push s (ring_new small))"
  using ring_push_snapshot[OF assms(1)] ring_push_snapshot[OF no_long_mono[OF assms]]
  by (simp add: replay_suffix_annotate annotate_safe_suffix safe_suffix_twice[OF assms(2)])

theorem ring_keeps_safe_suffix_witness:
  "replay_suffix (snapshot (ring_push ''hello world'' (ring_new 8))) 4 = ''orld''"
proof -
  have "no_long_sequence 4 ''hello world''" by code_simp
  moreover have "map fst (safe_suffix 4 (annotate Ground ''hello world'')) = ''orld''" by code_simp
  ultimately show ?thesis using ring_keeps_safe_suffix[of 4 "''hello world''" 8] by simp
qed

definition osc_start :: string where "osc_start = [CHR 0x1B, CHR '']'']"

lemma string_payload:
  "annotate (StringSeq True) (replicate n (CHR ''x'')) = replicate n (CHR ''x'', False)"
  "foldl advance (StringSeq True) (replicate n (CHR ''x'')) = StringSeq True"
  by (induction n) (simp_all add: safe_start_def byte_val_def)

lemma osc_start_state: "foldl advance Ground osc_start = StringSeq True"
  "annotate Ground osc_start = [(CHR 0x1B, True), (CHR '']'', False)]"
  by (simp_all add: osc_start_def byte_val_def safe_start_def is_continuation_def)

text \<open>C35. A sequence longer than the ring breaks the boundary: a string sequence whose payload
  fills the ring empties it, and the next payload byte is retained alone, so the snapshot starts
  inside the sequence and replays it as text, although every snapshot is documented to start
  outside one.\<close>

theorem long_sequence_breaks_boundary:
  "snapshot (ring_push (osc_start @ replicate (cap + 2) (CHR ''x'')) (ring_new (cap + 2))) = ''x''
   \<and> foldl advance Ground (osc_start @ replicate (cap + 1) (CHR ''x'')) = StringSeq True"
proof -
  let ?x = "CHR ''x''" and ?c = "cap + 2"
  let ?p = "osc_start @ replicate cap ?x"
  define e where "e = rg_end (ring_new ?c) + length (osc_start @ replicate ?c ?x)"
  let ?r = "fold ring_push_byte ?p ((ring_new ?c)\<lparr>rg_end := e\<rparr>)"
  let ?A = "(CHR 0x1B, True) # (CHR '']'', False) # replicate cap (?x, False)"
  have len: "length ?p = ?c" by (simp add: osc_start_def)
  have A: "annotate Ground ?p = ?A" by (simp add: annotate_append osc_start_state string_payload)
  have "no_long_sequence ?c ?p" using len by (simp add: no_long_sequence_def)
  then have buf: "rg_buf ?r = ?A" using ring_safe_suffix[of ?c ?p e] len A by (simp add: safe_suffix_def)
  have st: "rg_ansi ?r = StringSeq True" "rg_cap ?r = ?c"
    using push_bytes_ring[of "(ring_new ?c)\<lparr>rg_end := e\<rparr>" "[]" ?p]
    by (simp_all add: ring_new_def osc_start_state string_payload)
  let ?r1 = "ring_push_byte ?x ?r"
  have unsafe: "dropWhile (\<lambda>b. \<not> snd b) (tl (?A @ [(?x, False)])) = []"
    by (simp add: dropWhile_eq_Nil_conv)
  have "trim_buf ?c (?A @ [(?x, False)]) = trim_buf ?c []"
    by (subst trim_buf.simps) (simp only: unsafe, simp)
  then have "rg_buf ?r1 = []"
    using buf st by (simp add: push_byte_buf safe_start_def trim_buf.simps[of _ "[]"])
  moreover have "rg_ansi ?r1 = StringSeq True" "rg_cap ?r1 = ?c"
    using st by (simp_all add: ring_push_byte_def byte_val_def)
  ultimately have "rg_buf (ring_push_byte ?x ?r1) = [(?x, False)]"
    by (simp add: push_byte_buf safe_start_def trim_buf.simps[of _ "[(?x, False)]"])
  moreover have "osc_start @ replicate ?c ?x = ?p @ [?x, ?x]"
    by (simp add: replicate_app_Cons_same)
  ultimately have "snapshot (ring_push (osc_start @ replicate ?c ?x) (ring_new ?c)) = ''x''"
    by (simp add: snapshot_def ring_push_def e_def)
  then show ?thesis by (simp add: osc_start_state string_payload del: replicate_Suc)
qed

end
