(* ===== verification/Viewer_Output.thy ===== *)
theory Viewer_Output
  imports Output_Replay Size_Arbiter
begin

text \<open>
  The output of one attached viewer (\<open>hotsheet-terminals/src/viewer_output.rs\<close>): the pump takes
  the terminal's live chunks, queues frames while there is room, coalesces what does not fit and
  falls back to a replay snapshot when too much is pending or the live channel lagged.  The
  terminal's side is \<open>publish\<close> and \<open>subscribe_with_replay\<close> of \<open>terminal.rs\<close>, atomic under the ring's
  lock; the bounded channels are lists with their capacities.
\<close>

subsection \<open>Data\<close>

definition SCROLLBACK_BYTES :: nat where "SCROLLBACK_BYTES = 256 * 1024"
definition OUTPUT_CHANNEL_CAP :: nat where "OUTPUT_CHANNEL_CAP = 256"
definition VIEWER_QUEUE_FRAMES :: nat where "VIEWER_QUEUE_FRAMES = 32"
definition MAX_COALESCED_BYTES :: nat where "MAX_COALESCED_BYTES = SCROLLBACK_BYTES"

datatype viewer_frame = Output string | Replace string "stream_position option" | SizeFrame decision

record pending_output =
  po_bytes :: string
  po_replace :: bool
  po_replace_end :: "stream_position option"

definition pending_default :: pending_output where
  "pending_default = \<lparr>po_bytes = [], po_replace = False, po_replace_end = None\<rparr>"

definition pending_is_empty :: "pending_output \<Rightarrow> bool" where
  "pending_is_empty p = (po_bytes p = [] \<and> \<not> po_replace p)"

definition over_cap :: "pending_output \<Rightarrow> bool" where
  "over_cap p = (length (po_bytes p) > MAX_COALESCED_BYTES)"

text \<open>The frame queue takes a frame without waiting while it has room.\<close>

definition queue_has_room :: "viewer_frame list \<Rightarrow> bool" where
  "queue_has_room frames = (length frames < VIEWER_QUEUE_FRAMES)"

definition pending_push :: "string \<Rightarrow> pending_output \<times> viewer_frame list \<Rightarrow> pending_output \<times> viewer_frame list" where
  "pending_push chunk pf =
     (let (p, frames) = pf in
      if pending_is_empty p \<and> queue_has_room frames then (p, frames @ [Output chunk])
      else (p\<lparr>po_replace_end := (if po_replace p
                 then map_option (\<lambda>e. e\<lparr>sp_end_offset := sp_end_offset e + length chunk\<rparr>) (po_replace_end p)
                 else po_replace_end p),
              po_bytes := po_bytes p @ chunk\<rparr>, frames))"

definition replace_with :: "string \<Rightarrow> stream_position option \<Rightarrow> pending_output \<Rightarrow> pending_output" where
  "replace_with snap position p = p\<lparr>po_bytes := snap, po_replace := True, po_replace_end := position\<rparr>"

definition pending_take :: "pending_output \<Rightarrow> viewer_frame option \<times> pending_output" where
  "pending_take p =
     (if pending_is_empty p then (None, p)
      else if po_replace p
      then (Some (Replace (po_bytes p) (po_replace_end p)),
            p\<lparr>po_bytes := [], po_replace := False, po_replace_end := None\<rparr>)
      else (Some (Output (po_bytes p)), p\<lparr>po_bytes := []\<rparr>))"

text \<open>The terminal's output boundary, the pump and the viewer.  \<open>vp_stream\<close> is everything the
  terminal has published, \<open>vp_rx\<close> the chunks in the pump's receiver, \<open>vp_lagged\<close> that the
  receiver lost chunks, \<open>vp_delivered\<close> what the writer has sent to the viewer.\<close>

record viewer_pump =
  vp_ring :: ring
  vp_stream :: string
  vp_rx :: "string list"
  vp_lagged :: bool
  vp_pending :: pending_output
  vp_frames :: "viewer_frame list"
  vp_delivered :: "viewer_frame list"

definition publish :: "string \<Rightarrow> viewer_pump \<Rightarrow> viewer_pump" where
  "publish bytes v =
     (let v' = v\<lparr>vp_ring := ring_push bytes (vp_ring v), vp_stream := vp_stream v @ bytes\<rparr> in
      if length (vp_rx v) < OUTPUT_CHANNEL_CAP then v'\<lparr>vp_rx := vp_rx v @ [bytes]\<rparr>
      else v'\<lparr>vp_rx := tl (vp_rx v) @ [bytes], vp_lagged := True\<rparr>)"

definition resync :: "nat \<Rightarrow> viewer_pump \<Rightarrow> viewer_pump" where
  "resync stream v =
     (let r = ring_replay stream (vp_ring v) in
      v\<lparr>vp_rx := [], vp_lagged := False,
        vp_pending := replace_with (rp_data r) (Some (rp_position r)) (vp_pending v)\<rparr>)"

text \<open>The branches of the pump's loop: a permit for the pending frame, a size frame after the
  pending output, and the next live chunk or the report of a lag.\<close>

definition pump_permit :: "viewer_pump \<Rightarrow> viewer_pump" where
  "pump_permit v =
     (if pending_is_empty (vp_pending v) \<or> \<not> queue_has_room (vp_frames v) then v
      else case pending_take (vp_pending v) of
          (None, p) \<Rightarrow> v\<lparr>vp_pending := p\<rparr>
        | (Some f, p) \<Rightarrow> v\<lparr>vp_pending := p, vp_frames := vp_frames v @ [f]\<rparr>)"

definition pump_size :: "decision \<Rightarrow> viewer_pump \<Rightarrow> viewer_pump" where
  "pump_size d v =
     (case pending_take (vp_pending v) of
        (None, p) \<Rightarrow> v\<lparr>vp_pending := p, vp_frames := vp_frames v @ [SizeFrame d]\<rparr>
      | (Some f, p) \<Rightarrow> v\<lparr>vp_pending := p, vp_frames := vp_frames v @ [f, SizeFrame d]\<rparr>)"

definition pump_output :: "nat \<Rightarrow> viewer_pump \<Rightarrow> viewer_pump" where
  "pump_output stream v =
     (if vp_lagged v then resync stream v
      else case vp_rx v of
          [] \<Rightarrow> v
        | chunk # rx \<Rightarrow>
            let (p, frames) = pending_push chunk (vp_pending v, vp_frames v);
                v' = v\<lparr>vp_rx := rx, vp_pending := p, vp_frames := frames\<rparr>
            in if over_cap p then resync stream v' else v')"

definition writer_sends :: "viewer_pump \<Rightarrow> viewer_pump" where
  "writer_sends v =
     (case vp_frames v of [] \<Rightarrow> v
      | f # fs \<Rightarrow> v\<lparr>vp_frames := fs, vp_delivered := vp_delivered v @ [f]\<rparr>)"

text \<open>The attach: the caller subscribes and sends the replay before the pump starts.\<close>

definition attach :: "nat \<Rightarrow> string \<Rightarrow> ring \<Rightarrow> viewer_pump" where
  "attach stream published r =
     (let p = ring_replay stream r in
      \<lparr>vp_ring = r, vp_stream = published, vp_rx = [], vp_lagged = False, vp_pending = pending_default,
       vp_frames = [], vp_delivered = [Replace (rp_data p) (Some (rp_position p))]\<rparr>)"

datatype pump_event = Publish string | ResizeReplay nat | Permit | Size decision | LiveOutput | WriterSends

fun pump_step :: "nat \<Rightarrow> pump_event \<Rightarrow> viewer_pump \<Rightarrow> viewer_pump" where
  "pump_step stream (Publish bytes) v = publish bytes v"
| "pump_step stream (ResizeReplay cap) v = v\<lparr>vp_ring := ring_resize (clamp_replay_bytes cap) (vp_ring v)\<rparr>"
| "pump_step stream Permit v = pump_permit v"
| "pump_step stream (Size d) v = pump_size d v"
| "pump_step stream LiveOutput v = pump_output stream v"
| "pump_step stream WriterSends v = writer_sends v"

subsection \<open>What the viewer shows\<close>

text \<open>The text of the viewer's emulator: output is appended, a replay replaces it.\<close>

fun apply_frame :: "viewer_frame \<Rightarrow> string \<Rightarrow> string" where
  "apply_frame (Output bytes) t = t @ bytes"
| "apply_frame (Replace data position) t = data"
| "apply_frame (SizeFrame d) t = t"

definition shown :: "viewer_frame list \<Rightarrow> string" where
  "shown fs = fold apply_frame fs []"

definition apply_pending :: "pending_output \<Rightarrow> string \<Rightarrow> string" where
  "apply_pending p t = (if po_replace p then po_bytes p else t @ po_bytes p)"

text \<open>The piece of a stream between two offsets.\<close>

definition piece :: "string \<Rightarrow> nat \<Rightarrow> nat \<Rightarrow> string" where
  "piece s from_off to_off = drop from_off (take to_off s)"

definition position_ok :: "nat \<Rightarrow> string \<Rightarrow> viewer_frame \<Rightarrow> bool" where
  "position_ok stream s f =
     (case f of Replace data (Some e) \<Rightarrow>
        sp_stream e = stream \<and> length data \<le> sp_end_offset e \<and> sp_end_offset e \<le> length s
        \<and> data = piece s (sp_end_offset e - length data) (sp_end_offset e)
      | _ \<Rightarrow> True)"

lemma shown_snoc: "shown (fs @ [f]) = apply_frame f (shown fs)"
  by (simp add: shown_def)

lemma take_pending_shown:
  "pending_take p = (Some f, p') \<Longrightarrow> apply_pending p' (shown (fs @ [f])) = apply_pending p (shown fs)"
  "pending_take p = (None, p') \<Longrightarrow> p' = p"
  by (auto simp: pending_take_def pending_is_empty_def apply_pending_def shown_snoc split: if_splits)

lemma push_pending_shown:
  "pending_push chunk (p, fs) = (p', fs') \<Longrightarrow>
     apply_pending p' (shown (ds @ fs')) = apply_pending p (shown (ds @ fs)) @ chunk"
  using shown_snoc[of "ds @ fs" "Output chunk"]
  by (auto simp: pending_push_def pending_is_empty_def apply_pending_def Let_def split: if_splits)

lemma length_piece: "k \<le> m \<Longrightarrow> m \<le> length s \<Longrightarrow> length (piece s k m) = m - k"
  by (simp add: piece_def)

lemma piece_extend:
  "k \<le> m \<Longrightarrow> m \<le> length s \<Longrightarrow> take m s @ c @ rest = s \<Longrightarrow> piece s k m @ c = piece s k (m + length c)"
  unfolding piece_def by (metis append_assoc append_eq_conv_conj drop_append diff_is_0_eq' drop_0
      length_append length_take min.absorb2)

lemma piece_append: "m \<le> length s \<Longrightarrow> piece (s @ t) k m = piece s k m"
  by (simp add: piece_def)

text \<open>Every number of delivered frames shows a contiguous piece of the stream.\<close>

definition pieces_ok :: "string \<Rightarrow> viewer_frame list \<Rightarrow> bool" where
  "pieces_ok s fs = (\<forall>n. \<exists>k m. k \<le> m \<and> m \<le> length s \<and> shown (take n fs) = piece s k m)"

definition replace_ok :: "nat \<Rightarrow> pending_output \<Rightarrow> nat \<Rightarrow> nat \<Rightarrow> bool" where
  "replace_ok stream p k m =
     (if po_replace p
      then is_none_or (po_replace_end p) (\<lambda>e. sp_stream e = stream \<and> sp_end_offset e = m)
           \<and> m - k = length (po_bytes p)
      else po_replace_end p = None)"

definition pump_inv :: "nat \<Rightarrow> viewer_pump \<Rightarrow> nat \<Rightarrow> nat \<Rightarrow> bool" where
  "pump_inv stream v k m =
     (k \<le> m \<and> m \<le> length (vp_stream v)
      \<and> apply_pending (vp_pending v) (shown (vp_delivered v @ vp_frames v)) = piece (vp_stream v) k m
      \<and> (\<not> vp_lagged v \<longrightarrow> take m (vp_stream v) @ concat (vp_rx v) = vp_stream v)
      \<and> ring_of (vp_stream v) (vp_ring v)
      \<and> replace_ok stream (vp_pending v) k m
      \<and> list_all (position_ok stream (vp_stream v)) (vp_delivered v @ vp_frames v)
      \<and> pieces_ok (vp_stream v) (vp_delivered v @ vp_frames v))"

lemma pieces_ok_snoc:
  assumes "pieces_ok s fs" "k \<le> m" "m \<le> length s" "shown (fs @ [f]) = piece s k m"
  shows "pieces_ok s (fs @ [f])"
  unfolding pieces_ok_def
proof
  fix n
  show "\<exists>k m. k \<le> m \<and> m \<le> length s \<and> shown (take n (fs @ [f])) = piece s k m"
  proof (cases "n \<le> length fs")
    case True
    then show ?thesis using assms(1) unfolding pieces_ok_def by simp
  next
    case False
    then have "take n (fs @ [f]) = fs @ [f]" by simp
    then show ?thesis using assms(2-4) by metis
  qed
qed

lemma pieces_ok_append: "pieces_ok s fs \<Longrightarrow> pieces_ok (s @ t) fs"
  unfolding pieces_ok_def by (metis le_trans length_append le_add1 piece_append)

lemma position_ok_append: "position_ok stream s f \<Longrightarrow> position_ok stream (s @ t) f"
  by (auto simp: position_ok_def piece_append split: viewer_frame.split option.split)

lemma list_position_append:
  "list_all (position_ok stream s) fs \<Longrightarrow> list_all (position_ok stream (s @ t)) fs"
  by (auto simp: list_all_iff position_ok_append)

lemma inv_publish:
  assumes "pump_inv stream v k m"
  shows "pump_inv stream (publish bytes v) k m"
  using assms ring_of_push[of "vp_stream v" "vp_ring v" bytes]
  by (auto simp: pump_inv_def publish_def piece_append pieces_ok_append list_position_append Let_def
      simp flip: append_assoc)

lemma inv_resync:
  assumes "pump_inv stream v k m"
  shows "\<exists>k m. pump_inv stream (resync stream v) k m"
proof -
  let ?s = "vp_stream v" and ?d = "snapshot (vp_ring v)"
  have r: "ring_of ?s (vp_ring v)" using assms by (simp add: pump_inv_def)
  note snap = ring_of_snapshot[OF r]
  have "?d = piece ?s (length ?s - length ?d) (length ?s)" using snap(1) by (simp add: piece_def)
  moreover have "rg_end (vp_ring v) = length ?s" using r by (simp add: ring_of_def)
  ultimately have "pump_inv stream (resync stream v) (length ?s - length ?d) (length ?s)"
    using assms snap(2)
    by (simp add: pump_inv_def resync_def ring_replay_def replace_with_def apply_pending_def replace_ok_def Let_def)
  then show ?thesis by blast
qed

text \<open>Queueing the pending frame.\<close>

lemma taken_position:
  assumes "pump_inv stream v k m" "pending_take (vp_pending v) = (Some f, p')"
  shows "position_ok stream (vp_stream v) f" "replace_ok stream p' k m"
proof -
  have "apply_pending (vp_pending v) (shown (vp_delivered v @ vp_frames v)) = piece (vp_stream v) k m"
    "k \<le> m" "m \<le> length (vp_stream v)" "replace_ok stream (vp_pending v) k m"
    using assms(1) by (simp_all add: pump_inv_def)
  with assms(2) show "position_ok stream (vp_stream v) f" "replace_ok stream p' k m"
    by (auto simp: position_ok_def replace_ok_def pending_take_def apply_pending_def is_none_or_iff
        length_piece split: if_splits option.split)
qed

lemma inv_take:
  assumes "pump_inv stream v k m" "pending_take (vp_pending v) = (Some f, p')"
  shows "pump_inv stream (v\<lparr>vp_pending := p', vp_frames := vp_frames v @ [f]\<rparr>) k m"
proof -
  let ?fs = "vp_delivered v @ vp_frames v"
  have i: "apply_pending (vp_pending v) (shown ?fs) = piece (vp_stream v) k m" "k \<le> m"
    "m \<le> length (vp_stream v)" "pieces_ok (vp_stream v) ?fs"
    using assms(1) by (simp_all add: pump_inv_def)
  have sh: "apply_pending p' (shown (?fs @ [f])) = piece (vp_stream v) k m"
    using take_pending_shown(1)[OF assms(2), of ?fs] i(1) by simp
  have "po_bytes p' = [] \<and> \<not> po_replace p'" using assms(2) by (auto simp: pending_take_def split: if_splits)
  then have "shown (?fs @ [f]) = piece (vp_stream v) k m" using sh by (simp add: apply_pending_def)
  from pieces_ok_snoc[OF i(4,2,3) this] sh assms(1) taken_position[OF assms] show ?thesis
    by (simp add: pump_inv_def)
qed

lemma inv_size_frame:
  assumes "pump_inv stream v k m" "pending_is_empty (vp_pending v)"
  shows "pump_inv stream (v\<lparr>vp_frames := vp_frames v @ [SizeFrame d]\<rparr>) k m"
proof -
  let ?fs = "vp_delivered v @ vp_frames v"
  have sh: "shown (?fs @ [SizeFrame d]) = shown ?fs" by (simp add: shown_def)
  have i: "shown ?fs = piece (vp_stream v) k m" "k \<le> m" "m \<le> length (vp_stream v)" "pieces_ok (vp_stream v) ?fs"
    using assms by (simp_all add: pump_inv_def pending_is_empty_def apply_pending_def)
  from pieces_ok_snoc[OF i(4,2,3), of "SizeFrame d"] sh i(1) assms(1) show ?thesis
    by (simp add: pump_inv_def position_ok_def)
qed

lemma inv_permit: "pump_inv stream v k m \<Longrightarrow> pump_inv stream (pump_permit v) k m"
  using inv_take[of stream v k m] take_pending_shown(2)[of "vp_pending v"]
  by (auto simp: pump_permit_def split: prod.split option.split)

lemma taken_empty: "pending_take p = (r, p') \<Longrightarrow> pending_is_empty p'"
  by (auto simp: pending_take_def pending_is_empty_def split: if_splits)

lemma inv_size: 
  assumes "pump_inv stream v k m"
  shows "pump_inv stream (pump_size d v) k m"
proof (cases "pending_take (vp_pending v)")
  case (Pair r p')
  show ?thesis
  proof (cases r)
    case None
    then have "p' = vp_pending v" using take_pending_shown(2) Pair by blast
    then show ?thesis using inv_size_frame[OF assms, of d] taken_empty[OF Pair] None Pair
      by (simp add: pump_size_def)
  next
    case (Some f)
    let ?v = "v\<lparr>vp_pending := p', vp_frames := vp_frames v @ [f]\<rparr>"
    have "pump_inv stream ?v k m" using inv_take[OF assms] Pair Some by simp
    from inv_size_frame[OF this, of d] taken_empty[OF Pair] Some Pair show ?thesis
      by (simp add: pump_size_def)
  qed
qed

lemma push_replace_ok:
  assumes "replace_ok stream p k m" "pending_push chunk (p, fs) = (p', fs')" "k \<le> m"
  shows "replace_ok stream p' k (m + length chunk)"
  using assms
  by (auto simp: replace_ok_def pending_push_def pending_is_empty_def is_none_or_iff Let_def split: if_splits)

lemma push_frames:
  "pending_push chunk (p, fs) = (p', fs') \<Longrightarrow> fs' = fs \<or> fs' = fs @ [Output chunk] \<and> pending_is_empty p'"
  by (auto simp: pending_push_def Let_def split: if_splits)

lemma inv_chunk:
  assumes "pump_inv stream v k m" "\<not> vp_lagged v" "vp_rx v = chunk # rx"
    "pending_push chunk (vp_pending v, vp_frames v) = (p', fs')"
  shows "pump_inv stream (v\<lparr>vp_rx := rx, vp_pending := p', vp_frames := fs'\<rparr>) k (m + length chunk)"
proof -
  let ?fs = "vp_delivered v @ vp_frames v" and ?s = "vp_stream v"
  have i: "apply_pending (vp_pending v) (shown ?fs) = piece ?s k m" "k \<le> m" "m \<le> length ?s"
    "take m ?s @ chunk @ concat rx = ?s" "replace_ok stream (vp_pending v) k m" "pieces_ok ?s ?fs"
    "list_all (position_ok stream ?s) ?fs"
    using assms(1-3) by (simp_all add: pump_inv_def)
  have m: "m + length chunk \<le> length ?s" using i(3,4)
    by (metis length_append length_take min.absorb2 add_le_cancel_left le_add1)
  have tk: "take (m + length chunk) ?s @ concat rx = ?s"
    using i(3,4) by (metis append_assoc append_eq_conv_conj length_append length_take min.absorb2)
  have sh: "apply_pending p' (shown (vp_delivered v @ fs')) = piece ?s k (m + length chunk)"
    using push_pending_shown[OF assms(4), of "vp_delivered v"] i(1) piece_extend[OF i(2-4)] by simp
  have "pieces_ok ?s (vp_delivered v @ fs') \<and> list_all (position_ok stream ?s) (vp_delivered v @ fs')"
    using push_frames[OF assms(4)]
  proof
    assume "fs' = vp_frames v"
    then show ?thesis using i(6,7) by simp
  next
    assume f: "fs' = vp_frames v @ [Output chunk] \<and> pending_is_empty p'"
    then have "shown (?fs @ [Output chunk]) = piece ?s k (m + length chunk)"
      using sh by (simp add: pending_is_empty_def apply_pending_def)
    from pieces_ok_snoc[OF i(6) _ m this] i(2,7) f show ?thesis by (simp add: position_ok_def)
  qed
  then show ?thesis
    using assms(1,2) sh tk m i(2) push_replace_ok[OF i(5) assms(4) i(2)] by (simp add: pump_inv_def)
qed

lemma inv_output:
  assumes "pump_inv stream v k m"
  shows "\<exists>k m. pump_inv stream (pump_output stream v) k m"
proof (cases "vp_lagged v \<or> vp_rx v = []")
  case True
  then show ?thesis using inv_resync[OF assms] assms
    by (cases "vp_lagged v") (simp_all add: pump_output_def, blast)
next
  case False
  then obtain chunk rx p' fs' where c: "vp_rx v = chunk # rx" "\<not> vp_lagged v"
    "pending_push chunk (vp_pending v, vp_frames v) = (p', fs')"
    by (cases "vp_rx v"; cases "pending_push (hd (vp_rx v)) (vp_pending v, vp_frames v)") auto
  from inv_chunk[OF assms c(2,1,3)] inv_resync[OF inv_chunk[OF assms c(2,1,3)]] c show ?thesis
    by (auto simp: pump_output_def Let_def)
qed

lemma inv_pump_step:
  assumes "\<exists>k m. pump_inv stream v k m"
  shows "\<exists>k m. pump_inv stream (pump_step stream e v) k m"
proof -
  obtain k m where i: "pump_inv stream v k m" using assms by blast
  show ?thesis
  proof (cases e)
    case (ResizeReplay cap)
    then show ?thesis using i ring_of_resize by (fastforce simp: pump_inv_def)
  next
    case WriterSends
    have "pump_inv stream (writer_sends v) k m"
      using i by (cases "vp_frames v") (simp_all add: pump_inv_def writer_sends_def)
    then show ?thesis using WriterSends by auto
  qed (use inv_publish[OF i] inv_permit[OF i] inv_size[OF i] inv_output[OF i] in \<open>simp_all, blast+\<close>)
qed

lemma inv_attach:
  assumes "ring_of s r"
  shows "\<exists>k m. pump_inv stream (attach stream s r) k m"
proof -
  note snap = ring_of_snapshot[OF assms]
  have d: "snapshot r = piece s (length s - length (snapshot r)) (length s)" using snap(1) by (simp add: piece_def)
  have e: "rg_end r = length s" using assms by (simp add: ring_of_def)
  let ?f = "Replace (snapshot r) (Some \<lparr>sp_stream = stream, sp_end_offset = rg_end r\<rparr>)"
  have "pieces_ok s []" unfolding pieces_ok_def by (auto simp: shown_def piece_def intro!: exI[of _ 0])
  from pieces_ok_snoc[OF this, of "length s - length (snapshot r)" "length s" ?f] d
  have "pieces_ok s [?f]" by (simp add: shown_def)
  then have "pump_inv stream (attach stream s r) (length s - length (snapshot r)) (length s)"
    using assms d e snap(2)
    by (simp add: pump_inv_def attach_def ring_replay_def pending_default_def apply_pending_def replace_ok_def
        position_ok_def shown_def Let_def)
  then show ?thesis by blast
qed

lemma inv_pump_run: "\<exists>k m. pump_inv stream v k m \<Longrightarrow> \<exists>k m. pump_inv stream (fold (pump_step stream) es v) k m"
proof (induction es arbitrary: v)
  case (Cons e es)
  then show ?case using Cons.IH[OF inv_pump_step[OF Cons.prems]] by simp
qed simp

subsection \<open>Memory\<close>

definition pump_bounded :: "viewer_pump \<Rightarrow> bool" where
  "pump_bounded v =
     (rg_cap (vp_ring v) \<le> REPLAY_BYTES_MAX \<and> length (rg_buf (vp_ring v)) \<le> REPLAY_BYTES_MAX
      \<and> length (po_bytes (vp_pending v)) \<le> REPLAY_BYTES_MAX \<and> length (vp_rx v) \<le> OUTPUT_CHANNEL_CAP)"

lemma ring_push_cap: "rg_cap (ring_push bs r) = rg_cap r"
proof -
  have "rg_cap (fold ring_push_byte bs r) = rg_cap r" for r
    by (induction bs arbitrary: r) (simp_all add: ring_push_byte_def)
  then show ?thesis by (simp add: ring_push_def)
qed

lemma ring_push_buf:
  assumes "length (rg_buf r) \<le> n" "rg_cap r \<le> n"
  shows "length (rg_buf (ring_push bs r)) \<le> n"
proof -
  have "length (rg_buf r) \<le> n \<Longrightarrow> rg_cap r \<le> n \<Longrightarrow> length (rg_buf (fold ring_push_byte bs r)) \<le> n" for r
  proof (induction bs arbitrary: r)
    case (Cons b bs)
    have "length (rg_buf (ring_push_byte b r)) \<le> n" "rg_cap (ring_push_byte b r) \<le> n"
      using le_trans[OF trim_buf_length Cons.prems(2)] Cons.prems(2) by (simp_all add: ring_push_byte_def)
    with Cons.IH show ?case by simp
  qed simp
  with assms show ?thesis by (simp add: ring_push_def)
qed

lemma clamp_le: "clamp_replay_bytes n \<le> REPLAY_BYTES_MAX"
  by (simp add: clamp_replay_bytes_def)

lemma small_caps: "MAX_COALESCED_BYTES \<le> REPLAY_BYTES_MAX" "0 < OUTPUT_CHANNEL_CAP"
  by (simp_all add: MAX_COALESCED_BYTES_def SCROLLBACK_BYTES_def REPLAY_BYTES_MAX_def OUTPUT_CHANNEL_CAP_def)

lemma resync_bounded:
  "rg_cap (vp_ring v) \<le> REPLAY_BYTES_MAX \<Longrightarrow> length (rg_buf (vp_ring v)) \<le> REPLAY_BYTES_MAX \<Longrightarrow>
     pump_bounded (resync stream v)"
  by (simp add: pump_bounded_def resync_def ring_replay_def replace_with_def snapshot_def Let_def)

lemma bounded_step:
  assumes "pump_bounded v"
  shows "pump_bounded (pump_step stream e v)"
proof (cases e)
  case (Publish bs)
  then show ?thesis
    using assms small_caps(2) by (auto simp: pump_bounded_def publish_def ring_push_cap ring_push_buf Let_def)
next
  case (ResizeReplay cap)
  then show ?thesis
    using assms clamp_le[of cap] trim_buf_length[of "clamp_replay_bytes cap" "rg_buf (vp_ring v)"]
    by (simp add: pump_bounded_def ring_resize_def)
next
  case Permit
  then show ?thesis
    using assms by (auto simp: pump_bounded_def pump_permit_def pending_take_def)
next
  case (Size d)
  then show ?thesis
    using assms by (auto simp: pump_bounded_def pump_size_def pending_take_def)
next
  case LiveOutput
  show ?thesis
  proof (cases "vp_lagged v \<or> vp_rx v = []")
    case True
    then show ?thesis
      using assms LiveOutput resync_bounded[of v stream] by (auto simp: pump_output_def pump_bounded_def)
  next
    case False
    then obtain c rx p fs where "vp_rx v = c # rx" "\<not> vp_lagged v"
      "pending_push c (vp_pending v, vp_frames v) = (p, fs)"
      by (cases "vp_rx v"; cases "pending_push (hd (vp_rx v)) (vp_pending v, vp_frames v)") auto
    then show ?thesis
      using assms LiveOutput small_caps(1) le_trans
        resync_bounded[of "v\<lparr>vp_rx := rx, vp_pending := p, vp_frames := fs\<rparr>" stream]
      by (auto simp: pump_output_def pump_bounded_def over_cap_def Let_def)
  qed
next
  case WriterSends
  then show ?thesis using assms by (auto simp: pump_bounded_def writer_sends_def split: list.split)
qed

lemma bounded_run: "pump_bounded v \<Longrightarrow> pump_bounded (fold (pump_step stream) es v)"
  by (induction es arbitrary: v) (simp_all add: bounded_step)

lemma ring_steps_cap: "rg_cap r \<le> REPLAY_BYTES_MAX \<Longrightarrow> rg_cap (fold ring_step ops r) \<le> REPLAY_BYTES_MAX"
  by (induction ops arbitrary: r rule: pushed.induct) (simp_all add: ring_push_cap ring_resize_def clamp_le)

lemma delivered_pieces:
  assumes "pump_inv stream v k m"
  shows "\<exists>k m. k \<le> m \<and> m \<le> length (vp_stream v) \<and> shown (take n (vp_delivered v)) = piece (vp_stream v) k m"
proof -
  have "pieces_ok (vp_stream v) (vp_delivered v @ vp_frames v)" using assms by (simp add: pump_inv_def)
  then have "\<exists>k m. k \<le> m \<and> m \<le> length (vp_stream v)
      \<and> shown (take (min n (length (vp_delivered v))) (vp_delivered v @ vp_frames v)) = piece (vp_stream v) k m"
    unfolding pieces_ok_def by blast
  then show ?thesis by (simp add: min_def split: if_splits)
qed

lemma pump_reaches_end:
  assumes "pump_inv stream v k m" "\<not> vp_lagged v"
  shows "apply_pending (vp_pending v) (shown (vp_delivered v @ vp_frames v)) @ concat (vp_rx v)
    = drop k (vp_stream v)"
proof -
  have tk: "take m (vp_stream v) @ concat (vp_rx v) = vp_stream v" and km: "k \<le> m" "m \<le> length (vp_stream v)"
    and ap: "apply_pending (vp_pending v) (shown (vp_delivered v @ vp_frames v)) = piece (vp_stream v) k m"
    using assms by (simp_all add: pump_inv_def)
  have "drop k (take m (vp_stream v) @ concat (vp_rx v)) = piece (vp_stream v) k m @ concat (vp_rx v)"
    using km by (simp add: piece_def)
  with tk ap show ?thesis by simp
qed


end
