(* ===== verification/Spec2Isabelle.thy ===== *)
theory Spec2Isabelle
  imports Provider_Overlay Permission_Shared Ticket_Merge Store_Reachable Dist_Safety Advisory_Claim Feedback_Choices Worklist Osc_Scanner Size_Takeover Input_Queue Viewer_Output
begin

text \<open>
  Verification of the core of Hot Sheet 2, a ticket system whose tickets are Markdown files in a
  git repository, worked on by humans and by AI workers that claim tickets, with shared terminals
  for watching them.  All sources are below \<open>src/crates\<close>.

  \<^bold>\<open>The program.\<close>  \<open>hotsheet-model\<close> defines tickets, notes, identifiers, timestamps and the file
  format.  \<open>hotsheet-ticketing\<close> keeps a store of ticket files (\<open>store.rs\<close>), implements every
  operation on tickets over it (\<open>ops.rs\<close>: query, create, update, notes, close, Trash, claims,
  handoff), merges diverged tickets (\<open>merge.rs\<close>) and coordinates workers without a server through
  references of a git remote (\<open>distclaim.rs\<close>, \<open>distwork.rs\<close>); edits to tickets of external trackers
  wait in an outbox (\<open>provider_outbox.rs\<close>) that the server dispatches.  \<open>hotsheet-aitools\<close> answers the permission requests of
  AI tools from reviewed rules or asks a person (\<open>permission.rs\<close>).  \<open>hotsheet-terminals\<close> runs terminals that
  several viewers watch: one arbiter decides the size, one queue takes the input, a ring and
  per-viewer pumps deliver the output, scanners read its escape sequences.  The server, the
  command line, the tool protocol and the web client call these crates.

  \<^bold>\<open>Theories.\<close>
  \<^item> \<open>Hotsheet_Prelude\<close>: results, options, orderings, stable sorting and ordered maps of the Rust
    standard library; locales \<open>total_cmp\<close>, \<open>strict_total_cmp\<close> (comparators) and \<open>ordered_map\<close>.
    \<open>Rust_Str\<close>, \<open>Str_Facts\<close>: \<open>str\<close> methods on UTF-8 byte strings and their laws.
  \<^item> \<open>Ticket_Model\<close>, \<open>Ticket_Feedback\<close>: \<open>enums.rs\<close>, \<open>ids.rs\<close>, \<open>timestamp.rs\<close>, \<open>ticket_ref.rs\<close>,
    \<open>ticket.rs\<close>.  The record \<open>platform\<close> holds what the crates outside provide (ULID text, RFC 3339,
    YAML, JSON, hashing, Unicode case).  \<open>Demo_Platform\<close> is a concrete platform.
  \<^item> \<open>Ticket_File\<close>: reader and writer of \<open>format.rs\<close>; \<open>File_Roundtrip\<close> proves that a written ticket
    parses back to itself, that no user text can pass for a marker, and shows two texts on which
    the parser panics.
  \<^item> \<open>Ticket_Store\<close>: \<open>store.rs\<close> over the record \<open>fs_store\<close> (files, metadata, git state);
    \<open>Store_Laws\<close> proves the contract \<open>keyed_store\<close>: the store is a map from ids to tickets.
  \<^item> \<open>Ticket_Lifecycle\<close>, \<open>Checkout_Order\<close>, \<open>Ticket_Query\<close>, \<open>Ticket_Ops\<close>, \<open>Note_Ops\<close>, \<open>Claim_Ops\<close>:
    \<open>ops.rs\<close> and \<open>checkout_order.rs\<close>.  \<open>Ticket_Reachable\<close> is the step relation of one ticket with
    its invariant (lifecycle rules, claim coherence, the claim history a faithful log);
    \<open>Store_Reachable\<close> lifts it to runs of store operations; \<open>Claim_Safety\<close> gives the exact outcome
    of claims, renewals, handoffs and of claiming across stores.
  \<^item> \<open>Ticket_Merge\<close>: \<open>merge.rs\<close>; both sides compute the same merge, nothing recorded is lost, and a
    counterexample to the lifecycle rules under merging.
  \<^item> \<open>Dist_Claim\<close>, \<open>Dist_Safety\<close>: \<open>distclaim.rs\<close>, \<open>distwork.rs\<close> over a git command that is a
    parameter; won markers are exclusive, selection follows the local order, sweeps can race.
    \<open>Advisory_Claim\<close>: \<open>advisory_claim.rs\<close>, \<open>advisory_claim_v2.rs\<close>; reconciliation of provider markers
    is independent of their delivery, exact when unconflicted, and unchanged by reclaiming.
  \<^item> \<open>Project_Settings\<close>: \<open>settings.rs\<close>; the three settings files refine a map per scope, newer files
    are never overwritten, local ones are ignored by git, and conditional writes at the home
    directory block.  \<open>Worklist\<close>: \<open>worklist.rs\<close>, \<open>auto_context.rs\<close>; guidance layered over the scopes,
    and the worklist of a checkout is exactly its queue.
  \<^item> \<open>Provider_Outbox\<close>: \<open>provider_outbox.rs\<close>, each SQL statement an update or query of a record of
    rows; an edit is never admitted twice, the queue stays bounded, each ticket has at most its
    oldest edit in flight, and the pending edits project on the remote ticket.  \<open>Write_Behind\<close>:
    \<open>provider_write_behind.rs\<close> of the server over it; a job settles its edit under every
    interference, delivers it to a tracker that answers and records what it overwrote, a repeated
    request changes nothing, and a discard can miss an edit sent meanwhile.  \<open>Keyset_Page\<close>: filter,
    order and pages of \<open>provider.rs\<close>, the walk over native pages equal to the page of the complete
    result.  \<open>Provider_Overlay\<close>: \<open>provider_overlay.rs\<close>; the merged page equals the page of the list
    with every pending edit applied.
  \<^item> \<open>Permission_Pattern\<close> (\<open>permission_pattern.rs\<close>: what a reviewed pattern matches, the regex engine a
    parameter with the laws of the fragment the code builds), \<open>Permission_Rules\<close>,
    \<open>Permission_Bridge\<close>, \<open>Permission_Vault\<close>, \<open>Permission_Shared\<close> (\<open>permission.rs\<close>,
    \<open>permission_vault.rs\<close>): rules and their precedence, the queue of requests, durable rules in the
    vault, and the bridge that threads share.  No request is lost, an automatic answer comes from
    a rule a person granted for it, an answer reaches its waiter, an unreadable vault asks.
  \<^item> \<open>Feedback_Choices\<close>: \<open>feedback_choices.rs\<close>; a parsed prompt is split without loss or overlap.
  \<^item> \<open>Osc_Scanner\<close>: \<open>osc.rs\<close>, \<open>busy.rs\<close>; locale \<open>osc_machine\<close>, both byte machines equal a parse of the
    whole stream.  \<open>Size_Arbiter\<close>, \<open>Size_Takeover\<close>: \<open>sizing.rs\<close> and the sizing calls of
    \<open>terminal.rs\<close>; invariant, rate limit, who may take the size and who gets it.  \<open>Input_Queue\<close>:
    \<open>input_queue.rs\<close>; order, budget, drain.  \<open>Output_Replay\<close>, \<open>Viewer_Output\<close>: the replay ring of
    \<open>terminal.rs\<close> and \<open>viewer_output.rs\<close>; what a viewer shows is the stream.

  \<^bold>\<open>State and effects.\<close>  Operations take and return the store (or arbiter, queue, ring, pump) and an
  error or a value; a Rust panic is a value of its own.  What other threads or processes do
  between two critical sections is a parameter of the definition or an event of a run, so the
  theorems on runs hold for every interleaving of the modelled steps.  Locks are held for a whole
  operation as in the code (\<open>with_ticket_transaction\<close>, the mutexes of the terminal).

  \<^bold>\<open>Numbers.\<close>  ULIDs and hashes are words; terminal sizes are 16-bit words with their areas at 32
  bits; counters that the code keeps in 64 bits and only increments (offsets, attach numbers,
  byte counts, milliseconds) are naturals, with saturating subtraction where the code saturates;
  durations are integers with the 64-bit range checked where the code panics; the outbox saturates
  its clock arithmetic at 64 bits, and the ids of permission requests wrap at 64 bits.

  \<^bold>\<open>Loops and bounds.\<close>  Every definition is total.  Claiming across stores retries at most the
  source's sixteen times; the trailing size decision is a list of wake-up delays, and three
  wake-ups are proved enough; the writer of the input queue is proved to drain it in two turns per
  chunk and two more.  Walks over the pages of a tracker are option functions, \<open>None\<close> a walk that
  never ends; the walk of \<open>Keyset_Page\<close> is proved to end.  Nothing needs fuel.

  \<^bold>\<open>Not modelled.\<close>  Attachment payloads, git plumbing and the background committer of \<open>store.rs\<close>;
  registry files, compaction and provider adapters of \<open>hotsheet-ticketing\<close>; the encryption and key
  store of the permission vault and the tool launchers of \<open>hotsheet-aitools\<close>; PTY,
  process and socket handling of \<open>hotsheet-terminals\<close>; the SQLite index, server, command line,
  tool protocol and integrations: they are input and output, serialisation or asynchronous
  plumbing around the operations modelled here.
\<close>

end
